(* ===== verification/Torrent_Prelude.thy ===== *)
theory Torrent_Prelude
  imports Main "HOL-Library.Word" "HOL-Library.AList"
begin

text \<open>
  Shared vocabulary of the development: the C++ integer types of
  \<^verbatim>\<open>include/torrent/common/types.h\<close>, the two associative containers the sources use
  (\<^verbatim>\<open>std::map\<close> as a list sorted by key, \<^verbatim>\<open>std::unordered_map\<close> as an association list
  of \<open>HOL-Library.AList\<close>), and the generic lemmas on lists, words and bytes.

  Offsets, log indices, terms and broker ids are signed 64- and 32-bit integers in the source;
  they are modelled as \<open>int\<close> because the code only increments and compares them. Where a value
  crosses the wire or a file it becomes a \<open>64 word\<close> or \<open>32 word\<close>, with the truncation
  written out.
\<close>

unbundle bit_operations_syntax

type_synonym byte = "8 word"
type_synonym u32 = "32 word"
type_synonym u64 = "64 word"
type_synonym bytes = "byte list"

type_synonym broker_id = int
type_synonym log_offset = int
type_synonym timestamp_ms = int

text \<open>The error codes of \<^verbatim>\<open>enum class error_code\<close> that the modelled operations return.\<close>

datatype error_code =
  corrupt_message | not_leader_for_partition | broker_not_available | invalid_topic_exception
  | illegal_generation | inconsistent_group_protocol | invalid_group_id | unknown_member_id
  | rebalance_in_progress | invalid_partitions | invalid_producer_epoch | invalid_txn_state
  | invalid_transaction_timeout | unknown_producer_id | reassignment_in_progress | non_empty_group
  | group_id_not_found | member_id_required | group_max_size_reached | producer_fenced
  | shutdown_in_progress | partition_not_found | internal_queue_full | storage_unavailable
  | fenced_leader_epoch | topic_already_exists | unknown_topic_or_partition
  | invalid_replication_factor | invalid_config | not_controller | segment_corrupted
  | offset_out_of_range | invalid_record

text \<open>A call returns a result, or waits for ever.\<close>

datatype 'a outcome = Returned "error_code + 'a" | Blocked

named_theorems wire "round-trip laws of the byte codecs"
named_theorems frame "fields that an operation leaves alone"

section \<open>Ordered maps\<close>

text \<open>
  A \<^verbatim>\<open>std::map\<close> is the list of its (key, value) pairs in iteration order. \<open>omap_put\<close> is
  \<^verbatim>\<open>m[k] = v\<close>; the erase loops of the sources remove a prefix or a suffix of the iteration
  order and are written with \<open>dropWhile\<close> and \<open>takeWhile\<close>.
\<close>

fun omap_put :: "'k::linorder \<Rightarrow> 'v \<Rightarrow> ('k \<times> 'v) list \<Rightarrow> ('k \<times> 'v) list" where
  "omap_put k v [] = [(k, v)]"
| "omap_put k v ((i, w) # m) =
     (if k < i then (k, v) # (i, w) # m
      else if k = i then (k, v) # m
      else (i, w) # omap_put k v m)"

definition omap_inv :: "('k::linorder \<times> 'v) list \<Rightarrow> bool" where
  "omap_inv m \<longleftrightarrow> sorted_wrt (<) (map fst m)"

definition omap_erase_below :: "'k::linorder \<Rightarrow> ('k \<times> 'v) list \<Rightarrow> ('k \<times> 'v) list" where
  "omap_erase_below k m = dropWhile (\<lambda>p. fst p < k) m"

definition omap_erase_upto :: "'k::linorder \<Rightarrow> ('k \<times> 'v) list \<Rightarrow> ('k \<times> 'v) list" where
  "omap_erase_upto k m = dropWhile (\<lambda>p. fst p \<le> k) m"

definition omap_erase_from :: "'k::linorder \<Rightarrow> ('k \<times> 'v) list \<Rightarrow> ('k \<times> 'v) list" where
  "omap_erase_from k m = takeWhile (\<lambda>p. fst p < k) m"

text \<open>Greatest element with key at most \<open>k\<close>: \<^verbatim>\<open>--m.upper_bound(k)\<close>.\<close>

definition omap_floor :: "'k::linorder \<Rightarrow> ('k \<times> 'v) list \<Rightarrow> ('k \<times> 'v) option" where
  "omap_floor k m =
     (let below = takeWhile (\<lambda>p. fst p \<le> k) m
      in if below = [] then None else Some (last below))"

section \<open>Lemmas\<close>

lemma omap_inv_Nil [simp, intro!]: "omap_inv []"
  by (simp add: omap_inv_def)

lemma omap_inv_Cons: "omap_inv (p # m) \<longleftrightarrow> (\<forall>q \<in> set m. fst p < fst q) \<and> omap_inv m"
  by (auto simp: omap_inv_def)

lemma set_omap_put: "set (omap_put k v m) \<subseteq> insert (k, v) (set m)"
  by (induction k v m rule: omap_put.induct) auto

lemma keys_omap_put: "fst ` set (omap_put k v m) = insert k (fst ` set m)"
  by (induction k v m rule: omap_put.induct) auto

lemma omap_put_fst: "q \<in> set (omap_put k v m) \<Longrightarrow> fst q = k \<or> q \<in> set m"
  using set_omap_put [of k v m] by auto

lemma omap_inv_put: "omap_inv m \<Longrightarrow> omap_inv (omap_put k v m)"
proof (induction k v m rule: omap_put.induct)
  case (1 k v)
  then show ?case by (simp add: omap_inv_Cons)
next
  case (2 k v i w m)
  consider "k < i" | "k = i" | "i < k" by fastforce
  then show ?case
  proof cases
    case 1
    with 2 show ?thesis by (force simp: omap_inv_Cons)
  next
    case 2
    with "2.prems" show ?thesis by (auto simp: omap_inv_Cons)
  next
    case 3
    with 2 show ?thesis by (auto simp: omap_inv_Cons dest: omap_put_fst)
  qed
qed

lemma map_of_omap_put: "omap_inv m \<Longrightarrow> map_of (omap_put k v m) = (map_of m)(k \<mapsto> v)"
  by (induction k v m rule: omap_put.induct) (auto simp: omap_inv_Cons fun_eq_iff)

lemma omap_inv_distinct: "omap_inv m \<Longrightarrow> distinct (map fst m)"
  by (induction m) (auto simp: omap_inv_Cons)

lemma omap_inv_erase [intro]:
  "omap_inv m \<Longrightarrow> omap_inv (omap_erase_below k m)"
  "omap_inv m \<Longrightarrow> omap_inv (omap_erase_upto k m)"
  "omap_inv m \<Longrightarrow> omap_inv (omap_erase_from k m)"
  unfolding omap_erase_below_def omap_erase_upto_def omap_erase_from_def
  by (induction m) (auto simp: omap_inv_Cons dest: set_takeWhileD)

lemma omap_inv_le_last: "omap_inv m \<Longrightarrow> p \<in> set m \<Longrightarrow> fst p \<le> fst (last m)"
proof (induction m rule: rev_induct)
  case (snoc q m)
  then show ?case by (auto simp: omap_inv_def sorted_wrt_append)
qed simp

lemma set_omap_erase_below:
  "omap_inv m \<Longrightarrow> set (omap_erase_below k m) = {p \<in> set m. k \<le> fst p}"
  by (induction m) (force simp: omap_inv_Cons omap_erase_below_def)+

lemma set_omap_erase_upto:
  "omap_inv m \<Longrightarrow> set (omap_erase_upto k m) = {p \<in> set m. k < fst p}"
  by (induction m) (force simp: omap_inv_Cons omap_erase_upto_def)+

lemma set_omap_erase_from:
  "omap_inv m \<Longrightarrow> set (omap_erase_from k m) = {p \<in> set m. fst p < k}"
  by (induction m) (force simp: omap_inv_Cons omap_erase_from_def)+

lemma map_of_omap_filter:
  assumes "omap_inv m" "omap_inv m'" "set m' = {p \<in> set m. P (fst p)}"
  shows "map_of m' i = (if P i then map_of m i else None)"
proof -
  have "map_of m' i = Some v \<longleftrightarrow> P i \<and> map_of m i = Some v" for v
    using assms by (auto simp: map_of_eq_Some_iff omap_inv_distinct)
  then show ?thesis
    by (metis (full_types) not_None_eq)
qed

lemma map_of_omap_erase:
  assumes "omap_inv m"
  shows "map_of (omap_erase_below k m) i = (if k \<le> i then map_of m i else None)"
    and "map_of (omap_erase_upto k m) i = (if k < i then map_of m i else None)"
    and "map_of (omap_erase_from k m) i = (if i < k then map_of m i else None)"
  by (rule map_of_omap_filter [of m]; use assms in \<open>auto simp: set_omap_erase_below
    set_omap_erase_upto set_omap_erase_from\<close>)+

lemma fold_invariant: "(\<And>x s. x \<in> set xs \<Longrightarrow> I s \<Longrightarrow> I (f x s)) \<Longrightarrow> I s \<Longrightarrow> I (fold f xs s)"
  by (induction xs arbitrary: s) auto

section \<open>Unordered maps\<close>

text \<open>
  A \<^verbatim>\<open>std::unordered_map\<close> is an association list with distinct keys; \<open>AList.update\<close> is
  \<^verbatim>\<open>m[k] = v\<close> and \<open>AList.delete\<close> is \<^verbatim>\<open>erase\<close>. Its iteration order is not specified: code that
  takes \<^verbatim>\<open>begin()\<close> takes the key at a position that the model is given.
\<close>

definition begin_key :: "nat \<Rightarrow> ('k \<times> 'v) list \<Rightarrow> 'k" where
  "begin_key h m = fst (m ! (h mod length m))"

definition alist_all :: "('k \<Rightarrow> 'v \<Rightarrow> bool) \<Rightarrow> ('k \<times> 'v) list \<Rightarrow> bool" where
  "alist_all P m = list_all (\<lambda>(k, v). P k v) m"

text \<open>A loop over all entries that changes the values in place.\<close>

definition map_entries :: "('k \<Rightarrow> 'v \<Rightarrow> 'v) \<Rightarrow> ('k \<times> 'v) list \<Rightarrow> ('k \<times> 'v) list" where
  "map_entries f m = map (\<lambda>(i, v). (i, f i v)) m"

lemma pair_key: "(k, v) \<in> set m \<Longrightarrow> k \<in> fst ` set m"
  by force

lemma known_key: "map_of m k = Some v \<Longrightarrow> k \<in> fst ` set m"
  by (rule pair_key, rule map_of_SomeD)

lemma begin_key_in: "m \<noteq> [] \<Longrightarrow> begin_key h m \<in> fst ` set m"
  by (simp add: begin_key_def)

lemma alist_all_update: "alist_all P m \<Longrightarrow> P k v \<Longrightarrow> alist_all P (AList.update k v m)"
  by (induction m) (auto simp: alist_all_def)

lemma alist_all_replace:
  assumes "distinct (map fst m)" "alist_all (\<lambda>i v. i \<noteq> k \<longrightarrow> P i v) m" "P k v"
  shows "alist_all P (AList.update k v m)"
proof -
  have rest: "k \<notin> fst ` set xs \<Longrightarrow> alist_all (\<lambda>i v. i \<noteq> k \<longrightarrow> P i v) xs \<Longrightarrow> alist_all P xs" for xs
    by (induction xs) (auto simp: alist_all_def)
  show ?thesis using assms by (induction m) (auto simp: alist_all_def dest: rest [unfolded alist_all_def])
qed

lemma alist_all_delete: "alist_all P m \<Longrightarrow> alist_all P (AList.delete k m)"
  by (induction m) (auto simp: alist_all_def)

lemma alist_all_lookup: "alist_all P m \<Longrightarrow> map_of m k = Some v \<Longrightarrow> P k v"
  by (auto simp: alist_all_def list_all_iff dest!: map_of_SomeD)

lemma alist_all_mono: "alist_all P m \<Longrightarrow> (\<And>i v. i \<in> fst ` set m \<Longrightarrow> P i v \<Longrightarrow> Q i v) \<Longrightarrow> alist_all Q m"
  by (fastforce simp: alist_all_def list_all_iff)

lemma alist_all_filter: "alist_all P m \<Longrightarrow> alist_all P (filter f m)"
  by (auto simp: alist_all_def list_all_iff)

lemma alist_all_entries [simp]: "alist_all P (map_entries f m) = alist_all (\<lambda>i v. P i (f i v)) m"
  by (induction m) (auto simp: alist_all_def map_entries_def)

lemma map_fst_entries [simp]: "map fst (map_entries f m) = map fst m"
  by (induction m) (auto simp: map_entries_def)

lemma keys_entries [simp]: "fst ` set (map_entries f m) = fst ` set m"
  by (metis list.set_map map_fst_entries)

lemma map_of_entries [simp]: "map_of (map_entries f m) k = map_option (f k) (map_of m k)"
  by (induction m) (auto simp: map_entries_def)

lemma entries_shape [simp]: "map_entries f m = [] \<longleftrightarrow> m = []" "length (map_entries f m) = length m"
  by (simp_all add: map_entries_def)

lemma length_update: "length (AList.update k v m) = (if k \<in> fst ` set m then length m else Suc (length m))"
  by (induction m) auto

lemma keys_update [simp]: "fst ` set (AList.update k v m) = insert k (fst ` set m)"
  using dom_update [of k v m] by (simp add: dom_map_of_conv_image_fst)

text \<open>A quantity summed over the values of a map.\<close>

definition alist_sum :: "('v \<Rightarrow> int) \<Rightarrow> ('k \<times> 'v) list \<Rightarrow> int" where
  "alist_sum f m = sum_list (map (\<lambda>(k, v). f v) m)"

lemma alist_sum_Nil [simp]: "alist_sum f [] = 0"
  by (simp add: alist_sum_def)

lemma alist_sum_Cons [simp]: "alist_sum f ((k, v) # m) = f v + alist_sum f m"
  by (simp add: alist_sum_def)

lemma alist_sum_update:
  "distinct (map fst m) \<Longrightarrow> map_of m k = Some v \<Longrightarrow> alist_sum f (AList.update k v' m) = alist_sum f m - f v + f v'"
  by (induction m) (auto split: if_splits)

lemma alist_sum_insert: "map_of m k = None \<Longrightarrow> alist_sum f (AList.update k v' m) = alist_sum f m + f v'"
  by (induction m) (auto split: if_splits)

lemma delete_absent: "k \<notin> fst ` set m \<Longrightarrow> AList.delete k m = m"
  by (induction m) auto

lemma alist_sum_delete:
  "distinct (map fst m) \<Longrightarrow> map_of m k = Some v \<Longrightarrow> alist_sum f (AList.delete k m) = alist_sum f m - f v"
proof (induction m)
  case (Cons a m)
  then show ?case by (cases a) (auto simp: delete_absent split: if_splits)
qed simp

lemma length_delete_present:
  "distinct (map fst m) \<Longrightarrow> map_of m k = Some v \<Longrightarrow> int (length (AList.delete k m)) = int (length m) - 1"
proof (induction m)
  case (Cons a m)
  then show ?case by (cases a) (auto simp: delete_absent split: if_splits)
qed simp

lemma alist_sum_entries: "(\<And>k v. f (g k v) = f v) \<Longrightarrow> alist_sum f (map_entries g m) = alist_sum f m"
  by (induction m) (auto simp: map_entries_def)

section \<open>Words and bytes\<close>

lemma and_255: "(v::'a::len word) AND 0xFF = take_bit 8 v"
  by (simp add: take_bit_eq_mask mask_eq_exp_minus_1)

lemma ucast_byte: "8 \<le> LENGTH('a) \<Longrightarrow> ucast (ucast (v AND 0xFF) :: byte) = (take_bit 8 v :: 'a::len word)"
  by (rule bit_word_eqI) (auto simp: and_255 bit_simps)

lemma push_take_drop:
  "push_bit m (take_bit k (drop_bit m v)) OR push_bit (m + k) (drop_bit (m + k) v)
    = push_bit m (drop_bit m (v :: 'a::len word))"
proof (rule bit_word_eqI)
  fix n assume "n < LENGTH('a)"
  then show "bit (push_bit m (take_bit k (drop_bit m v)) OR push_bit (m + k) (drop_bit (m + k) v)) n
    = bit (push_bit m (drop_bit m v)) n"
    by (cases "m + k \<le> n") (auto simp: bit_simps)
qed

lemma push_take_top:
  "LENGTH('a) \<le> m + k \<Longrightarrow> push_bit m (take_bit k (drop_bit m v)) = push_bit m (drop_bit m (v :: 'a::len word))"
  by (rule bit_word_eqI) (auto simp: bit_simps)

lemma upt8: "[0..<8] = [0,1,2,3,4,5,6,7::nat]" by (simp add: upt_rec)

lemma xor_cancel_right [simp]: "a XOR k = b XOR k \<longleftrightarrow> a = (b :: 'a::len word)"
  by (metis xor.assoc xor.right_neutral xor_self_eq)

lemma take_xor_push: "take_bit n a XOR push_bit n (drop_bit n a) = (a :: 'a::len word)"
  by (rule bit_word_eqI) (auto simp: bit_simps)

lemma ucast_byte_inj:
  assumes "(ucast (b::byte) :: u32) = ucast b'"
  shows "b = b'"
proof (rule bit_word_eqI)
  fix n assume "n < LENGTH(8)"
  moreover have "bit (ucast b :: u32) n = bit (ucast b' :: u32) n" using assms by simp
  ultimately show "bit b n = bit b' n" by (simp add: bit_simps)
qed

lemma unat_of_nat_u32: "n < 2 ^ 32 \<Longrightarrow> unat (of_nat n :: u32) = n"
  by (simp add: unat_of_nat)

section \<open>Signed 64-bit arithmetic\<close>

text \<open>The value of an \<^verbatim>\<open>int64_t\<close> expression whose exact result is \<open>x\<close>, where the source may overflow.\<close>

definition wrap64 :: "int \<Rightarrow> int" where
  "wrap64 x = (x + 2 ^ 63) mod 2 ^ 64 - 2 ^ 63"

lemma wrap64_small: "- (2 ^ 63) \<le> x \<Longrightarrow> x < 2 ^ 63 \<Longrightarrow> wrap64 x = x"
  by (simp add: wrap64_def)

lemma wrap64_over:
  assumes "2 ^ 63 \<le> x" "x < 2 ^ 64"
  shows "wrap64 x = x - 2 ^ 64"
proof -
  have "x + 2 ^ 63 = (x - 2 ^ 63) + 2 ^ 64" by simp
  then have "(x + 2 ^ 63) mod 2 ^ 64 = (x - 2 ^ 63) mod 2 ^ 64" by (simp only: mod_add_self2)
  also have "\<dots> = x - 2 ^ 63" using assms by (intro mod_pos_pos_trivial) simp_all
  finally show ?thesis by (simp add: wrap64_def)
qed

lemma wrap64_le: "- (2 ^ 63) \<le> x \<Longrightarrow> wrap64 x \<le> x"
  using zmod_le_nonneg_dividend [of "x + 2 ^ 63" "2 ^ 64"] by (simp add: wrap64_def)

lemma wrap64_range: "- (2 ^ 63) \<le> wrap64 x" "wrap64 x < 2 ^ 63"
  using pos_mod_bound [of "2 ^ 64" "x + 2 ^ 63"] pos_mod_sign [of "2 ^ 64" "x + 2 ^ 63"] by (simp_all add: wrap64_def)

end
