(* ===== verification/Raft_Types.thy ===== *)
theory Raft_Types
  imports Torrent_Prelude
begin

text \<open>
  The vocabulary of \<^verbatim>\<open>include/torrent/consensus/raft_types.h\<close>: commands, log entries, the three
  RPCs, the node states, the configuration, the cluster membership with its quorum arithmetic,
  the leader lease, snapshots, and the abstract class \<^verbatim>\<open>RaftLog\<close> (a record of its virtual
  methods, which the node of \<open>Raft_Node\<close> calls and \<open>Raft_Log\<close> implements).

  Times are nanoseconds of the steady clock, durations in the configuration are milliseconds.
\<close>

type_synonym RaftNodeId = broker_id
type_synonym RaftTerm = int
type_synonym LogIndex = log_offset

definition kNoLeader :: RaftNodeId where "kNoLeader = -2"
definition kNoLogIndex :: LogIndex where "kNoLogIndex = 0"
definition kNoTerm :: RaftTerm where "kNoTerm = 0"

section \<open>Commands and log entries\<close>

record ConfigChangeCommand =
  cc_new_members :: "RaftNodeId list"
  cc_joint_consensus :: bool
  cc_old_members :: "RaftNodeId list"

datatype RaftCommand = NoOp | ConfigChange ConfigChangeCommand | UserCommand bytes

record LogEntry =
  le_term :: RaftTerm
  le_index :: LogIndex
  le_command :: RaftCommand

fun is_noop :: "LogEntry \<Rightarrow> bool" where
  "is_noop e = (case le_command e of NoOp \<Rightarrow> True | _ \<Rightarrow> False)"

fun is_config_change :: "LogEntry \<Rightarrow> bool" where
  "is_config_change e = (case le_command e of ConfigChange _ \<Rightarrow> True | _ \<Rightarrow> False)"

section \<open>RPC messages\<close>

record AppendEntriesRequest =
  ae_term :: RaftTerm
  ae_leader_id :: RaftNodeId
  ae_prev_log_index :: LogIndex
  ae_prev_log_term :: RaftTerm
  ae_entries :: "LogEntry list"
  ae_leader_commit :: LogIndex

record AppendEntriesResponse =
  ar_term :: RaftTerm
  ar_success :: bool
  ar_last_log_index :: LogIndex
  ar_conflict_index :: LogIndex

record RequestVoteRequest =
  rv_term :: RaftTerm
  rv_candidate_id :: RaftNodeId
  rv_last_log_index :: LogIndex
  rv_last_log_term :: RaftTerm
  rv_pre_vote :: bool

record RequestVoteResponse =
  vr_term :: RaftTerm
  vr_vote_granted :: bool

record InstallSnapshotRequest =
  is_term :: RaftTerm
  is_leader_id :: RaftNodeId
  is_last_included_index :: LogIndex
  is_last_included_term :: RaftTerm
  is_offset :: nat
  is_data :: bytes
  is_done :: bool

record InstallSnapshotResponse =
  sr_term :: RaftTerm

text \<open>The value-initialised request \<^verbatim>\<open>InstallSnapshotRequest{}\<close>.\<close>

definition empty_install_snapshot :: InstallSnapshotRequest where
  "empty_install_snapshot =
     \<lparr>is_term = kNoTerm, is_leader_id = kNoLeader, is_last_included_index = 0,
      is_last_included_term = kNoTerm, is_offset = 0, is_data = [], is_done = False\<rparr>"

datatype RaftNodeState = Follower | Candidate | Leader | PreCandidate

section \<open>Configuration\<close>

record RaftConfig =
  heartbeat_interval :: int
  min_election_timeout :: int
  max_election_timeout :: int
  max_entries_per_append :: nat
  max_append_bytes :: nat
  rpc_queue_capacity :: nat
  enable_pre_vote :: bool
  enable_leader_lease :: bool
  max_clock_drift :: int
  rpc_retry_count :: int
  rpc_retry_backoff :: int
  log_directory :: string
  snapshot_directory :: string
  snapshot_threshold_entries :: nat
  snapshot_threshold_bytes :: nat
  snapshot_max_concurrent_chunks :: nat
  snapshot_chunk_size :: nat

text \<open>The default member initialisers.\<close>

definition default_raft_config :: RaftConfig where
  "default_raft_config =
     \<lparr>heartbeat_interval = 150, min_election_timeout = 150, max_election_timeout = 300,
      max_entries_per_append = 100, max_append_bytes = 4 * 1024 * 1024,
      rpc_queue_capacity = 256, enable_pre_vote = True, enable_leader_lease = True,
      max_clock_drift = 10, rpc_retry_count = 3, rpc_retry_backoff = 50,
      log_directory = ''/var/lib/torrent/raft/log'',
      snapshot_directory = ''/var/lib/torrent/raft/snapshots'',
      snapshot_threshold_entries = 10000, snapshot_threshold_bytes = 64 * 1024 * 1024,
      snapshot_max_concurrent_chunks = 4, snapshot_chunk_size = 1024 * 1024\<rparr>"

text \<open>A duration in milliseconds, on the nanosecond clock.\<close>

definition millis :: "int \<Rightarrow> int" where "millis d = d * 1000000"

section \<open>Membership and quorums\<close>

record RaftMembership =
  members :: "RaftNodeId list"
  joint_members :: "RaftNodeId list"
  config_index :: LogIndex

definition in_joint_consensus :: "RaftMembership \<Rightarrow> bool" where
  "in_joint_consensus m \<longleftrightarrow> joint_members m \<noteq> []"

definition quorum_set :: "RaftMembership \<Rightarrow> RaftNodeId list" where
  "quorum_set m =
     (if \<not> in_joint_consensus m then members m
      else fold (\<lambda>id result. if id \<notin> set (members m) then result @ [id] else result)
             (joint_members m) (members m))"

definition membership_quorum_size :: "RaftMembership \<Rightarrow> nat" where
  "membership_quorum_size m =
     (let q_old = length (members m) div 2 + 1
      in if \<not> in_joint_consensus m then q_old
         else let q_new = length (joint_members m) div 2 + 1 in max q_old q_new)"

section \<open>Leader lease\<close>

text \<open>\<open>None\<close> is \<^verbatim>\<open>time_point::min()\<close>, earlier than every clock reading.\<close>

record LeaderLease =
  lease_expiration :: "int option"
  lease_term :: RaftTerm

definition lease_is_valid :: "int \<Rightarrow> int \<Rightarrow> LeaderLease \<Rightarrow> bool" where
  "lease_is_valid now drift l =
     (case lease_expiration l of None \<Rightarrow> False | Some t \<Rightarrow> now + drift < t)"

definition lease_extend :: "int \<Rightarrow> int \<Rightarrow> RaftTerm \<Rightarrow> LeaderLease \<Rightarrow> LeaderLease" where
  "lease_extend now duration t l = l\<lparr>lease_expiration := Some (now + millis duration), lease_term := t\<rparr>"

definition lease_revoke :: "LeaderLease \<Rightarrow> LeaderLease" where
  "lease_revoke l = l\<lparr>lease_expiration := None, lease_term := kNoTerm\<rparr>"

section \<open>Snapshots\<close>

record RaftSnapshot =
  snap_file_path :: string
  snap_last_included_index :: LogIndex
  snap_last_included_term :: RaftTerm
  snap_membership :: RaftMembership
  snap_file_size_bytes :: nat
  snap_created_at_ms :: timestamp_ms

definition empty_membership :: RaftMembership where
  "empty_membership = \<lparr>members = [], joint_members = [], config_index = 0\<rparr>"

definition empty_snapshot :: RaftSnapshot where
  "empty_snapshot =
     \<lparr>snap_file_path = '''', snap_last_included_index = 0, snap_last_included_term = kNoTerm,
      snap_membership = empty_membership, snap_file_size_bytes = 0, snap_created_at_ms = 0\<rparr>"

definition snapshot_is_valid :: "RaftSnapshot \<Rightarrow> bool" where
  "snapshot_is_valid s \<longleftrightarrow> snap_file_path s \<noteq> '''' \<and> snap_last_included_index s > 0"

section \<open>The abstract class RaftLog\<close>

text \<open>
  One field per virtual method; \<open>'l\<close> is the state of the implementing object. A method that
  changes the object returns it. \<^verbatim>\<open>get_entries\<close> returns the filled vector, whose length is the
  count the C++ method returns.
\<close>

record 'l RaftLog =
  first_index :: "'l \<Rightarrow> LogIndex"
  last_index :: "'l \<Rightarrow> LogIndex"
  entry_count :: "'l \<Rightarrow> nat"
  term_at :: "'l \<Rightarrow> LogIndex \<Rightarrow> RaftTerm"
  get_entries :: "'l \<Rightarrow> LogIndex \<Rightarrow> LogIndex \<Rightarrow> LogEntry list"
  entry_at :: "'l \<Rightarrow> LogIndex \<Rightarrow> LogEntry option"
  append_log :: "'l \<Rightarrow> LogIndex \<Rightarrow> RaftTerm \<Rightarrow> LogEntry list \<Rightarrow> LogIndex \<times> 'l"
  truncate_suffix :: "'l \<Rightarrow> LogIndex \<Rightarrow> 'l"
  truncate_prefix :: "'l \<Rightarrow> LogIndex \<Rightarrow> 'l"
  apply_snapshot :: "'l \<Rightarrow> RaftSnapshot \<Rightarrow> 'l"

text \<open>Entries numbered consecutively from \<open>i\<close>, as every leader produces them.\<close>

fun numbered_from :: "LogIndex \<Rightarrow> LogEntry list \<Rightarrow> bool" where
  "numbered_from i [] = True"
| "numbered_from i (e # es) = (le_index e = i \<and> numbered_from (i + 1) es)"

section \<open>Lemmas\<close>

lemma numbered_from_index: "numbered_from i es \<Longrightarrow> n < length es \<Longrightarrow> le_index (es ! n) = i + int n"
proof (induction es arbitrary: i n)
  case (Cons e es)
  then show ?case by (cases n) auto
qed simp

lemma numbered_from_last: "numbered_from i es \<Longrightarrow> es \<noteq> [] \<Longrightarrow> le_index (last es) = i + int (length es) - 1"
  by (auto simp: last_conv_nth numbered_from_index of_nat_diff Suc_le_eq)

lemma numbered_from_set:
  "numbered_from i es \<Longrightarrow> e \<in> set es \<Longrightarrow> i \<le> le_index e \<and> le_index e < i + int (length es)"
  by (metis in_set_conv_nth numbered_from_index of_nat_0_le_iff of_nat_less_iff add_less_cancel_left
      le_add_same_cancel1)

lemma numbered_from_append:
  "numbered_from i (xs @ ys) \<longleftrightarrow> numbered_from i xs \<and> numbered_from (i + int (length xs)) ys"
  by (induction xs arbitrary: i) (auto simp: algebra_simps)

lemma numbered_from_distinct: "numbered_from i es \<Longrightarrow> distinct (map le_index es)"
  by (induction es arbitrary: i) (force dest: numbered_from_set)+

lemma set_fold_add_new:
  "set (fold (\<lambda>id result. if id \<notin> A then result @ [id] else result) js acc) =
   set acc \<union> {id \<in> set js. id \<notin> A}"
  by (induction js arbitrary: acc) auto

lemma set_quorum_set: "set (quorum_set m) = set (members m) \<union> set (joint_members m)"
  by (auto simp: quorum_set_def set_fold_add_new in_joint_consensus_def)

text \<open>Two sub-collections, each more than half of a finite set, meet.\<close>

lemma majorities_intersect:
  assumes "finite S" "A \<subseteq> S" "B \<subseteq> S" "card S div 2 + 1 \<le> card A" "card S div 2 + 1 \<le> card B"
  shows "A \<inter> B \<noteq> {}"
proof
  assume "A \<inter> B = {}"
  with assms have "card (A \<union> B) = card A + card B"
    by (meson card_Un_disjoint finite_subset)
  moreover have "card (A \<union> B) \<le> card S"
    using assms by (simp add: card_mono)
  ultimately show False using assms(4,5) by linarith
qed

end
