(* ===== verification/Raft_Log_Spec.thy ===== *)
theory Raft_Log_Spec
  imports Raft_Types
begin

text \<open>
  The contract between the consensus node and the replicated log it owns: what the virtual
  methods of \<^verbatim>\<open>RaftLog\<close> promise on a log that satisfies its invariant. \<open>wf\<close> says which batches
  of entries the implementation can store. \<open>Raft_Log\<close> proves the contract for
  \<^verbatim>\<open>DiskRaftLog\<close>; \<open>Raft_Node\<close> uses it.

  Two methods promise less than a reader of the header would expect, because the only
  implementation does: \<^verbatim>\<open>truncate_suffix(from)\<close> removes \<open>from\<close> itself, and
  \<^verbatim>\<open>get_entries\<close> returns every entry of the range but possibly more than once.
\<close>

locale raft_log =
  fixes L :: "'l RaftLog" and inv :: "'l \<Rightarrow> bool" and wf :: "LogEntry list \<Rightarrow> bool"
  assumes span: "inv l \<Longrightarrow> first_index L l \<le> last_index L l + 1 \<and> 0 \<le> last_index L l"
    and term_entry: "inv l \<Longrightarrow> 0 < i \<Longrightarrow> first_index L l \<le> i \<Longrightarrow> i \<le> last_index L l \<Longrightarrow>
      \<exists>e. entry_at L l i = Some e \<and> le_index e = i \<and> le_term e = term_at L l i"
    and term_above: "inv l \<Longrightarrow> last_index L l < i \<Longrightarrow> term_at L l i = kNoTerm"
    and append_reject: "0 < prev \<Longrightarrow> es \<noteq> [] \<Longrightarrow> term_at L l prev = kNoTerm \<or> term_at L l prev \<noteq> t \<Longrightarrow>
      append_log L l prev t es = (kNoLogIndex, l)"
    and append_inv: "inv l \<Longrightarrow> 0 \<le> prev \<Longrightarrow> first_index L l \<le> prev + 1 \<Longrightarrow> wf es \<Longrightarrow> es \<noteq> [] \<Longrightarrow>
      numbered_from (prev + 1) es \<Longrightarrow> append_log L l prev t es = (r, l') \<Longrightarrow> r \<noteq> kNoLogIndex \<Longrightarrow>
      inv l' \<and> r = prev + 1 \<and> last_index L l' = prev + int (length es)"
    and append_reads: "inv l \<Longrightarrow> 0 \<le> prev \<Longrightarrow> first_index L l \<le> prev + 1 \<Longrightarrow> wf es \<Longrightarrow> es \<noteq> [] \<Longrightarrow>
      numbered_from (prev + 1) es \<Longrightarrow> append_log L l prev t es = (r, l') \<Longrightarrow> r \<noteq> kNoLogIndex \<Longrightarrow>
      entry_at L l' i =
        (if prev < i \<and> i \<le> prev + int (length es) then Some (es ! nat (i - prev - 1))
         else if i \<le> prev then entry_at L l i else None) \<and>
      term_at L l' i =
        (if prev < i \<and> i \<le> prev + int (length es) then le_term (es ! nat (i - prev - 1))
         else if i \<le> prev then term_at L l i else kNoTerm)"
    and truncate_inv: "inv l \<Longrightarrow> 0 < n \<Longrightarrow> first_index L l \<le> n \<Longrightarrow> n \<le> last_index L l + 1 \<Longrightarrow>
      inv (truncate_suffix L l n) \<and> last_index L (truncate_suffix L l n) = n - 1 \<and>
      first_index L (truncate_suffix L l n) = first_index L l"
    and truncate_reads: "inv l \<Longrightarrow> 0 < n \<Longrightarrow> first_index L l \<le> n \<Longrightarrow> n \<le> last_index L l + 1 \<Longrightarrow>
      entry_at L (truncate_suffix L l n) i = (if i < n then entry_at L l i else None) \<and>
      term_at L (truncate_suffix L l n) i = (if i < n then term_at L l i else kNoTerm)"
    and get_entries_spec: "inv l \<Longrightarrow> 0 < a \<Longrightarrow> first_index L l \<le> a \<Longrightarrow> a \<le> b \<Longrightarrow> b \<le> last_index L l \<Longrightarrow>
      get_entries L l a b \<noteq> [] \<and> le_index (last (get_entries L l a b)) = b \<and>
      (\<forall>e \<in> set (get_entries L l a b). a \<le> le_index e \<and> le_index e \<le> b) \<and>
      (\<forall>i. a \<le> i \<longrightarrow> i \<le> b \<longrightarrow> (\<exists>e \<in> set (get_entries L l a b). entry_at L l i = Some e))"
    and snapshot_spec: "inv l \<Longrightarrow> snapshot_is_valid s \<Longrightarrow> first_index L l \<le> snap_last_included_index s + 1 \<Longrightarrow>
      inv (apply_snapshot L l s) \<and>
      first_index L (apply_snapshot L l s) = snap_last_included_index s + 1 \<and>
      last_index L (apply_snapshot L l s) = max (snap_last_included_index s) (last_index L l) \<and>
      term_at L (apply_snapshot L l s) (snap_last_included_index s) = snap_last_included_term s \<and>
      (\<forall>i > snap_last_included_index s. entry_at L (apply_snapshot L l s) i = entry_at L l i \<and>
         term_at L (apply_snapshot L l s) i = term_at L l i)"
    and prefix_spec: "inv l \<Longrightarrow> first_index L l < n \<Longrightarrow> n \<le> last_index L l + 1 \<Longrightarrow>
      inv (truncate_prefix L l n) \<and> first_index L (truncate_prefix L l n) = n \<and>
      last_index L (truncate_prefix L l n) = last_index L l \<and>
      (\<forall>i \<ge> n. entry_at L (truncate_prefix L l n) i = entry_at L l i \<and>
         term_at L (truncate_prefix L l n) i = term_at L l i)"

end
