(* ===== verification/Raft_Node.thy ===== *)
theory Raft_Node
  imports Raft_Log_Spec
begin

text \<open>
  \<^verbatim>\<open>RaftNode\<close> of \<^verbatim>\<open>src/torrent/consensus/raft_node.cpp\<close> and \<^verbatim>\<open>raft.h\<close>: the node's fields as a
  record, one definition per method. Every method runs under the exclusive lock, so each is a
  function from state to state; the log is reached only through the virtual methods of
  \<open>'l RaftLog\<close>.

  What comes from outside is in the record \<open>env\<close>: readings of the steady and of the wall clock,
  draws of the election timeout, whether a send or a file write succeeds (a sender reports failure
  by throwing), and what the snapshot directory holds. \<open>rn_oracle\<close> counts the questions asked,
  so that two readings in one handler may differ. What goes out is recorded: \<open>rn_outbox\<close> the RPCs
  that were sent, \<open>rn_applied\<close> the entries given to the state machine, \<open>rn_files\<close> the snapshot
  files written.
\<close>

section \<open>State\<close>

record FollowerState =
  fs_next_index :: LogIndex
  fs_match_index :: LogIndex
  fs_is_active :: bool
  fs_in_flight :: nat
  fs_pending_snapshot :: "InstallSnapshotRequest option"
  fs_last_ack :: int

datatype Rpc =
    AppendEntriesRpc AppendEntriesRequest
  | RequestVoteRpc RequestVoteRequest
  | InstallSnapshotRpc InstallSnapshotRequest

record env =
  env_clock :: "nat \<Rightarrow> int"
  env_timeout :: "nat \<Rightarrow> int"
  env_wall :: "nat \<Rightarrow> timestamp_ms"
  env_send_ok :: "nat \<Rightarrow> bool"
  env_write_ok :: "nat \<Rightarrow> bool"
  env_snapshot_file :: "nat \<Rightarrow> bytes option option"

record 'l RaftNode =
  rn_id :: RaftNodeId
  rn_config :: RaftConfig
  rn_log :: 'l
  rn_current_term :: RaftTerm
  rn_voted_for :: RaftNodeId
  rn_state :: RaftNodeState
  rn_leader_id :: RaftNodeId
  rn_commit_index :: LogIndex
  rn_last_applied :: LogIndex
  rn_followers :: "(RaftNodeId \<times> FollowerState) list"
  rn_votes_received :: nat
  rn_pre_votes_received :: nat
  rn_last_heartbeat :: int
  rn_election_deadline :: int
  rn_membership :: RaftMembership
  rn_pending_config_index :: LogIndex
  rn_lease :: LeaderLease
  rn_running :: bool
  rn_transferring :: bool
  rn_heartbeat_failures :: "RaftNodeId \<rightharpoonup> nat"
  rn_backtrack_rounds :: "RaftNodeId \<rightharpoonup> nat"
  rn_snapshot_chunks :: "RaftNodeId \<rightharpoonup> bytes"
  rn_snapshot_buffer :: bytes
  rn_pending_snapshot_meta :: InstallSnapshotRequest
  rn_outbox :: "(RaftNodeId \<times> Rpc) list"
  rn_applied :: "LogEntry list"
  rn_files :: "(string \<times> bytes) list"
  rn_oracle :: nat

definition kMaxBacktrackRounds :: nat where "kMaxBacktrackRounds = 10"
definition kMaxApplyBatch :: nat where "kMaxApplyBatch = 1024"
definition kHardMaxEntriesPerAppend :: nat where "kHardMaxEntriesPerAppend = 1000"
definition kFollowerReactivationInterval :: int where "kFollowerReactivationInterval = 5000"
definition kMaxHeartbeatFailures :: nat where "kMaxHeartbeatFailures = 3"
definition kMaxConcurrentSnapshots :: nat where "kMaxConcurrentSnapshots = 2"
definition kElectionGracePeriod :: int where "kElectionGracePeriod = 5"

text \<open>\<^verbatim>\<open>sizeof(LogEntry)\<close> on a 64-bit target: two integers and the command variant.\<close>

definition sizeof_LogEntry :: nat where "sizeof_LogEntry = 80"
definition sizeof_RaftNodeId :: nat where "sizeof_RaftNodeId = 4"

section \<open>Helpers\<close>

text \<open>The counters of an \<^verbatim>\<open>unordered_map\<close> start at 0.\<close>

definition counter :: "(RaftNodeId \<rightharpoonup> nat) \<Rightarrow> RaftNodeId \<Rightarrow> nat" where
  "counter m p = (case m p of None \<Rightarrow> 0 | Some n \<Rightarrow> n)"

definition log_entry_byte_size :: "LogEntry \<Rightarrow> nat" where
  "log_entry_byte_size e =
     sizeof_LogEntry +
     (case le_command e of
        UserCommand p \<Rightarrow> length p
      | ConfigChange cc \<Rightarrow> length (cc_new_members cc) * sizeof_RaftNodeId
                         + length (cc_old_members cc) * sizeof_RaftNodeId
      | NoOp \<Rightarrow> 0)"

definition is_member :: "RaftNodeId list \<Rightarrow> RaftNodeId \<Rightarrow> bool" where
  "is_member nodes p \<longleftrightarrow> p \<in> set nodes"

definition validate_raft_config :: "RaftConfig \<Rightarrow> RaftConfig" where
  "validate_raft_config c =
     (let c = (if heartbeat_interval c \<le> 0 then c\<lparr>heartbeat_interval := 50\<rparr> else c);
          c = (if min_election_timeout c \<le> 0 then c\<lparr>min_election_timeout := 50\<rparr> else c);
          c = (if max_election_timeout c < min_election_timeout c
               then c\<lparr>max_election_timeout := min_election_timeout c * 2\<rparr> else c);
          c = (if max_append_bytes c = 0 then c\<lparr>max_append_bytes := 4 * 1024 * 1024\<rparr> else c)
      in if snapshot_chunk_size c = 0 then c\<lparr>snapshot_chunk_size := 1024 * 1024\<rparr> else c)"

text \<open>The constructor: member initialisers of \<^verbatim>\<open>raft.h\<close> with the given log.\<close>

definition new_raft_node :: "RaftNodeId \<Rightarrow> RaftConfig \<Rightarrow> 'l \<Rightarrow> 'l RaftNode" where
  "new_raft_node node_id config log =
     \<lparr>rn_id = node_id, rn_config = validate_raft_config config, rn_log = log,
      rn_current_term = kNoTerm, rn_voted_for = kNoLeader, rn_state = Follower,
      rn_leader_id = kNoLeader, rn_commit_index = 0, rn_last_applied = 0, rn_followers = [],
      rn_votes_received = 0, rn_pre_votes_received = 0, rn_last_heartbeat = 0,
      rn_election_deadline = 0, rn_membership = empty_membership, rn_pending_config_index = 0,
      rn_lease = \<lparr>lease_expiration = None, lease_term = kNoTerm\<rparr>, rn_running = False,
      rn_transferring = False, rn_heartbeat_failures = Map.empty, rn_backtrack_rounds = Map.empty,
      rn_snapshot_chunks = Map.empty, rn_snapshot_buffer = [],
      rn_pending_snapshot_meta = empty_install_snapshot, rn_outbox = [], rn_applied = [],
      rn_files = [], rn_oracle = 0\<rparr>"

text \<open>\<^verbatim>\<open>election_deadline_ = steady_now() + random_election_timeout()\<close>\<close>

definition reset_deadline :: "env \<Rightarrow> 'l RaftNode \<Rightarrow> 'l RaftNode" where
  "reset_deadline E s =
     s\<lparr>rn_election_deadline := env_clock E (rn_oracle s) + millis (env_timeout E (rn_oracle s + 1)),
       rn_oracle := rn_oracle s + 2\<rparr>"

text \<open>\<^verbatim>\<open>last_heartbeat_ = steady_now()\<close>\<close>

definition stamp_heartbeat :: "env \<Rightarrow> 'l RaftNode \<Rightarrow> 'l RaftNode" where
  "stamp_heartbeat E s = s\<lparr>rn_last_heartbeat := env_clock E (rn_oracle s), rn_oracle := rn_oracle s + 1\<rparr>"

text \<open>A call of one of the three sender callbacks: whether it returned, and the state after.\<close>

definition send_rpc :: "env \<Rightarrow> RaftNodeId \<Rightarrow> Rpc \<Rightarrow> 'l RaftNode \<Rightarrow> bool \<times> 'l RaftNode" where
  "send_rpc E peer m s =
     (let ok = env_send_ok E (rn_oracle s); s = s\<lparr>rn_oracle := rn_oracle s + 1\<rparr>
      in (ok, if ok then s\<lparr>rn_outbox := rn_outbox s @ [(peer, m)]\<rparr> else s))"

definition find_follower :: "'l RaftNode \<Rightarrow> RaftNodeId \<Rightarrow> FollowerState option" where
  "find_follower s p = map_of (rn_followers s) p"

definition put_follower :: "RaftNodeId \<Rightarrow> FollowerState \<Rightarrow> 'l RaftNode \<Rightarrow> 'l RaftNode" where
  "put_follower p f s = s\<lparr>rn_followers := AList.update p f (rn_followers s)\<rparr>"

text \<open>Start tracking a peer: \<^verbatim>\<open>next_index = last_index() + 1\<close>, nothing matched.\<close>

definition track_follower :: "env \<Rightarrow> 'l RaftLog \<Rightarrow> RaftNodeId \<Rightarrow> 'l RaftNode \<Rightarrow> 'l RaftNode" where
  "track_follower E L p s =
     put_follower p
       \<lparr>fs_next_index = last_index L (rn_log s) + 1, fs_match_index = 0, fs_is_active = True,
        fs_in_flight = 0, fs_pending_snapshot = None, fs_last_ack = env_clock E (rn_oracle s)\<rparr>
       (s\<lparr>rn_oracle := rn_oracle s + 1\<rparr>)"

definition quorum_size :: "'l RaftNode \<Rightarrow> nat" where
  "quorum_size s = membership_quorum_size (rn_membership s)"

definition log_is_up_to_date :: "'l RaftLog \<Rightarrow> 'l RaftNode \<Rightarrow> LogIndex \<Rightarrow> RaftTerm \<Rightarrow> bool" where
  "log_is_up_to_date L s remote_last_index remote_last_term =
     (let local_last_term = term_at L (rn_log s) (last_index L (rn_log s))
      in if remote_last_term \<noteq> local_last_term then remote_last_term > local_last_term
         else remote_last_index \<ge> last_index L (rn_log s))"

definition lease_valid :: "env \<Rightarrow> 'l RaftNode \<Rightarrow> bool" where
  "lease_valid E s =
     (if rn_state s \<noteq> Leader \<or> \<not> enable_leader_lease (rn_config s) then False
      else lease_is_valid (env_clock E (rn_oracle s)) (millis (max_clock_drift (rn_config s))) (rn_lease s))"

section \<open>State transitions\<close>

definition become_follower :: "env \<Rightarrow> RaftTerm \<Rightarrow> 'l RaftNode \<Rightarrow> 'l RaftNode" where
  "become_follower E new_term s =
     (if new_term = rn_current_term s \<and> rn_state s = Follower then reset_deadline E s
      else
        let prev_state = rn_state s;
            s = (if new_term > rn_current_term s
                 then s\<lparr>rn_current_term := new_term, rn_voted_for := kNoLeader\<rparr> else s);
            s = (if prev_state = Leader
                 then s\<lparr>rn_lease := lease_revoke (rn_lease s), rn_followers := [],
                        rn_heartbeat_failures := Map.empty, rn_backtrack_rounds := Map.empty,
                        rn_transferring := False\<rparr> else s)
        in stamp_heartbeat E (reset_deadline E
             (s\<lparr>rn_state := Follower, rn_leader_id := kNoLeader, rn_votes_received := 0,
                rn_pre_votes_received := 0\<rparr>)))"

definition send_vote_request ::
  "env \<Rightarrow> RequestVoteRequest \<Rightarrow> RaftNodeId \<Rightarrow> 'l RaftNode \<Rightarrow> 'l RaftNode" where
  "send_vote_request E req peer s =
     (if peer = rn_id s then s else snd (send_rpc E peer (RequestVoteRpc req) s))"

definition start_vote_round :: "env \<Rightarrow> 'l RaftLog \<Rightarrow> bool \<Rightarrow> 'l RaftNode \<Rightarrow> 'l RaftNode" where
  "start_vote_round E L pre_vote s =
     (let last_idx = last_index L (rn_log s);
          req = \<lparr>rv_term = (if pre_vote then rn_current_term s + 1 else rn_current_term s),
                 rv_candidate_id = rn_id s, rv_last_log_index = last_idx,
                 rv_last_log_term = term_at L (rn_log s) last_idx, rv_pre_vote = pre_vote\<rparr>
      in fold (send_vote_request E req) (quorum_set (rn_membership s)) s)"

definition become_candidate :: "env \<Rightarrow> 'l RaftLog \<Rightarrow> 'l RaftNode \<Rightarrow> 'l RaftNode" where
  "become_candidate E L s =
     (if members (rn_membership s) = [] then become_follower E (rn_current_term s) s
      else if rn_state s = Leader then s
      else start_vote_round E L False (reset_deadline E
             (s\<lparr>rn_current_term := rn_current_term s + 1, rn_voted_for := rn_id s,
                rn_votes_received := 1, rn_pre_votes_received := 0, rn_state := Candidate,
                rn_leader_id := kNoLeader\<rparr>)))"

definition become_pre_candidate :: "env \<Rightarrow> 'l RaftLog \<Rightarrow> 'l RaftNode \<Rightarrow> 'l RaftNode" where
  "become_pre_candidate E L s =
     (if rn_state s = PreCandidate then s
      else if rn_state s = Leader then s
      else if members (rn_membership s) = [] then s
      else if \<not> enable_pre_vote (rn_config s) then become_candidate E L s
      else reset_deadline E (start_vote_round E L True
             (s\<lparr>rn_state := PreCandidate, rn_pre_votes_received := 1, rn_votes_received := 0\<rparr>)))"

definition extend_lease :: "env \<Rightarrow> 'l RaftNode \<Rightarrow> 'l RaftNode" where
  "extend_lease E s =
     (if \<not> enable_leader_lease (rn_config s) then s
      else let t = 3 * heartbeat_interval (rn_config s) + 2 * max_clock_drift (rn_config s);
               duration = (if t \<ge> 0 then t div 2 else - ((- t) div 2))
           in s\<lparr>rn_lease := lease_extend (env_clock E (rn_oracle s)) duration (rn_current_term s)
                  (rn_lease s), rn_oracle := rn_oracle s + 1\<rparr>)"

section \<open>Heartbeats\<close>

definition heartbeat_request :: "'l RaftLog \<Rightarrow> 'l RaftNode \<Rightarrow> FollowerState \<Rightarrow> AppendEntriesRequest" where
  "heartbeat_request L s f =
     \<lparr>ae_term = rn_current_term s, ae_leader_id = rn_id s,
      ae_prev_log_index = (if fs_next_index f > 1 then fs_next_index f - 1 else 0),
      ae_prev_log_term = (if fs_next_index f > 1 then term_at L (rn_log s) (fs_next_index f - 1)
                          else kNoTerm),
      ae_entries = [], ae_leader_commit = rn_commit_index s\<rparr>"

definition send_heartbeat_to :: "env \<Rightarrow> 'l RaftLog \<Rightarrow> RaftNodeId \<Rightarrow> 'l RaftNode \<Rightarrow> 'l RaftNode" where
  "send_heartbeat_to E L peer s =
     (if peer = rn_id s then s
      else
        let s = (if find_follower s peer = None then track_follower E L peer s else s)
        in case find_follower s peer of
             None \<Rightarrow> s
           | Some f \<Rightarrow>
               if fs_in_flight f \<ge> rpc_queue_capacity (rn_config s) then s
               else
                 let (ok, s) = send_rpc E peer (AppendEntriesRpc (heartbeat_request L s f)) s
                 in if ok then s
                    else
                      let n = counter (rn_heartbeat_failures s) peer + 1;
                          s = s\<lparr>rn_heartbeat_failures := (rn_heartbeat_failures s)(peer \<mapsto> n)\<rparr>
                      in if n \<ge> kMaxHeartbeatFailures
                         then put_follower peer (f\<lparr>fs_is_active := False\<rparr>) s else s)"

definition send_heartbeats :: "env \<Rightarrow> 'l RaftLog \<Rightarrow> 'l RaftNode \<Rightarrow> 'l RaftNode" where
  "send_heartbeats E L s =
     (if rn_state s \<noteq> Leader then s
      else if members (rn_membership s) = [] then s
      else stamp_heartbeat E (fold (send_heartbeat_to E L) (quorum_set (rn_membership s)) s))"

definition become_leader :: "env \<Rightarrow> 'l RaftLog \<Rightarrow> 'l RaftNode \<Rightarrow> 'l RaftNode" where
  "become_leader E L s =
     (if members (rn_membership s) = [] then become_follower E (rn_current_term s) s
      else
        let s = s\<lparr>rn_state := Leader, rn_leader_id := rn_id s, rn_transferring := False,
                  rn_followers := [], rn_heartbeat_failures := Map.empty,
                  rn_backtrack_rounds := Map.empty\<rparr>;
            s = fold (\<lambda>p s. if p = rn_id s then s else track_follower E L p s)
                  (quorum_set (rn_membership s)) s;
            last_idx = last_index L (rn_log s);
            noop = \<lparr>le_term = rn_current_term s, le_index = last_idx + 1, le_command = NoOp\<rparr>;
            (appended, l) = append_log L (rn_log s) last_idx (term_at L (rn_log s) last_idx) [noop];
            s = s\<lparr>rn_log := l\<rparr>
        in if appended = kNoLogIndex then become_follower E (rn_current_term s) s
           else send_heartbeats E L
                  (if enable_leader_lease (rn_config s) then extend_lease E s else s))"

section \<open>Elections\<close>

definition on_election_timeout :: "env \<Rightarrow> 'l RaftLog \<Rightarrow> 'l RaftNode \<Rightarrow> 'l RaftNode" where
  "on_election_timeout E L s =
     (if rn_state s = Leader then s
      else if enable_pre_vote (rn_config s) \<and> rn_state s \<noteq> Candidate then become_pre_candidate E L s
      else become_candidate E L s)"

definition tally_votes :: "env \<Rightarrow> 'l RaftLog \<Rightarrow> bool \<Rightarrow> 'l RaftNode \<Rightarrow> 'l RaftNode" where
  "tally_votes E L pre_vote s =
     (let votes = (if pre_vote then rn_pre_votes_received s else rn_votes_received s);
          qsize = quorum_size s
      in if pre_vote then
           (if votes \<ge> qsize \<and> rn_state s = PreCandidate then become_candidate E L s else s)
         else
           (if votes \<ge> qsize \<and> rn_state s = Candidate then become_leader E L s else s))"

text \<open>One pass of the election thread once its wait is over.\<close>

definition election_tick :: "env \<Rightarrow> 'l RaftLog \<Rightarrow> 'l RaftNode \<Rightarrow> 'l RaftNode" where
  "election_tick E L s =
     (if rn_state s = Leader then s
      else
        let now = env_clock E (rn_oracle s); s = s\<lparr>rn_oracle := rn_oracle s + 1\<rparr>;
            fire = (if rn_state s \<noteq> Leader \<and> rn_state s \<noteq> Follower then now \<ge> rn_election_deadline s
                    else now \<ge> rn_election_deadline s \<and>
                      now - rn_last_heartbeat s
                        \<ge> millis (min_election_timeout (rn_config s)) + millis kElectionGracePeriod)
        in if fire then on_election_timeout E L s else s)"

section \<open>Membership changes\<close>

definition forget :: "RaftNodeId list \<Rightarrow> (RaftNodeId \<rightharpoonup> 'v) \<Rightarrow> RaftNodeId \<rightharpoonup> 'v" where
  "forget ps m = (\<lambda>p. if p \<in> set ps then None else m p)"

definition track_new_follower :: "env \<Rightarrow> 'l RaftLog \<Rightarrow> RaftNodeId \<Rightarrow> 'l RaftNode \<Rightarrow> 'l RaftNode" where
  "track_new_follower E L peer s =
     (if peer = rn_id s then s
      else if find_follower s peer = None then track_follower E L peer s else s)"

definition drop_followers :: "RaftNodeId list \<Rightarrow> 'l RaftNode \<Rightarrow> 'l RaftNode" where
  "drop_followers ps s =
     s\<lparr>rn_followers := filter (\<lambda>(p, _). p \<notin> set ps) (rn_followers s),
       rn_heartbeat_failures := forget ps (rn_heartbeat_failures s),
       rn_backtrack_rounds := forget ps (rn_backtrack_rounds s),
       rn_snapshot_chunks := forget ps (rn_snapshot_chunks s)\<rparr>"

definition reconcile_follower_states ::
  "env \<Rightarrow> 'l RaftLog \<Rightarrow> RaftNodeId list \<Rightarrow> 'l RaftNode \<Rightarrow> 'l RaftNode" where
  "reconcile_follower_states E L new_members s =
     (let s = fold (track_new_follower E L) new_members s
      in drop_followers (filter (\<lambda>p. \<not> is_member new_members p) (map fst (rn_followers s))) s)"

definition apply_direct_membership_change ::
  "env \<Rightarrow> 'l RaftLog \<Rightarrow> RaftNodeId list \<Rightarrow> 'l RaftNode \<Rightarrow> 'l RaftNode" where
  "apply_direct_membership_change E L new_members s =
     (if new_members = [] then s
      else
        let s = s\<lparr>rn_membership := (rn_membership s)\<lparr>members := new_members, joint_members := []\<rparr>\<rparr>
        in if rn_state s = Leader then reconcile_follower_states E L new_members s else s)"

definition apply_joint_consensus_entry ::
  "env \<Rightarrow> 'l RaftLog \<Rightarrow> ConfigChangeCommand \<Rightarrow> 'l RaftNode \<Rightarrow> 'l RaftNode" where
  "apply_joint_consensus_entry E L cmd s =
     (if cc_old_members cmd = [] then apply_direct_membership_change E L (cc_new_members cmd) s
      else
        let s = s\<lparr>rn_membership := (rn_membership s)\<lparr>members := cc_old_members cmd,
                                                    joint_members := cc_new_members cmd\<rparr>\<rparr>
        in if rn_state s = Leader then fold (track_new_follower E L) (cc_new_members cmd) s else s)"

definition apply_joint_consensus_finalization ::
  "env \<Rightarrow> ConfigChangeCommand \<Rightarrow> 'l RaftNode \<Rightarrow> 'l RaftNode" where
  "apply_joint_consensus_finalization E cmd s =
     (if cc_joint_consensus cmd then s
      else if cc_new_members cmd \<noteq> joint_members (rn_membership s) then s
      else
        let removed = filter (\<lambda>p. \<not> is_member (joint_members (rn_membership s)) p)
                        (members (rn_membership s));
            s = s\<lparr>rn_membership := (rn_membership s)\<lparr>members := joint_members (rn_membership s),
                                                    joint_members := []\<rparr>\<rparr>;
            s = (if rn_state s = Leader then drop_followers removed s else s)
        in if \<not> is_member (members (rn_membership s)) (rn_id s)
           then become_follower E (rn_current_term s) s else s)"

text \<open>The legacy path; no method calls it.\<close>

definition finalize_joint_consensus :: "'l RaftNode \<Rightarrow> 'l RaftNode" where
  "finalize_joint_consensus s =
     (let s = s\<lparr>rn_membership := (rn_membership s)\<lparr>members := joint_members (rn_membership s),
                                                  joint_members := []\<rparr>\<rparr>
      in if rn_state s = Leader
         then s\<lparr>rn_followers :=
                  filter (\<lambda>(p, _). is_member (members (rn_membership s)) p) (rn_followers s)\<rparr>
         else s)"

definition process_config_change ::
  "env \<Rightarrow> 'l RaftLog \<Rightarrow> ConfigChangeCommand \<Rightarrow> 'l RaftNode \<Rightarrow> 'l RaftNode" where
  "process_config_change E L cmd s =
     (if \<not> in_joint_consensus (rn_membership s) then
        (if \<not> cc_joint_consensus cmd then apply_direct_membership_change E L (cc_new_members cmd) s
         else apply_joint_consensus_entry E L cmd s)
      else apply_joint_consensus_finalization E cmd s)
     \<lparr>rn_pending_config_index := 0\<rparr>"

section \<open>Applying committed entries\<close>

text \<open>An exception of the apply callback is caught and the loop goes on.\<close>

definition apply_entry :: "env \<Rightarrow> 'l RaftLog \<Rightarrow> LogEntry \<Rightarrow> 'l RaftNode \<Rightarrow> 'l RaftNode" where
  "apply_entry E L e s =
     (let s = (case le_command e of ConfigChange cc \<Rightarrow> process_config_change E L cc s | _ \<Rightarrow> s)
      in s\<lparr>rn_applied := rn_applied s @ [e], rn_last_applied := le_index e\<rparr>)"

text \<open>The entries one round of the loop reads.\<close>

definition apply_round :: "'l RaftLog \<Rightarrow> 'l RaftNode \<Rightarrow> LogEntry list" where
  "apply_round L s =
     (let batch = min (nat (rn_commit_index s - rn_last_applied s)) kMaxApplyBatch
      in get_entries L (rn_log s) (rn_last_applied s + 1) (rn_last_applied s + int batch))"

text \<open>\<open>None\<close>: the loop does not end, because the log keeps returning entries that do not advance it.\<close>

partial_function (option) apply_committed :: "env \<Rightarrow> 'l RaftLog \<Rightarrow> 'l RaftNode \<Rightarrow> 'l RaftNode option" where
  "apply_committed E L s =
     (if rn_commit_index s > rn_last_applied s then
        (if apply_round L s = [] then Some s
         else apply_committed E L (fold (apply_entry E L) (apply_round L s) s))
      else Some s)"

section \<open>Commit\<close>

text \<open>The match indices a leader counts: its own log, then every active follower.\<close>

definition match_indices :: "'l RaftLog \<Rightarrow> 'l RaftNode \<Rightarrow> LogIndex list" where
  "match_indices L s =
     last_index L (rn_log s) #
     map (fs_match_index \<circ> snd) (filter (fs_is_active \<circ> snd) (rn_followers s))"

definition new_config_matches :: "'l RaftNode \<Rightarrow> LogIndex \<Rightarrow> nat" where
  "new_config_matches s n =
     (if is_member (joint_members (rn_membership s)) (rn_id s) then 1 else 0) +
     length (filter (\<lambda>p. p \<noteq> rn_id s \<and>
                (case find_follower s p of None \<Rightarrow> False | Some f \<Rightarrow> fs_match_index f \<ge> n))
              (joint_members (rn_membership s)))"

text \<open>The body of the backward walk: may index \<open>n\<close> be committed now?\<close>

definition commit_ok :: "'l RaftLog \<Rightarrow> 'l RaftNode \<Rightarrow> LogIndex \<Rightarrow> bool" where
  "commit_ok L s n \<longleftrightarrow>
     rev (sort (match_indices L s)) ! (quorum_size s - 1) \<ge> n \<and>
     term_at L (rn_log s) n = rn_current_term s \<and>
     (in_joint_consensus (rn_membership s) \<longrightarrow>
        new_config_matches s n \<ge> length (joint_members (rn_membership s)) div 2 + 1)"

definition advance_commit_index :: "env \<Rightarrow> 'l RaftLog \<Rightarrow> 'l RaftNode \<Rightarrow> 'l RaftNode option" where
  "advance_commit_index E L s =
     (let last_idx = last_index L (rn_log s); matches = match_indices L s
      in if rn_state s \<noteq> Leader then Some s
         else if last_idx \<le> rn_commit_index s then Some s
         else if length matches < 2 then
           (if length (members (rn_membership s)) = 1
            then apply_committed E L (s\<lparr>rn_commit_index := last_idx\<rparr>) else Some s)
         else if length matches < quorum_size s then Some s
         else case find (commit_ok L s) (rev [rn_commit_index s + 1 .. last_idx]) of
                None \<Rightarrow> Some s
              | Some n \<Rightarrow> apply_committed E L (s\<lparr>rn_commit_index := n\<rparr>))"

section \<open>Snapshots\<close>

text \<open>Decimal digits, as the stream inserter prints integers.\<close>

fun show_nat :: "nat \<Rightarrow> string" where
  "show_nat n = (if n < 10 then [char_of (48 + n)] else show_nat (n div 10) @ [char_of (48 + n mod 10)])"

declare show_nat.simps [simp del]

definition show_int :: "int \<Rightarrow> string" where
  "show_int i = (if i < 0 then ''-'' @ show_nat (nat (- i)) else show_nat (nat i))"

definition snapshot_path :: "'l RaftNode \<Rightarrow> LogIndex \<Rightarrow> timestamp_ms \<Rightarrow> string" where
  "snapshot_path s snap_index now_ms =
     snapshot_directory (rn_config s) @ ''/snapshot-'' @ show_int (rn_id s) @ ''-'' @
     show_int snap_index @ ''-'' @ show_int now_ms @ ''.snap''"

text \<open>\<^verbatim>\<open>push_int64\<close> and \<^verbatim>\<open>push_int32\<close>: \<^verbatim>\<open>n\<close> bytes, least significant first.\<close>

definition push_int :: "nat \<Rightarrow> int \<Rightarrow> bytes" where
  "push_int n v = map (\<lambda>i. word_of_int (drop_bit (8 * i) v)) [0..<n]"

definition snapshot_image :: "LogIndex \<Rightarrow> RaftTerm \<Rightarrow> timestamp_ms \<Rightarrow> RaftMembership \<Rightarrow> bytes" where
  "snapshot_image i t now_ms m =
     push_int 8 i @ push_int 8 t @ push_int 8 now_ms @
     push_int 4 (int (length (members m))) @ concat (map (push_int 4) (members m)) @
     push_int 4 (int (length (joint_members m))) @ concat (map (push_int 4) (joint_members m))"

text \<open>The data goes to a temporary file that is renamed over \<open>path\<close>: all of it or nothing.\<close>

definition write_file_atomic :: "env \<Rightarrow> string \<Rightarrow> bytes \<Rightarrow> 'l RaftNode \<Rightarrow> bool \<times> 'l RaftNode" where
  "write_file_atomic E path d s =
     (let ok = env_write_ok E (rn_oracle s); s = s\<lparr>rn_oracle := rn_oracle s + 1\<rparr>
      in (ok, if ok then s\<lparr>rn_files := AList.update path d (rn_files s)\<rparr> else s))"

definition create_snapshot :: "env \<Rightarrow> 'l RaftLog \<Rightarrow> 'l RaftNode \<Rightarrow> RaftSnapshot \<times> 'l RaftNode" where
  "create_snapshot E L s =
     (if rn_commit_index s \<le> first_index L (rn_log s) then (empty_snapshot, s)
      else
        let snap_index = rn_commit_index s;
            snap_term = term_at L (rn_log s) snap_index
        in if snap_term = kNoTerm \<and> snap_index > 0 then (empty_snapshot, s)
           else
             let now_ms = env_wall E (rn_oracle s);
                 s = s\<lparr>rn_oracle := rn_oracle s + 1\<rparr>;
                 path = snapshot_path s snap_index now_ms;
                 image = snapshot_image snap_index snap_term now_ms (rn_membership s);
                 (ok, s) = write_file_atomic E path image s
             in if \<not> ok then (empty_snapshot, s)
                else
                  let snap = \<lparr>snap_file_path = path, snap_last_included_index = snap_index,
                              snap_last_included_term = snap_term,
                              snap_membership = rn_membership s,
                              snap_file_size_bytes = length image, snap_created_at_ms = now_ms\<rparr>
                  in (snap, s\<lparr>rn_log := apply_snapshot L (truncate_prefix L (rn_log s) snap_index) snap\<rparr>))"

text \<open>\<^verbatim>\<open>snapshot_chunk_data_[target]\<close>: an absent key reads as no data.\<close>

definition chunk_data :: "'l RaftNode \<Rightarrow> RaftNodeId \<Rightarrow> bytes" where
  "chunk_data s p = (case rn_snapshot_chunks s p of None \<Rightarrow> [] | Some d \<Rightarrow> d)"

definition put_chunks :: "RaftNodeId \<Rightarrow> bytes \<Rightarrow> 'l RaftNode \<Rightarrow> 'l RaftNode" where
  "put_chunks p d s = s\<lparr>rn_snapshot_chunks := (rn_snapshot_chunks s)(p \<mapsto> d)\<rparr>"

definition erase_chunks :: "RaftNodeId \<Rightarrow> 'l RaftNode \<Rightarrow> 'l RaftNode" where
  "erase_chunks p s = s\<lparr>rn_snapshot_chunks := forget [p] (rn_snapshot_chunks s)\<rparr>"

text \<open>
  The first half of \<^verbatim>\<open>send_install_snapshot_to\<close>: start a transfer or move to the next chunk.
  \<open>None\<close> is an early return. The request built here is a local of its block: only what it
  leaves in \<^verbatim>\<open>pending_snapshot\<close> and \<^verbatim>\<open>snapshot_chunk_data_\<close> survives.
\<close>

definition begin_snapshot_transfer ::
  "env \<Rightarrow> 'l RaftLog \<Rightarrow> RaftNodeId \<Rightarrow> FollowerState \<Rightarrow> 'l RaftNode \<Rightarrow> 'l RaftNode option" where
  "begin_snapshot_transfer E L target f s =
     (let last_included = first_index L (rn_log s) - 1;
          file = env_snapshot_file E (rn_oracle s);
          s = s\<lparr>rn_oracle := rn_oracle s + 1\<rparr>
      in case file of
           None \<Rightarrow> None
         | Some None \<Rightarrow> None
         | Some (Some d) \<Rightarrow>
             if length d > snapshot_chunk_size (rn_config s)
             then Some (put_chunks target d (put_follower target
                    (f\<lparr>fs_pending_snapshot := Some
                        \<lparr>is_term = rn_current_term s, is_leader_id = rn_id s,
                         is_last_included_index = last_included,
                         is_last_included_term = term_at L (rn_log s) last_included,
                         is_offset = 0, is_data = [], is_done = False\<rparr>\<rparr>) s))
             else Some s)"

definition continue_snapshot_transfer ::
  "RaftNodeId \<Rightarrow> FollowerState \<Rightarrow> InstallSnapshotRequest \<Rightarrow> 'l RaftNode \<Rightarrow> 'l RaftNode" where
  "continue_snapshot_transfer target f pending s =
     (let stored = chunk_data s target;
          offset = is_offset pending;
          chunk_size = snapshot_chunk_size (rn_config s);
          is_last = (offset + chunk_size \<ge> length stored);
          sent = take (min (offset + chunk_size) (length stored) - offset) (drop offset stored)
      in if is_last
         then erase_chunks target (put_follower target (f\<lparr>fs_pending_snapshot := None\<rparr>) s)
         else put_follower target
                (f\<lparr>fs_pending_snapshot := Some (pending\<lparr>is_offset := offset + length sent\<rparr>)\<rparr>) s)"

text \<open>The second half: the request that goes out, and the state it leaves.\<close>

definition snapshot_request ::
  "'l RaftLog \<Rightarrow> RaftNodeId \<Rightarrow> FollowerState \<Rightarrow> 'l RaftNode \<Rightarrow> InstallSnapshotRequest" where
  "snapshot_request L target f s =
     (case fs_pending_snapshot f of
        None \<Rightarrow>
          let last_included = first_index L (rn_log s) - 1
          in \<lparr>is_term = rn_current_term s, is_leader_id = rn_id s,
              is_last_included_index = last_included,
              is_last_included_term = term_at L (rn_log s) last_included,
              is_offset = 0, is_data = chunk_data s target, is_done = True\<rparr>
      | Some pending \<Rightarrow>
          let stored = chunk_data s target;
              offset = is_offset pending;
              d = take (min (offset + snapshot_chunk_size (rn_config s)) (length stored) - offset)
                    (drop offset stored)
          in pending\<lparr>is_data := d, is_offset := offset,
                     is_done := (offset + length d \<ge> length stored)\<rparr>)"

definition send_snapshot_chunk ::
  "env \<Rightarrow> 'l RaftLog \<Rightarrow> RaftNodeId \<Rightarrow> 'l RaftNode \<Rightarrow> 'l RaftNode" where
  "send_snapshot_chunk E L target s =
     (case find_follower s target of
        None \<Rightarrow> s
      | Some f \<Rightarrow>
          let req = snapshot_request L target f s;
              s = (if fs_pending_snapshot f = None then put_chunks target [] s else s);
              (ok, s) = send_rpc E target (InstallSnapshotRpc req) s
          in if ok then put_follower target (f\<lparr>fs_in_flight := fs_in_flight f + 1\<rparr>) s
             else erase_chunks target (put_follower target
                    (f\<lparr>fs_in_flight := fs_in_flight f - 1, fs_pending_snapshot := None\<rparr>) s))"

definition send_install_snapshot_to :: "env \<Rightarrow> 'l RaftLog \<Rightarrow> RaftNodeId \<Rightarrow> 'l RaftNode \<Rightarrow> 'l RaftNode" where
  "send_install_snapshot_to E L target s =
     (case find_follower s target of
        None \<Rightarrow> s
      | Some f \<Rightarrow>
          if first_index L (rn_log s) \<le> 1 then s
          else if length (filter (\<lambda>(_, g). fs_pending_snapshot g \<noteq> None) (rn_followers s))
                    \<ge> kMaxConcurrentSnapshots \<and> fs_pending_snapshot f = None then s
          else case fs_pending_snapshot f of
                 None \<Rightarrow>
                   (case begin_snapshot_transfer E L target f s of
                      None \<Rightarrow> s\<lparr>rn_oracle := rn_oracle s + 1\<rparr>
                    | Some s \<Rightarrow> send_snapshot_chunk E L target s)
               | Some pending \<Rightarrow>
                   send_snapshot_chunk E L target (continue_snapshot_transfer target f pending s))"

section \<open>Replication\<close>

text \<open>The byte-budget loop: how many entries are kept; the first one always is.\<close>

fun keep_within :: "nat \<Rightarrow> nat \<Rightarrow> nat \<Rightarrow> LogEntry list \<Rightarrow> nat" where
  "keep_within limit total_bytes i [] = 0"
| "keep_within limit total_bytes i (e # es) =
     (if total_bytes + log_entry_byte_size e > limit \<and> i > 0 then 0
      else Suc (keep_within limit (total_bytes + log_entry_byte_size e) (i + 1) es))"

definition append_batch :: "'l RaftLog \<Rightarrow> 'l RaftNode \<Rightarrow> FollowerState \<Rightarrow> LogEntry list" where
  "append_batch L s f =
     (let max_entries = min (max_entries_per_append (rn_config s)) kHardMaxEntriesPerAppend;
          available = nat (last_index L (rn_log s) - fs_next_index f + 1);
          to_send = min max_entries available;
          end = fs_next_index f + int to_send - 1;
          es = get_entries L (rn_log s) (fs_next_index f) end
      in take (keep_within (max_append_bytes (rn_config s)) 0 0 es) es)"

definition send_append_entries_to :: "env \<Rightarrow> 'l RaftLog \<Rightarrow> RaftNodeId \<Rightarrow> 'l RaftNode \<Rightarrow> 'l RaftNode" where
  "send_append_entries_to E L target s =
     (case find_follower s target of
        None \<Rightarrow> s
      | Some f \<Rightarrow>
          if fs_in_flight f \<ge> rpc_queue_capacity (rn_config s) then s
          else if fs_next_index f > last_index L (rn_log s) then s
          else if append_batch L s f = [] then s
          else
            let req = (heartbeat_request L s f)\<lparr>ae_entries := append_batch L s f\<rparr>;
                f' = f\<lparr>fs_in_flight := fs_in_flight f + 1\<rparr>;
                (ok, s) = send_rpc E target (AppendEntriesRpc req) (put_follower target f' s)
            in if ok then s\<lparr>rn_heartbeat_failures := (rn_heartbeat_failures s)(target \<mapsto> 0)\<rparr>
               else (put_follower target f s)
                 \<lparr>rn_heartbeat_failures :=
                    (rn_heartbeat_failures s)(target \<mapsto> counter (rn_heartbeat_failures s) target + 1)\<rparr>)"

definition replicate_to_follower :: "env \<Rightarrow> 'l RaftLog \<Rightarrow> RaftNodeId \<Rightarrow> 'l RaftNode \<Rightarrow> 'l RaftNode" where
  "replicate_to_follower E L peer s =
     (case find_follower s peer of
        None \<Rightarrow> s
      | Some f \<Rightarrow>
          if \<not> fs_is_active f then s
          else if fs_in_flight f \<ge> rpc_queue_capacity (rn_config s) then s
          else if fs_next_index f > last_index L (rn_log s) then s
          else if fs_next_index f > 0 \<and> fs_next_index f \<le> first_index L (rn_log s)
            then send_install_snapshot_to E L peer s
          else send_append_entries_to E L peer s)"

definition replicate_to_followers :: "env \<Rightarrow> 'l RaftLog \<Rightarrow> 'l RaftNode \<Rightarrow> 'l RaftNode" where
  "replicate_to_followers E L s =
     (if rn_state s \<noteq> Leader then s
      else if members (rn_membership s) = [] then s
      else fold (replicate_to_follower E L) (map fst (rn_followers s)) s)"

section \<open>Lifecycle\<close>

text \<open>\<^verbatim>\<open>start()\<close> throws \<^verbatim>\<open>logic_error\<close> when the node already runs: \<open>None\<close>.\<close>

definition start_node :: "env \<Rightarrow> 'l RaftNode \<Rightarrow> 'l RaftNode option" where
  "start_node E s =
     (if rn_running s then None
      else Some ((stamp_heartbeat E (reset_deadline E
             (s\<lparr>rn_running := True, rn_state := Follower, rn_leader_id := kNoLeader\<rparr>)))
           \<lparr>rn_heartbeat_failures := Map.empty, rn_backtrack_rounds := Map.empty\<rparr>))"

definition shutdown_node :: "'l RaftNode \<Rightarrow> 'l RaftNode" where
  "shutdown_node s =
     (if \<not> rn_running s then s
      else
        let s = s\<lparr>rn_running := False\<rparr>;
            s = (if rn_state s = Leader
                 then s\<lparr>rn_lease := lease_revoke (rn_lease s), rn_followers := [],
                        rn_heartbeat_failures := Map.empty, rn_backtrack_rounds := Map.empty\<rparr> else s)
        in s\<lparr>rn_state := Follower, rn_leader_id := kNoLeader, rn_transferring := False\<rparr>)"

text \<open>
  One pass of the heartbeat thread. \<open>None\<close>: \<^verbatim>\<open>maybe_create_snapshot\<close> calls the public
  \<^verbatim>\<open>create_snapshot\<close>, which locks the mutex the thread already holds.
\<close>

definition try_reactivate_followers :: "env \<Rightarrow> 'l RaftNode \<Rightarrow> 'l RaftNode" where
  "try_reactivate_followers E s =
     (if rn_state s \<noteq> Leader then s
      else
        let now = env_clock E (rn_oracle s);
            wake = (\<lambda>f. \<not> fs_is_active f \<and> now - fs_last_ack f > millis kFollowerReactivationInterval)
        in s\<lparr>rn_oracle := rn_oracle s + 1,
             rn_heartbeat_failures := (\<lambda>p. case find_follower s p of
                 Some f \<Rightarrow> if wake f then Some 0 else rn_heartbeat_failures s p
               | None \<Rightarrow> rn_heartbeat_failures s p),
             rn_followers := map (\<lambda>(p, f). (p, if wake f then f\<lparr>fs_is_active := True\<rparr> else f))
                               (rn_followers s)\<rparr>)"

definition maybe_create_snapshot :: "'l RaftLog \<Rightarrow> 'l RaftNode \<Rightarrow> 'l RaftNode option" where
  "maybe_create_snapshot L s =
     (if rn_state s \<noteq> Leader then Some s
      else if entry_count L (rn_log s) \<ge> snapshot_threshold_entries (rn_config s) then None
      else Some s)"

definition recently_acked :: "int \<Rightarrow> int \<Rightarrow> 'l RaftNode \<Rightarrow> nat" where
  "recently_acked now window s =
     length (filter (\<lambda>(_, f). fs_is_active f \<and> now - fs_last_ack f < window) (rn_followers s))"

definition heartbeat_tick :: "env \<Rightarrow> 'l RaftLog \<Rightarrow> 'l RaftNode \<Rightarrow> 'l RaftNode option" where
  "heartbeat_tick E L s =
     (if rn_state s \<noteq> Leader then Some s
      else
        let now = env_clock E (rn_oracle s); s = s\<lparr>rn_oracle := rn_oracle s + 1\<rparr>;
            q_reached = recently_acked now (millis (heartbeat_interval (rn_config s) * 3)) s + 1
        in if q_reached < quorum_size s \<and>
              now - rn_last_heartbeat s > millis (max_election_timeout (rn_config s) * 3)
           then Some (become_follower E (rn_current_term s) s)
           else map_option (try_reactivate_followers E)
                  (maybe_create_snapshot L (replicate_to_followers E L (send_heartbeats E L s))))"

section \<open>Client operations\<close>

text \<open>Error codes are those of the prelude; the message strings are not modelled.\<close>

definition propose ::
  "'l RaftLog \<Rightarrow> RaftCommand \<Rightarrow> 'l RaftNode \<Rightarrow> (error_code + LogIndex) \<times> 'l RaftNode" where
  "propose L command s =
     (if \<not> rn_running s then (Inl shutdown_in_progress, s)
      else if rn_state s \<noteq> Leader then (Inl not_leader_for_partition, s)
      else if members (rn_membership s) \<noteq> [] \<and> \<not> is_member (members (rn_membership s)) (rn_id s)
        then (Inl not_leader_for_partition, s)
      else if rn_transferring s then (Inl not_leader_for_partition, s)
      else if rn_pending_config_index s \<noteq> 0 \<and> (case command of ConfigChange _ \<Rightarrow> True | _ \<Rightarrow> False)
        then (Inl reassignment_in_progress, s)
      else if members (rn_membership s) = [] then (Inl broker_not_available, s)
      else
        let prev_idx = last_index L (rn_log s);
            prev_term = (if prev_idx > 0 then term_at L (rn_log s) prev_idx else kNoTerm);
            e = \<lparr>le_term = rn_current_term s, le_index = prev_idx + 1, le_command = command\<rparr>;
            (r, l) = append_log L (rn_log s) prev_idx prev_term [e];
            s = s\<lparr>rn_log := l\<rparr>
        in if r = kNoLogIndex then (Inl corrupt_message, s)
           else (Inr (le_index e),
                 if is_config_change e then s\<lparr>rn_pending_config_index := le_index e\<rparr> else s))"

definition step_down :: "env \<Rightarrow> 'l RaftNode \<Rightarrow> 'l RaftNode" where
  "step_down E s = (if rn_state s \<noteq> Leader then s else become_follower E (rn_current_term s) s)"

text \<open>
  \<^verbatim>\<open>transfer_leadership\<close> releases the lock while it waits, so it is several steps: what it does
  until the loop, one round of the loop up to the release, the check after the lock is taken again,
  the signal to the target, and what follows the last wait. \<open>TransferEnd\<close> is a return.
\<close>

datatype TransferOutcome = TransferEnd | TransferLoop LogIndex | TransferWait | TransferSignal

definition transfer_begin ::
  "'l RaftLog \<Rightarrow> RaftNodeId \<Rightarrow> 'l RaftNode \<Rightarrow> TransferOutcome \<times> 'l RaftNode" where
  "transfer_begin L target s =
     (if rn_state s \<noteq> Leader then (TransferEnd, s)
      else if target = rn_id s then (TransferEnd, s)
      else if \<not> is_member (quorum_set (rn_membership s)) target then (TransferEnd, s)
      else if find_follower s target = None then (TransferEnd, s\<lparr>rn_transferring := False\<rparr>)
      else (TransferLoop (last_index L (rn_log s)), s\<lparr>rn_transferring := True\<rparr>))"

definition kTransferMaxRounds :: nat where "kTransferMaxRounds = 20"

text \<open>\<open>None\<close>: the iterator of the target was invalidated while the lock was released.\<close>

definition transfer_round ::
  "env \<Rightarrow> 'l RaftLog \<Rightarrow> RaftNodeId \<Rightarrow> LogIndex \<Rightarrow> nat \<Rightarrow> 'l RaftNode \<Rightarrow>
     (TransferOutcome \<times> 'l RaftNode) option" where
  "transfer_round E L target last_idx k s =
     (if k \<ge> kTransferMaxRounds then Some (TransferSignal, s)
      else if \<not> rn_running s then Some (TransferEnd, s\<lparr>rn_transferring := False\<rparr>)
      else case find_follower s target of
             None \<Rightarrow> None
           | Some f \<Rightarrow>
               if fs_match_index f \<ge> last_idx then Some (TransferSignal, s)
               else Some (TransferWait, send_append_entries_to E L target s))"

definition transfer_resume :: "LogIndex \<Rightarrow> 'l RaftNode \<Rightarrow> TransferOutcome \<times> 'l RaftNode" where
  "transfer_resume last_idx s =
     (if rn_state s \<noteq> Leader then (TransferEnd, s\<lparr>rn_transferring := False\<rparr>)
      else (TransferLoop last_idx, s))"

definition transfer_signal :: "env \<Rightarrow> 'l RaftLog \<Rightarrow> RaftNodeId \<Rightarrow> 'l RaftNode \<Rightarrow> 'l RaftNode" where
  "transfer_signal E L target s =
     snd (send_rpc E target (RequestVoteRpc
       \<lparr>rv_term = rn_current_term s + 1, rv_candidate_id = target,
        rv_last_log_index = last_index L (rn_log s),
        rv_last_log_term = term_at L (rn_log s) (last_index L (rn_log s)), rv_pre_vote = False\<rparr>) s)"

definition transfer_finish :: "env \<Rightarrow> 'l RaftNode \<Rightarrow> 'l RaftNode" where
  "transfer_finish E s =
     (if rn_state s = Leader then become_follower E (rn_current_term s) s else s)
     \<lparr>rn_transferring := False\<rparr>"

section \<open>Inbound RPCs\<close>

text \<open>The walk to the first index of the conflicting term.\<close>

function conflict_scan :: "'l RaftLog \<Rightarrow> 'l \<Rightarrow> RaftTerm \<Rightarrow> LogIndex \<Rightarrow> LogIndex" where
  "conflict_scan L l t i =
     (if i > first_index L l \<and> term_at L l (i - 1) = t then conflict_scan L l t (i - 1) else i)"
  by pat_completeness auto
termination
  by (relation "measure (\<lambda>(L, l, t, i). nat (i - first_index L l))") auto

declare conflict_scan.simps [simp del]

definition check_prev_log :: "'l RaftLog \<Rightarrow> 'l \<Rightarrow> LogIndex \<Rightarrow> RaftTerm \<Rightarrow> LogIndex option" where
  "check_prev_log L l prev_index prev_term =
     (if prev_index > 0 then
        (if prev_index > last_index L l then Some (last_index L l + 1)
         else
           let local_term = term_at L l prev_index
           in if local_term \<noteq> prev_term
              then Some (if local_term \<noteq> kNoTerm then conflict_scan L l local_term prev_index
                         else prev_index)
              else None)
      else None)"

text \<open>
  \<open>Some c\<close>: refused with conflict index \<open>c\<close>; \<open>None\<close>: accepted. When the append itself fails, the
  suffix has been truncated all the same.
\<close>

definition append_entries_to_log ::
  "'l RaftLog \<Rightarrow> AppendEntriesRequest \<Rightarrow> 'l \<Rightarrow> LogIndex option \<times> 'l" where
  "append_entries_to_log L req l =
     (case check_prev_log L l (ae_prev_log_index req) (ae_prev_log_term req) of
        Some c \<Rightarrow> (Some c, l)
      | None \<Rightarrow>
          if ae_entries req = [] then (None, l)
          else
            let new_first = le_index (hd (ae_entries req));
                l = (if new_first \<le> last_index L l then truncate_suffix L l (new_first - 1) else l);
                (r, l) = append_log L l (ae_prev_log_index req) (ae_prev_log_term req) (ae_entries req)
            in if r = kNoLogIndex then (Some (ae_prev_log_index req + 1), l) else (None, l))"

definition note_leader :: "env \<Rightarrow> RaftNodeId \<Rightarrow> 'l RaftNode \<Rightarrow> 'l RaftNode" where
  "note_leader E leader s = reset_deadline E (stamp_heartbeat E (s\<lparr>rn_leader_id := leader\<rparr>))"

text \<open>\<open>None\<close>: \<^verbatim>\<open>apply_committed\<close> does not return.\<close>

definition handle_append_entries ::
  "env \<Rightarrow> 'l RaftLog \<Rightarrow> AppendEntriesRequest \<Rightarrow> 'l RaftNode \<Rightarrow> (AppendEntriesResponse \<times> 'l RaftNode) option" where
  "handle_append_entries E L req s =
     (let resp = \<lparr>ar_term = rn_current_term s, ar_success = False,
                  ar_last_log_index = last_index L (rn_log s), ar_conflict_index = 0\<rparr>
      in if ae_term req < rn_current_term s
         then Some (resp\<lparr>ar_conflict_index := last_index L (rn_log s) + 1\<rparr>, s)
         else
           let s = (if ae_term req > rn_current_term s then become_follower E (ae_term req) s else s);
               resp = resp\<lparr>ar_term := rn_current_term s\<rparr>;
               s = note_leader E (ae_leader_id req) s
           in if rn_state s = Leader \<and> ae_term req = rn_current_term s then Some (resp, s)
              else case append_entries_to_log L req (rn_log s) of
                (Some c, l) \<Rightarrow> Some (resp\<lparr>ar_conflict_index := c\<rparr>, s\<lparr>rn_log := l\<rparr>)
              | (None, l) \<Rightarrow>
                  let s = s\<lparr>rn_log := l\<rparr>;
                      last_new = (if ae_entries req = [] then ae_prev_log_index req
                                  else le_index (last (ae_entries req)))
                  in map_option (\<lambda>s. (resp\<lparr>ar_success := True\<rparr>, s))
                       (if ae_leader_commit req > rn_commit_index s
                        then apply_committed E L
                               (s\<lparr>rn_commit_index := min (ae_leader_commit req) last_new\<rparr>)
                        else Some s))"

definition handle_request_vote ::
  "env \<Rightarrow> 'l RaftLog \<Rightarrow> RequestVoteRequest \<Rightarrow> 'l RaftNode \<Rightarrow> RequestVoteResponse \<times> 'l RaftNode" where
  "handle_request_vote E L req s =
     (let resp = \<lparr>vr_term = rn_current_term s, vr_vote_granted = False\<rparr>;
          up_to_date = (\<lambda>s. log_is_up_to_date L s (rv_last_log_index req) (rv_last_log_term req))
      in if rv_pre_vote req then
           (if rv_term req < rn_current_term s then (resp, s)
            else if \<not> up_to_date s then (resp, s)
            else (resp\<lparr>vr_vote_granted := True\<rparr>, s))
         else if rv_term req < rn_current_term s then (resp, s)
         else
           let s = (if rv_term req > rn_current_term s then become_follower E (rv_term req) s else s);
               resp = resp\<lparr>vr_term := rn_current_term s\<rparr>
           in if rn_voted_for s \<noteq> kNoLeader \<and> rn_voted_for s \<noteq> rv_candidate_id req then (resp, s)
              else if \<not> up_to_date s then (resp, s)
              else (resp\<lparr>vr_vote_granted := True\<rparr>,
                    reset_deadline E (s\<lparr>rn_voted_for := rv_candidate_id req\<rparr>)))"

text \<open>Step 7: the final chunk arrived.\<close>

definition install_snapshot :: "env \<Rightarrow> 'l RaftLog \<Rightarrow> 'l RaftNode \<Rightarrow> 'l RaftNode" where
  "install_snapshot E L s =
     (let meta = rn_pending_snapshot_meta s;
          now_ms = env_wall E (rn_oracle s); s = s\<lparr>rn_oracle := rn_oracle s + 1\<rparr>;
          snap = empty_snapshot\<lparr>snap_last_included_index := is_last_included_index meta,
                                snap_last_included_term := is_last_included_term meta,
                                snap_file_size_bytes := length (rn_snapshot_buffer s),
                                snap_created_at_ms := now_ms,
                                snap_file_path := snapshot_path s (is_last_included_index meta) now_ms\<rparr>;
          (ok, s) = write_file_atomic E (snap_file_path snap) (rn_snapshot_buffer s) s;
          s = (if ok then
                 s\<lparr>rn_log := apply_snapshot L (rn_log s) snap,
                   rn_commit_index := max (rn_commit_index s) (snap_last_included_index snap),
                   rn_last_applied := max (rn_last_applied s) (snap_last_included_index snap)\<rparr>
               else s)
      in s\<lparr>rn_snapshot_buffer := [], rn_pending_snapshot_meta := empty_install_snapshot\<rparr>)"

definition handle_install_snapshot ::
  "env \<Rightarrow> 'l RaftLog \<Rightarrow> InstallSnapshotRequest \<Rightarrow> 'l RaftNode \<Rightarrow> InstallSnapshotResponse \<times> 'l RaftNode" where
  "handle_install_snapshot E L req s =
     (if is_term req < rn_current_term s then (\<lparr>sr_term = rn_current_term s\<rparr>, s)
      else
        let s = (if is_term req > rn_current_term s then become_follower E (is_term req) s else s);
            resp = \<lparr>sr_term = rn_current_term s\<rparr>;
            s = note_leader E (is_leader_id req) s;
            s = (if is_offset req = 0
                 then s\<lparr>rn_pending_snapshot_meta := req\<lparr>is_data := []\<rparr>, rn_snapshot_buffer := []\<rparr> else s)
        in if is_offset req \<noteq> length (rn_snapshot_buffer s)
           then (resp, s\<lparr>rn_snapshot_buffer := []\<rparr>)
           else
             let s = s\<lparr>rn_snapshot_buffer := rn_snapshot_buffer s @ is_data req\<rparr>
             in (resp, if is_done req then install_snapshot E L s else s))"

section \<open>Responses\<close>

text \<open>The lease is extended when a quorum answered within two heartbeat intervals.\<close>

definition renew_lease :: "env \<Rightarrow> 'l RaftNode \<Rightarrow> 'l RaftNode" where
  "renew_lease E s =
     (if enable_leader_lease (rn_config s) then
        let now = env_clock E (rn_oracle s); s = s\<lparr>rn_oracle := rn_oracle s + 1\<rparr>;
            acked = Suc (length (filter (\<lambda>(p, g). p \<noteq> rn_id s \<and> fs_is_active g \<and>
                      now - fs_last_ack g < millis (heartbeat_interval (rn_config s) * 2))
                      (rn_followers s)))
        in if acked \<ge> quorum_size s then extend_lease E s else s
      else s)"

text \<open>The two branches of \<^verbatim>\<open>handle_append_entries_response\<close>, with \<open>f\<close> already marked alive.\<close>

definition replication_acked ::
  "env \<Rightarrow> 'l RaftLog \<Rightarrow> RaftNodeId \<Rightarrow> AppendEntriesResponse \<Rightarrow> FollowerState \<Rightarrow> 'l RaftNode \<Rightarrow> 'l RaftNode option" where
  "replication_acked E L from resp f s =
     (let f = (if ar_last_log_index resp > fs_match_index f
               then f\<lparr>fs_match_index := ar_last_log_index resp,
                      fs_next_index := ar_last_log_index resp + 1\<rparr> else f)
      in map_option (renew_lease E) (advance_commit_index E L (put_follower from f s)))"

definition backtrack :: "'l RaftLog \<Rightarrow> 'l RaftNode \<Rightarrow> AppendEntriesResponse \<Rightarrow> FollowerState \<Rightarrow> FollowerState" where
  "backtrack L s resp f =
     (let f = (if ar_conflict_index resp > 0 \<and> ar_conflict_index resp < fs_next_index f
               then f\<lparr>fs_next_index := ar_conflict_index resp\<rparr>
               else if fs_next_index f > 1 then f\<lparr>fs_next_index := fs_next_index f - 1\<rparr> else f)
      in if fs_next_index f < first_index L (rn_log s)
         then f\<lparr>fs_next_index := first_index L (rn_log s)\<rparr> else f)"

definition replication_refused ::
  "env \<Rightarrow> 'l RaftLog \<Rightarrow> RaftNodeId \<Rightarrow> AppendEntriesResponse \<Rightarrow> FollowerState \<Rightarrow> 'l RaftNode \<Rightarrow> 'l RaftNode" where
  "replication_refused E L from resp f s =
     (let f = backtrack L s resp f;
          rounds = counter (rn_backtrack_rounds s) from + 1;
          fi = first_index L (rn_log s);
          s = put_follower from f s
      in if fs_next_index f \<le> fi \<and> fi > 1 \<or> rounds \<ge> kMaxBacktrackRounds
         then send_install_snapshot_to E L from
                (s\<lparr>rn_backtrack_rounds := (rn_backtrack_rounds s)(from \<mapsto> 0)\<rparr>)
         else send_append_entries_to E L from
                (s\<lparr>rn_backtrack_rounds := (rn_backtrack_rounds s)(from \<mapsto> rounds)\<rparr>))"

definition handle_append_entries_response ::
  "env \<Rightarrow> 'l RaftLog \<Rightarrow> RaftNodeId \<Rightarrow> AppendEntriesResponse \<Rightarrow> 'l RaftNode \<Rightarrow> 'l RaftNode option" where
  "handle_append_entries_response E L from resp s =
     (if rn_state s \<noteq> Leader then Some s
      else if ar_term resp > rn_current_term s then Some (become_follower E (ar_term resp) s)
      else case find_follower s from of
        None \<Rightarrow> Some s
      | Some f \<Rightarrow>
          let f = f\<lparr>fs_in_flight := fs_in_flight f - 1, fs_last_ack := env_clock E (rn_oracle s),
                    fs_is_active := True\<rparr>;
              s = s\<lparr>rn_oracle := rn_oracle s + 1,
                    rn_heartbeat_failures := (rn_heartbeat_failures s)(from \<mapsto> 0)\<rparr>
          in if ar_success resp then replication_acked E L from resp f s
             else Some (replication_refused E L from resp f s))"

definition handle_request_vote_response ::
  "env \<Rightarrow> 'l RaftLog \<Rightarrow> RequestVoteResponse \<Rightarrow> 'l RaftNode \<Rightarrow> 'l RaftNode" where
  "handle_request_vote_response E L resp s =
     (if rn_state s \<noteq> Candidate \<and> rn_state s \<noteq> PreCandidate then s
      else
        let is_pre_vote = (rn_state s = PreCandidate);
            our_request_term = (if is_pre_vote then rn_current_term s + 1 else rn_current_term s)
        in if vr_term resp > our_request_term then become_follower E (vr_term resp) s
           else tally_votes E L is_pre_vote
                  (if vr_vote_granted resp then
                     (if is_pre_vote then s\<lparr>rn_pre_votes_received := rn_pre_votes_received s + 1\<rparr>
                      else s\<lparr>rn_votes_received := rn_votes_received s + 1\<rparr>)
                   else s))"

definition handle_install_snapshot_response ::
  "env \<Rightarrow> 'l RaftLog \<Rightarrow> RaftNodeId \<Rightarrow> InstallSnapshotResponse \<Rightarrow> 'l RaftNode \<Rightarrow> 'l RaftNode option" where
  "handle_install_snapshot_response E L from resp s =
     (if rn_state s \<noteq> Leader then Some s
      else if sr_term resp > rn_current_term s then Some (become_follower E (sr_term resp) s)
      else case find_follower s from of
        None \<Rightarrow> Some s
      | Some f \<Rightarrow>
          let f = f\<lparr>fs_in_flight := fs_in_flight f - 1\<rparr>
          in case fs_pending_snapshot f of
               None \<Rightarrow> Some (put_follower from f s)
             | Some pending \<Rightarrow>
                 if is_done pending then
                   let snap_idx = is_last_included_index pending;
                       f = (if snap_idx > fs_match_index f
                            then f\<lparr>fs_match_index := snap_idx, fs_next_index := snap_idx + 1\<rparr> else f);
                       f = f\<lparr>fs_pending_snapshot := None\<rparr>
                   in advance_commit_index E L (erase_chunks from (put_follower from f s))
                 else Some (send_install_snapshot_to E L from (put_follower from f s)))"

end
