(* ===== verification/Raft_Frames.thy ===== *)
theory Raft_Frames
  imports Raft_Node
begin

text \<open>
  What the methods of the node leave alone. \<open>core\<close> collects the fields that consensus depends on;
  sending messages, stamping clocks and tracking followers keep it, and every other method changes
  a part of it that the lemmas below name.
\<close>

definition core :: "'l RaftNode \<Rightarrow> _" where
  "core s = ((rn_id s, rn_config s, rn_log s, rn_current_term s, rn_voted_for s, rn_state s),
             (rn_commit_index s, rn_last_applied s, rn_applied s, rn_membership s,
              rn_pending_config_index s, rn_running s, rn_transferring s),
             (rn_leader_id s, rn_votes_received s, rn_pre_votes_received s,
              rn_snapshot_buffer s, rn_pending_snapshot_meta s, rn_files s))"

lemma core_eqD:
  assumes "core s' = core s"
  shows "rn_id s' = rn_id s" "rn_config s' = rn_config s" "rn_log s' = rn_log s"
    "rn_current_term s' = rn_current_term s" "rn_voted_for s' = rn_voted_for s"
    "rn_state s' = rn_state s" "rn_commit_index s' = rn_commit_index s"
    "rn_last_applied s' = rn_last_applied s" "rn_applied s' = rn_applied s"
    "rn_membership s' = rn_membership s" "rn_pending_config_index s' = rn_pending_config_index s"
    "rn_running s' = rn_running s" "rn_transferring s' = rn_transferring s"
    "rn_leader_id s' = rn_leader_id s" "rn_votes_received s' = rn_votes_received s"
    "rn_pre_votes_received s' = rn_pre_votes_received s"
    "rn_snapshot_buffer s' = rn_snapshot_buffer s"
    "rn_pending_snapshot_meta s' = rn_pending_snapshot_meta s" "rn_files s' = rn_files s"
  using assms by (auto simp: core_def)

lemma fold_frame:
  assumes "\<And>x s. g (f x s) = g s"
  shows "g (fold f xs s) = g s"
  using assms by (induction xs arbitrary: s) auto

section \<open>Sending and tracking\<close>

lemma core_send_rpc: "core (snd (send_rpc E p m s)) = core s"
  by (simp add: send_rpc_def core_def Let_def)

lemma core_put_follower: "core (put_follower p f s) = core s"
  by (simp add: put_follower_def core_def)

lemma core_track_follower: "core (track_follower E L p s) = core s"
  by (simp add: track_follower_def put_follower_def core_def)

lemma core_track_new_follower: "core (track_new_follower E L p s) = core s"
  by (simp add: track_new_follower_def core_track_follower)

lemma core_reset_deadline: "core (reset_deadline E s) = core s"
  by (simp add: reset_deadline_def core_def)

lemma core_stamp_heartbeat: "core (stamp_heartbeat E s) = core s"
  by (simp add: stamp_heartbeat_def core_def)

lemma core_extend_lease: "core (extend_lease E s) = core s"
  by (simp add: extend_lease_def core_def Let_def)

lemma core_drop_followers: "core (drop_followers ps s) = core s"
  by (simp add: drop_followers_def core_def)

lemma core_put_chunks: "core (put_chunks p d s) = core s"
  by (simp add: put_chunks_def core_def)

lemma core_erase_chunks: "core (erase_chunks p s) = core s"
  by (simp add: erase_chunks_def core_def)

lemma core_updates [simp]:
  "core (s\<lparr>rn_oracle := n\<rparr>) = core s" "core (s\<lparr>rn_followers := fs\<rparr>) = core s"
  "core (s\<lparr>rn_heartbeat_failures := h\<rparr>) = core s" "core (s\<lparr>rn_backtrack_rounds := h\<rparr>) = core s"
  "core (s\<lparr>rn_lease := l\<rparr>) = core s"
  by (simp_all add: core_def)

lemmas core_basic [simp] =
  core_send_rpc core_put_follower core_track_follower core_track_new_follower core_reset_deadline
  core_stamp_heartbeat core_extend_lease core_drop_followers core_put_chunks core_erase_chunks

lemma core_send_vote_request [simp]: "core (send_vote_request E req p s) = core s"
  by (simp add: send_vote_request_def)

lemma core_start_vote_round [simp]: "core (start_vote_round E L pv s) = core s"
  by (simp add: start_vote_round_def Let_def fold_frame)

lemma core_send_heartbeat_to [simp]: "core (send_heartbeat_to E L p s) = core s"
  by (auto simp: send_heartbeat_to_def Let_def send_rpc_def core_def track_follower_def put_follower_def
      split: option.split)

lemma core_send_heartbeats [simp]: "core (send_heartbeats E L s) = core s"
  by (simp add: send_heartbeats_def fold_frame)

lemma core_send_append_entries_to [simp]: "core (send_append_entries_to E L p s) = core s"
  by (auto simp: send_append_entries_to_def Let_def send_rpc_def core_def put_follower_def
      split: option.split)

lemma core_send_snapshot_chunk [simp]: "core (send_snapshot_chunk E L p s) = core s"
  by (auto simp: send_snapshot_chunk_def Let_def send_rpc_def core_def put_follower_def put_chunks_def
      erase_chunks_def split: option.split)

lemma core_begin_snapshot_transfer:
  "begin_snapshot_transfer E L p f s = Some s' \<Longrightarrow> core s' = core s"
  by (auto simp: begin_snapshot_transfer_def Let_def split: option.splits if_splits)

lemma core_continue_snapshot_transfer [simp]: "core (continue_snapshot_transfer p f pe s) = core s"
  by (simp add: continue_snapshot_transfer_def Let_def)

lemma core_send_install_snapshot_to [simp]: "core (send_install_snapshot_to E L p s) = core s"
  by (simp add: send_install_snapshot_to_def core_begin_snapshot_transfer split: option.split)

lemma core_replicate_to_follower [simp]: "core (replicate_to_follower E L p s) = core s"
  by (simp add: replicate_to_follower_def split: option.split)

lemma core_replicate_to_followers [simp]: "core (replicate_to_followers E L s) = core s"
  by (simp add: replicate_to_followers_def fold_frame)

lemma core_try_reactivate_followers [simp]: "core (try_reactivate_followers E s) = core s"
  by (simp add: try_reactivate_followers_def core_def Let_def)

lemmas core_fields [simp] =
  core_eqD [OF core_send_rpc] core_eqD [OF core_put_follower] core_eqD [OF core_track_follower]
  core_eqD [OF core_track_new_follower] core_eqD [OF core_reset_deadline]
  core_eqD [OF core_stamp_heartbeat] core_eqD [OF core_extend_lease]
  core_eqD [OF core_drop_followers] core_eqD [OF core_put_chunks] core_eqD [OF core_erase_chunks]
  core_eqD [OF core_start_vote_round] core_eqD [OF core_send_heartbeats]
  core_eqD [OF core_send_append_entries_to] core_eqD [OF core_send_install_snapshot_to]
  core_eqD [OF core_replicate_to_followers] core_eqD [OF core_try_reactivate_followers]

lemma core_fold_track [simp]: "core (fold (track_new_follower E L) ps s) = core s"
  by (simp add: fold_frame)

lemmas core_fold_track_fields [simp] = core_eqD [OF core_fold_track]

section \<open>Transitions\<close>

lemma become_follower_fields [simp]:
  "rn_current_term (become_follower E t s) = max (rn_current_term s) t"
  "rn_voted_for (become_follower E t s) = (if t > rn_current_term s then kNoLeader else rn_voted_for s)"
  "rn_state (become_follower E t s) = Follower"
  "rn_id (become_follower E t s) = rn_id s" "rn_config (become_follower E t s) = rn_config s"
  "rn_log (become_follower E t s) = rn_log s" "rn_commit_index (become_follower E t s) = rn_commit_index s"
  "rn_last_applied (become_follower E t s) = rn_last_applied s"
  "rn_applied (become_follower E t s) = rn_applied s"
  "rn_membership (become_follower E t s) = rn_membership s"
  "rn_pending_config_index (become_follower E t s) = rn_pending_config_index s"
  "rn_running (become_follower E t s) = rn_running s" "rn_files (become_follower E t s) = rn_files s"
  "rn_snapshot_buffer (become_follower E t s) = rn_snapshot_buffer s"
  "rn_pending_snapshot_meta (become_follower E t s) = rn_pending_snapshot_meta s"
  by (auto simp: become_follower_def Let_def)

lemma become_follower_leader_state [simp]:
  "rn_followers (become_follower E t s) = (if rn_state s = Leader then [] else rn_followers s)"
  "rn_transferring (become_follower E t s) = (if rn_state s = Leader then False else rn_transferring s)"
  by (auto simp: become_follower_def Let_def reset_deadline_def stamp_heartbeat_def)

lemma core_note_leader: "core (note_leader E p s) = core (s\<lparr>rn_leader_id := p\<rparr>)"
  by (simp add: note_leader_def)

lemma note_leader_fields [simp]:
  "rn_current_term (note_leader E p s) = rn_current_term s" "rn_voted_for (note_leader E p s) = rn_voted_for s"
  "rn_state (note_leader E p s) = rn_state s" "rn_id (note_leader E p s) = rn_id s"
  "rn_config (note_leader E p s) = rn_config s" "rn_log (note_leader E p s) = rn_log s"
  "rn_commit_index (note_leader E p s) = rn_commit_index s"
  "rn_last_applied (note_leader E p s) = rn_last_applied s" "rn_applied (note_leader E p s) = rn_applied s"
  "rn_membership (note_leader E p s) = rn_membership s" "rn_transferring (note_leader E p s) = rn_transferring s"
  "rn_followers (note_leader E p s) = rn_followers s" "rn_leader_id (note_leader E p s) = p"
  "rn_snapshot_buffer (note_leader E p s) = rn_snapshot_buffer s"
  "rn_pending_snapshot_meta (note_leader E p s) = rn_pending_snapshot_meta s"
  "rn_files (note_leader E p s) = rn_files s" "rn_running (note_leader E p s) = rn_running s"
  "rn_pending_config_index (note_leader E p s) = rn_pending_config_index s"
  by (simp_all add: note_leader_def reset_deadline_def stamp_heartbeat_def)

text \<open>The identity of the node, its term and its vote.\<close>

definition vote_state :: "'l RaftNode \<Rightarrow> RaftNodeId \<times> RaftConfig \<times> RaftTerm \<times> RaftNodeId" where
  "vote_state s = (rn_id s, rn_config s, rn_current_term s, rn_voted_for s)"

lemma vote_state_core: "core s' = core s \<Longrightarrow> vote_state s' = vote_state s"
  by (simp add: vote_state_def core_def)

text \<open>A configuration change touches the membership, the follower table and, on removal, the role.\<close>

definition config_core :: "'l RaftNode \<Rightarrow> _" where
  "config_core s = (vote_state s, rn_log s, rn_commit_index s, rn_last_applied s, rn_applied s, rn_running s,
     rn_files s, rn_snapshot_buffer s, rn_pending_snapshot_meta s)"

lemma config_core_core: "core s' = core s \<Longrightarrow> config_core s' = config_core s"
  by (simp add: config_core_def vote_state_def core_def)

lemma config_core_updates [simp]:
  "config_core (s\<lparr>rn_membership := m\<rparr>) = config_core s"
  "config_core (s\<lparr>rn_pending_config_index := i\<rparr>) = config_core s"
  by (simp_all add: config_core_def vote_state_def)

lemma config_core_become_follower [simp]: "config_core (become_follower E (rn_current_term s) s) = config_core s"
  by (simp add: config_core_def vote_state_def)

lemma config_core_drop_track [simp]:
  "config_core (drop_followers ps s) = config_core s"
  "config_core (fold (track_new_follower E L) ps s) = config_core s"
  by (rule config_core_core, simp)+

lemma config_core_direct [simp]: "config_core (apply_direct_membership_change E L ms s) = config_core s"
  by (simp add: apply_direct_membership_change_def reconcile_follower_states_def Let_def)

lemma config_core_joint [simp]: "config_core (apply_joint_consensus_entry E L cmd s) = config_core s"
  by (simp add: apply_joint_consensus_entry_def Let_def)

lemma config_core_finalization [simp]:
  "config_core (apply_joint_consensus_finalization E cmd s) = config_core s"
  by (simp add: apply_joint_consensus_finalization_def Let_def if_distrib [of config_core])

lemma config_core_process [simp]: "config_core (process_config_change E L cmd s) = config_core s"
  by (simp add: process_config_change_def)

lemma config_coreD:
  assumes "config_core s' = config_core s"
  shows "vote_state s' = vote_state s" "rn_log s' = rn_log s" "rn_commit_index s' = rn_commit_index s"
    "rn_last_applied s' = rn_last_applied s" "rn_applied s' = rn_applied s" "rn_running s' = rn_running s"
    "rn_files s' = rn_files s" "rn_snapshot_buffer s' = rn_snapshot_buffer s"
    "rn_pending_snapshot_meta s' = rn_pending_snapshot_meta s"
  using assms by (simp_all add: config_core_def)

lemmas process_config_change_fields [simp] = config_coreD [OF config_core_process]

lemma vote_stateD:
  assumes "vote_state s' = vote_state s"
  shows "rn_id s' = rn_id s" "rn_config s' = rn_config s" "rn_current_term s' = rn_current_term s"
    "rn_voted_for s' = rn_voted_for s"
  using assms by (simp_all add: vote_state_def)

lemma vote_state_updates [simp]:
  "vote_state (s\<lparr>rn_applied := a\<rparr>) = vote_state s" "vote_state (s\<lparr>rn_last_applied := i\<rparr>) = vote_state s"
  "vote_state (s\<lparr>rn_commit_index := i\<rparr>) = vote_state s" "vote_state (s\<lparr>rn_log := l\<rparr>) = vote_state s"
  by (simp_all add: vote_state_def)

lemma apply_entry_fields [simp]:
  "vote_state (apply_entry E L e s) = vote_state s"
  "rn_log (apply_entry E L e s) = rn_log s" "rn_commit_index (apply_entry E L e s) = rn_commit_index s"
  "rn_running (apply_entry E L e s) = rn_running s" "rn_files (apply_entry E L e s) = rn_files s"
  "rn_last_applied (apply_entry E L e s) = le_index e" "rn_applied (apply_entry E L e s) = rn_applied s @ [e]"
  by (simp_all add: apply_entry_def Let_def split: RaftCommand.split)

text \<open>A property that every applied entry keeps holds of the state \<^verbatim>\<open>apply_committed\<close> returns.\<close>

lemma apply_committed_induct:
  assumes "apply_committed E L s = Some s'" "P s"
    and "\<And>e s. P s \<Longrightarrow> P (apply_entry E L e s)"
  shows "P s'"
proof -
  have fold_P: "P s \<Longrightarrow> P (fold (apply_entry E L) es s)" for es s
    using assms(3) by (induction es arbitrary: s) auto
  have "E = E \<longrightarrow> L = L \<longrightarrow> P s \<longrightarrow> P s'"
  proof (rule apply_committed.raw_induct
      [OF _ assms(1), where P = "\<lambda>E' L' s s'. E' = E \<longrightarrow> L' = L \<longrightarrow> P s \<longrightarrow> P s'"], intro impI)
    fix rec E' L' s s'
    assume IH: "\<And>E' L' s s'. rec E' L' s = Some s' \<Longrightarrow> E' = E \<longrightarrow> L' = L \<longrightarrow> P s \<longrightarrow> P s'"
      and eq: "(if rn_last_applied s < rn_commit_index s
         then if apply_round L' s = [] then Some s
           else rec E' L' (fold (apply_entry E' L') (apply_round L' s) s) else Some s) = Some s'"
      and "E' = E" "L' = L" "P s"
    then show "P s'" using fold_P [of s "apply_round L' s"] by (auto split: if_splits dest: IH)
  qed
  then show ?thesis using assms(2) by blast
qed

lemma apply_committed_frame:
  assumes "apply_committed E L s = Some s'" "\<And>e s. g (apply_entry E L e s) = g s"
  shows "g s' = g s"
  by (rule apply_committed_induct [where P = "\<lambda>x. g x = g s", OF assms(1)]) (auto simp: assms(2))

lemma become_candidate_fields:
  "rn_id (become_candidate E L s) = rn_id s" "rn_config (become_candidate E L s) = rn_config s"
  "rn_log (become_candidate E L s) = rn_log s"
  "rn_commit_index (become_candidate E L s) = rn_commit_index s"
  "rn_membership (become_candidate E L s) = rn_membership s"
  "rn_current_term (become_candidate E L s) =
     (if members (rn_membership s) = [] \<or> rn_state s = Leader then rn_current_term s
      else rn_current_term s + 1)"
  "rn_voted_for (become_candidate E L s) =
     (if members (rn_membership s) = [] \<or> rn_state s = Leader then rn_voted_for s else rn_id s)"
  "rn_state (become_candidate E L s) =
     (if members (rn_membership s) = [] then Follower else if rn_state s = Leader then Leader else Candidate)"
  by (auto simp: become_candidate_def)

lemma core_fold_track_all:
  "core (fold (\<lambda>p s. if p = rn_id s then s else track_follower E L p s) ps s) = core s"
  by (rule fold_frame) simp

lemma become_leader_vote [simp]: "vote_state (become_leader E L s) = vote_state s"
  by (simp add: vote_state_def become_leader_def Let_def core_eqD [OF core_fold_track_all]
      split: prod.split)

end
