(* ===== verification/Raft_Steps.thy ===== *)
theory Raft_Steps
  imports Raft_Frames
begin

text \<open>
  The node as a state machine. Every method takes the exclusive lock, so a run of the node is a
  sequence of whole method bodies (\<^verbatim>\<open>transfer_leadership\<close> is cut where it releases the lock):
  \<open>node_step\<close> has one rule for each. Invariants of a run follow by rule induction.
\<close>

inductive node_step :: "env \<Rightarrow> 'l RaftLog \<Rightarrow> 'l RaftNode \<Rightarrow> 'l RaftNode \<Rightarrow> bool"
  for E :: env and L :: "'l RaftLog" where
  election: "node_step E L s (election_tick E L s)"
| heartbeat: "heartbeat_tick E L s = Some s' \<Longrightarrow> node_step E L s s'"
| client_propose: "propose L c s = (r, s') \<Longrightarrow> node_step E L s s'"
| client_step_down: "node_step E L s (step_down E s)"
| client_snapshot: "create_snapshot E L s = (r, s') \<Longrightarrow> node_step E L s s'"
| transfer_begins: "transfer_begin L p s = (r, s') \<Longrightarrow> node_step E L s s'"
| transfer_rounds: "transfer_round E L p i k s = Some (r, s') \<Longrightarrow> node_step E L s s'"
| transfer_resumes: "transfer_resume i s = (r, s') \<Longrightarrow> node_step E L s s'"
| transfer_signals: "node_step E L s (transfer_signal E L p s)"
| transfer_finishes: "node_step E L s (transfer_finish E s)"
| recv_append: "handle_append_entries E L ae s = Some (r, s') \<Longrightarrow> node_step E L s s'"
| recv_vote: "handle_request_vote E L rv s = (r, s') \<Longrightarrow> node_step E L s s'"
| recv_snapshot: "handle_install_snapshot E L is s = (r, s') \<Longrightarrow> node_step E L s s'"
| append_response: "handle_append_entries_response E L p ar s = Some s' \<Longrightarrow> node_step E L s s'"
| vote_response: "node_step E L s (handle_request_vote_response E L vr s)"
| snapshot_response: "handle_install_snapshot_response E L p sr s = Some s' \<Longrightarrow> node_step E L s s'"
| stop: "node_step E L s (shutdown_node s)"

section \<open>Terms and votes only grow\<close>

text \<open>The same node later: the term is at least as high, and in the same term a vote stays as cast.\<close>

definition vote_le :: "'l RaftNode \<Rightarrow> 'l RaftNode \<Rightarrow> bool" where
  "vote_le s s' \<longleftrightarrow> rn_id s' = rn_id s \<and> rn_config s' = rn_config s \<and>
     (rn_current_term s < rn_current_term s' \<or>
      rn_current_term s = rn_current_term s' \<and>
        (rn_voted_for s = kNoLeader \<or> rn_voted_for s' = rn_voted_for s))"

lemma vote_le_trans: "vote_le a b \<Longrightarrow> vote_le b c \<Longrightarrow> vote_le a c"
  unfolding vote_le_def by (metis order.strict_trans)

lemma vote_le_same: "vote_state s' = vote_state s \<Longrightarrow> vote_le s s'"
  by (simp add: vote_le_def vote_state_def)

lemma vote_le_core: "core s' = core s \<Longrightarrow> vote_le s s'"
  by (rule vote_le_same) (rule vote_state_core)

lemma vote_le_become_follower: "vote_le s (become_follower E t s)"
  by (auto simp: vote_le_def)

lemma vote_le_become_candidate: "vote_le s (become_candidate E L s)"
  by (auto simp: vote_le_def become_candidate_fields)

lemma vote_le_become_pre_candidate: "vote_le s (become_pre_candidate E L s)"
  using vote_le_become_candidate [of s E L] by (auto simp: become_pre_candidate_def vote_le_def)

lemma vote_le_tally: "vote_le s (tally_votes E L pv s)"
  by (auto simp: tally_votes_def Let_def vote_le_become_candidate intro: vote_le_same)

lemma vote_state_apply_committed: "apply_committed E L s = Some s' \<Longrightarrow> vote_state s' = vote_state s"
  by (erule apply_committed_frame) simp

lemma vote_state_advance: "advance_commit_index E L s = Some s' \<Longrightarrow> vote_state s' = vote_state s"
  by (auto simp: advance_commit_index_def Let_def dest!: vote_state_apply_committed
      split: if_splits option.splits)

lemma vote_le_election: "vote_le s (election_tick E L s)"
proof -
  have "vote_le s (on_election_timeout E L (s\<lparr>rn_oracle := n\<rparr>))" for n
    using vote_le_become_pre_candidate [of "s\<lparr>rn_oracle := n\<rparr>" E L]
      vote_le_become_candidate [of "s\<lparr>rn_oracle := n\<rparr>" E L]
    by (simp add: on_election_timeout_def vote_le_def)
  then show ?thesis by (simp add: election_tick_def Let_def vote_le_core)
qed

lemma vote_le_heartbeat: "heartbeat_tick E L s = Some s' \<Longrightarrow> vote_le s s'"
  by (auto simp: heartbeat_tick_def maybe_create_snapshot_def Let_def vote_le_def split: if_splits)

lemma core_renew_lease: "core (renew_lease E s) = core s"
  by (simp add: renew_lease_def Let_def)

lemma core_replication_refused: "core (replication_refused E L p r f s) = core s"
  by (simp add: replication_refused_def Let_def)

lemma vote_state_acked:
  "replication_acked E L p r f s = Some s' \<Longrightarrow> vote_state s' = vote_state s"
  by (auto simp: replication_acked_def Let_def vote_state_core [OF core_renew_lease]
      vote_state_core [OF core_put_follower] dest!: vote_state_advance)

lemma vote_state_oracle [simp]:
  "vote_state (s\<lparr>rn_oracle := n, rn_heartbeat_failures := h\<rparr>) = vote_state s"
  by (simp add: vote_state_def)

lemma vote_le_append_response: "handle_append_entries_response E L p r s = Some s' \<Longrightarrow> vote_le s s'"
  by (auto simp: handle_append_entries_response_def Let_def vote_le_become_follower
      core_replication_refused vote_le_core dest!: vote_state_acked split: option.splits if_splits
      intro: vote_le_same)

lemma vote_le_snapshot_response: "handle_install_snapshot_response E L p r s = Some s' \<Longrightarrow> vote_le s s'"
  by (auto simp: handle_install_snapshot_response_def Let_def vote_le_become_follower
      vote_state_core [OF core_erase_chunks] vote_state_core [OF core_put_follower] vote_le_core
      dest!: vote_state_advance split: option.splits if_splits intro: vote_le_same)

lemma vote_le_recv_append: "handle_append_entries E L r s = Some (resp, s') \<Longrightarrow> vote_le s s'"
  by (auto simp: handle_append_entries_def Let_def vote_le_def vote_state_def
      dest!: vote_state_apply_committed split: prod.splits option.splits if_splits)

lemma vote_le_recv_vote: "handle_request_vote E L r s = (resp, s') \<Longrightarrow> vote_le s s'"
  by (auto simp: handle_request_vote_def Let_def vote_le_def split: if_splits)

lemma vote_state_install_snapshot: "vote_state (install_snapshot E L s) = vote_state s"
  by (simp add: install_snapshot_def write_file_atomic_def Let_def vote_state_def)

lemma vote_le_recv_snapshot: "handle_install_snapshot E L r s = (resp, s') \<Longrightarrow> vote_le s s'"
  by (auto simp: handle_install_snapshot_def Let_def vote_le_def vote_stateD [OF vote_state_install_snapshot]
      split: if_splits)

lemma vote_le_vote_response: "vote_le s (handle_request_vote_response E L r s)"
proof -
  have "vote_le s (tally_votes E L pv t)" if "vote_state t = vote_state s" for pv t
    using vote_le_trans [OF vote_le_same [OF that] vote_le_tally] .
  then show ?thesis
    by (simp add: handle_request_vote_response_def Let_def vote_le_become_follower vote_state_def vote_le_core)
qed

lemma vote_state_propose: "propose L c s = (r, s') \<Longrightarrow> vote_state s' = vote_state s"
  by (auto simp: propose_def Let_def vote_state_def split: if_splits prod.splits)

lemma vote_state_create_snapshot: "create_snapshot E L s = (r, s') \<Longrightarrow> vote_state s' = vote_state s"
  by (auto simp: create_snapshot_def write_file_atomic_def Let_def vote_state_def split: if_splits)

lemma vote_state_transfer:
  "transfer_begin L p s = (r, s') \<Longrightarrow> vote_state s' = vote_state s"
  "transfer_round E L p i k s = Some (r, s') \<Longrightarrow> vote_state s' = vote_state s"
  "transfer_resume i s = (r, s') \<Longrightarrow> vote_state s' = vote_state s"
  "vote_state (transfer_signal E L p s) = vote_state s"
  by (auto simp: transfer_begin_def transfer_round_def transfer_resume_def transfer_signal_def
      vote_state_def split: if_splits option.splits)

lemma vote_le_step: "node_step E L s s' \<Longrightarrow> vote_le s s'"
proof (induction rule: node_step.induct)
  case (client_step_down s)
  then show ?case by (simp add: step_down_def vote_le_become_follower vote_le_core)
next
  case (transfer_finishes s)
  then show ?case by (simp add: transfer_finish_def vote_le_def)
next
  case (stop s)
  then show ?case by (simp add: shutdown_node_def Let_def vote_le_def)
qed (auto simp: vote_le_election vote_le_vote_response
    intro: vote_le_same vote_state_propose vote_state_create_snapshot vote_state_transfer
      vote_le_heartbeat vote_le_append_response vote_le_snapshot_response vote_le_recv_append
      vote_le_recv_vote vote_le_recv_snapshot)

lemma vote_le_run: "(node_step E L)\<^sup>*\<^sup>* s s' \<Longrightarrow> vote_le s s'"
  by (induction rule: rtranclp_induct) (auto intro: vote_le_trans vote_le_step vote_le_core)

end
