(* ===== verification/Raft_Invariant.thy ===== *)
theory Raft_Invariant
  imports Raft_Steps
begin

text \<open>
  The invariant of a node between two method calls: how the follower table, the pipeline counters,
  the transfer flag and the vote fit the role of the node. Every step of \<open>node_step\<close> keeps it.
\<close>

section \<open>The follower table\<close>

definition pipeline_limit :: "'l RaftNode \<Rightarrow> nat" where
  "pipeline_limit s = max (rpc_queue_capacity (rn_config s)) 1"

definition followers_ok :: "'l RaftNode \<Rightarrow> bool" where
  "followers_ok s \<longleftrightarrow> distinct (map fst (rn_followers s)) \<and>
     (\<forall>p f. find_follower s p = Some f \<longrightarrow> p \<noteq> rn_id s \<and> fs_in_flight f \<le> pipeline_limit s)"

definition node_ok :: "'l RaftNode \<Rightarrow> bool" where
  "node_ok s \<longleftrightarrow> followers_ok s \<and>
     (rn_state s \<noteq> Leader \<longrightarrow> rn_followers s = [] \<and> \<not> rn_transferring s) \<and>
     (rn_state s = Candidate \<or> rn_state s = Leader \<longrightarrow> rn_voted_for s = rn_id s)"

lemma fold_inv: "P s \<Longrightarrow> (\<And>x s. P s \<Longrightarrow> P (f x s)) \<Longrightarrow> P (fold f xs s)"
  by (induction xs arbitrary: s) auto

lemma find_put [simp]:
  "find_follower (put_follower p f s) q = (if q = p then Some f else find_follower s q)"
  by (simp add: find_follower_def put_follower_def update_conv)

lemma followers_put_distinct:
  "distinct (map fst (rn_followers s)) \<Longrightarrow> distinct (map fst (rn_followers (put_follower p f s)))"
  by (simp add: put_follower_def distinct_update)

text \<open>The table, the identity and the configuration are all that \<open>followers_ok\<close> looks at.\<close>

lemma followers_ok_cong:
  "rn_followers s' = rn_followers s \<Longrightarrow> rn_id s' = rn_id s \<Longrightarrow> rn_config s' = rn_config s \<Longrightarrow>
   followers_ok s' = followers_ok s"
  by (simp add: followers_ok_def find_follower_def pipeline_limit_def)

lemma followers_ok_empty [simp]: "rn_followers s = [] \<Longrightarrow> followers_ok s"
  by (simp add: followers_ok_def find_follower_def)

lemma followers_okD:
  "followers_ok s \<Longrightarrow> find_follower s p = Some f \<Longrightarrow> p \<noteq> rn_id s \<and> fs_in_flight f \<le> pipeline_limit s"
  by (simp add: followers_ok_def)

lemma followers_ok_put:
  assumes "followers_ok s" "p \<noteq> rn_id s" "fs_in_flight f \<le> pipeline_limit s"
  shows "followers_ok (put_follower p f s)"
  using assms by (auto simp: followers_ok_def followers_put_distinct pipeline_limit_def)

lemma find_updates [simp]:
  "find_follower (s\<lparr>rn_oracle := n\<rparr>) = find_follower s"
  "find_follower (s\<lparr>rn_heartbeat_failures := h\<rparr>) = find_follower s"
  "find_follower (s\<lparr>rn_backtrack_rounds := h\<rparr>) = find_follower s"
  "find_follower (snd (send_rpc E p m s)) = find_follower s"
  "find_follower (put_chunks p d s) = find_follower s" "find_follower (erase_chunks p s) = find_follower s"
  by (simp_all add: find_follower_def [abs_def] send_rpc_def Let_def put_chunks_def erase_chunks_def)

lemma rn_followers_updates [simp]:
  "rn_followers (snd (send_rpc E p m s)) = rn_followers s" "rn_followers (reset_deadline E s) = rn_followers s"
  "rn_followers (stamp_heartbeat E s) = rn_followers s" "rn_followers (extend_lease E s) = rn_followers s"
  "rn_followers (put_chunks p d s) = rn_followers s" "rn_followers (erase_chunks p s) = rn_followers s"
  by (simp_all add: send_rpc_def Let_def reset_deadline_def stamp_heartbeat_def extend_lease_def
      put_chunks_def erase_chunks_def)

lemma followers_ok_updates [simp]:
  "followers_ok (s\<lparr>rn_oracle := n\<rparr>) = followers_ok s"
  "followers_ok (s\<lparr>rn_heartbeat_failures := h\<rparr>) = followers_ok s"
  "followers_ok (s\<lparr>rn_backtrack_rounds := h\<rparr>) = followers_ok s"
  "followers_ok (snd (send_rpc E p m s)) = followers_ok s"
  "followers_ok (reset_deadline E s) = followers_ok s" "followers_ok (stamp_heartbeat E s) = followers_ok s"
  "followers_ok (extend_lease E s) = followers_ok s"
  "followers_ok (put_chunks p d s) = followers_ok s" "followers_ok (erase_chunks p s) = followers_ok s"
  by (rule followers_ok_cong; simp)+

lemma followers_ok_track: "followers_ok s \<Longrightarrow> p \<noteq> rn_id s \<Longrightarrow> followers_ok (track_follower E L p s)"
  by (simp add: track_follower_def followers_ok_put)

lemma followers_ok_track_new: "followers_ok s \<Longrightarrow> followers_ok (track_new_follower E L p s)"
  by (simp add: track_new_follower_def followers_ok_track)

lemma followers_ok_drop: "followers_ok s \<Longrightarrow> followers_ok (drop_followers ps s)"
  by (force simp: followers_ok_def drop_followers_def find_follower_def pipeline_limit_def
      distinct_map_filter map_of_eq_Some_iff split_beta)

section \<open>Sending\<close>

text \<open>A sender keeps the table well formed, and leaves an empty table empty.\<close>

lemma send_rpc_cases:
  "send_rpc E p m s = (ok, s') \<Longrightarrow> s' = snd (send_rpc E p m s)"
  by simp

lemma followers_ok_update:
  assumes "followers_ok s" "find_follower s p = Some g" "fs_in_flight f \<le> pipeline_limit s"
    "followers_ok t" "rn_id t = rn_id s" "rn_config t = rn_config s"
  shows "followers_ok (put_follower p f t)"
  using assms followers_okD [OF assms(1,2)] by (auto intro!: followers_ok_put simp: pipeline_limit_def)

lemma followers_ok_heartbeat_to:
  assumes "followers_ok s"
  shows "followers_ok (send_heartbeat_to E L p s)"
proof -
  define t where "t = (if find_follower s p = None then track_follower E L p s else s)"
  have "p \<noteq> rn_id s \<Longrightarrow> followers_ok t"
    using assms by (simp add: t_def followers_ok_track)
  then show ?thesis using assms
    by (auto simp: send_heartbeat_to_def Let_def t_def [symmetric] dest!: send_rpc_cases
        split: option.split prod.split intro!: followers_ok_update [of t p] dest: followers_okD)
qed

lemma followers_ok_send_append:
  assumes "followers_ok s"
  shows "followers_ok (send_append_entries_to E L p s)"
proof (cases "find_follower s p")
  case (Some f)
  have put: "followers_ok (put_follower p g t)"
    if "fs_in_flight g \<le> Suc (fs_in_flight f)" "fs_in_flight f < rpc_queue_capacity (rn_config s)"
      "followers_ok t" "rn_id t = rn_id s" "rn_config t = rn_config s" for g t
    by (rule followers_ok_update [OF assms Some]) (use that in \<open>auto simp: pipeline_limit_def\<close>)
  show ?thesis using assms
    by (auto simp: send_append_entries_to_def Some Let_def dest!: send_rpc_cases split: prod.split
        intro!: put)
qed (use assms in \<open>simp add: send_append_entries_to_def\<close>)

lemma followers_ok_snapshot_chunk:
  assumes "followers_ok s" "\<And>f. find_follower s p = Some f \<Longrightarrow> fs_in_flight f < pipeline_limit s"
  shows "followers_ok (send_snapshot_chunk E L p s)"
proof (cases "find_follower s p")
  case (Some f)
  have put: "followers_ok (put_follower p g t)"
    if "fs_in_flight g \<le> Suc (fs_in_flight f)" "followers_ok t" "rn_id t = rn_id s" "rn_config t = rn_config s"
    for g t
    by (rule followers_ok_update [OF assms(1) Some]) (use that assms(2) [OF Some] in auto)
  show ?thesis using assms
    by (auto simp: send_snapshot_chunk_def Some Let_def dest!: send_rpc_cases split: prod.split
        intro!: put)
qed (use assms in \<open>simp add: send_snapshot_chunk_def\<close>)

lemma begin_snapshot_transfer_ok:
  assumes "begin_snapshot_transfer E L p f s = Some s'" "find_follower s p = Some f" "followers_ok s"
  shows "followers_ok s' \<and> (\<exists>g. find_follower s' p = Some g \<and> fs_in_flight g = fs_in_flight f)"
  using assms followers_okD [OF assms(3,2)]
  by (auto simp: begin_snapshot_transfer_def Let_def split: option.splits if_splits
      intro!: followers_ok_update [OF assms(3,2)])

lemma continue_snapshot_transfer_ok:
  assumes "find_follower s p = Some f" "followers_ok s"
  shows "followers_ok (continue_snapshot_transfer p f pe s) \<and>
    (\<exists>g. find_follower (continue_snapshot_transfer p f pe s) p = Some g \<and> fs_in_flight g = fs_in_flight f)"
  using assms followers_okD [OF assms(2,1)]
  by (auto simp: continue_snapshot_transfer_def Let_def intro!: followers_ok_update [OF assms(2,1)])

lemma followers_ok_send_snapshot:
  assumes "followers_ok s" "\<And>f. find_follower s p = Some f \<Longrightarrow> fs_in_flight f < pipeline_limit s"
  shows "followers_ok (send_install_snapshot_to E L p s)"
proof (cases "find_follower s p")
  case (Some f)
  have chunk: "followers_ok (send_snapshot_chunk E L p t)"
    if "followers_ok t \<and> (\<exists>g. find_follower t p = Some g \<and> fs_in_flight g = fs_in_flight f)"
      "core t = core s" for t
    using that assms(2) [OF Some] followers_ok_snapshot_chunk [of t p E L]
    by (auto simp: pipeline_limit_def core_def)
  show ?thesis using assms(1)
    by (auto simp: send_install_snapshot_to_def Some split: option.split
        intro!: chunk begin_snapshot_transfer_ok [OF _ Some] continue_snapshot_transfer_ok [OF Some]
        dest: core_begin_snapshot_transfer)
qed (use assms in \<open>simp add: send_install_snapshot_to_def\<close>)

lemma followers_ok_replicate: "followers_ok s \<Longrightarrow> followers_ok (replicate_to_followers E L s)"
  unfolding replicate_to_followers_def
  by (auto simp: replicate_to_follower_def pipeline_limit_def followers_ok_send_append
      split: option.split intro!: fold_inv [of followers_ok] followers_ok_send_snapshot)

lemma followers_ok_heartbeats: "followers_ok s \<Longrightarrow> followers_ok (send_heartbeats E L s)"
  by (auto simp: send_heartbeats_def followers_ok_heartbeat_to intro!: fold_inv [of followers_ok])

lemma followers_ok_reactivate: "followers_ok s \<Longrightarrow> followers_ok (try_reactivate_followers E s)"
proof -
  assume ok: "followers_ok s"
  have find: "map_of (map (\<lambda>(p, f). (p, g f)) xs) q = map_option g (map_of xs q)" for g and xs :: "(RaftNodeId \<times> FollowerState) list" and q
    by (induction xs) auto
  show ?thesis using ok
    by (auto simp: followers_ok_def try_reactivate_followers_def Let_def find_follower_def find
        pipeline_limit_def o_def split_beta)
qed

section \<open>The invariant is kept\<close>

lemma node_ok_core:
  "node_ok s \<Longrightarrow> core s' = core s \<Longrightarrow> followers_ok s' \<Longrightarrow> (rn_followers s = [] \<Longrightarrow> rn_followers s' = []) \<Longrightarrow>
   node_ok s'"
  by (simp add: node_ok_def core_def)

lemma node_ok_same_table:
  "node_ok s \<Longrightarrow> core s' = core s \<Longrightarrow> rn_followers s' = rn_followers s \<Longrightarrow> node_ok s'"
  by (simp add: node_ok_def core_def followers_ok_def find_follower_def pipeline_limit_def)

lemma node_ok_leader:
  "node_ok s \<Longrightarrow> rn_state s = Leader \<Longrightarrow> core s' = core s \<Longrightarrow> followers_ok s' \<Longrightarrow> node_ok s'"
  by (simp add: node_ok_def core_def)

lemma node_ok_followers: "node_ok s \<Longrightarrow> followers_ok s"
  by (simp add: node_ok_def)

lemma node_ok_updates [simp]:
  "node_ok (s\<lparr>rn_commit_index := i\<rparr>) = node_ok s" "node_ok (s\<lparr>rn_last_applied := i\<rparr>) = node_ok s"
  "node_ok (s\<lparr>rn_log := l\<rparr>) = node_ok s" "node_ok (s\<lparr>rn_pending_config_index := i\<rparr>) = node_ok s"
  "node_ok (s\<lparr>rn_applied := a\<rparr>) = node_ok s" "node_ok (s\<lparr>rn_oracle := n\<rparr>) = node_ok s"
  "node_ok (s\<lparr>rn_membership := m\<rparr>) = node_ok s" "node_ok (s\<lparr>rn_heartbeat_failures := h\<rparr>) = node_ok s"
  "node_ok (s\<lparr>rn_votes_received := n\<rparr>) = node_ok s" "node_ok (s\<lparr>rn_pre_votes_received := n\<rparr>) = node_ok s"
  "node_ok (s\<lparr>rn_snapshot_buffer := b\<rparr>) = node_ok s" "node_ok (s\<lparr>rn_pending_snapshot_meta := q\<rparr>) = node_ok s"
  "node_ok (s\<lparr>rn_leader_id := p\<rparr>) = node_ok s" "node_ok (s\<lparr>rn_files := fl\<rparr>) = node_ok s"
  "node_ok (reset_deadline E s) = node_ok s" "node_ok (stamp_heartbeat E s) = node_ok s"
  "node_ok (extend_lease E s) = node_ok s"
  by (simp_all add: node_ok_def followers_ok_def find_follower_def pipeline_limit_def)

lemma node_ok_become_follower: "node_ok s \<Longrightarrow> node_ok (become_follower E t s)"
  by (auto simp: node_ok_def followers_ok_def find_follower_def pipeline_limit_def)

lemma node_ok_vote_round: "node_ok (start_vote_round E L pv s) = node_ok s"
proof -
  have "rn_followers (start_vote_round E L pv s) = rn_followers s"
    unfolding start_vote_round_def Let_def by (rule fold_frame) (simp add: send_vote_request_def)
  then show ?thesis by (simp add: node_ok_def followers_ok_def find_follower_def pipeline_limit_def)
qed

lemma node_ok_become_candidate: "node_ok s \<Longrightarrow> node_ok (become_candidate E L s)"
  by (auto simp: become_candidate_def node_ok_become_follower node_ok_vote_round)
    (simp add: node_ok_def)

lemma node_ok_become_pre_candidate: "node_ok s \<Longrightarrow> node_ok (become_pre_candidate E L s)"
  by (auto simp: become_pre_candidate_def node_ok_become_candidate node_ok_vote_round)
    (simp add: node_ok_def)

lemma node_ok_become_leader:
  assumes "node_ok s" "rn_state s = Candidate"
  shows "node_ok (become_leader E L s)"
proof (cases "members (rn_membership s) = []")
  case False
  define a where "a = s\<lparr>rn_state := Leader, rn_leader_id := rn_id s, rn_transferring := False,
    rn_followers := [], rn_heartbeat_failures := Map.empty, rn_backtrack_rounds := Map.empty\<rparr>"
  define b where "b = fold (\<lambda>p s. if p = rn_id s then s else track_follower E L p s) (quorum_set (rn_membership a)) a"
  have "followers_ok b" unfolding b_def
    by (rule fold_inv) (auto simp: a_def followers_ok_track)
  moreover have core: "core b = core a"
    unfolding b_def by (rule core_fold_track_all)
  ultimately have b: "node_ok b" "rn_state b = Leader"
    using assms by (auto simp: node_ok_def a_def core_def)
  have lease: "node_ok (if c then extend_lease E s else s)" "rn_state (if c then extend_lease E s else s) = rn_state s"
    if "node_ok s" for c and s :: "'a RaftNode" using that by auto
  have "node_ok (send_heartbeats E L t)" if "node_ok t" "rn_state t = Leader" for t :: "'a RaftNode"
    by (rule node_ok_leader [OF that core_send_heartbeats followers_ok_heartbeats [OF node_ok_followers [OF that(1)]]])
  then show ?thesis using False b lease
    by (auto simp: become_leader_def Let_def a_def [symmetric] b_def [symmetric] node_ok_become_follower
        split: prod.split)
qed (use assms in \<open>simp add: become_leader_def node_ok_become_follower\<close>)

lemma node_ok_tally: "node_ok s \<Longrightarrow> node_ok (tally_votes E L pv s)"
  by (simp add: tally_votes_def Let_def node_ok_become_candidate node_ok_become_leader)

lemma node_ok_drop: "node_ok s \<Longrightarrow> node_ok (drop_followers ps s)"
  by (rule node_ok_core [of s])
    (simp_all add: node_ok_followers followers_ok_drop, simp add: drop_followers_def)

lemma node_ok_track_all:
  assumes "node_ok s" "rn_state s = Leader"
  shows "node_ok (fold (track_new_follower E L) ps s)"
  by (rule node_ok_leader [OF assms])
    (auto intro: fold_inv followers_ok_track_new node_ok_followers [OF assms(1)])

lemma node_ok_direct: "node_ok s \<Longrightarrow> node_ok (apply_direct_membership_change E L ps s)"
  by (auto simp: apply_direct_membership_change_def reconcile_follower_states_def Let_def
      intro!: node_ok_drop node_ok_track_all)

lemma node_ok_config_change: "node_ok s \<Longrightarrow> node_ok (process_config_change E L cmd s)"
  by (auto simp: process_config_change_def node_ok_direct apply_joint_consensus_entry_def Let_def
      apply_joint_consensus_finalization_def intro!: node_ok_drop node_ok_track_all node_ok_become_follower)

lemma node_ok_apply_entry: "node_ok s \<Longrightarrow> node_ok (apply_entry E L e s)"
  by (simp add: apply_entry_def Let_def node_ok_config_change split: RaftCommand.split)

lemma node_ok_apply_committed: "apply_committed E L s = Some s' \<Longrightarrow> node_ok s \<Longrightarrow> node_ok s'"
  by (erule apply_committed_induct) (simp_all add: node_ok_apply_entry)

lemma node_ok_advance: "advance_commit_index E L s = Some s' \<Longrightarrow> node_ok s \<Longrightarrow> node_ok s'"
  by (auto simp: advance_commit_index_def Let_def dest!: node_ok_apply_committed
      split: if_splits option.splits)

lemma node_ok_election: "node_ok s \<Longrightarrow> node_ok (election_tick E L s)"
  by (simp add: election_tick_def on_election_timeout_def Let_def node_ok_become_candidate
      node_ok_become_pre_candidate)

lemma node_ok_heartbeat:
  assumes "heartbeat_tick E L s = Some s'" "node_ok s"
  shows "node_ok s'"
proof (cases "rn_state s = Leader")
  case True
  note ok = node_ok_followers [OF assms(2)]
  have "node_ok (try_reactivate_followers E (replicate_to_followers E L (send_heartbeats E L (s\<lparr>rn_oracle := n\<rparr>))))" for n
    by (rule node_ok_leader [OF assms(2) True])
      (simp_all add: followers_ok_reactivate followers_ok_replicate followers_ok_heartbeats ok)
  then show ?thesis using assms(1,2)
    by (auto simp: heartbeat_tick_def Let_def maybe_create_snapshot_def node_ok_become_follower split: if_splits)
qed (use assms in \<open>simp add: heartbeat_tick_def\<close>)

lemma node_ok_put:
  assumes "node_ok s" "rn_state s = Leader" "find_follower s p = Some f"
    "fs_in_flight g \<le> pipeline_limit s" "core t = core s" "rn_followers t = rn_followers s"
  shows "node_ok (put_follower p g t)"
proof (rule node_ok_leader [OF assms(1,2)])
  have eq: "rn_id t = rn_id s" "rn_config t = rn_config s" using assms(5) by (simp_all add: core_def)
  moreover have "followers_ok t"
    using followers_ok_cong [OF assms(6) eq] node_ok_followers [OF assms(1)] by simp
  ultimately show "followers_ok (put_follower p g t)"
    using followers_ok_update [OF node_ok_followers [OF assms(1)] assms(3,4)] by blast
qed (simp add: assms)

lemma node_ok_acked:
  assumes "replication_acked E L p r g t = Some s'" "node_ok s" "rn_state s = Leader"
    "find_follower s p = Some f" "fs_in_flight g \<le> pipeline_limit s" "core t = core s"
    "rn_followers t = rn_followers s"
  shows "node_ok s'"
proof -
  define g' where "g' = (if ar_last_log_index r > fs_match_index g
    then g\<lparr>fs_match_index := ar_last_log_index r, fs_next_index := ar_last_log_index r + 1\<rparr> else g)"
  have g': "fs_in_flight g' = fs_in_flight g" by (simp add: g'_def)
  obtain u where adv: "advance_commit_index E L (put_follower p g' t) = Some u" "s' = renew_lease E u"
    using assms(1) unfolding replication_acked_def Let_def g'_def by blast
  have "node_ok (put_follower p g' t)"
    by (rule node_ok_put [OF assms(2-4)]) (use assms g' in auto)
  then have "node_ok u" by (rule node_ok_advance [OF adv(1)])
  then show ?thesis unfolding adv(2)
    by (rule node_ok_same_table) (simp_all add: core_renew_lease renew_lease_def Let_def)
qed

lemma backtrack_in_flight [simp]: "fs_in_flight (backtrack L s r f) = fs_in_flight f"
  by (simp add: backtrack_def Let_def)

lemma node_ok_send_snapshot:
  assumes "node_ok s" "rn_state s = Leader" "find_follower s p = Some f" "fs_in_flight f < pipeline_limit s"
  shows "node_ok (send_install_snapshot_to E L p s)"
  by (rule node_ok_leader [OF assms(1,2)])
    (use assms in \<open>auto intro!: followers_ok_send_snapshot simp: node_ok_followers\<close>)

lemma node_ok_send_append: "node_ok s \<Longrightarrow> rn_state s = Leader \<Longrightarrow> node_ok (send_append_entries_to E L p s)"
  by (rule node_ok_leader) (auto simp: node_ok_followers followers_ok_send_append)

lemma node_ok_refused:
  assumes "node_ok s" "rn_state s = Leader" "find_follower s p = Some f"
    "fs_in_flight g < pipeline_limit s" "core t = core s" "rn_followers t = rn_followers s"
  shows "node_ok (replication_refused E L p r g t)"
proof -
  let ?u = "put_follower p (backtrack L t r g) t"
  have u: "node_ok ?u" by (rule node_ok_put [OF assms(1-3)]) (use assms in auto)
  have lead: "rn_state t = Leader" "pipeline_limit t = pipeline_limit s"
    using assms(2,5) by (simp_all add: core_def pipeline_limit_def)
  have "node_ok (?u\<lparr>rn_backtrack_rounds := h\<rparr>)" for h
    by (rule node_ok_same_table [OF u]) simp_all
  then show ?thesis
    using lead assms(4) by (auto simp: replication_refused_def Let_def node_ok_send_append pipeline_limit_def
        intro!: node_ok_send_snapshot [where f = "backtrack L t r g"])
qed

lemma in_flight_decrement: "node_ok s \<Longrightarrow> find_follower s p = Some f \<Longrightarrow> fs_in_flight f - 1 < pipeline_limit s"
  by (drule node_ok_followers, drule (1) followers_okD) (auto simp: pipeline_limit_def)

lemma node_ok_append_response:
  assumes "handle_append_entries_response E L p r s = Some s'" "node_ok s"
  shows "node_ok s'"
  using assms in_flight_decrement [OF assms(2), of p]
  by (auto simp: handle_append_entries_response_def Let_def node_ok_become_follower
      split: option.splits if_splits elim!: node_ok_acked intro!: node_ok_refused [of s p])

lemma node_ok_snapshot_response:
  assumes "handle_install_snapshot_response E L p r s = Some s'" "node_ok s"
  shows "node_ok s'"
proof (cases "rn_state s = Leader \<and> sr_term r \<le> rn_current_term s \<and> find_follower s p \<noteq> None")
  case True
  then obtain f where f: "rn_state s = Leader" "\<not> sr_term r > rn_current_term s" "find_follower s p = Some f" by auto
  note dec = in_flight_decrement [OF assms(2) f(3)]
  have put: "node_ok (put_follower p g s)" if "fs_in_flight g = fs_in_flight f - 1" for g
    by (rule node_ok_put [OF assms(2) f(1,3)]) (use that dec in auto)
  have erase: "node_ok (erase_chunks p t) = node_ok t" for t :: "'a RaftNode"
    by (auto simp: node_ok_def followers_ok_def find_follower_def pipeline_limit_def)
  show ?thesis using assms(1) f dec
    by (auto simp: handle_install_snapshot_response_def Let_def erase pipeline_limit_def
        split: option.splits if_splits elim!: node_ok_advance
        intro!: put node_ok_send_snapshot [where f = "f\<lparr>fs_in_flight := fs_in_flight f - 1\<rparr>"])
qed (use assms in \<open>auto simp: handle_install_snapshot_response_def node_ok_become_follower
  split: option.splits if_splits\<close>)

lemma node_ok_recv_append:
  assumes "handle_append_entries E L r s = Some (resp, s')" "node_ok s"
  shows "node_ok s'"
  using assms by (auto simp: handle_append_entries_def Let_def note_leader_def node_ok_become_follower
      dest!: node_ok_apply_committed split: prod.splits option.splits if_splits)

lemma node_ok_recv_vote:
  assumes "handle_request_vote E L r s = (resp, s')" "node_ok s" "rn_id s \<noteq> kNoLeader"
  shows "node_ok s'"
proof -
  have vote: "node_ok (t\<lparr>rn_voted_for := c\<rparr>)"
    if "node_ok t" "rn_id t \<noteq> kNoLeader" "rn_voted_for t = kNoLeader \<or> rn_voted_for t = c" for t :: "'a RaftNode" and c
    using that by (auto simp: node_ok_def followers_ok_def find_follower_def pipeline_limit_def)
  show ?thesis using assms
    by (auto simp: handle_request_vote_def Let_def node_ok_become_follower split: if_splits intro!: vote)
qed

lemma node_ok_recv_snapshot: "handle_install_snapshot E L r s = (resp, s') \<Longrightarrow> node_ok s \<Longrightarrow> node_ok s'"
  by (auto simp: handle_install_snapshot_def install_snapshot_def write_file_atomic_def Let_def note_leader_def
      node_ok_become_follower split: if_splits)

lemma node_ok_vote_response: "node_ok s \<Longrightarrow> node_ok (handle_request_vote_response E L r s)"
  by (simp add: handle_request_vote_response_def Let_def node_ok_become_follower node_ok_tally)

lemma node_ok_transfer:
  "transfer_begin L p s = (o1, s') \<Longrightarrow> node_ok s \<Longrightarrow> node_ok s'"
  "transfer_round E L p i k s = Some (o1, s') \<Longrightarrow> node_ok s \<Longrightarrow> node_ok s'"
  "transfer_resume i s = (o1, s') \<Longrightarrow> node_ok s \<Longrightarrow> node_ok s'"
  "node_ok s \<Longrightarrow> node_ok (transfer_signal E L p s)"
  "node_ok s \<Longrightarrow> node_ok (transfer_finish E s)"
proof -
  have flag: "node_ok (t\<lparr>rn_transferring := b\<rparr>)" if "node_ok t" "b \<longrightarrow> rn_state t = Leader" for t :: "'a RaftNode" and b
    using that by (auto simp: node_ok_def followers_ok_def find_follower_def pipeline_limit_def)
  have lead: "rn_state s = Leader" if "find_follower s p = Some f" "node_ok s" for f
    using that by (auto simp: node_ok_def find_follower_def)
  show "transfer_begin L p s = (o1, s') \<Longrightarrow> node_ok s \<Longrightarrow> node_ok s'"
    by (auto simp: transfer_begin_def flag split: if_splits)
  show "transfer_round E L p i k s = Some (o1, s') \<Longrightarrow> node_ok s \<Longrightarrow> node_ok s'"
    by (auto simp: transfer_round_def flag lead node_ok_send_append split: if_splits option.splits)
  show "transfer_resume i s = (o1, s') \<Longrightarrow> node_ok s \<Longrightarrow> node_ok s'"
    by (auto simp: transfer_resume_def flag split: if_splits)
  show "node_ok s \<Longrightarrow> node_ok (transfer_signal E L p s)"
    by (erule node_ok_same_table) (simp_all add: transfer_signal_def)
  show "node_ok s \<Longrightarrow> node_ok (transfer_finish E s)"
    by (simp add: transfer_finish_def flag node_ok_become_follower)
qed

lemma node_ok_step:
  assumes "node_step E L s s'" "node_ok s" "rn_id s \<noteq> kNoLeader"
  shows "node_ok s'"
  using assms
proof (induction rule: node_step.induct)
  case (client_propose c s r s')
  then show ?case by (auto simp: propose_def Let_def split: if_splits prod.splits)
next
  case (client_snapshot s r s')
  then show ?case by (auto simp: create_snapshot_def write_file_atomic_def Let_def split: if_splits)
next
  case (client_step_down s)
  then show ?case by (simp add: step_down_def node_ok_become_follower)
next
  case (stop s)
  then show ?case by (auto simp: shutdown_node_def Let_def node_ok_def)
qed (auto simp: node_ok_election node_ok_vote_response node_ok_transfer(4,5)
    intro: node_ok_heartbeat node_ok_transfer(1-3) node_ok_recv_append node_ok_recv_vote
      node_ok_recv_snapshot node_ok_append_response node_ok_snapshot_response)

lemma node_ok_run:
  assumes "(node_step E L)\<^sup>*\<^sup>* s s'" "node_ok s" "rn_id s \<noteq> kNoLeader"
  shows "node_ok s'"
  using assms
proof (induction rule: rtranclp_induct)
  case (step t u)
  then have "node_ok t" "rn_id t = rn_id s"
    using vote_le_run [of E L s t] by (simp_all add: vote_le_def)
  then show ?case using node_ok_step [OF step(2)] step.prems by simp
qed

lemma node_ok_new: "start_node E (new_raft_node p c l) = Some s \<Longrightarrow> node_ok s \<and> rn_id s = p"
  by (auto simp: start_node_def new_raft_node_def node_ok_def)

end
