(* ===== verification/Raft_Codec.thy ===== *)
theory Raft_Codec
  imports Raft_Types "HOL-Library.Monad_Syntax"
begin

text \<open>
  The byte layer of \<^verbatim>\<open>src/torrent/consensus/raft_log.cpp\<close>: the table-driven CRC32C, the
  little-endian integer helpers, and the encoding of a batch of log entries into a frame.

  A reader that would run past the end of its buffer (undefined behaviour in C++) yields
  \<open>None\<close>; the round-trip theorem shows that frames written by this code never get there.
\<close>

section \<open>CRC32C\<close>

definition crc32c_shift :: "u32 \<Rightarrow> u32" where
  "crc32c_shift crc = (if crc AND 1 \<noteq> 0 then drop_bit 1 crc XOR 0x82F63B78 else drop_bit 1 crc)"

definition kCrc32cTable :: "nat \<Rightarrow> u32" where
  "kCrc32cTable i = (crc32c_shift ^^ 8) (of_nat i)"

definition crc32c_update :: "u32 \<Rightarrow> bytes \<Rightarrow> u32" where
  "crc32c_update crc data =
     fold (\<lambda>b c. kCrc32cTable (unat ((c XOR ucast b) AND 0xFF)) XOR drop_bit 8 c)
       data (crc XOR 0xFFFFFFFF) XOR 0xFFFFFFFF"

definition crc32c_span :: "bytes \<Rightarrow> u32" where
  "crc32c_span buf = crc32c_update 0 buf"

text \<open>The bit-serial definition of the Castagnoli CRC, one shift per bit and no table.\<close>

definition crc32c_reference :: "bytes \<Rightarrow> u32" where
  "crc32c_reference data =
     fold (\<lambda>b c. (crc32c_shift ^^ 8) (c XOR ucast b)) data 0xFFFFFFFF XOR 0xFFFFFFFF"

section \<open>Little-endian integers\<close>

definition write_u32_le :: "bytes \<Rightarrow> u32 \<Rightarrow> bytes" where
  "write_u32_le buf v =
     buf @ [ucast (v AND 0xFF), ucast (drop_bit 8 v AND 0xFF),
            ucast (drop_bit 16 v AND 0xFF), ucast (drop_bit 24 v AND 0xFF)]"

definition write_u64_le :: "bytes \<Rightarrow> u64 \<Rightarrow> bytes" where
  "write_u64_le buf v = buf @ map (\<lambda>i. ucast (drop_bit (i * 8) v AND 0xFF)) [0..<8]"

definition write_i64_le :: "bytes \<Rightarrow> int \<Rightarrow> bytes" where
  "write_i64_le buf v = write_u64_le buf (word_of_int v)"

definition read_u32_le :: "bytes \<Rightarrow> (u32 \<times> bytes) option" where
  "read_u32_le p =
     (if length p < 4 then None
      else Some (ucast (p ! 0) OR push_bit 8 (ucast (p ! 1)) OR
                 push_bit 16 (ucast (p ! 2)) OR push_bit 24 (ucast (p ! 3)), drop 4 p))"

definition read_u64_le :: "bytes \<Rightarrow> (u64 \<times> bytes) option" where
  "read_u64_le p =
     (if length p < 8 then None
      else Some (ucast (p ! 0) OR push_bit 8 (ucast (p ! 1)) OR
                 push_bit 16 (ucast (p ! 2)) OR push_bit 24 (ucast (p ! 3)) OR
                 push_bit 32 (ucast (p ! 4)) OR push_bit 40 (ucast (p ! 5)) OR
                 push_bit 48 (ucast (p ! 6)) OR push_bit 56 (ucast (p ! 7)), drop 8 p))"

definition read_i64_le :: "bytes \<Rightarrow> (int \<times> bytes) option" where
  "read_i64_le p = map_option (map_prod sint id) (read_u64_le p)"

section \<open>Entries\<close>

definition tag_NoOp :: byte where "tag_NoOp = 0"
definition tag_ConfigChange :: byte where "tag_ConfigChange = 1"
definition tag_UserCommand :: byte where "tag_UserCommand = 2"

text \<open>A member id is sign-extended to 64 bits when written and cut to 32 bits when read.\<close>

definition write_members :: "bytes \<Rightarrow> RaftNodeId list \<Rightarrow> bytes" where
  "write_members payload ms =
     fold (\<lambda>m p. write_u64_le p (word_of_int m)) ms (write_u32_le payload (of_nat (length ms)))"

definition config_payload :: "ConfigChangeCommand \<Rightarrow> bytes" where
  "config_payload cc =
     write_members (write_members [if cc_joint_consensus cc then 1 else 0] (cc_old_members cc))
       (cc_new_members cc)"

definition serialize_entry :: "bytes \<Rightarrow> LogEntry \<Rightarrow> bytes" where
  "serialize_entry buf e =
     (let buf = write_i64_le (write_i64_le buf (le_term e)) (le_index e)
      in case le_command e of
           NoOp \<Rightarrow> write_u32_le (buf @ [tag_NoOp]) 0
         | ConfigChange cc \<Rightarrow>
             let payload = config_payload cc
             in write_u32_le (buf @ [tag_ConfigChange]) (of_nat (length payload)) @ payload
         | UserCommand payload \<Rightarrow>
             write_u32_le (buf @ [tag_UserCommand]) (of_nat (length payload)) @ payload)"

definition serialize_batch :: "LogEntry list \<Rightarrow> bytes" where
  "serialize_batch entries = fold (\<lambda>e buf. serialize_entry buf e) entries []"

fun read_member_ids :: "nat \<Rightarrow> bytes \<Rightarrow> (RaftNodeId list \<times> bytes) option" where
  "read_member_ids 0 p = Some ([], p)"
| "read_member_ids (Suc n) p =
     do { (w, p) \<leftarrow> read_u64_le p;
          (ids, p) \<leftarrow> read_member_ids n p;
          Some (sint (ucast w :: u32) # ids, p) }"

definition read_members :: "bytes \<Rightarrow> (RaftNodeId list \<times> bytes) option" where
  "read_members p = do { (n, p) \<leftarrow> read_u32_le p; read_member_ids (unat n) p }"

definition read_config_change :: "bytes \<Rightarrow> ConfigChangeCommand option" where
  "read_config_change p =
     (case p of [] \<Rightarrow> None
      | b # p \<Rightarrow>
          do { (old, p) \<leftarrow> read_members p;
               (new, _) \<leftarrow> read_members p;
               Some \<lparr>cc_new_members = new, cc_joint_consensus = (b \<noteq> 0),
                     cc_old_members = old\<rparr> })"

definition read_command :: "byte \<Rightarrow> nat \<Rightarrow> bytes \<Rightarrow> RaftCommand option" where
  "read_command tag payload_sz dp =
     (if tag = tag_NoOp then Some NoOp
      else if tag = tag_ConfigChange then map_option ConfigChange (read_config_change dp)
      else if tag = tag_UserCommand then
        (if length dp < payload_sz then None else Some (UserCommand (take payload_sz dp)))
      else Some NoOp)"

fun read_entries :: "nat \<Rightarrow> bytes \<Rightarrow> LogEntry list option" where
  "read_entries 0 dp = Some []"
| "read_entries (Suc n) dp =
     (if dp = [] then Some []
      else do { (t, dp) \<leftarrow> read_i64_le dp;
                (i, dp) \<leftarrow> read_i64_le dp;
                (tag, dp) \<leftarrow> (case dp of [] \<Rightarrow> None | b # r \<Rightarrow> Some (b, r));
                (payload_sz, dp) \<leftarrow> read_u32_le dp;
                cmd \<leftarrow> read_command tag (unat payload_sz) dp;
                es \<leftarrow> read_entries n (drop (unat payload_sz) dp);
                Some (\<lparr>le_term = t, le_index = i, le_command = cmd\<rparr> # es) })"

section \<open>Frames\<close>

definition kLogFrameMagic :: u32 where "kLogFrameMagic = 0x544C4146"
definition kMaxBatchEntries :: nat where "kMaxBatchEntries = 10000"
definition kMaxBatchBytes :: nat where "kMaxBatchBytes = 64 * 1024 * 1024"

definition make_frame :: "LogEntry list \<Rightarrow> bytes" where
  "make_frame entries =
     (let batch_data = serialize_batch entries
      in write_u32_le (write_u32_le (write_u32_le (write_u32_le [] kLogFrameMagic)
           (crc32c_span batch_data)) (of_nat (length entries))) (of_nat (length batch_data))
         @ batch_data)"

definition pread :: "bytes \<Rightarrow> nat \<Rightarrow> nat \<Rightarrow> bytes" where
  "pread file n off = take n (drop off file)"

text \<open>\<^verbatim>\<open>read_batch\<close> on the contents of \<^verbatim>\<open>log.dat\<close>; \<open>None\<close> is an out-of-bounds read.\<close>

definition read_frame :: "bytes \<Rightarrow> nat \<Rightarrow> LogEntry list option" where
  "read_frame file off =
     (let hdr = pread file 16 off
      in if length hdr \<noteq> 16 then Some []
         else do { (magic, p) \<leftarrow> read_u32_le hdr;
                   (crc, p) \<leftarrow> read_u32_le p;
                   (count, p) \<leftarrow> read_u32_le p;
                   (total, p) \<leftarrow> read_u32_le p;
                   (if magic \<noteq> kLogFrameMagic then Some []
                    else if unat count > kMaxBatchEntries \<or> unat total > kMaxBatchBytes then Some []
                    else let data = pread file (unat total) (off + 16)
                         in if length data \<noteq> unat total then Some []
                            else if crc32c_span data \<noteq> crc then Some []
                            else read_entries (unat count) data) })"

section \<open>Well-formed entries\<close>

text \<open>Entries whose fields fit the C++ types.\<close>

definition in_int64 :: "int \<Rightarrow> bool" where "in_int64 i \<longleftrightarrow> - (2 ^ 63) \<le> i \<and> i < 2 ^ 63"
definition in_int32 :: "int \<Rightarrow> bool" where "in_int32 i \<longleftrightarrow> - (2 ^ 31) \<le> i \<and> i < 2 ^ 31"

fun wf_command :: "RaftCommand \<Rightarrow> bool" where
  "wf_command NoOp = True"
| "wf_command (ConfigChange cc) =
     (list_all in_int32 (cc_old_members cc) \<and> list_all in_int32 (cc_new_members cc))"
| "wf_command (UserCommand p) = True"

definition wf_entry :: "LogEntry \<Rightarrow> bool" where
  "wf_entry e \<longleftrightarrow> in_int64 (le_term e) \<and> in_int64 (le_index e) \<and> wf_command (le_command e)"

definition wf_batch :: "LogEntry list \<Rightarrow> bool" where
  "wf_batch es \<longleftrightarrow> list_all wf_entry es \<and> length es \<le> kMaxBatchEntries
     \<and> length (serialize_batch es) \<le> kMaxBatchBytes"

section \<open>Integers on the wire\<close>

lemma u32_bytes_join:
  "take_bit 8 v OR push_bit 8 (take_bit 8 (drop_bit 8 v)) OR
   push_bit 16 (take_bit 8 (drop_bit 16 v)) OR push_bit 24 (take_bit 8 (drop_bit 24 v)) = (v::u32)"
  using push_take_drop [of 16 8 v] push_take_drop [of 8 8 v] push_take_drop [of 0 8 v]
    push_take_top [of 24 8 v] by simp

lemma u64_bytes_join:
  "take_bit 8 v OR push_bit 8 (take_bit 8 (drop_bit 8 v)) OR
   push_bit 16 (take_bit 8 (drop_bit 16 v)) OR push_bit 24 (take_bit 8 (drop_bit 24 v)) OR
   push_bit 32 (take_bit 8 (drop_bit 32 v)) OR push_bit 40 (take_bit 8 (drop_bit 40 v)) OR
   push_bit 48 (take_bit 8 (drop_bit 48 v)) OR push_bit 56 (take_bit 8 (drop_bit 56 v)) = (v::u64)"
  using push_take_drop [of 48 8 v] push_take_drop [of 40 8 v] push_take_drop [of 32 8 v]
    push_take_drop [of 24 8 v] push_take_drop [of 16 8 v] push_take_drop [of 8 8 v]
    push_take_drop [of 0 8 v] push_take_top [of 56 8 v] by simp

lemma write_u32_le_append: "write_u32_le buf v = buf @ write_u32_le [] v"
  by (simp add: write_u32_le_def)
lemma write_u64_le_append: "write_u64_le buf v = buf @ write_u64_le [] v"
  by (simp add: write_u64_le_def)
lemma write_i64_le_append: "write_i64_le buf v = buf @ write_i64_le [] v"
  by (simp add: write_i64_le_def write_u64_le_def)

lemma length_writes [simp]:
  "length (write_u32_le buf v) = length buf + 4"
  "length (write_u64_le buf w) = length buf + 8"
  "length (write_i64_le buf i) = length buf + 8"
  by (simp_all add: write_u32_le_def write_u64_le_def write_i64_le_def)

lemma read_write_u32 [wire]: "read_u32_le (write_u32_le [] v @ rest) = Some (v, rest)"
  by (simp add: read_u32_le_def write_u32_le_def ucast_byte u32_bytes_join)

lemma read_write_u64 [wire]: "read_u64_le (write_u64_le [] v @ rest) = Some (v, rest)"
  by (simp add: read_u64_le_def write_u64_le_def upt8 ucast_byte u64_bytes_join)

lemma read_write_i64 [wire]:
  "in_int64 i \<Longrightarrow> read_i64_le (write_i64_le [] i @ rest) = Some (i, rest)"
  by (simp add: read_i64_le_def write_i64_le_def read_write_u64 in_int64_def sint_sbintrunc' signed_take_bit_int_eq_self)

section \<open>The CRC and the codec\<close>

lemma crc32c_shift_bit: "crc32c_shift c = (if bit c 0 then drop_bit 1 c XOR 0x82F63B78 else drop_bit 1 c)"
  by (simp add: crc32c_shift_def and_one_eq bit_0 odd_iff_mod_2_eq_one mod2_eq_if)

lemma crc32c_shift_xor: "crc32c_shift (a XOR b) = crc32c_shift a XOR crc32c_shift b"
proof -
  have cancel: "p XOR q = (p XOR k) XOR (q XOR k)" for p q k :: u32
    by (metis xor.assoc xor.commute xor_self_eq xor.right_neutral)
  show ?thesis
    by (cases "bit a 0"; cases "bit b 0")
      (simp_all add: crc32c_shift_bit bit_xor_iff drop_bit_xor xor.assoc xor.commute xor.left_commute
        cancel [of "drop_bit 1 a" "drop_bit 1 b" "0x82F63B78"])
qed

lemma crc32c_shift_pow_xor:
  "(crc32c_shift ^^ n) (a XOR b) = (crc32c_shift ^^ n) a XOR (crc32c_shift ^^ n) b"
  by (induction n) (simp_all add: crc32c_shift_xor)

lemma crc32c_shift_pow_zeros: "(\<And>i. i < n \<Longrightarrow> \<not> bit x i) \<Longrightarrow> (crc32c_shift ^^ n) x = drop_bit n x"
proof (induction n arbitrary: x)
  case (Suc n)
  have "crc32c_shift x = drop_bit 1 x"
    using Suc.prems [of 0] by (simp add: crc32c_shift_bit)
  moreover have "\<not> bit (drop_bit 1 x) i" if "i < n" for i
    using Suc.prems [of "Suc i"] that by (simp add: bit_simps)
  ultimately have "(crc32c_shift ^^ n) (crc32c_shift x) = drop_bit n (drop_bit 1 x)"
    using Suc.IH [of "drop_bit 1 x"] by simp
  then show ?case by (simp add: funpow_swap1)
qed simp

lemma crc32c_shift_pow_push: "(crc32c_shift ^^ 8) (push_bit 8 (drop_bit 8 a)) = drop_bit 8 a"
proof -
  have "(crc32c_shift ^^ 8) (push_bit 8 (drop_bit 8 a)) = drop_bit 8 (push_bit 8 (drop_bit 8 a))"
    by (rule crc32c_shift_pow_zeros) (simp add: bit_simps)
  also have "\<dots> = drop_bit 8 a"
    by (rule bit_word_eqI) (auto simp: bit_simps dest: bit_imp_le_length)
  finally show ?thesis .
qed

lemma crc32c_table_byte:
  "kCrc32cTable (unat ((c XOR ucast b) AND 0xFF)) XOR drop_bit 8 c = (crc32c_shift ^^ 8) (c XOR ucast (b::byte))"
proof -
  let ?y = "c XOR ucast b"
  have "drop_bit 8 ?y = drop_bit 8 c"
    by (rule bit_word_eqI) (auto simp: bit_simps dest: bit_imp_le_length)
  moreover have "(crc32c_shift ^^ 8) ?y
      = (crc32c_shift ^^ 8) (take_bit 8 ?y) XOR (crc32c_shift ^^ 8) (push_bit 8 (drop_bit 8 ?y))"
    by (metis crc32c_shift_pow_xor take_xor_push)
  ultimately show ?thesis
    by (simp add: kCrc32cTable_def and_255 crc32c_shift_pow_push)
qed

lemma crc32c_update_bitwise:
  "crc32c_update crc data =
     fold (\<lambda>b c. (crc32c_shift ^^ 8) (c XOR ucast b)) data (crc XOR 0xFFFFFFFF) XOR 0xFFFFFFFF"
  by (simp only: crc32c_update_def crc32c_table_byte)

text \<open>
  C31: The checksum is CRC-32C: on every input the table-driven loop computes what the bit-by-bit
  definition with the reversed polynomial \<^verbatim>\<open>0x82F63B78\<close> computes.
\<close>

theorem crc32c_table_is_bitwise: "crc32c_span data = crc32c_reference data"
  by (simp add: crc32c_span_def crc32c_update_bitwise crc32c_reference_def)

lemma crc32c_update_append: "crc32c_update crc (xs @ ys) = crc32c_update (crc32c_update crc xs) ys"
  by (simp add: crc32c_update_def xor.assoc)

lemma crc32c_shift_inj: "crc32c_shift a = crc32c_shift b \<Longrightarrow> a = b"
proof (rule bit_word_eqI)
  fix n assume eq: "crc32c_shift a = crc32c_shift b" and n: "n < LENGTH(32)"
  have top: "bit (crc32c_shift c) 31 = bit c 0" for c
    using bit_imp_le_length [of c 32] by (auto simp: crc32c_shift_bit bit_simps)
  then have low: "bit a 0 = bit b 0" by (metis eq)
  with eq have "drop_bit 1 a = drop_bit 1 b"
    by (auto simp: crc32c_shift_bit split: if_splits) 
  then have "bit a (Suc m) = bit b (Suc m)" for m
    by (metis bit_drop_bit_eq comp_apply plus_1_eq_Suc)
  with low show "bit a n = bit b n" by (cases n) auto
qed

lemma crc32c_shift_pow_inj: "(crc32c_shift ^^ n) a = (crc32c_shift ^^ n) b \<Longrightarrow> a = b"
  by (induction n) (auto dest: crc32c_shift_inj)

lemma crc32c_fold_inj:
  "fold (\<lambda>b c. (crc32c_shift ^^ 8) (c XOR ucast b)) ys c
     = fold (\<lambda>b c. (crc32c_shift ^^ 8) (c XOR ucast b)) ys d \<Longrightarrow> c = d"
proof (induction ys arbitrary: c d)
  case (Cons y ys)
  from Cons.prems have "(crc32c_shift ^^ 8) (c XOR ucast y) = (crc32c_shift ^^ 8) (d XOR ucast y)"
    by (auto intro: Cons.IH)
  then show ?case by (auto dest: crc32c_shift_pow_inj)
qed simp

lemma crc32c_detects_byte_change:
  assumes "b \<noteq> b'"
  shows "crc32c_span (xs @ b # ys) \<noteq> crc32c_span (xs @ b' # ys)"
proof
  define c where "c = crc32c_update 0 xs XOR 0xFFFFFFFF"
  assume "crc32c_span (xs @ b # ys) = crc32c_span (xs @ b' # ys)"
  then have "crc32c_update (crc32c_update 0 xs) (b # ys) = crc32c_update (crc32c_update 0 xs) (b' # ys)"
    by (simp add: crc32c_span_def crc32c_update_append)
  then have "(crc32c_shift ^^ 8) (c XOR ucast b) = (crc32c_shift ^^ 8) (c XOR ucast b')"
    unfolding crc32c_update_bitwise c_def by (auto dest: crc32c_fold_inj)
  then have "ucast b XOR c = ucast b' XOR c"
    by (metis crc32c_shift_pow_inj xor.commute)
  then show False using assms by (auto dest: ucast_byte_inj)
qed

lemma write_members_eq:
  "write_members p ms =
     p @ write_u32_le [] (of_nat (length ms)) @ concat (map (\<lambda>m. write_u64_le [] (word_of_int m)) ms)"
proof -
  have "fold (\<lambda>m p. write_u64_le p (word_of_int m)) ms q
      = q @ concat (map (\<lambda>m. write_u64_le [] (word_of_int m)) ms)" for q
    by (induction ms arbitrary: q) (simp_all add: write_u64_le_def)
  then show ?thesis by (simp add: write_members_def write_u32_le_def)
qed

lemma ucast_member:
  assumes "in_int32 m"
  shows "sint (ucast (word_of_int m :: u64) :: u32) = m"
proof -
  have "(ucast (word_of_int m :: u64) :: u32) = word_of_int m"
    by (rule bit_word_eqI) (simp add: bit_simps)
  then show ?thesis
    using assms by (simp add: in_int32_def sint_sbintrunc' signed_take_bit_int_eq_self)
qed

lemma read_member_ids_concat:
  "list_all in_int32 ms \<Longrightarrow>
   read_member_ids (length ms) (concat (map (\<lambda>m. write_u64_le [] (word_of_int m)) ms) @ rest) = Some (ms, rest)"
  by (induction ms) (simp_all add: wire ucast_member)

lemma read_members_write [wire]:
  "list_all in_int32 ms \<Longrightarrow> length ms < 2 ^ 32 \<Longrightarrow> read_members (write_members [] ms @ rest) = Some (ms, rest)"
  by (simp add: read_members_def write_members_eq wire unat_of_nat_u32 read_member_ids_concat)

lemma length_write_members: "length (write_members p ms) = length p + 4 + 8 * length ms"
  by (induction ms) (simp_all add: write_members_eq)

lemma write_members_append: "write_members p ms = p @ write_members [] ms"
  by (simp add: write_members_eq)

lemma config_payload_eq:
  "config_payload cc = (if cc_joint_consensus cc then 1 else 0) #
     write_members [] (cc_old_members cc) @ write_members [] (cc_new_members cc)"
  unfolding config_payload_def
  by (subst write_members_append, subst write_members_append) simp

lemma read_config_payload [wire]:
  assumes "wf_command (ConfigChange cc)" "length (config_payload cc) < 2 ^ 32"
  shows "read_config_change (config_payload cc @ rest) = Some cc"
proof -
  have "length (cc_old_members cc) < 2 ^ 32" "length (cc_new_members cc) < 2 ^ 32"
    using assms(2) by (auto simp: config_payload_eq length_write_members)
  then show ?thesis
    using assms(1) by (simp add: read_config_change_def config_payload_eq wire)
qed

lemma serialize_entry_append: "serialize_entry buf e = buf @ serialize_entry [] e"
  by (simp add: serialize_entry_def write_i64_le_def write_u64_le_def write_u32_le_def Let_def
      split: RaftCommand.split)

lemma serialize_batch_eq: "serialize_batch es = concat (map (serialize_entry []) es)"
proof -
  have "fold (\<lambda>e buf. serialize_entry buf e) es q = q @ concat (map (serialize_entry []) es)" for q
  proof (induction es arbitrary: q)
    case (Cons e es)
    then show ?case by (simp add: serialize_entry_append [of q])
  qed simp
  then show ?thesis by (simp add: serialize_batch_def)
qed

lemma serialize_entry_eq:
  "serialize_entry [] e = write_i64_le [] (le_term e) @ write_i64_le [] (le_index e) @
     (case le_command e of
        NoOp \<Rightarrow> tag_NoOp # write_u32_le [] 0
      | ConfigChange cc \<Rightarrow> tag_ConfigChange # write_u32_le [] (of_nat (length (config_payload cc))) @ config_payload cc
      | UserCommand p \<Rightarrow> tag_UserCommand # write_u32_le [] (of_nat (length p)) @ p)"
  by (simp add: serialize_entry_def write_i64_le_def write_u64_le_def write_u32_le_def Let_def
      split: RaftCommand.split)

lemma read_entries_step:
  assumes "wf_entry e" "length (serialize_entry [] e) < 2 ^ 32"
  shows "read_entries (Suc n) (serialize_entry [] e @ rest) =
     map_option (\<lambda>es. e # es) (read_entries n rest)"
proof -
  have ne: "serialize_entry [] e @ rest \<noteq> []"
    by (auto simp: serialize_entry_eq write_i64_le_def write_u64_le_def)
  have "in_int64 (le_term e)" "in_int64 (le_index e)" "wf_command (le_command e)"
    using assms(1) by (auto simp: wf_entry_def)
  with assms(2) ne show ?thesis
    by (cases e; cases "le_command e")
      (auto simp: serialize_entry_eq wire read_command_def tag_NoOp_def tag_ConfigChange_def
        tag_UserCommand_def unat_of_nat_u32 split: Option.bind_split)
qed

lemma read_entries_batch:
  assumes "list_all wf_entry es" "length (serialize_batch es) < 2 ^ 32"
  shows "read_entries (length es) (serialize_batch es) = Some es"
  using assms
proof (induction es)
  case (Cons e es)
  then have "length (serialize_entry [] e) < 2 ^ 32" "length (serialize_batch es) < 2 ^ 32"
    by (simp_all add: serialize_batch_eq)
  with Cons show ?case
    by (simp add: serialize_batch_eq read_entries_step del: read_entries.simps)
qed simp

lemma read_write_u32_end [wire]: "read_u32_le (write_u32_le [] v) = Some (v, [])"
  using read_write_u32 [of v "[]"] by simp

lemma read_frame_header:
  assumes "length data = n" "n < 2 ^ 32" "length (es :: LogEntry list) < 2 ^ 32" "n \<le> kMaxBatchBytes"
    "length es \<le> kMaxBatchEntries"
  shows "read_frame (pre @ (write_u32_le [] kLogFrameMagic @ write_u32_le [] crc
       @ write_u32_le [] (of_nat (length es)) @ write_u32_le [] (of_nat n)) @ data @ post) (length pre)
     = (if crc32c_span data \<noteq> crc then Some [] else read_entries (length es) data)"
proof -
  define hdr where "hdr = write_u32_le [] kLogFrameMagic @ write_u32_le [] crc
     @ write_u32_le [] (of_nat (length es)) @ write_u32_le [] (of_nat n)"
  have hlen: "length hdr = 16" by (simp add: hdr_def)
  have "pread (pre @ hdr @ data @ post) 16 (length pre) = hdr"
    using hlen by (simp add: pread_def)
  moreover have "pread (pre @ hdr @ data @ post) n (length pre + 16) = data"
    using hlen assms(1) by (simp add: pread_def)
  ultimately show ?thesis
    unfolding hdr_def [symmetric] using assms
    by (simp add: read_frame_def hlen Let_def) (simp add: hdr_def wire unat_of_nat_u32)
qed

lemma make_frame_eq:
  "make_frame es = (write_u32_le [] kLogFrameMagic @ write_u32_le [] (crc32c_span (serialize_batch es))
     @ write_u32_le [] (of_nat (length es)) @ write_u32_le [] (of_nat (length (serialize_batch es))))
     @ serialize_batch es"
  by (simp add: make_frame_def write_u32_le_def Let_def)

lemma wf_batch_bounds:
  assumes "wf_batch es"
  shows "list_all wf_entry es" "length es < 2 ^ 32" "length (serialize_batch es) < 2 ^ 32"
    "length es \<le> kMaxBatchEntries" "length (serialize_batch es) \<le> kMaxBatchBytes"
  using assms by (auto simp: wf_batch_def kMaxBatchEntries_def kMaxBatchBytes_def)

lemma length_make_frame: "length (make_frame es) = 16 + length (serialize_batch es)"
  by (simp add: make_frame_def Let_def)

lemma read_frame_make_frame:
  assumes "wf_batch es"
  shows "read_frame (pre @ make_frame es @ post) (length pre) = Some es"
  using wf_batch_bounds [OF assms] read_frame_header [of "serialize_batch es" _ es]
  by (simp add: make_frame_eq read_entries_batch)

text \<open>
  C9: Corruption is detected: when any one byte of a stored batch was replaced by another, reading
  the frame returns no entries, whatever surrounds the frame in the data file.
\<close>

theorem corrupt_frame_rejected:
  assumes "wf_batch es" "i < length (serialize_batch es)" "b \<noteq> serialize_batch es ! i"
  shows "read_frame (pre @ (make_frame es)[16 + i := b] @ post) (length pre) = Some []"
proof -
  let ?d = "serialize_batch es"
  have "?d = take i ?d @ ?d ! i # drop (Suc i) ?d" and upd: "?d[i := b] = take i ?d @ b # drop (Suc i) ?d"
    using assms(2) by (simp_all add: id_take_nth_drop upd_conv_take_nth_drop)
  then have "crc32c_span (?d[i := b]) \<noteq> crc32c_span ?d"
    using crc32c_detects_byte_change [OF assms(3)] by metis
  moreover have "(make_frame es)[16 + i := b] = take 16 (make_frame es) @ ?d[i := b]"
    by (simp add: make_frame_eq list_update_append)
  ultimately show ?thesis
    using wf_batch_bounds [OF assms(1)] read_frame_header [of "?d[i := b]" _ es]
    by (simp add: make_frame_eq)
qed

theorem corrupt_frame_rejected_witness:
  "read_frame ([7] @ (make_frame [\<lparr>le_term = 1, le_index = 1, le_command = NoOp\<rparr>])[16 := 2] @ [9]) 1 = Some []"
proof -
  let ?es = "[\<lparr>le_term = 1, le_index = 1, le_command = NoOp\<rparr>]"
  have "wf_batch ?es" "0 < length (serialize_batch ?es)"
    by (simp_all add: wf_batch_def wf_entry_def in_int64_def kMaxBatchEntries_def kMaxBatchBytes_def
        serialize_batch_def serialize_entry_def)
  moreover have "2 \<noteq> serialize_batch ?es ! 0"
    by (simp add: serialize_batch_def serialize_entry_def write_i64_le_def write_u64_le_def write_u32_le_def upt8)
  ultimately show ?thesis using corrupt_frame_rejected [of ?es 0 2 "[7]" "[9]"] by simp
qed

end
