(* ===== verification/Raft_Log.thy ===== *)
theory Raft_Log
  imports Raft_Codec Raft_Log_Spec
begin

text \<open>
  \<^verbatim>\<open>DiskRaftLog\<close> of \<^verbatim>\<open>src/torrent/consensus/raft_log.cpp\<close>: the in-memory index, the contents of
  \<^verbatim>\<open>log.dat\<close>, \<^verbatim>\<open>log.idx\<close> and \<^verbatim>\<open>meta\<close>, and every method of the class that changes or reads
  them, ending with \<open>disk_raft_log\<close>, the instance of the abstract class \<^verbatim>\<open>RaftLog\<close>.

  The operating system is part of the state: \<open>dl_os_write k\<close> is the number of bytes the
  \<open>k\<close>-th write call accepts (fewer than asked is the short write or the error that the code
  tests for), \<open>dl_os_writes\<close> counts the calls. The data file is opened with
  \<^verbatim>\<open>O_APPEND\<close>, and on Linux \<^verbatim>\<open>pwrite\<close> on such a descriptor writes at the end of the file
  whatever the offset argument is. The lines \<^verbatim>\<open>key=value\<close> of the metadata file are pairs.
  \<^verbatim>\<open>fsync\<close> has no effect on contents and is not modelled.
\<close>

record IndexEntry =
  ie_index :: LogIndex
  ie_offset :: nat
  ie_term :: RaftTerm
  ie_batch_length :: nat

record DiskRaftLog =
  dl_index :: "(LogIndex \<times> IndexEntry) list"
  dl_first :: LogIndex
  dl_last :: LogIndex
  dl_snapshot :: "RaftSnapshot option"
  dl_data :: bytes
  dl_idx :: bytes
  dl_data_size :: nat
  dl_idx_size :: nat
  dl_meta :: "(string \<times> int) list option"
  dl_dirty :: nat
  dl_batching :: bool
  dl_os_write :: "nat \<Rightarrow> nat"
  dl_os_writes :: nat

definition kIndexEntrySize :: nat where "kIndexEntrySize = 24"
definition kLogFormatVersion :: int where "kLogFormatVersion = 1"

section \<open>File primitives\<close>

definition pwrite :: "bytes \<Rightarrow> bytes \<Rightarrow> nat \<Rightarrow> bytes" where
  "pwrite file buf off =
     take off file @ replicate (off - length file) 0 @ buf @ drop (off + length buf) file"

definition ftruncate :: "bytes \<Rightarrow> nat \<Rightarrow> bytes" where
  "ftruncate file len = take len file @ replicate (len - length file) 0"

section \<open>Metadata file\<close>

definition write_meta :: "DiskRaftLog \<Rightarrow> DiskRaftLog" where
  "write_meta d =
     (let d' = d\<lparr>dl_os_writes := dl_os_writes d + 1\<rparr>
      in if dl_os_write d (dl_os_writes d) = 0 then d'
         else d'\<lparr>dl_meta := Some ([(''first_index'', dl_first d), (''last_index'', dl_last d),
                  (''format_version'', kLogFormatVersion)] @
                (case dl_snapshot d of None \<Rightarrow> []
                 | Some s \<Rightarrow> [(''snapshot_last_index'', snap_last_included_index s),
                              (''snapshot_last_term'', snap_last_included_term s)]))\<rparr>)"

definition flush_and_fsync :: "DiskRaftLog \<Rightarrow> DiskRaftLog" where
  "flush_and_fsync d = write_meta d"

text \<open>One pass of the background fsync loop.\<close>

definition fsync_tick :: "DiskRaftLog \<Rightarrow> DiskRaftLog" where
  "fsync_tick d = (if dl_dirty d > 0 then (flush_and_fsync d)\<lparr>dl_dirty := 0\<rparr> else d)"

definition read_meta_line :: "string \<times> int \<Rightarrow> DiskRaftLog \<Rightarrow> DiskRaftLog" where
  "read_meta_line l d =
     (if fst l = ''first_index'' then d\<lparr>dl_first := snd l\<rparr>
      else if fst l = ''last_index'' then d\<lparr>dl_last := snd l\<rparr>
      else d)"

definition read_meta :: "DiskRaftLog \<Rightarrow> DiskRaftLog" where
  "read_meta d =
     (case dl_meta d of
        None \<Rightarrow> d\<lparr>dl_first := 1, dl_last := 0\<rparr>
      | Some ls \<Rightarrow> fold read_meta_line ls d)"

section \<open>Opening and recovery\<close>

fun read_index_records :: "nat \<Rightarrow> bytes \<Rightarrow> IndexEntry list option" where
  "read_index_records 0 p = Some []"
| "read_index_records (Suc n) p =
     do { (i, p) \<leftarrow> read_i64_le p;
          (off, p) \<leftarrow> read_u64_le p;
          (t, p) \<leftarrow> read_i64_le p;
          ies \<leftarrow> read_index_records n p;
          Some (\<lparr>ie_index = i, ie_offset = unat off, ie_term = t, ie_batch_length = 0\<rparr> # ies) }"

definition recover_index :: "DiskRaftLog \<Rightarrow> DiskRaftLog" where
  "recover_index d =
     (let d = d\<lparr>dl_index := []\<rparr>
      in if dl_idx_size d = 0 then d
         else if length (pread (dl_idx d) (dl_idx_size d) 0) \<noteq> dl_idx_size d then d
         else case read_index_records (dl_idx_size d div kIndexEntrySize) (dl_idx d) of
                None \<Rightarrow> d
              | Some ies \<Rightarrow>
                  let idx = fold (\<lambda>ie m. omap_put (ie_index ie) ie m) ies [];
                      d = d\<lparr>dl_index := idx\<rparr>
                  in if idx = [] then d
                     else d\<lparr>dl_first := fst (hd idx), dl_last := fst (last idx)\<rparr>)"

text \<open>The constructor, given what is on disk (\<^verbatim>\<open>open_or_create\<close>, then \<^verbatim>\<open>recover_index\<close>).\<close>

definition open_disk_log ::
  "bytes \<Rightarrow> bytes \<Rightarrow> (string \<times> int) list option \<Rightarrow> bool \<Rightarrow> (nat \<Rightarrow> nat) \<Rightarrow> DiskRaftLog" where
  "open_disk_log data idx meta batching os =
     recover_index (read_meta
       \<lparr>dl_index = [], dl_first = 0, dl_last = 0, dl_snapshot = None, dl_data = data, dl_idx = idx,
        dl_data_size = length data, dl_idx_size = length idx, dl_meta = meta, dl_dirty = 0,
        dl_batching = batching, dl_os_write = os, dl_os_writes = 0\<rparr>)"

section \<open>Reading\<close>

definition dl_term_at :: "DiskRaftLog \<Rightarrow> LogIndex \<Rightarrow> RaftTerm" where
  "dl_term_at d index =
     (let from_index = (case map_of (dl_index d) index of None \<Rightarrow> kNoTerm | Some ie \<Rightarrow> ie_term ie)
      in case dl_snapshot d of
           Some s \<Rightarrow> if index = snap_last_included_index s then snap_last_included_term s
                     else from_index
         | None \<Rightarrow> from_index)"

text \<open>An out-of-bounds read inside \<^verbatim>\<open>read_batch\<close> has no defined result; it is read as no entries.\<close>

definition read_batch :: "DiskRaftLog \<Rightarrow> nat \<Rightarrow> LogEntry list" where
  "read_batch d off = (case read_frame (dl_data d) off of None \<Rightarrow> [] | Some es \<Rightarrow> es)"

text \<open>
  The loop of \<^verbatim>\<open>get_entries\<close>: an iterator walks the index from \<open>start\<close>, one step per index
  entry, and each step reads the whole batch that entry points to.
\<close>

fun get_entries_loop ::
  "DiskRaftLog \<Rightarrow> LogIndex \<Rightarrow> LogIndex \<Rightarrow> (LogIndex \<times> IndexEntry) list \<Rightarrow> LogEntry list" where
  "get_entries_loop d start end [] = []"
| "get_entries_loop d start end ((k, ie) # rest) =
     (if end < k then []
      else filter (\<lambda>e. start \<le> le_index e \<and> le_index e \<le> end) (read_batch d (ie_offset ie))
           @ get_entries_loop d start end rest)"

definition dl_get_entries :: "DiskRaftLog \<Rightarrow> LogIndex \<Rightarrow> LogIndex \<Rightarrow> LogEntry list" where
  "dl_get_entries d start end =
     (if end < start \<or> start < dl_first d \<or> dl_last d < end then []
      else if omap_floor start (dl_index d) = None then []
      else if map_of (dl_index d) start = None then []
      else get_entries_loop d start end (omap_erase_below start (dl_index d)))"

definition dl_entry_at :: "DiskRaftLog \<Rightarrow> LogIndex \<Rightarrow> LogEntry option" where
  "dl_entry_at d index =
     (case map_of (dl_index d) index of
        None \<Rightarrow> None
      | Some ie \<Rightarrow> find (\<lambda>e. le_index e = index) (read_batch d (ie_offset ie)))"

section \<open>Truncation\<close>

definition truncate_suffix_locked :: "LogIndex \<Rightarrow> DiskRaftLog \<Rightarrow> DiskRaftLog" where
  "truncate_suffix_locked from d =
     (if from \<le> dl_first d then
        write_meta (d\<lparr>dl_index := [], dl_last := (if from > 0 then from - 1 else 0), dl_first := from,
          dl_data := ftruncate (dl_data d) 0, dl_idx := ftruncate (dl_idx d) 0,
          dl_data_size := 0, dl_idx_size := 0\<rparr>)
      else
        let idx = omap_erase_from from (dl_index d);
            off = (if idx = [] then 0
                   else ie_offset (snd (last idx)) + ie_batch_length (snd (last idx)));
            idx_off = length idx * kIndexEntrySize
        in write_meta (d\<lparr>dl_index := idx, dl_last := from - 1,
             dl_data := ftruncate (dl_data d) off, dl_data_size := off,
             dl_idx := ftruncate (dl_idx d) idx_off, dl_idx_size := idx_off\<rparr>))"

definition dl_truncate_suffix :: "DiskRaftLog \<Rightarrow> LogIndex \<Rightarrow> DiskRaftLog" where
  "dl_truncate_suffix d from = truncate_suffix_locked from d"

definition dl_truncate_prefix :: "DiskRaftLog \<Rightarrow> LogIndex \<Rightarrow> DiskRaftLog" where
  "dl_truncate_prefix d first =
     (if first \<le> dl_first d then d
      else let d = d\<lparr>dl_index := omap_erase_below first (dl_index d),
                     dl_first := max (dl_first d) first\<rparr>
           in write_meta (if dl_last d < dl_first d then d\<lparr>dl_last := dl_first d - 1\<rparr> else d))"

definition dl_apply_snapshot :: "DiskRaftLog \<Rightarrow> RaftSnapshot \<Rightarrow> DiskRaftLog" where
  "dl_apply_snapshot d s =
     (if \<not> snapshot_is_valid s then d
      else let i = snap_last_included_index s;
               d = d\<lparr>dl_index := omap_erase_upto i (dl_index d), dl_snapshot := Some s,
                     dl_first := i + 1\<rparr>;
               d = (if dl_index d = [] then d\<lparr>dl_last := i, dl_first := i + 1\<rparr> else d);
               d = write_meta d
           in if dl_index d = [] then d\<lparr>dl_data := ftruncate (dl_data d) 0, dl_data_size := 0\<rparr>
              else d)"

section \<open>Appending\<close>

definition index_records :: "LogEntry list \<Rightarrow> nat \<Rightarrow> bytes" where
  "index_records entries off =
     fold (\<lambda>e buf. write_i64_le (write_u64_le (write_i64_le buf (le_index e)) (of_nat off)) (le_term e))
       entries []"

definition append_index_file :: "LogEntry list \<Rightarrow> nat \<Rightarrow> DiskRaftLog \<Rightarrow> DiskRaftLog" where
  "append_index_file entries off d =
     (let buf = index_records entries off;
          n = min (length buf) (dl_os_write d (dl_os_writes d));
          d' = d\<lparr>dl_idx := pwrite (dl_idx d) (take n buf) (dl_idx_size d),
                 dl_os_writes := dl_os_writes d + 1\<rparr>
      in if n \<noteq> length buf then d' else d'\<lparr>dl_idx_size := dl_idx_size d + length buf\<rparr>)"

definition index_batch ::
  "LogEntry list \<Rightarrow> nat \<Rightarrow> nat \<Rightarrow> (LogIndex \<times> IndexEntry) list \<Rightarrow> (LogIndex \<times> IndexEntry) list" where
  "index_batch entries off len m =
     fold (\<lambda>e m. omap_put (le_index e)
             \<lparr>ie_index = le_index e, ie_offset = off, ie_term = le_term e, ie_batch_length = len\<rparr> m)
       entries m"

text \<open>Everything after the consistency check of \<^verbatim>\<open>append\<close>.\<close>

definition append_checked :: "DiskRaftLog \<Rightarrow> LogIndex \<Rightarrow> LogEntry list \<Rightarrow> LogIndex \<times> DiskRaftLog" where
  "append_checked d prev entries =
     (let d = (if prev < dl_last d then truncate_suffix_locked (prev + 1) d else d)
      in if length (serialize_batch entries) > kMaxBatchBytes then (kNoLogIndex, d)
         else
           let frame = make_frame entries;
               off = dl_data_size d;
               n = min (length frame) (dl_os_write d (dl_os_writes d));
               d = d\<lparr>dl_data := dl_data d @ take n frame, dl_os_writes := dl_os_writes d + 1\<rparr>
           in if n \<noteq> length frame then (kNoLogIndex, d)
              else
                let d = d\<lparr>dl_data_size := off + length frame,
                          dl_index := index_batch entries off (length frame) (dl_index d),
                          dl_first := (if dl_first d = 0 \<or> le_index (hd entries) < dl_first d
                                       then le_index (hd entries) else dl_first d),
                          dl_last := le_index (last entries)\<rparr>;
                    d = append_index_file entries off d;
                    d = d\<lparr>dl_dirty := dl_dirty d + length frame\<rparr>;
                    d = (if dl_batching d then d else flush_and_fsync d)
                in (le_index (hd entries), d))"

definition dl_append :: "DiskRaftLog \<Rightarrow> LogIndex \<Rightarrow> RaftTerm \<Rightarrow> LogEntry list \<Rightarrow> LogIndex \<times> DiskRaftLog" where
  "dl_append d prev prev_term entries =
     (if entries = [] then (dl_last d, d)
      else if prev > 0 \<and> dl_term_at d prev = kNoTerm then (kNoLogIndex, d)
      else if prev > 0 \<and> dl_term_at d prev \<noteq> prev_term then (kNoLogIndex, d)
      else append_checked d prev entries)"

text \<open>
  \<^verbatim>\<open>shutdown\<close>, with the flag \<^verbatim>\<open>running_\<close> (true once the log is shut down) passed in and returned;
  closing the descriptors leaves the files as they are.
\<close>

definition dl_shutdown :: "bool \<Rightarrow> DiskRaftLog \<Rightarrow> bool \<times> DiskRaftLog" where
  "dl_shutdown already d = (if already then (True, d) else (True, flush_and_fsync d))"

definition disk_size_bytes :: "DiskRaftLog \<Rightarrow> nat" where
  "disk_size_bytes d = dl_data_size d + dl_idx_size d"

definition disk_raft_log :: "DiskRaftLog RaftLog" where
  "disk_raft_log =
     \<lparr>first_index = dl_first, last_index = dl_last, entry_count = (\<lambda>d. length (dl_index d)),
      term_at = dl_term_at, get_entries = dl_get_entries, entry_at = dl_entry_at,
      append_log = dl_append, truncate_suffix = dl_truncate_suffix,
      truncate_prefix = dl_truncate_prefix, apply_snapshot = dl_apply_snapshot\<rparr>"

section \<open>Invariant\<close>

text \<open>The batch that an index entry points to, as the bytes in the data file say.\<close>

definition batch_at :: "bytes \<Rightarrow> IndexEntry \<Rightarrow> LogEntry list \<Rightarrow> bool" where
  "batch_at data ie es \<longleftrightarrow>
     wf_batch es \<and> numbered_from (le_index (hd es)) es \<and> ie_batch_length ie = length (make_frame es) \<and>
     take (ie_batch_length ie) (drop (ie_offset ie) data) = make_frame es"

text \<open>The indexed keys are exactly \<open>[first, last]\<close>; \<open>first = last = 0\<close> is the state a truncation from 0 leaves.\<close>

definition dl_span :: "DiskRaftLog \<Rightarrow> bool" where
  "dl_span d \<longleftrightarrow>
     (if dl_index d = [] then dl_last d = dl_first d - 1 \<and> 1 \<le> dl_first d \<or>
                              dl_first d = 0 \<and> dl_last d = 0
      else 1 \<le> dl_first d \<and> fst ` set (dl_index d) = {dl_first d .. dl_last d})"

text \<open>
  The log covers \<open>[first, last]\<close> without gaps, every index entry points to an intact frame that
  contains its entry, and frames end in index order.
\<close>

definition dl_inv :: "DiskRaftLog \<Rightarrow> bool" where
  "dl_inv d \<longleftrightarrow>
     omap_inv (dl_index d) \<and> dl_data_size d = length (dl_data d) \<and> dl_span d \<and>
     (\<forall>(k, ie) \<in> set (dl_index d). ie_index ie = k \<and>
        (\<exists>es. batch_at (dl_data d) ie es \<and> (\<exists>e \<in> set es. le_index e = k \<and> le_term e = ie_term ie))) \<and>
     (\<forall>(k, ie) \<in> set (dl_index d). \<forall>(k', ie') \<in> set (dl_index d). k \<le> k' \<longrightarrow>
        ie_offset ie + ie_batch_length ie \<le> ie_offset ie' + ie_batch_length ie') \<and>
     (\<forall>s. dl_snapshot d = Some s \<longrightarrow> snap_last_included_index s < dl_first d)"

abbreviation new_ie :: "nat \<Rightarrow> nat \<Rightarrow> LogEntry \<Rightarrow> IndexEntry" where
  "new_ie off len e \<equiv>
     \<lparr>ie_index = le_index e, ie_offset = off, ie_term = le_term e, ie_batch_length = len\<rparr>"

text \<open>The log a batch is appended to, once stale entries past \<open>prev\<close> are gone.\<close>

definition append_base :: "DiskRaftLog \<Rightarrow> LogIndex \<Rightarrow> DiskRaftLog" where
  "append_base d prev = (if prev < dl_last d then truncate_suffix_locked (prev + 1) d else d)"

text \<open>The log after the frame of \<open>es\<close> went to disk.\<close>

definition appended :: "DiskRaftLog \<Rightarrow> LogEntry list \<Rightarrow> DiskRaftLog \<Rightarrow> bool" where
  "appended d es d' \<longleftrightarrow>
     dl_data d' = dl_data d @ make_frame es \<and> dl_data_size d' = dl_data_size d + length (make_frame es) \<and>
     dl_index d' = index_batch es (dl_data_size d) (length (make_frame es)) (dl_index d) \<and>
     dl_first d' = (if dl_first d = 0 \<or> le_index (hd es) < dl_first d then le_index (hd es) else dl_first d) \<and>
     dl_last d' = le_index (last es) \<and> dl_snapshot d' = dl_snapshot d"

section \<open>Frames of the index and the data file\<close>

lemma write_meta_frame [simp]:
  "dl_index (write_meta d) = dl_index d" "dl_first (write_meta d) = dl_first d"
  "dl_last (write_meta d) = dl_last d" "dl_snapshot (write_meta d) = dl_snapshot d"
  "dl_data (write_meta d) = dl_data d" "dl_data_size (write_meta d) = dl_data_size d"
  "dl_idx (write_meta d) = dl_idx d" "dl_idx_size (write_meta d) = dl_idx_size d"
  "dl_batching (write_meta d) = dl_batching d"
  by (simp_all add: write_meta_def Let_def)

lemma append_index_file_frame [simp]:
  "dl_index (append_index_file es off d) = dl_index d" "dl_first (append_index_file es off d) = dl_first d"
  "dl_last (append_index_file es off d) = dl_last d"
  "dl_snapshot (append_index_file es off d) = dl_snapshot d"
  "dl_data (append_index_file es off d) = dl_data d"
  "dl_data_size (append_index_file es off d) = dl_data_size d"
  "dl_batching (append_index_file es off d) = dl_batching d"
  by (simp_all add: append_index_file_def Let_def)

text \<open>The invariant and the readers look at six fields only.\<close>

lemma dl_inv_cong:
  assumes "dl_index d' = dl_index d" "dl_first d' = dl_first d" "dl_last d' = dl_last d"
    "dl_snapshot d' = dl_snapshot d" "dl_data d' = dl_data d" "dl_data_size d' = dl_data_size d"
  shows "dl_inv d' = dl_inv d" "dl_term_at d' = dl_term_at d" "dl_entry_at d' = dl_entry_at d"
  unfolding dl_inv_def dl_span_def dl_term_at_def [abs_def] dl_entry_at_def [abs_def] read_batch_def [abs_def] assms
  by (rule refl)+

lemma ftruncate_take: "n \<le> length f \<Longrightarrow> ftruncate f n = take n f"
  by (simp add: ftruncate_def)

lemma batch_at_end: "batch_at data ie es \<Longrightarrow> ie_offset ie + ie_batch_length ie \<le> length data"
proof -
  assume b: "batch_at data ie es"
  then have "length (take (ie_batch_length ie) (drop (ie_offset ie) data)) = ie_batch_length ie"
    unfolding batch_at_def by metis
  moreover from b have "0 < ie_batch_length ie" by (simp add: batch_at_def length_make_frame)
  ultimately show ?thesis by auto
qed

lemma batch_at_take:
  "batch_at data ie es \<Longrightarrow> ie_offset ie + ie_batch_length ie \<le> n \<Longrightarrow> batch_at (take n data) ie es"
  by (auto simp: batch_at_def drop_take min_def)

lemma batch_at_append: "batch_at data ie es \<Longrightarrow> batch_at (data @ x) ie es"
  using batch_at_end [of data ie es] by (auto simp: batch_at_def)

lemma read_batch_at:
  assumes "batch_at (dl_data d) ie es"
  shows "read_batch d (ie_offset ie) = es"
proof -
  let ?o = "ie_offset ie"
  have "dl_data d = take ?o (dl_data d) @ make_frame es @ drop (ie_batch_length ie) (drop ?o (dl_data d))"
    using assms unfolding batch_at_def by (metis append_take_drop_id)
  moreover have "length (take ?o (dl_data d)) = ?o"
    using batch_at_end [OF assms] by simp
  ultimately have "read_frame (dl_data d) ?o = Some es"
    using read_frame_make_frame [of es "take ?o (dl_data d)"] assms by (metis batch_at_def)
  then show ?thesis by (simp add: read_batch_def)
qed

lemma find_numbered:
  assumes "distinct (map le_index es)" "e \<in> set es"
  shows "find (\<lambda>x. le_index x = le_index e) es = Some e"
  using assms by (induction es) auto

lemma entry_at_batch:
  assumes "map_of (dl_index d) k = Some ie" "batch_at (dl_data d) ie es" "e \<in> set es" "le_index e = k"
  shows "dl_entry_at d k = Some e"
  using assms find_numbered [of es e] numbered_from_distinct
  by (auto simp: dl_entry_at_def read_batch_at batch_at_def)

lemma dl_inv_index:
  assumes "dl_inv d"
  shows "map_of (dl_index d) i \<noteq> None \<longleftrightarrow> 0 < i \<and> dl_first d \<le> i \<and> i \<le> dl_last d"
  using assms unfolding dl_inv_def dl_span_def
  by (auto simp: map_of_eq_None_iff split: if_splits)

lemma dl_inv_entry:
  assumes "dl_inv d" "map_of (dl_index d) k = Some ie"
  obtains es e where "batch_at (dl_data d) ie es" "e \<in> set es" "le_index e = k"
    "le_term e = ie_term ie" "dl_entry_at d k = Some e"
proof -
  from assms have "(k, ie) \<in> set (dl_index d)" by (simp add: map_of_SomeD)
  with assms(1) obtain es e where "batch_at (dl_data d) ie es" "e \<in> set es" "le_index e = k"
    "le_term e = ie_term ie" unfolding dl_inv_def by blast
  with that entry_at_batch [OF assms(2)] show ?thesis by blast
qed

lemma dl_term_at_entry:
  assumes "dl_inv d" "0 < i" "dl_first d \<le> i" "i \<le> dl_last d"
  shows "\<exists>e. dl_entry_at d i = Some e \<and> le_index e = i \<and> le_term e = dl_term_at d i"
proof -
  obtain ie where ie: "map_of (dl_index d) i = Some ie"
    using dl_inv_index [OF assms(1), of i] assms by auto
  moreover have "\<And>s. dl_snapshot d = Some s \<Longrightarrow> snap_last_included_index s < i"
    using assms unfolding dl_inv_def by (auto split: option.splits)
  ultimately have "dl_term_at d i = ie_term ie"
    by (auto simp: dl_term_at_def Let_def split: option.split)
  then show ?thesis using dl_inv_entry [OF assms(1) ie] by metis
qed

lemma dl_inv_snapshot: "dl_inv d \<Longrightarrow> dl_snapshot d = Some s \<Longrightarrow> snap_last_included_index s < dl_first d"
  unfolding dl_inv_def by blast

lemma dl_inv_nonempty:
  "dl_inv d \<Longrightarrow> dl_index d \<noteq> [] \<Longrightarrow> 1 \<le> dl_first d \<and> fst ` set (dl_index d) = {dl_first d .. dl_last d}"
  unfolding dl_inv_def dl_span_def by auto

lemma dl_invI:
  assumes "omap_inv (dl_index d)" "dl_data_size d = length (dl_data d)" "dl_span d"
    and "\<And>k ie. (k, ie) \<in> set (dl_index d) \<Longrightarrow> ie_index ie = k \<and>
        (\<exists>es. batch_at (dl_data d) ie es \<and> (\<exists>e \<in> set es. le_index e = k \<and> le_term e = ie_term ie))"
    and "\<And>k ie k' ie'. (k, ie) \<in> set (dl_index d) \<Longrightarrow> (k', ie') \<in> set (dl_index d) \<Longrightarrow> k \<le> k' \<Longrightarrow>
        ie_offset ie + ie_batch_length ie \<le> ie_offset ie' + ie_batch_length ie'"
    and "\<And>s. dl_snapshot d = Some s \<Longrightarrow> snap_last_included_index s < dl_first d"
  shows "dl_inv d"
  unfolding dl_inv_def using assms by blast

lemma dl_inv_batches:
  assumes "dl_inv d" "(k, ie) \<in> set (dl_index d)"
  obtains es e where "ie_index ie = k" "batch_at (dl_data d) ie es" "e \<in> set es" "le_index e = k"
    "le_term e = ie_term ie"
  using assms unfolding dl_inv_def by blast

lemma dl_inv_ends:
  "dl_inv d \<Longrightarrow> (k, ie) \<in> set (dl_index d) \<Longrightarrow> (k', ie') \<in> set (dl_index d) \<Longrightarrow> k \<le> k' \<Longrightarrow>
   ie_offset ie + ie_batch_length ie \<le> ie_offset ie' + ie_batch_length ie'"
  unfolding dl_inv_def by blast

text \<open>Entries read the same when the index entry and the frame behind it are the same.\<close>

lemma dl_entry_at_eq:
  assumes "dl_inv d" "map_of (dl_index d') i = map_of (dl_index d) i"
    and "\<And>ie es. map_of (dl_index d) i = Some ie \<Longrightarrow> batch_at (dl_data d) ie es \<Longrightarrow> batch_at (dl_data d') ie es"
  shows "dl_entry_at d' i = dl_entry_at d i"
proof (cases "map_of (dl_index d) i")
  case None
  with assms(2) show ?thesis by (simp add: dl_entry_at_def)
next
  case (Some ie)
  then obtain es e where b: "batch_at (dl_data d) ie es" "e \<in> set es" "le_index e = i"
    "dl_entry_at d i = Some e"
    using dl_inv_entry [OF assms(1) Some] by metis
  with assms(2,3) Some show ?thesis
    using entry_at_batch [of d' i ie es e] by simp
qed

lemma truncate_suffix_index:
  assumes inv: "dl_inv d" and rng: "0 < from" "dl_first d \<le> from" "from \<le> dl_last d + 1"
  shows "dl_index (truncate_suffix_locked from d) = omap_erase_from from (dl_index d)"
    and "dl_first (truncate_suffix_locked from d) = dl_first d"
    and "dl_last (truncate_suffix_locked from d) = from - 1"
    and "dl_snapshot (truncate_suffix_locked from d) = dl_snapshot d"
proof -
  have "omap_erase_from from (dl_index d) = []" if "from \<le> dl_first d"
  proof (cases "dl_index d")
    case (Cons p m)
    then have "fst p \<in> {dl_first d .. dl_last d}"
      using dl_inv_nonempty [OF inv] by force
    with that Cons show ?thesis by (simp add: omap_erase_from_def)
  qed (simp add: omap_erase_from_def)
  then show "dl_index (truncate_suffix_locked from d) = omap_erase_from from (dl_index d)"
    "dl_first (truncate_suffix_locked from d) = dl_first d"
    "dl_last (truncate_suffix_locked from d) = from - 1"
    "dl_snapshot (truncate_suffix_locked from d) = dl_snapshot d"
    using rng by (auto simp: truncate_suffix_locked_def Let_def)
qed

lemma truncate_suffix_data:
  assumes inv: "dl_inv d" and rng: "0 < from" "dl_first d \<le> from" "from \<le> dl_last d + 1"
    and mem: "(k, ie) \<in> set (omap_erase_from from (dl_index d))"
    and b: "batch_at (dl_data d) ie es"
  shows "batch_at (dl_data (truncate_suffix_locked from d)) ie es"
proof -
  let ?idx = "omap_erase_from from (dl_index d)"
  have oi: "omap_inv (dl_index d)" using inv by (simp add: dl_inv_def)
  have ne: "?idx \<noteq> []" using mem by auto
  have sub: "set ?idx \<subseteq> set (dl_index d)" using set_omap_erase_from [OF oi] by auto
  obtain k' ie' where l: "last ?idx = (k', ie')" by fastforce
  then have l': "(k', ie') \<in> set ?idx" using ne by (metis last_in_set)
  have "k \<le> k'"
    using omap_inv_le_last [OF omap_inv_erase(3) [OF oi, of "from"]] mem l by force
  then have "ie_offset ie + ie_batch_length ie \<le> ie_offset ie' + ie_batch_length ie'"
    using dl_inv_ends [OF inv] mem l' sub by blast
  moreover have "ie_offset ie' + ie_batch_length ie' \<le> length (dl_data d)"
    using dl_inv_batches [OF inv, of k' ie'] l' sub batch_at_end by (metis subsetD)
  moreover have "\<not> from \<le> dl_first d"
  proof -
    have "fst (k, ie) \<in> {dl_first d .. dl_last d}" "k < from"
      using dl_inv_nonempty [OF inv] mem sub set_omap_erase_from [OF oi] by force+
    then show ?thesis by auto
  qed
  ultimately show ?thesis
    using b ne l by (simp add: truncate_suffix_locked_def Let_def ftruncate_take batch_at_take)
qed

lemma length_ftruncate [simp]: "length (ftruncate f n) = n"
  by (simp add: ftruncate_def)

lemma truncate_suffix_inv:
  assumes inv: "dl_inv d" and rng: "0 < from" "dl_first d \<le> from" "from \<le> dl_last d + 1"
  shows "dl_inv (truncate_suffix_locked from d)" (is "dl_inv ?d")
proof (rule dl_invI)
  note idx = truncate_suffix_index [OF inv rng]
  have oi: "omap_inv (dl_index d)" using inv by (simp add: dl_inv_def)
  have set: "set (dl_index ?d) = {p \<in> set (dl_index d). fst p < from}"
    using set_omap_erase_from [OF oi] idx by simp
  show "omap_inv (dl_index ?d)" using idx oi omap_inv_erase(3) by metis
  show "dl_data_size ?d = length (dl_data ?d)"
    by (simp add: truncate_suffix_locked_def Let_def)
  show "dl_span ?d"
  proof (cases "dl_index d = []")
    case True
    then show ?thesis
      using inv rng idx by (auto simp: dl_inv_def dl_span_def omap_erase_from_def)
  next
    case False
    note ne = dl_inv_nonempty [OF inv False]
    then have "fst ` set (dl_index ?d) = {dl_first d .. from - 1}"
      using rng by (force simp: set)
    with ne rng idx show ?thesis
      unfolding dl_span_def by (cases "dl_index ?d = []") auto
  qed
  show "dl_snapshot ?d = Some s \<Longrightarrow> snap_last_included_index s < dl_first ?d" for s
    using dl_inv_snapshot [OF inv] idx by simp
  show "ie_index ie = k \<and> (\<exists>es. batch_at (dl_data ?d) ie es \<and>
      (\<exists>e \<in> set es. le_index e = k \<and> le_term e = ie_term ie))"
    if mem: "(k, ie) \<in> set (dl_index ?d)" for k ie
  proof -
    obtain es e where "ie_index ie = k" "batch_at (dl_data d) ie es" "e \<in> set es" "le_index e = k"
      "le_term e = ie_term ie"
      using dl_inv_batches [OF inv, of k ie] mem set by auto
    then show ?thesis
      using truncate_suffix_data [OF inv rng] mem idx by metis
  qed
  show "ie_offset ie + ie_batch_length ie \<le> ie_offset ie' + ie_batch_length ie'"
    if "(k, ie) \<in> set (dl_index ?d)" "(k', ie') \<in> set (dl_index ?d)" "k \<le> k'" for k k' ie ie'
    using that set dl_inv_ends [OF inv] by blast
qed

lemma dl_term_at_index:
  "(\<And>s. dl_snapshot d = Some s \<Longrightarrow> snap_last_included_index s \<noteq> i) \<Longrightarrow>
   dl_term_at d i = (case map_of (dl_index d) i of None \<Rightarrow> kNoTerm | Some ie \<Rightarrow> ie_term ie)"
  by (auto simp: dl_term_at_def Let_def split: option.split)

lemma truncate_suffix_reads:
  assumes inv: "dl_inv d" and rng: "0 < from" "dl_first d \<le> from" "from \<le> dl_last d + 1"
  shows "dl_term_at (truncate_suffix_locked from d) i = (if i < from then dl_term_at d i else kNoTerm)"
    and "dl_entry_at (truncate_suffix_locked from d) i = (if i < from then dl_entry_at d i else None)"
proof -
  note idx = truncate_suffix_index [OF inv rng]
  have oi: "omap_inv (dl_index d)" using inv by (simp add: dl_inv_def)
  have find: "map_of (dl_index (truncate_suffix_locked from d)) i
      = (if i < from then map_of (dl_index d) i else None)"
    using idx oi by (simp add: map_of_omap_erase)
  show "dl_term_at (truncate_suffix_locked from d) i = (if i < from then dl_term_at d i else kNoTerm)"
    using idx find dl_inv_snapshot [OF inv] rng
    by (auto simp: dl_term_at_def Let_def kNoTerm_def split: option.splits) 
  show "dl_entry_at (truncate_suffix_locked from d) i = (if i < from then dl_entry_at d i else None)"
  proof (cases "i < from")
    case True
    have "batch_at (dl_data (truncate_suffix_locked from d)) ie es"
      if "map_of (dl_index d) i = Some ie" "batch_at (dl_data d) ie es" for ie es
    proof -
      have "(i, ie) \<in> set (omap_erase_from from (dl_index d))"
        using that(1) True set_omap_erase_from [OF oi] by (simp add: map_of_SomeD)
      then show ?thesis using truncate_suffix_data [OF inv rng _ that(2)] by blast
    qed
    then have "dl_entry_at (truncate_suffix_locked from d) i = dl_entry_at d i"
      using find True by (intro dl_entry_at_eq [OF inv]) simp_all
    with True show ?thesis by simp
  qed (simp add: dl_entry_at_def find)
qed

section \<open>Appending keeps the invariant\<close>

lemma index_batch_inv: "omap_inv m \<Longrightarrow> omap_inv (index_batch es off len m)"
  unfolding index_batch_def by (induction es arbitrary: m) (simp_all add: omap_inv_put)

lemma map_of_index_batch:
  assumes "omap_inv m" "distinct (map le_index es)"
  shows "map_of (index_batch es off len m) k =
    (case find (\<lambda>e. le_index e = k) es of Some e \<Rightarrow> Some (new_ie off len e) | None \<Rightarrow> map_of m k)"
  using assms
proof (induction es arbitrary: m)
  case (Cons e es)
  let ?m = "omap_put (le_index e) (new_ie off len e) m"
  have "find (\<lambda>x. le_index x = le_index e) es = None"
    using Cons.prems(2) by (simp add: find_None_iff) (metis image_eqI)
  moreover have "map_of (index_batch (e # es) off len m) k
      = (case find (\<lambda>e. le_index e = k) es of Some e \<Rightarrow> Some (new_ie off len e) | None \<Rightarrow> map_of ?m k)"
    using Cons.IH [of ?m] Cons.prems by (simp add: index_batch_def omap_inv_put)
  ultimately show ?case
    using Cons.prems(1) by (auto simp: map_of_omap_put split: option.split)
qed (simp add: index_batch_def)

lemma find_numbered_from:
  assumes "numbered_from i es"
  shows "find (\<lambda>e. le_index e = k) es =
    (if i \<le> k \<and> k < i + int (length es) then Some (es ! nat (k - i)) else None)"
proof (cases "i \<le> k \<and> k < i + int (length es)")
  case True
  then have n: "nat (k - i) < length es" by auto
  then have "le_index (es ! nat (k - i)) = k"
    using numbered_from_index [OF assms n] True by simp
  with n show ?thesis
    using find_numbered [OF numbered_from_distinct [OF assms], of "es ! nat (k - i)"] True by simp
next
  case False
  then show ?thesis using numbered_from_set [OF assms] by (auto simp: find_None_iff)
qed

lemma map_of_index_numbered:
  assumes "omap_inv m" "numbered_from i es"
  shows "map_of (index_batch es off len m) k =
    (if i \<le> k \<and> k < i + int (length es) then Some (new_ie off len (es ! nat (k - i))) else map_of m k)"
  using map_of_index_batch [OF assms(1) numbered_from_distinct [OF assms(2)]]
    find_numbered_from [OF assms(2)] by simp

lemma keys_index_numbered:
  assumes "omap_inv m" "numbered_from i es"
  shows "fst ` set (index_batch es off len m) = fst ` set m \<union> {i ..< i + int (length es)}"
proof -
  have "fst ` set (index_batch es off len m) = fst ` set m \<union> le_index ` set es"
    unfolding index_batch_def by (induction es arbitrary: m) (simp_all add: keys_omap_put)
  moreover have "le_index ` set es = {i ..< i + int (length es)}"
  proof -
    have "k \<in> le_index ` set es" if "i \<le> k" "k < i + int (length es)" for k
    proof -
      from that have n: "nat (k - i) < length es" by auto
      then have "le_index (es ! nat (k - i)) = k"
        using numbered_from_index [OF assms(2) n] that by simp
      with n show ?thesis by (metis image_eqI nth_mem)
    qed
    then show ?thesis using numbered_from_set [OF assms(2)] by force
  qed
  ultimately show ?thesis by simp
qed

lemma append_base_ok:
  assumes inv: "dl_inv d" and rng: "0 \<le> prev" "dl_first d \<le> prev + 1" "prev \<le> dl_last d"
  shows "dl_inv (append_base d prev)" "dl_last (append_base d prev) = prev"
    "dl_first (append_base d prev) = dl_first d" "dl_snapshot (append_base d prev) = dl_snapshot d"
    and "dl_term_at (append_base d prev) i = (if i \<le> prev then dl_term_at d i else kNoTerm)"
    and "dl_entry_at (append_base d prev) i = (if i \<le> prev then dl_entry_at d i else None)"
proof -
  have t: "0 < prev + 1" "prev < dl_last d \<Longrightarrow> prev + 1 \<le> dl_last d + 1" using rng by auto
  show "dl_inv (append_base d prev)" "dl_last (append_base d prev) = prev"
    "dl_first (append_base d prev) = dl_first d" "dl_snapshot (append_base d prev) = dl_snapshot d"
    using truncate_suffix_inv [OF inv, of "prev + 1"] truncate_suffix_index [OF inv, of "prev + 1"] inv rng
    by (auto simp: append_base_def)
  have above: "map_of (dl_index d) i = None" if "dl_last d < i"
    using dl_inv_index [OF inv, of i] that by auto
  then have "dl_term_at d i = kNoTerm" if "dl_last d < i"
    using dl_inv_snapshot [OF inv] rng that by (subst dl_term_at_index) force+
  then show "dl_term_at (append_base d prev) i = (if i \<le> prev then dl_term_at d i else kNoTerm)"
    using truncate_suffix_reads(1) [OF inv, of "prev + 1" i] rng by (auto simp: append_base_def)
  show "dl_entry_at (append_base d prev) i = (if i \<le> prev then dl_entry_at d i else None)"
    using truncate_suffix_reads(2) [OF inv, of "prev + 1" i] rng above
    by (auto simp: append_base_def dl_entry_at_def)
qed

lemma append_checked_appended:
  assumes "append_checked d prev es = (r, d')" "r \<noteq> kNoLogIndex"
  shows "appended (append_base d prev) es d'" "r = le_index (hd es)"
  using assms
  by (auto simp: append_checked_def appended_def append_base_def [symmetric] Let_def min_def
      flush_and_fsync_def split: if_splits)

lemma appended_batch:
  assumes "appended d es d'" "dl_inv d" "wf_batch es" "numbered_from i es" "es \<noteq> []"
  shows "batch_at (dl_data d') (new_ie (dl_data_size d) (length (make_frame es)) e) es"
  using assms by (cases es) (auto simp: batch_at_def appended_def dl_inv_def)

lemma dl_inv_first_last:
  assumes "dl_inv d"
  shows "dl_first d \<le> dl_last d + 1"
proof (cases "dl_index d = []")
  case True
  with assms show ?thesis by (auto simp: dl_inv_def dl_span_def)
next
  case False
  then have "{dl_first d .. dl_last d} \<noteq> {}"
    using dl_inv_nonempty [OF assms] by (metis image_is_empty set_empty)
  then show ?thesis by simp
qed

lemma dl_inv_last_nonneg: "dl_inv d \<Longrightarrow> 0 \<le> dl_last d"
  using dl_inv_first_last [of d] unfolding dl_inv_def dl_span_def by (auto split: if_splits)

lemma appended_mem:
  assumes idx: "dl_index d' = index_batch es off len (dl_index d)"
    and oi: "omap_inv (dl_index d)" and num: "numbered_from i es" and mem: "(k, ie) \<in> set (dl_index d')"
  obtains (old) "(k, ie) \<in> set (dl_index d)"
  | (new) e where "e \<in> set es" "le_index e = k" "ie = new_ie off len e" "i \<le> k"
proof -
  have find: "map_of (dl_index d') k = Some ie"
    using mem idx oi by (simp add: index_batch_inv omap_inv_distinct)
  note m = map_of_index_numbered [OF oi num, of off len k]
  show thesis
  proof (cases "i \<le> k \<and> k < i + int (length es)")
    case True
    define e where "e = es ! nat (k - i)"
    have n: "nat (k - i) < length es" using True by auto
    have "e \<in> set es" "le_index e = k"
      using numbered_from_index [OF num n] n True by (simp_all add: e_def)
    moreover have "ie = new_ie off len e"
      using find m True by (simp add: idx e_def)
    ultimately show thesis using new True by blast
  next
    case False
    then have "map_of (dl_index d) k = Some ie" using find m by (auto simp: idx)
    then show thesis by (rule old [OF map_of_SomeD])
  qed
qed

lemma appended_fields:
  assumes app: "appended d es d'" and inv: "dl_inv d" and ne: "es \<noteq> []"
    and num: "numbered_from (dl_last d + 1) es"
  shows "dl_last d' = dl_last d + int (length es)"
    and "dl_first d' = (if dl_first d = 0 then 1 else dl_first d)"
proof -
  have hd: "le_index (hd es) = dl_last d + 1" using num ne by (cases es) auto
  then show "dl_last d' = dl_last d + int (length es)"
    using app numbered_from_last [OF num ne] by (simp add: appended_def)
  show "dl_first d' = (if dl_first d = 0 then 1 else dl_first d)"
    using app hd inv dl_inv_first_last [OF inv] by (auto simp: appended_def dl_inv_def dl_span_def split: if_splits)
qed

lemma appended_inv:
  assumes app: "appended d es d'" and inv: "dl_inv d" and wf: "wf_batch es" and ne: "es \<noteq> []"
    and num: "numbered_from (dl_last d + 1) es"
  shows "dl_inv d'"
proof (rule dl_invI)
  let ?len = "length (make_frame es)"
  have oi: "omap_inv (dl_index d)" using inv by (simp add: dl_inv_def)
  have data: "dl_data d' = dl_data d @ make_frame es" "dl_data_size d = length (dl_data d)"
    and idx: "dl_index d' = index_batch es (dl_data_size d) ?len (dl_index d)"
    and snap: "dl_snapshot d' = dl_snapshot d"
    using app inv by (auto simp: appended_def dl_inv_def)
  note fields = appended_fields [OF app inv ne num]
  note mem = appended_mem [OF idx oi num]
  show "omap_inv (dl_index d')" using idx oi by (simp add: index_batch_inv)
  show "dl_data_size d' = length (dl_data d')" using app data by (simp add: appended_def)
  show "dl_span d'"
    using inv fields ne keys_index_numbered [OF oi num, of "dl_data_size d" ?len] dl_inv_first_last [OF inv]
    unfolding dl_inv_def dl_span_def idx by (cases es) (auto split: if_splits)
  show "dl_snapshot d' = Some s \<Longrightarrow> snap_last_included_index s < dl_first d'" for s
    using dl_inv_snapshot [OF inv] snap fields by (auto split: if_splits)
  show "ie_index ie = k \<and> (\<exists>es. batch_at (dl_data d') ie es \<and>
      (\<exists>e \<in> set es. le_index e = k \<and> le_term e = ie_term ie))"
    if m: "(k, ie) \<in> set (dl_index d')" for k ie
    using m
  proof (rule mem)
    assume "(k, ie) \<in> set (dl_index d)"
    then show ?thesis using dl_inv_batches [OF inv] batch_at_append data(1) by metis
  next
    fix e assume "e \<in> set es" "le_index e = k" "ie = new_ie (dl_data_size d) ?len e"
    then show ?thesis
      using appended_batch [OF app inv wf num ne, of e] by (intro conjI exI [of _ es]) auto
  qed
  have old: "ie_offset ie + ie_batch_length ie \<le> length (dl_data d)" "k \<le> dl_last d"
    if m: "(k, ie) \<in> set (dl_index d)" for k ie
  proof -
    obtain es where "batch_at (dl_data d) ie es" using dl_inv_batches [OF inv m] by blast
    then show "ie_offset ie + ie_batch_length ie \<le> length (dl_data d)" by (rule batch_at_end)
    show "k \<le> dl_last d" using dl_inv_nonempty [OF inv] m by force
  qed
  show "ie_offset ie + ie_batch_length ie \<le> ie_offset ie' + ie_batch_length ie'"
    if "(k, ie) \<in> set (dl_index d')" "(k', ie') \<in> set (dl_index d')" "k \<le> k'" for k k' ie ie'
    using that(1)
  proof (rule mem)
    assume 1: "(k, ie) \<in> set (dl_index d)"
    from that(2) show ?thesis
    proof (rule mem)
      assume "(k', ie') \<in> set (dl_index d)"
      then show ?thesis using dl_inv_ends [OF inv 1] that(3) by blast
    qed (use old(1) [OF 1] data(2) in simp)
  next
    fix e assume 1: "e \<in> set es" "le_index e = k" "ie = new_ie (dl_data_size d) ?len e" "dl_last d + 1 \<le> k"
    from that(2) show ?thesis
    proof (rule mem)
      assume "(k', ie') \<in> set (dl_index d)"
      from old(2) [OF this] 1(4) that(3) show ?thesis by simp
    qed (use 1 in simp)
  qed
qed

lemma appended_reads:
  assumes app: "appended d es d'" and inv: "dl_inv d" and wf: "wf_batch es" and ne: "es \<noteq> []"
    and num: "numbered_from (dl_last d + 1) es"
  shows "dl_term_at d' i = (if dl_last d < i \<and> i \<le> dl_last d + int (length es)
           then le_term (es ! nat (i - dl_last d - 1)) else dl_term_at d i)" (is ?T)
    and "dl_entry_at d' i = (if dl_last d < i \<and> i \<le> dl_last d + int (length es)
           then Some (es ! nat (i - dl_last d - 1)) else dl_entry_at d i)" (is ?E)
proof -
  let ?len = "length (make_frame es)" and ?e = "es ! nat (i - dl_last d - 1)"
  have oi: "omap_inv (dl_index d)" using inv by (simp add: dl_inv_def)
  have find: "map_of (dl_index d') i = (if dl_last d < i \<and> i \<le> dl_last d + int (length es)
      then Some (new_ie (dl_data_size d) ?len ?e) else map_of (dl_index d) i)"
    using app map_of_index_numbered [OF oi num, of "dl_data_size d" ?len i]
    by (auto simp: appended_def algebra_simps)
  have new: "?e \<in> set es" "le_index ?e = i" if "dl_last d < i" "i \<le> dl_last d + int (length es)"
    using that numbered_from_index [OF num, of "nat (i - dl_last d - 1)"] by auto
  have snap: "dl_snapshot d' = dl_snapshot d" using app by (simp add: appended_def)
  moreover have "snap_last_included_index s \<noteq> i" if "dl_snapshot d = Some s" "dl_last d < i" for s
    using dl_inv_snapshot [OF inv that(1)] dl_inv_first_last [OF inv] that by simp
  ultimately show ?T
    using find by (auto simp: dl_term_at_def Let_def split: option.split)
  show ?E
  proof (cases "dl_last d < i \<and> i \<le> dl_last d + int (length es)")
    case True
    then show ?thesis
      using entry_at_batch [of d' i _ es ?e] find new appended_batch [OF app inv wf num ne, of ?e] by simp
  next
    case False
    have "dl_entry_at d' i = dl_entry_at d i"
      by (rule dl_entry_at_eq [OF inv]) (use find False app batch_at_append in \<open>auto simp: appended_def\<close>)
    then show ?thesis by (simp only: False if_False)
  qed
qed

section \<open>Prefix truncation, snapshots, range reads\<close>

lemma dl_append_ok:
  assumes inv: "dl_inv d" and rng: "0 \<le> prev" "dl_first d \<le> prev + 1"
    and es: "wf_batch es" "es \<noteq> []" "numbered_from (prev + 1) es"
    and app: "dl_append d prev t es = (r, d')" "r \<noteq> kNoLogIndex"
  shows "prev \<le> dl_last d" and "appended (append_base d prev) es d'" and "r = prev + 1"
proof -
  have checked: "append_checked d prev es = (r, d')" and found: "prev > 0 \<Longrightarrow> dl_term_at d prev \<noteq> kNoTerm"
    using app es(2) by (auto simp: dl_append_def split: if_splits)
  show "appended (append_base d prev) es d'" and "r = prev + 1"
    using append_checked_appended [OF checked app(2)] es(2,3) by (cases es; simp)+
  show "prev \<le> dl_last d"
  proof (rule ccontr)
    assume "\<not> prev \<le> dl_last d"
    moreover from this have "map_of (dl_index d) prev = None"
      using dl_inv_index [OF inv, of prev] by auto
    moreover have "\<And>s. dl_snapshot d = Some s \<Longrightarrow> snap_last_included_index s < prev"
      using dl_inv_snapshot [OF inv] dl_inv_first_last [OF inv] calculation(1) by fastforce
    moreover have "0 < prev"
      using calculation(1) inv rng(1) dl_inv_last_nonneg by fastforce
    ultimately show False
      using found by (subst (asm) dl_term_at_index) force+
  qed
qed

lemma keys_nonempty: "fst ` set m = {a .. b :: int} \<Longrightarrow> m \<noteq> [] \<Longrightarrow> a \<le> b"
  by (metis atLeastatMost_empty_iff image_is_empty set_empty)

lemma read_batch_cong: "dl_data d' = dl_data d \<Longrightarrow> read_batch d' = read_batch d"
  by (simp add: read_batch_def fun_eq_iff)

text \<open>Dropping index entries from the front keeps everything about the rest.\<close>

lemma dl_inv_drop_front:
  assumes inv: "dl_inv d" and "omap_inv (dl_index d')"
    and set: "set (dl_index d') = {p \<in> set (dl_index d). dl_first d' \<le> fst p}"
    and data: "dl_data d' = dl_data d" "dl_data_size d' = dl_data_size d"
    and "dl_first d \<le> dl_first d'" "1 \<le> dl_first d'" "dl_last d' = max (dl_first d' - 1) (dl_last d)"
    and "\<And>s. dl_snapshot d' = Some s \<Longrightarrow> snap_last_included_index s < dl_first d'"
  shows "dl_inv d'"
proof (rule dl_invI)
  show "dl_span d'"
  proof (cases "dl_index d = []")
    case True
    then have "dl_index d' = []" using set by auto
    with True inv assms(6-8) show ?thesis by (auto simp: dl_inv_def dl_span_def)
  next
    case False
    then have keys: "fst ` set (dl_index d') = {dl_first d' .. dl_last d}"
      using dl_inv_nonempty [OF inv] assms(6) unfolding set by force
    show ?thesis
    proof (cases "dl_index d' = []")
      case True
      then have "{dl_first d' .. dl_last d} = {}" using keys by simp
      with True assms(7,8) show ?thesis by (simp add: dl_span_def)
    next
      case False
      then have "dl_first d' \<le> dl_last d" by (rule keys_nonempty [OF keys])
      with False keys assms(7,8) show ?thesis by (simp add: dl_span_def max_def)
    qed
  qed
  show "dl_data_size d' = length (dl_data d')" using inv data by (simp add: dl_inv_def)
  show "ie_index ie = k \<and> (\<exists>es. batch_at (dl_data d') ie es \<and>
      (\<exists>e \<in> set es. le_index e = k \<and> le_term e = ie_term ie))" if "(k, ie) \<in> set (dl_index d')" for k ie
  proof -
    have "(k, ie) \<in> set (dl_index d)" using that set by simp
    then show ?thesis using dl_inv_batches [OF inv] data by metis
  qed
  show "ie_offset ie + ie_batch_length ie \<le> ie_offset ie' + ie_batch_length ie'"
    if "(k, ie) \<in> set (dl_index d')" "(k', ie') \<in> set (dl_index d')" "k \<le> k'" for k k' ie ie'
    using dl_inv_ends [OF inv] that set by auto
qed (use assms in auto)

lemma dl_truncate_prefix_ok:
  assumes inv: "dl_inv d" and rng: "dl_first d < n" "n \<le> dl_last d + 1"
  shows "dl_inv (dl_truncate_prefix d n)" "dl_first (dl_truncate_prefix d n) = n"
    "dl_last (dl_truncate_prefix d n) = dl_last d"
    "n \<le> i \<Longrightarrow> dl_entry_at (dl_truncate_prefix d n) i = dl_entry_at d i"
    "n \<le> i \<Longrightarrow> dl_term_at (dl_truncate_prefix d n) i = dl_term_at d i"
proof -
  have oi: "omap_inv (dl_index d)" using inv by (simp add: dl_inv_def)
  have "0 \<le> dl_first d" using inv by (auto simp: dl_inv_def dl_span_def split: if_splits)
  let ?d = "dl_truncate_prefix d n"
  have f: "dl_index ?d = omap_erase_below n (dl_index d)" "dl_first ?d = n" "dl_last ?d = dl_last d"
    "dl_data ?d = dl_data d" "dl_data_size ?d = dl_data_size d" "dl_snapshot ?d = dl_snapshot d"
    using rng by (auto simp: dl_truncate_prefix_def Let_def)
  then show "dl_first ?d = n" "dl_last ?d = dl_last d" by simp_all
  show "dl_inv ?d"
    by (rule dl_inv_drop_front [OF inv])
      (use f rng oi \<open>0 \<le> dl_first d\<close> dl_inv_snapshot [OF inv] in \<open>auto simp: set_omap_erase_below
        omap_inv_erase max_def dest: dl_inv_snapshot [OF inv]\<close>)
  show "dl_entry_at ?d i = dl_entry_at d i" "dl_term_at ?d i = dl_term_at d i" if "n \<le> i"
    using f that read_batch_cong [OF f(4)]
    by (simp_all add: dl_entry_at_def dl_term_at_def map_of_omap_erase [OF oi] split: option.split)
qed

lemma dl_apply_snapshot_ok:
  assumes inv: "dl_inv d" and valid: "snapshot_is_valid s" and le: "dl_first d \<le> snap_last_included_index s + 1"
  shows "dl_inv (dl_apply_snapshot d s)" "dl_first (dl_apply_snapshot d s) = snap_last_included_index s + 1"
    "dl_last (dl_apply_snapshot d s) = max (snap_last_included_index s) (dl_last d)"
    "dl_term_at (dl_apply_snapshot d s) (snap_last_included_index s) = snap_last_included_term s"
    "snap_last_included_index s < i \<Longrightarrow> dl_entry_at (dl_apply_snapshot d s) i = dl_entry_at d i"
    "snap_last_included_index s < i \<Longrightarrow> dl_term_at (dl_apply_snapshot d s) i = dl_term_at d i"
proof -
  let ?i = "snap_last_included_index s" and ?d = "dl_apply_snapshot d s"
  have oi: "omap_inv (dl_index d)" using inv by (simp add: dl_inv_def)
  have pos: "0 < ?i" using valid by (simp add: snapshot_is_valid_def)
  have f: "dl_index ?d = omap_erase_upto ?i (dl_index d)" "dl_first ?d = ?i + 1" "dl_snapshot ?d = Some s"
    using valid by (auto simp: dl_apply_snapshot_def Let_def)
  have empty: "omap_erase_upto ?i (dl_index d) = [] \<longleftrightarrow> dl_last d \<le> ?i"
  proof (cases "dl_index d = []")
    case True
    then show ?thesis using inv le pos by (auto simp: omap_erase_upto_def dl_inv_def dl_span_def)
  next
    case False
    note keys = dl_inv_nonempty [OF inv False, THEN conjunct2]
    have "set (omap_erase_upto ?i (dl_index d)) = {} \<longleftrightarrow> (\<forall>k \<in> fst ` set (dl_index d). k \<le> ?i)"
      by (auto simp: set_omap_erase_upto [OF oi] not_less)
    then show ?thesis
      using keys keys_nonempty [OF keys False] by auto
  qed
  then show last: "dl_last ?d = max ?i (dl_last d)"
    using valid by (auto simp: dl_apply_snapshot_def Let_def)
  show "dl_first ?d = ?i + 1" by (rule f)
  have data: "dl_last d \<le> ?i \<Longrightarrow> dl_data ?d = [] \<and> dl_data_size ?d = 0"
    "\<not> dl_last d \<le> ?i \<Longrightarrow> dl_data ?d = dl_data d \<and> dl_data_size ?d = dl_data_size d"
    using valid empty by (auto simp: dl_apply_snapshot_def Let_def ftruncate_def)
  show "dl_inv ?d"
  proof (cases "dl_last d \<le> ?i")
    case True
    then have "dl_index ?d = []" using empty f by simp
    then show ?thesis
      using True f last pos data by (auto simp: dl_inv_def dl_span_def)
  next
    case False
    then show ?thesis
      by (intro dl_inv_drop_front [OF inv])
        (use f data oi le pos last in \<open>auto simp: set_omap_erase_upto omap_inv_erase\<close>)
  qed
  show "dl_term_at ?d ?i = snap_last_included_term s"
    by (simp add: dl_term_at_def f Let_def)
  have find: "?i < i \<Longrightarrow> map_of (dl_index ?d) i = map_of (dl_index d) i"
    by (simp add: f map_of_omap_erase [OF oi])
  have none: "dl_last d \<le> ?i \<Longrightarrow> ?i < i \<Longrightarrow> map_of (dl_index d) i = None"
    using dl_inv_index [OF inv, of i] by auto
  show "dl_entry_at ?d i = dl_entry_at d i" if "?i < i"
    using find [OF that] none [OF _ that] data
      read_batch_cong [of ?d d] by (cases "dl_last d \<le> ?i") (simp_all add: dl_entry_at_def split: option.split)
  show "dl_term_at ?d i = dl_term_at d i" if "?i < i"
    using find [OF that] f le that dl_inv_snapshot [OF inv]
    by (auto simp: dl_term_at_def Let_def split: option.split)
qed

lemma numbered_from_sorted: "numbered_from i es \<Longrightarrow> sorted_wrt (\<lambda>a b. le_index a < le_index b) es"
  by (induction es arbitrary: i) (force dest: numbered_from_set)+

lemma sorted_wrt_last: "sorted_wrt (\<lambda>a b. f a < (f b :: int)) xs \<Longrightarrow> x \<in> set xs \<Longrightarrow> f x \<le> f (last xs)"
proof (induction xs rule: rev_induct)
  case (snoc y xs)
  then show ?case by (auto simp: sorted_wrt_append)
qed simp

text \<open>The part of a batch inside a range that ends at one of its entries ends with that entry.\<close>

lemma batch_range_last:
  assumes "numbered_from i es" "e \<in> set es" "a \<le> le_index e"
  defines "xs \<equiv> filter (\<lambda>x. a \<le> le_index x \<and> le_index x \<le> le_index e) es"
  shows "xs \<noteq> []" "le_index (last xs) = le_index e"
proof -
  have e: "e \<in> set xs" using assms by simp
  then show ne: "xs \<noteq> []" by auto
  have "sorted_wrt (\<lambda>a b. le_index a < le_index b) xs"
    unfolding xs_def by (rule sorted_wrt_filter [OF numbered_from_sorted [OF assms(1)]])
  then have "le_index e \<le> le_index (last xs)" using e by (rule sorted_wrt_last)
  moreover have "last xs \<in> set xs" using ne by simp
  ultimately show "le_index (last xs) = le_index e" by (simp add: xs_def)
qed

lemma get_entries_loop_range:
  "e \<in> set (get_entries_loop d a b m) \<Longrightarrow> a \<le> le_index e \<and> le_index e \<le> b"
  by (induction d a b m rule: get_entries_loop.induct) (auto split: if_splits)

lemma get_entries_loop_complete:
  assumes "omap_inv m" "set m \<subseteq> set (dl_index d)" "dl_inv d" "(i, ie) \<in> set m" "a \<le> i" "i \<le> b"
  shows "\<exists>e \<in> set (get_entries_loop d a b m). dl_entry_at d i = Some e"
  using assms
proof (induction m)
  case (Cons p m)
  obtain k ke where p: "p = (k, ke)" by fastforce
  have "k \<le> i" using Cons.prems(1,4) p by (auto simp: omap_inv_Cons)
  then have loop: "get_entries_loop d a b (p # m) =
      filter (\<lambda>e. a \<le> le_index e \<and> le_index e \<le> b) (read_batch d (ie_offset ke)) @ get_entries_loop d a b m"
    using Cons.prems(6) p by simp
  show ?case
  proof (cases "(i, ie) = p")
    case True
    then have "map_of (dl_index d) i = Some ie"
      using Cons.prems(2,3) by (simp add: dl_inv_def omap_inv_distinct)
    then obtain es e where "batch_at (dl_data d) ie es" "e \<in> set es" "le_index e = i" "dl_entry_at d i = Some e"
      using dl_inv_entry [OF Cons.prems(3)] by metis
    then show ?thesis using loop True p Cons.prems(5,6) read_batch_at by auto
  next
    case False
    then have "\<exists>e \<in> set (get_entries_loop d a b m). dl_entry_at d i = Some e"
      using Cons by (intro Cons.IH) (auto simp: omap_inv_Cons)
    then show ?thesis using loop by auto
  qed
qed simp

lemma get_entries_loop_last:
  assumes "omap_inv m" "set m \<subseteq> set (dl_index d)" "dl_inv d" "(b, ie) \<in> set m" "a \<le> b"
  shows "get_entries_loop d a b m \<noteq> [] \<and> le_index (last (get_entries_loop d a b m)) = b"
  using assms
proof (induction m)
  case (Cons p m)
  obtain k ke where p: "p = (k, ke)" by fastforce
  let ?xs = "filter (\<lambda>e. a \<le> le_index e \<and> le_index e \<le> b) (read_batch d (ie_offset ke))"
  have "k \<le> b" using Cons.prems(1,4) p by (auto simp: omap_inv_Cons)
  then have loop: "get_entries_loop d a b (p # m) = ?xs @ get_entries_loop d a b m" using p by simp
  show ?case
  proof (cases "(b, ie) = p")
    case True
    then have "get_entries_loop d a b m = []"
      using Cons.prems(1) p by (cases m) (auto simp: omap_inv_Cons)
    moreover from True p have "(b, ke) \<in> set (dl_index d)" using Cons.prems(2) by auto
    then obtain es e where "batch_at (dl_data d) ke es" "e \<in> set es" "le_index e = b"
      using dl_inv_batches [OF Cons.prems(3)] by metis
    then have "?xs \<noteq> [] \<and> le_index (last ?xs) = b"
      using batch_range_last [of _ es e a] Cons.prems(5) read_batch_at by (auto simp: batch_at_def)
    ultimately show ?thesis using loop by simp
  next
    case False
    then show ?thesis
      using Cons loop by (simp add: omap_inv_Cons)
  qed
qed simp

lemma dl_get_entries_ok:
  assumes inv: "dl_inv d" and rng: "0 < a" "dl_first d \<le> a" "a \<le> b" "b \<le> dl_last d"
  shows "dl_get_entries d a b \<noteq> [] \<and> le_index (last (dl_get_entries d a b)) = b"
    and "e \<in> set (dl_get_entries d a b) \<Longrightarrow> a \<le> le_index e \<and> le_index e \<le> b"
    and "a \<le> i \<Longrightarrow> i \<le> b \<Longrightarrow> \<exists>e \<in> set (dl_get_entries d a b). dl_entry_at d i = Some e"
proof -
  let ?m = "omap_erase_below a (dl_index d)"
  have oi: "omap_inv (dl_index d)" using inv by (simp add: dl_inv_def)
  have mem: "\<exists>ie. (i, ie) \<in> set ?m" if "a \<le> i" "i \<le> b" for i
  proof -
    have "map_of (dl_index d) i \<noteq> None" using dl_inv_index [OF inv, of i] that rng by auto
    then show ?thesis using that set_omap_erase_below [OF oi] by (auto dest: map_of_SomeD)
  qed
  have "map_of (dl_index d) a \<noteq> None" using dl_inv_index [OF inv, of a] rng by auto
  moreover from this have "omap_floor a (dl_index d) \<noteq> None"
  proof -
    obtain ie where "(a, ie) \<in> set (dl_index d)"
      using \<open>map_of (dl_index d) a \<noteq> None\<close> by (auto dest: map_of_SomeD)
    then have "dl_index d \<noteq> []" "fst (hd (dl_index d)) \<le> a"
      using oi by (cases "dl_index d"; force simp: omap_inv_Cons)+
    then show ?thesis by (cases "dl_index d") (auto simp: omap_floor_def Let_def)
  qed
  ultimately have loop: "dl_get_entries d a b = get_entries_loop d a b ?m"
    using rng by (auto simp: dl_get_entries_def)
  have sub: "set ?m \<subseteq> set (dl_index d)" using set_omap_erase_below [OF oi] by auto
  show "dl_get_entries d a b \<noteq> [] \<and> le_index (last (dl_get_entries d a b)) = b"
    using get_entries_loop_last [OF omap_inv_erase(1) [OF oi] sub inv] mem [of b] rng loop by auto
  show "e \<in> set (dl_get_entries d a b) \<Longrightarrow> a \<le> le_index e \<and> le_index e \<le> b"
    using get_entries_loop_range loop by metis
  show "a \<le> i \<Longrightarrow> i \<le> b \<Longrightarrow> \<exists>e \<in> set (dl_get_entries d a b). dl_entry_at d i = Some e"
    using get_entries_loop_complete [OF omap_inv_erase(1) [OF oi] sub inv] mem [of i] loop by auto
qed

lemma dl_append_os_write: "dl_os_write (snd (dl_append d p t es)) = dl_os_write d"
proof -
  have "dl_os_write (write_meta d) = dl_os_write d" for d by (simp add: write_meta_def Let_def)
  moreover have "dl_os_write (append_index_file es n d) = dl_os_write d" for n d
    by (simp add: append_index_file_def Let_def)
  moreover have "dl_os_write (truncate_suffix_locked n d) = dl_os_write d" for n d
    by (simp add: truncate_suffix_locked_def Let_def calculation(1))
  ultimately show ?thesis
    by (simp add: dl_append_def append_checked_def flush_and_fsync_def Let_def if_distrib [of dl_os_write])
qed

section \<open>Progress of the disk log\<close>

text \<open>A batch that fits and that the operating system writes in full is accepted.\<close>

lemma dl_append_returns:
  assumes "prev = 0 \<or> dl_term_at d prev = t \<and> t \<noteq> kNoTerm" "es \<noteq> []"
    "length (serialize_batch es) \<le> kMaxBatchBytes" "\<And>n. length (make_frame es) \<le> dl_os_write d n"
  shows "fst (dl_append d prev t es) = le_index (hd es)"
proof -
  let ?d = "if prev < dl_last d then truncate_suffix_locked (prev + 1) d else d"
  have "dl_os_write ?d = dl_os_write d"
    by (simp_all add: truncate_suffix_locked_def write_meta_def Let_def)
  then have "min (length (make_frame es)) (dl_os_write ?d (dl_os_writes ?d)) = length (make_frame es)"
    using assms(4) by simp
  then have "fst (append_checked d prev es) = le_index (hd es)"
    using assms(3) by (simp only: append_checked_def Let_def fst_conv refl if_False not_True_eq_False not_le [symmetric])
  then show ?thesis using assms by (auto simp: dl_append_def)
qed

abbreviation noop_entry :: "RaftTerm \<Rightarrow> LogIndex \<Rightarrow> LogEntry" where
  "noop_entry t i \<equiv> \<lparr>le_term = t, le_index = i, le_command = NoOp\<rparr>"

lemma length_noop_batch [simp]:
  "length (serialize_batch [noop_entry t i]) = 21" "length (make_frame [noop_entry t i]) = 37"
  by (simp_all add: serialize_batch_def serialize_entry_def make_frame_def Let_def)

lemma wf_noop_batch [simp]: "in_int64 t \<Longrightarrow> in_int64 i \<Longrightarrow> wf_batch [noop_entry t i]"
  by (simp add: wf_batch_def wf_entry_def kMaxBatchEntries_def kMaxBatchBytes_def)

section \<open>The log meets its contract\<close>

lemma disk_raft_log_simps [simp]:
  "first_index disk_raft_log = dl_first" "last_index disk_raft_log = dl_last"
  "entry_count disk_raft_log d = length (dl_index d)"
  "term_at disk_raft_log = dl_term_at" "get_entries disk_raft_log = dl_get_entries"
  "entry_at disk_raft_log = dl_entry_at" "append_log disk_raft_log = dl_append"
  "truncate_suffix disk_raft_log = dl_truncate_suffix"
  "truncate_prefix disk_raft_log = dl_truncate_prefix"
  "apply_snapshot disk_raft_log = dl_apply_snapshot"
  by (simp_all add: disk_raft_log_def)

lemma dl_append_reject:
  assumes "0 < prev" "es \<noteq> []" "dl_term_at d prev = kNoTerm \<or> dl_term_at d prev \<noteq> t"
  shows "dl_append d prev t es = (kNoLogIndex, d)"
  using assms by (auto simp: dl_append_def)

lemma dl_term_above: "dl_inv d \<Longrightarrow> dl_last d < i \<Longrightarrow> dl_term_at d i = kNoTerm"
  using append_base_ok(5) [of d "dl_last d" i] dl_inv_first_last [of d] dl_inv_last_nonneg [of d]
  by (simp add: append_base_def)

lemma dl_append_spec:
  assumes inv: "dl_inv d" and rng: "0 \<le> prev" "dl_first d \<le> prev + 1"
    and es: "wf_batch es" "es \<noteq> []" "numbered_from (prev + 1) es"
    and app: "dl_append d prev t es = (r, d')" "r \<noteq> kNoLogIndex"
  shows "dl_inv d'" "r = prev + 1" "dl_last d' = prev + int (length es)"
    and "dl_entry_at d' i =
        (if prev < i \<and> i \<le> prev + int (length es) then Some (es ! nat (i - prev - 1))
         else if i \<le> prev then dl_entry_at d i else None)"
    and "dl_term_at d' i =
        (if prev < i \<and> i \<le> prev + int (length es) then le_term (es ! nat (i - prev - 1))
         else if i \<le> prev then dl_term_at d i else kNoTerm)"
proof -
  note ok = dl_append_ok [OF inv rng es app]
  note base = append_base_ok [OF inv rng ok(1)]
  have num: "numbered_from (dl_last (append_base d prev) + 1) es" using base(2) es(3) by simp
  show "dl_inv d'" "r = prev + 1" "dl_last d' = prev + int (length es)"
    using appended_inv [OF ok(2) base(1) es(1,2) num] appended_fields [OF ok(2) base(1) es(2) num] base(2) ok(3)
    by auto
  show "dl_entry_at d' i =
        (if prev < i \<and> i \<le> prev + int (length es) then Some (es ! nat (i - prev - 1))
         else if i \<le> prev then dl_entry_at d i else None)"
    using appended_reads(2) [OF ok(2) base(1) es(1,2) num, of i] base(2,6) by simp
  show "dl_term_at d' i =
        (if prev < i \<and> i \<le> prev + int (length es) then le_term (es ! nat (i - prev - 1))
         else if i \<le> prev then dl_term_at d i else kNoTerm)"
    using appended_reads(1) [OF ok(2) base(1) es(1,2) num, of i] base(2,5) by simp
qed

interpretation disk: raft_log disk_raft_log dl_inv wf_batch
proof unfold_locales
  show "first_index disk_raft_log l \<le> last_index disk_raft_log l + 1 \<and> 0 \<le> last_index disk_raft_log l"
    if "dl_inv l" for l
    using dl_inv_first_last [OF that] dl_inv_last_nonneg [OF that] by simp
  show "\<exists>e. entry_at disk_raft_log l i = Some e \<and> le_index e = i \<and> le_term e = term_at disk_raft_log l i"
    if "dl_inv l" "0 < i" "first_index disk_raft_log l \<le> i" "i \<le> last_index disk_raft_log l" for l i
    using dl_term_at_entry that by simp
next
  fix l a b assume "dl_inv l" "0 < a" "first_index disk_raft_log l \<le> a" "a \<le> b" "b \<le> last_index disk_raft_log l"
  then show "get_entries disk_raft_log l a b \<noteq> [] \<and> le_index (last (get_entries disk_raft_log l a b)) = b \<and>
      (\<forall>e \<in> set (get_entries disk_raft_log l a b). a \<le> le_index e \<and> le_index e \<le> b) \<and>
      (\<forall>i. a \<le> i \<longrightarrow> i \<le> b \<longrightarrow> (\<exists>e \<in> set (get_entries disk_raft_log l a b). entry_at disk_raft_log l i = Some e))"
    using dl_get_entries_ok [of l a b] by simp
qed (simp_all add: dl_append_reject dl_term_above dl_append_spec dl_truncate_suffix_def
    truncate_suffix_inv truncate_suffix_index truncate_suffix_reads dl_apply_snapshot_ok dl_truncate_prefix_ok)

end
