(* ===== verification/Raft_Replication.thy ===== *)
theory Raft_Replication
  imports Raft_Steps Raft_Log
begin

text \<open>
  Commit, application and replication. The commit walk is compared with its specification (the
  greatest index of the current term that a quorum stores); what the log contributes is proved once
  inside the locale \<open>raft_log\<close>, for every log that keeps its contract.
\<close>

section \<open>The commit walk\<close>

lemma sorted_nth_count:
  fixes ys :: "'a::linorder list"
  assumes "sorted ys" "j < length ys"
  shows "n \<le> ys ! j \<longleftrightarrow> length ys - j \<le> length (filter (\<lambda>m. n \<le> m) ys)"
proof
  assume n: "n \<le> ys ! j"
  have "{j..<length ys} \<subseteq> {i. i < length ys \<and> n \<le> ys ! i}"
    using n sorted_nth_mono [OF assms(1)] by (auto intro: order_trans)
  from card_mono [OF _ this] show "length ys - j \<le> length (filter (\<lambda>m. n \<le> m) ys)"
    by (simp add: length_filter_conv_card)
next
  assume le: "length ys - j \<le> length (filter (\<lambda>m. n \<le> m) ys)"
  show "n \<le> ys ! j"
  proof (rule ccontr)
    assume "\<not> n \<le> ys ! j"
    then have "{i. i < length ys \<and> n \<le> ys ! i} \<subseteq> {Suc j..<length ys}"
      using sorted_nth_mono [OF assms(1)] assms(2)
      by (auto simp: not_le Suc_le_eq) (meson leD le_less_trans not_le_imp_less order.strict_trans1)
    from card_mono [OF _ this] show False
      using le assms(2) by (simp add: length_filter_conv_card)
  qed
qed

lemma nth_descending_count:
  fixes xs :: "'a::linorder list"
  assumes "k < length xs"
  shows "n \<le> rev (sort xs) ! k \<longleftrightarrow> k < length (filter (\<lambda>m. n \<le> m) xs)"
proof -
  have "length (filter (\<lambda>m. n \<le> m) (sort xs)) = length (filter (\<lambda>m. n \<le> m) xs)"
    by (metis filter_sort length_sort)
  then show ?thesis
    using sorted_nth_count [of "sort xs" "length xs - Suc k" n] assms by (simp add: rev_nth Suc_le_eq)
qed

lemma quorum_size_pos: "0 < quorum_size s"
  by (simp add: quorum_size_def membership_quorum_size_def Let_def)

text \<open>How many of the leader and its active followers store index \<open>n\<close>.\<close>

definition replicated_by :: "'l RaftLog \<Rightarrow> 'l RaftNode \<Rightarrow> LogIndex \<Rightarrow> nat" where
  "replicated_by L s n = length (filter (\<lambda>m. n \<le> m) (match_indices L s))"

text \<open>The rule of Raft: an entry of the current term that a quorum stores, and under joint
  consensus also a majority of the new configuration.\<close>

definition committable :: "'l RaftLog \<Rightarrow> 'l RaftNode \<Rightarrow> LogIndex \<Rightarrow> bool" where
  "committable L s n \<longleftrightarrow>
     rn_commit_index s < n \<and> n \<le> last_index L (rn_log s) \<and>
     quorum_size s \<le> replicated_by L s n \<and> term_at L (rn_log s) n = rn_current_term s \<and>
     (in_joint_consensus (rn_membership s) \<longrightarrow>
        length (joint_members (rn_membership s)) div 2 < new_config_matches s n)"

lemma commit_ok_committable:
  assumes "quorum_size s \<le> length (match_indices L s)"
  shows "commit_ok L s n \<and> rn_commit_index s < n \<and> n \<le> last_index L (rn_log s) \<longleftrightarrow> committable L s n"
proof -
  have "quorum_size s - 1 < length (match_indices L s)" using assms quorum_size_pos [of s] by linarith
  from nth_descending_count [OF this, of n]
  have "n \<le> rev (sort (match_indices L s)) ! (quorum_size s - 1) \<longleftrightarrow> quorum_size s \<le> replicated_by L s n"
    using quorum_size_pos [of s] by (auto simp: replicated_by_def)
  then show ?thesis by (auto simp: commit_ok_def committable_def)
qed

lemma committable_enough: "committable L s n \<Longrightarrow> quorum_size s \<le> length (match_indices L s)"
  unfolding committable_def replicated_by_def by (meson length_filter_le order_trans)

lemma find_descending:
  assumes "find P (rev [a..b]) = r"
  shows "case r of None \<Rightarrow> \<forall>n. a \<le> n \<longrightarrow> n \<le> b \<longrightarrow> \<not> P n
         | Some n \<Rightarrow> P n \<and> a \<le> n \<and> n \<le> b \<and> (\<forall>m. P m \<longrightarrow> a \<le> m \<longrightarrow> m \<le> b \<longrightarrow> m \<le> n)"
proof (cases r)
  case None
  then show ?thesis using assms by (auto simp: find_None_iff)
next
  case (Some n)
  then obtain i where i: "i < length [a..b]" "P (rev [a..b] ! i)" "n = rev [a..b] ! i"
    "\<And>j. j < i \<Longrightarrow> \<not> P (rev [a..b] ! j)"
    using assms by (auto simp: find_Some_iff)
  have nth: "rev [a..b] ! k = b - int k" if "k < length [a..b]" for k
    using that by (simp add: rev_nth nth_upto)
  have n: "n = b - int i"
    using i(1,3) nth by simp
  have "\<not> P m" if "n < m" "m \<le> b" for m
  proof -
    have lt: "nat (b - m) < i" using that n by linarith
    moreover have "rev [a..b] ! nat (b - m) = m"
    proof -
      have "nat (b - m) < length [a..b]" using lt i(1) by linarith
      then show ?thesis using nth that by force
    qed
    ultimately show ?thesis using i(4) by metis
  qed
  then show ?thesis using Some i n by (auto simp: not_le [symmetric])
qed

lemma commit_index_apply: "apply_committed E L s = Some s' \<Longrightarrow> rn_commit_index s' = rn_commit_index s"
  by (erule apply_committed_frame) simp

lemma advance_spec:
  assumes adv: "advance_commit_index E L s = Some s'" and "rn_state s = Leader" "2 \<le> length (match_indices L s)"
  shows "(\<exists>n. committable L s n) \<and> committable L s (rn_commit_index s') \<and>
           (\<forall>n. committable L s n \<longrightarrow> n \<le> rn_commit_index s') \<or>
         (\<nexists>n. committable L s n) \<and> s' = s"
proof (cases "rn_commit_index s < last_index L (rn_log s) \<and> quorum_size s \<le> length (match_indices L s)")
  case False
  then have "s' = s" using assms by (auto simp: advance_commit_index_def Let_def split: if_splits option.splits)
  moreover have "\<not> committable L s n" for n using False committable_enough [of L s n] by (auto simp: committable_def)
  ultimately show ?thesis by blast
next
  case True
  let ?r = "find (commit_ok L s) (rev [rn_commit_index s + 1 .. last_index L (rn_log s)])"
  have eq: "(case ?r of None \<Rightarrow> Some s | Some n \<Rightarrow> apply_committed E L (s\<lparr>rn_commit_index := n\<rparr>)) = Some s'"
    using assms True by (auto simp: advance_commit_index_def Let_def)
  note ok = commit_ok_committable [OF True [THEN conjunct2]]
  show ?thesis
  proof (cases ?r)
    case None
    have "\<nexists>n. committable L s n" unfolding ok [symmetric] using find_descending [OF None] by auto
    then show ?thesis using None eq by simp
  next
    case (Some n)
    then have "rn_commit_index s' = n" using eq commit_index_apply by force
    moreover have "committable L s n" "\<forall>m. committable L s m \<longrightarrow> m \<le> n"
      unfolding ok [symmetric] using find_descending [OF Some] by auto
    ultimately show ?thesis by blast
  qed
qed

text \<open>The same for the search itself: it finds the greatest committable index.\<close>

lemma commit_walk:
  "find (commit_ok L s) (rev [rn_commit_index s + 1 .. last_index L (rn_log s)]) =
     (if \<exists>n. committable L s n then Some (GREATEST n. committable L s n) else None)"
  if "quorum_size s \<le> length (match_indices L s)"
proof (cases "find (commit_ok L s) (rev [rn_commit_index s + 1 .. last_index L (rn_log s)])")
  case None
  then show ?thesis using find_descending [OF None] by (auto simp: commit_ok_committable [OF that, symmetric])
next
  case (Some n)
  note ok = commit_ok_committable [OF that]
  have n: "committable L s n" "\<And>m. committable L s m \<Longrightarrow> m \<le> n"
    unfolding ok [symmetric] using find_descending [OF Some] by auto
  from Greatest_equality [of "committable L s", OF n] n(1) Some show ?thesis by auto
qed

lemma no_quorum_not_committable: "length (match_indices L s) < quorum_size s \<Longrightarrow> \<not> committable L s n"
  using committable_enough by fastforce

section \<open>The apply loop\<close>

lemma fold_apply_entry:
  "rn_applied (fold (apply_entry E L) es s) = rn_applied s @ es"
  "rn_log (fold (apply_entry E L) es s) = rn_log s"
  "rn_commit_index (fold (apply_entry E L) es s) = rn_commit_index s"
  "rn_last_applied (fold (apply_entry E L) es s) = (if es = [] then rn_last_applied s else le_index (last es))"
  by (induction es arbitrary: s) auto

context raft_log begin

lemma apply_round_spec:
  assumes "inv (rn_log s)" "0 \<le> rn_last_applied s" "first_index L (rn_log s) \<le> rn_last_applied s + 1"
    "rn_last_applied s < rn_commit_index s" "rn_commit_index s \<le> last_index L (rn_log s)"
  defines "b \<equiv> rn_last_applied s + int (min (nat (rn_commit_index s - rn_last_applied s)) kMaxApplyBatch)"
  shows "rn_last_applied s < b" "b \<le> rn_commit_index s" "apply_round L s \<noteq> []"
    "le_index (last (apply_round L s)) = b"
    "e \<in> set (apply_round L s) \<Longrightarrow> rn_last_applied s < le_index e \<and> le_index e \<le> b"
    "rn_last_applied s < i \<Longrightarrow> i \<le> b \<Longrightarrow> \<exists>e \<in> set (apply_round L s). entry_at L (rn_log s) i = Some e"
proof -
  show lt: "rn_last_applied s < b" "b \<le> rn_commit_index s"
    using assms(4) by (auto simp: b_def kMaxApplyBatch_def)
  have eq: "apply_round L s = get_entries L (rn_log s) (rn_last_applied s + 1) b"
    by (simp add: apply_round_def b_def Let_def)
  have "b \<le> last_index L (rn_log s)" using lt assms(5) by simp
  note spec = get_entries_spec [OF assms(1) _ assms(3) _ this]
  show "apply_round L s \<noteq> []" "le_index (last (apply_round L s)) = b"
    using spec lt assms(2) eq by simp_all
  have "\<forall>e \<in> set (apply_round L s). rn_last_applied s + 1 \<le> le_index e \<and> le_index e \<le> b"
    using spec lt assms(2) eq by simp
  then show "e \<in> set (apply_round L s) \<Longrightarrow> rn_last_applied s < le_index e \<and> le_index e \<le> b"
    by (auto dest!: bspec)
  show "rn_last_applied s < i \<Longrightarrow> i \<le> b \<Longrightarrow> \<exists>e \<in> set (apply_round L s). entry_at L (rn_log s) i = Some e"
    using spec lt assms(2) eq by auto
qed

lemma apply_committed_total:
  assumes "inv (rn_log s)" "0 \<le> rn_last_applied s" "first_index L (rn_log s) \<le> rn_last_applied s + 1"
    "rn_commit_index s \<le> last_index L (rn_log s)"
  shows "\<exists>s' es. apply_committed E L s = Some s' \<and> rn_applied s' = rn_applied s @ es \<and>
    rn_last_applied s' = max (rn_last_applied s) (rn_commit_index s) \<and> rn_log s' = rn_log s \<and>
    (\<forall>e \<in> set es. rn_last_applied s < le_index e \<and> le_index e \<le> rn_commit_index s) \<and>
    (\<forall>i. rn_last_applied s < i \<longrightarrow> i \<le> rn_commit_index s \<longrightarrow>
       (\<exists>e \<in> set es. entry_at L (rn_log s) i = Some e))"
  using assms
proof (induction "nat (rn_commit_index s - rn_last_applied s)" arbitrary: s rule: less_induct)
  case less
  show ?case
  proof (cases "rn_last_applied s < rn_commit_index s")
    case False
    then show ?thesis by (subst apply_committed.simps) auto
  next
    case True
    note round = apply_round_spec [OF less.prems(1-3) True less.prems(4)]
    let ?es = "apply_round L s" and ?t = "fold (apply_entry E L) (apply_round L s) s"
    have t: "rn_applied ?t = rn_applied s @ ?es" "rn_log ?t = rn_log s"
      "rn_commit_index ?t = rn_commit_index s" "rn_last_applied ?t = le_index (last ?es)"
      using round(3) by (simp_all add: fold_apply_entry)
    have step: "apply_committed E L s = apply_committed E L ?t"
      using True round(3) by (subst apply_committed.simps) simp
    have "nat (rn_commit_index ?t - rn_last_applied ?t) < nat (rn_commit_index s - rn_last_applied s)"
      using t round(1,2,4) True by simp
    then obtain s' es where rest: "apply_committed E L ?t = Some s'" "rn_applied s' = rn_applied ?t @ es"
      "rn_last_applied s' = max (rn_last_applied ?t) (rn_commit_index ?t)" "rn_log s' = rn_log ?t"
      "\<forall>e \<in> set es. rn_last_applied ?t < le_index e \<and> le_index e \<le> rn_commit_index ?t"
      "\<forall>i. rn_last_applied ?t < i \<longrightarrow> i \<le> rn_commit_index ?t \<longrightarrow>
         (\<exists>e \<in> set es. entry_at L (rn_log ?t) i = Some e)"
      using less.hyps [of ?t] less.prems t round(1,2,4) by auto
    have cover: "\<exists>e \<in> set (?es @ es). entry_at L (rn_log s) i = Some e"
      if "rn_last_applied s < i" "i \<le> rn_commit_index s" for i
    proof (cases "i \<le> le_index (last ?es)")
      case True
      then show ?thesis using round(6) [OF that(1)] unfolding round(4) by auto
    next
      case False
      then have "\<exists>e \<in> set es. entry_at L (rn_log s) i = Some e"
        using rest(6) that(2) unfolding t by (meson not_le)
      then show ?thesis by auto
    qed
    have range: "rn_last_applied s < le_index e \<and> le_index e \<le> rn_commit_index s" if "e \<in> set (?es @ es)" for e
      using that round(5) [of e] round(1,2,4) rest(5) t by auto
    have "rn_applied s' = rn_applied s @ (?es @ es)" "rn_last_applied s' = max (rn_last_applied s) (rn_commit_index s)"
      "rn_log s' = rn_log s"
      using rest t round(1,2,4) True by auto
    then show ?thesis using step rest(1) range cover by metis
  qed
qed

section \<open>The log behind the handlers\<close>

lemma check_prev_logD:
  "check_prev_log L l p t = None \<Longrightarrow> 0 < p \<Longrightarrow> p \<le> last_index L l \<and> term_at L l p = t"
  by (auto simp: check_prev_log_def Let_def split: if_splits)

lemma append_accepted:
  assumes inv: "inv l" and prev: "0 \<le> ae_prev_log_index req" "last_index L l \<le> ae_prev_log_index req"
    and es: "ae_entries req \<noteq> []" "wf (ae_entries req)" "numbered_from (ae_prev_log_index req + 1) (ae_entries req)"
    and ok: "append_entries_to_log L req l = (None, l')"
  shows "inv l'" "last_index L l' = ae_prev_log_index req + int (length (ae_entries req))"
    "k < length (ae_entries req) \<Longrightarrow>
       entry_at L l' (ae_prev_log_index req + 1 + int k) = Some (ae_entries req ! k)"
    "i \<le> ae_prev_log_index req \<Longrightarrow> entry_at L l' i = entry_at L l i \<and> term_at L l' i = term_at L l i"
    "0 < ae_prev_log_index req \<Longrightarrow> term_at L l (ae_prev_log_index req) = ae_prev_log_term req"
proof -
  let ?p = "ae_prev_log_index req" and ?es = "ae_entries req"
  have chk: "check_prev_log L l ?p (ae_prev_log_term req) = None"
    using ok by (auto simp: append_entries_to_log_def split: option.splits)
  have "le_index (hd ?es) = ?p + 1" using es by (cases ?es) auto
  then obtain r where app: "append_log L l ?p (ae_prev_log_term req) ?es = (r, l')" "r \<noteq> kNoLogIndex"
    using ok es(1) chk prev by (auto simp: append_entries_to_log_def Let_def split: prod.splits if_splits)
  have first: "first_index L l \<le> ?p + 1" using span [OF inv] prev by linarith
  note spec = append_inv [OF inv prev(1) first es(2,1,3) app] append_reads [OF inv prev(1) first es(2,1,3) app]
  show "inv l'" "last_index L l' = ?p + int (length ?es)" using spec(1) by auto
  show "k < length ?es \<Longrightarrow> entry_at L l' (?p + 1 + int k) = Some (?es ! k)"
    using spec(2) [of "?p + 1 + int k"] by simp
  show "i \<le> ?p \<Longrightarrow> entry_at L l' i = entry_at L l i \<and> term_at L l' i = term_at L l i"
    using spec(2) [of i] by simp
  show "0 < ?p \<Longrightarrow> term_at L l ?p = ae_prev_log_term req" using check_prev_logD [OF chk] by simp
qed

text \<open>An overlapping batch is refused: the truncation removes the entry the append would attach to.\<close>

lemma append_overlap_refused:
  assumes inv: "inv l" and prev: "0 < ae_prev_log_index req" "first_index L l \<le> ae_prev_log_index req"
    "ae_prev_log_index req < last_index L l"
    and es: "ae_entries req \<noteq> []" "numbered_from (ae_prev_log_index req + 1) (ae_entries req)"
    and chk: "term_at L l (ae_prev_log_index req) = ae_prev_log_term req"
  shows "append_entries_to_log L req l =
    (Some (ae_prev_log_index req + 1), truncate_suffix L l (ae_prev_log_index req))"
    "last_index L (truncate_suffix L l (ae_prev_log_index req)) = ae_prev_log_index req - 1"
proof -
  let ?p = "ae_prev_log_index req" and ?l = "truncate_suffix L l (ae_prev_log_index req)"
  have "le_index (hd (ae_entries req)) = ?p + 1" using es by (cases "ae_entries req") auto
  moreover have "check_prev_log L l ?p (ae_prev_log_term req) = None"
    using prev chk by (simp add: check_prev_log_def)
  moreover have "term_at L ?l ?p = kNoTerm" using truncate_reads [OF inv prev(1,2), of ?p] prev(3) by simp
  ultimately show "append_entries_to_log L req l = (Some (?p + 1), ?l)"
    using prev es by (simp add: append_entries_to_log_def Let_def append_reject)
  show "last_index L ?l = ?p - 1" using truncate_inv [OF inv prev(1,2)] prev(3) by simp
qed

lemma propose_stored:
  assumes ok: "propose L c s = (Inr i, s')" and inv: "inv (rn_log s)"
    and wf: "wf [\<lparr>le_term = rn_current_term s, le_index = last_index L (rn_log s) + 1, le_command = c\<rparr>]"
  shows "inv (rn_log s')" "i = last_index L (rn_log s) + 1" "last_index L (rn_log s') = i"
    "entry_at L (rn_log s') i = Some \<lparr>le_term = rn_current_term s, le_index = i, le_command = c\<rparr>"
    "j < i \<Longrightarrow> entry_at L (rn_log s') j = entry_at L (rn_log s) j"
proof -
  let ?l = "rn_log s" and ?p = "last_index L (rn_log s)"
  let ?e = "\<lparr>le_term = rn_current_term s, le_index = ?p + 1, le_command = c\<rparr>"
  let ?t = "if ?p > 0 then term_at L ?l ?p else kNoTerm"
  obtain r l where rl: "append_log L ?l ?p ?t [?e] = (r, l)" by fastforce
  then have "r \<noteq> kNoLogIndex" "rn_log s' = l" and i: "i = ?p + 1"
    using ok by (auto simp: propose_def Let_def split: if_split_asm)
  then have app: "append_log L ?l ?p ?t [?e] = (r, rn_log s')" "r \<noteq> kNoLogIndex" using rl by simp_all
  have pos: "0 \<le> ?p" "first_index L ?l \<le> ?p + 1" using span [OF inv] by simp_all
  note spec = append_inv [OF inv pos wf _ _ app] append_reads [OF inv pos wf _ _ app]
  show "inv (rn_log s')" "i = ?p + 1" "last_index L (rn_log s') = i" using spec(1) i by auto
  show "entry_at L (rn_log s') i = Some \<lparr>le_term = rn_current_term s, le_index = i, le_command = c\<rparr>"
    "j < i \<Longrightarrow> entry_at L (rn_log s') j = entry_at L ?l j"
    using spec(2) [of i] spec(2) [of j] i by auto
qed

lemma create_snapshot_log:
  assumes ok: "create_snapshot E L s = (snap, s')" "snapshot_is_valid snap" and inv: "inv (rn_log s)"
    and le: "rn_commit_index s \<le> last_index L (rn_log s)"
  shows "inv (rn_log s')" "first_index L (rn_log s') = rn_commit_index s + 1"
    "last_index L (rn_log s') = last_index L (rn_log s)"
    "term_at L (rn_log s') (rn_commit_index s) = term_at L (rn_log s) (rn_commit_index s)"
    "rn_commit_index s < i \<Longrightarrow> entry_at L (rn_log s') i = entry_at L (rn_log s) i"
    "map_of (rn_files s') (snap_file_path snap) =
       Some (snapshot_image (rn_commit_index s) (snap_last_included_term snap) (snap_created_at_ms snap) (rn_membership s))"
proof -
  let ?l = "rn_log s" and ?n = "rn_commit_index s"
  have *: "first_index L ?l < ?n" "snap_last_included_index snap = ?n"
    "snap_last_included_term snap = term_at L ?l ?n" "rn_log s' = apply_snapshot L (truncate_prefix L ?l ?n) snap"
    "map_of (rn_files s') (snap_file_path snap) =
       Some (snapshot_image ?n (snap_last_included_term snap) (snap_created_at_ms snap) (rn_membership s))"
    using ok by (auto simp: create_snapshot_def write_file_atomic_def Let_def empty_snapshot_def snapshot_is_valid_def
        update_conv split: if_splits)
  note pre = prefix_spec [OF inv *(1)]
  have pre': "inv (truncate_prefix L ?l ?n)" "first_index L (truncate_prefix L ?l ?n) \<le> snap_last_included_index snap + 1"
    using pre le * by auto
  note snap = snapshot_spec [OF pre'(1) ok(2) pre'(2)]
  show "inv (rn_log s')" "first_index L (rn_log s') = ?n + 1" "last_index L (rn_log s') = last_index L ?l"
    "term_at L (rn_log s') ?n = term_at L ?l ?n"
    using snap pre le * by auto
  show "?n < i \<Longrightarrow> entry_at L (rn_log s') i = entry_at L ?l i" using snap pre le * by auto
  show "map_of (rn_files s') (snap_file_path snap) =
       Some (snapshot_image ?n (snap_last_included_term snap) (snap_created_at_ms snap) (rn_membership s))"
    by (rule *(5))
qed

end

section \<open>Conflict hints\<close>

lemma conflict_scan_spec:
  assumes "first_index L l \<le> i" "term_at L l i = t"
  shows "first_index L l \<le> conflict_scan L l t i" "conflict_scan L l t i \<le> i"
    "conflict_scan L l t i \<le> j \<Longrightarrow> j \<le> i \<Longrightarrow> term_at L l j = t"
    "first_index L l < conflict_scan L l t i \<Longrightarrow> term_at L l (conflict_scan L l t i - 1) \<noteq> t"
proof -
  have "first_index L l \<le> i \<Longrightarrow> term_at L l i = t \<Longrightarrow>
    first_index L l \<le> conflict_scan L l t i \<and> conflict_scan L l t i \<le> i \<and>
    (\<forall>j. conflict_scan L l t i \<le> j \<longrightarrow> j \<le> i \<longrightarrow> term_at L l j = t) \<and>
    (first_index L l < conflict_scan L l t i \<longrightarrow> term_at L l (conflict_scan L l t i - 1) \<noteq> t)"
  proof (induction L l t i rule: conflict_scan.induct)
    case (1 L l t i)
    show ?case
    proof (cases "first_index L l < i \<and> term_at L l (i - 1) = t")
      case True
      then have "conflict_scan L l t i = conflict_scan L l t (i - 1)" by (subst conflict_scan.simps) simp
      moreover have "j \<le> i - 1 \<or> j = i" if "j \<le> i" for j :: int using that by linarith
      ultimately show ?thesis using "1.IH" [OF True] "1.prems" True by auto
    next
      case False
      then have "conflict_scan L l t i = i" by (subst conflict_scan.simps) auto
      moreover have "j = i" if "i \<le> j" "j \<le> i" for j :: int using that by linarith
      ultimately show ?thesis using False "1.prems" by auto
    qed
  qed
  then show "first_index L l \<le> conflict_scan L l t i" "conflict_scan L l t i \<le> i"
    "conflict_scan L l t i \<le> j \<Longrightarrow> j \<le> i \<Longrightarrow> term_at L l j = t"
    "first_index L l < conflict_scan L l t i \<Longrightarrow> term_at L l (conflict_scan L l t i - 1) \<noteq> t"
    using assms by auto
qed

section \<open>Batches\<close>

lemma keep_within_le: "keep_within lim tot i es \<le> length es"
  by (induction lim tot i es rule: keep_within.induct) auto

lemma keep_within_budget:
  assumes "0 < i \<or> 1 < keep_within lim tot i es" "tot \<le> lim"
  shows "tot + sum_list (map log_entry_byte_size (take (keep_within lim tot i es) es)) \<le> lim"
  using assms
proof (induction lim tot i es rule: keep_within.induct)
  case (2 lim tot i e es)
  then show ?case by (cases es) (auto split: if_splits simp: not_less)
qed simp

section \<open>Receiving a snapshot\<close>

text \<open>The chunks of one transfer in order: contiguous offsets, none empty, the last one marked done.\<close>

fun chunk_sequence :: "nat \<Rightarrow> InstallSnapshotRequest list \<Rightarrow> bool" where
  "chunk_sequence off [] = False"
| "chunk_sequence off (r # rs) =
     (is_offset r = off \<and> is_data r \<noteq> [] \<and> is_done r = (rs = []) \<and>
      (rs \<noteq> [] \<longrightarrow> chunk_sequence (off + length (is_data r)) rs))"

definition receive_chunks ::
  "env \<Rightarrow> 'l RaftLog \<Rightarrow> InstallSnapshotRequest list \<Rightarrow> 'l RaftNode \<Rightarrow> 'l RaftNode" where
  "receive_chunks E L rs s = fold (\<lambda>r s. snd (handle_install_snapshot E L r s)) rs s"

text \<open>What a node holds once \<open>img\<close> was installed as the snapshot that \<open>meta\<close> describes.\<close>

definition snapshot_installed ::
  "'l RaftLog \<Rightarrow> InstallSnapshotRequest \<Rightarrow> bytes \<Rightarrow> 'l RaftNode \<Rightarrow> 'l RaftNode \<Rightarrow> bool" where
  "snapshot_installed L meta img s s' \<longleftrightarrow>
     (\<exists>snap. snap_last_included_index snap = is_last_included_index meta \<and>
        snap_last_included_term snap = is_last_included_term meta \<and>
        snap_file_path snap \<noteq> '''' \<and> snap_file_size_bytes snap = length img \<and>
        rn_log s' = apply_snapshot L (rn_log s) snap \<and>
        map_of (rn_files s') (snap_file_path snap) = Some img) \<and>
     rn_commit_index s' = max (rn_commit_index s) (is_last_included_index meta) \<and>
     rn_last_applied s' = max (rn_last_applied s) (is_last_included_index meta) \<and>
     rn_snapshot_buffer s' = []"

lemma install_snapshot_installed:
  assumes "env_write_ok E (rn_oracle s + 1)"
  shows "snapshot_installed L (rn_pending_snapshot_meta s) (rn_snapshot_buffer s) s (install_snapshot E L s)"
proof -
  let ?m = "rn_pending_snapshot_meta s" and ?now = "env_wall E (rn_oracle s)"
  let ?snap = "empty_snapshot\<lparr>snap_last_included_index := is_last_included_index ?m,
    snap_last_included_term := is_last_included_term ?m, snap_file_size_bytes := length (rn_snapshot_buffer s),
    snap_created_at_ms := ?now, snap_file_path := snapshot_path s (is_last_included_index ?m) ?now\<rparr>"
  have path: "snapshot_path (s\<lparr>rn_oracle := n\<rparr>) i t = snapshot_path s i t" "snapshot_path s i t \<noteq> ''''" for n i t
    by (simp_all add: snapshot_path_def)
  show ?thesis unfolding snapshot_installed_def
    using assms path by (intro conjI exI [of _ ?snap])
      (simp_all add: install_snapshot_def write_file_atomic_def Let_def update_conv)
qed

lemma handle_chunk:
  assumes "is_term r = rn_current_term s" "is_offset r = 0 \<or> is_offset r = length (rn_snapshot_buffer s)"
  obtains t where "snd (handle_install_snapshot E L r s) = (if is_done r then install_snapshot E L t else t)"
    "rn_snapshot_buffer t = (if is_offset r = 0 then [] else rn_snapshot_buffer s) @ is_data r"
    "rn_pending_snapshot_meta t = (if is_offset r = 0 then r\<lparr>is_data := []\<rparr> else rn_pending_snapshot_meta s)"
    "rn_current_term t = rn_current_term s" "rn_log t = rn_log s" "rn_commit_index t = rn_commit_index s"
    "rn_last_applied t = rn_last_applied s"
proof
  let ?t = "let s = note_leader E (is_leader_id r) s;
      s = (if is_offset r = 0 then s\<lparr>rn_pending_snapshot_meta := r\<lparr>is_data := []\<rparr>, rn_snapshot_buffer := []\<rparr> else s)
    in s\<lparr>rn_snapshot_buffer := rn_snapshot_buffer s @ is_data r\<rparr>"
  show "snd (handle_install_snapshot E L r s) = (if is_done r then install_snapshot E L ?t else ?t)"
    using assms by (auto simp: handle_install_snapshot_def Let_def)
qed (simp_all add: Let_def)

lemma receive_rest:
  assumes "chunk_sequence (length (rn_snapshot_buffer s)) rs" "rn_snapshot_buffer s \<noteq> []"
    "\<forall>r \<in> set rs. is_term r = rn_current_term s" "\<forall>n. env_write_ok E n"
  shows "snapshot_installed L (rn_pending_snapshot_meta s) (rn_snapshot_buffer s @ concat (map is_data rs)) s
    (receive_chunks E L rs s)"
  using assms
proof (induction rs arbitrary: s)
  case (Cons r rs)
  obtain t where t: "snd (handle_install_snapshot E L r s) = (if is_done r then install_snapshot E L t else t)"
    "rn_snapshot_buffer t = rn_snapshot_buffer s @ is_data r"
    "rn_pending_snapshot_meta t = rn_pending_snapshot_meta s"
    "rn_current_term t = rn_current_term s" "rn_log t = rn_log s" "rn_commit_index t = rn_commit_index s"
    "rn_last_applied t = rn_last_applied s"
    using handle_chunk [of r s E L] Cons.prems by auto
  show ?case
  proof (cases "rs = []")
    case True
    then show ?thesis using t Cons.prems install_snapshot_installed [of E t L]
      by (auto simp: receive_chunks_def snapshot_installed_def)
  next
    case False
    then have "snapshot_installed L (rn_pending_snapshot_meta t) (rn_snapshot_buffer t @ concat (map is_data rs)) t
      (receive_chunks E L rs t)"
      using Cons.prems t by (intro Cons.IH) auto
    then show ?thesis using False t Cons.prems by (auto simp: receive_chunks_def snapshot_installed_def)
  qed
qed simp

lemma receive_all:
  assumes "chunk_sequence 0 (r # rs)" "\<forall>q \<in> set (r # rs). is_term q = rn_current_term s" "\<forall>n. env_write_ok E n"
  shows "snapshot_installed L r (concat (map is_data (r # rs))) s (receive_chunks E L (r # rs) s)"
proof -
  obtain t where t: "snd (handle_install_snapshot E L r s) = (if is_done r then install_snapshot E L t else t)"
    "rn_snapshot_buffer t = is_data r" "rn_pending_snapshot_meta t = r\<lparr>is_data := []\<rparr>"
    "rn_current_term t = rn_current_term s" "rn_log t = rn_log s" "rn_commit_index t = rn_commit_index s"
    "rn_last_applied t = rn_last_applied s"
    using handle_chunk [of r s E L] assms by auto
  show ?thesis
  proof (cases "rs = []")
    case True
    then show ?thesis using t assms install_snapshot_installed [of E t L]
      by (auto simp: receive_chunks_def snapshot_installed_def)
  next
    case False
    then have "snapshot_installed L (rn_pending_snapshot_meta t) (rn_snapshot_buffer t @ concat (map is_data rs)) t
      (receive_chunks E L rs t)"
      using assms t by (intro receive_rest) auto
    then show ?thesis using False t assms by (auto simp: receive_chunks_def snapshot_installed_def)
  qed
qed

end
