(* ===== verification/Raft_Properties.thy ===== *)
theory Raft_Properties
  imports Raft_Invariant Raft_Replication
begin

text \<open>
  The properties of the consensus node over its disk log, with concrete nodes at which they apply:
  elections and votes, the invariant of a run, commitment, application, replication, client
  operations and snapshots. The last section states what the code does against its intent.
\<close>

section \<open>Concrete nodes\<close>

definition demo_log :: DiskRaftLog where
  "demo_log = open_disk_log [] [] None True (\<lambda>_. 100000)"

definition demo_env :: env where
  "demo_env = \<lparr>env_clock = (\<lambda>_. 0), env_timeout = (\<lambda>_. 200), env_wall = (\<lambda>_. 7), env_send_ok = (\<lambda>_. True),
     env_write_ok = (\<lambda>_. True), env_snapshot_file = (\<lambda>_. None)\<rparr>"

definition demo_cluster :: RaftMembership where
  "demo_cluster = \<lparr>members = [1, 2, 3], joint_members = [], config_index = 0\<rparr>"

definition demo_node :: "RaftNodeId \<Rightarrow> DiskRaftLog RaftNode" where
  "demo_node p = (new_raft_node p default_raft_config demo_log)
     \<lparr>rn_membership := demo_cluster, rn_running := True\<rparr>"

lemma demo_log_simps [simp]:
  "dl_first demo_log = 1" "dl_last demo_log = 0" "dl_index demo_log = []" "dl_snapshot demo_log = None"
  "dl_data demo_log = []" "dl_data_size demo_log = 0" "dl_term_at demo_log i = kNoTerm"
  by (simp_all add: demo_log_def open_disk_log_def recover_index_def read_meta_def dl_term_at_def Let_def)

lemma demo_log_inv [simp]: "dl_inv demo_log"
  by (simp add: dl_inv_def dl_span_def)

lemma demo_node_simps [simp]:
  "rn_id (demo_node p) = p" "rn_log (demo_node p) = demo_log" "rn_current_term (demo_node p) = 0"
  "rn_voted_for (demo_node p) = kNoLeader" "rn_state (demo_node p) = Follower"
  "rn_commit_index (demo_node p) = 0" "rn_last_applied (demo_node p) = 0" "rn_followers (demo_node p) = []"
  "rn_membership (demo_node p) = demo_cluster" "rn_running (demo_node p)" "\<not> rn_transferring (demo_node p)"
  "rn_oracle (demo_node p) = 0" "rn_applied (demo_node p) = []"
  by (simp_all add: demo_node_def new_raft_node_def kNoTerm_def)

lemma demo_env_simps [simp]:
  "env_clock demo_env n = 0" "env_send_ok demo_env n" "env_write_ok demo_env n"
  by (simp_all add: demo_env_def)

section \<open>Concrete logs\<close>

lemma demo_append: "fst (dl_append demo_log 0 0 [noop_entry t 1]) = 1"
  by (subst dl_append_returns) (simp_all add: kMaxBatchBytes_def demo_log_def open_disk_log_def recover_index_def
      read_meta_def Let_def)

text \<open>The log with one entry, of term 1.\<close>

definition demo_log1 :: DiskRaftLog where "demo_log1 = snd (dl_append demo_log 0 0 [noop_entry 1 1])"

lemma demo_append_eq: "dl_append demo_log 0 0 [noop_entry 1 1] = (1, demo_log1)"
  using demo_append [of 1] by (simp add: demo_log1_def prod_eq_iff)

lemma demo_log1_simps [simp]:
  "dl_inv demo_log1" "dl_last demo_log1 = 1" "dl_entry_at demo_log1 1 = Some (noop_entry 1 1)"
  "dl_term_at demo_log1 1 = 1" "dl_first demo_log1 = 1"
proof -
  note app = demo_append_eq
  have wf: "wf_batch [noop_entry 1 1]" by (simp add: in_int64_def)
  note spec = dl_append_spec [OF demo_log_inv _ _ wf _ _ app]
  show inv: "dl_inv demo_log1" and last: "dl_last demo_log1 = 1"
    and "dl_entry_at demo_log1 1 = Some (noop_entry 1 1)" "dl_term_at demo_log1 1 = 1"
    using spec by (simp_all add: kNoLogIndex_def)
  have "dl_first demo_log1 = dl_first (append_base demo_log 0)"
    using dl_append_ok(2) [OF demo_log_inv _ _ wf _ _ app] by (simp add: appended_def append_base_def kNoLogIndex_def)
  then show "dl_first demo_log1 = 1" by (simp add: append_base_def)
qed

text \<open>The log with two entries of term 1, appended one by one.\<close>

definition demo_log2 :: DiskRaftLog where "demo_log2 = snd (dl_append demo_log1 1 1 [noop_entry 1 2])"

lemma demo_log1_os: "dl_os_write demo_log1 n = 100000"
  by (simp add: demo_log1_def dl_append_os_write demo_log_def open_disk_log_def recover_index_def read_meta_def Let_def)

lemma demo_append2_eq: "dl_append demo_log1 1 1 [noop_entry 1 2] = (2, demo_log2)"
proof -
  have "fst (dl_append demo_log1 1 1 [noop_entry 1 2]) = 2"
    by (subst dl_append_returns) (simp_all add: demo_log1_os kMaxBatchBytes_def kNoTerm_def)
  then show ?thesis by (simp add: demo_log2_def prod_eq_iff)
qed

lemma demo_log2_simps [simp]: "dl_inv demo_log2" "dl_last demo_log2 = 2" "dl_term_at demo_log2 1 = 1"
    "dl_first demo_log2 = 1"
proof -
  have wf: "wf_batch [noop_entry 1 2]" by (simp add: in_int64_def)
  note spec = dl_append_spec [OF demo_log1_simps(1) _ _ wf _ _ demo_append2_eq]
  show "dl_inv demo_log2" "dl_last demo_log2 = 2" "dl_term_at demo_log2 1 = 1"
    using spec(1,3) spec(5) [of 1] by (simp_all add: kNoLogIndex_def)
  show "dl_first demo_log2 = 1"
    using dl_append_ok(2) [OF demo_log1_simps(1) _ _ wf _ _ demo_append2_eq]
    by (simp add: appended_def append_base_def kNoLogIndex_def)
qed

section \<open>Terms and votes\<close>

text \<open>
  C1: in every run of a node, whatever messages, timeouts and client calls occur, its identity is
  fixed, its term never decreases, and a vote cast in a term is not changed within that term.
\<close>

theorem term_and_vote_stable:
  assumes "(node_step E L)\<^sup>*\<^sup>* s s'"
  shows "rn_id s' = rn_id s \<and> rn_current_term s \<le> rn_current_term s' \<and>
    (rn_current_term s' = rn_current_term s \<longrightarrow> rn_voted_for s \<noteq> kNoLeader \<longrightarrow> rn_voted_for s' = rn_voted_for s)"
  using vote_le_run [OF assms] by (auto simp: vote_le_def)

definition vote_for :: "RaftNodeId \<Rightarrow> RaftTerm \<Rightarrow> RequestVoteRequest" where
  "vote_for c t = \<lparr>rv_term = t, rv_candidate_id = c, rv_last_log_index = 0, rv_last_log_term = 0, rv_pre_vote = False\<rparr>"

theorem term_and_vote_stable_witness:
  "rn_current_term (demo_node 1) \<le> rn_current_term (snd (handle_request_vote demo_env disk_raft_log (vote_for 2 5) (demo_node 1)))"
  using term_and_vote_stable [OF r_into_rtranclp [of "node_step demo_env disk_raft_log", OF node_step.recv_vote
    [of demo_env disk_raft_log "vote_for 2 5" "demo_node 1", OF prod.collapse [symmetric]]]]
  by (rule conjunct2 [THEN conjunct1])

text \<open>
  C2: a node gives at most one real vote in a term: if it grants a vote, then runs on in any way and
  grants another vote in the same term, both went to the same candidate.
\<close>

theorem one_vote_per_term:
  assumes "handle_request_vote E L r1 s0 = (p1, s1)" "vr_vote_granted p1" "\<not> rv_pre_vote r1"
    and "(node_step E L)\<^sup>*\<^sup>* s1 s2"
    and "handle_request_vote E L r2 s2 = (p2, s3)" "vr_vote_granted p2" "\<not> rv_pre_vote r2"
    and "vr_term p1 = vr_term p2" "rv_candidate_id r1 \<noteq> kNoLeader"
  shows "rv_candidate_id r1 = rv_candidate_id r2"
proof -
  have granted: "vr_term p = rn_current_term s' \<and> rn_voted_for s' = rv_candidate_id r"
    if "handle_request_vote E L r s = (p, s')" "vr_vote_granted p" "\<not> rv_pre_vote r" for r s p and s' :: "'a RaftNode"
    using that by (auto simp: handle_request_vote_def Let_def split: if_splits)
  note g1 = granted [OF assms(1-3)] and g2 = granted [OF assms(5-7)]
  have "vote_le s1 s3" using vote_le_run [OF assms(4)] vote_le_recv_vote [OF assms(5)] by (rule vote_le_trans)
  then show ?thesis using g1 g2 assms(8,9) by (auto simp: vote_le_def)
qed

theorem one_vote_per_term_witness:
  "vr_vote_granted (fst (handle_request_vote demo_env disk_raft_log (vote_for 2 5) (demo_node 1))) \<and>
   \<not> vr_vote_granted (fst (handle_request_vote demo_env disk_raft_log (vote_for 3 5)
        (snd (handle_request_vote demo_env disk_raft_log (vote_for 2 5) (demo_node 1)))))"
proof -
  let ?q = "handle_request_vote demo_env disk_raft_log (vote_for 2 5) (demo_node 1)"
  let ?r = "handle_request_vote demo_env disk_raft_log (vote_for 3 5) (snd ?q)"
  have g: "vr_vote_granted (fst ?q)" "vr_term (fst ?q) = 5" "rn_current_term (snd ?q) = 5"
    by (simp_all add: handle_request_vote_def Let_def vote_for_def log_is_up_to_date_def kNoTerm_def
        become_follower_def reset_deadline_def stamp_heartbeat_def)
  have "vr_term (fst (handle_request_vote demo_env disk_raft_log (vote_for 3 5) s)) = 5"
    if "rn_current_term s = 5" for s
    using that by (simp add: handle_request_vote_def Let_def vote_for_def)
  from this [OF g(3)] show ?thesis
    using g one_vote_per_term [of demo_env disk_raft_log "vote_for 2 5" "demo_node 1" "fst ?q" "snd ?q" "snd ?q"
        "vote_for 3 5" "fst ?r" "snd ?r"]
    by (auto simp: vote_for_def kNoLeader_def)
qed

text \<open>
  C26: a vote, real or preliminary, is granted only to a candidate whose term is not behind and whose
  log is at least as up to date: its last entry has a higher term, or the same term and an index
  that is not smaller.
\<close>

theorem vote_needs_up_to_date_log:
  assumes "handle_request_vote E L r s = (p, s')" "vr_vote_granted p"
  shows "rn_current_term s \<le> rv_term r \<and>
    (term_at L (rn_log s) (last_index L (rn_log s)) < rv_last_log_term r \<or>
     term_at L (rn_log s) (last_index L (rn_log s)) = rv_last_log_term r \<and> last_index L (rn_log s) \<le> rv_last_log_index r)"
  using assms by (auto simp: handle_request_vote_def log_is_up_to_date_def Let_def split: if_splits)

theorem vote_needs_up_to_date_log_witness:
  "rn_current_term (demo_node 1) \<le> rv_term (vote_for 2 5)"
  using vote_needs_up_to_date_log [of demo_env disk_raft_log "vote_for 2 5" "demo_node 1", OF prod.collapse [symmetric]]
  by (simp add: handle_request_vote_def Let_def vote_for_def log_is_up_to_date_def kNoTerm_def)

text \<open>
  A pre-vote binds nothing: answering one leaves the whole node as it was, so it can neither
  raise the term of the cluster nor use up a vote.
\<close>

theorem pre_vote_binds_nothing:
  assumes "rv_pre_vote r"
  shows "snd (handle_request_vote E L r s) = s"
  using assms by (simp add: handle_request_vote_def Let_def)

theorem pre_vote_binds_nothing_witness:
  "snd (handle_request_vote demo_env disk_raft_log ((vote_for 2 5)\<lparr>rv_pre_vote := True\<rparr>) (demo_node 1)) = demo_node 1"
  by (rule pre_vote_binds_nothing) simp

section \<open>The invariant of a run\<close>

text \<open>
  C5: from the start of a fresh node on, at every point of every run: a node that is not the leader
  tracks no followers and has no leadership transfer under way; a candidate or leader has given the
  vote of its term to itself; the leader tracks each peer once, never itself, and never has more
  requests in flight to a peer than the configured pipeline depth (or one).
\<close>

theorem run_invariant:
  assumes "start_node E (new_raft_node p c l) = Some s" "p \<noteq> kNoLeader" "(node_step E L)\<^sup>*\<^sup>* s s'"
  shows "(rn_state s' \<noteq> Leader \<longrightarrow> rn_followers s' = [] \<and> \<not> rn_transferring s') \<and>
    (rn_state s' = Candidate \<or> rn_state s' = Leader \<longrightarrow> rn_voted_for s' = p) \<and>
    distinct (map fst (rn_followers s')) \<and>
    (\<forall>q f. find_follower s' q = Some f \<longrightarrow>
       q \<noteq> p \<and> fs_in_flight f \<le> max (rpc_queue_capacity (rn_config s')) 1)"
proof -
  have "node_ok s" "rn_id s = p" using node_ok_new [OF assms(1)] by simp_all
  then have "node_ok s'" "rn_id s' = p"
    using node_ok_run [OF assms(3)] vote_le_run [OF assms(3)] assms(2) by (simp_all add: vote_le_def)
  then show ?thesis by (auto simp: node_ok_def followers_ok_def pipeline_limit_def)
qed

theorem run_invariant_witness:
  "\<exists>s. start_node demo_env (new_raft_node 1 default_raft_config demo_log) = Some s \<and>
     \<not> rn_transferring (election_tick demo_env disk_raft_log s)"
proof -
  obtain s where s: "start_node demo_env (new_raft_node 1 default_raft_config demo_log) = Some s"
    by (simp add: start_node_def new_raft_node_def)
  have "rn_state (election_tick demo_env disk_raft_log s) \<noteq> Leader"
    using s by (auto simp: start_node_def new_raft_node_def election_tick_def on_election_timeout_def Let_def
        become_pre_candidate_def become_candidate_def empty_membership_def reset_deadline_def stamp_heartbeat_def)
  then show ?thesis
    using run_invariant [OF s _ r_into_rtranclp [of "node_step demo_env disk_raft_log", OF node_step.election]] s
    by (auto simp: kNoLeader_def)
qed

section \<open>Commitment\<close>


definition demo_follower :: "LogIndex \<Rightarrow> FollowerState" where
  "demo_follower m = \<lparr>fs_next_index = m + 1, fs_match_index = m, fs_is_active = True, fs_in_flight = 0,
     fs_pending_snapshot = None, fs_last_ack = 0\<rparr>"

definition demo_leader :: "DiskRaftLog RaftNode" where
  "demo_leader = (demo_node 1)\<lparr>rn_log := demo_log1, rn_state := Leader, rn_current_term := 1, rn_voted_for := 1,
     rn_followers := [(2, demo_follower 1), (3, demo_follower 0)]\<rparr>"

lemma demo_leader_simps [simp]:
  "rn_id demo_leader = 1" "rn_log demo_leader = demo_log1" "rn_state demo_leader = Leader"
  "rn_current_term demo_leader = 1" "rn_commit_index demo_leader = 0" "rn_last_applied demo_leader = 0"
  "rn_membership demo_leader = demo_cluster" "match_indices disk_raft_log demo_leader = [1, 1, 0]"
  "rn_followers demo_leader = [(2, demo_follower 1), (3, demo_follower 0)]"
  by (simp_all add: demo_leader_def match_indices_def demo_follower_def)

lemma demo_leader_committable: "committable disk_raft_log demo_leader n \<longleftrightarrow> n = 1"
  by (auto simp: committable_def replicated_by_def quorum_size_def membership_quorum_size_def
      demo_cluster_def in_joint_consensus_def)

lemma demo_leader_advances: "\<exists>s'. advance_commit_index demo_env disk_raft_log demo_leader = Some s'"
  using disk.apply_committed_total [of "demo_leader\<lparr>rn_commit_index := n\<rparr>" demo_env for n]
  by (fastforce simp: advance_commit_index_def Let_def quorum_size_def membership_quorum_size_def demo_cluster_def
      in_joint_consensus_def commit_ok_def upto.simps split: option.split)

text \<open>The leader, and the active followers whose match index in the leader's table reaches \<open>n\<close>.\<close>

definition holders :: "'l RaftNode \<Rightarrow> LogIndex \<Rightarrow> RaftNodeId set" where
  "holders s n = insert (rn_id s)
     (fst ` set (filter (\<lambda>(p, f). fs_is_active f \<and> n \<le> fs_match_index f) (rn_followers s)))"

lemma card_holders:
  assumes "followers_ok s" "n \<le> last_index L (rn_log s)"
  shows "card (holders s n) = replicated_by L s n"
proof -
  let ?fs = "filter (\<lambda>(p, f). fs_is_active f \<and> n \<le> fs_match_index f) (rn_followers s)"
  have d: "distinct (map fst (rn_followers s))" using assms by (simp add: followers_ok_def)
  have "map_of (rn_followers s) p = Some f" if "(p, f) \<in> set ?fs" for p f
    using that d by (auto simp: map_of_eq_Some_iff)
  then have "rn_id s \<notin> fst ` set ?fs"
    using followers_okD [OF assms(1), unfolded find_follower_def] by fastforce
  moreover have "card (fst ` set ?fs) = length ?fs"
    using distinct_map_filter [OF d] by (metis (no_types, lifting) distinct_card length_map list.set_map)
  moreover have "length ?fs = length (filter (\<lambda>m. n \<le> m) (map (fs_match_index \<circ> snd) (filter (fs_is_active \<circ> snd) (rn_followers s))))"
    by (simp add: filter_map o_def case_prod_beta' conj_commute)
  ultimately show ?thesis
    using assms(2) by (simp add: holders_def replicated_by_def match_indices_def)
qed

text \<open>
  C4: outside membership changes every majority of the members (in particular the voters of a later
  leader) contains the leader itself or a follower that the leader's table counts for the index it
  newly commits: an active follower whose match index reaches the index. This holds whenever the
  leader and all followers it tracks are members, the member list has no duplicates, and the table
  tracks each peer once and never the leader (as in every run of a fresh node), with at least one active
  follower. It is a statement about the table: the code fills match indices with the last index that the follower
  reports, so it does not say what the log of that follower contains.
\<close>

theorem commit_meets_every_majority:
  assumes adv: "advance_commit_index E L s = Some s'" "rn_state s = Leader" "2 \<le> length (match_indices L s)"
    "rn_commit_index s < rn_commit_index s'"
    and table: "followers_ok s" "rn_id s \<in> set (members (rn_membership s))"
      "fst ` set (rn_followers s) \<subseteq> set (members (rn_membership s))"
    and cluster: "\<not> in_joint_consensus (rn_membership s)" "distinct (members (rn_membership s))"
    and voters: "V \<subseteq> set (members (rn_membership s))" "length (members (rn_membership s)) div 2 < card V"
  shows "holders s (rn_commit_index s') \<inter> V \<noteq> {}"
proof (rule majorities_intersect)
  let ?M = "set (members (rn_membership s))"
  have c: "committable L s (rn_commit_index s')"
    using advance_spec [OF adv(1-3)] adv(4) by auto
  show "finite ?M" "V \<subseteq> ?M" using voters by simp_all
  show "holders s (rn_commit_index s') \<subseteq> ?M"
    using table by (force simp: holders_def)
  have card: "card ?M = length (members (rn_membership s))" using cluster(2) by (rule distinct_card)
  show "card ?M div 2 + 1 \<le> card V" using card voters(2) by simp
  have "card (holders s (rn_commit_index s')) = replicated_by L s (rn_commit_index s')"
    by (rule card_holders [OF table(1)]) (use c in \<open>simp add: committable_def\<close>)
  then show "card ?M div 2 + 1 \<le> card (holders s (rn_commit_index s'))"
    using c card cluster(1)
    by (simp add: committable_def quorum_size_def membership_quorum_size_def)
qed

theorem commit_meets_every_majority_witness:
  "holders demo_leader 1 \<inter> {2, 3} \<noteq> {}"
proof -
  obtain s' where s': "advance_commit_index demo_env disk_raft_log demo_leader = Some s'"
    using demo_leader_advances by blast
  have "rn_commit_index s' = 1"
    using advance_spec [OF s'] demo_leader_committable by auto
  then show ?thesis
    using commit_meets_every_majority [OF s', of "{2, 3}"]
    by (simp add: followers_ok_def find_follower_def pipeline_limit_def demo_follower_def demo_cluster_def
        in_joint_consensus_def)
qed

section \<open>Application\<close>



section \<open>Replication\<close>

definition demo_append_request :: AppendEntriesRequest where
  "demo_append_request = \<lparr>ae_term = 1, ae_leader_id = 1, ae_prev_log_index = 0, ae_prev_log_term = 0,
     ae_entries = [noop_entry 1 1], ae_leader_commit = 0\<rparr>"

text \<open>
  C7: when a follower answers success to a batch that continues its log, the batch is stored: every
  entry sits at its index, the log ends with the batch, the entry before it has the term the leader
  named, and nothing before it changed.
\<close>

theorem append_success_stores_entries:
  assumes ok: "handle_append_entries E disk_raft_log req s = Some (resp, s')" "ar_success resp"
    and inv: "dl_inv (rn_log s)"
    and prev: "0 \<le> ae_prev_log_index req" "dl_last (rn_log s) \<le> ae_prev_log_index req"
    and es: "ae_entries req \<noteq> []" "wf_batch (ae_entries req)"
      "numbered_from (ae_prev_log_index req + 1) (ae_entries req)"
  shows "dl_inv (rn_log s') \<and>
    dl_last (rn_log s') = ae_prev_log_index req + int (length (ae_entries req)) \<and>
    (\<forall>k < length (ae_entries req).
       dl_entry_at (rn_log s') (ae_prev_log_index req + 1 + int k) = Some (ae_entries req ! k)) \<and>
    (0 < ae_prev_log_index req \<longrightarrow> dl_term_at (rn_log s) (ae_prev_log_index req) = ae_prev_log_term req) \<and>
    (\<forall>i \<le> ae_prev_log_index req. dl_entry_at (rn_log s') i = dl_entry_at (rn_log s) i)"
proof -
  have log_apply: "rn_log t' = rn_log t" if "apply_committed E disk_raft_log t = Some t'" for t t'
    by (rule apply_committed_frame [OF that]) simp
  have "append_entries_to_log disk_raft_log req (rn_log s) = (None, rn_log s')"
    using ok by (auto simp: handle_append_entries_def Let_def dest!: log_apply split: if_splits prod.splits option.splits)
  note acc = disk.append_accepted [OF inv prev(1) _ es this]
  show ?thesis using acc prev(2) by auto
qed

theorem append_success_stores_entries_witness:
  "\<exists>resp s'. handle_append_entries demo_env disk_raft_log demo_append_request (demo_node 2) = Some (resp, s') \<and>
     ar_success resp \<and> dl_entry_at (rn_log s') 1 = Some (noop_entry 1 1)"
proof -
  let ?r = "handle_append_entries demo_env disk_raft_log demo_append_request (demo_node 2)"
  have "append_entries_to_log disk_raft_log demo_append_request demo_log = (None, demo_log1)"
    by (simp add: append_entries_to_log_def check_prev_log_def demo_append_request_def demo_append_eq kNoLogIndex_def)
  then obtain resp s' where r: "?r = Some (resp, s')" "ar_success resp"
    by (simp add: handle_append_entries_def demo_append_request_def Let_def)
  then show ?thesis
    using append_success_stores_entries [OF r]
    by (simp add: demo_append_request_def in_int64_def)
qed

text \<open>
  A batch that overlaps the follower's log is refused whatever it contains, even when the
  preceding entry matches: the truncation that prepares the append removes that entry too. The
  follower has then lost every entry from the preceding one on.
\<close>

theorem overlapping_batch_refused:
  assumes inv: "dl_inv l" and prev: "0 < ae_prev_log_index req" "dl_first l \<le> ae_prev_log_index req"
      "ae_prev_log_index req < dl_last l"
    and es: "ae_entries req \<noteq> []" "numbered_from (ae_prev_log_index req + 1) (ae_entries req)"
    and match: "dl_term_at l (ae_prev_log_index req) = ae_prev_log_term req"
  shows "\<exists>l'. append_entries_to_log disk_raft_log req l = (Some (ae_prev_log_index req + 1), l') \<and>
    dl_last l' = ae_prev_log_index req - 1"
  using disk.append_overlap_refused [OF inv prev(1) _ _ es] prev match by simp

theorem overlapping_batch_refused_witness:
  "\<exists>l'. append_entries_to_log disk_raft_log
     \<lparr>ae_term = 1, ae_leader_id = 1, ae_prev_log_index = 1, ae_prev_log_term = 1,
      ae_entries = [noop_entry 1 2], ae_leader_commit = 0\<rparr> demo_log2 = (Some 2, l') \<and> dl_last l' = 0"
  using overlapping_batch_refused [of demo_log2 "\<lparr>ae_term = 1, ae_leader_id = 1, ae_prev_log_index = 1,
    ae_prev_log_term = 1, ae_entries = [noop_entry 1 2], ae_leader_commit = 0\<rparr>"] by simp

text \<open>
  The conflict index a follower returns for a mismatching preceding entry is the first index of
  the run of entries that share that entry's term: it is not past the preceding index, the whole
  run has the term, and the run does not extend further down.
\<close>

theorem conflict_index_is_start_of_term:
  assumes "check_prev_log L l p t = Some c" "p \<le> last_index L l" "first_index L l \<le> p" "term_at L l p \<noteq> kNoTerm"
  shows "first_index L l \<le> c \<and> c \<le> p \<and> (\<forall>j. c \<le> j \<longrightarrow> j \<le> p \<longrightarrow> term_at L l j = term_at L l p) \<and>
    (first_index L l < c \<longrightarrow> term_at L l (c - 1) \<noteq> term_at L l p)"
proof -
  have "c = conflict_scan L l (term_at L l p) p"
    using assms by (auto simp: check_prev_log_def Let_def split: if_splits)
  then show ?thesis using conflict_scan_spec [OF assms(3) refl] by blast
qed

theorem conflict_index_is_start_of_term_witness:
  "check_prev_log disk_raft_log demo_log1 1 9 = Some 1 \<and> dl_first demo_log1 \<le> 1"
proof -
  obtain c where c: "check_prev_log disk_raft_log demo_log1 1 9 = Some c"
    by (simp add: check_prev_log_def Let_def)
  from conflict_index_is_start_of_term [OF this] have "c = 1" by (simp add: kNoTerm_def)
  with c show ?thesis by simp
qed

text \<open>
  A batch sent to a follower respects the byte budget: it is a prefix of what was read from the
  log, and unless it is a single entry its entries together stay within
  \<^verbatim>\<open>max_append_bytes\<close>.
\<close>

theorem append_batch_within_budget:
  "(\<exists>rest n. append_batch L s f @ rest = get_entries L (rn_log s) (fs_next_index f) n) \<and>
   (length (append_batch L s f) \<le> 1 \<or>
    sum_list (map log_entry_byte_size (append_batch L s f)) \<le> max_append_bytes (rn_config s))"
proof -
  define n where "n = fs_next_index f + int (min (min (max_entries_per_append (rn_config s)) kHardMaxEntriesPerAppend)
    (nat (last_index L (rn_log s) - fs_next_index f + 1))) - 1"
  let ?es = "get_entries L (rn_log s) (fs_next_index f) n"
  let ?k = "keep_within (max_append_bytes (rn_config s)) 0 0 ?es"
  have batch: "append_batch L s f = take ?k ?es" by (simp add: append_batch_def Let_def n_def)
  then have "append_batch L s f @ drop ?k ?es = ?es" by simp
  moreover have "?k \<le> 1 \<or> sum_list (map log_entry_byte_size (take ?k ?es)) \<le> max_append_bytes (rn_config s)"
    using keep_within_budget [of 0 "max_append_bytes (rn_config s)" 0 ?es] by (cases "?k \<le> 1") simp_all
  ultimately show ?thesis unfolding batch using keep_within_le by (metis length_take min.absorb2)
qed

section \<open>Client operations\<close>

text \<open>
  An accepted proposal is stored: it gets the index after the last one, the leader's log ends
  with it under the current term, all earlier entries are as before, and neither the commit index
  nor the state machine has moved.
\<close>

theorem propose_stores_command:
  assumes ok: "propose disk_raft_log c s = (Inr i, s')" and inv: "dl_inv (rn_log s)"
    and wf: "wf_batch [\<lparr>le_term = rn_current_term s, le_index = dl_last (rn_log s) + 1, le_command = c\<rparr>]"
  shows "i = dl_last (rn_log s) + 1 \<and> dl_inv (rn_log s') \<and> dl_last (rn_log s') = i \<and>
    dl_entry_at (rn_log s') i = Some \<lparr>le_term = rn_current_term s, le_index = i, le_command = c\<rparr> \<and>
    (\<forall>j < i. dl_entry_at (rn_log s') j = dl_entry_at (rn_log s) j) \<and>
    rn_commit_index s' = rn_commit_index s \<and> rn_applied s' = rn_applied s"
proof -
  note st = disk.propose_stored [OF ok inv]
  have "rn_commit_index s' = rn_commit_index s \<and> rn_applied s' = rn_applied s"
    using ok by (auto simp: propose_def Let_def split: if_splits prod.splits)
  then show ?thesis using st wf by simp
qed

lemma demo_leader_running: "rn_running demo_leader" "\<not> rn_transferring demo_leader"
  "rn_pending_config_index demo_leader = 0"
  by (simp_all add: demo_leader_def) (simp add: demo_node_def new_raft_node_def)

lemma demo_leader_propose: "\<exists>s'. propose disk_raft_log NoOp demo_leader = (Inr 2, s')"
  by (simp add: propose_def Let_def demo_leader_running demo_append2_eq demo_cluster_def is_member_def kNoLogIndex_def)

theorem propose_stores_command_witness:
  "\<exists>s'. propose disk_raft_log NoOp demo_leader = (Inr 2, s') \<and> dl_entry_at (rn_log s') 2 = Some (noop_entry 1 2)"
proof -
  obtain s' where p: "propose disk_raft_log NoOp demo_leader = (Inr 2, s')" using demo_leader_propose by blast
  from propose_stores_command [OF this] show ?thesis using p by (simp add: in_int64_def)
qed

text \<open>
  Every refusal of a proposal has its cause, and only the failed append touches the node: a
  stopped node, a node that is not leader, not a member or handing over, a second configuration
  change, an empty membership.
\<close>

theorem propose_refusals:
  assumes "propose L c s = (Inl e, s')"
  shows "(e = shutdown_in_progress \<longrightarrow> \<not> rn_running s) \<and>
    (e = not_leader_for_partition \<longrightarrow>
       rn_state s \<noteq> Leader \<or> rn_id s \<notin> set (members (rn_membership s)) \<or> rn_transferring s) \<and>
    (e = reassignment_in_progress \<longrightarrow> rn_pending_config_index s \<noteq> 0 \<and> (\<exists>cc. c = ConfigChange cc)) \<and>
    (e = broker_not_available \<longrightarrow> members (rn_membership s) = []) \<and>
    (e \<noteq> corrupt_message \<longrightarrow> s' = s)"
  using assms by (auto simp: propose_def is_member_def Let_def split: if_splits prod.splits RaftCommand.splits)

theorem propose_refusals_witness:
  "propose disk_raft_log NoOp (demo_node 1) = (Inl not_leader_for_partition, demo_node 1) \<and>
   rn_state (demo_node 1) \<noteq> Leader"
proof -
  have p: "propose disk_raft_log NoOp (demo_node 1) = (Inl not_leader_for_partition, demo_node 1)"
    by (simp add: propose_def)
  from propose_refusals [OF this] show ?thesis using p by simp
qed

text \<open>
  Configuration changes are fenced: once one is accepted, no further one is, whatever else is
  proposed in between, until a configuration entry is applied.
\<close>

theorem config_changes_fenced:
  assumes "propose L (ConfigChange cc) s = (Inr i, s1)" "i \<noteq> 0"
    and "propose L c s1 = (r, s2)"
  shows "(\<exists>e. fst (propose L (ConfigChange cc') s1) = Inl e) \<and> (\<exists>e. fst (propose L (ConfigChange cc') s2) = Inl e)"
proof -
  have blocked: "\<exists>e. fst (propose L (ConfigChange cc') t) = Inl e" if "rn_pending_config_index t \<noteq> 0" for t
    using that by (simp add: propose_def)
  have s1: "rn_pending_config_index s1 = i"
    using assms(1) by (auto simp: propose_def Let_def split: if_splits prod.splits)
  have "rn_pending_config_index s2 \<noteq> 0"
    using assms(2,3) s1 by (auto simp: propose_def Let_def split: if_splits prod.splits RaftCommand.splits)
  then show ?thesis using blocked s1 assms(2) by auto
qed

definition demo_change :: ConfigChangeCommand where
  "demo_change = \<lparr>cc_new_members = [1, 2], cc_joint_consensus = False, cc_old_members = []\<rparr>"

lemma demo_leader_change: "\<exists>s'. propose disk_raft_log (ConfigChange demo_change) demo_leader = (Inr 2, s')"
proof -
  let ?e = "\<lparr>le_term = 1, le_index = 2, le_command = ConfigChange demo_change\<rparr>"
  have "length (serialize_batch [?e]) = 46" "length (make_frame [?e]) = 62"
    by (simp_all add: serialize_batch_def serialize_entry_def make_frame_def Let_def config_payload_def
        length_write_members demo_change_def)
  then have "fst (dl_append demo_log1 1 1 [?e]) = 2"
    by (subst dl_append_returns) (simp_all add: demo_log1_os kMaxBatchBytes_def kNoTerm_def)
  then obtain l where "dl_append demo_log1 1 1 [?e] = (2, l)" by (metis prod.collapse)
  then show ?thesis
    by (simp add: propose_def Let_def demo_leader_running demo_cluster_def is_member_def kNoLogIndex_def)
qed

theorem config_changes_fenced_witness:
  "\<exists>s e. propose disk_raft_log (ConfigChange demo_change) demo_leader = (Inr 2, s) \<and>
     fst (propose disk_raft_log (ConfigChange demo_change) s) = Inl e"
proof -
  obtain s where s: "propose disk_raft_log (ConfigChange demo_change) demo_leader = (Inr 2, s)"
    using demo_leader_change by blast
  show ?thesis using config_changes_fenced [OF s _ prod.collapse [symmetric], where c = NoOp and cc' = demo_change] s by auto
qed

section \<open>Stepping down\<close>

lemma state_config_change:
  "rn_state s = Follower \<Longrightarrow> rn_state (process_config_change E L cmd s) = Follower"
  by (simp add: process_config_change_def apply_direct_membership_change_def apply_joint_consensus_entry_def
      apply_joint_consensus_finalization_def Let_def)

lemma follower_apply_committed:
  assumes "apply_committed E L s = Some s'" "rn_state s = Follower"
  shows "rn_state s' = Follower \<and> rn_current_term s' = rn_current_term s"
proof
  show "rn_state s' = Follower"
    by (rule apply_committed_induct [where P = "\<lambda>s. rn_state s = Follower", OF assms])
      (simp add: apply_entry_def Let_def state_config_change split: RaftCommand.split)
  show "rn_current_term s' = rn_current_term s"
    using vote_state_apply_committed [OF assms(1)] by (simp add: vote_state_def)
qed

text \<open>
  Whichever message first shows a node a higher term (a request of another leader or candidate,
  or an answer to its own requests), the node adopts that term and is a follower afterwards.
\<close>

theorem higher_term_steps_down:
  assumes "rn_current_term s < t"
  shows "(ae_term ae = t \<longrightarrow> handle_append_entries E L ae s = Some (r1, s1) \<longrightarrow>
            rn_current_term s1 = t \<and> rn_state s1 = Follower) \<and>
    (rv_term rv = t \<longrightarrow> \<not> rv_pre_vote rv \<longrightarrow> handle_request_vote E L rv s = (r2, s2) \<longrightarrow>
            rn_current_term s2 = t \<and> rn_state s2 = Follower) \<and>
    (is_term ins = t \<longrightarrow> handle_install_snapshot E L ins s = (r3, s3) \<longrightarrow>
            rn_current_term s3 = t \<and> rn_state s3 = Follower) \<and>
    (rn_state s = Leader \<longrightarrow> ar_term ar = t \<longrightarrow> handle_append_entries_response E L p ar s = Some s4 \<longrightarrow>
            rn_current_term s4 = t \<and> rn_state s4 = Follower) \<and>
    (rn_state s = Leader \<longrightarrow> sr_term sr = t \<longrightarrow> handle_install_snapshot_response E L p sr s = Some s5 \<longrightarrow>
            rn_current_term s5 = t \<and> rn_state s5 = Follower) \<and>
    (rn_state s = Candidate \<longrightarrow> vr_term vr = t \<longrightarrow>
            rn_current_term (handle_request_vote_response E L vr s) = t \<and>
            rn_state (handle_request_vote_response E L vr s) = Follower)"
proof -
  have ae: "rn_current_term s1 = t \<and> rn_state s1 = Follower"
    if "ae_term ae = t" "handle_append_entries E L ae s = Some (r1, s1)"
    using that assms by (auto simp: handle_append_entries_def Let_def
        dest!: follower_apply_committed split: prod.splits option.splits if_splits)
  have ins: "rn_current_term s3 = t \<and> rn_state s3 = Follower"
    if "is_term ins = t" "handle_install_snapshot E L ins s = (r3, s3)"
    using that assms by (auto simp: handle_install_snapshot_def install_snapshot_def write_file_atomic_def Let_def
        split: if_splits)
  show ?thesis using assms ae ins
    by (auto simp: handle_request_vote_def handle_append_entries_response_def handle_install_snapshot_response_def
        handle_request_vote_response_def Let_def split: if_splits)
qed

theorem higher_term_steps_down_witness:
  "rn_current_term (snd (handle_request_vote demo_env disk_raft_log (vote_for 2 5) demo_leader)) = 5 \<and>
   rn_state (snd (handle_request_vote demo_env disk_raft_log (vote_for 2 5) demo_leader)) = Follower"
  using higher_term_steps_down [of demo_leader 5 _ demo_env disk_raft_log _ _ "vote_for 2 5",
      THEN conjunct2, THEN conjunct1, rule_format, OF _ _ _ prod.collapse [symmetric]]
  by (simp add: vote_for_def)

section \<open>Snapshots\<close>

text \<open>
  C27: a snapshot sent in chunks is reassembled: a follower that receives the chunks of one transfer
  in order writes exactly their concatenation to its snapshot file, installs the snapshot in its
  log under the index and term of the transfer, and moves its commit and applied index up to it.
\<close>

theorem snapshot_reassembled:
  assumes "chunk_sequence 0 (r # rs)" "\<forall>q \<in> set (r # rs). is_term q = rn_current_term s"
    "\<forall>n. env_write_ok E n"
  shows "snapshot_installed L r (concat (map is_data (r # rs))) s (receive_chunks E L (r # rs) s)"
  using assms by (rule receive_all)

definition demo_chunk :: "nat \<Rightarrow> bytes \<Rightarrow> bool \<Rightarrow> InstallSnapshotRequest" where
  "demo_chunk off d fin = \<lparr>is_term = 0, is_leader_id = 1, is_last_included_index = 4, is_last_included_term = 2,
     is_offset = off, is_data = d, is_done = fin\<rparr>"

theorem snapshot_reassembled_witness:
  "snapshot_installed disk_raft_log (demo_chunk 0 [7, 8] False) [7, 8, 9] (demo_node 2)
     (receive_chunks demo_env disk_raft_log [demo_chunk 0 [7, 8] False, demo_chunk 2 [9] True] (demo_node 2))"
  using snapshot_reassembled [of "demo_chunk 0 [7, 8] False" "[demo_chunk 2 [9] True]" "demo_node 2" demo_env disk_raft_log]
  by (simp add: demo_chunk_def)

text \<open>
  Taking a snapshot compacts the log without losing anything above the commit index: the log
  then starts right after it, still knows the term at it, every later entry reads as before, and
  the image with the index, term, time and membership is in the file the snapshot names.
\<close>

theorem snapshot_keeps_uncommitted_suffix:
  assumes ok: "create_snapshot E disk_raft_log s = (snap, s')" "snapshot_is_valid snap"
    and inv: "dl_inv (rn_log s)" and le: "rn_commit_index s \<le> dl_last (rn_log s)"
  shows "dl_inv (rn_log s') \<and> dl_first (rn_log s') = rn_commit_index s + 1 \<and>
    dl_last (rn_log s') = dl_last (rn_log s) \<and>
    dl_term_at (rn_log s') (rn_commit_index s) = dl_term_at (rn_log s) (rn_commit_index s) \<and>
    (\<forall>i > rn_commit_index s. dl_entry_at (rn_log s') i = dl_entry_at (rn_log s) i) \<and>
    map_of (rn_files s') (snap_file_path snap) =
      Some (snapshot_image (rn_commit_index s) (snap_last_included_term snap) (snap_created_at_ms snap) (rn_membership s))"
  using disk.create_snapshot_log [OF ok inv] le by simp

definition demo_compactable :: "DiskRaftLog RaftNode" where
  "demo_compactable = demo_leader\<lparr>rn_log := demo_log2, rn_commit_index := 2\<rparr>"

lemma demo_log2_term: "dl_term_at demo_log2 2 = 1"
  using dl_append_spec(5) [OF demo_log1_simps(1) _ _ wf_noop_batch _ _ demo_append2_eq, of 2]
  by (simp add: kNoLogIndex_def in_int64_def)

theorem snapshot_keeps_uncommitted_suffix_witness:
  "dl_first (rn_log (snd (create_snapshot demo_env disk_raft_log demo_compactable))) = 3"
proof -
  let ?r = "create_snapshot demo_env disk_raft_log demo_compactable"
  have "snapshot_is_valid (fst ?r)"
    by (simp add: create_snapshot_def demo_compactable_def write_file_atomic_def Let_def demo_log2_term kNoTerm_def
        snapshot_is_valid_def snapshot_path_def)
  from snapshot_keeps_uncommitted_suffix [OF prod.collapse [symmetric] this]
  show ?thesis by (simp add: demo_compactable_def)
qed

section \<open>Where the code departs from its intent\<close>

definition pre_vote_by :: "RaftNodeId \<Rightarrow> RequestVoteRequest" where
  "pre_vote_by c = (vote_for c 1)\<lparr>rv_pre_vote := True\<rparr>"

definition pre_vote_grant :: RequestVoteResponse where
  "pre_vote_grant = \<lparr>vr_term = 0, vr_vote_granted = True\<rparr>"

text \<open>A node after its election timeout and two answers to its pre-vote requests.\<close>

definition after_two_grants :: "RaftNodeId \<Rightarrow> DiskRaftLog RaftNode" where
  "after_two_grants p =
     handle_request_vote_response demo_env disk_raft_log pre_vote_grant
       (handle_request_vote_response demo_env disk_raft_log pre_vote_grant
         (on_election_timeout demo_env disk_raft_log (demo_node p)))"

lemma become_leader_elected:
  assumes "members (rn_membership s) \<noteq> []"
    "fst (append_log L (rn_log s) (last_index L (rn_log s)) (term_at L (rn_log s) (last_index L (rn_log s)))
       [noop_entry (rn_current_term s) (last_index L (rn_log s) + 1)]) \<noteq> kNoLogIndex"
  shows "rn_state (become_leader E L s) = Leader"
  using assms by (auto simp: become_leader_def Let_def core_eqD [OF core_fold_track_all] split: prod.split)

lemma pre_grant_elects:
  assumes "rn_state s = PreCandidate" "vr_term v \<le> rn_current_term s + 1" "vr_vote_granted v"
    "quorum_size s \<le> rn_pre_votes_received s + 1"
  shows "handle_request_vote_response E L v s =
    become_candidate E L (s\<lparr>rn_pre_votes_received := rn_pre_votes_received s + 1\<rparr>)"
  using assms by (simp add: handle_request_vote_response_def tally_votes_def Let_def quorum_size_def)

lemma grant_elects:
  assumes "rn_state s = Candidate" "vr_term v \<le> rn_current_term s" "vr_vote_granted v"
    "quorum_size s \<le> rn_votes_received s + 1"
  shows "handle_request_vote_response E L v s = become_leader E L (s\<lparr>rn_votes_received := rn_votes_received s + 1\<rparr>)"
  using assms by (simp add: handle_request_vote_response_def tally_votes_def Let_def quorum_size_def)

lemma demo_quorum: "quorum_size s = 2" if "rn_membership s = demo_cluster"
  using that by (simp add: quorum_size_def membership_quorum_size_def demo_cluster_def in_joint_consensus_def)

lemma demo_config: "enable_pre_vote (rn_config (demo_node p))"
  by (simp add: demo_node_def new_raft_node_def validate_raft_config_def default_raft_config_def Let_def)

lemma after_two_grants_leads: "rn_state (after_two_grants p) = Leader \<and> rn_current_term (after_two_grants p) = 1"
proof -
  let ?E = demo_env and ?L = disk_raft_log
  let ?pre = "on_election_timeout ?E ?L (demo_node p)"
  let ?cand = "handle_request_vote_response ?E ?L pre_vote_grant ?pre"
  have mem: "members demo_cluster \<noteq> []" by (simp add: demo_cluster_def)
  have pre: "rn_state ?pre = PreCandidate" "rn_pre_votes_received ?pre = 1" "rn_current_term ?pre = 0"
    "rn_membership ?pre = demo_cluster" "rn_log ?pre = demo_log"
    using mem by (simp_all add: on_election_timeout_def become_pre_candidate_def demo_config)
  have cand: "?cand = become_candidate ?E ?L (?pre\<lparr>rn_pre_votes_received := 2\<rparr>)"
    by (subst pre_grant_elects) (use pre demo_quorum [of ?pre] in \<open>simp_all add: pre_vote_grant_def eval_nat_numeral\<close>)
  have c: "rn_state ?cand = Candidate" "rn_current_term ?cand = 1" "rn_membership ?cand = demo_cluster"
    "rn_log ?cand = demo_log" "rn_votes_received ?cand = 1"
    unfolding cand using pre mem by (simp_all add: become_candidate_def)
  let ?c' = "?cand\<lparr>rn_votes_received := 2\<rparr>"
  have lead: "after_two_grants p = become_leader ?E ?L ?c'"
    unfolding after_two_grants_def
    by (subst grant_elects) (use c demo_quorum [of ?cand] in \<open>simp_all add: pre_vote_grant_def eval_nat_numeral\<close>)
  show ?thesis unfolding lead using become_leader_elected [of ?c' ?L ?E] c mem demo_append [of 1]
      vote_stateD(3) [OF become_leader_vote [of ?E ?L ?c']]
    by (simp add: kNoLogIndex_def kNoTerm_def)
qed

text \<open>
  Grants are counted by the state of the receiver alone, so a late answer to a pre-vote request
  counts as a real vote. In a cluster of three whose nodes all answer the pre-vote requests of
  nodes 1 and 2 (which binds none of them), both nodes become leader of term 1 and no node has
  voted for another. This is one computed scenario; the membership of its nodes is set by hand, since no
  method of the source ever sets it.
\<close>

theorem pre_votes_elect_two_leaders:
  "(\<forall>q c. handle_request_vote demo_env disk_raft_log (pre_vote_by c) (demo_node q) = (pre_vote_grant, demo_node q)) \<and>
   rn_state (after_two_grants 1) = Leader \<and> rn_state (after_two_grants 2) = Leader \<and>
   rn_current_term (after_two_grants 1) = rn_current_term (after_two_grants 2)"
  using after_two_grants_leads
  by (simp add: handle_request_vote_def pre_vote_by_def vote_for_def pre_vote_grant_def log_is_up_to_date_def
      Let_def kNoTerm_def)

text \<open>
  The quorum of joint consensus is the larger of the two majorities counted over the union of
  both configurations, not a majority of each: with three old and three new members two disjoint
  sets of nodes are both of quorum size.
\<close>

theorem joint_quorums_can_be_disjoint:
  "\<exists>m A B. in_joint_consensus m \<and> A \<subseteq> set (quorum_set m) \<and> B \<subseteq> set (quorum_set m) \<and>
     membership_quorum_size m \<le> card A \<and> membership_quorum_size m \<le> card B \<and> A \<inter> B = {}"
  by (rule exI [of _ "\<lparr>members = [1, 2, 3], joint_members = [4, 5, 6], config_index = 0\<rparr>"],
      rule exI [of _ "{1, 2}"], rule exI [of _ "{4, 5}"])
    (simp add: set_quorum_set in_joint_consensus_def membership_quorum_size_def)

text \<open>
  The first entry of a log is never replicated by the heartbeat thread: for a follower that
  needs index 1 of a log that starts at 1, the replication step takes the snapshot branch, which
  has no snapshot to send, so it does nothing at all.
\<close>

theorem first_entry_not_replicated:
  assumes "find_follower s p = Some f" "fs_next_index f = 1" "first_index L (rn_log s) = 1"
  shows "replicate_to_follower E L p s = s"
  using assms by (simp add: replicate_to_follower_def send_install_snapshot_to_def)

theorem first_entry_not_replicated_witness:
  "replicate_to_follower demo_env disk_raft_log 3 demo_leader = demo_leader"
  using first_entry_not_replicated [of demo_leader 3 "demo_follower 0" disk_raft_log demo_env]
  by (simp add: find_follower_def demo_follower_def)

text \<open>
  A pre-vote round that fails is never repeated: an election timeout of a node that is already
  a pre-candidate sends nothing and changes nothing but the clock reading, although the comment in
  \<^verbatim>\<open>become_pre_candidate\<close> announces a return to follower.
\<close>

theorem failed_pre_vote_is_final:
  assumes "rn_state s = PreCandidate" "enable_pre_vote (rn_config s)"
  shows "election_tick E L s = s\<lparr>rn_oracle := rn_oracle s + 1\<rparr>"
  using assms by (simp add: election_tick_def on_election_timeout_def become_pre_candidate_def Let_def)

theorem failed_pre_vote_is_final_witness:
  "rn_state (election_tick demo_env disk_raft_log ((demo_node 1)\<lparr>rn_state := PreCandidate\<rparr>)) = PreCandidate"
  using failed_pre_vote_is_final [of "(demo_node 1)\<lparr>rn_state := PreCandidate\<rparr>" demo_env disk_raft_log]
  by (simp add: demo_config)

text \<open>
  A follower reports the length its log had before the append: after a batch that continues
  its log the answer names the old last index, so the leader learns of a stored entry only from a
  later message.
\<close>

theorem append_answer_reports_old_length:
  assumes "handle_append_entries E L req s = Some (resp, s')"
  shows "ar_last_log_index resp = last_index L (rn_log s)"
  using assms by (auto simp: handle_append_entries_def Let_def split: prod.splits option.splits if_splits)

theorem append_answer_reports_old_length_witness:
  "\<exists>resp s'. handle_append_entries demo_env disk_raft_log demo_append_request (demo_node 2) = Some (resp, s') \<and>
     ar_last_log_index resp = 0"
proof -
  have "append_entries_to_log disk_raft_log demo_append_request demo_log = (None, demo_log1)"
    by (simp add: append_entries_to_log_def check_prev_log_def demo_append_request_def demo_append_eq kNoLogIndex_def)
  then obtain resp s' where r: "handle_append_entries demo_env disk_raft_log demo_append_request (demo_node 2) = Some (resp, s')"
    by (simp add: handle_append_entries_def demo_append_request_def Let_def)
  show ?thesis using append_answer_reports_old_length [OF r] r by simp
qed

text \<open>
  A follower's commit index can go backwards: a heartbeat that names no preceding entry and a
  higher leader commit sets it to 0, whatever was committed before.
\<close>

theorem follower_commit_can_drop:
  assumes "rn_state s = Follower" "ae_term req = rn_current_term s" "ae_entries req = []"
    "ae_prev_log_index req = 0" "0 \<le> rn_commit_index s" "rn_commit_index s < ae_leader_commit req"
    "0 \<le> rn_last_applied s"
  shows "\<exists>resp s'. handle_append_entries E L req s = Some (resp, s') \<and> rn_commit_index s' = 0"
  using assms
  by (simp add: handle_append_entries_def append_entries_to_log_def check_prev_log_def Let_def apply_committed.simps)

theorem follower_commit_can_drop_witness:
  "\<exists>resp s'. handle_append_entries demo_env disk_raft_log
     (demo_append_request\<lparr>ae_entries := [], ae_leader_commit := 9\<rparr>)
     ((demo_node 2)\<lparr>rn_current_term := 1, rn_log := demo_log2, rn_commit_index := 2\<rparr>) = Some (resp, s') \<and>
     rn_commit_index s' = 0"
  by (rule follower_commit_can_drop) (simp_all add: demo_append_request_def)

lemma demo_leader_heartbeat: "0 < heartbeat_interval (rn_config demo_leader)"
  by (simp add: demo_leader_def demo_node_def new_raft_node_def validate_raft_config_def default_raft_config_def Let_def)

text \<open>
  The heartbeat thread stops for good once the log reaches the snapshot threshold: the pass that
  would take the snapshot locks a mutex the thread already holds (\<open>None\<close>).
\<close>

theorem snapshot_threshold_blocks_heartbeats:
  assumes "rn_state s = Leader" "snapshot_threshold_entries (rn_config s) \<le> entry_count L (rn_log s)"
    "quorum_size s \<le> recently_acked (env_clock E (rn_oracle s)) (millis (heartbeat_interval (rn_config s) * 3)) s + 1"
  shows "heartbeat_tick E L s = None"
  using assms by (simp add: heartbeat_tick_def maybe_create_snapshot_def Let_def recently_acked_def quorum_size_def)

theorem snapshot_threshold_blocks_heartbeats_witness:
  "heartbeat_tick demo_env disk_raft_log
     (demo_leader\<lparr>rn_config := (rn_config demo_leader)\<lparr>snapshot_threshold_entries := 0\<rparr>\<rparr>) = None"
  by (rule snapshot_threshold_blocks_heartbeats)
    (simp_all add: demo_quorum recently_acked_def demo_follower_def millis_def demo_leader_heartbeat)

end
