(* ===== verification/Raft_Log_Recovery.thy ===== *)
theory Raft_Log_Recovery
  imports Raft_Log
begin

text \<open>
  What a restart of \<^verbatim>\<open>DiskRaftLog\<close> finds: \<open>reopened d\<close> is the constructor run on the files that
  \<open>d\<close> left. As long as only appends and suffix truncations happened and writes are not cut short,
  \<^verbatim>\<open>log.idx\<close> is the serialised index (\<open>idx_synced\<close>), and every entry is read back. The batch
  lengths are not in the file, and a truncation after the restart computes its cut from them.
\<close>

section \<open>The index file\<close>

definition ie_record :: "IndexEntry \<Rightarrow> bytes" where
  "ie_record ie = write_i64_le [] (ie_index ie) @ write_u64_le [] (of_nat (ie_offset ie)) @
     write_i64_le [] (ie_term ie)"

definition idx_synced :: "DiskRaftLog \<Rightarrow> bool" where
  "idx_synced d \<longleftrightarrow> dl_idx d = concat (map (ie_record \<circ> snd) (dl_index d)) \<and>
     dl_idx_size d = length (dl_idx d)"

definition encodable :: "IndexEntry \<Rightarrow> bool" where
  "encodable ie \<longleftrightarrow> in_int64 (ie_index ie) \<and> in_int64 (ie_term ie) \<and> ie_offset ie < 2 ^ 64"

definition unlengthed :: "IndexEntry \<Rightarrow> IndexEntry" where
  "unlengthed ie = ie\<lparr>ie_batch_length := 0\<rparr>"

definition reopened :: "DiskRaftLog \<Rightarrow> DiskRaftLog" where
  "reopened d = open_disk_log (dl_data d) (dl_idx d) (dl_meta d) (dl_batching d) (dl_os_write d)"

lemma length_ie_record [simp]: "length (ie_record ie) = kIndexEntrySize"
  by (simp add: ie_record_def kIndexEntrySize_def)

lemma length_records [simp]: "length (concat (map (ie_record \<circ> snd) m)) = length m * kIndexEntrySize"
  by (induction m) simp_all

lemma unat_of_nat_u64: "n < 2 ^ 64 \<Longrightarrow> unat (of_nat n :: u64) = n"
  by (simp add: unat_of_nat)

lemma read_ie_record:
  assumes "encodable ie"
  shows "read_index_records (Suc n) (ie_record ie @ rest) = map_option (\<lambda>ies. unlengthed ie # ies) (read_index_records n rest)"
proof -
  have "unat (of_nat (ie_offset ie) :: u64) = ie_offset ie"
    using assms by (intro unat_of_nat_u64) (simp add: encodable_def)
  moreover have "in_int64 (ie_index ie)" "in_int64 (ie_term ie)"
    using assms by (simp_all add: encodable_def)
  ultimately show ?thesis
    by (cases "read_index_records n rest") (simp_all add: ie_record_def read_write_i64 read_write_u64 unlengthed_def)
qed

lemma read_index_records_concat:
  "list_all encodable ies \<Longrightarrow>
   read_index_records (length ies) (concat (map ie_record ies) @ rest) = Some (map unlengthed ies)"
proof (induction ies)
  case (Cons ie ies)
  then show ?case using read_ie_record [of ie "length ies"] by (simp del: read_index_records.simps)
qed simp

lemma omap_inv_hd_le: "omap_inv m \<Longrightarrow> p \<in> set m \<Longrightarrow> fst (hd m) \<le> fst p"
  by (cases m) (auto simp: omap_inv_Cons intro: less_imp_le)

lemma omap_put_last: "\<forall>p \<in> set m. fst p < k \<Longrightarrow> omap_put k v m = m @ [(k, v)]"
proof (induction m)
  case (Cons p m)
  then show ?case by (cases p) (auto dest: less_asym)
qed simp

lemma fold_omap_put_sorted:
  assumes "omap_inv (m @ map (\<lambda>x. (f x, g x)) xs)"
  shows "fold (\<lambda>x m. omap_put (f x) (g x) m) xs m = m @ map (\<lambda>x. (f x, g x)) xs"
  using assms
proof (induction xs arbitrary: m)
  case (Cons x xs)
  then have "omap_put (f x) (g x) m = m @ [(f x, g x)]"
    by (intro omap_put_last) (auto simp: omap_inv_def sorted_wrt_append)
  with Cons show ?case by simp
qed simp

lemma take_records:
  "take (n * kIndexEntrySize) (concat (map (ie_record \<circ> snd) m)) = concat (map (ie_record \<circ> snd) (take n m))"
proof (induction m arbitrary: n)
  case (Cons p m)
  then show ?case by (cases n) simp_all
qed simp

lemma dl_index_encodable:
  assumes "dl_inv d" "length (dl_data d) < 2 ^ 64" "(k, ie) \<in> set (dl_index d)"
  shows "encodable ie" "ie_index ie = k"
proof -
  obtain es e where "ie_index ie = k" and b: "batch_at (dl_data d) ie es" and e: "e \<in> set es" "le_index e = k"
    "le_term e = ie_term ie" using dl_inv_batches [OF assms(1,3)] by blast
  moreover from b e(1) have "wf_entry e" by (auto simp: batch_at_def wf_batch_def list_all_iff)
  moreover have "ie_offset ie < 2 ^ 64" using batch_at_end [OF b] assms(2) by simp
  ultimately show "encodable ie" "ie_index ie = k" by (auto simp: encodable_def wf_entry_def)
qed

section \<open>Reopening\<close>

lemma read_meta_line_frame [simp]:
  "dl_data (fold read_meta_line ls d) = dl_data d" "dl_snapshot (fold read_meta_line ls d) = dl_snapshot d"
  "dl_idx (fold read_meta_line ls d) = dl_idx d" "dl_idx_size (fold read_meta_line ls d) = dl_idx_size d"
  by (induction ls arbitrary: d) (simp_all add: read_meta_line_def)

lemma read_meta_frame [simp]:
  "dl_data (read_meta d) = dl_data d" "dl_snapshot (read_meta d) = dl_snapshot d"
  "dl_idx (read_meta d) = dl_idx d" "dl_idx_size (read_meta d) = dl_idx_size d"
  by (simp_all add: read_meta_def split: option.split)

lemma recover_index_frame [simp]:
  "dl_data (recover_index d) = dl_data d" "dl_snapshot (recover_index d) = dl_snapshot d"
  by (simp_all add: recover_index_def Let_def split: option.split)

lemma reopened_frame [simp]: "dl_data (reopened d) = dl_data d" "dl_snapshot (reopened d) = None"
  by (simp_all add: reopened_def open_disk_log_def)

lemma recover_index_records:
  assumes "dl_idx d = concat (map ie_record ies)" "dl_idx_size d = length (dl_idx d)"
    and "list_all encodable ies" "omap_inv (map (\<lambda>ie. (ie_index ie, ie)) ies)" "ies \<noteq> []"
  shows "dl_index (recover_index d) = map (\<lambda>ie. (ie_index ie, unlengthed ie)) ies"
    and "dl_first (recover_index d) = ie_index (hd ies)" "dl_last (recover_index d) = ie_index (last ies)"
proof -
  have len: "length (dl_idx d) = length ies * kIndexEntrySize"
    using assms(1) length_records [of "map (Pair ()) ies"] by (simp add: comp_def)
  moreover have "kIndexEntrySize \<noteq> 0" by (simp add: kIndexEntrySize_def)
  ultimately have n: "dl_idx_size d div kIndexEntrySize = length ies" "dl_idx_size d \<noteq> 0"
    using assms(2,5) by simp_all
  have r: "read_index_records (length ies) (dl_idx d) = Some (map unlengthed ies)"
    using read_index_records_concat [OF assms(3), of "[]"] assms(1) by simp
  have "omap_inv ([] @ map (\<lambda>ie. (ie_index ie, unlengthed ie)) ies)"
    using assms(4) by (simp add: omap_inv_def comp_def)
  then have f: "fold (\<lambda>ie m. omap_put (ie_index ie) ie m) (map unlengthed ies) [] =
      map (\<lambda>ie. (ie_index ie, unlengthed ie)) ies"
    using fold_omap_put_sorted [of "[]" ie_index unlengthed ies]
    by (simp add: fold_map comp_def unlengthed_def)
  show "dl_index (recover_index d) = map (\<lambda>ie. (ie_index ie, unlengthed ie)) ies"
    and "dl_first (recover_index d) = ie_index (hd ies)" "dl_last (recover_index d) = ie_index (last ies)"
    using n r f assms(2,5)
    by (simp_all add: recover_index_def Let_def pread_def hd_map last_map)
qed

lemma reopened_index:
  assumes inv: "dl_inv d" and sync: "idx_synced d" and sz: "length (dl_data d) < 2 ^ 64"
    and ne: "dl_index d \<noteq> []"
  shows "dl_index (reopened d) = map (map_prod id unlengthed) (dl_index d)"
    and "dl_first (reopened d) = dl_first d" and "dl_last (reopened d) = dl_last d"
proof -
  let ?ies = "map snd (dl_index d)"
  have keys: "map (\<lambda>ie. (ie_index ie, g ie)) ?ies = map (map_prod id g) (dl_index d)" for g :: "IndexEntry \<Rightarrow> 'b"
    using dl_index_encodable(2) [OF inv sz] by (auto simp: map_prod_def)
  have oi: "omap_inv (dl_index d)" using inv by (simp add: dl_inv_def)
  have "dl_idx d = concat (map ie_record ?ies)" "dl_idx_size d = length (dl_idx d)"
    using sync by (simp_all add: idx_synced_def)
  moreover have "list_all encodable ?ies"
    using dl_index_encodable(1) [OF inv sz] by (auto simp: list_all_iff)
  moreover have "omap_inv (map (\<lambda>ie. (ie_index ie, ie)) ?ies)"
    using keys [of "\<lambda>ie. ie"] oi by (simp add: map_prod_def)
  ultimately have rec: "dl_index (reopened d) = map (\<lambda>ie. (ie_index ie, unlengthed ie)) ?ies"
      "dl_first (reopened d) = ie_index (hd ?ies)" "dl_last (reopened d) = ie_index (last ?ies)"
    using recover_index_records [of _ ?ies] ne by (simp_all add: reopened_def open_disk_log_def)
  then show "dl_index (reopened d) = map (map_prod id unlengthed) (dl_index d)" by (simp only: keys)
  have ends: "ie_index (hd ?ies) = fst (hd (dl_index d))" "ie_index (last ?ies) = fst (last (dl_index d))"
    using dl_index_encodable(2) [OF inv sz] ne
    by (metis hd_in_set hd_map prod.collapse, metis last_in_set last_map prod.collapse)
  have span: "1 \<le> dl_first d" "fst ` set (dl_index d) = {dl_first d .. dl_last d}"
    using dl_inv_nonempty [OF inv ne] by simp_all
  then have le: "dl_first d \<le> dl_last d" using ne keys_nonempty by blast
  obtain p q where pq: "p \<in> set (dl_index d)" "fst p = dl_first d" "q \<in> set (dl_index d)" "fst q = dl_last d"
    using span le by (metis (no_types, lifting) atLeastAtMost_iff imageE order_refl)
  have "fst (hd (dl_index d)) \<le> fst p" "fst q \<le> fst (last (dl_index d))"
    using omap_inv_hd_le [OF oi] omap_inv_le_last [OF oi] pq by blast+
  moreover have "fst (hd (dl_index d)) \<in> {dl_first d .. dl_last d}" "fst (last (dl_index d)) \<in> {dl_first d .. dl_last d}"
    using span(2) ne by (metis hd_in_set image_eqI, metis last_in_set image_eqI)
  ultimately show "dl_first (reopened d) = dl_first d" and "dl_last (reopened d) = dl_last d"
    using rec ends pq by simp_all
qed

lemma map_of_reopened:
  assumes "dl_inv d" "idx_synced d" "length (dl_data d) < 2 ^ 64" "dl_index d \<noteq> []"
  shows "map_of (dl_index (reopened d)) i = map_option unlengthed (map_of (dl_index d) i)"
  using reopened_index(1) [OF assms] map_of_map [of unlengthed "dl_index d"] by (simp add: map_prod_def fun_eq_iff)

lemma reopened_entry_at:
  assumes "dl_inv d" "idx_synced d" "length (dl_data d) < 2 ^ 64" "dl_index d \<noteq> []"
  shows "dl_entry_at (reopened d) i = dl_entry_at d i"
  using map_of_reopened [OF assms, of i] read_batch_cong [of "reopened d" d]
  by (auto simp: dl_entry_at_def unlengthed_def split: option.split)

lemma reopened_term_at:
  assumes "dl_inv d" "idx_synced d" "length (dl_data d) < 2 ^ 64" "dl_index d \<noteq> []" "dl_first d \<le> i"
  shows "dl_term_at (reopened d) i = dl_term_at d i"
proof -
  have "\<And>s. dl_snapshot d = Some s \<Longrightarrow> snap_last_included_index s \<noteq> i"
    using dl_inv_snapshot [OF assms(1)] assms(5) by fastforce
  then show ?thesis
    using map_of_reopened [OF assms(1-4), of i]
    by (auto simp: dl_term_at_def Let_def unlengthed_def split: option.splits)
qed

lemma get_entries_loop_unlengthed:
  assumes "dl_data d' = dl_data d"
  shows "get_entries_loop d' a b (map (map_prod id unlengthed) m) = get_entries_loop d a b m"
  using read_batch_cong [OF assms] by (induction m) (auto simp: unlengthed_def)

lemma erase_below_unlengthed:
  "omap_erase_below k (map (map_prod id g) m) = map (map_prod id g) (omap_erase_below k m)"
  unfolding omap_erase_below_def by (induction m) auto

lemma floor_unlengthed: "omap_floor k (map (map_prod id g) m) = None \<longleftrightarrow> omap_floor k m = None"
  by (cases m) (auto simp: omap_floor_def Let_def)

lemma reopened_get_entries:
  assumes "dl_inv d" "idx_synced d" "length (dl_data d) < 2 ^ 64" "dl_index d \<noteq> []"
  shows "dl_get_entries (reopened d) a b = dl_get_entries d a b"
  using map_of_reopened [OF assms, of a]
  by (simp add: dl_get_entries_def reopened_index [OF assms] floor_unlengthed erase_below_unlengthed
      get_entries_loop_unlengthed)

section \<open>Operations that keep the index file in step\<close>

definition reliable_disk :: "(nat \<Rightarrow> nat) \<Rightarrow> bool" where
  "reliable_disk os \<longleftrightarrow> (\<forall>k. kMaxBatchBytes + 16 \<le> os k)"

lemma write_meta_synced [simp]: "idx_synced (write_meta d) = idx_synced d"
  by (simp add: idx_synced_def)

lemma dirty_synced [simp]: "idx_synced (d\<lparr>dl_dirty := n\<rparr>) = idx_synced d"
  by (simp add: idx_synced_def)

lemma truncate_synced:
  assumes "idx_synced d"
  shows "idx_synced (truncate_suffix_locked n d)"
proof -
  let ?idx = "omap_erase_from n (dl_index d)"
  have idx: "?idx = take (length ?idx) (dl_index d)"
    unfolding omap_erase_from_def by (rule takeWhile_eq_take)
  have "length ?idx * kIndexEntrySize \<le> length (dl_idx d)"
    using assms length_takeWhile_le [of _ "dl_index d"] by (simp add: idx_synced_def omap_erase_from_def)
  then have "ftruncate (dl_idx d) (length ?idx * kIndexEntrySize) = concat (map (ie_record \<circ> snd) ?idx)"
    using assms take_records [of "length ?idx" "dl_index d"] idx by (simp add: ftruncate_take idx_synced_def)
  then show ?thesis
    by (simp add: truncate_suffix_locked_def Let_def) (simp add: idx_synced_def ftruncate_def)
qed

lemma index_records_eq:
  "index_records es off = concat (map (ie_record \<circ> snd) (map (\<lambda>e. (le_index e, new_ie off len e)) es))"
proof -
  have "fold (\<lambda>e buf. write_i64_le (write_u64_le (write_i64_le buf (le_index e)) (of_nat off)) (le_term e)) es q
      = q @ concat (map (ie_record \<circ> snd) (map (\<lambda>e. (le_index e, new_ie off len e)) es))" for q
  proof (induction es arbitrary: q)
    case (Cons e es)
    then show ?case
      by (simp add: ie_record_def) (simp add: write_i64_le_def write_u64_le_def)
  qed simp
  from this [of "[]"] show ?thesis by (simp add: index_records_def)
qed

lemma index_batch_above:
  assumes "omap_inv m" "\<And>p. p \<in> set m \<Longrightarrow> fst p < i" "numbered_from i es"
  shows "index_batch es off len m = m @ map (\<lambda>e. (le_index e, new_ie off len e)) es"
proof -
  have "sorted_wrt (<) (map le_index es)"
    using assms(3) by (simp add: sorted_wrt_map numbered_from_sorted)
  then have "omap_inv (m @ map (\<lambda>e. (le_index e, new_ie off len e)) es)"
    using assms(1,2) numbered_from_set [OF assms(3)]
    by (force simp: omap_inv_def sorted_wrt_append comp_def)
  from fold_omap_put_sorted [OF this] show ?thesis by (simp add: index_batch_def)
qed

lemma pwrite_end: "pwrite f buf (length f) = f @ buf"
  by (simp add: pwrite_def)

lemma append_index_synced:
  assumes "idx_synced d" "length es * kIndexEntrySize \<le> dl_os_write d' (dl_os_writes d')"
    and "dl_idx d' = dl_idx d" "dl_idx_size d' = dl_idx_size d"
    and "dl_index d' = dl_index d @ map (\<lambda>e. (le_index e, new_ie off len e)) es"
  shows "idx_synced (append_index_file es off d')"
proof -
  have len: "length (index_records es off) = length es * kIndexEntrySize"
    by (simp add: index_records_eq [of es off len] del: map_map)
  have sz: "dl_idx_size d = length (dl_idx d)" using assms(1) by (simp add: idx_synced_def)
  then have "dl_idx (append_index_file es off d') = dl_idx d @ index_records es off"
    "dl_idx_size (append_index_file es off d') = length (dl_idx d) + length (index_records es off)"
    using assms(2-4) len by (simp_all add: append_index_file_def Let_def pwrite_end)
  then show ?thesis
    using assms(1,5) by (simp add: idx_synced_def index_records_eq [of es off len] del: map_map)
qed

lemma append_base_synced: "idx_synced d \<Longrightarrow> idx_synced (append_base d prev)"
  by (simp add: append_base_def truncate_synced)

lemma append_base_os: "dl_os_write (append_base d prev) = dl_os_write d"
  by (simp add: append_base_def truncate_suffix_locked_def write_meta_def Let_def)

lemma wf_batch_records: "wf_batch es \<Longrightarrow> length es * kIndexEntrySize \<le> kMaxBatchBytes + 16"
  by (simp add: wf_batch_def kMaxBatchEntries_def kMaxBatchBytes_def kIndexEntrySize_def)

lemma append_checked_synced:
  assumes inv: "dl_inv d" and rng: "0 \<le> prev" "dl_first d \<le> prev + 1" "prev \<le> dl_last d"
    and es: "wf_batch es" "numbered_from (prev + 1) es"
    and ok: "idx_synced d" "reliable_disk (dl_os_write d)"
  shows "idx_synced (snd (append_checked d prev es))"
proof -
  let ?b = "append_base d prev" and ?len = "length (make_frame es)"
  let ?d = "?b\<lparr>dl_data := dl_data ?b @ make_frame es, dl_os_writes := dl_os_writes ?b + 1,
     dl_data_size := dl_data_size ?b + ?len, dl_index := index_batch es (dl_data_size ?b) ?len (dl_index ?b),
     dl_first := (if dl_first ?b = 0 \<or> le_index (hd es) < dl_first ?b then le_index (hd es) else dl_first ?b),
     dl_last := le_index (last es)\<rparr>"
  have os: "dl_os_write ?b k \<ge> kMaxBatchBytes + 16" for k
    using ok(2) by (simp add: append_base_os reliable_disk_def)
  have fit: "length (serialize_batch es) \<le> kMaxBatchBytes" "?len \<le> kMaxBatchBytes + 16"
    using es(1) by (simp_all add: wf_batch_def length_make_frame)
  then have full: "min ?len (dl_os_write ?b k) = ?len" for k using os [of k] by simp
  have base: "dl_inv ?b" "dl_last ?b = prev" using append_base_ok [OF inv rng] by auto
  have "fst p < prev + 1" if "p \<in> set (dl_index ?b)" for p
  proof -
    have "fst p \<in> {dl_first ?b .. dl_last ?b}"
      using dl_inv_nonempty [OF base(1)] that by (metis empty_iff empty_set image_eqI)
    with base(2) show ?thesis by simp
  qed
  then have "index_batch es (dl_data_size ?b) ?len (dl_index ?b) =
      dl_index ?b @ map (\<lambda>e. (le_index e, new_ie (dl_data_size ?b) ?len e)) es"
    using base(1) by (intro index_batch_above [OF _ _ es(2)]) (simp_all add: dl_inv_def)
  then have "idx_synced (append_index_file es (dl_data_size ?b) ?d)"
    using os [of "dl_os_writes ?b + 1"] wf_batch_records [OF es(1)]
    by (intro append_index_synced [OF append_base_synced [OF ok(1)], where len = ?len]) simp_all
  then show ?thesis
    using fit full
    by (auto simp: append_checked_def append_base_def [symmetric] Let_def flush_and_fsync_def)
qed

lemma append_refused:
  assumes inv: "dl_inv d" and "es \<noteq> []" "0 \<le> prev" "\<not> prev \<le> dl_last d"
  shows "dl_append d prev t es = (kNoLogIndex, d)"
proof -
  have "0 < prev" using dl_inv_last_nonneg [OF inv] assms(4) by simp
  then show ?thesis using dl_term_above [OF inv, of prev] assms by (simp add: dl_append_reject)
qed

lemma append_synced:
  assumes inv: "dl_inv d" and rng: "0 \<le> prev" "dl_first d \<le> prev + 1"
    and es: "wf_batch es" "es \<noteq> []" "numbered_from (prev + 1) es"
    and ok: "idx_synced d" "reliable_disk (dl_os_write d)"
  shows "dl_inv (snd (dl_append d prev t es))" "idx_synced (snd (dl_append d prev t es))"
proof -
  show "idx_synced (snd (dl_append d prev t es))"
    using append_refused [OF inv es(2) rng(1)] append_checked_synced [OF inv rng _ es(1,3) ok] ok(1)
    by (cases "prev \<le> dl_last d") (auto simp: dl_append_def)
  show "dl_inv (snd (dl_append d prev t es))"
  proof (cases "prev = 0 \<or> dl_term_at d prev = t \<and> t \<noteq> kNoTerm")
    case True
    have fit: "length (serialize_batch es) \<le> kMaxBatchBytes" using es(1) by (simp add: wf_batch_def)
    then have "length (make_frame es) \<le> dl_os_write d n" for n
      using ok(2) le_trans unfolding reliable_disk_def length_make_frame by (metis add.commute add_le_mono1)
    then have "fst (dl_append d prev t es) = le_index (hd es)"
      using True es(2) fit by (intro dl_append_returns)
    then have "fst (dl_append d prev t es) \<noteq> kNoLogIndex"
      using es(2,3) rng(1) by (cases es) (auto simp: kNoLogIndex_def)
    then show ?thesis using dl_append_spec(1) [OF inv rng es] by (metis prod.collapse)
  next
    case False
    then show ?thesis using inv dl_append_reject [of prev es d t] rng(1) es(2) by auto
  qed
qed

section \<open>Runs of a log\<close>

text \<open>What happens to a log between two restarts, as long as nothing is compacted.\<close>

inductive disk_step :: "DiskRaftLog \<Rightarrow> DiskRaftLog \<Rightarrow> bool" where
  append: "wf_batch es \<Longrightarrow> es \<noteq> [] \<Longrightarrow> 0 \<le> prev \<Longrightarrow> dl_first d \<le> prev + 1 \<Longrightarrow> numbered_from (prev + 1) es \<Longrightarrow>
    disk_step d (snd (dl_append d prev t es))"
| truncate: "0 < n \<Longrightarrow> dl_first d \<le> n \<Longrightarrow> n \<le> dl_last d + 1 \<Longrightarrow> disk_step d (dl_truncate_suffix d n)"
| sync: "disk_step d (fsync_tick d)"
| shut: "disk_step d (snd (dl_shutdown closed d))"

lemma fsync_tick_frame [simp]:
  "dl_inv (fsync_tick d) = dl_inv d" "idx_synced (fsync_tick d) = idx_synced d"
  "dl_os_write (fsync_tick d) = dl_os_write d"
proof -
  have "dl_inv (d\<lparr>dl_dirty := n\<rparr>) = dl_inv d" for n d by (rule dl_inv_cong) simp_all
  moreover have "dl_inv (write_meta d) = dl_inv d" for d by (rule dl_inv_cong) simp_all
  ultimately show "dl_inv (fsync_tick d) = dl_inv d" "idx_synced (fsync_tick d) = idx_synced d"
    "dl_os_write (fsync_tick d) = dl_os_write d"
    by (simp_all add: fsync_tick_def flush_and_fsync_def) (simp_all add: write_meta_def Let_def)
qed

lemma dl_shutdown_frame [simp]:
  "dl_inv (snd (dl_shutdown c d)) = dl_inv d" "idx_synced (snd (dl_shutdown c d)) = idx_synced d"
  "dl_os_write (snd (dl_shutdown c d)) = dl_os_write d"
proof -
  have "dl_inv (write_meta d) = dl_inv d" by (rule dl_inv_cong) simp_all
  then show "dl_inv (snd (dl_shutdown c d)) = dl_inv d" "idx_synced (snd (dl_shutdown c d)) = idx_synced d"
    "dl_os_write (snd (dl_shutdown c d)) = dl_os_write d"
    by (simp_all add: dl_shutdown_def flush_and_fsync_def) (simp add: write_meta_def Let_def)
qed

lemma truncate_os: "dl_os_write (truncate_suffix_locked n d) = dl_os_write d"
  by (simp add: truncate_suffix_locked_def write_meta_def Let_def)

lemma disk_step_ok:
  assumes "disk_step d d'" "dl_inv d" "idx_synced d" "reliable_disk (dl_os_write d)"
  shows "dl_inv d' \<and> idx_synced d' \<and> dl_os_write d' = dl_os_write d"
  using assms
  by cases (simp_all add: append_synced dl_append_os_write dl_truncate_suffix_def truncate_suffix_inv
      truncate_synced truncate_os)

definition fresh_log :: "bool \<Rightarrow> (nat \<Rightarrow> nat) \<Rightarrow> DiskRaftLog" where
  "fresh_log batching os = open_disk_log [] [] None batching os"

lemma fresh_log_simps [simp]:
  "dl_index (fresh_log b os) = []" "dl_first (fresh_log b os) = 1" "dl_last (fresh_log b os) = 0"
  "dl_snapshot (fresh_log b os) = None" "dl_data (fresh_log b os) = []" "dl_idx (fresh_log b os) = []"
  "dl_data_size (fresh_log b os) = 0" "dl_idx_size (fresh_log b os) = 0" "dl_os_write (fresh_log b os) = os"
  by (simp_all add: fresh_log_def open_disk_log_def recover_index_def read_meta_def Let_def)

lemma disk_run_ok:
  assumes "disk_step\<^sup>*\<^sup>* (fresh_log b os) d" "reliable_disk os"
  shows "dl_inv d \<and> idx_synced d \<and> dl_os_write d = os"
  using assms
proof induction
  case base
  show ?case by (simp add: dl_inv_def dl_span_def idx_synced_def)
next
  case (step d d')
  then show ?case using disk_step_ok [OF step.hyps(2)] by simp
qed

section \<open>Properties\<close>

lemma omap_last_greatest:
  assumes "omap_inv m" "(k, v) \<in> set m" "\<And>p. p \<in> set m \<Longrightarrow> fst p \<le> k"
  shows "last m = (k, v)"
proof -
  have ne: "m \<noteq> []" using assms(2) by auto
  then have "fst (last m) = k"
    using omap_inv_le_last [OF assms(1,2)] assms(3) [of "last m"] by (simp add: antisym)
  then have "map_of m k = Some (snd (last m))" "map_of m k = Some v"
    using omap_inv_distinct [OF assms(1)] assms(2) ne by (metis last_in_set map_of_is_SomeI prod.collapse)+
  with \<open>fst (last m) = k\<close> show ?thesis by (metis option.inject prod.collapse)
qed

lemma read_batch_past_end: "length (dl_data d) \<le> off \<Longrightarrow> read_batch d off = []"
  by (simp add: read_batch_def read_frame_def pread_def Let_def)

text \<open>
  C8: Restart. After any sequence of appends, suffix truncations, syncs and shutdowns of a new log,
  on a disk that does not cut writes short, opening the files again gives a log with the same bounds,
  the same entries, the same terms and the same answers to range reads.
\<close>

theorem restart_recovers_log:
  assumes "disk_step\<^sup>*\<^sup>* (fresh_log b os) d" "reliable_disk os" "length (dl_data d) < 2 ^ 64" "dl_index d \<noteq> []"
  shows "dl_first (reopened d) = dl_first d \<and> dl_last (reopened d) = dl_last d \<and>
    (\<forall>i. dl_entry_at (reopened d) i = dl_entry_at d i) \<and>
    (\<forall>i. dl_first d \<le> i \<longrightarrow> dl_term_at (reopened d) i = dl_term_at d i) \<and>
    (\<forall>x y. dl_get_entries (reopened d) x y = dl_get_entries d x y)"
proof -
  have "dl_inv d" "idx_synced d" using disk_run_ok [OF assms(1,2)] by simp_all
  note ok = this assms(3,4)
  show ?thesis
    using reopened_index(2,3) [OF ok] reopened_entry_at [OF ok] reopened_term_at [OF ok] reopened_get_entries [OF ok]
    by blast
qed

text \<open>The reopened log has lost the batch lengths, so a truncation cuts the last batch it keeps.\<close>

lemma reopened_truncate_cuts:
  assumes ok: "dl_inv d" "idx_synced d" "length (dl_data d) < 2 ^ 64" and rng: "dl_first d < n" "n \<le> dl_last d"
  shows "dl_entry_at (dl_truncate_suffix (reopened d) n) (n - 1) = None"
proof -
  have ne: "dl_index d \<noteq> []" using ok(1) rng by (auto simp: dl_inv_def dl_span_def)
  let ?r = "reopened d" and ?m = "omap_erase_from n (dl_index (reopened d))"
  have oi: "omap_inv (dl_index ?r)"
    using ok(1) by (simp add: reopened_index(1) [OF ok ne] dl_inv_def omap_inv_def comp_def)
  have "n - 1 \<in> fst ` set (dl_index d)" using dl_inv_nonempty [OF ok(1) ne] rng by auto
  then obtain ie where ie: "(n - 1, unlengthed ie) \<in> set ?m" "(n - 1, ie) \<in> set (dl_index d)"
    using set_omap_erase_from [OF oi] reopened_index(1) [OF ok ne] by force
  have last: "last ?m = (n - 1, unlengthed ie)"
    using omap_last_greatest [OF omap_inv_erase(3) [OF oi] ie(1)] set_omap_erase_from [OF oi] by force
  obtain es where "batch_at (dl_data d) ie es" using dl_inv_batches [OF ok(1) ie(2)] by blast
  then have "ie_offset ie \<le> length (dl_data d)" using batch_at_end by fastforce
  moreover have "?m \<noteq> []" using ie(1) by auto
  ultimately have t: "dl_index (truncate_suffix_locked n ?r) = ?m"
    "length (dl_data (truncate_suffix_locked n ?r)) = ie_offset ie"
    using rng last by (simp_all add: truncate_suffix_locked_def Let_def reopened_index(2) [OF ok ne] unlengthed_def)
  moreover have "map_of ?m (n - 1) = Some (unlengthed ie)"
    using ie(1) omap_inv_distinct [OF omap_inv_erase(3) [OF oi]] by simp
  ultimately show ?thesis
    by (simp add: dl_entry_at_def dl_truncate_suffix_def read_batch_past_end unlengthed_def)
qed

text \<open>
  A log that was reopened does not survive a suffix truncation: the entry just below the
  truncation point, which the log had and should keep, can no longer be read, because the restored
  index has batch length 0 and the data file is cut at the start of that entry's batch.
\<close>

theorem truncate_after_restart_loses_entry:
  assumes "disk_step\<^sup>*\<^sup>* (fresh_log b os) d" "reliable_disk os" "length (dl_data d) < 2 ^ 64"
    "dl_first d < n" "n \<le> dl_last d"
  shows "dl_entry_at (reopened d) (n - 1) \<noteq> None \<and> dl_entry_at (dl_truncate_suffix d n) (n - 1) \<noteq> None \<and>
    dl_entry_at (dl_truncate_suffix (reopened d) n) (n - 1) = None"
proof -
  have ok: "dl_inv d" "idx_synced d" using disk_run_ok [OF assms(1,2)] by simp_all
  then have ne: "dl_index d \<noteq> []" and "1 \<le> dl_first d" using assms(4,5) by (auto simp: dl_inv_def dl_span_def split: if_splits)
  then have "dl_entry_at d (n - 1) \<noteq> None"
    using dl_term_at_entry [OF ok(1), of "n - 1"] assms(4,5) by auto
  then show ?thesis
    using reopened_entry_at [OF ok assms(3) ne] reopened_truncate_cuts [OF ok assms(3-5)]
      truncate_suffix_reads(2) [OF ok(1), of n "n - 1"] assms(4,5) \<open>1 \<le> dl_first d\<close>
    by (simp add: dl_truncate_suffix_def)
qed

text \<open>A log that received two entries, one batch each.\<close>

definition roomy_disk :: "nat \<Rightarrow> nat" where "roomy_disk k = 100000000"

definition two_batches :: DiskRaftLog where
  "two_batches = snd (dl_append (snd (dl_append (fresh_log True roomy_disk) 0 0 [noop_entry 1 1])) 1 1 [noop_entry 1 2])"

lemma roomy_disk_reliable: "reliable_disk roomy_disk"
  by (simp add: reliable_disk_def roomy_disk_def kMaxBatchBytes_def)

lemma fresh_inv: "dl_inv (fresh_log b os)"
  by (simp add: dl_inv_def dl_span_def)

lemma two_batches_run: "disk_step\<^sup>*\<^sup>* (fresh_log True roomy_disk) two_batches"
  and two_batches_bounds: "dl_first two_batches = 1" "dl_last two_batches = 2" "length (dl_data two_batches) = 74"
proof -
  let ?d0 = "fresh_log True roomy_disk" and ?e1 = "[noop_entry 1 1]" and ?e2 = "[noop_entry 1 2]"
  let ?d1 = "snd (dl_append ?d0 0 0 ?e1)"
  have w: "wf_batch ?e1" "wf_batch ?e2" by (simp_all add: in_int64_def)
  have r: "roomy_disk n \<ge> 37" for n by (simp add: roomy_disk_def)
  have "fst (dl_append ?d0 0 0 ?e1) = 1"
    by (subst dl_append_returns) (simp_all add: r kMaxBatchBytes_def)
  then have a1: "dl_append ?d0 0 0 ?e1 = (1, ?d1)" by (simp add: prod_eq_iff)
  note s1 = dl_append_spec [OF fresh_inv _ _ w(1) _ _ a1] and o1 = dl_append_ok [OF fresh_inv _ _ w(1) _ _ a1]
  have d1: "dl_inv ?d1" "dl_last ?d1 = 1" "dl_term_at ?d1 1 = 1" "dl_os_write ?d1 = roomy_disk"
    using s1 by (simp_all add: kNoLogIndex_def dl_append_os_write)
  have f1: "dl_first ?d1 = 1" "length (dl_data ?d1) = 37"
    using o1(2) by (simp_all add: appended_def append_base_def kNoLogIndex_def)
  have "fst (dl_append ?d1 1 1 ?e2) = 2"
    by (subst dl_append_returns) (simp_all add: d1 r kMaxBatchBytes_def kNoTerm_def)
  then have a2: "dl_append ?d1 1 1 ?e2 = (2, two_batches)" by (simp add: prod_eq_iff two_batches_def)
  note s2 = dl_append_spec [OF d1(1) _ _ w(2) _ _ a2] and o2 = dl_append_ok [OF d1(1) _ _ w(2) _ _ a2]
  show "dl_last two_batches = 2" using s2 f1 by (simp add: kNoLogIndex_def)
  show "dl_first two_batches = 1" "length (dl_data two_batches) = 74"
    using o2(2) f1 d1 by (simp_all add: appended_def append_base_def kNoLogIndex_def)
  have "disk_step ?d0 ?d1" "disk_step ?d1 two_batches"
    unfolding two_batches_def by (rule disk_step.append; use w f1 in simp)+
  then show "disk_step\<^sup>*\<^sup>* (fresh_log True roomy_disk) two_batches"
    by (meson rtranclp.rtrancl_into_rtrancl rtranclp.rtrancl_refl)
qed

lemma two_batches_index: "dl_index two_batches \<noteq> []"
proof -
  have "dl_inv two_batches" using disk_run_ok [OF two_batches_run roomy_disk_reliable] by simp
  then show ?thesis using two_batches_bounds by (auto simp: dl_inv_def dl_span_def)
qed

theorem restart_recovers_log_witness:
  "reliable_disk roomy_disk \<and> dl_last (reopened two_batches) = 2 \<and>
   dl_entry_at (reopened two_batches) 2 = dl_entry_at two_batches 2"
  using restart_recovers_log [OF two_batches_run roomy_disk_reliable _ two_batches_index]
    two_batches_bounds roomy_disk_reliable by simp

theorem truncate_after_restart_loses_entry_witness:
  "dl_last two_batches = 2 \<and> dl_entry_at (dl_truncate_suffix (reopened two_batches) 2) 1 = None"
  using truncate_after_restart_loses_entry [OF two_batches_run roomy_disk_reliable, of 2] two_batches_bounds by simp

end
