(* ===== verification/Endian.thy ===== *)
theory Endian
  imports Torrent_Prelude
begin

text \<open>
  \<^verbatim>\<open>src/torrent/common/endian.cpp\<close>: byte order, ZigZag, varints and the big-endian accessors of the
  wire format, on a little-endian host. A signed C++ integer is its two's-complement word, read by
  \<open>sint\<close>. The 32- and 64-bit variants of a function have one body, written here for every width.
\<close>

section \<open>Byte order\<close>

text \<open>\<^verbatim>\<open>memcpy\<close> of an integer to and from memory on a little-endian host.\<close>

definition to_memory :: "nat \<Rightarrow> 'a::len word \<Rightarrow> bytes" where
  "to_memory n v = map (\<lambda>i. ucast (drop_bit (8 * i) v)) [0..<n]"

fun from_memory :: "bytes \<Rightarrow> 'a::len word" where
  "from_memory [] = 0"
| "from_memory (b # bs) = ucast b OR push_bit 8 (from_memory bs)"

text \<open>\<^verbatim>\<open>htons\<close>, \<^verbatim>\<open>ntohs\<close>, \<^verbatim>\<open>htonl\<close>, \<^verbatim>\<open>ntohl\<close> on such a host exchange the bytes.\<close>

definition ntohs :: "16 word \<Rightarrow> 16 word" where
  "ntohs v = push_bit 8 (take_bit 8 v) OR drop_bit 8 v"

definition ntohl :: "u32 \<Rightarrow> u32" where
  "ntohl v = push_bit 24 (take_bit 8 v) OR push_bit 16 (take_bit 8 (drop_bit 8 v)) OR
             push_bit 8 (take_bit 8 (drop_bit 16 v)) OR drop_bit 24 v"

definition host_to_be16 :: "16 word \<Rightarrow> 16 word" where "host_to_be16 v = ntohs v"
definition be_to_host16 :: "16 word \<Rightarrow> 16 word" where "be_to_host16 v = ntohs v"
definition host_to_be32 :: "u32 \<Rightarrow> u32" where "host_to_be32 v = ntohl v"
definition be_to_host32 :: "u32 \<Rightarrow> u32" where "be_to_host32 v = ntohl v"

definition host_to_be64 :: "u64 \<Rightarrow> u64" where
  "host_to_be64 v =
     (let high = ucast (drop_bit 32 v) :: u32; low = ucast (v AND 0xFFFFFFFF) :: u32
      in push_bit 32 (ucast (ntohl low)) OR ucast (ntohl high))"

definition be_to_host64 :: "u64 \<Rightarrow> u64" where
  "be_to_host64 v =
     (let high = ucast (drop_bit 32 v) :: u32; low = ucast (v AND 0xFFFFFFFF) :: u32
      in push_bit 32 (ucast (ntohl low)) OR ucast (ntohl high))"

definition host_to_le16 :: "16 word \<Rightarrow> 16 word" where "host_to_le16 v = v"
definition host_to_le32 :: "u32 \<Rightarrow> u32" where "host_to_le32 v = v"
definition host_to_le64 :: "u64 \<Rightarrow> u64" where "host_to_le64 v = v"
definition le_to_host16 :: "16 word \<Rightarrow> 16 word" where "le_to_host16 v = v"
definition le_to_host32 :: "u32 \<Rightarrow> u32" where "le_to_host32 v = v"
definition le_to_host64 :: "u64 \<Rightarrow> u64" where "le_to_host64 v = v"

definition write_int16_be :: "16 word \<Rightarrow> bytes" where "write_int16_be v = to_memory 2 (host_to_be16 v)"
definition write_int32_be :: "u32 \<Rightarrow> bytes" where "write_int32_be v = to_memory 4 (host_to_be32 v)"
definition write_int64_be :: "u64 \<Rightarrow> bytes" where "write_int64_be v = to_memory 8 (host_to_be64 v)"

definition read_int16_be :: "bytes \<Rightarrow> 16 word" where
  "read_int16_be src = be_to_host16 (from_memory (take 2 src))"
definition read_int32_be :: "bytes \<Rightarrow> u32" where
  "read_int32_be src = be_to_host32 (from_memory (take 4 src))"
definition read_int64_be :: "bytes \<Rightarrow> u64" where
  "read_int64_be src = be_to_host64 (from_memory (take 8 src))"

section \<open>ZigZag\<close>

definition zigzag_encode :: "'a::len word \<Rightarrow> 'a word" where
  "zigzag_encode v = push_bit 1 v XOR signed_drop_bit (LENGTH('a) - 1) v"

definition zigzag_decode :: "'a::len word \<Rightarrow> 'a word" where
  "zigzag_decode v = drop_bit 1 v XOR (- (v AND 1))"

definition zigzag_encode_32 :: "u32 \<Rightarrow> u32" where "zigzag_encode_32 v = zigzag_encode v"
definition zigzag_encode_64 :: "u64 \<Rightarrow> u64" where "zigzag_encode_64 v = zigzag_encode v"
definition zigzag_decode_32 :: "u32 \<Rightarrow> u32" where "zigzag_decode_32 v = zigzag_decode v"
definition zigzag_decode_64 :: "u64 \<Rightarrow> u64" where "zigzag_decode_64 v = zigzag_decode v"

section \<open>Varints\<close>

lemma unat_drop7: "unat (drop_bit 7 v) = unat v div 128" for v :: "'a::len word"
  unfolding unat_drop_bit_eq drop_bit_eq_div [of 7 "unat v"] by simp

text \<open>The bytes written; their number is the return value.\<close>

function varint_encode :: "'a::len word \<Rightarrow> bytes" where
  "varint_encode v =
     (if unat v < 0x80 then [ucast v] else ucast (v OR 0x80) # varint_encode (drop_bit 7 v))"
  by pat_completeness auto

termination
proof (relation "measure unat")
  fix v :: "'a::len word"
  assume "\<not> unat v < 0x80"
  then show "(drop_bit 7 v, v) \<in> measure unat" by (simp only: in_measure unat_drop7)
qed simp

declare varint_encode.simps [simp del]

text \<open>
  The decoding loop: the buffer is the list, \<^verbatim>\<open>max_len\<close> its length. The result is the number of
  bytes read, 0 when the buffer ends first. A shift by the width or more, which C++ leaves
  undefined, adds no bits here; no encoding reaches it.
\<close>

fun varint_decode_loop :: "nat \<Rightarrow> nat \<Rightarrow> 'a::len word \<Rightarrow> bytes \<Rightarrow> nat \<times> 'a word" where
  "varint_decode_loop shift rd out [] = (0, 0)"
| "varint_decode_loop shift rd out (b # bs) =
     (let out = out OR push_bit shift (ucast (b AND 0x7F))
      in if b AND 0x80 = 0 then (rd + 1, out) else varint_decode_loop (shift + 7) (rd + 1) out bs)"

definition varint_encode_32 :: "u32 \<Rightarrow> bytes" where "varint_encode_32 v = varint_encode v"
definition varint_encode_64 :: "u64 \<Rightarrow> bytes" where "varint_encode_64 v = varint_encode v"
definition varint_decode_32 :: "bytes \<Rightarrow> nat \<times> u32" where "varint_decode_32 d = varint_decode_loop 0 0 0 d"
definition varint_decode_64 :: "bytes \<Rightarrow> nat \<times> u64" where "varint_decode_64 d = varint_decode_loop 0 0 0 d"

definition varint_encode_signed_32 :: "u32 \<Rightarrow> bytes" where
  "varint_encode_signed_32 v = varint_encode_32 (zigzag_encode_32 v)"
definition varint_encode_signed_64 :: "u64 \<Rightarrow> bytes" where
  "varint_encode_signed_64 v = varint_encode_64 (zigzag_encode_64 v)"

text \<open>The last argument is what \<^verbatim>\<open>out\<close> held; it stays when nothing was read.\<close>

definition varint_decode_signed_32 :: "bytes \<Rightarrow> u32 \<Rightarrow> nat \<times> u32" where
  "varint_decode_signed_32 d out =
     (let (rd, u) = varint_decode_32 d in (rd, if rd > 0 then zigzag_decode_32 u else out))"
definition varint_decode_signed_64 :: "bytes \<Rightarrow> u64 \<Rightarrow> nat \<times> u64" where
  "varint_decode_signed_64 d out =
     (let (rd, u) = varint_decode_64 d in (rd, if rd > 0 then zigzag_decode_64 u else out))"

section \<open>ZigZag is a bijection\<close>

lemma bit_zigzag_encode:
  "bit (zigzag_encode v) n \<longleftrightarrow> n < LENGTH('a) \<and> ((0 < n \<and> bit v (n - 1)) \<noteq> bit v (LENGTH('a) - 1))"
  for v :: "'a::len word"
  unfolding zigzag_encode_def bit_xor_iff bit_push_bit_iff bit_signed_drop_bit_iff
  by (cases n) (auto dest: bit_imp_le_length)

lemma minus_and_1: "- (v AND 1) = (if bit v 0 then - 1 else (0 :: 'a::len word))"
  by (simp add: and_one_eq mod_2_eq_odd bit_0)

lemma bit_zigzag_decode:
  "bit (zigzag_decode v) n \<longleftrightarrow> n < LENGTH('a) \<and> (bit v (Suc n) \<noteq> bit v 0)" for v :: "'a::len word"
  unfolding zigzag_decode_def minus_and_1 bit_xor_iff bit_drop_bit_eq
  using bit_imp_le_length [of v "Suc n"] by (auto simp: bit_simps)

lemma zigzag_decode_encode: "zigzag_decode (zigzag_encode v) = v"
proof (rule bit_word_eqI)
  fix n assume n: "n < LENGTH('a)"
  show "bit (zigzag_decode (zigzag_encode v)) n = bit v n"
  proof (cases "Suc n < LENGTH('a)")
    case False
    then have "n = LENGTH('a) - 1" using n by simp
    then show ?thesis using False n by (auto simp: bit_zigzag_decode bit_zigzag_encode)
  qed (use n in \<open>auto simp: bit_zigzag_decode bit_zigzag_encode\<close>)
qed

section \<open>Varints round trip\<close>

lemma byte_low7: "b AND 0x7F = take_bit 7 b" for b :: byte
  by (simp add: take_bit_eq_mask mask_eq_exp_minus_1)

lemma byte_high: "b AND 0x80 = 0 \<longleftrightarrow> \<not> bit b 7" for b :: byte
  using and_exp_eq_0_iff_not_bit [of b 7] by simp

lemma bit_0x80: "bit (0x80 :: 'a::len word) n \<longleftrightarrow> n = 7 \<and> 7 < LENGTH('a)"
  using bit_exp_iff [where 'a = "'a word", of 7 n] by (auto simp: bit_simps)

lemma bit_128_int [simp]: "bit (128 :: int) n \<longleftrightarrow> n = 7"
  using bit_exp_iff [where 'a = int, of 7 n] by (auto simp: bit_simps)

lemma ucast_low7: "ucast ((ucast (v OR 0x80) :: byte) AND 0x7F) = take_bit 7 v" for v :: "'a::len word"
  unfolding byte_low7 by (rule bit_word_eqI) (auto simp: bit_simps bit_0x80 dest: bit_imp_le_length)

lemma continuation_bit: "8 \<le> LENGTH('a) \<Longrightarrow> (ucast (v OR 0x80) :: byte) AND 0x80 \<noteq> 0" for v :: "'a::len word"
  unfolding byte_high by (simp add: bit_simps bit_0x80)

lemma small_bits: "unat v < 0x80 \<Longrightarrow> bit v n \<Longrightarrow> n < 7" for v :: "'a::len word"
proof (rule ccontr)
  assume v: "unat v < 0x80" "bit v n" "\<not> n < 7"
  then have "bit (unat v) n" by (simp add: bit_unsigned_iff)
  then have "2 ^ n \<le> unat v" by (metis bit_iff_odd div_less even_zero not_le)
  moreover have "(2::nat) ^ 7 \<le> 2 ^ n" using v(3) by (intro power_increasing) simp_all
  ultimately show False using v(1) by simp
qed

lemma last_byte:
  assumes "unat v < 0x80"
  shows "(ucast v :: byte) AND 0x80 = 0" "ucast ((ucast v :: byte) AND 0x7F) = (v :: 'a::len word)"
proof -
  show "(ucast v :: byte) AND 0x80 = 0"
    unfolding byte_high using small_bits [OF assms, of 7] by (auto simp: bit_simps)
  show "ucast ((ucast v :: byte) AND 0x7F) = v"
    unfolding byte_low7 by (rule bit_word_eqI) (auto simp: bit_simps dest: small_bits [OF assms])
qed

lemma push_split7: "push_bit s (take_bit 7 v) OR push_bit (s + 7) (drop_bit 7 v) = push_bit s v" for v :: "'a::len word"
proof (rule bit_word_eqI)
  fix n assume "n < LENGTH('a)"
  moreover have "s + 7 \<le> n \<Longrightarrow> 7 + (n - (s + 7)) = n - s" by simp
  ultimately show "bit (push_bit s (take_bit 7 v) OR push_bit (s + 7) (drop_bit 7 v)) n = bit (push_bit s v) n"
    by (cases "s + 7 \<le> n") (auto simp: bit_simps)
qed

lemma decode_loop_encode:
  fixes v :: "'a::len word"
  assumes "8 \<le> LENGTH('a)"
  shows "varint_decode_loop s rd out (varint_encode v @ rest) =
    (rd + length (varint_encode v), out OR push_bit s v)"
proof (induction v arbitrary: s rd out rule: varint_encode.induct)
  case (1 v)
  show ?case
  proof (cases "unat v < 0x80")
    case True
    then show ?thesis using last_byte [OF True] by (simp add: varint_encode.simps [of v])
  next
    case False
    then show ?thesis
      using "1.IH" [OF False] continuation_bit [OF assms, of v] push_split7 [of s v]
      by (simp add: varint_encode.simps [of v] ucast_low7 Let_def or.assoc)
  qed
qed

lemma varint_encode_length:
  "unat v < 128 ^ n \<Longrightarrow> 0 < n \<Longrightarrow> length (varint_encode v) \<le> n" for v :: "'a::len word"
proof (induction v arbitrary: n rule: varint_encode.induct)
  case (1 v)
  show ?case
  proof (cases "unat v < 0x80")
    case True
    then show ?thesis using "1.prems" by (simp add: varint_encode.simps [of v])
  next
    case False
    then obtain m where m: "n = Suc m" "0 < m"
      using "1.prems" by (cases n; cases "n - 1") auto
    have "unat (drop_bit 7 v) < 128 ^ m"
      using "1.prems" m by (simp only: unat_drop7) (simp add: less_mult_imp_div_less mult.commute)
    then have "length (varint_encode (drop_bit 7 v)) \<le> m" using "1.IH" [OF False] m by blast
    then show ?thesis using False m by (simp add: varint_encode.simps [of v])
  qed
qed

lemma varint_encode_nonempty: "varint_encode v \<noteq> []"
  by (simp add: varint_encode.simps [of v])

section \<open>Byte order round trips\<close>

lemma bit_ntohl:
  assumes "k < 8"
  shows "bit (ntohl v) k = bit v (24 + k)" "bit (ntohl v) (8 + k) = bit v (16 + k)"
    "bit (ntohl v) (16 + k) = bit v (8 + k)" "bit (ntohl v) (24 + k) = bit v k"
  unfolding ntohl_def using assms bit_imp_le_length [of v "24 + k"] bit_imp_le_length [of v "32 + k"]
    bit_imp_le_length [of v "40 + k"] bit_imp_le_length [of v "48 + k"]
  by (auto simp: bit_simps)

lemma byte_cases:
  assumes "n < 32"
  obtains k where "k < 8" "n = k" | k where "k < 8" "n = 8 + k" | k where "k < 8" "n = 16 + k"
    | k where "k < 8" "n = (24 :: nat) + k"
proof -
  have "n < 8 \<or> (\<exists>k < 8. n = 8 + k) \<or> (\<exists>k < 8. n = 16 + k) \<or> (\<exists>k < 8. n = 24 + k)" using assms by presburger
  then show thesis using that by blast
qed

lemma ntohl_ntohl: "ntohl (ntohl v) = v"
proof (rule bit_word_eqI)
  fix n assume "n < LENGTH(32)"
  then have "n < 32" by simp
  then show "bit (ntohl (ntohl v)) n = bit v n" by (cases rule: byte_cases) (simp_all add: bit_ntohl)
qed

lemma ntohs_ntohs: "ntohs (ntohs v) = v"
  unfolding ntohs_def by (rule bit_word_eqI) (auto simp: bit_simps dest: bit_imp_le_length)

lemma split_halves: "push_bit 32 (ucast (ucast (drop_bit 32 v) :: u32)) OR ucast (ucast (v AND 0xFFFFFFFF) :: u32) = v"
  for v :: u64
proof -
  have m: "v AND 0xFFFFFFFF = take_bit 32 v" by (simp add: take_bit_eq_mask mask_eq_exp_minus_1)
  show ?thesis unfolding m by (rule bit_word_eqI) (auto simp: bit_simps)
qed

lemma halves:
  fixes lo hi :: u32
  shows "ucast (drop_bit 32 (push_bit 32 (ucast lo) OR ucast hi :: u64)) = lo"
    "ucast ((push_bit 32 (ucast lo) OR ucast hi :: u64) AND 0xFFFFFFFF) = hi"
proof -
  have m: "w AND 0xFFFFFFFF = take_bit 32 w" for w :: u64 by (simp add: take_bit_eq_mask mask_eq_exp_minus_1)
  show "ucast (drop_bit 32 (push_bit 32 (ucast lo) OR ucast hi :: u64)) = lo"
    by (rule bit_word_eqI) (auto simp: bit_simps dest: bit_imp_le_length)
  show "ucast ((push_bit 32 (ucast lo) OR ucast hi :: u64) AND 0xFFFFFFFF) = hi"
    unfolding m by (rule bit_word_eqI) (auto simp: bit_simps)
qed

lemma be64_involution: "be_to_host64 (host_to_be64 v) = v"
  by (simp only: be_to_host64_def host_to_be64_def Let_def halves ntohl_ntohl split_halves)

lemma from_to_memory:
  assumes "LENGTH('a) = 8 * n"
  shows "from_memory (to_memory n v) = (v :: 'a::len word)"
proof -
  have "(from_memory (map (\<lambda>i. ucast (drop_bit (8 * i) v)) [j..<n]) :: 'a word) = drop_bit (8 * j) v" if "j \<le> n" for j
    using that
  proof (induction "n - j" arbitrary: j)
    case 0
    then have "drop_bit (8 * j) v = 0" using assms by (auto intro!: bit_word_eqI simp: bit_simps dest: bit_imp_le_length)
    then show ?case using 0 by simp
  next
    case (Suc m)
    then have j: "[j..<n] = j # [Suc j..<n]" by (simp add: upt_conv_Cons)
    have "ucast (ucast (drop_bit (8 * j) v) :: byte) OR push_bit 8 (drop_bit (8 * Suc j) v) = drop_bit (8 * j) v"
    proof (rule bit_word_eqI)
      fix i assume "i < LENGTH('a)"
      moreover have "8 \<le> i \<Longrightarrow> 8 * Suc j + (i - 8) = 8 * j + i" by simp
      ultimately show "bit (ucast (ucast (drop_bit (8 * j) v) :: byte) OR push_bit 8 (drop_bit (8 * Suc j) v)) i =
        bit (drop_bit (8 * j) v) i"
        by (cases "8 \<le> i") (auto simp: bit_simps simp del: mult_Suc_right)
    qed
    then show ?case unfolding j using Suc by simp
  qed
  from this [of 0] show ?thesis by (simp add: to_memory_def)
qed

lemma length_to_memory [simp]: "length (to_memory n v) = n"
  by (simp add: to_memory_def)

lemma decode_truncated:
  fixes v :: "'a::len word"
  assumes "8 \<le> LENGTH('a)"
  shows "k < length (varint_encode v) \<Longrightarrow> varint_decode_loop s rd out (take k (varint_encode v)) = (0, 0)"
proof (induction v arbitrary: s rd out k rule: varint_encode.induct)
  case (1 v)
  show ?case
  proof (cases "unat v < 0x80 \<or> k = 0")
    case True
    then show ?thesis using "1.prems" by (auto simp: varint_encode.simps [of v])
  next
    case False
    then obtain j where "k = Suc j" by (cases k) auto
    then show ?thesis using False "1.IH" [of j] "1.prems" continuation_bit [OF assms, of v]
      by (simp add: varint_encode.simps [of v] Let_def)
  qed
qed

section \<open>Properties\<close>

text \<open>
  Every unsigned 32- or 64-bit number survives the varint encoding, whatever follows it in the
  buffer: decoding returns the number and exactly the bytes the encoder wrote, of which there are
  between 1 and 5, respectively 10.
\<close>

theorem varint_round_trip:
  "varint_decode_32 (varint_encode_32 v @ rest) = (length (varint_encode_32 v), v) \<and>
   varint_decode_64 (varint_encode_64 w @ rest) = (length (varint_encode_64 w), w) \<and>
   0 < length (varint_encode_32 v) \<and> length (varint_encode_32 v) \<le> 5 \<and>
   0 < length (varint_encode_64 w) \<and> length (varint_encode_64 w) \<le> 10"
  using varint_encode_length [of v 5] varint_encode_length [of w 10] unsigned_less [of v, where 'a = nat] unsigned_less [of w, where 'a = nat]
  by (auto simp: varint_decode_32_def varint_encode_32_def varint_decode_64_def varint_encode_64_def
      decode_loop_encode varint_encode_nonempty)

lemma sint_msb: "bit v (LENGTH('a) - 1) \<longleftrightarrow> sint v < 0" for v :: "'a::len word"
  by (simp add: bit_last_iff)

lemma signed_top: "signed_drop_bit (LENGTH('a) - 1) v = (if sint v < 0 then - 1 else 0)" for v :: "'a::len word"
  by (rule bit_word_eqI)
    (auto simp: bit_simps sint_msb [symmetric] Suc_le_eq)

lemma uint_zigzag: "uint (zigzag_encode v) = (if 0 \<le> sint v then 2 * sint v else - 2 * sint v - 1)"
  for v :: "'a::len word"
proof -
  let ?r = "if 0 \<le> sint v then 2 * sint v else - 2 * sint v - 1"
  have v: "v = of_int (sint v)" by simp
  have "w XOR (- 1) = NOT w" for w :: "'a word" by (rule bit_word_eqI) (auto simp: bit_simps)
  then have "zigzag_encode v = (if sint v < 0 then - (2 * v) - 1 else 2 * v)"
    unfolding zigzag_encode_def signed_top by (auto simp: push_bit_eq_mult not_eq_complement mult.commute)
  also have "\<dots> = of_int ?r" by (subst (1 2) v) simp
  finally have "uint (zigzag_encode v) = take_bit LENGTH('a) ?r" by (simp add: unsigned_of_int)
  moreover have "0 \<le> ?r" "?r < 2 ^ LENGTH('a)"
    using sint_ge [of v] sint_lt [of v] by (cases "LENGTH('a)"; auto)+
  ultimately show ?thesis by (simp add: take_bit_int_eq_self)
qed

text \<open>
  Signed numbers survive ZigZag and varint together, and ZigZag maps numbers of small magnitude
  to small codes: \<open>n \<ge> 0\<close> to \<open>2 n\<close> and \<open>n < 0\<close> to \<open>- 2 n - 1\<close>.
\<close>

theorem varint_signed_round_trip:
  "varint_decode_signed_32 (varint_encode_signed_32 v @ rest) out = (length (varint_encode_signed_32 v), v) \<and>
   varint_decode_signed_64 (varint_encode_signed_64 w @ rest) out' = (length (varint_encode_signed_64 w), w) \<and>
   uint (zigzag_encode_32 v) = (if 0 \<le> sint v then 2 * sint v else - 2 * sint v - 1) \<and>
   uint (zigzag_encode_64 w) = (if 0 \<le> sint w then 2 * sint w else - 2 * sint w - 1)"
  by (simp add: varint_decode_signed_32_def varint_encode_signed_32_def varint_decode_32_def varint_encode_32_def
      varint_decode_signed_64_def varint_encode_signed_64_def varint_decode_64_def varint_encode_64_def
      decode_loop_encode varint_encode_nonempty zigzag_decode_encode zigzag_encode_32_def zigzag_decode_32_def
      zigzag_encode_64_def zigzag_decode_64_def uint_zigzag)

text \<open>
  A varint cut short is detected: on every proper prefix of an encoding the decoder reads to the
  end of the buffer and reports 0 bytes and the value 0.
\<close>

theorem varint_truncation_detected:
  assumes "k < length (varint_encode_64 v)"
  shows "varint_decode_64 (take k (varint_encode_64 v)) = (0, 0)"
  using decode_truncated [of k v] assms by (simp add: varint_decode_64_def varint_encode_64_def)

theorem varint_truncation_detected_witness:
  "varint_decode_64 (take 1 (varint_encode_64 300)) = (0, 0)"
  by (rule varint_truncation_detected)
    (simp add: varint_encode_64_def varint_encode.simps [of 300] varint_encode_nonempty)

text \<open>
  The big-endian accessors put the most significant byte first, and reading back what was
  written gives the number again, whatever follows it in the buffer.
\<close>

theorem big_endian_round_trip:
  "write_int32_be v = [ucast (drop_bit 24 v), ucast (drop_bit 16 v), ucast (drop_bit 8 v), ucast v] \<and>
   read_int16_be (write_int16_be u @ rest) = u \<and> read_int32_be (write_int32_be v @ rest) = v \<and>
   read_int64_be (write_int64_be w @ rest) = w"
proof -
  have "ucast (ntohl v) = (ucast (drop_bit 24 v) :: byte)"
    "ucast (drop_bit 8 (ntohl v)) = (ucast (drop_bit 16 v) :: byte)"
    "ucast (drop_bit 16 (ntohl v)) = (ucast (drop_bit 8 v) :: byte)"
    "ucast (drop_bit 24 (ntohl v)) = (ucast v :: byte)"
    by (rule bit_word_eqI, simp add: bit_simps bit_ntohl)+
  moreover have "[0..<4] = [0, 1, 2, 3 :: nat]" by (simp add: upt_rec)
  ultimately have "write_int32_be v = [ucast (drop_bit 24 v), ucast (drop_bit 16 v), ucast (drop_bit 8 v), ucast v]"
    by (simp add: write_int32_be_def host_to_be32_def to_memory_def)
  moreover have "read_int16_be (write_int16_be u @ rest) = u \<and> read_int32_be (write_int32_be v @ rest) = v \<and>
   read_int64_be (write_int64_be w @ rest) = w"
    by (simp add: read_int16_be_def write_int16_be_def read_int32_be_def write_int32_be_def read_int64_be_def
        write_int64_be_def from_to_memory be64_involution host_to_be16_def be_to_host16_def ntohs_ntohs
        host_to_be32_def be_to_host32_def ntohl_ntohl)
  ultimately show ?thesis by blast
qed

end
