(* ===== verification/Sorted_Vector.thy ===== *)
theory Sorted_Vector
  imports Torrent_Prelude
begin

text \<open>
  Binary search on sorted vectors, as \<^verbatim>\<open>std::lower_bound\<close> and \<^verbatim>\<open>std::upper_bound\<close> do it, and the
  contract of an index that answers floor queries. \<open>partition_point\<close> is the halving loop of the
  standard library; it finds the boundary that a linear scan would find.
\<close>

section \<open>Binary search\<close>

function partition_point :: "('a \<Rightarrow> bool) \<Rightarrow> 'a list \<Rightarrow> nat \<Rightarrow> nat \<Rightarrow> nat" where
  "partition_point p xs first len =
     (if len = 0 then first
      else let half = len div 2; mid = first + half
           in if p (xs ! mid) then partition_point p xs (mid + 1) (len - half - 1)
              else partition_point p xs first half)"
  by pat_completeness auto
termination
  by (relation "measure (\<lambda>(p, xs, first, len). len)") auto

declare partition_point.simps [simp del]

definition lower_bound_by :: "('a \<Rightarrow> int) \<Rightarrow> 'a list \<Rightarrow> int \<Rightarrow> nat" where
  "lower_bound_by key xs target = partition_point (\<lambda>e. key e < target) xs 0 (length xs)"

definition upper_bound_by :: "('a \<Rightarrow> int) \<Rightarrow> 'a list \<Rightarrow> int \<Rightarrow> nat" where
  "upper_bound_by key xs target = partition_point (\<lambda>e. \<not> target < key e) xs 0 (length xs)"

text \<open>Keys ascend strictly.\<close>

definition ascending :: "('a \<Rightarrow> int) \<Rightarrow> 'a list \<Rightarrow> bool" where
  "ascending key xs \<longleftrightarrow> sorted_wrt (\<lambda>a b. key a < key b) xs"

lemma partition_point_bounds:
  assumes "\<And>i j. first \<le> i \<Longrightarrow> i < j \<Longrightarrow> j < first + len \<Longrightarrow> p (xs ! j) \<Longrightarrow> p (xs ! i)"
  shows "first \<le> partition_point p xs first len \<and> partition_point p xs first len \<le> first + len \<and>
    (\<forall>i. first \<le> i \<longrightarrow> i < partition_point p xs first len \<longrightarrow> p (xs ! i)) \<and>
    (\<forall>i. partition_point p xs first len \<le> i \<longrightarrow> i < first + len \<longrightarrow> \<not> p (xs ! i))"
  using assms
proof (induction p xs first len rule: partition_point.induct)
  case (1 p xs first len)
  show ?case
  proof (cases "len = 0")
    case True
    then show ?thesis by (simp add: partition_point.simps [of p xs first])
  next
    case False
    define half mid where "half = len div 2" and "mid = first + half"
    have half: "half < len" using False by (simp add: half_def)
    show ?thesis
    proof (cases "p (xs ! mid)")
      case True
      let ?r = "partition_point p xs (mid + 1) (len - half - 1)"
      have eq: "partition_point p xs first len = ?r"
        using False True by (subst partition_point.simps) (simp add: Let_def half_def mid_def)
      have *: "mid + 1 \<le> ?r \<and> ?r \<le> mid + 1 + (len - half - 1) \<and> (\<forall>i. mid + 1 \<le> i \<longrightarrow> i < ?r \<longrightarrow> p (xs ! i)) \<and>
        (\<forall>i. ?r \<le> i \<longrightarrow> i < mid + 1 + (len - half - 1) \<longrightarrow> \<not> p (xs ! i))"
      proof (rule "1.IH"(1) [OF False half_def mid_def True])
        fix i j assume "mid + 1 \<le> i" "i < j" "j < mid + 1 + (len - half - 1)" "p (xs ! j)"
        then show "p (xs ! i)" using "1.prems" [of i j] half by (simp add: mid_def)
      qed
      have "p (xs ! i)" if "first \<le> i" "i \<le> mid" for i
        using that True "1.prems" [of i mid] half by (cases "i = mid") (auto simp: mid_def)
      then have "p (xs ! i)" if "first \<le> i" "i < ?r" for i
        using that * by (cases "i \<le> mid") auto
      moreover have "mid + 1 + (len - half - 1) = first + len" using half by (simp add: mid_def)
      ultimately show ?thesis unfolding eq using * by (auto simp: mid_def)
    next
      case nope: False
      let ?r = "partition_point p xs first half"
      have eq: "partition_point p xs first len = ?r"
        using False nope by (subst partition_point.simps) (simp add: Let_def half_def mid_def)
      have "first \<le> ?r \<and> ?r \<le> first + half \<and> (\<forall>i. first \<le> i \<longrightarrow> i < ?r \<longrightarrow> p (xs ! i)) \<and>
        (\<forall>i. ?r \<le> i \<longrightarrow> i < first + half \<longrightarrow> \<not> p (xs ! i))"
      proof (rule "1.IH"(2) [OF False half_def mid_def nope])
        fix i j assume "first \<le> i" "i < j" "j < first + half" "p (xs ! j)"
        then show "p (xs ! i)" using "1.prems" [of i j] half by simp
      qed
      moreover have "\<not> p (xs ! i)" if "mid \<le> i" "i < first + len" for i
        using that nope "1.prems" [of mid i] by (cases "i = mid") (auto simp: mid_def)
      ultimately show ?thesis unfolding eq using half by (auto simp: mid_def not_le)
    qed
  qed
qed

lemma partition_point_takeWhile:
  assumes "\<And>i j. i < j \<Longrightarrow> j < length xs \<Longrightarrow> p (xs ! j) \<Longrightarrow> p (xs ! i)"
  shows "partition_point p xs 0 (length xs) = length (takeWhile p xs)"
proof (rule antisym)
  let ?k = "partition_point p xs 0 (length xs)"
  have k: "?k \<le> length xs" "\<And>i. i < ?k \<Longrightarrow> p (xs ! i)" "\<And>i. ?k \<le> i \<Longrightarrow> i < length xs \<Longrightarrow> \<not> p (xs ! i)"
    using partition_point_bounds [of 0 "length xs" p xs] assms by auto
  show "?k \<le> length (takeWhile p xs)" using k(1,2) by (intro length_takeWhile_less_P_nth) auto
  show "length (takeWhile p xs) \<le> ?k"
  proof (rule ccontr)
    assume "\<not> length (takeWhile p xs) \<le> ?k"
    then have lt: "?k < length (takeWhile p xs)" by simp
    then have "p (takeWhile p xs ! ?k)" by (meson nth_mem set_takeWhileD)
    moreover have "?k < length xs" using lt length_takeWhile_le [of p xs] by linarith
    ultimately show False using k(3) takeWhile_nth [OF lt] by simp
  qed
qed

lemma ascending_nth: "ascending key xs \<Longrightarrow> i < j \<Longrightarrow> j < length xs \<Longrightarrow> key (xs ! i) < key (xs ! j)"
  by (simp add: ascending_def sorted_wrt_iff_nth_less)

lemma lower_bound_takeWhile:
  "ascending key xs \<Longrightarrow> lower_bound_by key xs t = length (takeWhile (\<lambda>e. key e < t) xs)"
  unfolding lower_bound_by_def by (rule partition_point_takeWhile) (force dest: ascending_nth)

lemma upper_bound_takeWhile:
  "ascending key xs \<Longrightarrow> upper_bound_by key xs t = length (takeWhile (\<lambda>e. key e \<le> t) xs)"
  unfolding upper_bound_by_def not_less by (rule partition_point_takeWhile) (force dest: ascending_nth)

lemma ascending_split:
  assumes "ascending key xs"
  shows "takeWhile (\<lambda>e. key e < t) xs = filter (\<lambda>e. key e < t) xs"
    "takeWhile (\<lambda>e. key e \<le> t) xs = filter (\<lambda>e. key e \<le> t) xs"
    "dropWhile (\<lambda>e. key e < t) xs = filter (\<lambda>e. t \<le> key e) xs"
  using assms unfolding ascending_def
  by (induction xs) (auto simp: empty_filter_conv intro!: filter_True [symmetric])

lemma ascending_filter: "ascending key xs \<Longrightarrow> ascending key (filter p xs)"
  by (simp add: ascending_def sorted_wrt_filter)

lemma ascending_append:
  "ascending key (xs @ ys) \<longleftrightarrow> ascending key xs \<and> ascending key ys \<and> (\<forall>x \<in> set xs. \<forall>y \<in> set ys. key x < key y)"
  by (auto simp: ascending_def sorted_wrt_append)

lemma ascending_Cons:
  "ascending key (x # xs) \<longleftrightarrow> ascending key xs \<and> (\<forall>y \<in> set xs. key x < key y)"
  by (auto simp: ascending_def)

lemma ascending_Nil [simp]: "ascending key []"
  by (simp add: ascending_def)

lemma take_lower_bound:
  assumes "ascending key xs"
  shows "take (lower_bound_by key xs t) xs = filter (\<lambda>e. key e < t) xs"
    "drop (lower_bound_by key xs t) xs = filter (\<lambda>e. t \<le> key e) xs"
  unfolding lower_bound_takeWhile [OF assms] takeWhile_eq_take [symmetric] dropWhile_eq_drop [symmetric]
  by (rule ascending_split [OF assms])+

section \<open>Thinning out\<close>

text \<open>
  What \<^verbatim>\<open>prune_half\<close> of the indexes keeps: the first entry, every second one from the third on, and the
  last one.
\<close>

definition thin :: "('a \<Rightarrow> int) \<Rightarrow> 'a list \<Rightarrow> 'a list" where
  "thin key es =
     (let pruned = hd es # map ((!) es) (filter even [2..<length es - 1])
      in if key (last pruned) \<noteq> key (last es) then pruned @ [last es] else pruned)"

lemma ascending_map_nth:
  assumes "ascending key xs" "sorted_wrt (<) is" "\<forall>i \<in> set is. i < length xs"
  shows "ascending key (map ((!) xs) is)"
  using assms(2,3) by (induction "is") (auto simp: ascending_Cons ascending_nth [OF assms(1)])

lemma length_filter_even: "length (filter even [0..<m]) = (m + 1) div 2"
  by (induction m) auto

lemma thin_entries:
  assumes "ascending key es" "2 < length es"
  defines "n \<equiv> length es"
  defines "is \<equiv> 0 # filter even [2..<n - 1] @ [n - 1]"
  shows "thin key es = map ((!) es) is" "sorted_wrt (<) is" "\<forall>i \<in> set is. i < n" "length is = n div 2 + 1"
proof -
  have n: "2 < n" using assms(2) by (simp add: n_def)
  show sorted: "sorted_wrt (<) is"
    unfolding is_def using n by (auto simp: sorted_wrt_append intro!: sorted_wrt_filter)
  show bound: "\<forall>i \<in> set is. i < n" unfolding is_def using n by auto
  have "[0..<n - 1] = [0, 1] @ [2..<n - 1]" using n by (simp add: upt_conv_Cons numeral_2_eq_2)
  then have "length (filter even [2..<n - 1]) + 1 = n div 2"
    using length_filter_even [of "n - 1"] n by simp
  then show "length is = n div 2 + 1" by (simp add: is_def)
  let ?front = "hd es # map ((!) es) (filter even [2..<n - 1])"
  have front: "?front = map ((!) es) (0 # filter even [2..<n - 1])" using n by (cases es) (simp_all add: n_def)
  have last: "last es = es ! (n - 1)" using n by (cases "es = []") (simp_all add: last_conv_nth n_def)
  have "last (0 # filter even [2..<n - 1]) < n - 1"
  proof -
    have "last (0 # filter even [2..<n - 1]) \<in> set (0 # filter even [2..<n - 1])" by (rule last_in_set) simp
    then show ?thesis using n by (auto simp del: last.simps)
  qed
  then have "key (last ?front) < key (last es)"
    unfolding front last by (subst last_map) (auto intro!: ascending_nth [OF assms(1)] simp: n_def [symmetric] n simp del: last.simps)
  then show "thin key es = map ((!) es) is"
    using n front last by (simp add: thin_def Let_def n_def [symmetric] is_def split: if_split_asm)
qed

lemma thin_ascending: "ascending key es \<Longrightarrow> 2 < length es \<Longrightarrow> ascending key (thin key es)"
  using thin_entries [of key es] ascending_map_nth [of key es] by metis

lemma thin_subset:
  assumes "ascending key es" "2 < length es"
  shows "set (thin key es) \<subseteq> set es" "thin key es \<noteq> []" "hd (thin key es) = hd es" "last (thin key es) = last es"
proof -
  have ne: "es \<noteq> []" using assms(2) by auto
  note t = thin_entries [OF assms]
  show "set (thin key es) \<subseteq> set es" unfolding t(1) using t(3) by auto
  show "thin key es \<noteq> []" "hd (thin key es) = hd es" "last (thin key es) = last es"
    unfolding t(1) using ne by (simp_all add: hd_conv_nth last_conv_nth)
qed

section \<open>Floor queries\<close>

text \<open>The entry of the greatest key that is not above the target.\<close>

definition is_floor :: "(int \<rightharpoonup> 'v) \<Rightarrow> int \<Rightarrow> int \<Rightarrow> 'v \<Rightarrow> bool" where
  "is_floor m t k v \<longleftrightarrow> m k = Some v \<and> k \<le> t \<and> (\<forall>k'. k' \<in> dom m \<longrightarrow> k' \<le> t \<longrightarrow> k' \<le> k)"

text \<open>
  The contract of a floor index: what storing and cutting do to the mapping it stands for, and what
  a query returns. \<open>room\<close> says when a store does not thin the index out.
\<close>

locale floor_index =
  fixes inv :: "'s \<Rightarrow> bool" and room :: "'s \<Rightarrow> bool" and view :: "'s \<Rightarrow> int \<rightharpoonup> 'v"
    and put :: "int \<Rightarrow> 'v \<Rightarrow> 's \<Rightarrow> 's" and cut :: "int \<Rightarrow> 's \<Rightarrow> 's" and query :: "'s \<Rightarrow> int \<Rightarrow> 'v option"
  assumes put_inv: "inv s \<Longrightarrow> inv (put k v s)"
    and put_view: "inv s \<Longrightarrow> room s \<Longrightarrow> view (put k v s) = (view s)(k \<mapsto> v)"
    and cut_inv: "inv s \<Longrightarrow> inv (cut c s)"
    and cut_view: "inv s \<Longrightarrow> view (cut c s) = view s |` {k. k < c}"
    and query_some: "inv s \<Longrightarrow> query s t = Some v \<Longrightarrow> \<exists>k. is_floor (view s) t k v"
    and query_none: "inv s \<Longrightarrow> query s t = None \<Longrightarrow> k \<in> dom (view s) \<Longrightarrow> t < k"
begin

lemma query_put_same:
  assumes "inv s" "room s"
  shows "query (put k v s) k = Some v"
proof (cases "query (put k v s) k")
  case None
  then show ?thesis using query_none [OF put_inv [OF assms(1)], of k v k k] put_view [OF assms] by simp
next
  case (Some w)
  then obtain k' where "is_floor (view (put k v s)) k k' w" using query_some [OF put_inv [OF assms(1)]] by blast
  then have "k' = k" "view (put k v s) k' = Some w"
    unfolding is_floor_def put_view [OF assms] by (auto intro: antisym)
  then show ?thesis using Some by (simp add: put_view [OF assms])
qed

lemma query_after_cut:
  assumes "inv s" "query (cut c s) t = Some v"
  shows "\<exists>k < c. view s k = Some v \<and> k \<le> t"
  using query_some [OF cut_inv [OF assms(1)] assms(2)]
  by (auto simp: is_floor_def cut_view [OF assms(1)] restrict_map_def split: if_splits)

text \<open>Below the cut nothing is lost.\<close>

lemma query_below_cut:
  assumes "inv s" "t < c" "query s t = Some v"
  shows "query (cut c s) t = Some v"
proof (cases "query (cut c s) t")
  case None
  obtain k where "is_floor (view s) t k v" using query_some [OF assms(1,3)] by blast
  then have "k \<in> dom (view (cut c s))" "k \<le> t" using assms(2) by (auto simp: is_floor_def cut_view [OF assms(1)])
  then show ?thesis using query_none [OF cut_inv [OF assms(1)] None] by fastforce
next
  case (Some w)
  obtain k k' where "is_floor (view s) t k v" "is_floor (view (cut c s)) t k' w"
    using query_some [OF assms(1,3)] query_some [OF cut_inv [OF assms(1)] Some] by blast
  then have f: "view s k = Some v" "k \<le> t" "view s k' = Some w" "k' \<le> t" "k' \<le> k"
    "\<And>j. j \<in> dom (view (cut c s)) \<Longrightarrow> j \<le> t \<Longrightarrow> j \<le> k'"
    by (auto simp: is_floor_def cut_view [OF assms(1)] restrict_map_def split: if_splits)
  have "k \<in> dom (view (cut c s))" using f assms(2) by (auto simp: cut_view [OF assms(1)])
  then have "k = k'" using f by force
  then show ?thesis using f Some by simp
qed

end

end
