(* ===== verification/Offset_Index.thy ===== *)
theory Offset_Index
  imports Sorted_Vector
begin

text \<open>
  \<^verbatim>\<open>OffsetIndex\<close> of \<^verbatim>\<open>src/torrent/storage/offset_index.cpp\<close>: the sparse index of a log segment, from
  logical offsets to byte positions, a vector sorted by offset with an atomic copy of its size.
  Every public method holds the lock for its whole body, so each is one function on the state.
  It is refined to a mapping from offsets to positions and shown to be a floor index.
\<close>

section \<open>State and operations\<close>

record SparseIndexEntry =
  si_offset :: log_offset
  si_file_position :: int
  si_timestamp :: timestamp_ms

record OffsetIndex =
  oi_entries :: "SparseIndexEntry list"
  oi_entry_count :: nat

definition new_offset_index :: OffsetIndex where
  "new_offset_index = \<lparr>oi_entries = [], oi_entry_count = 0\<rparr>"

text \<open>The move constructor: the new object and what is left of the old one.\<close>

definition move_offset_index :: "OffsetIndex \<Rightarrow> OffsetIndex \<times> OffsetIndex" where
  "move_offset_index other =
     (\<lparr>oi_entries = oi_entries other, oi_entry_count = oi_entry_count other\<rparr>,
      other\<lparr>oi_entries := [], oi_entry_count := 0\<rparr>)"

definition binary_search_le :: "SparseIndexEntry list \<Rightarrow> log_offset \<Rightarrow> nat option" where
  "binary_search_le es target =
     (if es = [] \<or> target < si_offset (hd es) then None
      else let it = upper_bound_by si_offset es target
           in if it = 0 then None else Some (it - 1))"

definition binary_search_ge :: "SparseIndexEntry list \<Rightarrow> log_offset \<Rightarrow> nat" where
  "binary_search_ge es target = lower_bound_by si_offset es target"

definition kMaxEntries :: nat where "kMaxEntries = 50000"

definition prune_half :: "OffsetIndex \<Rightarrow> OffsetIndex" where
  "prune_half s =
     (let es = oi_entries s; old_size = length es
      in if old_size \<le> 2 then s
         else let pruned = thin si_offset es
              in \<lparr>oi_entries = pruned, oi_entry_count = length pruned\<rparr>)"

text \<open>The insertion that keeps the order: replace the entry of that offset or open a gap.\<close>

definition place_entry :: "SparseIndexEntry \<Rightarrow> SparseIndexEntry list \<Rightarrow> SparseIndexEntry list" where
  "place_entry e es =
     (let it = lower_bound_by si_offset es (si_offset e)
      in if it \<noteq> length es \<and> si_offset (es ! it) = si_offset e then es[it := e]
         else take it es @ e # drop it es)"

definition add_entry :: "log_offset \<Rightarrow> int \<Rightarrow> timestamp_ms \<Rightarrow> OffsetIndex \<Rightarrow> OffsetIndex" where
  "add_entry off pos ts s =
     (let e = \<lparr>si_offset = off, si_file_position = pos, si_timestamp = ts\<rparr>; es = oi_entries s
      in if es \<noteq> [] \<and> off < si_offset (last es) then
           let es' = place_entry e es
           in s\<lparr>oi_entries := es',
                oi_entry_count := (if length es' = length es then oi_entry_count s else length es')\<rparr>
         else if es \<noteq> [] \<and> off = si_offset (last es) then s\<lparr>oi_entries := butlast es @ [e]\<rparr>
         else
           let s = s\<lparr>oi_entries := es @ [e], oi_entry_count := length (es @ [e])\<rparr>
           in if length (oi_entries s) > kMaxEntries then prune_half s else s)"

definition add_entries :: "SparseIndexEntry list \<Rightarrow> OffsetIndex \<Rightarrow> OffsetIndex" where
  "add_entries new s =
     (if new = [] then s
      else let es = oi_entries s;
               es = (if es = [] \<or> si_offset (hd new) > si_offset (last es) then es @ new
                     else fold place_entry new es)
           in s\<lparr>oi_entries := es, oi_entry_count := length es\<rparr>)"

definition lookup :: "OffsetIndex \<Rightarrow> log_offset \<Rightarrow> int option" where
  "lookup s target =
     (case binary_search_le (oi_entries s) target of
        None \<Rightarrow> None
      | Some idx \<Rightarrow> Some (si_file_position (oi_entries s ! idx)))"

definition upper_bound :: "OffsetIndex \<Rightarrow> log_offset \<Rightarrow> int option" where
  "upper_bound s target =
     (let idx = binary_search_ge (oi_entries s) target
      in if idx \<ge> length (oi_entries s) then None else Some (si_file_position (oi_entries s ! idx)))"

definition lower_bound :: "OffsetIndex \<Rightarrow> log_offset \<Rightarrow> int option" where
  "lower_bound s target =
     (let es = oi_entries s
      in case binary_search_le es target of
           None \<Rightarrow> None
         | Some idx \<Rightarrow>
             if si_offset (es ! idx) < target \<and> idx + 1 < length es
             then Some (si_file_position (es ! (idx + 1)))
             else Some (si_file_position (es ! idx)))"

definition truncate_to :: "log_offset \<Rightarrow> OffsetIndex \<Rightarrow> OffsetIndex" where
  "truncate_to cutoff s =
     (let es = oi_entries s
      in if es = [] then s
         else let it = lower_bound_by si_offset es cutoff;
                  es = (if it = 0 then [] else if it \<noteq> length es then take it es else es)
              in s\<lparr>oi_entries := es, oi_entry_count := length es\<rparr>)"

definition index_size :: "OffsetIndex \<Rightarrow> nat" where "index_size s = oi_entry_count s"
definition index_empty :: "OffsetIndex \<Rightarrow> bool" where "index_empty s \<longleftrightarrow> oi_entry_count s = 0"

definition first_offset :: "OffsetIndex \<Rightarrow> log_offset option" where
  "first_offset s = (if oi_entries s = [] then None else Some (si_offset (hd (oi_entries s))))"

definition last_offset :: "OffsetIndex \<Rightarrow> log_offset option" where
  "last_offset s = (if oi_entries s = [] then None else Some (si_offset (last (oi_entries s))))"

definition index_entry_at :: "OffsetIndex \<Rightarrow> nat \<Rightarrow> SparseIndexEntry option" where
  "index_entry_at s idx = (if idx \<ge> length (oi_entries s) then None else Some (oi_entries s ! idx))"

definition index_clear :: "OffsetIndex \<Rightarrow> OffsetIndex" where
  "index_clear s = s\<lparr>oi_entries := [], oi_entry_count := 0\<rparr>"

section \<open>Invariant and abstraction\<close>

definition oi_inv :: "OffsetIndex \<Rightarrow> bool" where
  "oi_inv s \<longleftrightarrow> ascending si_offset (oi_entries s) \<and> oi_entry_count s = length (oi_entries s)"

definition oi_view :: "OffsetIndex \<Rightarrow> log_offset \<rightharpoonup> int" where
  "oi_view s = map_of (map (\<lambda>e. (si_offset e, si_file_position e)) (oi_entries s))"

definition oi_room :: "OffsetIndex \<Rightarrow> bool" where
  "oi_room s \<longleftrightarrow> length (oi_entries s) < kMaxEntries"

lemma ascending_distinct: "ascending key xs \<Longrightarrow> distinct (map key xs)"
  by (induction xs) (auto simp: ascending_Cons)

lemma oi_view_Some:
  assumes "ascending si_offset (oi_entries s)"
  shows "oi_view s k = Some p \<longleftrightarrow> (\<exists>e \<in> set (oi_entries s). si_offset e = k \<and> si_file_position e = p)"
proof -
  have "distinct (map fst (map (\<lambda>e. (si_offset e, si_file_position e)) (oi_entries s)))"
    using ascending_distinct [OF assms] by (simp add: o_def)
  then show ?thesis unfolding oi_view_def by (auto simp: map_of_eq_Some_iff)
qed

text \<open>What every insertion amounts to.\<close>

definition inserted :: "SparseIndexEntry \<Rightarrow> SparseIndexEntry list \<Rightarrow> SparseIndexEntry list" where
  "inserted e es = filter (\<lambda>x. si_offset x < si_offset e) es @ e # filter (\<lambda>x. si_offset e < si_offset x) es"

lemma ascending_inserted: "ascending si_offset es \<Longrightarrow> ascending si_offset (inserted e es)"
  by (auto simp: inserted_def ascending_append ascending_Cons ascending_filter)

lemma filter_ge_Cons:
  assumes "ascending key (x # xs)" "key x = k"
  shows "filter (\<lambda>y. k < key y) (x # xs) = xs"
  using assms by (auto simp: ascending_Cons filter_id_conv)

lemma place_entry_inserted:
  assumes "ascending si_offset es"
  shows "place_entry e es = inserted e es"
proof -
  let ?it = "lower_bound_by si_offset es (si_offset e)"
  note sp = take_lower_bound [OF assms, of "si_offset e"]
  show ?thesis
  proof (cases "?it < length es \<and> si_offset (es ! ?it) = si_offset e")
    case True
    have d: "drop ?it es = es ! ?it # drop (Suc ?it) es" using True by (simp add: Cons_nth_drop_Suc)
    have "ascending si_offset (drop ?it es)" using ascending_filter [OF assms] sp(2) by metis
    then have "drop (Suc ?it) es = filter (\<lambda>y. si_offset e < si_offset y) (drop ?it es)"
      unfolding d using True filter_ge_Cons by metis
    also have "\<dots> = filter (\<lambda>y. si_offset e < si_offset y) es"
      unfolding sp(2) by (simp add: conj_commute) (rule filter_cong, auto)
    finally show ?thesis using True sp(1) by (auto simp: place_entry_def inserted_def upd_conv_take_nth_drop)
  next
    case False
    have "?it \<le> length es" by (simp add: lower_bound_takeWhile [OF assms] length_takeWhile_le)
    have "filter (\<lambda>y. si_offset e \<le> si_offset y) es = filter (\<lambda>y. si_offset e < si_offset y) es"
    proof (rule filter_cong [OF refl])
      fix y assume y: "y \<in> set es"
      have "si_offset y \<noteq> si_offset e"
      proof
        assume eq: "si_offset y = si_offset e"
        then have "y \<in> set (drop ?it es)" using y unfolding sp(2) by simp
        then have ne: "drop ?it es \<noteq> []" by auto
        then have lt: "?it < length es" by simp
        then have "es ! ?it \<in> set (drop ?it es)" by (metis hd_drop_conv_nth hd_in_set ne)
        then have "si_offset e \<le> si_offset (es ! ?it)" unfolding sp(2) by simp
        then have less: "si_offset e < si_offset (es ! ?it)" using False lt by simp
        obtain j where j: "j < length es" "es ! j = y" using y by (auto simp: in_set_conv_nth)
        have "\<not> ?it < j" using ascending_nth [OF assms, of ?it j] j eq less by auto
        moreover have "j \<noteq> ?it" using j eq less by auto
        ultimately have "j < ?it" by simp
        then have "y \<in> set (take ?it es)" using j \<open>?it \<le> length es\<close> by (auto simp: in_set_conv_nth intro!: exI [of _ j])
        then show False using eq unfolding sp(1) by simp
      qed
      then show "(si_offset e \<le> si_offset y) = (si_offset e < si_offset y)" by auto
    qed
    then show ?thesis using False sp \<open>?it \<le> length es\<close> by (auto simp: place_entry_def inserted_def Let_def)
  qed
qed

lemma length_place_entry: "length (place_entry e es) = length es \<or> length (place_entry e es) = length es + 1"
  by (auto simp: place_entry_def Let_def)

lemma inserted_last:
  assumes "ascending si_offset es" "es \<noteq> []" "si_offset e = si_offset (last es)"
  shows "butlast es @ [e] = inserted e es"
proof -
  obtain ys y where es: "es = ys @ [y]" using assms(2) by (cases es rule: rev_cases) auto
  then have "\<forall>x \<in> set ys. si_offset x < si_offset e"
    using assms(1,3) by (simp add: ascending_append)
  then have "filter (\<lambda>x. si_offset x < si_offset e) ys = ys" "filter (\<lambda>x. si_offset e < si_offset x) ys = []"
    by (auto simp: filter_id_conv filter_empty_conv)
  then show ?thesis using es assms(3) by (simp add: inserted_def)
qed

lemma inserted_end:
  assumes "ascending si_offset es" "es = [] \<or> si_offset (last es) < si_offset e"
  shows "es @ [e] = inserted e es"
proof -
  have "\<forall>x \<in> set es. si_offset x < si_offset e"
    using assms by (cases es rule: rev_cases) (auto simp: ascending_append)
  then have "filter (\<lambda>x. si_offset x < si_offset e) es = es" "filter (\<lambda>x. si_offset e < si_offset x) es = []"
    by (auto simp: filter_id_conv filter_empty_conv)
  then show ?thesis by (simp add: inserted_def)
qed

text \<open>Without thinning, \<^verbatim>\<open>add_entry\<close> inserts.\<close>

lemma add_entry_cases:
  fixes off pos ts
  defines "e \<equiv> \<lparr>si_offset = off, si_file_position = pos, si_timestamp = ts\<rparr>"
  assumes "oi_inv s"
  shows "add_entry off pos ts s = \<lparr>oi_entries = inserted e (oi_entries s), oi_entry_count = length (inserted e (oi_entries s))\<rparr> \<or>
    add_entry off pos ts s = prune_half \<lparr>oi_entries = inserted e (oi_entries s), oi_entry_count = length (inserted e (oi_entries s))\<rparr> \<and>
      kMaxEntries \<le> length (oi_entries s) \<and> inserted e (oi_entries s) = oi_entries s @ [e]"
proof -
  let ?es = "oi_entries s"
  have asc: "ascending si_offset ?es" and cnt: "oi_entry_count s = length ?es" using assms(2) by (simp_all add: oi_inv_def)
  have off: "si_offset e = off" by (simp add: e_def)
  consider (mid) "?es \<noteq> []" "off < si_offset (last ?es)" | (eq) "?es \<noteq> []" "off = si_offset (last ?es)"
    | (beyond) "?es = [] \<or> si_offset (last ?es) < off" by fastforce
  then show ?thesis
  proof cases
    case mid
    then show ?thesis using place_entry_inserted [OF asc, of e] length_place_entry [of e ?es] cnt
      by (auto simp: add_entry_def Let_def e_def [symmetric])
  next
    case eq
    have "add_entry off pos ts s = s\<lparr>oi_entries := butlast ?es @ [e]\<rparr>"
      using eq by (simp add: add_entry_def e_def)
    moreover have "length (butlast ?es @ [e]) = length ?es" using eq by simp
    moreover have "butlast ?es @ [e] = inserted e ?es" using inserted_last [OF asc eq(1), of e] off eq(2) by simp
    ultimately have "add_entry off pos ts s = s\<lparr>oi_entries := inserted e ?es\<rparr>" "length (inserted e ?es) = oi_entry_count s"
      using cnt by simp_all
    then show ?thesis by (cases s) simp
  next
    case beyond
    then have "?es @ [e] = inserted e ?es" using inserted_end [OF asc, of e] off by simp
    moreover have "add_entry off pos ts s = (let s = s\<lparr>oi_entries := ?es @ [e], oi_entry_count := length (?es @ [e])\<rparr>
        in if length (oi_entries s) > kMaxEntries then prune_half s else s)"
      using beyond by (auto simp: add_entry_def e_def Let_def)
    moreover have "length (inserted e ?es) = length ?es + 1" using calculation(1) [symmetric] by simp
    ultimately show ?thesis by (cases s) (simp add: Let_def)
  qed
qed

section \<open>Thinning out\<close>

lemma prune_half_entries:
  assumes "ascending si_offset (oi_entries s)" "2 < length (oi_entries s)"
  defines "n \<equiv> length (oi_entries s)"
  defines "is \<equiv> 0 # filter even [2..<n - 1] @ [n - 1]"
  shows "prune_half s = \<lparr>oi_entries = map ((!) (oi_entries s)) is, oi_entry_count = length is\<rparr>"
    "sorted_wrt (<) is" "\<forall>i \<in> set is. i < n" "length is = n div 2 + 1"
  using thin_entries [OF assms(1,2)] assms(2) unfolding n_def is_def by (simp_all add: prune_half_def Let_def)

lemma prune_half_inv: "oi_inv s \<Longrightarrow> oi_inv (prune_half s)"
proof (cases "2 < length (oi_entries s)")
  case True
  assume "oi_inv s"
  then have asc: "ascending si_offset (oi_entries s)" by (simp add: oi_inv_def)
  note p = prune_half_entries [OF asc True]
  show ?thesis unfolding p(1) oi_inv_def using ascending_map_nth [OF asc p(2,3)] by simp
qed (simp add: prune_half_def)

section \<open>A floor index\<close>

lemma add_entry_inv: "oi_inv s \<Longrightarrow> oi_inv (add_entry off pos ts s)"
proof -
  assume inv: "oi_inv s"
  let ?t = "\<lparr>oi_entries = inserted \<lparr>si_offset = off, si_file_position = pos, si_timestamp = ts\<rparr> (oi_entries s),
    oi_entry_count = length (inserted \<lparr>si_offset = off, si_file_position = pos, si_timestamp = ts\<rparr> (oi_entries s))\<rparr>"
  have "oi_inv ?t" using inv by (simp add: oi_inv_def ascending_inserted)
  then show ?thesis using add_entry_cases [OF inv, of off pos ts] prune_half_inv [of ?t] by metis
qed

lemma option_eqI_Some: "(\<And>v. x = Some v \<longleftrightarrow> y = Some v) \<Longrightarrow> x = y"
  by (metis option.exhaust)

lemma view_inserted:
  assumes "ascending si_offset (oi_entries s)"
  shows "oi_view \<lparr>oi_entries = inserted e (oi_entries s), oi_entry_count = n\<rparr> =
    (oi_view s)(si_offset e \<mapsto> si_file_position e)"
proof (rule ext, rule option_eqI_Some)
  fix k v
  show "oi_view \<lparr>oi_entries = inserted e (oi_entries s), oi_entry_count = n\<rparr> k = Some v \<longleftrightarrow>
    ((oi_view s)(si_offset e \<mapsto> si_file_position e)) k = Some v"
    using oi_view_Some [of "\<lparr>oi_entries = inserted e (oi_entries s), oi_entry_count = n\<rparr>" k v]
      oi_view_Some [OF assms, of k v] ascending_inserted [OF assms, of e]
    by (auto simp: inserted_def)
qed

lemma truncate_to_entries:
  assumes "oi_inv s"
  shows "truncate_to c s = \<lparr>oi_entries = filter (\<lambda>e. si_offset e < c) (oi_entries s),
    oi_entry_count = length (filter (\<lambda>e. si_offset e < c) (oi_entries s))\<rparr>"
proof -
  have asc: "ascending si_offset (oi_entries s)" using assms by (simp add: oi_inv_def)
  define it where "it = lower_bound_by si_offset (oi_entries s) c"
  have "truncate_to c s = \<lparr>oi_entries = take it (oi_entries s), oi_entry_count = length (take it (oi_entries s))\<rparr>"
  proof (cases "oi_entries s = []")
    case True
    then show ?thesis using assms by (cases s) (simp add: truncate_to_def oi_inv_def)
  next
    case False
    then show ?thesis by (cases s) (simp add: truncate_to_def Let_def it_def)
  qed
  then show ?thesis unfolding it_def take_lower_bound(1) [OF asc] .
qed

lemma lookup_eq:
  assumes "oi_inv s"
  shows "lookup s t = (let below = filter (\<lambda>e. si_offset e \<le> t) (oi_entries s)
    in if below = [] then None else Some (si_file_position (last below)))"
proof -
  let ?es = "oi_entries s"
  define b where "b = filter (\<lambda>e. si_offset e \<le> t) ?es"
  have asc: "ascending si_offset ?es" using assms by (simp add: oi_inv_def)
  have ub: "upper_bound_by si_offset ?es t = length b"
    by (simp add: upper_bound_takeWhile [OF asc] ascending_split [OF asc] b_def)
  have first: "b = [] \<longleftrightarrow> ?es = [] \<or> t < si_offset (hd ?es)"
    using asc unfolding b_def by (cases ?es) (auto simp: ascending_Cons filter_empty_conv not_le)
  have nth: "?es ! (length b - 1) = last b" if "b \<noteq> []"
  proof -
    have "b = take (length b) ?es"
      unfolding b_def ascending_split(2) [OF asc, symmetric] by (rule takeWhile_eq_take)
    then show ?thesis using that by (metis diff_less last_conv_nth length_greater_0_conv nth_take zero_less_one)
  qed
  show ?thesis
  proof (cases "b = []")
    case True
    then show ?thesis using first by (simp add: lookup_def binary_search_le_def b_def [symmetric])
  next
    case False
    then show ?thesis using first nth by (simp add: lookup_def binary_search_le_def ub b_def [symmetric] Let_def)
  qed
qed

lemma lookup_floor:
  assumes "oi_inv s"
  shows "lookup s t = Some v \<Longrightarrow> \<exists>k. is_floor (oi_view s) t k v"
    "lookup s t = None \<Longrightarrow> k \<in> dom (oi_view s) \<Longrightarrow> t < k"
proof -
  let ?b = "filter (\<lambda>e. si_offset e \<le> t) (oi_entries s)"
  have asc: "ascending si_offset (oi_entries s)" using assms by (simp add: oi_inv_def)
  have dom: "k \<in> dom (oi_view s) \<longleftrightarrow> (\<exists>e \<in> set (oi_entries s). si_offset e = k)" for k
    using oi_view_Some [OF asc, of k] by (auto simp: domIff)
  have max: "si_offset e \<le> si_offset (last ?b)" if "e \<in> set ?b" for e
    using that ascending_filter [OF asc, of "\<lambda>e. si_offset e \<le> t"]
    by (cases ?b rule: rev_cases) (auto simp: ascending_append)
  show "\<exists>k. is_floor (oi_view s) t k v" if "lookup s t = Some v"
  proof -
    have ne: "?b \<noteq> []" and v: "v = si_file_position (last ?b)"
      using that by (auto simp: lookup_eq [OF assms] Let_def split: if_splits)
    have "last ?b \<in> set ?b" using ne by (rule last_in_set)
    then have "oi_view s (si_offset (last ?b)) = Some v" "si_offset (last ?b) \<le> t"
      using oi_view_Some [OF asc] v by auto
    then show ?thesis using max dom unfolding is_floor_def by fastforce
  qed
  show "lookup s t = None \<Longrightarrow> k \<in> dom (oi_view s) \<Longrightarrow> t < k"
    by (auto simp: lookup_eq [OF assms] dom Let_def filter_empty_conv not_le split: if_splits)
qed

interpretation offsets: floor_index oi_inv oi_room oi_view "\<lambda>k v. add_entry k v ts" truncate_to lookup
  for ts :: timestamp_ms
proof unfold_locales
  fix s :: OffsetIndex and k v t c
  assume inv: "oi_inv s"
  then have asc: "ascending si_offset (oi_entries s)" by (simp add: oi_inv_def)
  show "oi_inv (add_entry k v ts s)" by (rule add_entry_inv [OF inv])
  show "oi_view (add_entry k v ts s) = (oi_view s)(k \<mapsto> v)" if "oi_room s"
    using add_entry_cases [OF inv, of k v ts] that
      view_inserted [OF asc, of "\<lparr>si_offset = k, si_file_position = v, si_timestamp = ts\<rparr>"]
    by (auto simp: oi_room_def)
  show "oi_inv (truncate_to c s)"
    unfolding truncate_to_entries [OF inv] by (simp add: oi_inv_def ascending_filter asc)
  show "oi_view (truncate_to c s) = oi_view s |` {k. k < c}"
  proof (rule ext, rule option_eqI_Some)
    fix j p
    show "oi_view (truncate_to c s) j = Some p \<longleftrightarrow> (oi_view s |` {k. k < c}) j = Some p"
      using oi_view_Some [of "truncate_to c s" j p] oi_view_Some [OF asc, of j p] ascending_filter [OF asc]
      unfolding truncate_to_entries [OF inv] by (auto simp: restrict_map_def)
  qed
  show "lookup s t = Some v \<Longrightarrow> \<exists>k. is_floor (oi_view s) t k v" by (rule lookup_floor(1) [OF inv])
  show "lookup s t = None \<Longrightarrow> k \<in> dom (oi_view s) \<Longrightarrow> t < k" by (rule lookup_floor(2) [OF inv])
qed

section \<open>Properties\<close>

lemma ascending_place_all: "ascending si_offset es \<Longrightarrow> ascending si_offset (fold place_entry new es)"
  by (induction new arbitrary: es) (simp_all add: place_entry_inserted ascending_inserted)

lemma ascending_beyond:
  assumes "ascending key xs" "ascending key ys" "xs = [] \<or> ys = [] \<or> key (last xs) < key (hd ys)"
  shows "ascending key (xs @ ys)"
  using assms by (cases xs rule: rev_cases; cases ys) (auto simp: ascending_append ascending_Cons intro: less_trans, meson less_trans)

definition demo_index :: OffsetIndex where
  "demo_index = add_entry 20 200 0 (add_entry 10 100 0 new_offset_index)"

lemma demo_index_eq: "demo_index = \<lparr>oi_entries =
    [\<lparr>si_offset = 10, si_file_position = 100, si_timestamp = 0\<rparr>, \<lparr>si_offset = 20, si_file_position = 200, si_timestamp = 0\<rparr>],
    oi_entry_count = 2\<rparr>"
  by (simp add: demo_index_def add_entry_def new_offset_index_def kMaxEntries_def)

lemma demo_index_inv [simp]: "oi_inv demo_index"
  by (simp add: demo_index_eq oi_inv_def ascending_Cons)

text \<open>
  The vector stays strictly sorted by offset and the atomic size stays its length, under every
  operation of the class; a batch has to be sorted itself, which the code does not check.
\<close>

theorem offset_index_invariant:
  assumes "oi_inv s"
  shows "oi_inv new_offset_index \<and> oi_inv (add_entry off pos ts s) \<and>
    (ascending si_offset new \<longrightarrow> oi_inv (add_entries new s)) \<and> oi_inv (truncate_to c s) \<and> oi_inv (prune_half s) \<and>
    oi_inv (index_clear s) \<and> oi_inv (fst (move_offset_index s)) \<and> oi_inv (snd (move_offset_index s))"
proof -
  have asc: "ascending si_offset (oi_entries s)" using assms by (simp add: oi_inv_def)
  have "oi_inv (add_entries new s)" if "ascending si_offset new"
    using ascending_beyond [OF asc that] ascending_place_all [OF asc] assms
    by (auto simp: add_entries_def oi_inv_def Let_def)
  then show ?thesis
    using assms add_entry_inv [OF assms] prune_half_inv [OF assms] offsets.cut_inv [OF assms]
    by (simp add: new_offset_index_def index_clear_def move_offset_index_def oi_inv_def)
qed

theorem offset_index_invariant_witness: "oi_inv (add_entry 15 150 0 demo_index)"
  using offset_index_invariant [OF demo_index_inv] by blast

text \<open>
  The binary search returns the position of the greatest indexed offset that is not above the
  target, and nothing exactly when every indexed offset is above it.
\<close>

theorem lookup_is_floor:
  assumes "oi_inv s"
  shows "(lookup s t = Some p \<longrightarrow> (\<exists>k. is_floor (oi_view s) t k p)) \<and>
    (lookup s t = None \<longleftrightarrow> (\<forall>k \<in> dom (oi_view s). t < k))"
proof -
  have "t < k" if "lookup s t = None" "k \<in> dom (oi_view s)" for k using lookup_floor(2) [OF assms that] .
  moreover have "lookup s t = None" if "\<forall>k \<in> dom (oi_view s). t < k"
  proof (cases "lookup s t")
    case (Some q)
    then obtain k where "is_floor (oi_view s) t k q" using lookup_floor(1) [OF assms] by blast
    then have "k \<in> dom (oi_view s)" "k \<le> t" by (auto simp: is_floor_def)
    then show ?thesis using that by (meson not_le)
  qed
  ultimately show ?thesis using lookup_floor(1) [OF assms] by blast
qed

theorem lookup_is_floor_witness: "\<exists>k. is_floor (oi_view demo_index) 15 k 100"
proof -
  have "lookup demo_index 15 = Some 100"
    by (simp add: lookup_eq [OF demo_index_inv] Let_def) (simp add: demo_index_eq)
  then show ?thesis using lookup_is_floor [OF demo_index_inv] by blast
qed

text \<open>
  An entry that was added is found: at its own offset the index then returns its position,
  whatever was there before, as long as the insertion does not thin the index out.
\<close>

theorem added_entry_is_found:
  assumes "oi_inv s" "length (oi_entries s) < kMaxEntries"
  shows "lookup (add_entry off pos ts s) off = Some pos \<and>
    oi_view (add_entry off pos ts s) = (oi_view s)(off \<mapsto> pos)"
  using offsets.query_put_same [OF assms(1)] offsets.put_view [OF assms(1)] assms(2) by (simp add: oi_room_def)

theorem added_entry_is_found_witness: "lookup (add_entry 15 150 0 demo_index) 15 = Some 150"
  using added_entry_is_found [OF demo_index_inv] by (simp add: demo_index_eq kMaxEntries_def)

text \<open>
  Truncation forgets exactly the offsets from the cutoff on: a later lookup returns only
  positions of offsets below it, and lookups below the cutoff give what they gave before.
\<close>

theorem truncation_is_exact:
  assumes "oi_inv s"
  shows "oi_view (truncate_to c s) = oi_view s |` {k. k < c} \<and>
    (t < c \<longrightarrow> lookup s t = Some p \<longrightarrow> lookup (truncate_to c s) t = Some p) \<and>
    (lookup (truncate_to c s) t = Some p \<longrightarrow> (\<exists>k < c. oi_view s k = Some p \<and> k \<le> t))"
  using offsets.cut_view [OF assms] offsets.query_below_cut [OF assms] offsets.query_after_cut [OF assms] by blast

theorem truncation_is_exact_witness: "lookup (truncate_to 20 demo_index) 15 = Some 100"
proof -
  have "lookup demo_index 15 = Some 100"
    by (simp add: lookup_eq [OF demo_index_inv] Let_def) (simp add: demo_index_eq)
  then show ?thesis using truncation_is_exact [OF demo_index_inv, of 20 15 100] by simp
qed

text \<open>
  Thinning out halves the index but keeps it safe to scan from: of \<open>n > 2\<close> entries
  \<open>n div 2 + 1\<close> remain, all of them old ones, the first and the last among them, and a lookup still
  finds a position at or before the target whenever it found one before.
\<close>

theorem thinning_keeps_lookups_safe:
  assumes "oi_inv s" "2 < length (oi_entries s)"
  shows "length (oi_entries (prune_half s)) = length (oi_entries s) div 2 + 1 \<and>
    set (oi_entries (prune_half s)) \<subseteq> set (oi_entries s) \<and>
    first_offset (prune_half s) = first_offset s \<and> last_offset (prune_half s) = last_offset s \<and>
    (lookup s t \<noteq> None \<longrightarrow> (\<exists>p k. lookup (prune_half s) t = Some p \<and> oi_view s k = Some p \<and> k \<le> t))"
proof -
  have asc: "ascending si_offset (oi_entries s)" using assms by (simp add: oi_inv_def)
  note p = prune_half_entries [OF asc assms(2)] and inv' = prune_half_inv [OF assms(1)]
  have sub: "set (oi_entries (prune_half s)) \<subseteq> set (oi_entries s)"
    unfolding p(1) using p(3) by auto
  have ne: "oi_entries s \<noteq> []" using assms(2) by auto
  have hd: "hd (oi_entries (prune_half s)) = hd (oi_entries s)" "last (oi_entries (prune_half s)) = last (oi_entries s)"
    "oi_entries (prune_half s) \<noteq> []"
    unfolding p(1) using ne by (simp_all add: hd_conv_nth last_conv_nth)
  have "\<exists>q k. lookup (prune_half s) t = Some q \<and> oi_view s k = Some q \<and> k \<le> t" if "lookup s t \<noteq> None"
  proof -
    have "si_offset (hd (oi_entries s)) \<le> t"
      using that ne by (auto simp: lookup_def binary_search_le_def split: if_splits)
    moreover have "hd (oi_entries s) \<in> set (oi_entries (prune_half s))" using hd by (metis hd_in_set)
    ultimately have "\<exists>e \<in> set (oi_entries (prune_half s)). si_offset e \<le> t" by blast
    then obtain q where q: "lookup (prune_half s) t = Some q"
      by (simp add: lookup_eq [OF inv'] Let_def filter_empty_conv)
    then obtain k where "oi_view (prune_half s) k = Some q" "k \<le> t"
      using lookup_floor(1) [OF inv' q] by (auto simp: is_floor_def)
    moreover have "ascending si_offset (oi_entries (prune_half s))" using inv' by (simp add: oi_inv_def)
    ultimately show ?thesis using q sub oi_view_Some [OF asc] oi_view_Some [of "prune_half s"] by fastforce
  qed
  moreover have "length (oi_entries (prune_half s)) = length (oi_entries s) div 2 + 1"
    unfolding p(1) using p(4) by simp
  ultimately show ?thesis using sub hd ne by (auto simp: first_offset_def last_offset_def)
qed

theorem thinning_keeps_lookups_safe_witness:
  "length (oi_entries (prune_half (add_entry 30 300 0 demo_index))) = 2"
proof -
  have "oi_inv (add_entry 30 300 0 demo_index)" "length (oi_entries (add_entry 30 300 0 demo_index)) = 3"
    by (simp_all add: add_entry_inv) (simp add: demo_index_eq add_entry_def kMaxEntries_def)
  then show ?thesis using thinning_keeps_lookups_safe [of "add_entry 30 300 0 demo_index" 0] by simp
qed

end
