(* ===== verification/Time_Index.thy ===== *)
theory Time_Index
  imports Sorted_Vector
begin

text \<open>
  \<^verbatim>\<open>TimeIndex\<close> of \<^verbatim>\<open>src/torrent/storage/time_index.cpp\<close>: the sparse index of a segment from timestamps to
  offsets, a vector sorted by timestamp with atomic copies of its size and of the greatest
  timestamp. Every method holds the lock for its whole body. A timestamp stands for the smallest
  offset it was added with.
\<close>

section \<open>State and operations\<close>

record TimeIndexEntry =
  tie_timestamp :: timestamp_ms
  tie_offset :: log_offset

record TimeIndex =
  ti_entries :: "TimeIndexEntry list"
  ti_entry_count :: nat
  ti_max_timestamp :: timestamp_ms

definition new_time_index :: TimeIndex where
  "new_time_index = \<lparr>ti_entries = [], ti_entry_count = 0, ti_max_timestamp = 0\<rparr>"

text \<open>Moving: the new object and what is left of the old one.\<close>

definition move_time_index :: "TimeIndex \<Rightarrow> TimeIndex \<times> TimeIndex" where
  "move_time_index other =
     (\<lparr>ti_entries = ti_entries other, ti_entry_count = ti_entry_count other, ti_max_timestamp = ti_max_timestamp other\<rparr>,
      other\<lparr>ti_entries := [], ti_entry_count := 0, ti_max_timestamp := 0\<rparr>)"

definition ti_search_le :: "TimeIndexEntry list \<Rightarrow> timestamp_ms \<Rightarrow> nat option" where
  "ti_search_le es target =
     (if es = [] \<or> target < tie_timestamp (hd es) then None
      else let it = upper_bound_by tie_timestamp es target
           in if it = 0 then None else Some (it - 1))"

definition ti_search_ge :: "TimeIndexEntry list \<Rightarrow> timestamp_ms \<Rightarrow> nat" where
  "ti_search_ge es target = lower_bound_by tie_timestamp es target"

definition ti_kMaxEntries :: nat where "ti_kMaxEntries = 50000"

definition ti_prune_half :: "TimeIndex \<Rightarrow> TimeIndex" where
  "ti_prune_half s =
     (if length (ti_entries s) \<le> 2 then s
      else let pruned = thin tie_timestamp (ti_entries s)
           in s\<lparr>ti_entries := pruned, ti_entry_count := length pruned\<rparr>)"

text \<open>The out-of-order branch: an equal timestamp keeps the smaller offset, else a gap is opened.\<close>

definition ti_place :: "timestamp_ms \<Rightarrow> log_offset \<Rightarrow> TimeIndexEntry list \<Rightarrow> TimeIndexEntry list" where
  "ti_place ts off es =
     (let it = lower_bound_by tie_timestamp es ts
      in if it \<noteq> length es \<and> tie_timestamp (es ! it) = ts
         then (if off < tie_offset (es ! it) then es[it := (es ! it)\<lparr>tie_offset := off\<rparr>] else es)
         else take it es @ \<lparr>tie_timestamp = ts, tie_offset = off\<rparr> # drop it es)"

definition ti_add_entry :: "timestamp_ms \<Rightarrow> log_offset \<Rightarrow> TimeIndex \<Rightarrow> TimeIndex" where
  "ti_add_entry ts off s =
     (let es = ti_entries s;
          s = (if es \<noteq> [] \<and> ts < tie_timestamp (last es) then
                 let es' = ti_place ts off es
                 in s\<lparr>ti_entries := es',
                      ti_entry_count := (if length es' = length es then ti_entry_count s else length es')\<rparr>
               else if es \<noteq> [] \<and> ts = tie_timestamp (last es) then
                 (if off < tie_offset (last es)
                  then s\<lparr>ti_entries := butlast es @ [(last es)\<lparr>tie_offset := off\<rparr>]\<rparr> else s)
               else s\<lparr>ti_entries := es @ [\<lparr>tie_timestamp = ts, tie_offset = off\<rparr>], ti_entry_count := length es + 1\<rparr>);
          s = s\<lparr>ti_max_timestamp := max (ti_max_timestamp s) ts\<rparr>
      in if length (ti_entries s) > ti_kMaxEntries then ti_prune_half s else s)"

definition ti_lookup :: "TimeIndex \<Rightarrow> timestamp_ms \<Rightarrow> log_offset option" where
  "ti_lookup s target =
     (let idx = ti_search_ge (ti_entries s) target
      in if idx \<ge> length (ti_entries s) then None else Some (tie_offset (ti_entries s ! idx)))"

definition ti_upper_bound :: "TimeIndex \<Rightarrow> timestamp_ms \<Rightarrow> log_offset option" where
  "ti_upper_bound s target =
     (let idx = ti_search_ge (ti_entries s) target
      in if idx \<ge> length (ti_entries s) then None else Some (tie_offset (ti_entries s ! idx)))"

definition ti_lower_bound :: "TimeIndex \<Rightarrow> timestamp_ms \<Rightarrow> log_offset option" where
  "ti_lower_bound s target =
     (case ti_search_le (ti_entries s) target of
        None \<Rightarrow> None
      | Some idx \<Rightarrow> Some (tie_offset (ti_entries s ! idx)))"

text \<open>The scan of \<^verbatim>\<open>truncate_to\<close>: from the front, over the entries whose offset is below the cutoff.\<close>

definition ti_truncate_to :: "log_offset \<Rightarrow> TimeIndex \<Rightarrow> TimeIndex" where
  "ti_truncate_to cutoff s =
     (let es = ti_entries s
      in if es = [] then s
         else let it = length (takeWhile (\<lambda>e. tie_offset e < cutoff) es);
                  es' = (if it = length es then [] else if it \<noteq> 0 then drop it es else es)
              in s\<lparr>ti_entries := es', ti_entry_count := length es',
                   ti_max_timestamp := (if es' \<noteq> [] then tie_timestamp (last es') else 0)\<rparr>)"

definition ti_size :: "TimeIndex \<Rightarrow> nat" where "ti_size s = ti_entry_count s"
definition ti_empty :: "TimeIndex \<Rightarrow> bool" where "ti_empty s \<longleftrightarrow> ti_entry_count s = 0"

definition first_timestamp :: "TimeIndex \<Rightarrow> timestamp_ms option" where
  "first_timestamp s = (if ti_entries s = [] then None else Some (tie_timestamp (hd (ti_entries s))))"

definition ti_entry_at :: "TimeIndex \<Rightarrow> nat \<Rightarrow> TimeIndexEntry option" where
  "ti_entry_at s idx = (if idx \<ge> length (ti_entries s) then None else Some (ti_entries s ! idx))"

definition ti_clear :: "TimeIndex \<Rightarrow> TimeIndex" where
  "ti_clear s = s\<lparr>ti_entries := [], ti_entry_count := 0, ti_max_timestamp := 0\<rparr>"

section \<open>Invariant and abstraction\<close>

text \<open>Timestamps are not negative; the greatest one is that of the last entry.\<close>

definition ti_inv :: "TimeIndex \<Rightarrow> bool" where
  "ti_inv s \<longleftrightarrow> ascending tie_timestamp (ti_entries s) \<and> ti_entry_count s = length (ti_entries s)
     \<and> (\<forall>e \<in> set (ti_entries s). 0 \<le> tie_timestamp e)
     \<and> ti_max_timestamp s = (if ti_entries s = [] then 0 else tie_timestamp (last (ti_entries s)))"

definition ti_view :: "TimeIndex \<Rightarrow> timestamp_ms \<rightharpoonup> log_offset" where
  "ti_view s = map_of (map (\<lambda>e. (tie_timestamp e, tie_offset e)) (ti_entries s))"

text \<open>What an insertion amounts to.\<close>

definition ti_inserted :: "timestamp_ms \<Rightarrow> log_offset \<Rightarrow> TimeIndexEntry list \<Rightarrow> TimeIndexEntry list" where
  "ti_inserted ts off es =
     filter (\<lambda>x. tie_timestamp x < ts) es
     @ \<lparr>tie_timestamp = ts, tie_offset = (case map_of (map (\<lambda>e. (tie_timestamp e, tie_offset e)) es) ts of
           None \<Rightarrow> off | Some o' \<Rightarrow> min off o')\<rparr>
     # filter (\<lambda>x. ts < tie_timestamp x) es"

lemma ti_inserted_ascending: "ascending tie_timestamp es \<Longrightarrow> ascending tie_timestamp (ti_inserted ts off es)"
  by (auto simp: ti_inserted_def ascending_append ascending_Cons ascending_filter)

text \<open>The list is split at the timestamp: what is below, an entry with it or none, what is above.\<close>

lemma split_at:
  assumes "ascending tie_timestamp es"
  obtains (there) as e bs where "es = as @ e # bs" "tie_timestamp e = ts" "lower_bound_by tie_timestamp es ts = length as"
      "\<forall>x \<in> set as. tie_timestamp x < ts" "\<forall>x \<in> set bs. ts < tie_timestamp x"
    | (missing) as bs where "es = as @ bs" "lower_bound_by tie_timestamp es ts = length as"
      "\<forall>x \<in> set as. tie_timestamp x < ts" "\<forall>x \<in> set bs. ts < tie_timestamp x"
proof -
  let ?as = "takeWhile (\<lambda>e. tie_timestamp e < ts) es" and ?bs = "dropWhile (\<lambda>e. tie_timestamp e < ts) es"
  have es: "es = ?as @ ?bs" by simp
  have lb: "lower_bound_by tie_timestamp es ts = length ?as" by (rule lower_bound_takeWhile [OF assms])
  have below: "\<forall>x \<in> set ?as. tie_timestamp x < ts" by (meson set_takeWhileD)
  have asc: "ascending tie_timestamp ?bs" using assms by (metis ascending_append es)
  show ?thesis
  proof (cases ?bs)
    case Nil
    then have "es = ?as @ []" by (metis es)
    then show ?thesis by (rule missing [OF _ lb below]) simp
  next
    case (Cons b bs)
    then have "ts \<le> tie_timestamp b" by (metis hd_dropWhile leI list.discI list.sel(1))
    moreover have above: "\<forall>x \<in> set bs. tie_timestamp b < tie_timestamp x" using asc Cons by (simp add: ascending_Cons)
    ultimately show ?thesis
    proof (cases "tie_timestamp b = ts")
      case True
      then show ?thesis using there [of ?as b bs] lb below es Cons above by simp
    next
      case False
      with \<open>ts \<le> tie_timestamp b\<close> have "\<forall>x \<in> set (b # bs). ts < tie_timestamp x" using above by auto
      then show ?thesis using missing [of ?as "b # bs"] lb below es Cons by simp
    qed
  qed
qed

lemma view_absent: "ts \<notin> tie_timestamp ` set es \<Longrightarrow> map_of (map (\<lambda>e. (tie_timestamp e, tie_offset e)) es) ts = None"
  by (induction es) auto

lemma inserted_there:
  assumes "es = as @ e # bs" "tie_timestamp e = ts" "\<forall>x \<in> set as. tie_timestamp x < ts" "\<forall>x \<in> set bs. ts < tie_timestamp x"
  shows "ti_inserted ts off es = as @ e\<lparr>tie_offset := min off (tie_offset e)\<rparr> # bs"
proof -
  have "map_of (map (\<lambda>e. (tie_timestamp e, tie_offset e)) as) ts = None" using assms(3) by (intro view_absent) auto
  moreover have "filter (\<lambda>x. tie_timestamp x < ts) as = as" "filter (\<lambda>x. ts < tie_timestamp x) as = []"
    "filter (\<lambda>x. tie_timestamp x < ts) bs = []" "filter (\<lambda>x. ts < tie_timestamp x) bs = bs"
    using assms(3,4) by (auto simp: filter_id_conv filter_empty_conv)
  ultimately show ?thesis using assms(1,2) by (cases e) (simp add: ti_inserted_def map_add_def)
qed

lemma inserted_missing:
  assumes "es = as @ bs" "\<forall>x \<in> set as. tie_timestamp x < ts" "\<forall>x \<in> set bs. ts < tie_timestamp x"
  shows "ti_inserted ts off es = as @ \<lparr>tie_timestamp = ts, tie_offset = off\<rparr> # bs"
proof -
  have "map_of (map (\<lambda>e. (tie_timestamp e, tie_offset e)) es) ts = None"
    using assms by (intro view_absent) auto
  moreover have "filter (\<lambda>x. tie_timestamp x < ts) as = as" "filter (\<lambda>x. ts < tie_timestamp x) as = []"
    "filter (\<lambda>x. tie_timestamp x < ts) bs = []" "filter (\<lambda>x. ts < tie_timestamp x) bs = bs"
    using assms(2,3) by (auto simp: filter_id_conv filter_empty_conv)
  ultimately show ?thesis using assms(1) by (simp add: ti_inserted_def map_add_def)
qed

lemma ti_place_inserted:
  assumes "ascending tie_timestamp es"
  shows "ti_place ts off es = ti_inserted ts off es"
  using assms
proof (cases rule: split_at [of es ts])
  case (there as e bs)
  then show ?thesis using inserted_there [OF there(1,2,4,5), of off]
    by (auto simp: ti_place_def Let_def nth_append min_def)
next
  case (missing as bs)
  then have "bs = [] \<or> tie_timestamp (hd bs) \<noteq> ts" by (cases bs) auto
  then show ?thesis using missing inserted_missing [OF missing(1,3,4), of off]
    by (cases bs) (auto simp: ti_place_def Let_def nth_append)
qed

lemma ti_last_inserted:
  assumes "ascending tie_timestamp es" "es \<noteq> []" "ts = tie_timestamp (last es)"
  shows "ti_inserted ts off es = butlast es @ [(last es)\<lparr>tie_offset := min off (tie_offset (last es))\<rparr>]"
proof -
  have "es = butlast es @ last es # []" using assms(2) by simp
  moreover have "\<forall>x \<in> set (butlast es). tie_timestamp x < ts"
    using assms by (metis append_butlast_last_id ascending_append list.set_intros(1))
  ultimately show ?thesis using inserted_there [of es "butlast es" "last es" "[]" ts off] assms(3) by simp
qed

lemma ti_end_inserted:
  assumes "ascending tie_timestamp es" "es = [] \<or> tie_timestamp (last es) < ts"
  shows "ti_inserted ts off es = es @ [\<lparr>tie_timestamp = ts, tie_offset = off\<rparr>]"
proof -
  have "\<forall>x \<in> set es. tie_timestamp x < ts"
    using assms by (cases es rule: rev_cases) (auto simp: ascending_append)
  then show ?thesis using inserted_missing [of es es "[]" ts off] by simp
qed

text \<open>Without thinning, \<^verbatim>\<open>add_entry\<close> inserts and keeps the maximum.\<close>

lemma ti_length_place: "length (ti_place ts off es) = length es \<or> length (ti_place ts off es) = length es + 1"
  by (auto simp: ti_place_def Let_def)

lemma ti_add_eq:
  fixes ts :: timestamp_ms and off :: log_offset
  assumes "ti_inv s"
  defines "es \<equiv> ti_inserted ts off (ti_entries s)"
  shows "ti_add_entry ts off s =
     (let s' = \<lparr>ti_entries = es, ti_entry_count = length es, ti_max_timestamp = max (ti_max_timestamp s) ts\<rparr>
      in if length es > ti_kMaxEntries then ti_prune_half s' else s')"
proof -
  let ?es = "ti_entries s"
  have asc: "ascending tie_timestamp ?es" and cnt: "ti_entry_count s = length ?es" using assms(1) by (simp_all add: ti_inv_def)
  consider (mid) "?es \<noteq> []" "ts < tie_timestamp (last ?es)" | (eq) "?es \<noteq> []" "ts = tie_timestamp (last ?es)"
    | (beyond) "?es = [] \<or> tie_timestamp (last ?es) < ts" by fastforce
  then show ?thesis
  proof cases
    case mid
    then show ?thesis using ti_place_inserted [OF asc, of ts off] ti_length_place [of ts off ?es] cnt
      by (cases s) (auto simp: ti_add_entry_def Let_def es_def)
  next
    case eq
    have "length (butlast ?es @ [x]) = length ?es" for x using eq(1) by simp
    moreover have "butlast ?es @ [last ?es] = ?es" using eq(1) by simp
    ultimately show ?thesis using ti_last_inserted [OF asc eq, of off] eq cnt
      by (cases s) (auto simp: ti_add_entry_def Let_def es_def min_def)
  next
    case beyond
    then show ?thesis using ti_end_inserted [OF asc beyond, of off]
      by (cases s) (auto simp: ti_add_entry_def Let_def es_def)
  qed
qed

lemma ti_prune_inv:
  assumes "ti_inv s"
  shows "ti_inv (ti_prune_half s)"
proof (cases "2 < length (ti_entries s)")
  case True
  have asc: "ascending tie_timestamp (ti_entries s)" using assms by (simp add: ti_inv_def)
  have "ti_entries s \<noteq> []" using True by auto
  then show ?thesis using assms True thin_ascending [OF asc True] thin_subset [OF asc True]
    by (auto simp: ti_prune_half_def ti_inv_def Let_def)
qed (use assms in \<open>simp add: ti_prune_half_def\<close>)

lemma ascending_last: "ascending key xs \<Longrightarrow> x \<in> set xs \<Longrightarrow> key x \<le> key (last xs)"
  by (cases xs rule: rev_cases) (auto simp: ascending_append)

lemma ti_add_inv:
  assumes "ti_inv s" "0 \<le> ts"
  shows "ti_inv (ti_add_entry ts off s)"
proof -
  let ?es = "ti_inserted ts off (ti_entries s)"
  have asc: "ascending tie_timestamp (ti_entries s)" using assms(1) by (simp add: ti_inv_def)
  have "tie_timestamp (last ?es) = max (ti_max_timestamp s) ts"
  proof (cases "filter (\<lambda>x. ts < tie_timestamp x) (ti_entries s) = []")
    case True
    then have "\<forall>x \<in> set (ti_entries s). tie_timestamp x \<le> ts" by (auto simp: filter_empty_conv)
    then show ?thesis using assms True by (auto simp: ti_inserted_def ti_inv_def)
  next
    case False
    then have ne: "ti_entries s \<noteq> []" by auto
    moreover have "ts < tie_timestamp (last (ti_entries s))"
      using False ascending_last [OF asc] by (fastforce simp: filter_empty_conv)
    moreover have "last (filter (\<lambda>x. ts < tie_timestamp x) (ti_entries s)) = last (ti_entries s)"
      using calculation by (cases "ti_entries s" rule: rev_cases) auto
    ultimately show ?thesis using assms(1) False by (simp add: ti_inserted_def ti_inv_def)
  qed
  moreover have "\<forall>e \<in> set ?es. 0 \<le> tie_timestamp e" using assms by (auto simp: ti_inserted_def ti_inv_def)
  moreover have "?es \<noteq> []" by (simp add: ti_inserted_def)
  ultimately have "ti_inv \<lparr>ti_entries = ?es, ti_entry_count = length ?es, ti_max_timestamp = max (ti_max_timestamp s) ts\<rparr>"
    using ti_inserted_ascending [OF asc] by (simp add: ti_inv_def)
  then show ?thesis unfolding ti_add_eq [OF assms(1)] Let_def using ti_prune_inv by simp
qed

lemma ti_truncate_entries: "ti_entries (ti_truncate_to c s) = dropWhile (\<lambda>e. tie_offset e < c) (ti_entries s)"
  unfolding dropWhile_eq_drop by (simp add: ti_truncate_to_def Let_def)

lemma ti_truncate_inv:
  assumes "ti_inv s"
  shows "ti_inv (ti_truncate_to c s)"
proof -
  let ?es = "dropWhile (\<lambda>e. tie_offset e < c) (ti_entries s)"
  have "ascending tie_timestamp (ti_entries s)" using assms by (simp add: ti_inv_def)
  then have "ascending tie_timestamp ?es" by (metis ascending_append takeWhile_dropWhile_id)
  moreover have "\<forall>e \<in> set ?es. 0 \<le> tie_timestamp e" using assms by (auto simp: ti_inv_def dest: set_dropWhileD)
  moreover have "ti_entry_count (ti_truncate_to c s) = length (ti_entries (ti_truncate_to c s))
     \<and> ti_max_timestamp (ti_truncate_to c s) = (if ti_entries (ti_truncate_to c s) = [] then 0
          else tie_timestamp (last (ti_entries (ti_truncate_to c s))))"
    using assms by (auto simp: ti_truncate_to_def Let_def ti_inv_def)
  ultimately show ?thesis by (simp add: ti_inv_def ti_truncate_entries)
qed

text \<open>Queries over the view.\<close>

lemma ti_view_Some:
  assumes "ascending tie_timestamp (ti_entries s)"
  shows "ti_view s k = Some v \<longleftrightarrow> (\<exists>e \<in> set (ti_entries s). tie_timestamp e = k \<and> tie_offset e = v)"
proof -
  have "ascending key xs \<Longrightarrow> distinct (map key xs)" for key :: "TimeIndexEntry \<Rightarrow> int" and xs
    by (induction xs) (auto simp: ascending_Cons)
  then have "distinct (map fst (map (\<lambda>e. (tie_timestamp e, tie_offset e)) (ti_entries s)))"
    using assms by (simp add: o_def)
  then show ?thesis unfolding ti_view_def by (auto simp: map_of_eq_Some_iff)
qed

lemma ti_view_dom: "dom (ti_view s) = tie_timestamp ` set (ti_entries s)"
  by (simp add: ti_view_def dom_map_of_conv_image_fst image_image)

lemma ti_lookup_eq:
  assumes "ti_inv s"
  shows "ti_lookup s t = (let above = filter (\<lambda>e. t \<le> tie_timestamp e) (ti_entries s)
     in if above = [] then None else Some (tie_offset (hd above)))"
proof -
  let ?es = "ti_entries s" and ?lb = "lower_bound_by tie_timestamp (ti_entries s) t"
  have asc: "ascending tie_timestamp ?es" using assms by (simp add: ti_inv_def)
  have d: "drop ?lb ?es = filter (\<lambda>e. t \<le> tie_timestamp e) ?es" by (rule take_lower_bound(2) [OF asc])
  then show ?thesis
    by (cases "?lb < length ?es") (auto simp: ti_lookup_def ti_search_ge_def Let_def hd_drop_conv_nth simp flip: d)
qed

lemma hd_Min:
  assumes "ascending key xs" "xs \<noteq> []"
  shows "Min (key ` set xs) = key (hd xs)"
proof (rule Min_eqI)
  show "key (hd xs) \<le> y" if "y \<in> key ` set xs" for y using assms that by (cases xs) (auto simp: ascending_Cons)
qed (use assms in simp_all)

lemma ti_view_inserted:
  assumes "ascending tie_timestamp (ti_entries s)" "ti_entries s' = ti_inserted ts off (ti_entries s)"
  shows "ti_view s' = (ti_view s)(ts \<mapsto> (case ti_view s ts of None \<Rightarrow> off | Some old \<Rightarrow> min off old))"
proof
  fix k
  let ?new = "(ti_view s)(ts \<mapsto> (case ti_view s ts of None \<Rightarrow> off | Some old \<Rightarrow> min off old))"
  have asc: "ascending tie_timestamp (ti_entries s')" using ti_inserted_ascending [OF assms(1)] by (simp add: assms(2))
  have "ti_view s' k = Some v \<longleftrightarrow> ?new k = Some v" for v
    unfolding ti_view_Some [OF asc] using ti_view_Some [OF assms(1), of k v]
    by (auto simp: assms(2) ti_inserted_def ti_view_def)
  then show "ti_view s' k = ?new k" by (metis option.exhaust)
qed

text \<open>
  A time lookup answers with the offset of the smallest indexed timestamp that is not below the
  target, and with nothing exactly when all are below it; adding an entry maps its timestamp to the
  smaller of the old and the new offset, as long as the index is not thinned out.
\<close>

theorem time_lookup_is_ceiling:
  assumes "ti_inv s"
  shows "ti_lookup s t = (let K = {k \<in> dom (ti_view s). t \<le> k} in if K = {} then None else ti_view s (Min K))
    \<and> (length (ti_entries s) < ti_kMaxEntries \<longrightarrow>
       ti_view (ti_add_entry ts off s) =
         (ti_view s)(ts \<mapsto> (case ti_view s ts of None \<Rightarrow> off | Some old \<Rightarrow> min off old)))"
proof
  let ?above = "filter (\<lambda>e. t \<le> tie_timestamp e) (ti_entries s)"
  have asc: "ascending tie_timestamp (ti_entries s)" using assms by (simp add: ti_inv_def)
  have K: "{k \<in> dom (ti_view s). t \<le> k} = tie_timestamp ` set ?above" by (auto simp: ti_view_dom)
  show "ti_lookup s t = (let K = {k \<in> dom (ti_view s). t \<le> k} in if K = {} then None else ti_view s (Min K))"
  proof (cases "?above = []")
    case False
    then have "hd ?above \<in> set ?above" by (rule hd_in_set)
    then have "ti_view s (tie_timestamp (hd ?above)) = Some (tie_offset (hd ?above))" using ti_view_Some [OF asc] by auto
    moreover have "Min (tie_timestamp ` set ?above) = tie_timestamp (hd ?above)"
      by (rule hd_Min [OF ascending_filter [OF asc] False])
    ultimately show ?thesis using False unfolding K ti_lookup_eq [OF assms] by (simp add: Let_def del: set_filter)
  qed (simp add: K ti_lookup_eq [OF assms] del: set_filter)
  show "length (ti_entries s) < ti_kMaxEntries \<longrightarrow>
       ti_view (ti_add_entry ts off s) = (ti_view s)(ts \<mapsto> (case ti_view s ts of None \<Rightarrow> off | Some old \<Rightarrow> min off old))"
  proof
    assume "length (ti_entries s) < ti_kMaxEntries"
    moreover have "length (ti_inserted ts off (ti_entries s)) \<le> length (ti_entries s) + 1"
      using ti_length_place [of ts off "ti_entries s"] ti_place_inserted [OF asc, of ts off] by auto
    ultimately have "ti_entries (ti_add_entry ts off s) = ti_inserted ts off (ti_entries s)"
      by (simp add: ti_add_eq [OF assms] Let_def)
    then show "ti_view (ti_add_entry ts off s) = (ti_view s)(ts \<mapsto> (case ti_view s ts of None \<Rightarrow> off | Some old \<Rightarrow> min off old))"
      by (rule ti_view_inserted [OF asc])
  qed
qed

definition demo_times :: TimeIndex where
  "demo_times = ti_add_entry 300 30 (ti_add_entry 100 10 new_time_index)"

lemma demo_times_inv: "ti_inv demo_times"
  unfolding demo_times_def by (intro ti_add_inv) (simp_all add: ti_inv_def new_time_index_def)

theorem time_lookup_is_ceiling_witness: "ti_lookup demo_times 200 = ti_view demo_times (Min {k \<in> dom (ti_view demo_times). 200 \<le> k})"
proof -
  have "map tie_timestamp (ti_entries demo_times) = [100, 300]"
    by (simp add: demo_times_def new_time_index_def ti_add_entry_def ti_kMaxEntries_def)
  then have "dom (ti_view demo_times) = {100, 300}" unfolding ti_view_dom by (metis list.set_map set_simps)
  then show ?thesis using time_lookup_is_ceiling [OF demo_times_inv, of 200] by (auto simp: Let_def)
qed

text \<open>
  Every operation keeps the vector strictly sorted, its size and greatest timestamp exact.
\<close>

lemma time_index_invariant:
  assumes "ti_inv s"
  shows "ti_inv new_time_index" "0 \<le> ts \<Longrightarrow> ti_inv (ti_add_entry ts off s)" "ti_inv (ti_truncate_to c s)"
    "ti_inv (ti_prune_half s)" "ti_inv (ti_clear s)" "ti_inv (fst (move_time_index s))" "ti_inv (snd (move_time_index s))"
  using ti_add_inv [OF assms] ti_truncate_inv [OF assms] ti_prune_inv [OF assms] assms
  by (simp_all add: ti_clear_def move_time_index_def) (simp_all add: ti_inv_def new_time_index_def)

text \<open>
  \<open>truncate_to\<close> keeps the wrong part: on an index whose offsets grow with the timestamps exactly
  the entries from the cutoff on are left, the ones it is documented to remove, and the entries
  below the cutoff are gone.
\<close>

theorem time_truncation_inverted:
  assumes "sorted_wrt (\<lambda>a b. tie_offset a \<le> tie_offset b) (ti_entries s)"
  shows "set (ti_entries (ti_truncate_to c s)) = {e \<in> set (ti_entries s). c \<le> tie_offset e}"
proof -
  have "sorted_wrt (\<lambda>a b. tie_offset a \<le> tie_offset b) es \<Longrightarrow>
      set (dropWhile (\<lambda>e. tie_offset e < c) es) = {e \<in> set es. c \<le> tie_offset e}" for es
    by (induction es) force+
  then show ?thesis using assms by (simp add: ti_truncate_entries)
qed

theorem time_truncation_inverted_witness:
  "set (ti_entries (ti_truncate_to 20 demo_times)) = {\<lparr>tie_timestamp = 300, tie_offset = 30\<rparr>}"
proof -
  have "ti_entries demo_times = [\<lparr>tie_timestamp = 100, tie_offset = 10\<rparr>, \<lparr>tie_timestamp = 300, tie_offset = 30\<rparr>]"
    by (simp add: demo_times_def new_time_index_def ti_add_entry_def ti_kMaxEntries_def)
  with time_truncation_inverted [of demo_times 20]
  have "set (ti_entries (ti_truncate_to 20 demo_times)) =
      {e \<in> {\<lparr>tie_timestamp = 100, tie_offset = 10\<rparr>, \<lparr>tie_timestamp = 300, tie_offset = 30\<rparr>}. 20 \<le> tie_offset e}" by simp
  also have "\<dots> = {\<lparr>tie_timestamp = 300, tie_offset = 30\<rparr>}" by auto
  finally show ?thesis .
qed

end
