(* ===== verification/Interleaving.thy ===== *)
theory Interleaving
  imports Torrent_Prelude
begin

text \<open>
  Lock-free code: threads that share atomics and interleave at every atomic access. A component
  gives the steps of one thread, \<open>lstep s p s' p'\<close> (shared state and program point before and
  after); \<open>pool_step\<close> lets any thread of a pool take its next step. The locale proves, once, that
  an invariant of the shared state with an assertion per program point holds in every interleaving,
  when each step keeps both and no step of one thread breaks the assertion of another.
\<close>

inductive pool_step ::
  "('s \<Rightarrow> 'p \<Rightarrow> 's \<Rightarrow> 'p \<Rightarrow> bool) \<Rightarrow> 's \<times> 'p list \<Rightarrow> 's \<times> 'p list \<Rightarrow> bool"
  for lstep where
  thread: "i < length ps \<Longrightarrow> lstep s (ps ! i) s' p' \<Longrightarrow> pool_step lstep (s, ps) (s', ps[i := p'])"

inductive_cases pool_stepE: "pool_step lstep (s, ps) c"

text \<open>Steps of pools of one and of two threads, for concrete executions.\<close>

lemma solo_step: "lstep s p s' p' \<Longrightarrow> pool_step lstep (s, [p]) (s', [p'])"
  using pool_step.thread [of 0 "[p]" lstep s s' p'] by simp

lemma first_step: "lstep s p s' p' \<Longrightarrow> pool_step lstep (s, [p, q]) (s', [p', q])"
  using pool_step.thread [of 0 "[p, q]" lstep s s' p'] by simp

lemma second_step: "lstep s q s' q' \<Longrightarrow> pool_step lstep (s, [p, q]) (s', [p, q'])"
  using pool_step.thread [of 1 "[p, q]" lstep s s' q'] by simp

locale interleaved =
  fixes lstep :: "'s \<Rightarrow> 'p \<Rightarrow> 's \<Rightarrow> 'p \<Rightarrow> bool"
    and I :: "'s \<Rightarrow> bool"
    and A :: "'s \<Rightarrow> 'p \<Rightarrow> bool"
  assumes keep: "I s \<Longrightarrow> A s p \<Longrightarrow> lstep s p s' p' \<Longrightarrow> I s' \<and> A s' p'"
    and stable: "I s \<Longrightarrow> A s p \<Longrightarrow> lstep s p s' p' \<Longrightarrow> A s q \<Longrightarrow> A s' q"
begin

definition pool_ok :: "'s \<times> 'p list \<Rightarrow> bool" where
  "pool_ok c \<longleftrightarrow> I (fst c) \<and> list_all (A (fst c)) (snd c)"

lemma pool_step_ok:
  assumes "pool_step lstep c c'" "pool_ok c"
  shows "pool_ok c'"
  using assms
proof cases
  case (thread i ps s s' p')
  then have "I s" "A s (ps ! i)" and all: "\<forall>q \<in> set ps. A s q"
    using assms(2) by (auto simp: pool_ok_def list_all_iff)
  note here = this(1,2) thread(4)
  have "A s' q" if "q \<in> set (ps[i := p'])" for q
    using set_update_subset_insert [of ps i p'] that all keep [OF here] stable [OF here] by blast
  then show ?thesis using keep [OF here] thread(2) by (simp add: pool_ok_def list_all_iff)
qed

lemma pool_run_ok: "(pool_step lstep)\<^sup>*\<^sup>* c c' \<Longrightarrow> pool_ok c \<Longrightarrow> pool_ok c'"
  by (induction rule: rtranclp_induct) (auto intro: pool_step_ok)

lemma pool_run_inv:
  "(pool_step lstep)\<^sup>*\<^sup>* (s, ps) (s', ps') \<Longrightarrow> I s \<Longrightarrow> list_all (A s) ps \<Longrightarrow> I s'"
  using pool_run_ok [of "(s, ps)" "(s', ps')"] by (simp add: pool_ok_def)

end

end
