(* ===== verification/Flow_Control.thy ===== *)
theory Flow_Control
  imports Interleaving
begin

text \<open>
  \<^verbatim>\<open>FlowControl\<close> of \<^verbatim>\<open>src/torrent/network/flow_control.cpp\<close>: two atomics, and one program point
  before each atomic access of \<^verbatim>\<open>consume\<close>, \<^verbatim>\<open>replenish\<close> and \<^verbatim>\<open>set_max_credit\<close>. \<open>fc_step ok\<close> is one
  access; \<open>ok\<close> is false where \<^verbatim>\<open>compare_exchange_weak\<close> fails spuriously. The fields \<open>fc_spent\<close> and
  \<open>fc_granted\<close> are not in the code: they add up the bytes that successful calls consumed and the
  bytes that successful \<^verbatim>\<open>replenish\<close> calls were asked to return. Logging is left out.
\<close>

section \<open>Model\<close>

record FlowControl =
  fc_credit :: int
  fc_max_credit :: int
  fc_spent :: int
  fc_granted :: int

definition clamp_credit :: "int \<Rightarrow> int \<Rightarrow> int \<Rightarrow> int" where
  "clamp_credit val lo hi = (if val < lo then lo else if val > hi then hi else val)"

definition kMaxCreditLimit :: int where "kMaxCreditLimit = 2 ^ 40"

definition new_flow_control :: "int \<Rightarrow> FlowControl" where
  "new_flow_control initial_credit =
     (let clamped = clamp_credit initial_credit 0 kMaxCreditLimit
      in \<lparr>fc_credit = clamped, fc_max_credit = clamped, fc_spent = 0, fc_granted = 0\<rparr>)"

text \<open>The addition wraps, as the overflow check after it expects it to.\<close>

definition replenish_desired :: "int \<Rightarrow> int \<Rightarrow> int \<Rightarrow> int" where
  "replenish_desired bytes mx current =
     (let desired = wrap64 (current + bytes)
      in if desired > mx \<or> desired < current then mx else desired)"

datatype fc_pc =
    Returned bool
  | ConsumeLoad int
  | ConsumeCas int int
  | ReplenishMax int
  | ReplenishLoad int int
  | ReplenishCas int int int
  | SetMaxExchange int
  | SetMaxLoad int
  | SetMaxCas int int

definition consume :: "int \<Rightarrow> fc_pc" where
  "consume bytes = (if bytes \<le> 0 then Returned True else ConsumeLoad bytes)"

definition replenish :: "int \<Rightarrow> fc_pc" where
  "replenish bytes = (if bytes \<le> 0 then Returned True else ReplenishMax bytes)"

definition set_max_credit :: "int \<Rightarrow> fc_pc" where
  "set_max_credit max_credit = SetMaxExchange (clamp_credit max_credit 0 kMaxCreditLimit)"

definition available_credit :: "FlowControl \<Rightarrow> int" where
  "available_credit s = fc_credit s"

fun fc_step :: "bool \<Rightarrow> FlowControl \<Rightarrow> fc_pc \<Rightarrow> FlowControl \<times> fc_pc" where
  "fc_step ok s (Returned r) = (s, Returned r)"
| "fc_step ok s (ConsumeLoad bytes) =
     (s, if fc_credit s < bytes then Returned False else ConsumeCas bytes (fc_credit s))"
| "fc_step ok s (ConsumeCas bytes current) =
     (if ok \<and> fc_credit s = current
      then (s\<lparr>fc_credit := current - bytes, fc_spent := fc_spent s + bytes\<rparr>, Returned True)
      else (s, ConsumeLoad bytes))"
| "fc_step ok s (ReplenishMax bytes) = (s, ReplenishLoad bytes (fc_max_credit s))"
| "fc_step ok s (ReplenishLoad bytes mx) =
     (s, if fc_credit s \<ge> mx then Returned True else ReplenishCas bytes mx (fc_credit s))"
| "fc_step ok s (ReplenishCas bytes mx current) =
     (if ok \<and> fc_credit s = current
      then (s\<lparr>fc_credit := replenish_desired bytes mx current, fc_granted := fc_granted s + bytes\<rparr>,
            Returned True)
      else (s, ReplenishMax bytes))"
| "fc_step ok s (SetMaxExchange clamped) =
     (s\<lparr>fc_max_credit := clamped\<rparr>,
      if clamped < fc_max_credit s then SetMaxLoad clamped else Returned True)"
| "fc_step ok s (SetMaxLoad clamped) =
     (s, if fc_credit s \<le> clamped then Returned True else SetMaxCas clamped (fc_credit s))"
| "fc_step ok s (SetMaxCas clamped current) =
     (if ok \<and> fc_credit s = current then (s\<lparr>fc_credit := clamped\<rparr>, Returned True)
      else (s, SetMaxLoad clamped))"

text \<open>A thread runs its call, and issues another one when that has returned.\<close>

inductive fc_lstep :: "FlowControl \<Rightarrow> fc_pc \<Rightarrow> FlowControl \<Rightarrow> fc_pc \<Rightarrow> bool" where
  run: "fc_step ok s p = (s', p') \<Longrightarrow> fc_lstep s p s' p'"
| consume: "bytes < 2 ^ 63 \<Longrightarrow> fc_lstep s (Returned r) s (consume bytes)"
| replenish: "bytes < 2 ^ 63 \<Longrightarrow> fc_lstep s (Returned r) s (replenish bytes)"
| set_max: "fc_lstep s (Returned r) s (set_max_credit m)"

section \<open>Invariant\<close>

definition fc_inv :: "int \<Rightarrow> FlowControl \<Rightarrow> bool" where
  "fc_inv budget s \<longleftrightarrow> 0 \<le> fc_credit s \<and> fc_credit s \<le> kMaxCreditLimit \<and>
     0 \<le> fc_max_credit s \<and> fc_max_credit s \<le> kMaxCreditLimit \<and>
     fc_credit s + fc_spent s \<le> budget + fc_granted s"

fun fc_at :: "fc_pc \<Rightarrow> bool" where
  "fc_at (Returned r) = True"
| "fc_at (ConsumeLoad bytes) = (0 < bytes)"
| "fc_at (ConsumeCas bytes current) = (0 < bytes \<and> bytes \<le> current)"
| "fc_at (ReplenishMax bytes) = (0 < bytes \<and> bytes < 2 ^ 63)"
| "fc_at (ReplenishLoad bytes mx) = (0 < bytes \<and> bytes < 2 ^ 63 \<and> 0 \<le> mx \<and> mx \<le> kMaxCreditLimit)"
| "fc_at (ReplenishCas bytes mx current) =
     (0 < bytes \<and> bytes < 2 ^ 63 \<and> current < mx \<and> mx \<le> kMaxCreditLimit)"
| "fc_at (SetMaxExchange c) = (0 \<le> c \<and> c \<le> kMaxCreditLimit)"
| "fc_at (SetMaxLoad c) = (0 \<le> c \<and> c \<le> kMaxCreditLimit)"
| "fc_at (SetMaxCas c current) = (0 \<le> c \<and> c \<le> kMaxCreditLimit \<and> c < current)"

lemma clamp_bounds: "lo \<le> hi \<Longrightarrow> lo \<le> clamp_credit v lo hi \<and> clamp_credit v lo hi \<le> hi"
  by (simp add: clamp_credit_def)

text \<open>The overflow check makes the addition saturate.\<close>

lemma replenish_saturates:
  assumes "0 \<le> current" "current < mx" "mx \<le> kMaxCreditLimit" "0 < bytes" "bytes < 2 ^ 63"
  shows "replenish_desired bytes mx current = min (current + bytes) mx"
proof (cases "current + bytes < 2 ^ 63")
  case True
  with assms have "wrap64 (current + bytes) = current + bytes" by (intro wrap64_small) auto
  then show ?thesis using assms by (simp add: replenish_desired_def min_def)
next
  case False
  with assms have "wrap64 (current + bytes) = current + bytes - 2 ^ 64"
    by (intro wrap64_over) (auto simp: kMaxCreditLimit_def)
  then show ?thesis using assms False by (simp add: replenish_desired_def kMaxCreditLimit_def min_def)
qed

lemma fc_step_ok:
  assumes "fc_inv b s" "fc_at p" "fc_step ok s p = (s', p')"
  shows "fc_inv b s' \<and> fc_at p'"
  using assms
  by (cases p) (auto simp: fc_inv_def replenish_saturates split: if_splits)

lemma fc_calls_at: "fc_at (consume b)" "b < 2 ^ 63 \<Longrightarrow> fc_at (replenish b)" "fc_at (set_max_credit m)"
  using clamp_bounds [of 0 kMaxCreditLimit m]
  by (simp_all add: consume_def replenish_def set_max_credit_def kMaxCreditLimit_def)

interpretation credit: interleaved fc_lstep "fc_inv budget" "\<lambda>_. fc_at" for budget
proof unfold_locales
  fix s p s' p' assume "fc_inv budget s" "fc_at p" "fc_lstep s p s' p'"
  then show "fc_inv budget s' \<and> fc_at p'"
    by (elim fc_lstep.cases) (auto simp: fc_calls_at dest: fc_step_ok)
qed

section \<open>Properties\<close>

lemma new_flow_control_inv: "fc_inv (clamp_credit c 0 kMaxCreditLimit) (new_flow_control c)"
  using clamp_bounds [of 0 kMaxCreditLimit c]
  by (simp add: fc_inv_def new_flow_control_def Let_def kMaxCreditLimit_def)

text \<open>
  C36: Credit is never overdrawn. However the threads that share a \<^verbatim>\<open>FlowControl\<close> interleave, and
  whichever compare-and-swaps fail, the credit stays between 0 and the hard limit, and the bytes all
  successful \<^verbatim>\<open>consume\<close> calls took, with what is left, are at most the initial credit plus what
  \<^verbatim>\<open>replenish\<close> calls returned.
\<close>

theorem credit_never_overdrawn:
  assumes "(pool_step fc_lstep)\<^sup>*\<^sup>* (new_flow_control c, replicate n (Returned True)) (s, ps)"
  shows "0 \<le> fc_credit s \<and> fc_credit s \<le> kMaxCreditLimit \<and>
    fc_spent s + fc_credit s \<le> clamp_credit c 0 kMaxCreditLimit + fc_granted s"
  using credit.pool_run_inv [OF assms new_flow_control_inv] by (simp add: fc_inv_def list_all_iff)

theorem credit_never_overdrawn_witness:
  "fc_spent \<lparr>fc_credit = 6, fc_max_credit = 10, fc_spent = 4, fc_granted = 0\<rparr> + 6 \<le> clamp_credit 10 0 kMaxCreditLimit"
proof -
  let ?i = "new_flow_control 10" and ?s = "\<lparr>fc_credit = 6, fc_max_credit = 10, fc_spent = 4, fc_granted = 0\<rparr>"
  have "fc_lstep ?i (Returned True) ?i (ConsumeLoad 4)"
    using fc_lstep.consume [of 4] by (simp add: consume_def)
  moreover have "fc_lstep ?i (ConsumeLoad 4) ?i (ConsumeCas 4 10)" "fc_lstep ?i (ConsumeCas 4 10) ?s (Returned True)"
    by (rule fc_lstep.run [of True], simp add: new_flow_control_def clamp_credit_def kMaxCreditLimit_def)+
  ultimately have "(pool_step fc_lstep)\<^sup>*\<^sup>* (?i, [Returned True]) (?s, [Returned True])"
    by (meson solo_step rtranclp.rtrancl_into_rtrancl rtranclp.rtrancl_refl)
  then show ?thesis using credit_never_overdrawn [of 10 1 ?s] by simp
qed

text \<open>
  What one call does when no other thread interferes: \<^verbatim>\<open>consume\<close> takes all the bytes or none,
  \<^verbatim>\<open>replenish\<close> saturates at the maximum, \<^verbatim>\<open>set_max_credit\<close> caps the credit; each returns after at
  most three accesses.
\<close>

abbreviation alone :: "nat \<Rightarrow> FlowControl \<times> fc_pc \<Rightarrow> FlowControl \<times> fc_pc" where
  "alone n \<equiv> (\<lambda>(s, p). fc_step True s p) ^^ n"

lemma consume_alone:
  "0 < b \<Longrightarrow> alone 2 (s, consume b) =
    (if b \<le> fc_credit s then (s\<lparr>fc_credit := fc_credit s - b, fc_spent := fc_spent s + b\<rparr>, Returned True)
     else (s, Returned False))"
  by (simp add: consume_def eval_nat_numeral)

lemma replenish_alone:
  assumes "fc_inv c s" "0 < b" "b < 2 ^ 63"
  shows "fc_credit (fst (alone 3 (s, replenish b))) = max (fc_credit s) (min (fc_credit s + b) (fc_max_credit s))"
    and "snd (alone 3 (s, replenish b)) = Returned True"
  using assms replenish_saturates [of "fc_credit s" "fc_max_credit s" b]
  by (auto simp: replenish_def fc_inv_def eval_nat_numeral)

lemma set_max_alone:
  assumes "fc_credit s \<le> fc_max_credit s"
  shows "fc_credit (fst (alone 3 (s, set_max_credit m))) = min (fc_credit s) (clamp_credit m 0 kMaxCreditLimit)"
    and "snd (alone 3 (s, set_max_credit m)) = Returned True"
  using assms by (auto simp: set_max_credit_def eval_nat_numeral)

text \<open>
  The comment at the top of the source promises a credit in \<^verbatim>\<open>[0, max_credit]\<close>. A \<^verbatim>\<open>replenish\<close> that
  read the old maximum can still succeed after \<^verbatim>\<open>set_max_credit\<close> returned: both calls are over and
  the credit is above the maximum.
\<close>

theorem replenish_race_exceeds_max:
  "\<exists>s. (pool_step fc_lstep)\<^sup>*\<^sup>* (\<lparr>fc_credit = 0, fc_max_credit = 100, fc_spent = 100, fc_granted = 0\<rparr>,
          [replenish 100, set_max_credit 10]) (s, [Returned True, Returned True]) \<and>
       fc_credit s = 100 \<and> fc_max_credit s = 10"
proof -
  let ?a = "\<lparr>fc_credit = 0, fc_max_credit = 100, fc_spent = 100, fc_granted = 0\<rparr>"
  let ?b = "?a\<lparr>fc_max_credit := 10\<rparr>" and ?c = "?a\<lparr>fc_max_credit := 10, fc_credit := 100, fc_granted := 100\<rparr>"
  have "fc_lstep ?a (replenish 100) ?a (ReplenishLoad 100 100)" "fc_lstep ?a (ReplenishLoad 100 100) ?a (ReplenishCas 100 100 0)"
    "fc_lstep ?a (set_max_credit 10) ?b (SetMaxLoad 10)" "fc_lstep ?b (SetMaxLoad 10) ?b (Returned True)"
    "fc_lstep ?b (ReplenishCas 100 100 0) ?c (Returned True)"
    by (rule fc_lstep.run [of True], simp add: replenish_def set_max_credit_def clamp_credit_def kMaxCreditLimit_def
        replenish_desired_def wrap64_def)+
  note steps = first_step [of fc_lstep, OF this(1)] first_step [of fc_lstep, OF this(2)]
    second_step [of fc_lstep, OF this(3)] second_step [of fc_lstep, OF this(4)] first_step [of fc_lstep, OF this(5)]
  have "(pool_step fc_lstep)\<^sup>*\<^sup>* (?a, [replenish 100, set_max_credit 10]) (?c, [Returned True, Returned True])"
    using steps by (meson rtranclp.rtrancl_into_rtrancl rtranclp.rtrancl_refl)
  then show ?thesis by (intro exI [of _ ?c]) simp
qed

end
