(* ===== verification/Connection_Limiter.thy ===== *)
theory Connection_Limiter
  imports Interleaving
begin

text \<open>
  \<^verbatim>\<open>ConnectionLimiter\<close> of \<^verbatim>\<open>src/torrent/network/connection_limiter.cpp\<close>, with one program point
  before each atomic access of \<^verbatim>\<open>try_acquire\<close> and \<^verbatim>\<open>release\<close>; \<open>ok\<close> is false where
  \<^verbatim>\<open>compare_exchange_weak\<close> fails spuriously. \<open>cl_held\<close> is not in the code: it counts the slots that
  were acquired and not yet given back. Logging is left out, and with it the capacity warning.
\<close>

section \<open>Model\<close>

record ConnectionLimiter =
  cl_count :: int
  cl_max :: int
  cl_held :: int

definition kHardMaxConnections :: int where "kHardMaxConnections = 1000000"

definition clamp_connection_limit :: "int \<Rightarrow> int \<Rightarrow> int \<Rightarrow> int" where
  "clamp_connection_limit val lo hi = (if val < lo then lo else if val > hi then hi else val)"

definition new_connection_limiter :: "int \<Rightarrow> ConnectionLimiter" where
  "new_connection_limiter max_conn =
     \<lparr>cl_count = 0, cl_max = clamp_connection_limit max_conn 0 kHardMaxConnections, cl_held = 0\<rparr>"

datatype cl_pc =
    Finished bool
  | AcquireMax
  | AcquireAdd
  | AcquireLoad int
  | AcquireCas int int
  | AcquireReread
  | ReleaseSub
  | ReleaseFix

abbreviation try_acquire :: cl_pc where "try_acquire \<equiv> AcquireMax"
abbreviation release :: cl_pc where "release \<equiv> ReleaseSub"

definition current_count :: "ConnectionLimiter \<Rightarrow> int" where "current_count s = cl_count s"
definition max_connections :: "ConnectionLimiter \<Rightarrow> int" where "max_connections s = cl_max s"

text \<open>The maximum 0 is read as "unlimited" once, before the loop; the loop reads the maximum again after a lost race.\<close>

fun cl_step :: "bool \<Rightarrow> ConnectionLimiter \<Rightarrow> cl_pc \<Rightarrow> ConnectionLimiter \<times> cl_pc" where
  "cl_step ok s (Finished r) = (s, Finished r)"
| "cl_step ok s AcquireMax = (s, if cl_max s = 0 then AcquireAdd else AcquireLoad (cl_max s))"
| "cl_step ok s AcquireAdd = (s\<lparr>cl_count := cl_count s + 1, cl_held := cl_held s + 1\<rparr>, Finished True)"
| "cl_step ok s (AcquireLoad mx) =
     (s, if cl_count s \<ge> mx then Finished False else AcquireCas mx (cl_count s))"
| "cl_step ok s (AcquireCas mx current) =
     (if ok \<and> cl_count s = current
      then (s\<lparr>cl_count := current + 1, cl_held := cl_held s + 1\<rparr>, Finished True)
      else (s, AcquireReread))"
| "cl_step ok s AcquireReread = (s, AcquireLoad (cl_max s))"
| "cl_step ok s ReleaseSub =
     (s\<lparr>cl_count := cl_count s - 1, cl_held := cl_held s - 1\<rparr>,
      if cl_count s \<le> 0 then ReleaseFix else Finished True)"
| "cl_step ok s ReleaseFix = (s\<lparr>cl_count := 0\<rparr>, Finished True)"

text \<open>Any calls: a thread that is done may call either method.\<close>

inductive cl_lstep :: "ConnectionLimiter \<Rightarrow> cl_pc \<Rightarrow> ConnectionLimiter \<Rightarrow> cl_pc \<Rightarrow> bool" where
  run: "cl_step ok s p = (s', p') \<Longrightarrow> cl_lstep s p s' p'"
| acquire: "cl_lstep s (Finished r) s try_acquire"
| release: "cl_lstep s (Finished r) s release"

text \<open>The callers' side of the contract: a release gives back a slot that is held.\<close>

definition matched_lstep :: "ConnectionLimiter \<Rightarrow> cl_pc \<Rightarrow> ConnectionLimiter \<Rightarrow> cl_pc \<Rightarrow> bool" where
  "matched_lstep s p s' p' \<longleftrightarrow> cl_lstep s p s' p' \<and> (p = ReleaseSub \<longrightarrow> 0 < cl_held s)"

section \<open>Invariant\<close>

definition cl_inv :: "int \<Rightarrow> ConnectionLimiter \<Rightarrow> bool" where
  "cl_inv mx s \<longleftrightarrow> cl_max s = mx \<and> cl_count s = cl_held s \<and> 0 \<le> cl_held s \<and> (mx > 0 \<longrightarrow> cl_count s \<le> mx)"

fun cl_at :: "int \<Rightarrow> cl_pc \<Rightarrow> bool" where
  "cl_at mx AcquireAdd = (mx = 0)"
| "cl_at mx (AcquireLoad m) = (m = mx \<and> mx \<noteq> 0)"
| "cl_at mx (AcquireCas m c) = (m = mx \<and> mx \<noteq> 0 \<and> c < mx)"
| "cl_at mx AcquireReread = (mx \<noteq> 0)"
| "cl_at mx ReleaseFix = False"
| "cl_at mx p = True"

lemma cl_step_ok:
  assumes "cl_inv mx s" "cl_at mx p" "cl_step ok s p = (s', p')" "p = ReleaseSub \<Longrightarrow> 0 < cl_held s"
  shows "cl_inv mx s' \<and> cl_at mx p'"
  using assms by (cases p) (auto simp: cl_inv_def split: if_splits)

interpretation slots: interleaved matched_lstep "cl_inv mx" "\<lambda>_. cl_at mx" for mx
proof unfold_locales
  fix s p s' p' assume "cl_inv mx s" "cl_at mx p" "matched_lstep s p s' p'"
  then show "cl_inv mx s' \<and> cl_at mx p'"
    unfolding matched_lstep_def by (auto elim!: cl_lstep.cases dest: cl_step_ok)
qed

section \<open>Properties\<close>

lemma new_limiter_inv: "cl_inv (clamp_connection_limit m 0 kHardMaxConnections) (new_connection_limiter m)"
  by (simp add: cl_inv_def new_connection_limiter_def clamp_connection_limit_def kHardMaxConnections_def)

text \<open>
  The connection limit is never exceeded. In every interleaving of acquiring and releasing
  threads where each release gives back a held slot, the counter is exactly the number of slots
  held, and with a positive limit it is never above the limit.
\<close>

theorem connections_within_limit:
  assumes "(pool_step matched_lstep)\<^sup>*\<^sup>* (new_connection_limiter m, replicate n (Finished True)) (s, ps)"
  shows "current_count s = cl_held s \<and> 0 \<le> cl_held s \<and>
    max_connections s = clamp_connection_limit m 0 kHardMaxConnections \<and>
    (0 < m \<longrightarrow> cl_held s \<le> max_connections s)"
  using slots.pool_run_inv [OF assms new_limiter_inv]
  by (auto simp: cl_inv_def list_all_iff current_count_def max_connections_def clamp_connection_limit_def
      kHardMaxConnections_def)

lemma matched_run: "cl_step True s p = (s', p') \<Longrightarrow> p \<noteq> ReleaseSub \<Longrightarrow> matched_lstep s p s' p'"
  by (simp add: matched_lstep_def cl_lstep.run)

theorem connections_within_limit_witness:
  "cl_held \<lparr>cl_count = 1, cl_max = 1, cl_held = 1\<rparr> \<le> max_connections \<lparr>cl_count = 1, cl_max = 1, cl_held = 1\<rparr>"
proof -
  let ?i = "new_connection_limiter 1" and ?s = "\<lparr>cl_count = 1, cl_max = 1, cl_held = 1\<rparr>"
  have "matched_lstep ?i (Finished True) ?i AcquireMax"
    by (simp add: matched_lstep_def cl_lstep.acquire)
  moreover have "matched_lstep ?i AcquireMax ?i (AcquireLoad 1)" "matched_lstep ?i (AcquireLoad 1) ?i (AcquireCas 1 0)"
    "matched_lstep ?i (AcquireCas 1 0) ?s (Finished True)"
    by (rule matched_run, simp add: new_connection_limiter_def clamp_connection_limit_def kHardMaxConnections_def, simp)+
  ultimately have "(pool_step matched_lstep)\<^sup>*\<^sup>* (?i, [Finished True]) (?s, [Finished True])"
    by (meson solo_step rtranclp.rtrancl_into_rtrancl rtranclp.rtrancl_refl)
  then show ?thesis using connections_within_limit [of 1 1 ?s "[Finished True]"] by (simp add: max_connections_def)
qed

text \<open>A limiter made with 0 admits every connection, although its constructor logs that all are rejected.\<close>

lemma limit_zero_admits:
  "snd ((\<lambda>(s, p). cl_step True s p) ((\<lambda>(s, p). cl_step True s p) (new_connection_limiter 0, try_acquire))) = Finished True"
  by (simp add: new_connection_limiter_def clamp_connection_limit_def kHardMaxConnections_def)

text \<open>
  An unmatched release repairs the counter in a second access. A connection admitted between the two
  is not counted: its \<^verbatim>\<open>try_acquire\<close> returned true, and the counter is 0.
\<close>

theorem underflow_repair_loses_slot:
  "\<exists>s. (pool_step cl_lstep)\<^sup>*\<^sup>* (new_connection_limiter 2, [release, try_acquire]) (s, [Finished True, Finished True]) \<and>
     cl_count s = 0"
proof -
  let ?a = "\<lparr>cl_count = 0, cl_max = 2, cl_held = 0\<rparr>" and ?b = "\<lparr>cl_count = - 1, cl_max = 2, cl_held = - 1\<rparr>"
  have i: "new_connection_limiter 2 = ?a"
    by (simp add: new_connection_limiter_def clamp_connection_limit_def kHardMaxConnections_def)
  have "cl_lstep ?a ReleaseSub ?b ReleaseFix" "cl_lstep ?b AcquireMax ?b (AcquireLoad 2)"
    "cl_lstep ?b (AcquireLoad 2) ?b (AcquireCas 2 (- 1))" "cl_lstep ?b (AcquireCas 2 (- 1)) ?a (Finished True)"
    "cl_lstep ?a ReleaseFix ?a (Finished True)"
    by (rule cl_lstep.run [of True], simp)+
  note steps = first_step [of cl_lstep, OF this(1)] second_step [of cl_lstep, OF this(2)]
    second_step [of cl_lstep, OF this(3)] second_step [of cl_lstep, OF this(4)] first_step [of cl_lstep, OF this(5)]
  have "(pool_step cl_lstep)\<^sup>*\<^sup>* (?a, [ReleaseSub, AcquireMax]) (?a, [Finished True, Finished True])"
    using steps by (meson rtranclp.rtrancl_into_rtrancl rtranclp.rtrancl_refl)
  then show ?thesis unfolding i by (intro exI [of _ ?a]) simp
qed

end
