(* ===== verification/Message_Codec.thy ===== *)
theory Message_Codec
  imports Torrent_Prelude
begin

text \<open>
  \<^verbatim>\<open>src/torrent/network/message_codec.cpp\<close>: the framing of requests and responses. A
  \<^verbatim>\<open>std::vector<uint8_t>\<close> is the list of its bytes, written in place at an offset; a signed
  integer is its two's-complement word. A pointer to bytes is the list of the bytes from there on,
  \<open>None\<close> for the null pointer; the number of readable bytes is a separate argument, as in the source.
\<close>

record buffer_view =
  bv_data :: "bytes option"
  bv_size :: nat

definition null_view :: buffer_view where "null_view = \<lparr>bv_data = None, bv_size = 0\<rparr>"

section \<open>Big-endian accessors\<close>

definition mc_write_int32_be :: "bytes \<Rightarrow> nat \<Rightarrow> u32 \<Rightarrow> bytes" where
  "mc_write_int32_be buf off u =
     buf[off := ucast (drop_bit 24 u AND 0xFF), off + 1 := ucast (drop_bit 16 u AND 0xFF),
         off + 2 := ucast (drop_bit 8 u AND 0xFF), off + 3 := ucast (u AND 0xFF)]"

definition mc_write_int16_be :: "bytes \<Rightarrow> nat \<Rightarrow> 16 word \<Rightarrow> bytes" where
  "mc_write_int16_be buf off u = buf[off := ucast (drop_bit 8 u AND 0xFF), off + 1 := ucast (u AND 0xFF)]"

definition mc_read_int32_be :: "bytes \<Rightarrow> nat \<Rightarrow> u32" where
  "mc_read_int32_be data off =
     push_bit 24 (ucast (data ! off)) OR push_bit 16 (ucast (data ! (off + 1))) OR
     push_bit 8 (ucast (data ! (off + 2))) OR ucast (data ! (off + 3))"

definition mc_read_int16_be :: "bytes \<Rightarrow> nat \<Rightarrow> 16 word" where
  "mc_read_int16_be data off = push_bit 8 (ucast (data ! off)) OR ucast (data ! (off + 1))"

definition kMinRequestHeaderSize :: nat where "kMinRequestHeaderSize = 10"
definition kFrameLengthSize :: nat where "kFrameLengthSize = 4"
definition kResponseHeaderSize :: nat where "kResponseHeaderSize = 4"
definition kMaxClientIdLength :: int where "kMaxClientIdLength = 512"
definition kMaxFrameSize :: int where "kMaxFrameSize = 100 * 1024 * 1024"

text \<open>\<^verbatim>\<open>memcpy(buf.data() + off, src, src.size)\<close>, inside the buffer.\<close>

definition memcpy_at :: "bytes \<Rightarrow> nat \<Rightarrow> bytes \<Rightarrow> bytes" where
  "memcpy_at buf off src = take off buf @ src @ drop (off + length src) buf"

section \<open>Strings\<close>

definition append_compact_string :: "bytes \<Rightarrow> bytes \<Rightarrow> bytes" where
  "append_compact_string buf s =
     (let len = word_of_nat (length s) :: 16 word; pos = length buf;
          buf = buf @ replicate (2 + length s) 0;
          buf = mc_write_int16_be buf pos len
      in if s \<noteq> [] then memcpy_at buf (pos + 2) s else buf)"

definition append_nullable_string :: "bytes \<Rightarrow> bytes \<Rightarrow> bytes" where
  "append_nullable_string buf s =
     (let len = word_of_nat (length s) :: 16 word; pos = length buf;
          buf = buf @ replicate (2 + length s) 0;
          buf = mc_write_int16_be buf pos len
      in if s \<noteq> [] then memcpy_at buf (pos + 2) s else buf)"

text \<open>The number of bytes consumed, or -1, and the string, which stays \<open>out\<close> on an error.\<close>

definition read_compact_string :: "bytes \<Rightarrow> nat \<Rightarrow> nat \<Rightarrow> bytes \<Rightarrow> int \<times> bytes" where
  "read_compact_string data sz pos out =
     (if sz < pos + 2 then (- 1, out)
      else let len = sint (mc_read_int16_be data pos)
      in if len < - 1 then (- 1, out)
      else if kMaxClientIdLength < len \<and> 0 < len then (- 1, out)
      else if len = - 1 then (2, [])
      else let ulen = nat len
      in if sz < pos + 2 + ulen then (- 1, out)
      else (2 + int ulen, take ulen (drop (pos + 2) data)))"

section \<open>Encoding\<close>

definition encode_request :: "16 word \<Rightarrow> 16 word \<Rightarrow> u32 \<Rightarrow> bytes \<Rightarrow> buffer_view \<Rightarrow> bytes" where
  "encode_request api_key api_version correlation_id client_id body =
     (let payload_size = kMinRequestHeaderSize + length client_id + bv_size body
      in if kMaxFrameSize < int payload_size then []
      else let frame = replicate (kFrameLengthSize + payload_size) 0;
          frame = mc_write_int32_be frame 0 (word_of_nat payload_size);
          offset = kFrameLengthSize;
          frame = mc_write_int16_be frame offset api_key;
          offset = offset + 2;
          frame = mc_write_int16_be frame offset api_version;
          offset = offset + 2;
          frame = mc_write_int32_be frame offset correlation_id;
          offset = offset + 4;
          client_id_len = word_of_nat (length client_id) :: 16 word;
          frame = mc_write_int16_be frame offset client_id_len;
          offset = offset + 2;
          (frame, offset) =
            (if 0 < sint client_id_len
             then (memcpy_at frame offset (take (nat (sint client_id_len)) client_id),
                   offset + nat (sint client_id_len))
             else (frame, offset))
      in case bv_data body of
           Some d \<Rightarrow> if 0 < bv_size body then memcpy_at frame offset (take (bv_size body) d) else frame
         | None \<Rightarrow> frame)"

definition encode_response :: "u32 \<Rightarrow> buffer_view \<Rightarrow> bytes" where
  "encode_response correlation_id body =
     (let payload_size = kResponseHeaderSize + bv_size body
      in if kMaxFrameSize < int payload_size then []
      else let frame = replicate (kFrameLengthSize + payload_size) 0;
          frame = mc_write_int32_be frame 0 (word_of_nat payload_size);
          frame = mc_write_int32_be frame kFrameLengthSize correlation_id
      in case bv_data body of
           Some d \<Rightarrow> if 0 < bv_size body
             then memcpy_at frame (kFrameLengthSize + kResponseHeaderSize) (take (bv_size body) d) else frame
         | None \<Rightarrow> frame)"

section \<open>Decoding\<close>

text \<open>The three out-parameters before and after the call.\<close>

record request_header =
  rh_api_key :: "16 word"
  rh_api_version :: "16 word"
  rh_correlation_id :: u32

definition decode_request_header ::
  "bytes option \<Rightarrow> nat \<Rightarrow> request_header \<Rightarrow> buffer_view \<times> request_header" where
  "decode_request_header data sz out =
     (if sz < kMinRequestHeaderSize then (null_view, out)
      else case data of
        None \<Rightarrow> (null_view, out)
      | Some d \<Rightarrow>
          let offset = 0;
              out = out\<lparr>rh_api_key := mc_read_int16_be d offset\<rparr>;
              offset = offset + 2;
              out = out\<lparr>rh_api_version := mc_read_int16_be d offset\<rparr>;
              offset = offset + 2;
              out = out\<lparr>rh_correlation_id := mc_read_int32_be d offset\<rparr>;
              offset = offset + 4;
              (consumed, client_id) = read_compact_string d sz offset []
          in if consumed < 0 then (null_view, out)
             else let offset = offset + nat consumed;
                 body_size = (if offset < sz then sz - offset else 0)
             in if body_size = 0 then (null_view, out)
                else (\<lparr>bv_data = Some (drop offset d), bv_size = body_size\<rparr>, out))"

definition peek_correlation_id :: "bytes option \<Rightarrow> nat \<Rightarrow> int" where
  "peek_correlation_id data sz =
     (if sz < 4 + 4 then - 1
      else case data of None \<Rightarrow> - 1 | Some d \<Rightarrow> sint (mc_read_int32_be d 4))"

definition peek_frame_size :: "bytes option \<Rightarrow> nat \<Rightarrow> int" where
  "peek_frame_size data sz =
     (if sz < kFrameLengthSize then - 1
      else case data of
        None \<Rightarrow> - 1
      | Some d \<Rightarrow>
          let frame_size = sint (mc_read_int32_be d 0)
          in if frame_size < 0 then - 1
             else if kMaxFrameSize < frame_size then - 1
             else if frame_size < 4 then - 1
             else frame_size)"

lemmas codec_constants =
  kMinRequestHeaderSize_def kFrameLengthSize_def kResponseHeaderSize_def kMaxClientIdLength_def kMaxFrameSize_def

section \<open>Fields\<close>

text \<open>The bytes of a field, and what the accessors do where one was written.\<close>

definition be16 :: "16 word \<Rightarrow> bytes" where
  "be16 u = [ucast (drop_bit 8 u AND 0xFF), ucast (u AND 0xFF)]"

definition be32 :: "u32 \<Rightarrow> bytes" where
  "be32 u = [ucast (drop_bit 24 u AND 0xFF), ucast (drop_bit 16 u AND 0xFF),
             ucast (drop_bit 8 u AND 0xFF), ucast (u AND 0xFF)]"

lemma length_be [simp]: "length (be16 u) = 2" "length (be32 v) = 4"
  by (simp_all add: be16_def be32_def)

lemma join16: "push_bit 8 (ucast (ucast (drop_bit 8 u AND 0xFF) :: byte)) OR ucast (ucast (u AND 0xFF) :: byte) = u"
  for u :: "16 word"
  unfolding and_255 by (rule bit_word_eqI) (auto simp: bit_simps)

lemma join32:
  "push_bit 24 (ucast (ucast (drop_bit 24 u AND 0xFF) :: byte)) OR
   push_bit 16 (ucast (ucast (drop_bit 16 u AND 0xFF) :: byte)) OR
   push_bit 8 (ucast (ucast (drop_bit 8 u AND 0xFF) :: byte)) OR ucast (ucast (u AND 0xFF) :: byte) = u"
  for u :: u32
  unfolding and_255
proof (rule bit_word_eqI)
  fix n assume "n < LENGTH(32)"
  then show "bit (push_bit 24 (ucast (ucast (take_bit 8 (drop_bit 24 u)) :: byte)) OR
      push_bit 16 (ucast (ucast (take_bit 8 (drop_bit 16 u)) :: byte)) OR
      push_bit 8 (ucast (ucast (take_bit 8 (drop_bit 8 u)) :: byte)) OR
      ucast (ucast (take_bit 8 u) :: byte) :: u32) n = bit u n"
    by (cases "24 \<le> n"; cases "16 \<le> n") (auto simp: bit_simps)
qed

lemma read_be16 [wire]: "length pre = off \<Longrightarrow> mc_read_int16_be (pre @ be16 u @ post) off = u"
  by (simp add: mc_read_int16_be_def be16_def nth_append join16)

lemma read_be32 [wire]: "length pre = off \<Longrightarrow> mc_read_int32_be (pre @ be32 u @ post) off = u"
  by (simp add: mc_read_int32_be_def be32_def nth_append join32)

lemma write_be16 [wire]:
  "length pre = off \<Longrightarrow> length old = 2 \<Longrightarrow> mc_write_int16_be (pre @ old @ post) off u = pre @ be16 u @ post"
  by (auto simp: mc_write_int16_be_def be16_def list_update_append numeral_2_eq_2 length_Suc_conv)

lemma write_be32 [wire]:
  "length pre = off \<Longrightarrow> length old = 4 \<Longrightarrow> mc_write_int32_be (pre @ old @ post) off u = pre @ be32 u @ post"
  by (auto simp: mc_write_int32_be_def be32_def list_update_append numeral_eq_Suc length_Suc_conv)

lemma memcpy_over [wire]:
  "length pre = off \<Longrightarrow> length old = length src \<Longrightarrow> memcpy_at (pre @ old @ post) off src = pre @ src @ post"
  by (simp add: memcpy_at_def)

lemma sint_of_nat_small: "n < 2 ^ (LENGTH('a) - 1) \<Longrightarrow> sint (word_of_nat n :: 'a::len word) = int n"
proof -
  assume "n < 2 ^ (LENGTH('a) - 1)"
  then have "int n < 2 ^ (LENGTH('a) - 1)" by (metis of_nat_less_iff of_nat_numeral of_nat_power)
  then have "signed_take_bit (LENGTH('a) - 1) (int n) = int n"
    by (intro signed_take_bit_int_eq_self) (simp_all add: order_trans [of _ 0])
  then show ?thesis by (simp add: signed_of_nat)
qed

lemma payload_size_read: "int n \<le> kMaxFrameSize \<Longrightarrow> sint (word_of_nat n :: u32) = int n"
  by (rule sint_of_nat_small) (simp add: codec_constants)

section \<open>What is on the wire\<close>

lemma encode_request_wire:
  assumes "length cid \<le> 32767" "bv_size body \<le> length d" "bv_data body = Some d"
    "int (10 + length cid + bv_size body) \<le> kMaxFrameSize"
  shows "encode_request k v c cid body =
    be32 (word_of_nat (10 + length cid + bv_size body)) @ be16 k @ be16 v @ be32 c @
    be16 (word_of_nat (length cid)) @ cid @ take (bv_size body) d"
proof -
  let ?z = "\<lambda>n. replicate n (0 :: byte)" and ?n = "bv_size body"
  define P where "P = kMinRequestHeaderSize + length cid + ?n"
  define len where "len = (word_of_nat P :: u32)"
  define l where "l = (word_of_nat (length cid) :: 16 word)"
  let ?hd = "be32 len @ be16 k @ be16 v @ be32 c @ be16 l"
  have P: "P = 10 + length cid + ?n" by (simp add: P_def kMinRequestHeaderSize_def)
  have z: "?z (4 + P) = [] @ ?z 4 @ ?z 2 @ ?z 2 @ ?z 4 @ ?z 2 @ ?z (length cid) @ ?z ?n"
    by (simp add: P numeral_eq_Suc replicate_add)
  have sl: "sint l = int (length cid)"
    unfolding l_def using assms(1) by (intro sint_of_nat_small) simp
  have 1: "mc_write_int32_be (?z (4 + P)) 0 len = be32 len @ ?z 2 @ ?z 2 @ ?z 4 @ ?z 2 @ ?z (length cid) @ ?z ?n"
    unfolding z by (subst write_be32) simp_all
  have 2: "mc_write_int16_be (be32 len @ ?z 2 @ r) 4 k = be32 len @ be16 k @ r" for r
    by (simp add: write_be16)
  have 3: "mc_write_int16_be (be32 len @ be16 k @ ?z 2 @ r) 6 v = be32 len @ be16 k @ be16 v @ r" for r
    using write_be16 [of "be32 len @ be16 k" 6 "?z 2" r v] by simp
  have 4: "mc_write_int32_be (be32 len @ be16 k @ be16 v @ ?z 4 @ r) 8 c = be32 len @ be16 k @ be16 v @ be32 c @ r" for r
    using write_be32 [of "be32 len @ be16 k @ be16 v" 8 "?z 4" r c] by simp
  have 5: "mc_write_int16_be (be32 len @ be16 k @ be16 v @ be32 c @ ?z 2 @ r) 12 l = ?hd @ r" for r
    using write_be16 [of "be32 len @ be16 k @ be16 v @ be32 c" 12 "?z 2" r l] by simp
  have 6: "memcpy_at (?hd @ ?z (length cid) @ r) 14 cid = ?hd @ cid @ r" for r
    by (rule memcpy_over) simp_all
  have 7: "memcpy_at (?hd @ cid @ ?z ?n) (14 + length cid) (take ?n d) = ?hd @ cid @ take ?n d"
    using memcpy_over [of "?hd @ cid" "14 + length cid" "?z ?n" "take ?n d" "[]"] assms(2) by simp
  have offs: "4 + 2 = (6 :: nat)" "6 + 2 = (8 :: nat)" "8 + 4 = (12 :: nat)" "12 + 2 = (14 :: nat)" by simp_all
  have "encode_request k v c cid body =
      (let (f, offset) = (if 0 < int (length cid) then (memcpy_at (?hd @ ?z (length cid) @ ?z ?n) 14 cid, 14 + length cid)
                          else (?hd @ ?z (length cid) @ ?z ?n, 14))
       in if 0 < ?n then memcpy_at f offset (take ?n d) else f)"
    using assms(4)
    by (simp only: encode_request_def Let_def P_def [symmetric] P [symmetric] len_def [symmetric] l_def [symmetric]
        kFrameLengthSize_def offs 1 2 3 4 5 sl assms(3) option.case nat_int take_all [OF order_refl] not_less [symmetric] if_False)
  then show ?thesis
    using 7 unfolding 6 P [symmetric] len_def [symmetric] l_def [symmetric] by (cases "cid = []"; cases "?n = 0") simp_all
qed

lemma encode_response_wire:
  assumes "bv_size body \<le> length d" "bv_data body = Some d" "int (4 + bv_size body) \<le> kMaxFrameSize"
  shows "encode_response c body = be32 (word_of_nat (4 + bv_size body)) @ be32 c @ take (bv_size body) d"
proof -
  let ?z = "\<lambda>n. replicate n (0 :: byte)" and ?n = "bv_size body"
  define P where "P = kResponseHeaderSize + ?n"
  define len where "len = (word_of_nat P :: u32)"
  have P: "P = 4 + ?n" by (simp add: P_def kResponseHeaderSize_def)
  have z: "?z (4 + P) = [] @ ?z 4 @ ?z 4 @ ?z ?n" by (simp add: P numeral_eq_Suc replicate_add)
  have 1: "mc_write_int32_be (?z (4 + P)) 0 len = be32 len @ ?z 4 @ ?z ?n"
    unfolding z by (subst write_be32) simp_all
  have 2: "mc_write_int32_be (be32 len @ ?z 4 @ r) 4 c = (be32 len @ be32 c) @ r" for r
    by (simp add: write_be32)
  have 3: "memcpy_at ((be32 len @ be32 c) @ ?z ?n) 8 (take ?n d) = (be32 len @ be32 c) @ take ?n d"
    using memcpy_over [of "be32 len @ be32 c" 8 "?z ?n" "take ?n d" "[]"] assms(1) by simp
  have "encode_response c body =
      (if 0 < ?n then memcpy_at ((be32 len @ be32 c) @ ?z ?n) (4 + 4) (take ?n d) else (be32 len @ be32 c) @ ?z ?n)"
    using assms(3)
    by (simp only: encode_response_def Let_def P_def [symmetric] P [symmetric] len_def [symmetric]
        kFrameLengthSize_def kResponseHeaderSize_def 1 2 assms(2) option.case not_less [symmetric] if_False)
  then show ?thesis using 3 unfolding P [symmetric] len_def [symmetric] by (cases "?n = 0") simp_all
qed

section \<open>Decoding what was encoded\<close>

lemma read16_append: "off + 2 \<le> length p \<Longrightarrow> mc_read_int16_be (p @ r) off = mc_read_int16_be p off"
  by (simp add: mc_read_int16_be_def nth_append)

lemma read32_append: "off + 4 \<le> length p \<Longrightarrow> mc_read_int32_be (p @ r) off = mc_read_int32_be p off"
  by (simp add: mc_read_int32_be_def nth_append)

text \<open>The header a payload of ten bytes or more holds, and where its body starts.\<close>

definition payload_header :: "bytes \<Rightarrow> request_header" where
  "payload_header p =
     \<lparr>rh_api_key = mc_read_int16_be p 0, rh_api_version = mc_read_int16_be p 2, rh_correlation_id = mc_read_int32_be p 4\<rparr>"

definition client_id_length :: "bytes \<Rightarrow> int" where
  "client_id_length p = sint (mc_read_int16_be p 8)"

lemma client_id_length_append: "10 \<le> length p \<Longrightarrow> client_id_length (p @ r) = client_id_length p"
  by (simp add: client_id_length_def read16_append)

lemma payload_header_append: "10 \<le> length p \<Longrightarrow> payload_header (p @ r) = payload_header p"
  by (simp add: payload_header_def read16_append read32_append)

lemma decode_cases:
  "decode_request_header (Some d) sz out =
     (if sz < 10 then (null_view, out)
      else (if client_id_length d < - 1 \<or> 512 < client_id_length d \<or> sz \<le> 10 + nat (client_id_length d) then null_view
            else \<lparr>bv_data = Some (drop (10 + nat (client_id_length d)) d), bv_size = sz - (10 + nat (client_id_length d))\<rparr>,
            payload_header d))"
  by (cases out) (auto simp: decode_request_header_def read_compact_string_def codec_constants Let_def
      client_id_length_def payload_header_def nat_add_distrib numeral_eq_Suc)

lemma decode_wire:
  assumes "length cid \<le> 512"
  shows "decode_request_header (Some (be16 k @ be16 v @ be32 c @ be16 (word_of_nat (length cid)) @ cid @ b @ rest))
      (10 + length cid + length b) out =
    (if b = [] then null_view else \<lparr>bv_data = Some (b @ rest), bv_size = length b\<rparr>,
     \<lparr>rh_api_key = k, rh_api_version = v, rh_correlation_id = c\<rparr>)"
proof -
  let ?l = "word_of_nat (length cid) :: 16 word"
  let ?d = "be16 k @ be16 v @ be32 c @ be16 ?l @ cid @ b @ rest"
  have "client_id_length ?d = int (length cid)"
    using read_be16 [of "be16 k @ be16 v @ be32 c" 8 ?l "cid @ b @ rest"] sint_of_nat_small [where 'a = 16, of "length cid"] assms
    by (simp add: client_id_length_def)
  moreover have "payload_header ?d = \<lparr>rh_api_key = k, rh_api_version = v, rh_correlation_id = c\<rparr>"
    using read_be16 [of "[]" 0 k] read_be16 [of "be16 k" 2 v] read_be32 [of "be16 k @ be16 v" 4 c]
    by (simp add: payload_header_def)
  moreover have "drop (10 + length cid) ?d = b @ rest" by simp
  ultimately show ?thesis using assms by (simp add: decode_cases)
qed

lemma peek_frame_size_wire:
  "4 \<le> n \<Longrightarrow> int n \<le> kMaxFrameSize \<Longrightarrow> 4 \<le> sz \<Longrightarrow> peek_frame_size (Some (be32 (word_of_nat n) @ r)) sz = int n"
  using read_be32 [of "[]" 0 "word_of_nat n" r] payload_size_read [of n]
  by (simp add: peek_frame_size_def kFrameLengthSize_def)

section \<open>Properties\<close>

text \<open>
  C19: a request survives the wire. With a client id of at most 512 bytes and a body that fits the
  frame limit, the frame announces its own length, whatever follows it in the stream, and decoding
  its payload gives back the api key, the version, the correlation id and exactly the body, which
  ends where the frame ends; the correlation id can also be peeked. An empty body comes back as the null view.
\<close>

theorem request_round_trip:
  assumes "length cid \<le> 512" "10 + length cid + length b \<le> nat kMaxFrameSize"
  shows "let f = encode_request k v c cid \<lparr>bv_data = Some b, bv_size = length b\<rparr>; stream = f @ rest
    in length f = 14 + length cid + length b \<and>
       peek_frame_size (Some stream) (length stream) = int (length f) - 4 \<and>
       peek_correlation_id (Some (drop 4 stream)) (length f - 4) = sint c \<and>
       decode_request_header (Some (drop 4 stream)) (length f - 4) out =
         (if b = [] then null_view else \<lparr>bv_data = Some (b @ rest), bv_size = length b\<rparr>,
          \<lparr>rh_api_key = k, rh_api_version = v, rh_correlation_id = c\<rparr>)"
proof -
  let ?n = "10 + length cid + length b"
  have fits: "int ?n \<le> kMaxFrameSize" using assms(2) by (simp add: codec_constants)
  have f: "encode_request k v c cid \<lparr>bv_data = Some b, bv_size = length b\<rparr> =
      be32 (word_of_nat ?n) @ be16 k @ be16 v @ be32 c @ be16 (word_of_nat (length cid)) @ cid @ b"
    using assms(1) fits by (subst encode_request_wire [where d = b]) simp_all
  show ?thesis
    unfolding f Let_def append_assoc
    using peek_frame_size_wire [OF _ fits] decode_wire [OF assms(1), of k v c b rest out]
      read_be32 [of "be16 k @ be16 v" 4 c]
    by (simp add: peek_correlation_id_def add.assoc)
qed

theorem request_round_trip_witness:
  "let f = encode_request 1 2 7 [97, 98] \<lparr>bv_data = Some [5], bv_size = length [5 :: byte]\<rparr>; stream = f @ [9]
    in length f = 14 + length [97, 98 :: byte] + length [5 :: byte] \<and>
       peek_frame_size (Some stream) (length stream) = int (length f) - 4 \<and>
       peek_correlation_id (Some (drop 4 stream)) (length f - 4) = sint (7 :: u32) \<and>
       decode_request_header (Some (drop 4 stream)) (length f - 4) (payload_header []) =
         (if [5] = ([] :: bytes) then null_view else \<lparr>bv_data = Some ([5] @ [9]), bv_size = length [5 :: byte]\<rparr>,
          \<lparr>rh_api_key = 1, rh_api_version = 2, rh_correlation_id = 7\<rparr>)"
  by (rule request_round_trip) (simp_all add: codec_constants)

text \<open>
  The decoder stays inside the payload it was given: its answer does not depend on the bytes
  behind the \<open>length p\<close> readable ones, and a body it returns is a suffix of the payload
  after at least the ten bytes of the header.
\<close>

theorem decode_reads_inside:
  assumes "decode_request_header (Some (p @ rest)) (length p) out = (view, header)"
  shows "snd (decode_request_header (Some p) (length p) out) = header \<and>
    bv_size (fst (decode_request_header (Some p) (length p) out)) = bv_size view \<and>
    (view = null_view \<or>
     bv_data view = Some (drop (length p - bv_size view) p @ rest) \<and> 0 < bv_size view \<and> 10 + bv_size view \<le> length p)"
  using assms
  by (auto simp: decode_cases client_id_length_append payload_header_append null_view_def split: if_splits)

theorem decode_reads_inside_witness:
  "\<exists>view header. decode_request_header (Some ([0, 3, 0, 1, 0, 0, 0, 7, 0, 1, 97, 5] @ [8])) 12 (payload_header []) = (view, header)
     \<and> bv_data view = Some [5, 8] \<and> bv_size view = 1"
  using decode_reads_inside [of "[0, 3, 0, 1, 0, 0, 0, 7, 0, 1, 97, 5]" "[8]" "payload_header []"
      "\<lparr>bv_data = Some [5, 8], bv_size = 1\<rparr>" "payload_header [0, 3, 0, 1, 0, 0, 0, 7, 0, 1, 97, 5]"]
  by (simp add: decode_cases client_id_length_def payload_header_def mc_read_int16_be_def mc_read_int32_be_def)

text \<open>
  Every refusal has its cause. A payload shorter than ten bytes leaves the out-parameters alone;
  any other sets them, and no body is returned exactly when the client id's length is below -1 or above 512, or
  the client id reaches to the end of the payload or beyond it.
\<close>

theorem decode_refusals:
  "(length p < 10 \<longrightarrow> decode_request_header (Some p) (length p) out = (null_view, out)) \<and>
   (10 \<le> length p \<longrightarrow> snd (decode_request_header (Some p) (length p) out) = payload_header p \<and>
     (fst (decode_request_header (Some p) (length p) out) = null_view \<longleftrightarrow>
      client_id_length p < - 1 \<or> 512 < client_id_length p \<or> length p \<le> 10 + nat (client_id_length p)))"
  by (auto simp: decode_cases null_view_def)

theorem decode_refusals_witness:
  "fst (decode_request_header (Some [0, 3, 0, 1, 0, 0, 0, 7, 2, 1, 97, 5]) (length [0, 3, 0, 1, 0, 0, 0, 7, 2, 1, 97, 5 :: byte])
     (payload_header [])) = null_view"
  using decode_refusals [of "[0, 3, 0, 1, 0, 0, 0, 7, 2, 1, 97, 5]" "payload_header []"]
  by (simp add: client_id_length_def mc_read_int16_be_def)

text \<open>
  A client id of 513 to 32767 bytes is encoded without complaint and refused by the decoder,
  which has overwritten the out-parameters it is documented to leave unmodified on an error.
\<close>

theorem long_client_id_refused:
  assumes "512 < length cid" "length cid \<le> 32767" "10 + length cid + length b \<le> nat kMaxFrameSize"
  shows "let f = encode_request k v c cid \<lparr>bv_data = Some b, bv_size = length b\<rparr>
    in length f = 14 + length cid + length b \<and>
       decode_request_header (Some (drop 4 f)) (length f - 4) out =
         (null_view, \<lparr>rh_api_key = k, rh_api_version = v, rh_correlation_id = c\<rparr>)"
proof -
  let ?l = "word_of_nat (length cid) :: 16 word"
  let ?d = "be16 k @ be16 v @ be32 c @ be16 ?l @ cid @ b"
  have f: "encode_request k v c cid \<lparr>bv_data = Some b, bv_size = length b\<rparr> = be32 (word_of_nat (10 + length cid + length b)) @ ?d"
    using assms by (subst encode_request_wire [where d = b]) (simp_all add: codec_constants)
  have "client_id_length ?d = int (length cid)"
    using read_be16 [of "be16 k @ be16 v @ be32 c" 8 ?l "cid @ b"] sint_of_nat_small [where 'a = 16, of "length cid"] assms(2)
    by (simp add: client_id_length_def)
  moreover have "payload_header ?d = \<lparr>rh_api_key = k, rh_api_version = v, rh_correlation_id = c\<rparr>"
    using read_be16 [of "[]" 0 k] read_be16 [of "be16 k" 2 v] read_be32 [of "be16 k @ be16 v" 4 c]
    by (simp add: payload_header_def)
  ultimately show ?thesis unfolding f Let_def using assms(1) by (simp add: decode_cases)
qed

theorem long_client_id_refused_witness:
  "let f = encode_request 1 2 7 (replicate 600 97) \<lparr>bv_data = Some [5], bv_size = length [5 :: byte]\<rparr>
    in length f = 14 + length (replicate 600 (97 :: byte)) + length [5 :: byte] \<and>
       decode_request_header (Some (drop 4 f)) (length f - 4) (payload_header []) =
         (null_view, \<lparr>rh_api_key = 1, rh_api_version = 2, rh_correlation_id = 7\<rparr>)"
  by (rule long_client_id_refused) (simp_all add: codec_constants)

text \<open>
  A response frame announces its length, but \<open>peek_correlation_id\<close> does not find its
  correlation id, which it is meant for: it reads the first four bytes of the body instead, or
  reports -1 for a shorter one.
\<close>

theorem response_correlation_misread:
  assumes "4 + length b \<le> nat kMaxFrameSize"
  shows "let f = encode_response c \<lparr>bv_data = Some b, bv_size = length b\<rparr>
    in peek_frame_size (Some (f @ rest)) (length (f @ rest)) = int (length f) - 4 \<and>
       mc_read_int32_be f 4 = c \<and> drop 8 f = b \<and>
       peek_correlation_id (Some (drop 4 f)) (length f - 4) = (if length b < 4 then - 1 else sint (mc_read_int32_be b 0))"
proof -
  have fits: "int (4 + length b) \<le> kMaxFrameSize" using assms by (simp add: codec_constants)
  have f: "encode_response c \<lparr>bv_data = Some b, bv_size = length b\<rparr> = be32 (word_of_nat (4 + length b)) @ be32 c @ b"
    using fits by (subst encode_response_wire [where d = b]) simp_all
  have "mc_read_int32_be (be32 c @ b) 4 = mc_read_int32_be b 0" if "4 \<le> length b"
    using that by (simp add: mc_read_int32_be_def nth_append numeral_eq_Suc)
  then show ?thesis
    unfolding f Let_def append_assoc
    using peek_frame_size_wire [OF _ fits] read_be32 [of "be32 (word_of_nat (4 + length b))" 4 c b]
    by (simp add: peek_correlation_id_def)
qed

theorem response_correlation_misread_witness:
  "let f = encode_response 7 \<lparr>bv_data = Some [0, 0, 0, 1], bv_size = length [0, 0, 0, 1 :: byte]\<rparr>
    in peek_correlation_id (Some (drop 4 f)) (length f - 4) = 1"
  using response_correlation_misread [of "[0, 0, 0, 1]" 7 "[]"]
  unfolding Let_def by (auto simp: codec_constants mc_read_int32_be_def [of "[0, 0, 0, 1]"])

text \<open>
  The two string writers agree, and what they append is read back, up to 512 bytes: in particular the
  nullable form never writes the length -1 of a null string.
\<close>

lemma append_compact_string_wire:
  "append_compact_string buf s = buf @ be16 (word_of_nat (length s)) @ s"
proof -
  have "mc_write_int16_be (buf @ replicate (2 + length s) 0) (length buf) l = buf @ be16 l @ replicate (length s) 0" for l
    using write_be16 [of buf "length buf" "replicate 2 0" "replicate (length s) 0" l]
    by (simp add: numeral_2_eq_2)
  moreover have "memcpy_at (buf @ be16 l @ replicate (length s) 0) (length buf + 2) s = buf @ be16 l @ s" for l
    using memcpy_over [of "buf @ be16 l" "length buf + 2" "replicate (length s) 0" s "[]"] by simp
  ultimately show ?thesis by (cases "s = []") (simp_all add: append_compact_string_def Let_def)
qed

lemma append_nullable_string_eq: "append_nullable_string buf s = append_compact_string buf s"
  by (simp add: append_nullable_string_def append_compact_string_def)

lemma compact_string_round_trip:
  assumes "length s \<le> 512"
  shows "read_compact_string (append_compact_string buf s @ rest) (length buf + 2 + length s) (length buf) out =
    (2 + int (length s), s)"
  using assms read_be16 [of buf "length buf" "word_of_nat (length s)" "s @ rest"]
    sint_of_nat_small [where 'a = 16, of "length s"]
  by (simp add: read_compact_string_def append_compact_string_wire Let_def kMaxClientIdLength_def)

end
