(* ===== verification/Rate_Limiter.thy ===== *)
theory Rate_Limiter
  imports Interleaving "HOL-Library.Signed_Division"
begin

text \<open>
  \<^verbatim>\<open>rate_limiter\<close> of \<^verbatim>\<open>src/torrent/common/rate_limiter.cpp\<close>: a token bucket. The first part has every
  method as a function for one thread, with the readings of the steady clock (in microseconds) as
  arguments; the second part has the atomic accesses of \<^verbatim>\<open>replenish\<close>, \<^verbatim>\<open>try_consume\<close>, \<^verbatim>\<open>refill\<close>
  and of the timed-out \<^verbatim>\<open>consume_blocking\<close> as steps of threads that interleave. Products and sums
  that can exceed an \<^verbatim>\<open>int64_t\<close> wrap. Logging is left out.
\<close>

section \<open>One thread\<close>

record rate_limiter =
  rl_rate_bps :: int
  rl_burst_bytes :: int
  rl_tokens :: int
  rl_last_refill_us :: int

definition kMinBurstFraction :: int where "kMinBurstFraction = 10"
definition kAbsoluteMinBurst :: int where "kAbsoluteMinBurst = 1024"

definition std_clamp :: "int \<Rightarrow> int \<Rightarrow> int \<Rightarrow> int" where
  "std_clamp v lo hi = (if v < lo then lo else if hi < v then hi else v)"

definition clamp_burst :: "int \<Rightarrow> int \<Rightarrow> int" where
  "clamp_burst rate_bps burst_bytes =
     (if rate_bps \<le> 0 then (if burst_bytes > 0 then burst_bytes else kAbsoluteMinBurst)
      else let min_burst = max (rate_bps div kMinBurstFraction) kAbsoluteMinBurst;
               max_burst = max (wrap64 (rate_bps * 10)) min_burst
           in std_clamp burst_bytes min_burst max_burst)"

definition new_rate_limiter :: "int \<Rightarrow> int \<Rightarrow> int \<Rightarrow> int \<Rightarrow> rate_limiter" where
  "new_rate_limiter rate_bps burst_bytes initial_tokens now =
     (let rate = max 0 rate_bps;
          burst_bytes = (if burst_bytes \<le> 0
            then (if rate > 0 then max (rate div kMinBurstFraction) kAbsoluteMinBurst else kAbsoluteMinBurst)
            else burst_bytes);
          burst_bytes = clamp_burst rate burst_bytes;
          initial_tokens = (if initial_tokens \<le> 0 then burst_bytes else initial_tokens);
          initial_tokens = std_clamp initial_tokens 0 burst_bytes
      in \<lparr>rl_rate_bps = rate, rl_burst_bytes = burst_bytes, rl_tokens = initial_tokens, rl_last_refill_us = now\<rparr>)"

text \<open>The tokens of an interval: the product is exact (128 bits), its quotient is cut to 64 bits.\<close>

definition new_tokens :: "int \<Rightarrow> int \<Rightarrow> int" where
  "new_tokens rate elapsed_us = wrap64 (rate * elapsed_us div 1000000)"

text \<open>One round of the loop that adds tokens; it leaves them when the bucket is at burst level.\<close>

definition add_tokens :: "int \<Rightarrow> int \<Rightarrow> int \<Rightarrow> int" where
  "add_tokens burst n current =
     (let desired = min (wrap64 (current + n)) burst in if desired \<le> current then current else desired)"

definition rl_replenish :: "int \<Rightarrow> rate_limiter \<Rightarrow> rate_limiter" where
  "rl_replenish now s =
     (let rate = rl_rate_bps s
      in if rate \<le> 0 then s\<lparr>rl_last_refill_us := now\<rparr>
      else let elapsed_us = now - rl_last_refill_us s
      in if elapsed_us \<le> 0 then s
      else let n = new_tokens rate elapsed_us
      in if n \<le> 0 then s
      else s\<lparr>rl_tokens := add_tokens (rl_burst_bytes s) n (rl_tokens s), rl_last_refill_us := now\<rparr>)"

definition try_consume :: "int \<Rightarrow> int \<Rightarrow> rate_limiter \<Rightarrow> bool \<times> rate_limiter" where
  "try_consume bytes now s =
     (if bytes \<le> 0 then (True, s)
      else if rl_rate_bps s \<le> 0 then (True, s)
      else let s = rl_replenish now s
      in if bytes \<le> rl_tokens s then (True, s\<lparr>rl_tokens := rl_tokens s - bytes\<rparr>) else (False, s))"

definition can_consume :: "int \<Rightarrow> int \<Rightarrow> rate_limiter \<Rightarrow> bool" where
  "can_consume bytes now s =
     (if bytes \<le> 0 then True
      else if rl_rate_bps s \<le> 0 then True
      else if bytes \<le> rl_tokens s then True
      else let current =
          (if rl_last_refill_us s < now
           then let accumulated = wrap64 (rl_rate_bps s * (now - rl_last_refill_us s)) sdiv 1000000
                in min (wrap64 (rl_tokens s + accumulated)) (rl_burst_bytes s)
           else rl_tokens s)
      in bytes \<le> current)"

text \<open>
  \<^verbatim>\<open>consume_blocking\<close>: \<open>clk k\<close> is the k-th reading of the clock during the call, so that what the
  thread slept shows in the next readings. The loop gets fuel; \<open>None\<close> is a call that still waits. It
  returns the bytes consumed, the limiter, the number of readings and the sleeps it asked for, the
  last one first.
\<close>

definition elapsed_ms :: "int \<Rightarrow> int \<Rightarrow> int" where
  "elapsed_ms start now = (now - start) sdiv 1000"

definition wait_us :: "int \<Rightarrow> int \<Rightarrow> int \<Rightarrow> int \<Rightarrow> int" where
  "wait_us rate deficit timeout_ms remaining_ms =
     (let w = wrap64 (deficit * 1000000) sdiv rate;
          w = (if timeout_ms > 0 then min w (wrap64 (remaining_ms * 1000)) else w)
      in min w 100000)"

fun block_loop :: "nat \<Rightarrow> (nat \<Rightarrow> int) \<Rightarrow> int \<Rightarrow> int \<Rightarrow> int \<Rightarrow> int \<Rightarrow> nat \<Rightarrow> rate_limiter \<Rightarrow> int list
    \<Rightarrow> (int \<times> rate_limiter \<times> nat \<times> int list) option" where
  "block_loop 0 clk start bytes timeout_ms rate k s waits = None"
| "block_loop (Suc fuel) clk start bytes timeout_ms rate k s waits =
     (let (expired, k) = (if timeout_ms > 0 then (elapsed_ms start (clk k) \<ge> timeout_ms, k + 1) else (False, k))
      in if expired
         then let s = rl_replenish (clk k) s;
                  consumed = min (rl_tokens s) bytes;
                  s = (if consumed > 0 then s\<lparr>rl_tokens := rl_tokens s - consumed\<rparr> else s)
              in Some (consumed, s, k + 1, waits)
         else let s = rl_replenish (clk k) s; k = k + 1; current = rl_tokens s
              in if bytes \<le> current
                 then Some (bytes, s\<lparr>rl_tokens := current - bytes\<rparr>, k + 1, waits)
                 else let deficit = bytes - current;
                          (remaining_ms, k) =
                            (if timeout_ms > 0 then (timeout_ms - elapsed_ms start (clk k), k + 1) else (0, k))
                      in if timeout_ms > 0 \<and> remaining_ms \<le> 0
                         then block_loop fuel clk start bytes timeout_ms rate k s waits
                         else block_loop fuel clk start bytes timeout_ms rate k s
                           (wait_us rate deficit timeout_ms remaining_ms # waits))"

definition consume_blocking ::
  "nat \<Rightarrow> (nat \<Rightarrow> int) \<Rightarrow> int \<Rightarrow> int \<Rightarrow> rate_limiter \<Rightarrow> (int \<times> rate_limiter \<times> nat \<times> int list) option" where
  "consume_blocking fuel clk bytes timeout_ms s =
     (if bytes \<le> 0 then Some (0, s, 0, [])
      else let rate = rl_rate_bps s
      in if rate \<le> 0 then Some (bytes, s, 0, [])
      else let (ok, s) = try_consume bytes (clk 0) s
      in if ok then Some (bytes, s, 1, [])
         else block_loop fuel clk (clk 1) bytes timeout_ms rate 2 s [])"

definition set_rate :: "int \<Rightarrow> rate_limiter \<Rightarrow> rate_limiter" where
  "set_rate new_rate_bps s =
     (let clamped = max 0 new_rate_bps; old = rl_rate_bps s; s = s\<lparr>rl_rate_bps := clamped\<rparr>;
          new_burst = clamp_burst clamped (rl_burst_bytes s);
          s = (if new_burst \<noteq> rl_burst_bytes s then s\<lparr>rl_burst_bytes := new_burst\<rparr> else s)
      in if clamped = 0 \<and> old > 0 then s\<lparr>rl_tokens := new_burst\<rparr> else s)"

definition set_burst :: "int \<Rightarrow> rate_limiter \<Rightarrow> rate_limiter" where
  "set_burst new_burst_bytes s =
     (let clamped = clamp_burst (rl_rate_bps s) new_burst_bytes; old = rl_burst_bytes s;
          s = s\<lparr>rl_burst_bytes := clamped\<rparr>
      in if clamped < old \<and> clamped < rl_tokens s then s\<lparr>rl_tokens := clamped\<rparr> else s)"

definition refill :: "int \<Rightarrow> rate_limiter \<Rightarrow> rate_limiter" where
  "refill n s =
     (if n \<le> 0 then s else s\<lparr>rl_tokens := min (wrap64 (rl_tokens s + n)) (rl_burst_bytes s)\<rparr>)"

definition rl_reset :: "int \<Rightarrow> rate_limiter \<Rightarrow> rate_limiter" where
  "rl_reset now s = s\<lparr>rl_tokens := rl_burst_bytes s, rl_last_refill_us := now\<rparr>"

definition ms_since_last_refill :: "int \<Rightarrow> rate_limiter \<Rightarrow> int" where
  "ms_since_last_refill now s =
     (if now \<le> rl_last_refill_us s then 0 else (now - rl_last_refill_us s) sdiv 1000)"

definition available_tokens :: "rate_limiter \<Rightarrow> int" where "available_tokens s = rl_tokens s"
definition is_enabled :: "rate_limiter \<Rightarrow> bool" where "is_enabled s \<longleftrightarrow> rl_rate_bps s > 0"

section \<open>Bounds of one thread\<close>

text \<open>The parameters and the tokens of a limiter fit their type, and the bucket holds at most the burst.\<close>

definition rl_ok :: "rate_limiter \<Rightarrow> bool" where
  "rl_ok s \<longleftrightarrow> 0 \<le> rl_rate_bps s \<and> 0 < rl_burst_bytes s \<and> rl_burst_bytes s < 2 ^ 63 \<and>
     0 \<le> rl_tokens s \<and> rl_tokens s \<le> rl_burst_bytes s"

lemma std_clamp_bounds: "lo \<le> hi \<Longrightarrow> lo \<le> std_clamp v lo hi \<and> std_clamp v lo hi \<le> hi"
  by (simp add: std_clamp_def)

lemma clamp_burst_bounds:
  assumes "rate < 2 ^ 63" "burst < 2 ^ 63"
  shows "0 < clamp_burst rate burst \<and> clamp_burst rate burst < 2 ^ 63"
proof (cases "0 < rate")
  case True
  let ?lo = "max (rate div 10) 1024"
  have "rate div 10 \<le> rate" using True by linarith
  then have "max (wrap64 (rate * 10)) ?lo < 2 ^ 63" using assms wrap64_range(2) [of "rate * 10"] by simp
  moreover note std_clamp_bounds [of ?lo "max (wrap64 (rate * 10)) ?lo" burst]
  moreover have "clamp_burst rate burst = std_clamp burst ?lo (max (wrap64 (rate * 10)) ?lo)"
    using True by (simp add: clamp_burst_def Let_def kMinBurstFraction_def kAbsoluteMinBurst_def)
  moreover have "0 < ?lo" by simp
  ultimately show ?thesis by linarith
qed (use assms in \<open>simp add: clamp_burst_def kAbsoluteMinBurst_def\<close>)

lemma new_rate_limiter_ok: "rate < 2 ^ 63 \<Longrightarrow> burst < 2 ^ 63 \<Longrightarrow> rl_ok (new_rate_limiter rate burst tokens now)"
proof -
  assume a: "rate < 2 ^ 63" "burst < 2 ^ 63"
  let ?r = "max 0 rate"
  define b where "b = (if burst \<le> 0 then (if ?r > 0 then max (?r div kMinBurstFraction) kAbsoluteMinBurst else kAbsoluteMinBurst) else burst)"
  have "max 0 rate div 10 \<le> max 0 rate" by linarith
  then have "b < 2 ^ 63" using a by (auto simp: b_def kMinBurstFraction_def kAbsoluteMinBurst_def)
  then have "0 < clamp_burst ?r b \<and> clamp_burst ?r b < 2 ^ 63" using a by (intro clamp_burst_bounds) auto
  then show ?thesis
    using std_clamp_bounds [of 0 "clamp_burst ?r b"]
    unfolding rl_ok_def new_rate_limiter_def Let_def b_def [symmetric] by auto
qed

lemma add_tokens_ge: "current \<le> add_tokens burst n current"
  by (auto simp: add_tokens_def Let_def)

lemma add_tokens_le: "0 \<le> current \<Longrightarrow> 0 \<le> n \<Longrightarrow> add_tokens burst n current \<le> current + n"
  using wrap64_le [of "current + n"] by (auto simp: add_tokens_def Let_def)

lemma add_tokens_burst: "current \<le> burst \<Longrightarrow> add_tokens burst n current \<le> burst"
  by (simp add: add_tokens_def Let_def)

lemma add_tokens_exact:
  "0 \<le> current \<Longrightarrow> 0 \<le> n \<Longrightarrow> current + n < 2 ^ 63 \<Longrightarrow> current \<le> burst \<Longrightarrow>
   add_tokens burst n current = min (current + n) burst"
  by (auto simp: add_tokens_def Let_def wrap64_small)

lemma new_tokens_scaled:
  assumes "0 \<le> rate" "0 \<le> elapsed"
  shows "1000000 * new_tokens rate elapsed \<le> rate * elapsed"
proof -
  have "new_tokens rate elapsed \<le> rate * elapsed div 1000000"
    unfolding new_tokens_def
  proof (rule wrap64_le)
    have "0 \<le> rate * elapsed div 1000000" using assms by (intro pos_imp_zdiv_nonneg_iff [THEN iffD2]) simp_all
    then show "- (2 ^ 63) \<le> rate * elapsed div 1000000" by (rule order_trans [rotated]) simp
  qed
  then have "1000000 * new_tokens rate elapsed \<le> 1000000 * (rate * elapsed div 1000000)" by simp
  also have "\<dots> \<le> rate * elapsed" by linarith
  finally show ?thesis .
qed

lemma rl_replenish_frame [frame, simp]:
  "rl_rate_bps (rl_replenish now s) = rl_rate_bps s" "rl_burst_bytes (rl_replenish now s) = rl_burst_bytes s"
  by (simp_all add: rl_replenish_def Let_def)

lemma rl_replenish_ok: "rl_ok s \<Longrightarrow> rl_ok (rl_replenish now s)"
  using add_tokens_ge add_tokens_burst by (auto simp: rl_ok_def rl_replenish_def Let_def intro: order_trans)

lemma rl_replenish_ge: "rl_tokens s \<le> rl_tokens (rl_replenish now s)"
  by (simp add: rl_replenish_def Let_def add_tokens_ge)

lemma take_ok: "rl_ok s \<Longrightarrow> 0 \<le> b \<Longrightarrow> b \<le> rl_tokens s \<Longrightarrow> rl_ok (s\<lparr>rl_tokens := rl_tokens s - b\<rparr>)"
  by (simp add: rl_ok_def)

text \<open>
  The balance of a limiter in millionths of a token: what is in the bucket less what the rate has
  paid out up to the last refill. No refill by time raises it; taking \<open>b\<close> tokens lowers it by \<open>b\<close>.
\<close>

definition balance :: "rate_limiter \<Rightarrow> int" where
  "balance s = 1000000 * rl_tokens s - rl_rate_bps s * rl_last_refill_us s"

lemma balance_take: "balance (s\<lparr>rl_tokens := rl_tokens s - b\<rparr>) = balance s - 1000000 * b"
  by (simp add: balance_def)

lemma balance_replenish:
  assumes "rl_ok s" "0 < rl_rate_bps s"
  shows "balance (rl_replenish now s) \<le> balance s"
proof (cases "now - rl_last_refill_us s \<le> 0 \<or> new_tokens (rl_rate_bps s) (now - rl_last_refill_us s) \<le> 0")
  case True
  then show ?thesis using assms by (auto simp: rl_replenish_def Let_def)
next
  case False
  let ?n = "new_tokens (rl_rate_bps s) (now - rl_last_refill_us s)"
  have "rl_tokens (rl_replenish now s) \<le> rl_tokens s + ?n" "rl_last_refill_us (rl_replenish now s) = now"
    using False assms add_tokens_le [of "rl_tokens s" ?n "rl_burst_bytes s"] by (auto simp: rl_replenish_def Let_def rl_ok_def)
  moreover have "1000000 * ?n \<le> rl_rate_bps s * (now - rl_last_refill_us s)"
    using False assms(2) by (intro new_tokens_scaled) auto
  ultimately show ?thesis by (simp add: balance_def algebra_simps)
qed

lemma replenish_last: "rl_last_refill_us (rl_replenish now s) \<le> max (rl_last_refill_us s) now"
  by (auto simp: rl_replenish_def Let_def)

text \<open>
  What a call may do to the limiter: \<open>b\<close> bytes taken and \<open>g\<close> tokens given by hand, with clock
  readings up to \<open>t\<close>.
\<close>

definition accounted :: "int \<Rightarrow> int \<Rightarrow> int \<Rightarrow> rate_limiter \<Rightarrow> rate_limiter \<Rightarrow> bool" where
  "accounted t b g s s' \<longleftrightarrow> rl_ok s' \<and> rl_rate_bps s' = rl_rate_bps s \<and>
     rl_last_refill_us s' \<le> max (rl_last_refill_us s) t \<and> balance s' + 1000000 * b \<le> balance s + 1000000 * g"

lemma accounted_refl: "rl_ok s \<Longrightarrow> accounted t 0 0 s s"
  by (simp add: accounted_def)

lemma accounted_trans:
  "accounted t b g s s' \<Longrightarrow> accounted t b' g' s' s'' \<Longrightarrow> accounted t (b + b') (g + g') s s''"
  by (auto simp: accounted_def)

lemma accounted_replenish:
  "rl_ok s \<Longrightarrow> 0 < rl_rate_bps s \<Longrightarrow> now \<le> t \<Longrightarrow> accounted t 0 0 s (rl_replenish now s)"
  using balance_replenish [of s now] replenish_last [of now s] by (auto simp: accounted_def rl_replenish_ok)

lemma accounted_take:
  "accounted t 0 0 s s' \<Longrightarrow> 0 \<le> b \<Longrightarrow> b \<le> rl_tokens s' \<Longrightarrow>
   accounted t b 0 s (s'\<lparr>rl_tokens := rl_tokens s' - b\<rparr>)"
  by (simp add: accounted_def take_ok balance_take)

lemma accounted_try:
  assumes "rl_ok s" "0 < rl_rate_bps s" "now \<le> t" "try_consume b now s = (r, s')"
  shows "accounted t (if r then max 0 b else 0) 0 s s'"
proof (cases "b \<le> 0")
  case True
  then show ?thesis using assms by (auto simp: try_consume_def accounted_refl)
next
  case False
  then show ?thesis
    using assms accounted_replenish [OF assms(1-3)]
      accounted_take [OF accounted_replenish [OF assms(1-3)], of b] by (auto simp: try_consume_def Let_def split: if_splits)
qed

lemma block_loop_cases:
  assumes "block_loop (Suc fuel) clk start b timeout_ms rate k s waits = Some r"
  obtains (expired) s1 c k' where "s1 = rl_replenish (clk (k + 1)) s" "c = min (rl_tokens s1) b"
      "r = (c, if c > 0 then s1\<lparr>rl_tokens := rl_tokens s1 - c\<rparr> else s1, k', waits)"
    | (taken) s1 k1 k' where "s1 = rl_replenish (clk k1) s" "b \<le> rl_tokens s1"
      "r = (b, s1\<lparr>rl_tokens := rl_tokens s1 - b\<rparr>, k', waits)"
    | (again) s1 k1 k' waits' where "s1 = rl_replenish (clk k1) s" "\<not> b \<le> rl_tokens s1"
      "block_loop fuel clk start b timeout_ms rate k' s1 waits' = Some r"
  using assms unfolding block_loop.simps Let_def by (auto split: if_splits)

lemma accounted_block_loop:
  assumes "block_loop fuel clk start b timeout_ms rate k s waits = Some (c, s', k', waits')"
    "rl_ok s" "0 < rl_rate_bps s" "\<forall>k. clk k \<le> t" "0 < b"
  shows "accounted t (max 0 c) 0 s s' \<and> c \<le> b"
  using assms(1-3)
proof (induction fuel arbitrary: k s waits)
  case (Suc fuel)
  have acc: "accounted t 0 0 s (rl_replenish (clk j) s)" for j
    using Suc.prems(2,3) assms(4) by (intro accounted_replenish) auto
  from Suc.prems(1) show ?case
  proof (cases rule: block_loop_cases)
    case (expired s1 c1 k1)
    then have "accounted t 0 0 s s1" using acc by simp
    then show ?thesis using expired accounted_take [of t s s1 c1] by auto
  next
    case (taken s1 k1)
    then show ?thesis using acc [of k1] accounted_take [of t s s1 b] assms(5) by auto
  next
    case (again s1 k1 k2 w)
    then have a: "accounted t 0 0 s s1" using acc by simp
    then have "accounted t (max 0 c) 0 s1 s' \<and> c \<le> b"
      using Suc.prems(3) by (intro Suc.IH [OF again(3)]) (auto simp: accounted_def)
    then show ?thesis using accounted_trans [OF a] by fastforce
  qed
qed simp

lemma accounted_refill: "rl_ok s \<Longrightarrow> n < 2 ^ 62 \<Longrightarrow> rl_burst_bytes s \<le> 2 ^ 62 \<Longrightarrow> accounted t 0 (max 0 n) s (refill n s)"
  by (auto simp: accounted_def rl_ok_def refill_def wrap64_small balance_def min_def)

section \<open>Sequences of calls\<close>

datatype rl_call = CTry int int | CBlock nat "nat \<Rightarrow> int" int int | CRefill int

text \<open>A call, with the bytes it consumed and the tokens it was given; \<open>None\<close> when it does not return.\<close>

fun rl_do :: "rl_call \<Rightarrow> rate_limiter \<Rightarrow> (int \<times> int \<times> rate_limiter) option" where
  "rl_do (CTry b now) s = (let (r, s') = try_consume b now s in Some (if r then max 0 b else 0, 0, s'))"
| "rl_do (CBlock fuel clk b timeout_ms) s =
     map_option (\<lambda>(c, s', _). (max 0 c, 0, s')) (consume_blocking fuel clk b timeout_ms s)"
| "rl_do (CRefill n) s = Some (0, max 0 n, refill n s)"

fun rl_run :: "rl_call list \<Rightarrow> rate_limiter \<Rightarrow> (int \<times> int \<times> rate_limiter) option" where
  "rl_run [] s = Some (0, 0, s)"
| "rl_run (c # cs) s =
     (case rl_do c s of None \<Rightarrow> None
      | Some (b, g, s') \<Rightarrow> map_option (\<lambda>(b', g', s''). (b + b', g + g', s'')) (rl_run cs s'))"

fun call_within :: "int \<Rightarrow> rl_call \<Rightarrow> bool" where
  "call_within t (CTry b now) \<longleftrightarrow> now \<le> t"
| "call_within t (CBlock fuel clk b timeout_ms) \<longleftrightarrow> (\<forall>k. clk k \<le> t)"
| "call_within t (CRefill n) \<longleftrightarrow> n < 2 ^ 62"

lemma burst_try: "try_consume b now s = (r, s') \<Longrightarrow> rl_burst_bytes s' = rl_burst_bytes s"
  by (auto simp: try_consume_def Let_def split: if_splits)

lemma burst_block:
  "block_loop fuel clk start b timeout_ms rate k s waits = Some (c, s', k', waits') \<Longrightarrow> rl_burst_bytes s' = rl_burst_bytes s"
proof (induction fuel arbitrary: k s waits)
  case (Suc fuel)
  from Suc.prems show ?case by (cases rule: block_loop_cases) (auto dest: Suc.IH split: if_splits)
qed simp

lemma accounted_do:
  assumes "rl_do c s = Some (b, g, s')" "rl_ok s" "0 < rl_rate_bps s" "rl_burst_bytes s \<le> 2 ^ 62" "call_within t c"
  shows "accounted t b g s s' \<and> rl_burst_bytes s' = rl_burst_bytes s"
proof (cases c)
  case (CTry n now)
  then show ?thesis using assms by (auto split: prod.splits dest: accounted_try burst_try)
next
  case (CRefill n)
  then show ?thesis using assms by (auto simp: accounted_refill) (simp add: refill_def)
next
  case (CBlock fuel clk n timeout_ms)
  then obtain c' k w where cb: "consume_blocking fuel clk n timeout_ms s = Some (c', s', k, w)" "b = max 0 c'" "g = 0"
    using assms(1) by auto
  show ?thesis
  proof (cases "n \<le> 0")
    case True
    then show ?thesis using cb assms by (auto simp: consume_blocking_def accounted_refl)
  next
    case False
    obtain r s1 where tr: "try_consume n (clk 0) s = (r, s1)" by fastforce
    have a: "accounted t (if r then max 0 n else 0) 0 s s1" "rl_burst_bytes s1 = rl_burst_bytes s"
      using accounted_try [OF assms(2,3) _ tr, of t] burst_try [OF tr] assms(5) CBlock by auto
    show ?thesis
    proof (cases r)
      case True
      then show ?thesis using a cb tr False assms by (simp add: consume_blocking_def Let_def)
    next
      case no: False
      then have bl: "block_loop fuel clk (clk 1) n timeout_ms (rl_rate_bps s) 2 s1 [] = Some (c', s', k, w)"
        using cb tr False assms(3) by (simp add: consume_blocking_def Let_def)
      have "accounted t (max 0 c') 0 s1 s'"
        using accounted_block_loop [OF bl, of t] a no assms(3,5) CBlock False by (auto simp: accounted_def)
      then show ?thesis using accounted_trans [of t 0 0 s s1 "max 0 c'" 0 s'] a no cb burst_block [OF bl] by auto
    qed
  qed
qed

lemma accounted_run:
  assumes "rl_run cs s = Some (b, g, s')" "rl_ok s" "0 < rl_rate_bps s" "rl_burst_bytes s \<le> 2 ^ 62" "list_all (call_within t) cs"
  shows "accounted t b g s s'"
  using assms
proof (induction cs arbitrary: s b g)
  case (Cons c cs)
  then obtain b1 g1 s1 b2 g2 where 1: "rl_do c s = Some (b1, g1, s1)" "rl_run cs s1 = Some (b2, g2, s')"
    "b = b1 + b2" "g = g1 + g2" by (auto split: option.splits)
  have "accounted t b1 g1 s s1 \<and> rl_burst_bytes s1 = rl_burst_bytes s"
    using Cons.prems 1(1) by (intro accounted_do [OF 1(1)]) auto
  moreover from this have "accounted t b2 g2 s1 s'"
    using Cons.prems by (intro Cons.IH [OF 1(2)]) (auto simp: accounted_def)
  ultimately show ?case using accounted_trans 1(3,4) by blast
qed (simp add: accounted_refl)

section \<open>Properties of one thread\<close>

text \<open>
  C20: the limiter keeps its rate. However one thread mixes \<^verbatim>\<open>try_consume\<close> calls, \<^verbatim>\<open>consume_blocking\<close>
  calls with any timeout and \<^verbatim>\<open>refill\<close> calls, at any clock readings up to \<open>t\<close>, the bytes it got
  are at most the tokens at the start, the tokens returned by hand and rate times the time since
  the first refill stamp; the bucket never holds more than the burst, and all this although products and
  sums of the code wrap at 64 bits.
\<close>

theorem bandwidth_bound:
  assumes "rl_ok s" "0 < rl_rate_bps s" "rl_burst_bytes s \<le> 2 ^ 62" "rl_last_refill_us s \<le> t"
    "list_all (call_within t) cs" "rl_run cs s = Some (consumed, given, s')"
  shows "1000000 * consumed \<le> 1000000 * (rl_tokens s + given) + rl_rate_bps s * (t - rl_last_refill_us s) \<and>
    0 \<le> rl_tokens s' \<and> rl_tokens s' \<le> rl_burst_bytes s'"
proof -
  have a: "accounted t consumed given s s'" using assms by (intro accounted_run)
  then have "rl_rate_bps s * rl_last_refill_us s' \<le> rl_rate_bps s * t"
    using assms(2,4) by (intro mult_left_mono) (auto simp: accounted_def)
  then show ?thesis using a by (auto simp: accounted_def balance_def rl_ok_def algebra_simps)
qed

theorem bandwidth_bound_witness:
  "\<exists>consumed given s'. rl_run [CTry 1024 0, CTry 500 400000, CRefill 100] (new_rate_limiter 1000 0 0 0) = Some (consumed, given, s') \<and>
    1000000 * consumed \<le> 1000000 * (1024 + given) + 1000 * 400000"
proof -
  let ?s = "new_rate_limiter 1000 0 0 0" and ?cs = "[CTry 1024 0, CTry 500 400000, CRefill 100]"
  have s: "?s = \<lparr>rl_rate_bps = 1000, rl_burst_bytes = 1024, rl_tokens = 1024, rl_last_refill_us = 0\<rparr>" by code_simp
  have "rl_run ?cs ?s \<noteq> None" by (simp split: prod.splits option.splits)
  then obtain c g s' where r: "rl_run ?cs ?s = Some (c, g, s')" by auto
  show ?thesis
    using bandwidth_bound [of ?s 400000 ?cs c g s'] r by (auto simp: s rl_ok_def)
qed

section \<open>Waiting\<close>

lemma new_tokens_exact: "0 \<le> rate * e \<Longrightarrow> rate * e \<le> 2 ^ 62 \<Longrightarrow> new_tokens rate e = rate * e div 1000000"
  unfolding new_tokens_def
proof (rule wrap64_small)
  assume a: "0 \<le> rate * e" "rate * e \<le> 2 ^ 62"
  then have q: "0 \<le> rate * e div 1000000" "rate * e div 1000000 \<le> rate * e" by linarith+
  show "- (2 ^ 63) \<le> rate * e div 1000000" by (rule order_trans [OF _ q(1)]) simp
  show "rate * e div 1000000 < 2 ^ 63" using order_trans [OF q(2) a(2)] by simp
qed

lemma loop_untimed:
  "timeout_ms \<le> 0 \<Longrightarrow> block_loop (Suc fuel) clk start b timeout_ms rate k s w =
     (let s1 = rl_replenish (clk k) s
      in if b \<le> rl_tokens s1 then Some (b, s1\<lparr>rl_tokens := rl_tokens s1 - b\<rparr>, k + 2, w)
         else block_loop fuel clk start b timeout_ms rate (k + 1) s1 (wait_us rate (b - rl_tokens s1) timeout_ms 0 # w))"
  by (simp add: Let_def)

text \<open>A replenishment either leaves the limiter, the interval being worth less than a token, or adds a token.\<close>

lemma replenish_progress:
  assumes "rl_ok s" "0 < rl_rate_bps s" "rl_burst_bytes s \<le> 2 ^ 62" "rl_last_refill_us s \<le> now"
    "rl_rate_bps s * (now - rl_last_refill_us s) \<le> 2 ^ 62" "rl_tokens s < rl_burst_bytes s"
  obtains (none) "rl_replenish now s = s" "rl_rate_bps s * (now - rl_last_refill_us s) < 1000000"
    | (more) "rl_tokens s < rl_tokens (rl_replenish now s)" "rl_last_refill_us (rl_replenish now s) = now"
proof -
  let ?e = "now - rl_last_refill_us s"
  have pos: "0 \<le> rl_rate_bps s * ?e" using assms(2,4) by simp
  have n: "new_tokens (rl_rate_bps s) ?e = rl_rate_bps s * ?e div 1000000"
    by (rule new_tokens_exact [OF pos assms(5)])
  show thesis
  proof (cases "rl_rate_bps s * ?e < 1000000")
    case True
    then have "rl_rate_bps s * ?e div 1000000 = 0" using pos by simp
    then show ?thesis using True none assms(2) n by (simp add: rl_replenish_def Let_def)
  next
    case False
    then have n1: "1 \<le> rl_rate_bps s * ?e div 1000000" by linarith
    have "rl_rate_bps s * ?e div 1000000 < 2 ^ 62" using assms(5) n1 by linarith
    then have "add_tokens (rl_burst_bytes s) (rl_rate_bps s * ?e div 1000000) (rl_tokens s) =
        min (rl_tokens s + rl_rate_bps s * ?e div 1000000) (rl_burst_bytes s)"
      using assms(1,3,6) n1 by (intro add_tokens_exact) (auto simp: rl_ok_def)
    moreover have "?e \<noteq> 0" "\<not> ?e \<le> 0" using False assms(4) by auto
    ultimately show ?thesis using more assms(2,6) n n1 by (simp add: rl_replenish_def Let_def min_def)
  qed
qed

lemma loop_returns:
  assumes clk: "\<And>k. clk k \<le> clk (Suc k)" "\<And>k. rate * (clk (Suc k) - clk k) \<le> 2 ^ 61" "\<And>T. \<exists>k. T \<le> clk k"
    and b: "0 < rate" "b \<le> burst" "burst \<le> 2 ^ 62" "timeout_ms \<le> 0"
  shows "rl_ok s \<Longrightarrow> rl_rate_bps s = rate \<Longrightarrow> rl_burst_bytes s = burst \<Longrightarrow> rl_last_refill_us s \<le> clk k \<Longrightarrow>
    rate * (clk k - rl_last_refill_us s) \<le> 2 ^ 62 \<Longrightarrow> rl_tokens s < b \<Longrightarrow>
    \<exists>fuel s' k' w'. block_loop fuel clk start b timeout_ms r k s w = Some (b, s', k', w')"
proof (induction "nat (b - rl_tokens s)" arbitrary: s k w rule: less_induct)
  case less
  let ?last = "rl_last_refill_us s"
  let ?returns = "\<lambda>s k w. \<exists>fuel s' k' w'. block_loop fuel clk start b timeout_ms r k s w = Some (b, s', k', w')"
  have next_gap: "rate * (clk (Suc k) - l) \<le> 2 ^ 62" if "rate * (clk k - l) < 1000000" for k l
    using clk(2) [of k] that by (simp add: algebra_simps)
  have one: "?returns s k w \<or> rate * (clk k - ?last) < 1000000 \<and> rl_replenish (clk k) s = s"
    if k: "?last \<le> clk k" "rate * (clk k - ?last) \<le> 2 ^ 62" for k w
  proof -
    from less.prems b k have "rl_ok s" "0 < rl_rate_bps s" "rl_burst_bytes s \<le> 2 ^ 62" "?last \<le> clk k"
      "rl_rate_bps s * (clk k - ?last) \<le> 2 ^ 62" "rl_tokens s < rl_burst_bytes s" by auto
    then show ?thesis
    proof (cases rule: replenish_progress)
      case more
      let ?s = "rl_replenish (clk k) s" and ?w = "wait_us r (b - rl_tokens (rl_replenish (clk k) s)) timeout_ms 0 # w"
      show ?thesis
      proof (cases "b \<le> rl_tokens ?s")
        case True
        then have "block_loop (Suc 0) clk start b timeout_ms r k s w = Some (b, ?s\<lparr>rl_tokens := rl_tokens ?s - b\<rparr>, k + 2, w)"
          using loop_untimed [OF b(4), of 0] by (simp add: Let_def)
        then show ?thesis by blast
      next
        case False
        have "rate * (clk k - clk k) < 1000000" by simp
        then have "?returns ?s (Suc k) ?w"
          using more False less.prems clk(1) [of k] next_gap [of k "clk k"]
          by (intro less.hyps) (auto simp: rl_replenish_ok)
        then obtain fuel s' k' w' where "block_loop fuel clk start b timeout_ms r (Suc k) ?s ?w = Some (b, s', k', w')" by blast
        then have "block_loop (Suc fuel) clk start b timeout_ms r k s w = Some (b, s', k', w')"
          using loop_untimed [OF b(4), of fuel] False by (simp add: Let_def)
        then show ?thesis by blast
      qed
    qed (use less.prems in auto)
  qed
  obtain K where K: "?last + 1000000 \<le> clk K" using clk(3) by blast
  have late: "\<not> rate * (clk k - ?last) < 1000000" if "K \<le> k" for k
  proof -
    have "1000000 \<le> clk k - ?last" using K lift_Suc_mono_le [of clk, OF clk(1) that] by linarith
    then have "rate * 1000000 \<le> rate * (clk k - ?last)" using b(1) by (intro mult_left_mono) auto
    then show ?thesis using b(1) by linarith
  qed
  show ?case
    using less.prems(4,5)
  proof (induction "K - k" arbitrary: k w)
    case 0
    then show ?case using one [of k w] late [of k] by auto
  next
    case (Suc m)
    show ?case
    proof (cases "rate * (clk k - ?last) < 1000000 \<and> rl_replenish (clk k) s = s")
      case True
      let ?w = "wait_us r (b - rl_tokens s) timeout_ms 0 # w"
      have "?returns s (Suc k) ?w"
        using True Suc.prems Suc.hyps(2) clk(1) [of k] next_gap [of k ?last] by (intro Suc.hyps(1)) auto
      then obtain fuel s' k' w' where "block_loop fuel clk start b timeout_ms r (Suc k) s ?w = Some (b, s', k', w')" by blast
      then have "block_loop (Suc fuel) clk start b timeout_ms r k s w = Some (b, s', k', w')"
        using loop_untimed [OF b(4), of fuel] True less.prems(6) by (simp add: Let_def)
      then show ?thesis by blast
    qed (use one [of k w] Suc.prems in blast)
  qed
qed

lemma loop_beyond_burst:
  "rl_ok s \<Longrightarrow> rl_burst_bytes s < b \<Longrightarrow> timeout_ms \<le> 0 \<Longrightarrow> block_loop fuel clk start b timeout_ms rate k s w = None"
proof (induction fuel arbitrary: s k w)
  case (Suc fuel)
  then have "rl_ok (rl_replenish (clk k) s)" by (simp add: rl_replenish_ok)
  then show ?case using Suc by (auto simp: loop_untimed Let_def rl_ok_def simp del: block_loop.simps(2))
qed simp

lemma loop_expires:
  assumes "0 < timeout_ms" "\<And>k. K \<le> k \<Longrightarrow> timeout_ms \<le> elapsed_ms start (clk k)"
  shows "K < fuel + k \<Longrightarrow> block_loop fuel clk start b timeout_ms rate k s w \<noteq> None \<or> fuel = 0"
proof (induction fuel arbitrary: s k w)
  case (Suc fuel)
  show ?case
  proof (cases "K \<le> k")
    case True
    then show ?thesis using assms by (simp add: Let_def)
  next
    case False
    then have "0 < fuel" using Suc.prems by simp
    then show ?thesis using Suc.IH Suc.prems assms(1) by (simp add: Let_def)
  qed
qed simp

text \<open>
  C21: indefinite waiting ends. A \<^verbatim>\<open>consume_blocking\<close> without a time limit (a negative timeout) that has the
  limiter to itself and asks for no more than the burst returns, after finitely many
  rounds, with all the bytes it asked for, provided the rate is positive, the tokens are within the
  burst and the burst is at most \<open>2 ^ 62\<close>, the clock never falls and passes every value, in each of its
  steps the rate pays out at most \<open>2 ^ 60\<close> millionths, and since the last refill at most \<open>2 ^ 62\<close>. (A timeout of 0 is documented in
  the header as \<^emph>\<open>no wait\<close>; the code treats it as indefinite, which this statement leaves out.)
\<close>

theorem blocking_returns:
  assumes "\<And>k. clk k \<le> clk (Suc k)" "\<And>k. rl_rate_bps s * (clk (Suc k) - clk k) \<le> 2 ^ 60" "\<And>t. \<exists>k. t \<le> clk k"
    "rl_ok s" "0 < rl_rate_bps s" "0 < bytes" "bytes \<le> rl_burst_bytes s" "rl_burst_bytes s \<le> 2 ^ 62" "timeout_ms < 0"
    "rl_last_refill_us s \<le> clk 0" "rl_rate_bps s * (clk 0 - rl_last_refill_us s) \<le> 2 ^ 62"
  shows "\<exists>fuel s' k waits. consume_blocking fuel clk bytes timeout_ms s = Some (bytes, s', k, waits)"
proof -
  obtain r s1 where tr: "try_consume bytes (clk 0) s = (r, s1)" by fastforce
  show ?thesis
  proof (cases r)
    case True
    then show ?thesis using tr assms(5,6) by (simp add: consume_blocking_def Let_def)
  next
    case False
    then have s1: "s1 = rl_replenish (clk 0) s" "rl_tokens s1 < bytes"
      using tr assms(5,6) by (auto simp: try_consume_def Let_def split: if_splits)
    have ok: "rl_ok s1" "rl_rate_bps s1 = rl_rate_bps s" "rl_burst_bytes s1 = rl_burst_bytes s"
      using assms(4) by (simp_all add: s1 rl_replenish_ok)
    have two: "clk 0 \<le> clk 2" "rl_rate_bps s * (clk 2 - clk 0) \<le> 2 ^ 61"
      using assms(1) [of 0] assms(1) [of 1] assms(2) [of 0] assms(2) [of 1] by (simp_all add: numeral_2_eq_2 algebra_simps)
    have "rl_tokens s < rl_burst_bytes s" using s1 assms(7) rl_replenish_ge [of s "clk 0"] by simp
    with assms(4,5,8,10,11) have "rl_last_refill_us s1 \<le> clk 2 \<and> rl_rate_bps s * (clk 2 - rl_last_refill_us s1) \<le> 2 ^ 62"
    proof (cases rule: replenish_progress [of s "clk 0", consumes 6])
      case none
      then have "rl_rate_bps s * (clk 2 - rl_last_refill_us s) < 2 ^ 61 + 1000000"
        using two(2) by (simp add: algebra_simps)
      then show ?thesis using none two(1) assms(10) s1(1) by simp
    qed (use two s1(1) in simp_all)
    moreover have "rl_rate_bps s * (clk (Suc k) - clk k) \<le> 2 ^ 61" for k using assms(2) [of k] by simp
    moreover have "timeout_ms \<le> 0" using assms(9) by simp
    ultimately obtain fuel s' k' w' where
      "block_loop fuel clk (clk 1) bytes timeout_ms (rl_rate_bps s) 2 s1 [] = Some (bytes, s', k', w')"
      using loop_returns [of clk "rl_rate_bps s" bytes "rl_burst_bytes s" timeout_ms s1 2] assms s1(2) ok by blast
    then show ?thesis using tr False assms(5,6) by (auto simp: consume_blocking_def Let_def)
  qed
qed

theorem blocking_returns_witness:
  "\<exists>fuel s' k waits. consume_blocking fuel (\<lambda>k. 1000 * int k) 5000 (-1)
      \<lparr>rl_rate_bps = 50000, rl_burst_bytes = 5000, rl_tokens = 0, rl_last_refill_us = 0\<rparr> = Some (5000, s', k, waits)"
proof (rule blocking_returns)
  fix t :: int
  have "t \<le> 1000 * int (nat t)" by linarith
  then show "\<exists>k. t \<le> 1000 * int k" by blast
qed (simp_all add: rl_ok_def)

text \<open>
  A request above the burst is never served: without a positive timeout the call waits for ever, whatever the
  clock says. A timeout of 0, which the header documents as \<^emph>\<open>no wait\<close>, is such a wait.
\<close>

theorem blocking_beyond_burst:
  assumes "rl_ok s" "0 < rl_rate_bps s" "rl_burst_bytes s < bytes" "timeout_ms \<le> 0"
  shows "consume_blocking fuel clk bytes timeout_ms s = None"
proof -
  have "rl_ok (rl_replenish (clk 0) s)" using assms(1) by (rule rl_replenish_ok)
  moreover have "0 < bytes" using assms(1,3) by (auto simp: rl_ok_def)
  ultimately show ?thesis
    using assms loop_beyond_burst [of "rl_replenish (clk 0) s" bytes timeout_ms]
    by (auto simp: consume_blocking_def try_consume_def Let_def rl_ok_def)
qed

theorem blocking_beyond_burst_witness:
  "consume_blocking 1000 (\<lambda>k. 1000 * int k) 2000 0 (new_rate_limiter 1000 0 0 0) = None"
proof (rule blocking_beyond_burst)
  show "rl_ok (new_rate_limiter 1000 0 0 0)" by (simp add: new_rate_limiter_ok)
qed (code_simp, code_simp, simp)

text \<open>
  A timeout is kept. Once the clock shows that it has passed, the call returns at its next look at
  the clock, with no more than the bytes asked for, and no sleep it asks for is longer than
  100 ms.
\<close>

lemma waits_bounded:
  "block_loop fuel clk start b timeout_ms rate k s w = Some (c, s', k', w') \<Longrightarrow> list_all (\<lambda>u. u \<le> 100000) w \<Longrightarrow>
   list_all (\<lambda>u. u \<le> 100000) w'"
proof (induction fuel arbitrary: k s w)
  case (Suc fuel)
  have "wait_us rate d timeout_ms m \<le> 100000" for d m by (simp add: wait_us_def Let_def)
  then show ?case using Suc.prems by (auto simp: Let_def split: if_splits intro: Suc.IH)
qed simp

theorem blocking_timeout:
  assumes "0 < timeout_ms" "\<And>k. K \<le> k \<Longrightarrow> timeout_ms \<le> elapsed_ms (clk 1) (clk k)" "rl_ok s" "0 < rl_rate_bps s"
    "\<And>k. clk k \<le> t"
  shows "\<exists>consumed s' k waits. consume_blocking (K + 1) clk bytes timeout_ms s = Some (consumed, s', k, waits) \<and>
    consumed \<le> max 0 bytes \<and> list_all (\<lambda>u. u \<le> 100000) waits"
proof (cases "bytes \<le> 0 \<or> fst (try_consume bytes (clk 0) s)")
  case True
  then show ?thesis using assms(4) by (auto simp: consume_blocking_def Let_def split: prod.splits)
next
  case False
  let ?s = "rl_replenish (clk 0) s"
  have cb: "consume_blocking (K + 1) clk bytes timeout_ms s =
      block_loop (K + 1) clk (clk 1) bytes timeout_ms (rl_rate_bps s) 2 ?s []"
    using False assms(4) by (auto simp: consume_blocking_def try_consume_def Let_def split: if_splits simp del: block_loop.simps)
  obtain c s' k w where r: "block_loop (K + 1) clk (clk 1) bytes timeout_ms (rl_rate_bps s) 2 ?s [] = Some (c, s', k, w)"
    using loop_expires [OF assms(1,2), where fuel = "K + 1" and k = 2] by fastforce
  have "c \<le> bytes" using accounted_block_loop [OF r, of t] assms(3-5) False by (auto simp: rl_replenish_ok)
  then show ?thesis using cb r waits_bounded [OF r] by auto
qed

theorem blocking_timeout_witness:
  "\<exists>consumed s' k waits. consume_blocking (5 + 1) (\<lambda>k. if k < 5 then 0 else 5000) 2000 3 (new_rate_limiter 1000 0 0 0) =
     Some (consumed, s', k, waits) \<and> consumed \<le> max 0 2000 \<and> list_all (\<lambda>u. u \<le> 100000) waits"
proof (rule blocking_timeout [where t = 5000])
  fix k :: nat assume "5 \<le> k"
  then show "3 \<le> elapsed_ms (if (1 :: nat) < 5 then 0 else 5000) (if k < 5 then 0 else 5000)" by (simp add: elapsed_ms_def)
next
  show "rl_ok (new_rate_limiter 1000 0 0 0)" by (simp add: new_rate_limiter_ok)
qed (simp, code_simp, simp)

text \<open>
  \<open>can_consume\<close> answers as \<^verbatim>\<open>try_consume\<close> would, at the same reading of the clock, as long as rate
  times the elapsed time fits 64 bits: unlike \<^verbatim>\<open>replenish\<close> it multiplies without the wider type.
\<close>

theorem can_consume_exact:
  assumes "rl_ok s" "rl_burst_bytes s \<le> 2 ^ 62" "rl_rate_bps s * (now - rl_last_refill_us s) \<le> 2 ^ 62"
  shows "can_consume bytes now s = fst (try_consume bytes now s)"
proof (cases "0 < rl_rate_bps s \<and> rl_last_refill_us s < now \<and> 0 < bytes \<and> rl_tokens s < bytes")
  case False
  then show ?thesis by (auto simp: can_consume_def try_consume_def rl_replenish_def Let_def add_tokens_def split: if_splits)
next
  case True
  let ?p = "rl_rate_bps s * (now - rl_last_refill_us s)"
  have p: "0 \<le> ?p" using True by simp
  have n: "new_tokens (rl_rate_bps s) (now - rl_last_refill_us s) = ?p div 1000000"
    by (rule new_tokens_exact [OF p assms(3)])
  have q: "0 \<le> ?p div 1000000" "?p div 1000000 \<le> 2 ^ 61" using p assms(3) by (simp_all add: pos_imp_zdiv_nonneg_iff)
  have w: "wrap64 ?p = ?p" using p assms(3) by (intro wrap64_small) auto
  have sd: "?p sdiv 1000000 = ?p div 1000000" using p by (simp add: signed_divide_int_def sgn_if)
  have "wrap64 (rl_tokens s + ?p div 1000000) = rl_tokens s + ?p div 1000000"
    using assms(1,2) q by (intro wrap64_small) (auto simp: rl_ok_def)
  then show ?thesis
    using True assms(1) q n
    by (auto simp: can_consume_def try_consume_def rl_replenish_def Let_def w sd add_tokens_def rl_ok_def)
qed

theorem can_consume_exact_witness:
  "can_consume 500 400000 (new_rate_limiter 1000 0 0 0) = fst (try_consume 500 400000 (new_rate_limiter 1000 0 0 0))"
proof (rule can_consume_exact)
  show "rl_ok (new_rate_limiter 1000 0 0 0)" by (simp add: new_rate_limiter_ok)
qed (code_simp, code_simp)

section \<open>Threads\<close>

text \<open>
  The atomics are shared; a program point stands before each access. \<open>rs_clock\<close> is the steady clock,
  which any step may find advanced; \<open>rs_taken\<close> (not in the code) adds up what calls consumed. \<open>r_then\<close>
  says what follows a \<^verbatim>\<open>replenish\<close>: the consuming loop of
  \<^verbatim>\<open>try_consume\<close>, or the timed-out branch of \<^verbatim>\<open>consume_blocking\<close>, which subtracts
  without a compare-and-swap.
\<close>

record rl_shared =
  rs_lim :: rate_limiter
  rs_clock :: int
  rs_taken :: int

datatype rl_then = ThenTake int | ThenTimeout int

datatype rl_pc =
    RIdle int
  | RTryRate int
  | RRate rl_then
  | RBurst rl_then int
  | RNow rl_then int int
  | RLast rl_then int int int
  | RTokens rl_then int int int
  | RCas rl_then int int int int
  | RStamp rl_then int
  | RTake int
  | RTakeCas int int
  | RTimeoutLoad int
  | RTimeoutSub int
  | RRefillBurst int
  | RRefillLoad int int
  | RRefillCas int int int

fun r_then :: "rl_then \<Rightarrow> rl_pc" where
  "r_then (ThenTake b) = RTake b"
| "r_then (ThenTimeout b) = RTimeoutLoad b"

fun rl_step :: "bool \<Rightarrow> rl_shared \<Rightarrow> rl_pc \<Rightarrow> rl_shared \<times> rl_pc" where
  "rl_step ok s (RIdle r) = (s, RIdle r)"
| "rl_step ok s (RTryRate b) =
     (s, if b \<le> 0 then RIdle 0 else if rl_rate_bps (rs_lim s) \<le> 0 then RIdle b else RRate (ThenTake b))"
| "rl_step ok s (RRate a) =
     (let rate = rl_rate_bps (rs_lim s)
      in if rate \<le> 0 then (s\<lparr>rs_lim := (rs_lim s)\<lparr>rl_last_refill_us := rs_clock s\<rparr>\<rparr>, r_then a) else (s, RBurst a rate))"
| "rl_step ok s (RBurst a rate) = (s, RNow a rate (rl_burst_bytes (rs_lim s)))"
| "rl_step ok s (RNow a rate burst) = (s, RLast a rate burst (rs_clock s))"
| "rl_step ok s (RLast a rate burst now) =
     (let elapsed_us = now - rl_last_refill_us (rs_lim s); n = new_tokens rate elapsed_us
      in (s, if elapsed_us \<le> 0 then r_then a else if n \<le> 0 then r_then a else RTokens a burst now n))"
| "rl_step ok s (RTokens a burst now n) = (s, RCas a burst now n (rl_tokens (rs_lim s)))"
| "rl_step ok s (RCas a burst now n current) =
     (let desired = min (wrap64 (current + n)) burst
      in if desired \<le> current then (s, RStamp a now)
         else if ok \<and> rl_tokens (rs_lim s) = current
         then (s\<lparr>rs_lim := (rs_lim s)\<lparr>rl_tokens := desired\<rparr>\<rparr>, RStamp a now)
         else (s, RCas a burst now n (rl_tokens (rs_lim s))))"
| "rl_step ok s (RStamp a now) = (s\<lparr>rs_lim := (rs_lim s)\<lparr>rl_last_refill_us := now\<rparr>\<rparr>, r_then a)"
| "rl_step ok s (RTake b) =
     (s, if b \<le> rl_tokens (rs_lim s) then RTakeCas b (rl_tokens (rs_lim s)) else RIdle 0)"
| "rl_step ok s (RTakeCas b current) =
     (if ok \<and> rl_tokens (rs_lim s) = current
      then (s\<lparr>rs_lim := (rs_lim s)\<lparr>rl_tokens := current - b\<rparr>, rs_taken := rs_taken s + b\<rparr>, RIdle b)
      else (s, if b \<le> rl_tokens (rs_lim s) then RTakeCas b (rl_tokens (rs_lim s)) else RIdle 0))"
| "rl_step ok s (RTimeoutLoad b) =
     (let consumed = min (rl_tokens (rs_lim s)) b
      in (s, if consumed > 0 then RTimeoutSub consumed else RIdle consumed))"
| "rl_step ok s (RTimeoutSub c) =
     (s\<lparr>rs_lim := (rs_lim s)\<lparr>rl_tokens := rl_tokens (rs_lim s) - c\<rparr>, rs_taken := rs_taken s + c\<rparr>, RIdle c)"
| "rl_step ok s (RRefillBurst n) =
     (s, if n \<le> 0 then RIdle 0 else RRefillLoad n (rl_burst_bytes (rs_lim s)))"
| "rl_step ok s (RRefillLoad n burst) = (s, RRefillCas n burst (rl_tokens (rs_lim s)))"
| "rl_step ok s (RRefillCas n burst current) =
     (if ok \<and> rl_tokens (rs_lim s) = current
      then (s\<lparr>rs_lim := (rs_lim s)\<lparr>rl_tokens := min (wrap64 (current + n)) burst\<rparr>\<rparr>, RIdle 0)
      else (s, RRefillCas n burst (rl_tokens (rs_lim s))))"

inductive rl_lstep :: "rl_shared \<Rightarrow> rl_pc \<Rightarrow> rl_shared \<Rightarrow> rl_pc \<Rightarrow> bool" where
  run: "rl_step ok s p = (s', p') \<Longrightarrow> rl_lstep s p s' p'"
| tick: "rs_clock s \<le> t \<Longrightarrow> rl_lstep s p (s\<lparr>rs_clock := t\<rparr>) p"
| call_try: "rl_lstep s (RIdle r) s (RTryRate b)"
| call_refill: "n < 2 ^ 62 \<Longrightarrow> rl_lstep s (RIdle r) s (RRefillBurst n)"

text \<open>
  An uninterrupted \<^verbatim>\<open>try_consume\<close> of the interleaved model is the function of the first part: at
  most ten accesses.
\<close>

lemma try_alone:
  "((\<lambda>(s, p). rl_step True s p) ^^ 10) (s, RTryRate b) =
    (let (r, l) = try_consume b (rs_clock s) (rs_lim s)
     in (s\<lparr>rs_lim := l, rs_taken := rs_taken s + (if r \<and> 0 < b \<and> 0 < rl_rate_bps (rs_lim s) then b else 0)\<rparr>,
         RIdle (if r then max 0 b else 0)))"
  by (cases s; cases "rs_lim s")
    (simp add: eval_nat_numeral try_consume_def rl_replenish_def add_tokens_def Let_def)

section \<open>The bucket under interleaving\<close>

definition bucket_ok :: "int \<Rightarrow> rl_shared \<Rightarrow> bool" where
  "bucket_ok burst s \<longleftrightarrow> rl_burst_bytes (rs_lim s) = burst \<and> 0 \<le> rl_tokens (rs_lim s) \<and> rl_tokens (rs_lim s) \<le> burst"

fun bucket_at :: "int \<Rightarrow> rl_pc \<Rightarrow> bool" where
  "bucket_at burst (RRate (ThenTake b)) = (0 < b)"
| "bucket_at burst (RBurst (ThenTake b) _) = (0 < b)"
| "bucket_at burst (RNow (ThenTake b) _ u) = (0 < b \<and> u = burst)"
| "bucket_at burst (RLast (ThenTake b) _ u _) = (0 < b \<and> u = burst)"
| "bucket_at burst (RTokens (ThenTake b) u _ n) = (0 < b \<and> u = burst \<and> 0 < n)"
| "bucket_at burst (RCas (ThenTake b) u _ n c) = (0 < b \<and> u = burst \<and> 0 < n \<and> 0 \<le> c)"
| "bucket_at burst (RStamp (ThenTake b) _) = (0 < b)"
| "bucket_at burst (RTake b) = (0 < b)"
| "bucket_at burst (RTakeCas b c) = (0 < b \<and> b \<le> c)"
| "bucket_at burst (RRefillLoad n u) = (0 < n \<and> n < 2 ^ 62 \<and> u = burst)"
| "bucket_at burst (RRefillCas n u c) = (0 < n \<and> n < 2 ^ 62 \<and> u = burst \<and> 0 \<le> c \<and> c \<le> burst)"
| "bucket_at burst (RRefillBurst n) = (n < 2 ^ 62)"
| "bucket_at burst (RIdle r) = True"
| "bucket_at burst (RTryRate b) = True"
| "bucket_at burst _ = False"

lemma bucket_step:
  assumes "bucket_ok u s" "bucket_at u p" "rl_step ok s p = (s', p')" "0 < u" "u \<le> 2 ^ 62"
  shows "bucket_ok u s' \<and> bucket_at u p'"
  using assms
  by (cases "(u, p)" rule: bucket_at.cases) (auto simp: bucket_ok_def Let_def wrap64_small split: if_splits)

lemma bucket_lstep:
  assumes "0 < u" "u \<le> 2 ^ 62" "bucket_ok u s" "bucket_at u p" "rl_lstep s p s' p'"
  shows "bucket_ok u s' \<and> bucket_at u p'"
  using assms(5)
proof cases
  case (run ok)
  then show ?thesis using bucket_step assms by blast
qed (use assms in \<open>auto simp: bucket_ok_def\<close>)

interpretation bucket: interleaved rl_lstep "\<lambda>s. 0 < u \<and> u \<le> 2 ^ 62 \<and> bucket_ok u s" "\<lambda>_. bucket_at u" for u
  by unfold_locales (auto dest: bucket_lstep)

text \<open>Concrete executions: a limiter of 10000 bytes per second, 100 ms after the clock's origin.\<close>

abbreviation race_state :: "int \<Rightarrow> int \<Rightarrow> int \<Rightarrow> rl_shared" where
  "race_state toks stamp taken \<equiv>
     \<lparr>rs_lim = \<lparr>rl_rate_bps = 10000, rl_burst_bytes = 5000, rl_tokens = toks, rl_last_refill_us = stamp\<rparr>,
      rs_clock = 100000, rs_taken = taken\<rparr>"

text \<open>Several uninterrupted accesses of the first, respectively the second thread.\<close>

lemma alone_lsteps:
  "((\<lambda>(s, p). rl_step True s p) ^^ k) (s, p) = (s', p') \<Longrightarrow>
   (pool_step rl_lstep)\<^sup>*\<^sup>* (s, [p, q]) (s', [p', q]) \<and> (pool_step rl_lstep)\<^sup>*\<^sup>* (s, [q, p]) (s', [q, p'])"
proof (induction k arbitrary: s p)
  case (Suc k)
  obtain s1 p1 where st: "rl_step True s p = (s1, p1)" by fastforce
  then have l: "rl_lstep s p s1 p1" by (rule rl_lstep.run)
  have "((\<lambda>(s, p). rl_step True s p) ^^ k) (s1, p1) = (s', p')" using Suc.prems st by (simp add: funpow_swap1)
  then show ?case
    using Suc.IH first_step [of rl_lstep, OF l] second_step [of rl_lstep, OF l]
    by (meson converse_rtranclp_into_rtranclp)
qed simp

lemmas thread_one = alone_lsteps [THEN conjunct1]
lemmas thread_two = alone_lsteps [THEN conjunct2]

text \<open>
  In every interleaving of any number of threads that call \<^verbatim>\<open>try_consume\<close> and \<^verbatim>\<open>refill\<close>, whichever
  compare-and-swaps fail and however the clock advances, the bucket holds between 0 tokens and the burst.
\<close>

theorem bucket_within_burst:
  assumes "rl_ok (rs_lim s)" "rl_burst_bytes (rs_lim s) \<le> 2 ^ 62"
    "(pool_step rl_lstep)\<^sup>*\<^sup>* (s, replicate n (RIdle 0)) (s', ps)"
  shows "0 \<le> rl_tokens (rs_lim s') \<and> rl_tokens (rs_lim s') \<le> rl_burst_bytes (rs_lim s')"
  using bucket.pool_run_inv [OF assms(3), of "rl_burst_bytes (rs_lim s)"] assms(1,2)
  by (auto simp: bucket_ok_def rl_ok_def list_all_iff)

theorem bucket_within_burst_witness:
  "0 \<le> rl_tokens (rs_lim (race_state 400 100000 600)) \<and> rl_tokens (rs_lim (race_state 400 100000 600)) \<le> rl_burst_bytes (rs_lim (race_state 400 100000 600))"
proof (rule bucket_within_burst)
  have nt: "new_tokens 10000 100000 = 1000" by (simp add: new_tokens_def wrap64_def)
  have a: "pool_step rl_lstep (race_state 0 0 0, [RIdle 0, RIdle 0]) (race_state 0 0 0, [RTryRate 600, RIdle 0])"
    by (rule first_step [of rl_lstep, OF rl_lstep.call_try])
  moreover have "(pool_step rl_lstep)\<^sup>*\<^sup>* (race_state 0 0 0, [RTryRate 600, RIdle 0]) (race_state 400 100000 600, [RIdle 600, RIdle 0])"
    by (rule thread_one [where k = 10]) (simp add: eval_nat_numeral nt wrap64_def)
  ultimately show "(pool_step rl_lstep)\<^sup>*\<^sup>* (race_state 0 0 0, replicate 2 (RIdle 0)) (race_state 400 100000 600, [RIdle 600, RIdle 0])"
    by (simp add: numeral_2_eq_2 converse_rtranclp_into_rtranclp)
qed (simp_all add: rl_ok_def)

text \<open>
  Two threads are paid for the same interval. Both read the refill stamp before either writes it,
  so each adds the tokens of the whole interval: after 100 ms at 10000 bytes per second
  they take 2000 bytes from an empty bucket, twice what the rate allows. The comment at the stamp's
  update calls the race a harmless under-refill.
\<close>

theorem concurrent_double_refill:
  "(pool_step rl_lstep)\<^sup>*\<^sup>* (race_state 0 0 0, [RTryRate 1000, RTryRate 1000])
     (race_state 0 100000 2000, [RIdle 1000, RIdle 1000])"
proof -
  let ?at = "RTokens (ThenTake 1000) 5000 100000 1000"
  have nt: "new_tokens 10000 100000 = 1000" by (simp add: new_tokens_def wrap64_def)
  have 1: "(pool_step rl_lstep)\<^sup>*\<^sup>* (race_state 0 0 0, [RTryRate 1000, RTryRate 1000]) (race_state 0 0 0, [?at, RTryRate 1000])"
    by (rule thread_one [where k = 5]) (simp add: eval_nat_numeral nt)
  have 2: "(pool_step rl_lstep)\<^sup>*\<^sup>* (race_state 0 0 0, [?at, RTryRate 1000]) (race_state 0 0 0, [?at, ?at])"
    by (rule thread_two [where k = 5]) (simp add: eval_nat_numeral nt)
  have 3: "(pool_step rl_lstep)\<^sup>*\<^sup>* (race_state 0 0 0, [?at, ?at]) (race_state 0 100000 1000, [RIdle 1000, ?at])"
    by (rule thread_one [where k = 5]) (simp add: eval_nat_numeral wrap64_def)
  have 4: "(pool_step rl_lstep)\<^sup>*\<^sup>* (race_state 0 100000 1000, [RIdle 1000, ?at]) (race_state 0 100000 2000, [RIdle 1000, RIdle 1000])"
    by (rule thread_two [where k = 5]) (simp add: eval_nat_numeral wrap64_def)
  show ?thesis using rtranclp_trans [OF rtranclp_trans [OF rtranclp_trans [OF 1 2] 3] 4] .
qed

text \<open>
  A \<^verbatim>\<open>consume_blocking\<close> that times out subtracts what it read before, without a
  compare-and-swap: two of them both take the 600 tokens that are there, and the bucket
  is at -600.
\<close>

theorem timeout_overdraws:
  "(pool_step rl_lstep)\<^sup>*\<^sup>* (race_state 600 100000 0, [RRate (ThenTimeout 1000), RRate (ThenTimeout 1000)])
     (race_state (- 600) 100000 1200, [RIdle 600, RIdle 600])"
proof -
  let ?at = "RTimeoutSub 600"
  have 1: "(pool_step rl_lstep)\<^sup>*\<^sup>* (race_state 600 100000 0, [RRate (ThenTimeout 1000), RRate (ThenTimeout 1000)])
      (race_state 600 100000 0, [?at, RRate (ThenTimeout 1000)])"
    by (rule thread_one [where k = 5]) (simp add: eval_nat_numeral)
  have 2: "(pool_step rl_lstep)\<^sup>*\<^sup>* (race_state 600 100000 0, [?at, RRate (ThenTimeout 1000)]) (race_state 600 100000 0, [?at, ?at])"
    by (rule thread_two [where k = 5]) (simp add: eval_nat_numeral)
  have 3: "(pool_step rl_lstep)\<^sup>*\<^sup>* (race_state 600 100000 0, [?at, ?at]) (race_state 0 100000 600, [RIdle 600, ?at])"
    by (rule thread_one [where k = 1]) (simp add: eval_nat_numeral)
  have 4: "(pool_step rl_lstep)\<^sup>*\<^sup>* (race_state 0 100000 600, [RIdle 600, ?at]) (race_state (- 600) 100000 1200, [RIdle 600, RIdle 600])"
    by (rule thread_two [where k = 1]) (simp add: eval_nat_numeral)
  show ?thesis using rtranclp_trans [OF rtranclp_trans [OF rtranclp_trans [OF 1 2] 3] 4] .
qed

section \<open>Reconfiguration\<close>

text \<open>
  Lowering the rate lowers the burst, to ten times the new rate, but leaves the tokens: the bucket then
  holds more than its burst, and the next \<^verbatim>\<open>try_consume\<close> may take all of it at once.
\<close>

theorem set_rate_leaves_excess:
  "let s = set_rate 1000 (new_rate_limiter 100000 50000 0 0)
   in rl_burst_bytes s = 10000 \<and> rl_tokens s = 50000 \<and> fst (try_consume 50000 0 s)"
  by code_simp

text \<open>What the other methods keep.\<close>

lemma set_burst_ok: "rl_ok s \<Longrightarrow> rl_rate_bps s < 2 ^ 63 \<Longrightarrow> b < 2 ^ 63 \<Longrightarrow> rl_ok (set_burst b s)"
  using clamp_burst_bounds [of "rl_rate_bps s" b] by (auto simp: rl_ok_def set_burst_def Let_def)

lemma rl_reset_ok: "rl_ok s \<Longrightarrow> rl_ok (rl_reset now s) \<and> available_tokens (rl_reset now s) = rl_burst_bytes s"
  by (simp add: rl_ok_def rl_reset_def available_tokens_def)

lemma refill_ok: "rl_ok s \<Longrightarrow> rl_burst_bytes s \<le> 2 ^ 62 \<Longrightarrow> n < 2 ^ 62 \<Longrightarrow> rl_ok (refill n s)"
  using accounted_refill by (auto simp: accounted_def)

lemma set_rate_up_ok:
  assumes "rl_ok s" "r < 2 ^ 63" "rl_burst_bytes s \<le> clamp_burst (max 0 r) (rl_burst_bytes s)"
  shows "rl_ok (set_rate r s)"
  using assms clamp_burst_bounds [of "max 0 r" "rl_burst_bytes s"] by (auto simp: rl_ok_def set_rate_def Let_def)

lemma set_rate_off_unblocks:
  "rl_ok s \<Longrightarrow> is_enabled s \<Longrightarrow> \<not> is_enabled (set_rate 0 s) \<and> rl_tokens (set_rate 0 s) = rl_burst_bytes s \<and>
   consume_blocking fuel clk b t (set_rate 0 s) = Some (max 0 b, set_rate 0 s, 0, [])"
  by (auto simp: is_enabled_def set_rate_def Let_def clamp_burst_def rl_ok_def consume_blocking_def)

end
