(* ===== verification/Group_Assignment.thy ===== *)
theory Group_Assignment
  imports Torrent_Prelude "HOL-Library.List_Lexorder" "HOL-Library.Char_ord" "HOL-Library.Multiset"
begin

text \<open>
  The partition assignors of \<^verbatim>\<open>src/torrent/broker/consumer_group_manager.cpp\<close>: range, round robin
  and sticky, each from the member ids, the topics and the partition counts to a map from members
  to lists of (topic, partition). Strings are ordered as \<^verbatim>\<open>std::string\<close> orders them. The locale
  \<open>assignor\<close> is what the group manager relies on: every partition is handed out exactly once.
\<close>

section \<open>Model\<close>

type_synonym partition = "string \<times> int"
type_synonym PartitionAssignment = "string \<rightharpoonup> partition list"
type_synonym partition_counts = "string \<rightharpoonup> int"

datatype AssignmentStrategy = Range | RoundRobin | Sticky

definition kStrategyRange :: string where "kStrategyRange = ''range''"
definition kStrategyRoundRobin :: string where "kStrategyRoundRobin = ''roundrobin''"
definition kStrategySticky :: string where "kStrategySticky = ''sticky''"

definition parse_strategy :: "string \<Rightarrow> AssignmentStrategy" where
  "parse_strategy s =
     (if s = kStrategyRoundRobin then RoundRobin else if s = kStrategySticky then Sticky else Range)"

text \<open>\<^verbatim>\<open>result[member].emplace_back(x)\<close>, and the entries every member starts with.\<close>

definition give :: "string \<Rightarrow> partition \<Rightarrow> PartitionAssignment \<Rightarrow> PartitionAssignment" where
  "give m x r = r(m \<mapsto> (case r m of None \<Rightarrow> [] | Some xs \<Rightarrow> xs) @ [x])"

definition empty_shares :: "string list \<Rightarrow> PartitionAssignment" where
  "empty_shares ms = fold (\<lambda>m r. r(m \<mapsto> [])) ms Map.empty"

text \<open>The count of a topic, 0 when it is not in the table.\<close>

definition count_of :: "partition_counts \<Rightarrow> string \<Rightarrow> int" where
  "count_of counts topic = (case counts topic of None \<Rightarrow> 0 | Some n \<Rightarrow> n)"

text \<open>The inner loops of \<^verbatim>\<open>assign_range\<close> for one topic: member \<open>m\<close> of those left gets the next \<open>cnt\<close>.\<close>

fun range_members ::
  "string \<Rightarrow> int \<Rightarrow> int \<Rightarrow> int \<Rightarrow> int \<Rightarrow> string list \<Rightarrow> PartitionAssignment \<Rightarrow> PartitionAssignment" where
  "range_members topic per rest start m [] r = r"
| "range_members topic per rest start m (x # xs) r =
     (let cnt = per + (if m < rest then 1 else 0)
      in range_members topic per rest (start + cnt) (m + 1) xs
           (fold (\<lambda>p. give x (topic, start + int p)) [0..<nat cnt] r))"

definition range_topic ::
  "string list \<Rightarrow> partition_counts \<Rightarrow> string \<Rightarrow> PartitionAssignment \<Rightarrow> PartitionAssignment" where
  "range_topic ms counts topic r =
     (let n = count_of counts topic; k = int (length ms)
      in if n \<le> 0 then r else range_members topic (n div k) (n mod k) 0 0 ms r)"

definition assign_range :: "string list \<Rightarrow> string list \<Rightarrow> partition_counts \<Rightarrow> PartitionAssignment" where
  "assign_range members topics counts =
     (if members = [] then Map.empty
      else fold (range_topic (sort members) counts) topics (empty_shares (sort members)))"

definition topic_partitions :: "string list \<Rightarrow> partition_counts \<Rightarrow> partition list" where
  "topic_partitions topics counts =
     concat (map (\<lambda>t. map (\<lambda>p. (t, int p)) [0..<nat (count_of counts t)]) topics)"

definition assign_roundrobin :: "string list \<Rightarrow> string list \<Rightarrow> partition_counts \<Rightarrow> PartitionAssignment" where
  "assign_roundrobin members topics counts =
     (if members = [] then Map.empty
      else let ms = sort members; all_parts = topic_partitions (sort topics) counts
           in fold (\<lambda>i. give (ms ! (i mod length ms)) (all_parts ! i)) [0..<length all_parts]
                (empty_shares ms))"

text \<open>First pass of \<^verbatim>\<open>assign_sticky\<close>: a member takes back what it had, unless the partition is gone or claimed.\<close>

definition keep_partition ::
  "partition_counts \<Rightarrow> string \<Rightarrow> partition \<Rightarrow> partition set \<times> PartitionAssignment \<Rightarrow>
     partition set \<times> PartitionAssignment" where
  "keep_partition counts m x s =
     (case counts (fst x) of
        None \<Rightarrow> s
      | Some n \<Rightarrow> if snd x < n \<and> x \<notin> fst s then (insert x (fst s), give m x (snd s)) else s)"

definition keep_member ::
  "partition_counts \<Rightarrow> PartitionAssignment \<Rightarrow> string \<Rightarrow> partition set \<times> PartitionAssignment \<Rightarrow>
     partition set \<times> PartitionAssignment" where
  "keep_member counts previous m s =
     (case previous m of None \<Rightarrow> s | Some xs \<Rightarrow> fold (keep_partition counts m) xs s)"

fun deal :: "string list \<Rightarrow> nat \<Rightarrow> partition list \<Rightarrow> PartitionAssignment \<Rightarrow> PartitionAssignment" where
  "deal ms i [] r = r"
| "deal ms i (x # xs) r = deal ms ((i + 1) mod length ms) xs (give (ms ! i) x r)"

definition assign_sticky ::
  "string list \<Rightarrow> string list \<Rightarrow> partition_counts \<Rightarrow> PartitionAssignment \<Rightarrow> PartitionAssignment" where
  "assign_sticky members topics counts previous =
     (if members = [] then Map.empty
      else
        let ms = sort members;
            (claimed, r) = fold (keep_member counts previous) ms ({}, empty_shares ms);
            unclaimed = filter (\<lambda>x. x \<notin> claimed) (topic_partitions topics counts)
        in deal ms 0 unclaimed r)"

section \<open>Exactly-once assignment\<close>

definition share :: "PartitionAssignment \<Rightarrow> string \<Rightarrow> partition list" where
  "share r m = (case r m of None \<Rightarrow> [] | Some xs \<Rightarrow> xs)"

text \<open>All that the members of \<open>ms\<close> were given, with multiplicity.\<close>

definition assigned :: "string list \<Rightarrow> PartitionAssignment \<Rightarrow> partition multiset" where
  "assigned ms r = sum_list (map (\<lambda>m. mset (share r m)) ms)"

lemma distinct_topic_partitions: "distinct ts \<Longrightarrow> distinct (topic_partitions ts counts)"
  by (induction ts) (auto simp: topic_partitions_def distinct_map inj_on_def)

lemma set_topic_partitions:
  "x \<in> set (topic_partitions ts counts) \<longleftrightarrow> fst x \<in> set ts \<and> 0 \<le> snd x \<and> snd x < count_of counts (fst x)"
proof (cases x)
  case (Pair t p)
  have "(t, p) \<in> (\<lambda>i. (u, int i)) ` {0..<nat n} \<longleftrightarrow> t = u \<and> 0 \<le> p \<and> p < n" for n u
    by (auto simp: image_iff intro!: bexI [of _ "nat p"])
  with Pair show ?thesis by (auto simp: topic_partitions_def)
qed

lemma assigned_member: "x \<in># assigned ms r \<longleftrightarrow> (\<exists>m \<in> set ms. x \<in> set (share r m))"
  by (induction ms) (auto simp: assigned_def)

lemma assigned_twice:
  assumes "m \<noteq> m'" "m \<in> set ms" "m' \<in> set ms" "x \<in> set (share r m)" "x \<in> set (share r m')"
  shows "2 \<le> count (assigned ms r) x"
  using assms
proof (induction ms)
  case (Cons a ms)
  have pos: "n \<in> set ms \<Longrightarrow> x \<in> set (share r n) \<Longrightarrow> 0 < count (assigned ms r) x" for n
    using assigned_member [of x ms r] by (auto simp: count_greater_zero_iff)
  have "count (assigned (a # ms) r) x = count (mset (share r a)) x + count (assigned ms r) x"
    by (simp add: assigned_def)
  moreover have "x \<in> set (share r a) \<Longrightarrow> 0 < count (mset (share r a)) x" by (simp add: count_greater_zero_iff)
  ultimately show ?case using Cons.IH Cons.prems pos [of m] pos [of m'] 
    by (cases "m = a"; cases "m' = a") (auto simp del: count_greater_zero_iff)
qed simp

locale assignor =
  fixes assign :: "string list \<Rightarrow> string list \<Rightarrow> partition_counts \<Rightarrow> PartitionAssignment"
  assumes exact: "ms \<noteq> [] \<Longrightarrow> distinct ms \<Longrightarrow> distinct ts \<Longrightarrow>
      assigned ms (assign ms ts counts) = mset (topic_partitions ts counts)"
    and members_only: "m \<notin> set ms \<Longrightarrow> share (assign ms ts counts) m = []"
begin

lemma owned_iff:
  assumes "ms \<noteq> []" "distinct ms" "distinct ts"
  shows "(\<exists>m. x \<in> set (share (assign ms ts counts) m)) \<longleftrightarrow>
     fst x \<in> set ts \<and> 0 \<le> snd x \<and> snd x < count_of counts (fst x)"
proof -
  have "(\<exists>m. x \<in> set (share (assign ms ts counts) m)) \<longleftrightarrow> x \<in># assigned ms (assign ms ts counts)"
    unfolding assigned_member using members_only by (metis empty_iff list.set(1))
  then show ?thesis by (simp add: exact assms set_topic_partitions)
qed

lemma one_owner:
  assumes "ms \<noteq> []" "distinct ms" "distinct ts"
    and "x \<in> set (share (assign ms ts counts) m)" "x \<in> set (share (assign ms ts counts) m')"
  shows "m = m'"
proof (rule ccontr)
  assume "m \<noteq> m'"
  moreover have "m \<in> set ms" "m' \<in> set ms" using assms(4,5) members_only by (metis empty_iff list.set(1))+
  ultimately have "2 \<le> count (assigned ms (assign ms ts counts)) x"
    using assms(4,5) by (rule assigned_twice)
  moreover have "count (mset (topic_partitions ts counts)) x \<le> 1"
    using distinct_topic_partitions [OF assms(3), of counts] by (simp add: distinct_count_atmost_1 del: split_paired_All)
  ultimately show False by (simp add: exact assms(1-3))
qed

end

lemma assigned_perm: "mset ms = mset ms' \<Longrightarrow> assigned ms r = assigned ms' r"
  unfolding assigned_def by (metis mset_map sum_mset_sum_list)

lemma share_give: "share (give m x r) m' = (if m' = m then share r m @ [x] else share r m')"
  by (simp add: give_def share_def split: option.split)

lemma assigned_give: "distinct ms \<Longrightarrow> m \<in> set ms \<Longrightarrow> assigned ms (give m x r) = add_mset x (assigned ms r)"
proof (induction ms)
  case (Cons a ms)
  have same: "assigned ms (give m x r) = assigned ms r" if "m \<notin> set ms"
    using that unfolding assigned_def by (intro arg_cong [of _ _ sum_list] map_cong refl) (auto simp: share_give)
  have "assigned (a # ms) r' = mset (share r' a) + assigned ms r'" for r' by (simp add: assigned_def)
  with Cons same show ?case by (cases "m = a") (auto simp: share_give)
qed simp

lemma share_empty [simp]: "share (empty_shares ms) m = []"
proof -
  have "share (fold (\<lambda>m r. r(m \<mapsto> [])) ms r) m = (if m \<in> set ms then [] else share r m)" for r
    by (induction ms arbitrary: r) (auto simp: share_def)
  from this [of Map.empty] show ?thesis by (simp add: empty_shares_def share_def)
qed

lemma assigned_empty [simp]: "assigned ms (empty_shares ms') = {#}"
  by (induction ms) (simp_all add: assigned_def)

text \<open>Handing out items one by one, each to some member: everything arrives once, and only at members.\<close>

lemma fold_give:
  assumes "distinct ms" "\<And>i. i \<in> set is \<Longrightarrow> f i \<in> set ms"
  shows "assigned ms (fold (\<lambda>i. give (f i) (g i)) is r) = mset (map g is) + assigned ms r"
    and "m \<notin> set ms \<Longrightarrow> share (fold (\<lambda>i. give (f i) (g i)) is r) m = share r m"
  using assms(2) by (induction "is" arbitrary: r) (auto simp: assigned_give [OF assms(1)] share_give)

lemma share_fold_give:
  "share (fold (\<lambda>i. give (f i) (g i)) is r) m = share r m @ map g (filter (\<lambda>i. f i = m) is)"
  by (induction "is" arbitrary: r) (auto simp: share_give)

subsection \<open>Range\<close>

lemma map_int_upto: "map (\<lambda>p. start + int p) [0..<nat c] = [start..start + c - 1]"
proof (cases "0 \<le> c")
  case True
  then obtain n where "c = int n" by (metis nonneg_int_cases)
  moreover have "map (\<lambda>p. start + int p) [0..<n] = [start..start + int n - 1]"
    by (induction n) (auto simp: upto_rec2)
  ultimately show ?thesis by simp
qed simp

lemma upto_join: "i \<le> j \<Longrightarrow> j \<le> k + 1 \<Longrightarrow> [i..k] = [i..j - 1] @ [j..k]" for i j k :: int
  by (cases "j = k + 1") (auto intro: upto_split1)

lemma range_step:
  "fold (\<lambda>p. give x (topic, start + int p)) [0..<nat c] r = fold (\<lambda>p. give x (topic, p)) [start..start + c - 1] r"
  by (simp add: fold_map comp_def flip: map_int_upto)

lemma range_members_assigned:
  assumes "distinct ms" "0 \<le> per"
  shows "set xs \<subseteq> set ms \<Longrightarrow>
     assigned ms (range_members topic per rest start m xs r) =
       mset (map (Pair topic) [start..start + per * int (length xs) + max 0 (min (rest - m) (int (length xs))) - 1])
       + assigned ms r"
proof (induction xs arbitrary: start m r)
  case (Cons x xs)
  define c where "c = per + (if m < rest then 1 else 0)"
  define e where "e = start + per * int (length (x # xs)) + max 0 (min (rest - m) (int (length (x # xs)))) - 1"
  have e: "e = start + c + per * int (length xs) + max 0 (min (rest - (m + 1)) (int (length xs))) - 1"
    by (auto simp: e_def c_def algebra_simps max_def min_def)
  moreover have "0 \<le> per * int (length xs)" "0 \<le> c" using assms(2) by (simp_all add: c_def)
  ultimately have split: "[start..e] = [start..start + c - 1] @ [start + c..e]"
    by (intro upto_join) auto
  have "assigned ms (fold (\<lambda>p. give x (topic, p)) [start..start + c - 1] r) =
      mset (map (Pair topic) [start..start + c - 1]) + assigned ms r"
    using Cons.prems by (intro fold_give(1) assms(1)) simp
  then show ?case using Cons.IH [of "start + c" "m + 1"] Cons.prems
    unfolding e [symmetric] e_def [symmetric] by (simp add: Let_def range_step split flip: c_def)
qed simp

lemma range_members_others: "y \<notin> set xs \<Longrightarrow> share (range_members topic per rest start m xs r) y = share r y"
  by (induction xs arbitrary: start m r) (auto simp: Let_def range_step share_fold_give filter_empty_conv)

lemma range_members_share:
  "distinct xs \<Longrightarrow> y \<in> set xs \<Longrightarrow> \<exists>a c. c \<in> {per, per + 1} \<and>
       share (range_members topic per rest start m xs r) y = share r y @ map (Pair topic) [a..a + c - 1]"
proof (induction xs arbitrary: start m r)
  case (Cons x xs)
  let ?c = "per + (if m < rest then 1 else 0)"
  let ?r = "fold (\<lambda>p. give x (topic, p)) [start..start + ?c - 1] r"
  show ?case
  proof (cases "y = x")
    case True
    then have "share (range_members topic per rest start m (x # xs) r) y = share r y @ map (Pair topic) [start..start + ?c - 1]"
      using Cons.prems by (simp add: Let_def range_step range_members_others share_fold_give)
    then show ?thesis by (intro exI [of _ start] exI [of _ ?c]) simp
  next
    case False
    then show ?thesis using Cons.prems Cons.IH [of "start + ?c" "m + 1" ?r]
      by (simp add: Let_def range_step share_fold_give)
  qed
qed simp

lemma range_topic_others: "y \<notin> set ms \<Longrightarrow> share (range_topic ms counts t r) y = share r y"
  by (simp add: range_topic_def Let_def range_members_others)

lemma range_topic_share:
  assumes "distinct ms" "y \<in> set ms"
  shows "\<exists>a c. c \<in> {count_of counts t div int (length ms), count_of counts t div int (length ms) + 1} \<and>
       share (range_topic ms counts t r) y = share r y @ map (Pair t) [a..a + c - 1]"
proof (cases "count_of counts t \<le> 0")
  case True
  have "0 < int (length ms)" using assms(2) by (cases ms) auto
  then have "count_of counts t div int (length ms) \<le> 0"
    using True by (metis div_0 zdiv_mono1)
  with True show ?thesis
    by (intro exI [of _ 0] exI [of _ "count_of counts t div int (length ms)"]) (simp add: range_topic_def)
next
  case False
  with range_members_share [OF assms] show ?thesis by (simp add: range_topic_def Let_def)
qed

lemma range_topic_assigned:
  assumes "ms \<noteq> []" "distinct ms"
  shows "assigned ms (range_topic ms counts t r) = mset (topic_partitions [t] counts) + assigned ms r"
proof -
  let ?n = "count_of counts t" and ?k = "int (length ms)"
  have "?k > 0" using assms(1) by simp
  then have "?n div ?k * ?k + ?n mod ?k = ?n" "0 \<le> ?n mod ?k" "?n mod ?k < ?k" by simp_all
  moreover have "map (\<lambda>p. (t, int p)) [0..<nat ?n] = map (Pair t) [0..?n - 1]"
    using map_int_upto [of 0 ?n] by (simp add: map_eq_conv flip: map_map [unfolded comp_def])
  ultimately show ?thesis using assms
    by (simp add: range_topic_def Let_def topic_partitions_def range_members_assigned pos_imp_zdiv_nonneg_iff)
qed

lemma range_topics:
  assumes "ms \<noteq> []" "distinct ms"
  shows "assigned ms (fold (range_topic ms counts) ts r) = mset (topic_partitions ts counts) + assigned ms r"
  using range_topic_assigned [OF assms]
  by (induction ts arbitrary: r) (simp_all add: topic_partitions_def)

lemma range_topics_others: "y \<notin> set ms \<Longrightarrow> share (fold (range_topic ms counts) ts r) y = share r y"
  by (induction ts arbitrary: r) (simp_all add: range_topic_others)

lemma range_topics_names:
  assumes "distinct ms" "y \<in> set ms" "x \<in> set (share (fold (range_topic ms counts) ts r) y)"
  shows "x \<in> set (share r y) \<or> fst x \<in> set ts"
  using assms(3)
proof (induction ts rule: rev_induct)
  case (snoc t ts)
  obtain a c where "share (fold (range_topic ms counts) (ts @ [t]) r) y =
      share (fold (range_topic ms counts) ts r) y @ map (Pair t) [a..a + c - 1]"
    using range_topic_share [OF assms(1,2)] by fastforce
  with snoc show ?case by auto
qed simp

lemma range_topics_share:
  assumes "distinct ms" "y \<in> set ms" "distinct ts" "t \<in> set ts" "\<forall>x \<in> set (share r y). fst x \<notin> set ts"
  shows "\<exists>a c. c \<in> {count_of counts t div int (length ms), count_of counts t div int (length ms) + 1} \<and>
       filter (\<lambda>x. fst x = t) (share (fold (range_topic ms counts) ts r) y) = map (Pair t) [a..a + c - 1]"
  using assms(3-5)
proof (induction ts rule: rev_induct)
  case (snoc u ts)
  obtain a c where u: "c \<in> {count_of counts u div int (length ms), count_of counts u div int (length ms) + 1}"
    "share (fold (range_topic ms counts) (ts @ [u]) r) y =
       share (fold (range_topic ms counts) ts r) y @ map (Pair u) [a..a + c - 1]"
    using range_topic_share [OF assms(1,2)] by fastforce
  show ?case
  proof (cases "t = u")
    case True
    then have "\<forall>x \<in> set (share (fold (range_topic ms counts) ts r) y). fst x \<noteq> u"
      using range_topics_names [OF assms(1,2)] snoc.prems by fastforce
    then have "filter (\<lambda>x. fst x = t) (share (fold (range_topic ms counts) ts r) y) = []"
      using True by (simp add: filter_empty_conv)
    then show ?thesis using u True by (auto simp: comp_def)
  next
    case False
    then have "filter (\<lambda>x. fst x = t) (map (Pair u) xs) = []" for xs :: "int list" by (simp add: filter_empty_conv)
    then show ?thesis using snoc False u by auto
  qed
qed simp

lemma sort_props: "ms \<noteq> [] \<Longrightarrow> sort ms \<noteq> []" "assigned (sort ms) r = assigned ms r"
  by (auto simp flip: length_greater_0_conv intro: assigned_perm)

interpretation range: assignor assign_range
proof
  fix ms ts :: "string list" and counts
  assume "ms \<noteq> []" "distinct ms"
  then show "assigned ms (assign_range ms ts counts) = mset (topic_partitions ts counts)"
    using range_topics [of "sort ms" counts ts "empty_shares (sort ms)"]
    by (simp add: assign_range_def sort_props)
next
  fix m and ms ts :: "string list" and counts
  assume "m \<notin> set ms"
  then show "share (assign_range ms ts counts) m = []"
    by (simp add: assign_range_def range_topics_others) (simp add: share_def)
qed

subsection \<open>Round robin\<close>

lemma count_residues:
  "j < k \<Longrightarrow> length (filter (\<lambda>i. i mod k = j) [0..<n]) = n div k + (if j < n mod k then 1 else 0)" for k :: nat
proof (induction n)
  case (Suc n)
  then show ?case by (cases "Suc (n mod k) = k") (auto simp: mod_Suc div_Suc)
qed simp

lemma topic_partitions_perm: "mset ts = mset ts' \<Longrightarrow> mset (topic_partitions ts counts) = mset (topic_partitions ts' counts)"
  unfolding topic_partitions_def mset_concat by (simp flip: sum_mset_sum_list)

interpretation roundrobin: assignor assign_roundrobin
proof
  fix ms ts :: "string list" and counts
  assume ms: "ms \<noteq> []" "distinct ms"
  then have "sort ms ! (i mod length ms) \<in> set (sort ms)" for i
    by (metis length_greater_0_conv length_sort mod_less_divisor nth_mem)
  then show "assigned ms (assign_roundrobin ms ts counts) = mset (topic_partitions ts counts)"
    using ms fold_give(1) [of "sort ms" "[0..<length (topic_partitions (sort ts) counts)]"
        "\<lambda>i. sort ms ! (i mod length ms)" "\<lambda>i. topic_partitions (sort ts) counts ! i" "empty_shares (sort ms)"]
    by (simp add: assign_roundrobin_def sort_props map_nth topic_partitions_perm [of "sort ts" ts]
        Let_def del: mset_map)
next
  fix m and ms ts :: "string list" and counts
  assume m: "m \<notin> set ms"
  have "sort ms ! (i mod length ms) \<noteq> m" if "ms \<noteq> []" for i
    using that m by (metis length_greater_0_conv length_sort mod_less_divisor nth_mem set_sort)
  then show "share (assign_roundrobin ms ts counts) m = []"
    by (simp add: assign_roundrobin_def share_fold_give filter_empty_conv Let_def) (simp add: share_def)
qed

lemma roundrobin_share_length:
  assumes "distinct ms" "j < length ms"
  shows "length (share (assign_roundrobin ms ts counts) (sort ms ! j)) =
     length (topic_partitions ts counts) div length ms
     + (if j < length (topic_partitions ts counts) mod length ms then 1 else 0)"
proof -
  have "length (topic_partitions (sort ts) counts) = length (topic_partitions ts counts)"
    by (rule mset_eq_length) (rule topic_partitions_perm, simp)
  moreover have "sort ms ! (i mod length ms) = sort ms ! j \<longleftrightarrow> i mod length ms = j" for i
    using assms by (subst nth_eq_iff_index_eq) (auto intro: mod_less_divisor)
  ultimately show ?thesis using assms count_residues [OF assms(2)]
    by (auto simp: assign_roundrobin_def share_fold_give Let_def)
qed

subsection \<open>Sticky\<close>

text \<open>What the first pass keeps: partitions that still exist, and that no member before claimed.\<close>

definition still_there :: "partition_counts \<Rightarrow> partition \<Rightarrow> bool" where
  "still_there counts x = (case counts (fst x) of None \<Rightarrow> False | Some n \<Rightarrow> snd x < n)"

lemma keep_partition_alt:
  "keep_partition counts m x s =
     (if still_there counts x \<and> x \<notin> fst s then (insert x (fst s), give m x (snd s)) else s)"
  by (simp add: keep_partition_def still_there_def split: option.split)

text \<open>The claimed set is what has been given out, each partition once.\<close>

definition claims_ok :: "string list \<Rightarrow> partition set \<Rightarrow> partition set \<times> PartitionAssignment \<Rightarrow> bool" where
  "claims_ok ms U s \<longleftrightarrow> finite (fst s) \<and> fst s \<subseteq> U \<and> assigned ms (snd s) = mset_set (fst s)"

lemma keep_partition_ok:
  assumes "distinct ms" "m \<in> set ms" "still_there counts x \<Longrightarrow> x \<in> U" "claims_ok ms U s"
  shows "claims_ok ms U (keep_partition counts m x s)"
  using assms by (auto simp: keep_partition_alt claims_ok_def assigned_give)

lemma keep_members_ok:
  assumes "distinct ms" "set ns \<subseteq> set ms" "claims_ok ms U s"
    and "\<And>m x. m \<in> set ns \<Longrightarrow> x \<in> set (share previous m) \<Longrightarrow> still_there counts x \<Longrightarrow> x \<in> U"
  shows "claims_ok ms U (fold (keep_member counts previous) ns s)"
  using assms
  by (intro fold_invariant [where I = "claims_ok ms U"])
    (auto simp: keep_member_def share_def split: option.splits
      intro!: fold_invariant [where I = "claims_ok ms U"] keep_partition_ok)

lemma keep_member_alt: "keep_member counts previous m s = fold (keep_partition counts m) (share previous m) s"
  by (simp add: keep_member_def share_def split: option.split)

lemma mod_in_range: "i < n \<Longrightarrow> a mod n < n" for i a n :: nat
  by simp

lemma deal_assigned:
  "distinct ms \<Longrightarrow> i < length ms \<Longrightarrow> assigned ms (deal ms i xs r) = mset xs + assigned ms r"
  by (induction ms i xs r rule: deal.induct) (simp_all add: assigned_give mod_in_range)

lemma deal_share: "\<exists>ys. share (deal ms i xs r) m = share r m @ ys"
  by (induction ms i xs r rule: deal.induct) (auto simp: share_give)

lemma deal_others: "i < length ms \<Longrightarrow> m \<notin> set ms \<Longrightarrow> share (deal ms i xs r) m = share r m"
  by (induction ms i xs r rule: deal.induct) (auto simp: share_give mod_in_range)

lemma sticky_assigned:
  assumes "ms \<noteq> []" "distinct ms" "distinct ts"
    and "\<And>m x. m \<in> set ms \<Longrightarrow> x \<in> set (share previous m) \<Longrightarrow> still_there counts x \<Longrightarrow> fst x \<in> set ts \<and> 0 \<le> snd x"
  shows "assigned ms (assign_sticky ms ts counts previous) = mset (topic_partitions ts counts)"
proof -
  let ?ms = "sort ms" and ?U = "set (topic_partitions ts counts)"
  obtain claimed r where cr: "fold (keep_member counts previous) ?ms ({}, empty_shares ?ms) = (claimed, r)"
    by fastforce
  have "claims_ok ?ms ?U (fold (keep_member counts previous) ?ms ({}, empty_shares ?ms))"
    using assms by (intro keep_members_ok)
      (auto simp: claims_ok_def set_topic_partitions still_there_def count_of_def split: option.splits)
  then have ok: "claimed \<subseteq> ?U" "assigned ?ms r = mset_set claimed" by (simp_all add: cr claims_ok_def)
  let ?rest = "filter (\<lambda>x. x \<notin> claimed) (topic_partitions ts counts)"
  have "mset (topic_partitions ts counts) = mset_set ?U"
    by (simp add: mset_set_set distinct_topic_partitions assms(3))
  moreover have "mset ?rest = mset_set (?U - claimed)"
    using distinct_topic_partitions [OF assms(3)]
    by (metis distinct_filter mset_set_set set_diff_eq set_filter)
  ultimately have "mset ?rest + mset_set claimed = mset (topic_partitions ts counts)"
    using ok(1) by (metis List.finite_set mset_set_Diff subset_imp_msubset_mset_set subset_mset.diff_add)
  then show ?thesis using assms(1,2) ok(2)
    by (simp add: assign_sticky_def cr deal_assigned sort_props(2) [of ms, symmetric])
qed

lemma keep_members_share:
  "m \<notin> set ns \<Longrightarrow> share (snd (fold (keep_member counts previous) ns s)) m = share (snd s) m"
proof (induction ns arbitrary: s)
  case (Cons n ns)
  have "share (snd (fold (keep_partition counts n) xs s)) m = share (snd s) m" for xs
    using Cons.prems by (intro fold_invariant [where I = "\<lambda>t. share (snd t) m = share (snd s) m"])
      (auto simp: keep_partition_alt share_give)
  with Cons show ?case by (simp add: keep_member_alt)
qed simp

interpretation sticky: assignor "\<lambda>ms ts counts. assign_sticky ms ts counts Map.empty"
proof
  fix ms ts :: "string list" and counts
  assume "ms \<noteq> []" "distinct ms" "distinct ts"
  then show "assigned ms (assign_sticky ms ts counts Map.empty) = mset (topic_partitions ts counts)"
    by (rule sticky_assigned) (simp add: share_def)
next
  fix m and ms ts :: "string list" and counts
  assume m: "m \<notin> set ms"
  have "fold (keep_member counts Map.empty) ns s = s" for ns s
    by (induction ns) (simp_all add: keep_member_def)
  with m show "share (assign_sticky ms ts counts Map.empty) m = []"
    by (simp add: assign_sticky_def deal_others Let_def) (simp add: share_def)
qed

text \<open>A member that nobody contests gets back all that still exists, in its old order, before anything new.\<close>

lemma keep_own:
  assumes "distinct xs" "set xs \<inter> fst s = {}"
  shows "share (snd (fold (keep_partition counts m) xs s)) m = share (snd s) m @ filter (still_there counts) xs"
  using assms by (induction xs arbitrary: s) (auto simp: keep_partition_alt share_give)

lemma keep_claims: "fst (fold (keep_member counts previous) ns s) \<subseteq> fst s \<union> (\<Union>m \<in> set ns. set (share previous m))"
proof (induction ns arbitrary: s)
  case (Cons n ns)
  have "fst (fold (keep_partition counts n) xs s) \<subseteq> fst s \<union> set xs" for xs
    by (induction xs arbitrary: s) (auto simp: keep_partition_alt split: if_splits, blast+)
  then have "fst (keep_member counts previous n s) \<subseteq> fst s \<union> set (share previous n)"
    by (simp add: keep_member_alt)
  with Cons.IH [of "keep_member counts previous n s"] show ?case by auto
qed simp

lemma sticky_keeps:
  assumes "distinct ms" "m \<in> set ms" "distinct (share previous m)"
    and "\<And>n. n \<in> set ms \<Longrightarrow> n \<noteq> m \<Longrightarrow> set (share previous n) \<inter> set (share previous m) = {}"
  shows "\<exists>ys. share (assign_sticky ms ts counts previous) m = filter (still_there counts) (share previous m) @ ys"
proof -
  obtain as bs where ms: "sort ms = as @ m # bs" using assms(2) by (metis set_sort split_list)
  then have "distinct (as @ m # bs)" "set (as @ m # bs) = set ms" using assms(1) by (metis distinct_sort, metis set_sort)
  then have neq: "m \<notin> set as" "m \<notin> set bs" "set as \<subseteq> set ms - {m}" by auto
  define s where "s = fold (keep_member counts previous) as ({}, empty_shares (sort ms))"
  have "fst s \<inter> set (share previous m) = {}"
    using keep_claims [of counts previous as "({}, empty_shares (sort ms))"] assms(4) neq(3) unfolding s_def by fastforce
  moreover have "share (snd s) m = []" using neq(1) by (simp add: s_def keep_members_share)
  ultimately have "share (snd (keep_member counts previous m s)) m = filter (still_there counts) (share previous m)"
    using assms(3) by (simp add: keep_member_alt keep_own Int_commute)
  then have "share (snd (fold (keep_member counts previous) (sort ms) ({}, empty_shares (sort ms)))) m =
      filter (still_there counts) (share previous m)"
    using neq(2) s_def by (simp add: ms keep_members_share)
  with assms(2) show ?thesis
    by (auto simp: assign_sticky_def Let_def split: prod.split) (metis deal_share)
qed

end
