(* ===== verification/Consumer_Groups.thy ===== *)
theory Consumer_Groups
  imports Group_Assignment
begin

text \<open>
  The consumer group coordinator, \<^verbatim>\<open>ConsumerGroupManager\<close> of
  \<^verbatim>\<open>src/torrent/broker/consumer_group_manager.cpp\<close>: one record per group member, per group and for
  the manager (\<^verbatim>\<open>Impl\<close>), and one function per public method. A method runs under the group's mutex
  and is one transition here; the cleanup of old groups has two critical sections and is two
  transitions. Clock readings are arguments, in nanoseconds. \<^verbatim>\<open>TopicManager::partition_count\<close> is the
  argument \<open>partition_count\<close> of \<open>sync_group\<close>.

  \<open>int32_t\<close> generations are 32-bit words: \<^verbatim>\<open>generation++\<close> wraps in the model where C++ leaves the
  overflow undefined. Log output is left out.
\<close>

section \<open>State\<close>

type_synonym time = int
type_synonym generation = "32 word"

datatype GroupState = Empty | Stable | PreparingRebalance | CompletingRebalance | Dead

definition group_state_name :: "GroupState \<Rightarrow> string" where
  "group_state_name s =
     (case s of Empty \<Rightarrow> ''Empty'' | Stable \<Rightarrow> ''Stable'' | PreparingRebalance \<Rightarrow> ''PreparingRebalance''
      | CompletingRebalance \<Rightarrow> ''CompletingRebalance'' | Dead \<Rightarrow> ''Dead'')"

definition kDefaultSessionTimeoutMs :: int where "kDefaultSessionTimeoutMs = 45000"
definition kDefaultRebalanceTimeoutMs :: int where "kDefaultRebalanceTimeoutMs = 60000"
definition kMaxSessionTimeoutMs :: int where "kMaxSessionTimeoutMs = 300000"
definition kMinSessionTimeoutMs :: int where "kMinSessionTimeoutMs = 100"
definition kMaxMembersPerGroup :: int where "kMaxMembersPerGroup = 10000"
definition kMaxActiveGroups :: int where "kMaxActiveGroups = 100000"
definition kMaxEmptyGroupAgeMs :: int where "kMaxEmptyGroupAgeMs = 86400000"
definition kProtocolTypeConsumer :: string where "kProtocolTypeConsumer = ''consumer''"
definition kInvalidOffset :: int where "kInvalidOffset = -1"

record GroupMember =
  member_id :: string
  group_instance_id :: string
  client_id :: string
  client_host :: string
  mem_protocol_type :: string
  mem_protocol_name :: string
  protocol_metadata :: bytes
  assignment :: bytes
  mem_generation :: generation
  mem_session_timeout_ms :: int
  rebalance_timeout_ms :: int
  is_leader :: bool
  awaiting_sync :: bool
  joined_at :: time
  last_heartbeat :: time
  mem_subscribed_topics :: "string list"

record GroupMetadata =
  group_id :: string
  state :: GroupState
  members :: "(string \<times> GroupMember) list"
  generation :: generation
  protocol_type :: string
  protocol_name :: string
  strategy :: AssignmentStrategy
  leader_id :: string
  state_timestamp :: time
  last_activity :: time
  session_timeout_ms :: int
  offsets :: "string \<Rightarrow> (int \<Rightarrow> int option) option"
  subscribed_topics :: "string list"
  is_simple_consumer :: bool

record OffsetCommitMetadata =
  committed_offset :: int
  metadata :: string
  leader_epoch :: int
  commit_timestamp :: time

record Manager =
  groups :: "(string \<times> GroupMetadata) list"
  active_group_count :: int
  cleanup_running :: bool
  offset_store :: "string \<Rightarrow> (string \<Rightarrow> (int \<Rightarrow> OffsetCommitMetadata option) option) option"

definition new_manager :: Manager where
  "new_manager = \<lparr>groups = [], active_group_count = 0, cleanup_running = False, offset_store = Map.empty\<rparr>"

definition new_group :: "string \<Rightarrow> time \<Rightarrow> GroupMetadata" where
  "new_group gid now = \<lparr>group_id = gid, state = Empty, members = [], generation = 0,
     protocol_type = kProtocolTypeConsumer, protocol_name = kStrategyRange, strategy = Range, leader_id = [],
     state_timestamp = now, last_activity = 0, session_timeout_ms = kDefaultSessionTimeoutMs,
     offsets = Map.empty, subscribed_topics = [], is_simple_consumer = False\<rparr>"

definition new_member :: "string \<Rightarrow> string \<Rightarrow> time \<Rightarrow> GroupMetadata \<Rightarrow> GroupMember" where
  "new_member mid protocol now g = \<lparr>member_id = mid, group_instance_id = [], client_id = [], client_host = [],
     mem_protocol_type = kProtocolTypeConsumer,
     mem_protocol_name = (if protocol = [] then kStrategyRange else protocol),
     protocol_metadata = [], assignment = [], mem_generation = generation g,
     mem_session_timeout_ms = session_timeout_ms g, rebalance_timeout_ms = kDefaultRebalanceTimeoutMs,
     is_leader = False, awaiting_sync = True, joined_at = now, last_heartbeat = now, mem_subscribed_topics = []\<rparr>"

definition member_count :: "GroupMetadata \<Rightarrow> int" where
  "member_count g = int (length (members g))"

definition group_is_empty :: "GroupMetadata \<Rightarrow> bool" where
  "group_is_empty g \<longleftrightarrow> members g = []"

definition all_members_joined :: "GroupMetadata \<Rightarrow> bool" where
  "all_members_joined g = list_all (\<lambda>(i, m). mem_generation m = generation g) (members g)"

definition all_members_synced :: "GroupMetadata \<Rightarrow> bool" where
  "all_members_synced g = list_all (\<lambda>(i, m). \<not> awaiting_sync m) (members g)"

definition has_member :: "GroupMetadata \<Rightarrow> string \<Rightarrow> bool" where
  "has_member g mid \<longleftrightarrow> map_of (members g) mid \<noteq> None"

text \<open>\<^verbatim>\<open>members[id]->...\<close> for one member, and the loops over all members.\<close>

definition on_member :: "string \<Rightarrow> (GroupMember \<Rightarrow> GroupMember) \<Rightarrow> GroupMetadata \<Rightarrow> GroupMetadata" where
  "on_member mid f g = g\<lparr>members := map_entries (\<lambda>i m. if i = mid then f m else m) (members g)\<rparr>"

definition on_members :: "(GroupMember \<Rightarrow> GroupMember) \<Rightarrow> GroupMetadata \<Rightarrow> GroupMetadata" where
  "on_members f g = g\<lparr>members := map_entries (\<lambda>i. f) (members g)\<rparr>"

definition put_group :: "string \<Rightarrow> GroupMetadata \<Rightarrow> Manager \<Rightarrow> Manager" where
  "put_group gid g mgr = mgr\<lparr>groups := AList.update gid g (groups mgr)\<rparr>"

text \<open>\<^verbatim>\<open>duration_cast<milliseconds>\<close> rounds towards zero.\<close>

definition duration_ms :: "time \<Rightarrow> int" where
  "duration_ms d = (if d < 0 then - ((- d) div 1000000) else d div 1000000)"

section \<open>Protocol selection\<close>

definition count_protocols :: "(string \<times> GroupMember) list \<Rightarrow> (string \<times> int) list" where
  "count_protocols ms =
     fold (\<lambda>(i, m) c. if mem_protocol_name m = [] then c
             else AList.update (mem_protocol_name m)
                    ((case map_of c (mem_protocol_name m) of None \<Rightarrow> 0 | Some n \<Rightarrow> n) + 1) c) ms []"

text \<open>\<open>order\<close> is the iteration order of the \<^verbatim>\<open>unordered_map\<close> of counts.\<close>

definition select_protocol ::
  "((string \<times> int) list \<Rightarrow> (string \<times> int) list) \<Rightarrow> (string \<times> GroupMember) list \<Rightarrow> string \<Rightarrow> string option" where
  "select_protocol order ms leader =
     (let counts = count_protocols ms;
          most = (let (best, n) = fold (\<lambda>(p, c) (best, n). if n < c then (p, c) else (best, n)) (order counts) ([], 0)
                  in if 0 < n then Some best else None)
      in if counts = [] then Some kStrategyRange
         else case map_of ms leader of
             None \<Rightarrow> most
           | Some l \<Rightarrow>
               if mem_protocol_name l \<noteq> [] \<and> map_of counts (mem_protocol_name l) = Some (int (length ms))
               then Some (mem_protocol_name l) else most)"

section \<open>Membership\<close>

text \<open>Phase 1 of \<^verbatim>\<open>join_group\<close>: find or create the group under the map lock.\<close>

definition ensure_group :: "string \<Rightarrow> time \<Rightarrow> Manager \<Rightarrow> error_code + (GroupMetadata \<times> Manager)" where
  "ensure_group gid now mgr =
     (case map_of (groups mgr) gid of
        Some g \<Rightarrow> Inr (g, mgr)
      | None \<Rightarrow>
          if int (length (groups mgr)) \<ge> kMaxActiveGroups then Inl group_max_size_reached
          else let g = new_group gid now; mgr' = put_group gid g mgr
               in Inr (g, mgr'\<lparr>active_group_count := int (length (groups mgr'))\<rparr>))"

text \<open>Phase 2: the member is refreshed or added.\<close>

definition join_enter :: "string \<Rightarrow> string \<Rightarrow> time \<Rightarrow> GroupMetadata \<Rightarrow> error_code + GroupMetadata" where
  "join_enter mid protocol now g =
     (if has_member g mid
      then let rejoin = state g = PreparingRebalance \<or> state g = CompletingRebalance
           in Inr (on_member mid (\<lambda>m. m\<lparr>last_heartbeat := now, mem_generation := generation g,
                     awaiting_sync := rejoin \<or> awaiting_sync m\<rparr>) g)
      else if member_count g \<ge> kMaxMembersPerGroup then Inl group_max_size_reached
      else Inr (g\<lparr>members := AList.update mid (new_member mid protocol now g) (members g)\<rparr>))"

text \<open>Phase 3: the state transition.\<close>

definition join_transition :: "string \<Rightarrow> time \<Rightarrow> GroupMetadata \<Rightarrow> GroupMetadata" where
  "join_transition mid now g =
     (case state g of
        Empty \<Rightarrow>
          let gen = generation g + 1
          in on_member mid (\<lambda>m. m\<lparr>is_leader := True, awaiting_sync := False, mem_generation := gen\<rparr>)
               (g\<lparr>leader_id := mid, generation := gen, state := Stable, state_timestamp := now\<rparr>)
      | Stable \<Rightarrow>
          let g = g\<lparr>state := PreparingRebalance, state_timestamp := now,
                    leader_id := (if leader_id g = [] \<or> \<not> has_member g (leader_id g) then mid else leader_id g)\<rparr>;
              g = on_member (leader_id g) (is_leader_update (\<lambda>_. True)) g
          in on_members (\<lambda>m. m\<lparr>awaiting_sync := True, mem_generation := generation g\<rparr>) g
      | Dead \<Rightarrow> g
      | _ \<Rightarrow>
          let g = (if leader_id g = [] \<or> \<not> has_member g (leader_id g)
                   then on_member mid (is_leader_update (\<lambda>_. True)) (g\<lparr>leader_id := mid\<rparr>) else g)
          in if all_members_joined g \<and> member_count g > 0
             then on_members (\<lambda>m. m\<lparr>mem_generation := generation g + 1, awaiting_sync := True\<rparr>)
                    (g\<lparr>state := CompletingRebalance, generation := generation g + 1, state_timestamp := now\<rparr>)
             else g)"

definition join_locked :: "string \<Rightarrow> string \<Rightarrow> time \<Rightarrow> GroupMetadata \<Rightarrow> error_code + GroupMetadata" where
  "join_locked mid protocol now g =
     (if state g = Dead then Inl group_id_not_found
      else case join_enter mid protocol now g of
          Inl e \<Rightarrow> Inl e
        | Inr g \<Rightarrow> Inr ((join_transition mid now g)\<lparr>last_activity := now\<rparr>))"

definition join_group ::
  "string \<Rightarrow> string \<Rightarrow> string \<Rightarrow> time \<Rightarrow> time \<Rightarrow> Manager \<Rightarrow> (error_code + unit) \<times> Manager" where
  "join_group gid mid protocol t now mgr =
     (if gid = [] then (Inl invalid_group_id, mgr)
      else if mid = [] then (Inl member_id_required, mgr)
      else case ensure_group gid t mgr of
          Inl e \<Rightarrow> (Inl e, mgr)
        | Inr (g, mgr) \<Rightarrow>
            (case join_locked mid protocol now g of
               Inl e \<Rightarrow> (Inl e, mgr)
             | Inr g \<Rightarrow> (Inr (), put_group gid g mgr)))"

text \<open>Members \<open>gone\<close> have been erased: what \<^verbatim>\<open>leave_group\<close> and the session check do then.\<close>

definition elect_first :: "nat \<Rightarrow> GroupMetadata \<Rightarrow> GroupMetadata" where
  "elect_first h g =
     (let l = begin_key h (members g) in on_member l (is_leader_update (\<lambda>_. True)) (g\<lparr>leader_id := l\<rparr>))"

definition after_departure :: "nat \<Rightarrow> bool \<Rightarrow> time \<Rightarrow> GroupMetadata \<Rightarrow> GroupMetadata" where
  "after_departure h leader_gone now g =
     (if group_is_empty g then g\<lparr>state := Empty, leader_id := [], generation := 0, state_timestamp := now\<rparr>
      else if state g = Stable then
        let g = g\<lparr>state := PreparingRebalance, state_timestamp := now\<rparr>;
            g = (if leader_gone then elect_first h g else g)
        in on_members (awaiting_sync_update (\<lambda>_. True)) g
      else if state g = CompletingRebalance \<or> state g = PreparingRebalance then
        (if leader_gone then elect_first h g else g)
      else g)"

definition leave_locked :: "nat \<Rightarrow> string \<Rightarrow> time \<Rightarrow> time \<Rightarrow> GroupMetadata \<Rightarrow> GroupMetadata" where
  "leave_locked h mid t now g =
     (case map_of (members g) mid of
        None \<Rightarrow> g
      | Some m \<Rightarrow>
          (after_departure h (is_leader m) t (g\<lparr>members := AList.delete mid (members g)\<rparr>))\<lparr>last_activity := now\<rparr>)"

definition leave_group ::
  "nat \<Rightarrow> string \<Rightarrow> string \<Rightarrow> time \<Rightarrow> time \<Rightarrow> Manager \<Rightarrow> (error_code + unit) \<times> Manager" where
  "leave_group h gid mid t now mgr =
     (case map_of (groups mgr) gid of
        None \<Rightarrow> (Inr (), mgr)
      | Some g \<Rightarrow> (Inr (), put_group gid (leave_locked h mid t now g) mgr))"

section \<open>Rebalance completion and liveness checks\<close>

definition gather_partition_counts :: "(string \<Rightarrow> int) \<Rightarrow> string list \<Rightarrow> partition_counts" where
  "gather_partition_counts partition_count topics =
     fold (\<lambda>t c. c(t \<mapsto> partition_count t)) topics Map.empty"

text \<open>The assignment that the last sync computes. The previous assignment is never filled in (a stub).\<close>

definition run_assignment :: "(string \<Rightarrow> int) \<Rightarrow> GroupMetadata \<Rightarrow> PartitionAssignment" where
  "run_assignment partition_count g =
     (let member_ids = sort (map fst (members g)); topics = sort (subscribed_topics g);
          counts = gather_partition_counts partition_count (subscribed_topics g)
      in case strategy g of
          Range \<Rightarrow> assign_range member_ids topics counts
        | RoundRobin \<Rightarrow> assign_roundrobin member_ids topics counts
        | Sticky \<Rightarrow> assign_sticky member_ids topics counts Map.empty)"

text \<open>"Apply assignments": the buffers of the assigned members are cleared, nothing is stored in them.\<close>

definition apply_assignments :: "PartitionAssignment \<Rightarrow> GroupMetadata \<Rightarrow> GroupMetadata" where
  "apply_assignments r g =
     g\<lparr>members := map_entries (\<lambda>i m. if r i \<noteq> None then m\<lparr>assignment := []\<rparr> else m) (members g)\<rparr>"

definition sync_locked ::
  "(string \<Rightarrow> int) \<Rightarrow> string \<Rightarrow> time \<Rightarrow> time \<Rightarrow> GroupMetadata \<Rightarrow> error_code + GroupMetadata" where
  "sync_locked partition_count mid t now g =
     (if state g \<noteq> CompletingRebalance then Inl rebalance_in_progress
      else if \<not> has_member g mid then Inl unknown_member_id
      else
        let g = on_member mid (awaiting_sync_update (\<lambda>_. False)) g;
            g = (if all_members_synced g
                 then (apply_assignments (run_assignment partition_count g) g)\<lparr>state := Stable, state_timestamp := t\<rparr>
                 else g)
        in Inr (g\<lparr>last_activity := now\<rparr>))"

definition sync_group ::
  "(string \<Rightarrow> int) \<Rightarrow> string \<Rightarrow> string \<Rightarrow> time \<Rightarrow> time \<Rightarrow> Manager \<Rightarrow> (error_code + unit) \<times> Manager" where
  "sync_group partition_count gid mid t now mgr =
     (case map_of (groups mgr) gid of
        None \<Rightarrow> (Inl group_id_not_found, mgr)
      | Some g \<Rightarrow>
          (case sync_locked partition_count mid t now g of
             Inl e \<Rightarrow> (Inl e, mgr)
           | Inr g \<Rightarrow> (Inr (), put_group gid g mgr)))"

definition heartbeat :: "string \<Rightarrow> string \<Rightarrow> generation \<Rightarrow> time \<Rightarrow> Manager \<Rightarrow> (error_code + unit) \<times> Manager" where
  "heartbeat gid mid gen now mgr =
     (case map_of (groups mgr) gid of
        None \<Rightarrow> (Inl group_id_not_found, mgr)
      | Some g \<Rightarrow>
          (case map_of (members g) mid of
             None \<Rightarrow> (Inl unknown_member_id, mgr)
           | Some m \<Rightarrow>
               if gen \<noteq> mem_generation m then (Inl illegal_generation, mgr)
               else (Inr (), put_group gid
                      ((on_member mid (last_heartbeat_update (\<lambda>_. now)) g)\<lparr>last_activity := now\<rparr>) mgr)))"

definition session_expired :: "time \<Rightarrow> GroupMember \<Rightarrow> bool" where
  "session_expired now m \<longleftrightarrow> duration_ms (now - last_heartbeat m) > mem_session_timeout_ms m"

text \<open>The body of the loop of \<^verbatim>\<open>check_session_timeouts\<close> for one group.\<close>

definition expire_members :: "nat \<Rightarrow> time \<Rightarrow> GroupMetadata \<Rightarrow> GroupMetadata" where
  "expire_members h now g =
     (if state g = Dead \<or> state g = Empty then g
      else
        let expired = filter (\<lambda>(i, m). session_expired now m) (members g)
        in if expired = [] then g
           else
             let leader_removed = list_ex (\<lambda>(i, m). is_leader m) expired;
                 g = g\<lparr>members := filter (\<lambda>(i, m). \<not> session_expired now m) (members g)\<rparr>
             in (after_departure h leader_removed now g)\<lparr>last_activity := now\<rparr>)"

definition check_session_timeouts :: "(string \<Rightarrow> nat) \<Rightarrow> time \<Rightarrow> Manager \<Rightarrow> Manager" where
  "check_session_timeouts h now mgr =
     fold (\<lambda>gid mgr. case map_of (groups mgr) gid of None \<Rightarrow> mgr
             | Some g \<Rightarrow> put_group gid (expire_members (h gid) now g) mgr)
       (map fst (groups mgr)) mgr"

text \<open>\<^verbatim>\<open>cleanup_dead_groups\<close>: a scan under the shared lock, then the removal under the exclusive lock.\<close>

definition cleanup_scan :: "time \<Rightarrow> Manager \<Rightarrow> string list" where
  "cleanup_scan now mgr =
     map fst (filter (\<lambda>(i, g). state g = Empty \<and> duration_ms (now - state_timestamp g) > kMaxEmptyGroupAgeMs)
       (groups mgr))"

definition cleanup_remove :: "string list \<Rightarrow> Manager \<Rightarrow> Manager" where
  "cleanup_remove ids mgr =
     (if ids = [] then mgr
      else let mgr = mgr\<lparr>groups := fold AList.delete ids (groups mgr)\<rparr>
           in mgr\<lparr>active_group_count := int (length (groups mgr))\<rparr>)"

definition cleanup_dead_groups :: "time \<Rightarrow> Manager \<Rightarrow> Manager" where
  "cleanup_dead_groups now mgr = cleanup_remove (cleanup_scan now mgr) mgr"

text \<open>One pass of the background thread, and its flag.\<close>

definition cleanup_pass :: "(string \<Rightarrow> nat) \<Rightarrow> time \<Rightarrow> time \<Rightarrow> Manager \<Rightarrow> Manager" where
  "cleanup_pass h t now mgr = cleanup_dead_groups now (check_session_timeouts h t mgr)"

definition start_cleanup_loop :: "Manager \<Rightarrow> Manager" where
  "start_cleanup_loop mgr = (if cleanup_running mgr then mgr else mgr\<lparr>cleanup_running := True\<rparr>)"

definition stop_cleanup_loop :: "Manager \<Rightarrow> Manager" where
  "stop_cleanup_loop mgr = mgr\<lparr>cleanup_running := False\<rparr>"

section \<open>Offsets\<close>

definition store_offset ::
  "string \<Rightarrow> string \<Rightarrow> int \<Rightarrow> OffsetCommitMetadata \<Rightarrow> Manager \<Rightarrow> Manager" where
  "store_offset gid topic p meta mgr =
     (let byTopic = (case offset_store mgr gid of None \<Rightarrow> Map.empty | Some x \<Rightarrow> x);
          byPart = (case byTopic topic of None \<Rightarrow> Map.empty | Some x \<Rightarrow> x)
      in mgr\<lparr>offset_store := (offset_store mgr)(gid \<mapsto> byTopic(topic \<mapsto> byPart(p \<mapsto> meta)))\<rparr>)"

definition cache_offset :: "string \<Rightarrow> int \<Rightarrow> int \<Rightarrow> GroupMetadata \<Rightarrow> GroupMetadata" where
  "cache_offset topic p off g =
     (let byPart = (case offsets g topic of None \<Rightarrow> Map.empty | Some x \<Rightarrow> x)
      in g\<lparr>offsets := (offsets g)(topic \<mapsto> byPart(p \<mapsto> off))\<rparr>)"

definition commit_offset ::
  "string \<Rightarrow> string \<Rightarrow> int \<Rightarrow> int \<Rightarrow> time \<Rightarrow> Manager \<Rightarrow> (error_code + unit) \<times> Manager" where
  "commit_offset gid topic p off now mgr =
     (if gid = [] then (Inl invalid_group_id, mgr)
      else if topic = [] then (Inl invalid_topic_exception, mgr)
      else if p < 0 then (Inl invalid_partitions, mgr)
      else
        let mgr = store_offset gid topic p
              \<lparr>committed_offset = off, metadata = [], leader_epoch = 0, commit_timestamp = now\<rparr> mgr
        in case map_of (groups mgr) gid of
            None \<Rightarrow> (Inr (), mgr)
          | Some g \<Rightarrow> (Inr (), put_group gid (cache_offset topic p off g) mgr))"

definition stored_offset :: "string \<Rightarrow> string \<Rightarrow> int \<Rightarrow> Manager \<Rightarrow> OffsetCommitMetadata option" where
  "stored_offset gid topic p mgr =
     (case offset_store mgr gid of None \<Rightarrow> None
      | Some byTopic \<Rightarrow> (case byTopic topic of None \<Rightarrow> None | Some byPart \<Rightarrow> byPart p))"

definition cached_offset :: "string \<Rightarrow> int \<Rightarrow> GroupMetadata \<Rightarrow> int option" where
  "cached_offset topic p g = (case offsets g topic of None \<Rightarrow> None | Some byPart \<Rightarrow> byPart p)"

definition fetch_offset :: "string \<Rightarrow> string \<Rightarrow> int \<Rightarrow> Manager \<Rightarrow> int" where
  "fetch_offset gid topic p mgr =
     (case stored_offset gid topic p mgr of
        Some meta \<Rightarrow> committed_offset meta
      | None \<Rightarrow>
          (case map_of (groups mgr) gid of
             None \<Rightarrow> kInvalidOffset
           | Some g \<Rightarrow> (case cached_offset topic p g of None \<Rightarrow> kInvalidOffset | Some off \<Rightarrow> off)))"

definition fetch_offsets :: "string \<Rightarrow> string \<Rightarrow> int list \<Rightarrow> Manager \<Rightarrow> (int \<times> int \<times> string) list" where
  "fetch_offsets gid topic ps mgr =
     (case offset_store mgr gid of None \<Rightarrow> []
      | Some byTopic \<Rightarrow>
          (case byTopic topic of None \<Rightarrow> []
           | Some byPart \<Rightarrow>
               map (\<lambda>p. case byPart p of None \<Rightarrow> (p, kInvalidOffset, [])
                      | Some meta \<Rightarrow> (p, committed_offset meta, metadata meta)) ps))"

section \<open>Administration and queries\<close>

definition group_state :: "string \<Rightarrow> Manager \<Rightarrow> GroupState" where
  "group_state gid mgr = (case map_of (groups mgr) gid of None \<Rightarrow> Dead | Some g \<Rightarrow> state g)"

definition group_generation :: "string \<Rightarrow> Manager \<Rightarrow> generation" where
  "group_generation gid mgr = (case map_of (groups mgr) gid of None \<Rightarrow> -1 | Some g \<Rightarrow> generation g)"

definition group_members :: "string \<Rightarrow> Manager \<Rightarrow> string list" where
  "group_members gid mgr =
     (case map_of (groups mgr) gid of None \<Rightarrow> [] | Some g \<Rightarrow> sort (map fst (members g)))"

definition list_groups :: "Manager \<Rightarrow> string list" where
  "list_groups mgr = sort (map fst (filter (\<lambda>(i, g). state g \<noteq> Dead) (groups mgr)))"

definition delete_group :: "string \<Rightarrow> Manager \<Rightarrow> (error_code + unit) \<times> Manager" where
  "delete_group gid mgr =
     (case map_of (groups mgr) gid of
        None \<Rightarrow> (Inl group_id_not_found, mgr)
      | Some g \<Rightarrow>
          if \<not> group_is_empty g then (Inl non_empty_group, mgr)
          else let gs = AList.delete gid (groups mgr)
               in (Inr (), mgr\<lparr>groups := gs, active_group_count := int (length gs),
                              offset_store := (offset_store mgr)(gid := None)\<rparr>))"

text \<open>The setters of one group: nothing happens when it does not exist.\<close>

definition on_group :: "string \<Rightarrow> (GroupMetadata \<Rightarrow> GroupMetadata) \<Rightarrow> Manager \<Rightarrow> Manager" where
  "on_group gid f mgr =
     (case map_of (groups mgr) gid of None \<Rightarrow> mgr | Some g \<Rightarrow> put_group gid (f g) mgr)"

definition subscribe_topic :: "string \<Rightarrow> string \<Rightarrow> Manager \<Rightarrow> Manager" where
  "subscribe_topic gid topic = on_group gid (subscribed_topics_update (List.insert topic))"

definition unsubscribe_topic :: "string \<Rightarrow> string \<Rightarrow> Manager \<Rightarrow> Manager" where
  "unsubscribe_topic gid topic = on_group gid (subscribed_topics_update (remove1 topic))"

definition group_subscriptions :: "string \<Rightarrow> Manager \<Rightarrow> string list" where
  "group_subscriptions gid mgr =
     (case map_of (groups mgr) gid of None \<Rightarrow> [] | Some g \<Rightarrow> subscribed_topics g)"

definition set_group_protocol :: "string \<Rightarrow> string \<Rightarrow> Manager \<Rightarrow> (error_code + unit) \<times> Manager" where
  "set_group_protocol gid protocol mgr =
     (case map_of (groups mgr) gid of
        None \<Rightarrow> (Inl group_id_not_found, mgr)
      | Some g \<Rightarrow>
          if protocol = kStrategyRange \<or> protocol = kStrategyRoundRobin \<or> protocol = kStrategySticky
          then (Inr (), put_group gid (g\<lparr>protocol_name := protocol, strategy := parse_strategy protocol\<rparr>) mgr)
          else (Inl inconsistent_group_protocol, mgr))"

definition set_session_timeout :: "string \<Rightarrow> int \<Rightarrow> Manager \<Rightarrow> Manager" where
  "set_session_timeout gid ms =
     on_group gid (session_timeout_ms_update (\<lambda>_. max kMinSessionTimeoutMs (min ms kMaxSessionTimeoutMs)))"

end
