(* ===== verification/Consumer_Group_Invariant.thy ===== *)
theory Consumer_Group_Invariant
  imports Consumer_Groups
begin

text \<open>
  Runs of the group coordinator: every public method as an operation, with its arguments, clock
  readings and the choices the containers leave open; and the invariant that every operation keeps.
\<close>

section \<open>Operations and runs\<close>

datatype GroupOp =
    Join string string string time time
  | Leave nat string string time time
  | Sync "string \<Rightarrow> int" string string time time
  | Heartbeat string string generation time
  | Commit string string int int time
  | CheckTimeouts "string \<Rightarrow> nat" time
  | CleanupRemove "string list"
  | DeleteGroup string
  | Subscribe string string
  | Unsubscribe string string
  | SetProtocol string string
  | SetTimeout string int
  | StartCleanup
  | StopCleanup

text \<open>The list of \<open>CleanupRemove\<close> is what an earlier scan found; any list is allowed.\<close>

fun run_op :: "GroupOp \<Rightarrow> Manager \<Rightarrow> Manager" where
  "run_op (Join gid mid p t now) mgr = snd (join_group gid mid p t now mgr)"
| "run_op (Leave h gid mid t now) mgr = snd (leave_group h gid mid t now mgr)"
| "run_op (Sync pc gid mid t now) mgr = snd (sync_group pc gid mid t now mgr)"
| "run_op (Heartbeat gid mid gen now) mgr = snd (heartbeat gid mid gen now mgr)"
| "run_op (Commit gid topic p off now) mgr = snd (commit_offset gid topic p off now mgr)"
| "run_op (CheckTimeouts h now) mgr = check_session_timeouts h now mgr"
| "run_op (CleanupRemove ids) mgr = cleanup_remove ids mgr"
| "run_op (DeleteGroup gid) mgr = snd (delete_group gid mgr)"
| "run_op (Subscribe gid topic) mgr = subscribe_topic gid topic mgr"
| "run_op (Unsubscribe gid topic) mgr = unsubscribe_topic gid topic mgr"
| "run_op (SetProtocol gid p) mgr = snd (set_group_protocol gid p mgr)"
| "run_op (SetTimeout gid ms) mgr = set_session_timeout gid ms mgr"
| "run_op StartCleanup mgr = start_cleanup_loop mgr"
| "run_op StopCleanup mgr = stop_cleanup_loop mgr"

definition run_ops :: "GroupOp list \<Rightarrow> Manager \<Rightarrow> Manager" where
  "run_ops = fold run_op"

section \<open>The invariant\<close>

definition timeout_ok :: "int \<Rightarrow> bool" where
  "timeout_ok t \<longleftrightarrow> kMinSessionTimeoutMs \<le> t \<and> t \<le> kMaxSessionTimeoutMs"

definition member_ok :: "GroupState \<Rightarrow> generation \<Rightarrow> string \<Rightarrow> string \<Rightarrow> GroupMember \<Rightarrow> bool" where
  "member_ok st gen leader i m \<longleftrightarrow>
     i \<noteq> [] \<and> member_id m = i \<and> mem_generation m = gen \<and> (is_leader m \<longleftrightarrow> i = leader)
     \<and> (st = Stable \<longrightarrow> \<not> awaiting_sync m) \<and> timeout_ok (mem_session_timeout_ms m)"

definition group_ok :: "string \<Rightarrow> GroupMetadata \<Rightarrow> bool" where
  "group_ok gid g \<longleftrightarrow>
     gid \<noteq> [] \<and> group_id g = gid \<and> state g \<noteq> Dead
     \<and> distinct (map fst (members g)) \<and> alist_all (member_ok (state g) (generation g) (leader_id g)) (members g)
     \<and> (state g = Empty \<longleftrightarrow> members g = [])
     \<and> (if members g = [] then leader_id g = [] else leader_id g \<in> fst ` set (members g))
     \<and> member_count g \<le> kMaxMembersPerGroup \<and> timeout_ok (session_timeout_ms g)
     \<and> strategy g = parse_strategy (protocol_name g) \<and> distinct (subscribed_topics g)"

definition cache_ok :: "Manager \<Rightarrow> string \<Rightarrow> GroupMetadata \<Rightarrow> bool" where
  "cache_ok mgr gid g \<longleftrightarrow>
     (\<forall>topic p off. cached_offset topic p g = Some off \<longrightarrow>
        map_option committed_offset (stored_offset gid topic p mgr) = Some off)"

definition manager_ok :: "Manager \<Rightarrow> bool" where
  "manager_ok mgr \<longleftrightarrow>
     distinct (map fst (groups mgr)) \<and> alist_all group_ok (groups mgr) \<and> alist_all (cache_ok mgr) (groups mgr)
     \<and> active_group_count mgr = int (length (groups mgr)) \<and> active_group_count mgr \<le> kMaxActiveGroups"

lemmas group_fields = group_ok_def member_ok_def on_member_def on_members_def member_count_def

section \<open>Group operations keep the invariant\<close>

lemma has_member_iff: "has_member g mid \<longleftrightarrow> mid \<in> fst ` set (members g)"
  by (auto simp: has_member_def map_of_eq_None_iff)

lemma new_group_ok: "gid \<noteq> [] \<Longrightarrow> group_ok gid (new_group gid now)"
  by (simp add: group_ok_def new_group_def alist_all_def member_count_def timeout_ok_def
      kMaxMembersPerGroup_def kMinSessionTimeoutMs_def kDefaultSessionTimeoutMs_def kMaxSessionTimeoutMs_def
      parse_strategy_def kStrategyRange_def kStrategyRoundRobin_def kStrategySticky_def)

text \<open>Between entering and the transition: the new member is there, but nothing has been decided yet.\<close>

definition joined_ok :: "string \<Rightarrow> string \<Rightarrow> GroupMetadata \<Rightarrow> bool" where
  "joined_ok gid mid g \<longleftrightarrow>
     gid \<noteq> [] \<and> group_id g = gid \<and> state g \<noteq> Dead
     \<and> distinct (map fst (members g)) \<and> alist_all (member_ok PreparingRebalance (generation g) (leader_id g)) (members g)
     \<and> mid \<noteq> [] \<and> mid \<in> fst ` set (members g)
     \<and> (if state g = Empty then leader_id g = [] \<and> fst ` set (members g) = {mid}
        else leader_id g \<in> fst ` set (members g))
     \<and> member_count g \<le> kMaxMembersPerGroup \<and> timeout_ok (session_timeout_ms g)
     \<and> strategy g = parse_strategy (protocol_name g) \<and> distinct (subscribed_topics g)"

lemma join_enter_ok:
  assumes "group_ok gid g" "mid \<noteq> []" "join_enter mid protocol now g = Inr g'"
  shows "joined_ok gid mid g'"
proof (cases "has_member g mid")
  case True
  then have "members g \<noteq> []" "mid \<in> fst ` set (members g)" by (auto simp: has_member_iff)
  moreover from True have g': "g' = on_member mid (\<lambda>m. m\<lparr>last_heartbeat := now, mem_generation := generation g,
      awaiting_sync := (state g = PreparingRebalance \<or> state g = CompletingRebalance) \<or> awaiting_sync m\<rparr>) g"
    using assms(3) by (simp add: join_enter_def Let_def)
  ultimately show ?thesis using assms(1,2) unfolding g'
    by (simp add: group_fields joined_ok_def) (elim conjE alist_all_mono; simp add: member_ok_def)
next
  case False
  then have g': "g' = g\<lparr>members := AList.update mid (new_member mid protocol now g) (members g)\<rparr>"
    and n: "member_count g < kMaxMembersPerGroup"
    using assms(3) by (auto simp: join_enter_def split: if_splits)
  have mid: "mid \<notin> fst ` set (members g)" using False by (simp add: has_member_iff)
  then have "leader_id g \<noteq> mid" using assms(1,2) by (auto simp: group_ok_def split: if_splits)
  have "alist_all (member_ok PreparingRebalance (generation g) (leader_id g)) (members g')" unfolding g'
    using assms(1,2) \<open>leader_id g \<noteq> mid\<close>
    by (auto simp: group_ok_def member_ok_def new_member_def intro!: alist_all_update elim!: alist_all_mono)
  with mid n show ?thesis using assms(1,2) unfolding g'
    by (simp add: group_ok_def joined_ok_def member_count_def length_update distinct_update)
qed

lemma leader_kept: "joined_ok gid mid g \<Longrightarrow> state g \<noteq> Empty \<Longrightarrow> leader_id g \<noteq> [] \<and> has_member g (leader_id g)"
  by (auto simp: joined_ok_def has_member_iff alist_all_def list_all_iff member_ok_def)

lemma join_transition_ok:
  assumes "joined_ok gid mid g"
  shows "group_ok gid (join_transition mid now g)"
proof (cases "state g")
  case Empty
  with assms show ?thesis
    by (simp add: join_transition_def joined_ok_def group_fields Let_def) (auto simp: member_ok_def elim!: alist_all_mono)
next
  case Stable
  with assms leader_kept [OF assms] show ?thesis
    by (simp add: join_transition_def joined_ok_def group_fields Let_def) (auto simp: member_ok_def elim!: alist_all_mono)
next
  case PreparingRebalance
  with assms leader_kept [OF assms] show ?thesis
    by (simp add: join_transition_def joined_ok_def group_fields Let_def) (auto simp: member_ok_def elim!: alist_all_mono)
next
  case CompletingRebalance
  with assms leader_kept [OF assms] show ?thesis
    by (simp add: join_transition_def joined_ok_def group_fields Let_def) (auto simp: member_ok_def elim!: alist_all_mono)
qed (use assms in \<open>simp add: joined_ok_def\<close>)

lemma activity_ok [simp]: "group_ok gid (g\<lparr>last_activity := t\<rparr>) = group_ok gid g"
  by (simp add: group_ok_def member_count_def)

lemma join_locked_ok:
  assumes "group_ok gid g" "mid \<noteq> []" "join_locked mid protocol now g = Inr g'"
  shows "group_ok gid g'"
  using assms join_enter_ok [OF assms(1,2)] join_transition_ok
  by (auto simp: join_locked_def split: if_splits sum.splits)

text \<open>Some members are gone: \<open>keep\<close> is what is left, \<open>gone\<close> tells whether the leader left.\<close>

definition departed_ok :: "string \<Rightarrow> bool \<Rightarrow> GroupMetadata \<Rightarrow> bool" where
  "departed_ok gid leader_gone g \<longleftrightarrow>
     gid \<noteq> [] \<and> group_id g = gid \<and> state g \<noteq> Dead \<and> state g \<noteq> Empty
     \<and> distinct (map fst (members g)) \<and> alist_all (member_ok (state g) (generation g) (leader_id g)) (members g)
     \<and> (leader_gone \<longleftrightarrow> leader_id g \<notin> fst ` set (members g))
     \<and> member_count g \<le> kMaxMembersPerGroup \<and> timeout_ok (session_timeout_ms g)
     \<and> strategy g = parse_strategy (protocol_name g) \<and> distinct (subscribed_topics g)"

lemma after_departure_ok:
  assumes "departed_ok gid lg g"
  shows "group_ok gid (after_departure h lg now g)"
proof (cases "members g = []")
  case True
  with assms show ?thesis by (simp add: after_departure_def departed_ok_def group_is_empty_def group_ok_def alist_all_def member_count_def)
next
  case False
  have key: "begin_key h (members g) \<in> fst ` set (members g)" using False by (rule begin_key_in)
  from assms consider "state g = Stable" | "state g = PreparingRebalance" | "state g = CompletingRebalance"
    by (cases "state g") (auto simp: departed_ok_def)
  then show ?thesis
  proof cases
    case 1
    with assms False key show ?thesis
      by (cases lg) (simp_all add: after_departure_def departed_ok_def group_is_empty_def elect_first_def group_fields Let_def,
        (auto simp: member_ok_def elim!: alist_all_mono dest: pair_key)+)
  next
    case 2
    with assms False key show ?thesis
      by (cases lg) (simp_all add: after_departure_def departed_ok_def group_is_empty_def elect_first_def group_fields Let_def,
        (auto simp: member_ok_def elim!: alist_all_mono dest: pair_key)+)
  next
    case 3
    with assms False key show ?thesis
      by (cases lg) (simp_all add: after_departure_def departed_ok_def group_is_empty_def elect_first_def group_fields Let_def,
        (auto simp: member_ok_def elim!: alist_all_mono dest: pair_key)+)
  qed
qed

lemma departedI:
  assumes "group_ok gid g" "members g \<noteq> []" "ms = filter (\<lambda>(i, m). keep i m) (members g)"
    and "lg \<longleftrightarrow> (\<exists>(i, m) \<in> set (members g). is_leader m \<and> \<not> keep i m)"
  shows "departed_ok gid lg (g\<lparr>members := ms\<rparr>)"
proof -
  obtain l where l: "(leader_id g, l) \<in> set (members g)" using assms(1,2) by (auto simp: group_ok_def)
  have uniq: "(i, m) \<in> set (members g) \<Longrightarrow> i = leader_id g \<Longrightarrow> m = l" for i m
    using l assms(1) by (metis group_ok_def map_of_is_SomeI option.inject)
  have flag: "(i, m) \<in> set (members g) \<Longrightarrow> is_leader m \<longleftrightarrow> i = leader_id g" for i m
    using assms(1) by (auto simp: group_ok_def member_ok_def alist_all_def list_all_iff)
  have "lg \<longleftrightarrow> \<not> keep (leader_id g) l" unfolding assms(4) using l uniq flag by blast
  moreover have "leader_id g \<in> fst ` set ms \<longleftrightarrow> (\<exists>m. (leader_id g, m) \<in> set (members g) \<and> keep (leader_id g) m)"
    unfolding assms(3) by force
  then have "leader_id g \<in> fst ` set ms \<longleftrightarrow> keep (leader_id g) l" using l uniq by metis
  moreover have "length ms \<le> length (members g)" by (simp add: assms(3))
  moreover have "distinct (map fst ms)" "alist_all (member_ok (state g) (generation g) (leader_id g)) ms"
    using assms(1) by (simp_all add: assms(3) group_ok_def alist_all_filter distinct_map_filter)
  ultimately show ?thesis using assms(1,2) by (simp add: group_ok_def departed_ok_def member_count_def)
qed

lemma leave_locked_ok:
  assumes "group_ok gid g"
  shows "group_ok gid (leave_locked h mid t now g)"
proof (cases "map_of (members g) mid")
  case (Some m)
  then have "members g \<noteq> []" by auto
  moreover have "AList.delete mid xs = filter (\<lambda>(i, m). i \<noteq> mid) xs" for xs :: "(string \<times> GroupMember) list"
    by (induction xs) auto
  moreover have "(mid, m') \<in> set (members g) \<longleftrightarrow> m' = m" for m'
    using Some assms by (metis group_ok_def map_of_eq_Some_iff option.inject)
  then have "is_leader m \<longleftrightarrow> (\<exists>(i, m) \<in> set (members g). is_leader m \<and> \<not> i \<noteq> mid)" by auto
  ultimately have "departed_ok gid (is_leader m) (g\<lparr>members := AList.delete mid (members g)\<rparr>)"
    by (rule departedI [OF assms])
  then show ?thesis using Some by (simp add: leave_locked_def after_departure_ok)
qed (use assms in \<open>simp add: leave_locked_def\<close>)

lemma expire_members_ok:
  assumes "group_ok gid g"
  shows "group_ok gid (expire_members h now g)"
proof (cases "members g = []")
  case True
  then show ?thesis using assms by (simp add: expire_members_def)
next
  case False
  let ?ms = "filter (\<lambda>(i, m). \<not> session_expired now m) (members g)"
  let ?lg = "list_ex (\<lambda>(i, m). is_leader m) (filter (\<lambda>(i, m). session_expired now m) (members g))"
  have "departed_ok gid ?lg (g\<lparr>members := ?ms\<rparr>)"
    by (rule departedI [OF assms False, where keep = "\<lambda>i m. \<not> session_expired now m"]) (auto simp: list_ex_iff)
  then show ?thesis using assms by (simp add: expire_members_def Let_def after_departure_ok)
qed

lemma sync_locked_ok:
  assumes "group_ok gid g" "sync_locked pc mid t now g = Inr g'"
  shows "group_ok gid g'"
proof -
  let ?g = "on_member mid (awaiting_sync_update (\<lambda>_. False)) g"
  have g: "group_ok gid ?g"
    using assms(1) by (simp add: group_fields) (auto simp: member_ok_def elim!: alist_all_mono)
  have "group_ok gid ((apply_assignments (run_assignment pc ?g) ?g)\<lparr>state := Stable, state_timestamp := t\<rparr>)"
    if st: "state g = CompletingRebalance" "all_members_synced ?g"
  proof -
    have "alist_all (\<lambda>i m. member_ok (state ?g) (generation ?g) (leader_id ?g) i m \<and> \<not> awaiting_sync m) (members ?g)"
      using g that(2) by (auto simp: group_ok_def all_members_synced_def alist_all_def list_all_iff)
    then have "alist_all (\<lambda>i m. member_ok Stable (generation ?g) (leader_id ?g) i
         (if run_assignment pc ?g i \<noteq> None then m\<lparr>assignment := []\<rparr> else m)) (members ?g)"
      by (rule alist_all_mono) (auto simp: member_ok_def)
    moreover have "state ?g = CompletingRebalance" using st(1) by (simp add: on_member_def)
    ultimately show ?thesis using g by (simp add: group_ok_def apply_assignments_def member_count_def)
  qed
  with g assms(2) show ?thesis by (auto simp: sync_locked_def Let_def split: if_splits)
qed

section \<open>Manager operations keep the invariant\<close>

lemma put_group_fields [simp]:
  "groups (put_group gid g mgr) = AList.update gid g (groups mgr)"
  "offset_store (put_group gid g mgr) = offset_store mgr"
  "active_group_count (put_group gid g mgr) = active_group_count mgr"
  by (simp_all add: put_group_def)

lemma stored_offset_cong: "offset_store mgr = offset_store mgr' \<Longrightarrow> stored_offset gid topic p mgr = stored_offset gid topic p mgr'"
  by (simp add: stored_offset_def)

lemma cache_ok_cong:
  "offset_store mgr = offset_store mgr' \<Longrightarrow> offsets g = offsets g' \<Longrightarrow> cache_ok mgr gid g = cache_ok mgr' gid g'"
  by (simp add: cache_ok_def stored_offset_def cached_offset_def)

text \<open>Replacing an existing group by one that is fine and has the same offsets.\<close>

lemma put_group_ok:
  assumes "manager_ok mgr" "map_of (groups mgr) gid = Some g" "group_ok gid g'" "offsets g' = offsets g"
  shows "manager_ok (put_group gid g' mgr)"
proof -
  have "cache_ok (put_group gid g' mgr) = cache_ok mgr" by (intro ext cache_ok_cong) simp_all
  moreover have "cache_ok mgr gid g" using assms(1,2) by (auto simp: manager_ok_def intro: alist_all_lookup)
  then have "cache_ok mgr gid g'" using assms(4) cache_ok_cong by blast
  ultimately show ?thesis using assms known_key [OF assms(2)]
    by (simp add: manager_ok_def alist_all_update distinct_update length_update)
qed

lemma group_lookup: "manager_ok mgr \<Longrightarrow> map_of (groups mgr) gid = Some g \<Longrightarrow> group_ok gid g"
  by (auto simp: manager_ok_def intro: alist_all_lookup)

lemma offsets_frame [frame]:
  "offsets (on_member mid f g) = offsets g" "offsets (on_members f' g) = offsets g"
  "offsets (apply_assignments r g) = offsets g" "offsets (elect_first h g) = offsets g"
  by (simp_all add: on_member_def on_members_def apply_assignments_def elect_first_def Let_def)

lemma departure_offsets [frame]: "offsets (after_departure h lg now g) = offsets g"
  by (simp add: after_departure_def Let_def frame)

lemma join_offsets [frame]: "join_locked mid protocol now g = Inr g' \<Longrightarrow> offsets g' = offsets g"
  by (auto simp: join_locked_def join_enter_def join_transition_def Let_def frame
      split: if_splits sum.splits GroupState.splits)

lemma new_group_offsets: "offsets (new_group gid t) = Map.empty"
  by (simp add: new_group_def)

lemma ensure_group_ok:
  assumes "manager_ok mgr" "gid \<noteq> []" "ensure_group gid t mgr = Inr (g, mgr')"
  shows "manager_ok mgr' \<and> map_of (groups mgr') gid = Some g \<and> group_ok gid g"
proof (cases "map_of (groups mgr) gid")
  case None
  let ?g = "new_group gid t"
  let ?m = "put_group gid ?g mgr"
  have res: "g = ?g" "mgr' = ?m\<lparr>active_group_count := int (length (groups ?m))\<rparr>"
    and n: "int (length (groups mgr)) < kMaxActiveGroups"
    using assms(3) None by (auto simp: ensure_group_def Let_def split: if_splits)
  have "cache_ok mgr' = cache_ok mgr" by (intro ext cache_ok_cong) (simp_all add: res)
  moreover have "cache_ok mgr gid ?g" by (simp add: cache_ok_def cached_offset_def new_group_offsets)
  moreover have "gid \<notin> fst ` set (groups mgr)" using None by (simp add: map_of_eq_None_iff)
  ultimately show ?thesis using assms(1,2) n
    by (simp add: res manager_ok_def alist_all_update distinct_update length_update new_group_ok update_conv)
qed (use assms in \<open>auto simp: ensure_group_def group_lookup\<close>)

lemma join_group_ok:
  assumes "manager_ok mgr"
  shows "manager_ok (snd (join_group gid mid protocol t now mgr))"
proof (cases "gid = [] \<or> mid = []")
  case False
  then show ?thesis
  proof (cases "ensure_group gid t mgr")
    case (Inr p)
    then obtain g mgr' where p: "ensure_group gid t mgr = Inr (g, mgr')" by (cases p) auto
    with False assms have ok: "manager_ok mgr'" "map_of (groups mgr') gid = Some g" "group_ok gid g"
      using ensure_group_ok by blast+
    show ?thesis
    proof (cases "join_locked mid protocol now g")
      case (Inr g')
      then have "manager_ok (put_group gid g' mgr')"
        using ok False by (intro put_group_ok [OF ok(1,2)]) (auto intro: join_locked_ok join_offsets)
      with False p Inr show ?thesis by (simp add: join_group_def)
    qed (use False p ok in \<open>simp add: join_group_def\<close>)
  qed (use assms in \<open>simp add: join_group_def\<close>)
qed (use assms in \<open>auto simp: join_group_def\<close>)

lemma leave_offsets [frame]: "offsets (leave_locked h mid t now g) = offsets g"
  by (simp add: leave_locked_def frame split: option.split)

lemma expire_offsets [frame]: "offsets (expire_members h now g) = offsets g"
  by (simp add: expire_members_def frame Let_def)

lemma sync_offsets [frame]: "sync_locked pc mid t now g = Inr g' \<Longrightarrow> offsets g' = offsets g"
  by (auto simp: sync_locked_def frame Let_def split: if_splits)

lemma leave_group_ok: "manager_ok mgr \<Longrightarrow> manager_ok (snd (leave_group h gid mid t now mgr))"
  by (auto simp: leave_group_def frame split: option.split intro!: put_group_ok leave_locked_ok group_lookup)

lemma sync_group_ok:
  assumes "manager_ok mgr"
  shows "manager_ok (snd (sync_group pc gid mid t now mgr))"
proof (cases "map_of (groups mgr) gid")
  case (Some g)
  then show ?thesis using assms put_group_ok [OF assms Some] sync_locked_ok [OF group_lookup [OF assms Some]] sync_offsets
    by (auto simp: sync_group_def split: sum.split)
qed (use assms in \<open>simp add: sync_group_def\<close>)

lemma heartbeat_group_ok:
  "group_ok gid g \<Longrightarrow> group_ok gid (on_member mid (last_heartbeat_update (\<lambda>_. now)) g)"
  by (simp add: group_fields) (auto simp: member_ok_def elim!: alist_all_mono)

lemma heartbeat_ok: "manager_ok mgr \<Longrightarrow> manager_ok (snd (heartbeat gid mid gen now mgr))"
  by (auto simp: heartbeat_def frame split: option.split
      intro!: put_group_ok heartbeat_group_ok intro: group_lookup)

lemma check_timeouts_ok: "manager_ok mgr \<Longrightarrow> manager_ok (check_session_timeouts h now mgr)"
  unfolding check_session_timeouts_def
  by (rule fold_invariant [where I = manager_ok])
    (auto split: option.split simp: frame intro!: put_group_ok expire_members_ok intro: group_lookup)

lemma on_group_ok:
  assumes "manager_ok mgr" "\<And>g. group_ok gid g \<Longrightarrow> group_ok gid (f g)" "\<And>g. offsets (f g) = offsets g"
  shows "manager_ok (on_group gid f mgr)"
  using assms group_lookup by (auto simp: on_group_def split: option.split intro!: put_group_ok)

lemma setters_ok:
  assumes "manager_ok mgr"
  shows "manager_ok (subscribe_topic gid topic mgr)" "manager_ok (unsubscribe_topic gid topic mgr)"
    "manager_ok (set_session_timeout gid ms mgr)"
  using assms unfolding subscribe_topic_def unsubscribe_topic_def set_session_timeout_def
  by (auto intro!: on_group_ok simp: group_ok_def member_count_def timeout_ok_def
      kMinSessionTimeoutMs_def kMaxSessionTimeoutMs_def split: if_splits)

lemma set_group_protocol_ok:
  assumes "manager_ok mgr"
  shows "manager_ok (snd (set_group_protocol gid protocol mgr))"
proof (cases "map_of (groups mgr) gid")
  case (Some g)
  have "group_ok gid (g\<lparr>protocol_name := protocol, strategy := parse_strategy protocol\<rparr>)"
    using group_lookup [OF assms Some] by (simp add: group_ok_def member_count_def)
  then show ?thesis using Some assms put_group_ok [OF assms Some] by (simp add: set_group_protocol_def)
qed (use assms in \<open>simp add: set_group_protocol_def\<close>)

text \<open>Commits write the store and the cache together; other groups' offsets are untouched.\<close>

lemma stored_after_store:
  "stored_offset gid' topic' q (store_offset gid topic p meta mgr) =
     (if gid' = gid \<and> topic' = topic \<and> q = p then Some meta else stored_offset gid' topic' q mgr)"
  by (auto simp: stored_offset_def store_offset_def Let_def split: option.split)

lemma cached_after_cache:
  "cached_offset topic' q (cache_offset topic p off g) =
     (if topic' = topic \<and> q = p then Some off else cached_offset topic' q g)"
  by (auto simp: cached_offset_def cache_offset_def Let_def split: option.split)

lemma store_offset_fields [simp]:
  "groups (store_offset gid topic p meta mgr) = groups mgr"
  "active_group_count (store_offset gid topic p meta mgr) = active_group_count mgr"
  by (simp_all add: store_offset_def Let_def)

lemma commit_offset_ok:
  assumes "manager_ok mgr"
  shows "manager_ok (snd (commit_offset gid topic p off now mgr))"
proof (cases "gid = [] \<or> topic = [] \<or> p < 0")
  case False
  let ?meta = "\<lparr>committed_offset = off, metadata = [], leader_epoch = 0, commit_timestamp = now\<rparr>"
  let ?m = "store_offset gid topic p ?meta mgr"
  have others: "cache_ok ?m i g" if "cache_ok mgr i g" "i \<noteq> gid" for i g
    using that by (simp add: cache_ok_def stored_after_store)
  show ?thesis
  proof (cases "map_of (groups mgr) gid")
    case None
    then have "gid \<notin> fst ` set (groups mgr)" by (simp add: map_of_eq_None_iff)
    moreover have "alist_all (cache_ok mgr) (groups mgr)" using assms by (simp add: manager_ok_def)
    ultimately have "alist_all (cache_ok ?m) (groups mgr)"
      by (metis (mono_tags) alist_all_mono others)
    with None False assms show ?thesis by (simp add: commit_offset_def manager_ok_def Let_def)
  next
    case (Some g)
    let ?g = "cache_offset topic p off g"
    have "group_ok gid ?g" using group_lookup [OF assms Some]
      by (simp add: cache_offset_def Let_def group_ok_def member_count_def)
    moreover have here: "cache_ok ?m gid ?g" using assms Some alist_all_lookup [of "cache_ok mgr" "groups mgr" gid g]
      by (auto simp: manager_ok_def cache_ok_def cached_after_cache stored_after_store)
    moreover have "cache_ok (put_group gid ?g ?m) = cache_ok ?m" by (intro ext cache_ok_cong) simp_all
    moreover have "alist_all (cache_ok ?m) (AList.update gid ?g (groups mgr))"
    proof (rule alist_all_replace)
      have "alist_all (cache_ok mgr) (groups mgr)" using assms by (simp add: manager_ok_def)
      then show "alist_all (\<lambda>i g. i \<noteq> gid \<longrightarrow> cache_ok ?m i g) (groups mgr)"
        by (rule alist_all_mono) (blast intro: others)
    qed (use assms here in \<open>simp_all add: manager_ok_def\<close>)
    ultimately show ?thesis using Some False assms known_key [OF Some]
      by (simp add: commit_offset_def manager_ok_def Let_def alist_all_update distinct_update length_update)
  qed
qed (use assms in \<open>auto simp: commit_offset_def\<close>)

lemma fold_delete_filter: "fold AList.delete ids m = filter (\<lambda>p. fst p \<notin> set ids) m"
proof (induction ids arbitrary: m)
  case (Cons i ids)
  have "AList.delete i m = filter (\<lambda>p. fst p \<noteq> i) m" by (induction m) auto
  with Cons show ?case by (simp add: filter_filter conj_commute)
qed simp

lemma shrink_ok:
  assumes "manager_ok mgr" "gs = filter f (groups mgr)"
    and "\<And>gid g. (gid, g) \<in> set gs \<Longrightarrow> store gid = offset_store mgr gid"
  shows "manager_ok (mgr\<lparr>groups := gs, active_group_count := int (length gs), offset_store := store\<rparr>)"
proof -
  have "length gs \<le> length (groups mgr)" by (simp add: assms(2))
  moreover have "distinct (map fst gs)" "alist_all group_ok gs" "alist_all (cache_ok mgr) gs"
    using assms(1) by (simp_all add: assms(2) manager_ok_def alist_all_filter distinct_map_filter)
  moreover from this(3) have "alist_all (cache_ok (mgr\<lparr>groups := gs, active_group_count := int (length gs), offset_store := store\<rparr>)) gs"
    using assms(3) by (force simp: alist_all_def list_all_iff cache_ok_def stored_offset_def)
  ultimately show ?thesis using assms(1) by (simp add: manager_ok_def)
qed

lemma cleanup_remove_ok:
  assumes "manager_ok mgr"
  shows "manager_ok (cleanup_remove ids mgr)"
  using shrink_ok [OF assms fold_delete_filter, of ids "offset_store mgr"] assms
  by (simp add: cleanup_remove_def Let_def)

lemma delete_group_ok:
  assumes "manager_ok mgr"
  shows "manager_ok (snd (delete_group gid mgr))"
proof -
  have "AList.delete gid (groups mgr) = filter (\<lambda>p. fst p \<noteq> gid) (groups mgr)"
    using fold_delete_filter [of "[gid]"] by simp
  then have "manager_ok (mgr\<lparr>groups := AList.delete gid (groups mgr), active_group_count := int (length (AList.delete gid (groups mgr))),
      offset_store := (offset_store mgr)(gid := None)\<rparr>)"
    by (intro shrink_ok [OF assms]) auto
  with assms show ?thesis by (simp add: delete_group_def Let_def split: option.split)
qed

lemma thread_flag_ok [simp]: "manager_ok (mgr\<lparr>cleanup_running := b\<rparr>) = manager_ok mgr"
proof -
  have "cache_ok (mgr\<lparr>cleanup_running := b\<rparr>) = cache_ok mgr" by (intro ext cache_ok_cong) simp_all
  then show ?thesis by (simp add: manager_ok_def)
qed

lemma run_op_ok: "manager_ok mgr \<Longrightarrow> manager_ok (run_op op mgr)"
  by (cases op) (simp_all add: join_group_ok leave_group_ok sync_group_ok heartbeat_ok commit_offset_ok
      check_timeouts_ok cleanup_remove_ok delete_group_ok setters_ok set_group_protocol_ok
      start_cleanup_loop_def stop_cleanup_loop_def)

lemma new_manager_ok: "manager_ok new_manager"
  by (simp add: manager_ok_def new_manager_def alist_all_def kMaxActiveGroups_def)

lemma run_ops_ok: "manager_ok mgr \<Longrightarrow> manager_ok (run_ops ops mgr)"
  unfolding run_ops_def by (rule fold_invariant) (rule run_op_ok)

end
