(* ===== verification/Consumer_Group_Properties.thy ===== *)
theory Consumer_Group_Properties
  imports Consumer_Group_Invariant
begin

text \<open>
  What the group coordinator promises its clients: the lifecycle of a group, sessions, committed
  offsets and the assignment that a completed rebalance computes.
\<close>

section \<open>Lookups after an operation\<close>

lemma lookup_update [simp]: "map_of (AList.update k v m) i = (if i = k then Some v else map_of m i)"
  by (simp add: update_conv)

lemma stored_put [simp]: "stored_offset i topic p (put_group gid g mgr) = stored_offset i topic p mgr"
  by (simp add: stored_offset_def)

lemma join_group_lookup:
  assumes "manager_ok mgr" "gid \<noteq> []" "mid \<noteq> []" "map_of (groups mgr) gid = Some g"
  shows "join_group gid mid protocol t now mgr =
     (if \<not> has_member g mid \<and> member_count g \<ge> kMaxMembersPerGroup then (Inl group_max_size_reached, mgr)
      else (Inr (), put_group gid (projr (join_locked mid protocol now g)) mgr))"
  using assms group_lookup [OF assms(1,4)]
  by (auto simp: join_group_def ensure_group_def join_locked_def join_enter_def group_ok_def Let_def)

lemma join_group_new:
  assumes "gid \<noteq> []" "mid \<noteq> []" "map_of (groups mgr) gid = None" "int (length (groups mgr)) < kMaxActiveGroups"
  shows "fst (join_group gid mid protocol t now mgr) = Inr ()"
  using assms by (simp add: join_group_def ensure_group_def Let_def new_group_def join_locked_def join_enter_def
      has_member_def member_count_def kMaxMembersPerGroup_def)


lemma all_joined: "group_ok gid g \<Longrightarrow> all_members_joined g"
  by (auto simp: group_ok_def all_members_joined_def alist_all_def list_all_iff member_ok_def)

lemma join_Preparing:
  assumes "group_ok gid g" "mid \<noteq> []" "state g = PreparingRebalance \<or> state g = CompletingRebalance"
    and "has_member g mid \<or> member_count g < kMaxMembersPerGroup"
  shows "\<exists>g'. join_locked mid protocol now g = Inr g' \<and> state g' = CompletingRebalance
     \<and> generation g' = generation g + 1 \<and> fst ` set (members g') = insert mid (fst ` set (members g))"
proof -
  have "\<exists>e. join_enter mid protocol now g = Inr e"
    using assms(4) by (cases "has_member g mid") (simp_all add: join_enter_def Let_def)
  then obtain e where e: "join_enter mid protocol now g = Inr e" ..
  then have ok: "joined_ok gid mid e" using assms(1,2) by (rule_tac join_enter_ok)
  have same: "state e = state g" "generation e = generation g" "fst ` set (members e) = insert mid (fst ` set (members g))"
    using e by (clarsimp simp: join_enter_def Let_def on_member_def has_member_iff insert_absorb split: if_splits)+
  have "alist_all (\<lambda>i m. mem_generation m = generation e) (members e)"
    using ok by (auto simp: joined_ok_def member_ok_def elim!: alist_all_mono)
  then have "all_members_joined e" by (simp add: all_members_joined_def alist_all_def)
  moreover have "0 < member_count e" using ok by (cases "members e") (auto simp: joined_ok_def member_count_def)
  moreover have "leader_id e \<noteq> [] \<and> has_member e (leader_id e)" using leader_kept [OF ok] assms(3) same(1) by auto
  ultimately show ?thesis using assms(3) e same
    by (elim disjE) (simp_all add: join_locked_def join_transition_def on_members_def)
qed









section \<open>The group lifecycle\<close>

text \<open>
  C13: In every run of the coordinator, whatever the operations and their arguments, every group is
  consistent: it is Empty exactly when it has no members, its leader is one of its members and the
  only one flagged as leader, all members carry the group's generation, no member of a Stable
  group waits for a sync, limits on members, groups and session timeouts hold, the group count is
  exact, and the cached offsets agree with the offset store.
\<close>

theorem group_run_invariant: "manager_ok (run_ops ops new_manager)"
  by (rule run_ops_ok [OF new_manager_ok])


definition demo_manager :: Manager where
  "demo_manager = run_ops [Join ''g'' ''a'' ''range'' 0 0] new_manager"

lemma demo_manager_ok: "manager_ok demo_manager"
  unfolding demo_manager_def by (rule run_ops_ok [OF new_manager_ok])

lemma demo_group:
  "map_of (groups demo_manager) ''g'' \<noteq> None \<and> state (the (map_of (groups demo_manager) ''g'')) = Stable
   \<and> map fst (members (the (map_of (groups demo_manager) ''g''))) = [''a'']
   \<and> generation (the (map_of (groups demo_manager) ''g'')) = 1"
  by code_simp

lemma demo_lookup:
  obtains g where "map_of (groups demo_manager) ''g'' = Some g" "state g = Stable" "fst ` set (members g) = {''a''}"
    "member_count g = 1" "generation g = 1"
proof -
  obtain g where g: "map_of (groups demo_manager) ''g'' = Some g" "map fst (members g) = [''a'']"
    "state g = Stable" "generation g = 1"
    using demo_group by auto
  from arg_cong [OF g(2), of set] arg_cong [OF g(2), of length]
  have "fst ` set (members g) = {''a''}" "length (members g) = 1" by simp_all
  with g that show ?thesis by (simp add: member_count_def)
qed


text \<open>
  C37: What a join answers: each error code has its cause, a refusal changes nothing, and otherwise
  the join is accepted.
\<close>

theorem join_group_outcomes:
  assumes "manager_ok mgr"
  shows "fst (join_group gid mid protocol t now mgr) =
     (if gid = [] then Inl invalid_group_id else if mid = [] then Inl member_id_required
      else case map_of (groups mgr) gid of
          None \<Rightarrow> if int (length (groups mgr)) \<ge> kMaxActiveGroups then Inl group_max_size_reached else Inr ()
        | Some g \<Rightarrow> if \<not> has_member g mid \<and> member_count g \<ge> kMaxMembersPerGroup
                    then Inl group_max_size_reached else Inr ())
    \<and> (fst (join_group gid mid protocol t now mgr) = Inr () \<or> snd (join_group gid mid protocol t now mgr) = mgr)"
proof -
  consider "gid = [] \<or> mid = []" | "gid \<noteq> []" "mid \<noteq> []" "map_of (groups mgr) gid = None"
    | g where "gid \<noteq> []" "mid \<noteq> []" "map_of (groups mgr) gid = Some g" by fastforce
  then show ?thesis
  proof cases
    case 2
    then show ?thesis using join_group_new [of gid mid mgr protocol t now]
      by (cases "int (length (groups mgr)) < kMaxActiveGroups") (simp_all add: join_group_def ensure_group_def)
  next
    case (3 g)
    then show ?thesis using join_group_lookup [OF assms 3, of protocol t now] by simp
  qed (auto simp: join_group_def)
qed

theorem join_group_outcomes_witness:
  "fst (join_group ''g'' ''b'' [] 1 2 demo_manager) = Inr () \<and> fst (join_group [] ''b'' [] 1 2 demo_manager) = Inl invalid_group_id"
proof -
  obtain g where g: "map_of (groups demo_manager) ''g'' = Some g" "member_count g = 1" by (rule demo_lookup)
  with join_group_outcomes [OF demo_manager_ok, of "''g''" "''b''" "[]" 1 2]
    join_group_outcomes [OF demo_manager_ok, of "[]" "''b''" "[]" 1 2]
  show ?thesis by (simp add: kMaxMembersPerGroup_def)
qed

text \<open>
  A rebalance does not wait for the members: all members always carry the group's generation,
  so the first join after \<open>PreparingRebalance\<close> (even a repeated one by the same member) moves the
  group to \<open>CompletingRebalance\<close> and starts a new generation.
\<close>

theorem first_rejoin_ends_preparation:
  assumes "manager_ok mgr" "gid \<noteq> []" "map_of (groups mgr) gid = Some g" "state g = PreparingRebalance"
    and "fst (join_group gid mid protocol t now mgr) = Inr ()"
  shows "group_state gid (snd (join_group gid mid protocol t now mgr)) = CompletingRebalance
     \<and> group_generation gid (snd (join_group gid mid protocol t now mgr)) = generation g + 1"
proof -
  have mid: "mid \<noteq> []" using assms(2,5) by (auto simp: join_group_def)
  note look = join_group_lookup [OF assms(1,2) mid assms(3), of protocol t now]
  then have "has_member g mid \<or> member_count g < kMaxMembersPerGroup" using assms(5) by (auto split: if_splits)
  then obtain g' where "join_locked mid protocol now g = Inr g'" "state g' = CompletingRebalance"
    "generation g' = generation g + 1"
    using join_Preparing [OF group_lookup [OF assms(1,3)] mid] assms(4) by blast
  then show ?thesis using look assms(5) by (auto simp: group_state_def group_generation_def split: if_splits)
qed

theorem first_rejoin_ends_preparation_witness:
  "group_state ''g'' (snd (join_group ''g'' ''b'' [] 3 4 (run_ops [Join ''g'' ''b'' [] 1 2] demo_manager))) = CompletingRebalance"
proof -
  let ?m = "run_ops [Join ''g'' ''b'' [] 1 2] demo_manager"
  have "map_of (groups ?m) ''g'' \<noteq> None \<and> state (the (map_of (groups ?m) ''g'')) = PreparingRebalance
      \<and> fst (join_group ''g'' ''b'' [] 3 4 ?m) = Inr ()" by code_simp
  then show ?thesis using first_rejoin_ends_preparation [OF run_ops_ok [OF demo_manager_ok]] by auto
qed

text \<open>
  Generations restart: when the only member leaves, the group is Empty with generation 0, and the
  next member to join, whoever it is, gets generation 1 again, so a generation number does not
  identify an incarnation of the group.
\<close>

theorem generation_restarts:
  assumes "manager_ok mgr" "gid \<noteq> []" "map_of (groups mgr) gid = Some g" "members g = [(mid, m)]" "mid' \<noteq> []"
  shows "group_state gid (run_ops [Leave h gid mid t1 t2] mgr) = Empty
     \<and> group_generation gid (run_ops [Leave h gid mid t1 t2, Join gid mid' protocol t3 t4] mgr) = 1"
proof -
  let ?g = "leave_locked h mid t1 t2 g"
  let ?m = "snd (leave_group h gid mid t1 t2 mgr)"
  have g': "state ?g = Empty" "generation ?g = 0" "members ?g = []"
    using assms(4) by (simp_all add: leave_locked_def after_departure_def group_is_empty_def)
  have m: "?m = put_group gid ?g mgr" using assms(3) by (simp add: leave_group_def)
  have "manager_ok ?m" using assms(1) by (rule leave_group_ok)
  moreover have "map_of (groups ?m) gid = Some ?g" by (simp add: m)
  ultimately have "snd (join_group gid mid' protocol t3 t4 ?m) = put_group gid (projr (join_locked mid' protocol t4 ?g)) ?m"
    using assms(2,5) g' by (simp add: join_group_lookup member_count_def kMaxMembersPerGroup_def)
  moreover have "generation (projr (join_locked mid' protocol t4 ?g)) = 1"
    using g' by (simp add: join_locked_def join_enter_def has_member_def member_count_def kMaxMembersPerGroup_def
        join_transition_def Let_def on_member_def)
  ultimately show ?thesis using g' m by (simp add: run_ops_def group_state_def group_generation_def)
qed

theorem generation_restarts_witness:
  "group_generation ''g'' (run_ops [Leave 0 ''g'' ''a'' 1 2, Join ''g'' ''z'' [] 3 4] demo_manager) = 1
   \<and> group_generation ''g'' demo_manager = 1"
proof -
  obtain g where g: "map_of (groups demo_manager) ''g'' = Some g" "fst ` set (members g) = {''a''}" "member_count g = 1"
    "generation g = 1" by (rule demo_lookup)
  from g(3) obtain p where "members g = [p]" by (cases "members g") (auto simp: member_count_def)
  with g(2) obtain m where "members g = [(''a'', m)]" by (cases p) auto
  with generation_restarts [OF demo_manager_ok _ g(1), of "''a''" m "''z''" 0 1 2 "[]" 3 4] g
  show ?thesis by (simp add: group_generation_def)
qed

section \<open>Sessions\<close>

lemma check_timeouts_lookup:
  assumes "distinct (map fst (groups mgr))"
  shows "map_of (groups (check_session_timeouts h now mgr)) gid = map_option (expire_members (h gid) now) (map_of (groups mgr) gid)"
proof -
  let ?f = "\<lambda>gid mgr. case map_of (groups mgr) gid of None \<Rightarrow> mgr | Some g \<Rightarrow> put_group gid (expire_members (h gid) now g) mgr"
  have "distinct ids \<Longrightarrow> map_of (groups (fold ?f ids mgr)) gid =
      (if gid \<in> set ids then map_option (expire_members (h gid) now) (map_of (groups mgr) gid) else map_of (groups mgr) gid)" for ids mgr
    by (induction ids arbitrary: mgr) (auto split: option.split)
  from this [OF assms, of mgr] show ?thesis
    by (cases "gid \<in> fst ` set (groups mgr)") (simp_all add: check_session_timeouts_def map_of_eq_None_iff [THEN iffD2])
qed

lemma session_check:
  assumes "manager_ok mgr" "map_of (groups mgr) gid = Some g"
  shows "group_members gid (check_session_timeouts h now mgr) =
     sort (map fst (filter (\<lambda>(i, m). \<not> duration_ms (now - last_heartbeat m) > mem_session_timeout_ms m) (members g)))"
proof -
  have look: "map_of (groups (check_session_timeouts h now mgr)) gid = Some (expire_members (h gid) now g)"
    using assms check_timeouts_lookup by (simp add: manager_ok_def)
  have left: "map fst (members (after_departure k lg now g')) = map fst (members g')" for k lg g'
    by (simp add: after_departure_def elect_first_def on_member_def on_members_def Let_def)
  have "map fst (members (expire_members (h gid) now g)) = map fst (filter (\<lambda>(i, m). \<not> session_expired now m) (members g))"
  proof (cases "filter (\<lambda>(i, m). session_expired now m) (members g) = []")
    case True
    then have "filter (\<lambda>(i, m). \<not> session_expired now m) (members g) = members g"
      by (auto simp: filter_empty_conv filter_id_conv)
    then show ?thesis by (simp add: expire_members_def True)
  next
    case False
    then show ?thesis using group_lookup [OF assms] left by (auto simp: expire_members_def group_ok_def Let_def)
  qed
  then show ?thesis by (simp add: group_members_def look session_expired_def)
qed

text \<open>
  The session check removes exactly the members whose last heartbeat is older than their session
  timeout, from every group.
\<close>

theorem session_check_exact:
  assumes "manager_ok mgr" "map_of (groups mgr) gid = Some g"
  shows "group_members gid (check_session_timeouts h now mgr) =
     sort (map fst (filter (\<lambda>(i, m). \<not> duration_ms (now - last_heartbeat m) > mem_session_timeout_ms m) (members g)))"
  using assms by (rule session_check)

theorem session_check_exact_witness: "group_members ''g'' (check_session_timeouts (\<lambda>_. 0) 45001000000 demo_manager) = []"
proof -
  obtain g where g: "map_of (groups demo_manager) ''g'' = Some g" by (rule demo_lookup)
  have "list_all (\<lambda>(i, m). last_heartbeat m = 0 \<and> mem_session_timeout_ms m = 45000) (members (the (map_of (groups demo_manager) ''g'')))"
    by code_simp
  then have "filter (\<lambda>(i, m). \<not> duration_ms (45001000000 - last_heartbeat m) > mem_session_timeout_ms m) (members g) = []"
    using g by (auto simp: filter_empty_conv list_all_iff duration_ms_def)
  then show ?thesis using session_check_exact [OF demo_manager_ok g, of "\<lambda>_. 0" 45001000000] by simp
qed

lemma member_generation:
  "group_ok gid g \<Longrightarrow> map_of (members g) mid = Some m \<Longrightarrow> mem_generation m = generation g"
  by (auto simp: group_ok_def member_ok_def dest: alist_all_lookup)

text \<open>
  A heartbeat is accepted exactly for a member of an existing group that names the group's
  current generation; each refusal has its code and changes nothing.
\<close>

theorem heartbeat_outcomes:
  assumes "manager_ok mgr"
  shows "fst (heartbeat gid mid gen now mgr) = (case map_of (groups mgr) gid of
         None \<Rightarrow> Inl group_id_not_found
       | Some g \<Rightarrow> if \<not> has_member g mid then Inl unknown_member_id
                   else if gen \<noteq> generation g then Inl illegal_generation else Inr ())
     \<and> (fst (heartbeat gid mid gen now mgr) = Inr () \<or> snd (heartbeat gid mid gen now mgr) = mgr)"
  using group_lookup [OF assms, of gid] member_generation
  by (auto simp: heartbeat_def has_member_def split: option.split)

theorem heartbeat_outcomes_witness:
  "fst (heartbeat ''g'' ''a'' 7 9 demo_manager) = Inl illegal_generation \<and> fst (heartbeat ''x'' ''a'' 1 9 demo_manager) = Inl group_id_not_found"
proof -
  obtain g where g: "map_of (groups demo_manager) ''g'' = Some g" "fst ` set (members g) = {''a''}" "generation g = 1"
    by (rule demo_lookup)
  have "map_of (groups demo_manager) ''x'' = None" by code_simp
  with heartbeat_outcomes [OF demo_manager_ok, of "''g''" "''a''" 7 9]
    heartbeat_outcomes [OF demo_manager_ok, of "''x''" "''a''" 1 9] g
  show ?thesis by (simp add: has_member_iff)
qed

text \<open>
  A member whose heartbeat was accepted survives every session check until its session timeout
  has passed.
\<close>

theorem heartbeat_renews_session:
  assumes "manager_ok mgr" "map_of (groups mgr) gid = Some g" "map_of (members g) mid = Some m"
    and "fst (heartbeat gid mid gen t mgr) = Inr ()" "duration_ms (now - t) \<le> mem_session_timeout_ms m"
  shows "mid \<in> set (group_members gid (check_session_timeouts h now (snd (heartbeat gid mid gen t mgr))))"
proof -
  let ?g = "(on_member mid (last_heartbeat_update (\<lambda>_. t)) g)\<lparr>last_activity := t\<rparr>"
  have hb: "snd (heartbeat gid mid gen t mgr) = put_group gid ?g mgr"
    using assms(2-4) by (auto simp: heartbeat_def split: if_splits)
  have "manager_ok (put_group gid ?g mgr)" using heartbeat_ok [OF assms(1), of gid mid gen t] by (simp add: hb)
  moreover have "map_of (groups (put_group gid ?g mgr)) gid = Some ?g" by simp
  ultimately have eq: "group_members gid (check_session_timeouts h now (put_group gid ?g mgr)) =
      sort (map fst (filter (\<lambda>(i, m). \<not> duration_ms (now - last_heartbeat m) > mem_session_timeout_ms m) (members ?g)))"
    by (rule session_check)
  have "map_of (members ?g) mid = Some (m\<lparr>last_heartbeat := t\<rparr>)" using assms(3) by (simp add: on_member_def)
  then have "(mid, m\<lparr>last_heartbeat := t\<rparr>) \<in> set (members ?g)" by (rule map_of_SomeD)
  then have "(mid, m\<lparr>last_heartbeat := t\<rparr>) \<in> set (filter (\<lambda>(i, m). \<not> duration_ms (now - last_heartbeat m) > mem_session_timeout_ms m) (members ?g))"
    using assms(5) by simp
  from pair_key [OF this] show ?thesis unfolding hb eq by simp
qed

theorem heartbeat_renews_session_witness:
  "''a'' \<in> set (group_members ''g'' (check_session_timeouts (\<lambda>_. 0) 60000000000 (snd (heartbeat ''g'' ''a'' 1 20000000000 demo_manager))))"
proof -
  obtain g where g: "map_of (groups demo_manager) ''g'' = Some g" by (rule demo_lookup)
  have "map_of (members (the (map_of (groups demo_manager) ''g''))) ''a'' \<noteq> None
      \<and> mem_session_timeout_ms (the (map_of (members (the (map_of (groups demo_manager) ''g''))) ''a'')) = 45000
      \<and> fst (heartbeat ''g'' ''a'' 1 20000000000 demo_manager) = Inr ()" by code_simp
  with g obtain m where "map_of (members g) ''a'' = Some m" "mem_session_timeout_ms m = 45000"
    "fst (heartbeat ''g'' ''a'' 1 20000000000 demo_manager) = Inr ()" by auto
  then show ?thesis
    using heartbeat_renews_session [OF demo_manager_ok g, of "''a''" m 1 20000000000 60000000000 "\<lambda>_. 0"]
    by (simp add: duration_ms_def)
qed

section \<open>Committed offsets\<close>

text \<open>The operations that may change what is stored for a partition: commits to it, and deleting the group.\<close>

fun touches :: "string \<Rightarrow> string \<Rightarrow> int \<Rightarrow> GroupOp \<Rightarrow> bool" where
  "touches gid topic p (Commit gid' topic' p' off now) = (gid' = gid \<and> topic' = topic \<and> p' = p)"
| "touches gid topic p (DeleteGroup gid') = (gid' = gid)"
| "touches gid topic p _ = False"

lemma ensure_store: "ensure_group gid t mgr = Inr (g, mgr') \<Longrightarrow> offset_store mgr' = offset_store mgr"
  by (auto simp: ensure_group_def Let_def split: option.splits if_splits)

lemma store_frame [frame]:
  "offset_store (snd (join_group gid mid protocol t now mgr)) = offset_store mgr"
  "offset_store (snd (leave_group h gid mid t now mgr)) = offset_store mgr"
  "offset_store (snd (sync_group pc gid mid t now mgr)) = offset_store mgr"
  "offset_store (snd (heartbeat gid mid gen now mgr)) = offset_store mgr"
  "offset_store (cleanup_remove ids mgr) = offset_store mgr"
  "offset_store (on_group gid f mgr) = offset_store mgr"
  "offset_store (snd (set_group_protocol gid protocol mgr)) = offset_store mgr"
  by (auto simp: join_group_def leave_group_def sync_group_def heartbeat_def cleanup_remove_def on_group_def
      set_group_protocol_def Let_def split: option.split sum.split dest: ensure_store)

lemma store_timeouts [frame]: "offset_store (check_session_timeouts h now mgr) = offset_store mgr"
  unfolding check_session_timeouts_def
  by (rule fold_invariant [where I = "\<lambda>m. offset_store m = offset_store mgr"]) (auto split: option.split)

lemma commit_stores:
  "stored_offset gid' topic' q (snd (commit_offset gid topic p off now mgr)) =
     (if gid = [] \<or> topic = [] \<or> p < 0 \<or> \<not> (gid' = gid \<and> topic' = topic \<and> q = p)
      then stored_offset gid' topic' q mgr
      else Some \<lparr>committed_offset = off, metadata = [], leader_epoch = 0, commit_timestamp = now\<rparr>)"
  by (auto simp: commit_offset_def Let_def stored_after_store split: option.split)

lemma untouched: "\<not> touches gid topic p op \<Longrightarrow> stored_offset gid topic p (run_op op mgr) = stored_offset gid topic p mgr"
proof (cases op)
  case (DeleteGroup i)
  then show "\<not> touches gid topic p op \<Longrightarrow> ?thesis"
    by (simp add: stored_offset_def delete_group_def Let_def split: option.split)
qed (auto simp: commit_stores, (simp_all add: frame stored_offset_def subscribe_topic_def unsubscribe_topic_def
      set_session_timeout_def start_cleanup_loop_def stop_cleanup_loop_def))

lemma untouched_run:
  "list_all (\<lambda>op. \<not> touches gid topic p op) ops \<Longrightarrow> stored_offset gid topic p (run_ops ops mgr) = stored_offset gid topic p mgr"
  unfolding run_ops_def by (induction ops arbitrary: mgr) (simp_all add: untouched)

text \<open>
  C25: A committed offset is what a fetch returns, through any operations in between (joins, leaves,
  rebalances, timeouts, cleanup of the group) except a later commit to the same partition and the
  deletion of the group.
\<close>

theorem committed_offset_survives:
  assumes "fst (commit_offset gid topic p off now mgr) = Inr ()" "list_all (\<lambda>op. \<not> touches gid topic p op) ops"
  shows "fetch_offset gid topic p (run_ops ops (snd (commit_offset gid topic p off now mgr))) = off"
proof -
  have "gid \<noteq> [] \<and> topic \<noteq> [] \<and> 0 \<le> p" using assms(1) by (auto simp: commit_offset_def Let_def split: if_splits)
  then show ?thesis by (simp add: fetch_offset_def untouched_run [OF assms(2)] commit_stores)
qed

theorem committed_offset_survives_witness:
  "fetch_offset ''g'' ''t'' 2
     (run_ops [Leave 0 ''g'' ''a'' 1 2, CleanupRemove [''g''], Commit ''g'' ''t'' 3 50 9]
        (snd (commit_offset ''g'' ''t'' 2 42 8 demo_manager))) = 42"
proof -
  have "fst (commit_offset ''g'' ''t'' 2 42 8 demo_manager) = Inr ()" by code_simp
  then show ?thesis by (intro committed_offset_survives) simp_all
qed

lemma fetch_is_store:
  assumes "manager_ok mgr"
  shows "fetch_offset gid topic p mgr =
     (case stored_offset gid topic p mgr of None \<Rightarrow> kInvalidOffset | Some meta \<Rightarrow> committed_offset meta)"
proof (cases "map_of (groups mgr) gid")
  case (Some g)
  then have "cache_ok mgr gid g" using assms by (auto simp: manager_ok_def dest: alist_all_lookup)
  then have "cached_offset topic p g = None" if "stored_offset gid topic p mgr = None"
    using that by (cases "cached_offset topic p g") (fastforce simp: cache_ok_def)+
  with Some show ?thesis by (auto simp: fetch_offset_def split: option.splits)
qed (simp add: fetch_offset_def split: option.split)

text \<open>
  In every run, the offset store alone decides what a fetch returns (the second lookup, in the
  group's cache, never finds anything else), and a batch fetch agrees with single fetches unless
  the topic has no commit at all, when it is empty.
\<close>

theorem fetches_agree:
  "fetch_offset gid topic p (run_ops ops new_manager) =
     (case stored_offset gid topic p (run_ops ops new_manager) of
        None \<Rightarrow> kInvalidOffset | Some meta \<Rightarrow> committed_offset meta)
   \<and> (fetch_offsets gid topic ps (run_ops ops new_manager) = []
      \<or> map (\<lambda>(q, off, meta). (q, off)) (fetch_offsets gid topic ps (run_ops ops new_manager)) =
          map (\<lambda>q. (q, fetch_offset gid topic q (run_ops ops new_manager))) ps)"
  by (simp add: fetch_is_store [OF run_ops_ok [OF new_manager_ok]] fetch_offsets_def stored_offset_def split: option.split)

section \<open>Assignments\<close>





text \<open>
  Assignments are balanced: round robin gives any two members numbers of partitions that differ by
  at most one, and range gives each member a contiguous block of each topic's partitions, of the
  average size rounded down or one more.
\<close>

theorem assignments_balanced:
  assumes "distinct ms" "distinct ts" "m \<in> set ms" "m' \<in> set ms" "t \<in> set ts"
  shows "length (share (assign_roundrobin ms ts counts) m) \<le> length (share (assign_roundrobin ms ts counts) m') + 1
    \<and> (\<exists>a n. n \<in> {count_of counts t div int (length ms), count_of counts t div int (length ms) + 1}
         \<and> filter (\<lambda>x. fst x = t) (share (assign_range ms ts counts) m) = map (Pair t) [a..a + n - 1])"
proof -
  obtain j j' where j: "m = sort ms ! j" "j < length ms" "m' = sort ms ! j'" "j' < length ms"
    using assms(3,4) by (metis in_set_conv_nth length_sort set_sort)
  have "ms \<noteq> []" using assms(3) by auto
  then show ?thesis using range_topics_share [of "sort ms" m ts t "empty_shares (sort ms)" counts] assms j
    by (simp add: roundrobin_share_length assign_range_def)
qed

theorem assignments_balanced_witness:
  "length (share (assign_roundrobin [''b'', ''a''] [''t''] [''t'' \<mapsto> 5]) ''b'')
     \<le> length (share (assign_roundrobin [''b'', ''a''] [''t''] [''t'' \<mapsto> 5]) ''a'') + 1"
  using assignments_balanced [of "[''b'', ''a'']" "[''t'']" "''b''" "''a''" "''t''" "[''t'' \<mapsto> 5]"] by simp

text \<open>
  Sticky assignment is exact for every previous assignment whose partitions carry real topics
  and numbers, and a member that nobody else contests keeps what it had, as far as it still exists,
  in its old order and before anything new.
\<close>

theorem sticky_keeps_previous:
  assumes "distinct ms" "distinct ts" "m \<in> set ms" "distinct (share previous m)"
    and "\<And>n. n \<in> set ms \<Longrightarrow> n \<noteq> m \<Longrightarrow> set (share previous n) \<inter> set (share previous m) = {}"
    and "\<And>n x. n \<in> set ms \<Longrightarrow> x \<in> set (share previous n) \<Longrightarrow> still_there counts x \<Longrightarrow> fst x \<in> set ts \<and> 0 \<le> snd x"
  shows "assigned ms (assign_sticky ms ts counts previous) = mset (topic_partitions ts counts)
    \<and> (\<exists>ys. share (assign_sticky ms ts counts previous) m = filter (still_there counts) (share previous m) @ ys)"
proof -
  have "ms \<noteq> []" using assms(3) by auto
  then have "assigned ms (assign_sticky ms ts counts previous) = mset (topic_partitions ts counts)"
    using assms(1,2,6) by (rule sticky_assigned)
  moreover have "\<exists>ys. share (assign_sticky ms ts counts previous) m = filter (still_there counts) (share previous m) @ ys"
    using assms(1,3,4,5) by (rule sticky_keeps)
  ultimately show ?thesis ..
qed

theorem sticky_keeps_previous_witness:
  "\<exists>ys. share (assign_sticky [''a'', ''b''] [''t''] [''t'' \<mapsto> 3] [''b'' \<mapsto> [(''t'', 2), (''t'', 7)]]) ''b'' = (''t'', 2) # ys"
proof -
  have "\<exists>ys. share (assign_sticky [''a'', ''b''] [''t''] [''t'' \<mapsto> 3] [''b'' \<mapsto> [(''t'', 2), (''t'', 7)]]) ''b'' =
      filter (still_there [''t'' \<mapsto> 3]) (share [''b'' \<mapsto> [(''t'', 2), (''t'', 7)]] ''b'') @ ys"
    by (rule conjunct2, rule sticky_keeps_previous) (auto simp: share_def split: if_splits)
  then show ?thesis by (simp add: share_def still_there_def)
qed

section \<open>Protocol selection\<close>

definition support :: "(string \<times> GroupMember) list \<Rightarrow> string \<Rightarrow> int" where
  "support ms p = int (length (filter (\<lambda>(i, m). mem_protocol_name m = p) ms))"

lemma count_protocols_support:
  "map_of (count_protocols ms) p = (if p \<noteq> [] \<and> support ms p > 0 then Some (support ms p) else None)"
proof (induction ms rule: rev_induct)
  case (snoc x ms)
  then show ?case by (cases x) (auto simp: count_protocols_def support_def split: option.splits)
qed (simp add: count_protocols_def support_def)

lemma fold_max:
  assumes "fold (\<lambda>(p, c) (best, n). if n < c then (p, c) else (best, n)) xs (b, k :: int) = (best, n)"
  shows "k \<le> n \<and> (\<forall>(p, c) \<in> set xs. c \<le> n) \<and> ((best, n) = (b, k) \<or> (best, n) \<in> set xs)"
  using assms
proof (induction xs arbitrary: b k)
  case (Cons x xs)
  obtain p c where x: "x = (p, c)" by fastforce
  show ?case using Cons.IH [of "if k < c then p else b" "if k < c then c else k"] Cons.prems
    by (cases "k < c") (auto simp: x)
qed simp

lemma count_protocols_distinct: "distinct (map fst (count_protocols ms))"
  unfolding count_protocols_def
  by (rule fold_invariant [where I = "\<lambda>c. distinct (map fst c)"]) (auto simp: distinct_update)

lemma support_bounds: "0 \<le> support ms p \<and> support ms p \<le> int (length ms)"
  by (simp add: support_def)

text \<open>
  Whatever the iteration order of its table, the protocol selection picks one that no other named
  protocol beats in supporting members.
\<close>

theorem select_protocol_most:
  assumes "\<And>xs. set (order xs) = set xs" "select_protocol order ms leader = Some p" "p' \<noteq> []"
  shows "support ms p' \<le> support ms p"
proof -
  let ?c = "count_protocols ms"
  obtain best n where bn: "fold (\<lambda>(p, c) (best, n). if n < c then (p, c) else (best, n)) (order ?c) ([], 0) = (best, n)"
    by fastforce
  consider "?c = []" | "map_of ?c p = Some (int (length ms))" | "0 < n" "p = best"
    using assms(2) bn by (auto simp: select_protocol_def Let_def split: if_splits option.splits)
  then show ?thesis
  proof cases
    case 1
    then have "support ms p' \<le> 0" using count_protocols_support [of ms p'] assms(3) by (auto split: if_splits)
    then show ?thesis using support_bounds [of ms p] by linarith
  next
    case 2
    then have "support ms p = int (length ms)" using count_protocols_support [of ms p] by (auto split: if_splits)
    then show ?thesis using support_bounds [of ms p'] by simp
  next
    case 3
    note m = fold_max [OF bn, unfolded assms(1)]
    then have "map_of ?c best = Some n" using 3(1) count_protocols_distinct by (auto intro: map_of_is_SomeI)
    then have n: "n = support ms p" using count_protocols_support [of ms best] 3(2) by (auto split: if_splits)
    show ?thesis
    proof (cases "0 < support ms p'")
      case True
      then have "(p', support ms p') \<in> set ?c" using assms(3) count_protocols_support [of ms p'] by (auto dest: map_of_SomeD)
      then show ?thesis using m n by auto
    next
      case False
      then show ?thesis using support_bounds [of ms p] by linarith
    qed
  qed
qed

theorem select_protocol_most_witness:
  "support [(''a'', new_member ''a'' ''sticky'' 0 (new_group ''g'' 0)), (''b'', new_member ''b'' [] 0 (new_group ''g'' 0)),
      (''c'', new_member ''c'' ''sticky'' 0 (new_group ''g'' 0))] ''range''
   \<le> support [(''a'', new_member ''a'' ''sticky'' 0 (new_group ''g'' 0)), (''b'', new_member ''b'' [] 0 (new_group ''g'' 0)),
      (''c'', new_member ''c'' ''sticky'' 0 (new_group ''g'' 0))] ''sticky''"
proof (rule select_protocol_most)
  show "set (rev xs) = set xs" for xs :: "(string \<times> int) list" by simp
  show "select_protocol rev [(''a'', new_member ''a'' ''sticky'' 0 (new_group ''g'' 0)), (''b'', new_member ''b'' [] 0 (new_group ''g'' 0)),
      (''c'', new_member ''c'' ''sticky'' 0 (new_group ''g'' 0))] ''b'' = Some ''sticky''" by code_simp
qed simp

section \<open>The cleanup race\<close>

text \<open>
  The cleanup can remove a group that is in use: it collects the groups that have long been empty, releases the
  lock, and then erases them without looking again. Here a member joins in between, and the group
  with its member is gone.
\<close>

theorem cleanup_removes_live_group:
  "\<exists>mgr ids. ids = cleanup_scan 86400001000000 mgr \<and> manager_ok mgr
     \<and> group_members ''g'' (run_ops [Join ''g'' ''b'' [] 1 1] mgr) = [''b'']
     \<and> group_state ''g'' (run_ops [Join ''g'' ''b'' [] 1 1, CleanupRemove ids] mgr) = Dead
     \<and> fst (heartbeat ''g'' ''b'' 1 2 (run_ops [Join ''g'' ''b'' [] 1 1, CleanupRemove ids] mgr)) = Inl group_id_not_found"
proof -
  let ?m = "run_ops [Leave 0 ''g'' ''a'' 0 0] demo_manager"
  let ?ids = "cleanup_scan 86400001000000 ?m"
  have "group_members ''g'' (run_ops [Join ''g'' ''b'' [] 1 1] ?m) = [''b'']" by code_simp
  moreover have "group_state ''g'' (run_ops [Join ''g'' ''b'' [] 1 1, CleanupRemove ?ids] ?m) = Dead" by code_simp
  moreover have "fst (heartbeat ''g'' ''b'' 1 2 (run_ops [Join ''g'' ''b'' [] 1 1, CleanupRemove ?ids] ?m)) = Inl group_id_not_found"
    by code_simp
  ultimately show ?thesis using run_ops_ok [OF demo_manager_ok] by blast
qed

end
