(* ===== verification/Transactions.thy ===== *)
theory Transactions
  imports Interleaving "HOL-Library.Product_Lexorder" "HOL-Library.List_Lexorder" "HOL-Library.Char_ord"
begin

text \<open>
  The transaction coordinator, \<^verbatim>\<open>src/torrent/broker/transaction_coordinator.cpp\<close>: producer ids and epochs,
  the transaction of each transactional id, and the two background passes. A function models a
  method, or the part of one that runs under one lock where several threads can come in between
  (\<open>init_producer_id\<close>, the expiry). \<^verbatim>\<open>std::mutex\<close> is not recursive: a call that waits for a
  \<^verbatim>\<open>state_mutex\<close> that is never released is \<open>Blocked\<close>. \<^verbatim>\<open>PartitionManager::is_leader\<close> is an argument.
  Times are nanoseconds; epochs are \<^verbatim>\<open>int16_t\<close> with the wrap-around written out.
\<close>

section \<open>State\<close>

datatype txn_state_t =
  txn_empty | ongoing | prepare_commit | prepare_abort | complete_commit | complete_abort | txn_dead

record TransacationIdState =
  transactional_id :: string
  producer_id :: int
  producer_epoch :: int
  txn_state :: txn_state_t
  txn_partitions :: "(string \<times> int) list"
  txn_offsets :: "(string \<times> int \<times> int) list"
  txn_start_time :: int
  tx_last_activity :: int
  created_at :: int
  state_mutex_held :: bool

record Coordinator =
  next_pid :: int
  block_end :: int
  txn_states :: "(string \<times> TransacationIdState) list"
  pid_to_transactional_id :: "(int \<times> string) list"
  timeout_running :: bool
  expiry_running :: bool
  tc_running :: bool
  transaction_timeout_ms :: int
  transactional_id_expiration_ms :: int
  transactions_enabled :: bool
  pids_allocated :: int
  active_transactions :: int

definition kDefaultTransactionTimeoutMs :: int where "kDefaultTransactionTimeoutMs = 60000"
definition kDefaultTransactionalIdExpirationMs :: int where "kDefaultTransactionalIdExpirationMs = 604800000"
definition kMaxPartitionsPerTxn :: nat where "kMaxPartitionsPerTxn = 5000"
definition kMinProducerId :: int where "kMinProducerId = 0"
definition kInvalidProducerId :: int where "kInvalidProducerId = -1"
definition kProducerIdBlockSize :: int where "kProducerIdBlockSize = 1000"

definition new_coordinator :: Coordinator where
  "new_coordinator = \<lparr>next_pid = kMinProducerId, block_end = kMinProducerId, txn_states = [],
     pid_to_transactional_id = [], timeout_running = False, expiry_running = False, tc_running = False,
     transaction_timeout_ms = kDefaultTransactionTimeoutMs,
     transactional_id_expiration_ms = kDefaultTransactionalIdExpirationMs, transactions_enabled = True,
     pids_allocated = 0, active_transactions = 0\<rparr>"

definition wrap16 :: "int \<Rightarrow> int" where
  "wrap16 x = (x + 32768) mod 65536 - 32768"

definition millis :: "int \<Rightarrow> int" where
  "millis d = (if d < 0 then - ((- d) div 1000000) else d div 1000000)"

definition is_expired :: "int \<Rightarrow> int \<Rightarrow> TransacationIdState \<Rightarrow> bool" where
  "is_expired expiration_ms now st \<longleftrightarrow> millis (now - tx_last_activity st) > expiration_ms"

definition has_timed_out :: "int \<Rightarrow> int \<Rightarrow> TransacationIdState \<Rightarrow> bool" where
  "has_timed_out timeout_ms now st \<longleftrightarrow> millis (now - txn_start_time st) > timeout_ms"

definition reset_transaction :: "int \<Rightarrow> TransacationIdState \<Rightarrow> TransacationIdState" where
  "reset_transaction now st =
     st\<lparr>txn_partitions := [], txn_offsets := [], txn_state := txn_empty, tx_last_activity := now\<rparr>"

definition put_txn :: "string \<Rightarrow> TransacationIdState \<Rightarrow> Coordinator \<Rightarrow> Coordinator" where
  "put_txn tid st c = c\<lparr>txn_states := AList.update tid st (txn_states c)\<rparr>"

section \<open>Producer ids\<close>

definition allocate :: "Coordinator \<Rightarrow> int \<times> Coordinator" where
  "allocate c =
     (let c = (if next_pid c \<ge> block_end c then c\<lparr>block_end := next_pid c + kProducerIdBlockSize\<rparr> else c)
      in (next_pid c, c\<lparr>next_pid := next_pid c + 1\<rparr>))"

definition initialize_from :: "int \<Rightarrow> Coordinator \<Rightarrow> Coordinator" where
  "initialize_from last_assigned_pid c =
     (let start = max (last_assigned_pid + 1) kMinProducerId
      in c\<lparr>next_pid := start, block_end := start + kProducerIdBlockSize\<rparr>)"

definition start :: "bool \<Rightarrow> Coordinator \<Rightarrow> Coordinator" where
  "start enable_transactions c =
     (if tc_running c then c
      else
        let c = c\<lparr>transactions_enabled := enable_transactions\<rparr>
        in if \<not> enable_transactions then c\<lparr>tc_running := True\<rparr>
           else (initialize_from 0 (c\<lparr>transaction_timeout_ms := kDefaultTransactionTimeoutMs,
                   transactional_id_expiration_ms := kDefaultTransactionalIdExpirationMs\<rparr>))
                \<lparr>timeout_running := True, expiry_running := True, tc_running := True\<rparr>)"

text \<open>
  The loop of \<^verbatim>\<open>shutdown\<close> over the states; it stops at a mutex that is held for ever. (A background
  thread that waits for that mutex itself makes \<^verbatim>\<open>shutdown\<close> wait earlier, when it joins the thread.)
\<close>

fun abort_all :: "int \<Rightarrow> (string \<times> TransacationIdState) list \<Rightarrow> bool \<times> (string \<times> TransacationIdState) list" where
  "abort_all now [] = (True, [])"
| "abort_all now ((tid, st) # xs) =
     (if state_mutex_held st then (False, (tid, st) # xs)
      else
        let st = (if txn_state st \<noteq> txn_empty \<and> txn_state st \<noteq> txn_dead then reset_transaction now st else st);
            (done, xs) = abort_all now xs
        in (done, (tid, st) # xs))"

definition tc_shutdown :: "int \<Rightarrow> Coordinator \<Rightarrow> unit outcome \<times> Coordinator" where
  "tc_shutdown now c =
     (if \<not> tc_running c then (Returned (Inr ()), c)
      else
        let c = c\<lparr>timeout_running := False, expiry_running := False\<rparr>;
            (done, xs) = abort_all now (txn_states c);
            c = c\<lparr>txn_states := xs\<rparr>
        in if done then (Returned (Inr ()), c\<lparr>tc_running := False\<rparr>) else (Blocked, c))"

text \<open>\<^verbatim>\<open>init_producer_id\<close>: the lookup under the shared lock, and the insertion under the exclusive one.\<close>

definition bump_epoch :: "int \<Rightarrow> int" where
  "bump_epoch e = (let e = wrap16 (e + 1) in if e < 0 then 0 else e)"

definition reinit :: "int \<Rightarrow> TransacationIdState \<Rightarrow> TransacationIdState" where
  "reinit now st =
     (let st = (if txn_state st \<noteq> txn_empty then reset_transaction now st else st)
      in st\<lparr>producer_epoch := bump_epoch (producer_epoch st), tx_last_activity := now\<rparr>)"

definition init_lookup :: "string \<Rightarrow> int \<Rightarrow> Coordinator \<Rightarrow> (int outcome \<times> Coordinator) option" where
  "init_lookup tid now c =
     (case map_of (txn_states c) tid of
        None \<Rightarrow> None
      | Some st \<Rightarrow>
          if state_mutex_held st then Some (Blocked, c)
          else Some (Returned (Inr (producer_id st)), put_txn tid (reinit now st) c))"

definition allocate_pid :: "Coordinator \<Rightarrow> int \<times> Coordinator" where
  "allocate_pid c = (let (pid, c) = allocate c in (pid, c\<lparr>pids_allocated := pids_allocated c + 1\<rparr>))"

definition fresh_state :: "string \<Rightarrow> int \<Rightarrow> int \<Rightarrow> TransacationIdState" where
  "fresh_state tid pid now = \<lparr>transactional_id = tid, producer_id = pid, producer_epoch = 0, txn_state = txn_empty,
     txn_partitions = [], txn_offsets = [], txn_start_time = 0, tx_last_activity = now, created_at = now,
     state_mutex_held = False\<rparr>"

definition init_store :: "string \<Rightarrow> int \<Rightarrow> int \<Rightarrow> Coordinator \<Rightarrow> Coordinator" where
  "init_store tid pid now c =
     (put_txn tid (fresh_state tid pid now) c)
       \<lparr>pid_to_transactional_id := AList.update pid tid (pid_to_transactional_id c)\<rparr>"

definition init_producer_id :: "string \<Rightarrow> int \<Rightarrow> int \<Rightarrow> Coordinator \<Rightarrow> int outcome \<times> Coordinator" where
  "init_producer_id tid timeout_ms now c =
     (if \<not> transactions_enabled c then (Returned (Inl invalid_txn_state), c)
      else if tid = [] then (let (pid, c) = allocate_pid c in (Returned (Inr pid), c))
      else if timeout_ms \<le> 0 then (Returned (Inl invalid_transaction_timeout), c)
      else case init_lookup tid now c of
          Some r \<Rightarrow> r
        | None \<Rightarrow> (let (pid, c) = allocate_pid c in (Returned (Inr pid), init_store tid pid now c)))"

section \<open>Transactions\<close>

text \<open>No error is \<open>None\<close>.\<close>

definition check_producer_epoch :: "int \<Rightarrow> int \<Rightarrow> error_code option" where
  "check_producer_epoch current_epoch presented_epoch =
     (if presented_epoch < current_epoch then Some producer_fenced
      else if presented_epoch > current_epoch then Some invalid_producer_epoch
      else None)"

text \<open>The common first phases of the requests: from the PID to the locked, epoch-checked state.\<close>

definition resolve :: "int \<Rightarrow> int \<Rightarrow> Coordinator \<Rightarrow> unit outcome + (string \<times> TransacationIdState)" where
  "resolve pid epoch c =
     (case map_of (pid_to_transactional_id c) pid of
        None \<Rightarrow> Inl (Returned (Inl unknown_producer_id))
      | Some tid \<Rightarrow>
          (case map_of (txn_states c) tid of
             None \<Rightarrow> Inl (Returned (Inl invalid_txn_state))
           | Some st \<Rightarrow>
               if state_mutex_held st then Inl Blocked
               else case check_producer_epoch (producer_epoch st) epoch of
                   Some e \<Rightarrow> Inl (Returned (Inl e))
                 | None \<Rightarrow> Inr (tid, st)))"

text \<open>Phase 5 of \<^verbatim>\<open>add_partitions_to_txn\<close>: partitions are appended until one is led elsewhere.\<close>

fun enrol :: "(string \<Rightarrow> int \<Rightarrow> bool) \<Rightarrow> (string \<times> int) list \<Rightarrow> (string \<times> int) list \<Rightarrow> bool \<times> (string \<times> int) list" where
  "enrol is_leader acc [] = (True, acc)"
| "enrol is_leader acc ((topic, p) # xs) =
     (if \<not> is_leader topic p then (False, acc) else enrol is_leader (acc @ [(topic, p)]) xs)"

definition add_partitions_to_txn ::
  "(string \<Rightarrow> int \<Rightarrow> bool) \<Rightarrow> int \<Rightarrow> int \<Rightarrow> (string \<times> int) list \<Rightarrow> int \<Rightarrow> int \<Rightarrow> Coordinator \<Rightarrow>
     unit outcome \<times> Coordinator" where
  "add_partitions_to_txn is_leader pid epoch partitions t now c =
     (if \<not> transactions_enabled c then (Returned (Inl invalid_txn_state), c)
      else if partitions = [] then (Returned (Inr ()), c)
      else if length partitions > kMaxPartitionsPerTxn then (Returned (Inl invalid_txn_state), c)
      else case resolve pid epoch c of
          Inl r \<Rightarrow> (r, c)
        | Inr (tid, st) \<Rightarrow>
            if txn_state st \<noteq> txn_empty \<and> txn_state st \<noteq> ongoing then (Returned (Inl invalid_txn_state), c)
            else
              let (st, c) = (if txn_state st = txn_empty
                             then (st\<lparr>txn_state := ongoing, txn_start_time := t\<rparr>,
                                   c\<lparr>active_transactions := active_transactions c + 1\<rparr>)
                             else (st, c));
                  (led, ps) = enrol is_leader (txn_partitions st) partitions
              in if \<not> led then (Returned (Inl not_leader_for_partition), put_txn tid (st\<lparr>txn_partitions := ps\<rparr>) c)
                 else (Returned (Inr ()),
                       put_txn tid (st\<lparr>txn_partitions := remdups_adj (sort ps), tx_last_activity := now\<rparr>) c))"

definition add_offsets_to_txn :: "int \<Rightarrow> int \<Rightarrow> string \<Rightarrow> int \<Rightarrow> Coordinator \<Rightarrow> unit outcome \<times> Coordinator" where
  "add_offsets_to_txn pid epoch group_id now c =
     (if \<not> transactions_enabled c then (Returned (Inl invalid_txn_state), c)
      else if group_id = [] then (Returned (Inl invalid_group_id), c)
      else case resolve pid epoch c of
          Inl r \<Rightarrow> (r, c)
        | Inr (tid, st) \<Rightarrow>
            if txn_state st \<noteq> ongoing then (Returned (Inl invalid_txn_state), c)
            else (Returned (Inr ()), put_txn tid (st\<lparr>tx_last_activity := now\<rparr>) c))"

text \<open>
  The markers are not appended to any log (a stub): what is left is the snapshot of the partitions
  under the state's mutex and the count of those led here. \<open>None\<close> when the mutex is held for ever.
\<close>

definition write_txn_markers :: "(string \<Rightarrow> int \<Rightarrow> bool) \<Rightarrow> string \<Rightarrow> Coordinator \<Rightarrow> (nat \<times> nat) option" where
  "write_txn_markers is_leader tid c =
     (case map_of (txn_states c) tid of
        None \<Rightarrow> Some (0, 0)
      | Some st \<Rightarrow>
          if state_mutex_held st then None
          else let led = filter (\<lambda>(topic, p). is_leader topic p) (txn_partitions st)
               in Some (length led, length (txn_partitions st) - length led))"

definition end_txn ::
  "(string \<Rightarrow> int \<Rightarrow> bool) \<Rightarrow> int \<Rightarrow> int \<Rightarrow> bool \<Rightarrow> int \<Rightarrow> Coordinator \<Rightarrow> unit outcome \<times> Coordinator" where
  "end_txn is_leader pid epoch committed now c =
     (if \<not> transactions_enabled c then (Returned (Inl invalid_txn_state), c)
      else case resolve pid epoch c of
          Inl r \<Rightarrow> (r, c)
        | Inr (tid, st) \<Rightarrow>
            if txn_state st \<noteq> ongoing then (Returned (Inl invalid_txn_state), c)
            else
              let st = st\<lparr>txn_state := (if committed then prepare_commit else prepare_abort), state_mutex_held := True\<rparr>;
                  c = put_txn tid st c
              in case write_txn_markers is_leader tid c of
                  None \<Rightarrow> (Blocked, c)
                | Some counts \<Rightarrow>
                    (Returned (Inr ()),
                     (put_txn tid (reset_transaction now (st\<lparr>txn_state := (if committed then complete_commit else complete_abort),
                                                           state_mutex_held := False\<rparr>)) c)
                       \<lparr>active_transactions := (if active_transactions c > 0 then active_transactions c - 1
                                               else active_transactions c)\<rparr>))"

section \<open>Background passes\<close>

definition timeout_scan :: "int \<Rightarrow> Coordinator \<Rightarrow> string list option" where
  "timeout_scan now c =
     (if list_ex (\<lambda>(tid, st). state_mutex_held st) (txn_states c) then None
      else Some (map fst (filter (\<lambda>(tid, st). txn_state st = ongoing \<and> has_timed_out (transaction_timeout_ms c) now st)
                  (txn_states c))))"

definition timeout_abort :: "(string \<Rightarrow> int \<Rightarrow> bool) \<Rightarrow> string \<Rightarrow> int \<Rightarrow> Coordinator \<Rightarrow> unit outcome \<times> Coordinator" where
  "timeout_abort is_leader tid now c =
     (case map_of (txn_states c) tid of
        None \<Rightarrow> (Returned (Inr ()), c)
      | Some st \<Rightarrow>
          (case write_txn_markers is_leader tid c of
             None \<Rightarrow> (Blocked, c)
           | Some counts \<Rightarrow>
               (Returned (Inr ()),
                (put_txn tid (reset_transaction now st) c)
                  \<lparr>active_transactions := (if active_transactions c > 0 then active_transactions c - 1
                                          else active_transactions c)\<rparr>)))"

definition expiry_scan :: "int \<Rightarrow> Coordinator \<Rightarrow> string list option" where
  "expiry_scan now c =
     (if list_ex (\<lambda>(tid, st). state_mutex_held st) (txn_states c) then None
      else Some (map fst (filter (\<lambda>(tid, st). (txn_state st = txn_empty \<or> txn_state st = txn_dead)
                             \<and> is_expired (transactional_id_expiration_ms c) now st) (txn_states c))))"

text \<open>Expiry of one id: the state goes under one lock, the PID mapping later under another.\<close>

definition expire_erase :: "string \<Rightarrow> Coordinator \<Rightarrow> int \<times> Coordinator" where
  "expire_erase tid c =
     (case map_of (txn_states c) tid of
        None \<Rightarrow> (kInvalidProducerId, c)
      | Some st \<Rightarrow> (producer_id st, c\<lparr>txn_states := AList.delete tid (txn_states c)\<rparr>))"

definition expire_unmap :: "int \<Rightarrow> Coordinator \<Rightarrow> Coordinator" where
  "expire_unmap pid c =
     (if pid \<noteq> kInvalidProducerId then c\<lparr>pid_to_transactional_id := AList.delete pid (pid_to_transactional_id c)\<rparr>
      else c)"

section \<open>Queries\<close>

definition get_transactional_id_for_pid :: "int \<Rightarrow> Coordinator \<Rightarrow> string" where
  "get_transactional_id_for_pid pid c =
     (case map_of (pid_to_transactional_id c) pid of None \<Rightarrow> [] | Some tid \<Rightarrow> tid)"

end
