(* ===== verification/Transaction_Properties.thy ===== *)
theory Transaction_Properties
  imports Transactions
begin

text \<open>
  Threads that call the transaction coordinator, interleaved at its critical sections, and what
  holds of producer ids, epochs and transactions.
\<close>

section \<open>Interleaved calls\<close>

text \<open>
  Between two critical sections a thread knows: that its id had no state (\<open>Missed\<close>), the PID it
  allocated for it (\<open>Allocated\<close>), or the PID of a state it erased (\<open>Erased\<close>). Every other call is
  one section. The second component of the shared state is a ghost: for whom a PID was allocated
  (the empty id for a producer without one).
\<close>

datatype TxnPoint = Ready | Missed string | Allocated string int | Erased int

type_synonym owned = "Coordinator \<times> (int \<rightharpoonup> string)"

inductive txn_step :: "owned \<Rightarrow> TxnPoint \<Rightarrow> owned \<Rightarrow> TxnPoint \<Rightarrow> bool" where
  one_shot: "transactions_enabled c \<Longrightarrow> allocate_pid c = (pid, c') \<Longrightarrow> txn_step (c, own) Ready (c', own(pid \<mapsto> [])) Ready"
| init_known: "transactions_enabled c \<Longrightarrow> tid \<noteq> [] \<Longrightarrow> init_lookup tid now c = Some (r, c') \<Longrightarrow>
    txn_step (c, own) Ready (c', own) Ready"
| init_missed: "transactions_enabled c \<Longrightarrow> tid \<noteq> [] \<Longrightarrow> init_lookup tid now c = None \<Longrightarrow>
    txn_step (c, own) Ready (c, own) (Missed tid)"
| init_allocate: "allocate_pid c = (pid, c') \<Longrightarrow>
    txn_step (c, own) (Missed tid) (c', own(pid \<mapsto> tid)) (Allocated tid pid)"
| init_insert: "txn_step (c, own) (Allocated tid pid) (init_store tid pid now c, own) Ready"
| add_partitions: "txn_step (c, own) Ready (snd (add_partitions_to_txn is_leader pid epoch ps t now c), own) Ready"
| add_offsets: "txn_step (c, own) Ready (snd (add_offsets_to_txn pid epoch gid now c), own) Ready"
| end_transaction: "txn_step (c, own) Ready (snd (end_txn is_leader pid epoch committed now c), own) Ready"
| timeout: "txn_step (c, own) Ready (snd (timeout_abort is_leader tid now c), own) Ready"
| erase: "expire_erase tid c = (pid, c') \<Longrightarrow> txn_step (c, own) Ready (c', own) (Erased pid)"
| unmap: "txn_step (c, own) (Erased pid) (expire_unmap pid c, own) Ready"
| stop: "txn_step (c, own) Ready (snd (tc_shutdown now c), own) Ready"

definition owners_ok :: "owned \<Rightarrow> bool" where
  "owners_ok s \<longleftrightarrow> (case s of (c, own) \<Rightarrow>
     alist_all (\<lambda>tid st. own (producer_id st) = Some tid) (txn_states c)
     \<and> alist_all (\<lambda>pid tid. own pid = Some tid) (pid_to_transactional_id c)
     \<and> (\<forall>pid \<in> dom own. pid < next_pid c))"

fun point_ok :: "owned \<Rightarrow> TxnPoint \<Rightarrow> bool" where
  "point_ok (c, own) (Allocated tid pid) = (own pid = Some tid)"
| "point_ok s _ = True"

lemma put_txn_fields [simp]:
  "next_pid (put_txn tid st c) = next_pid c" "pid_to_transactional_id (put_txn tid st c) = pid_to_transactional_id c"
  "txn_states (put_txn tid st c) = AList.update tid st (txn_states c)" "transactions_enabled (put_txn tid st c) = transactions_enabled c"
  "active_transactions (put_txn tid st c) = active_transactions c"
  by (simp_all add: put_txn_def)

lemma allocate_pid_fields:
  "allocate_pid c = (pid, c') \<Longrightarrow> pid = next_pid c \<and> next_pid c' = next_pid c + 1 \<and> txn_states c' = txn_states c
     \<and> pid_to_transactional_id c' = pid_to_transactional_id c"
  by (auto simp: allocate_pid_def allocate_def Let_def split: if_splits)

lemma abort_all_pids: "alist_all (\<lambda>tid st. P tid (producer_id st)) xs \<Longrightarrow> alist_all (\<lambda>tid st. P tid (producer_id st)) (snd (abort_all now xs))"
  by (induction now xs rule: abort_all.induct) (auto simp: alist_all_def reset_transaction_def split: prod.splits)

text \<open>An operation that rewrites one state, keeping its PID, keeps the ownership.\<close>

lemma resolve_found: "resolve pid epoch c = Inr (tid, st) \<Longrightarrow>
    map_of (pid_to_transactional_id c) pid = Some tid \<and> map_of (txn_states c) tid = Some st
    \<and> \<not> state_mutex_held st \<and> epoch = producer_epoch st"
  by (auto simp: resolve_def check_producer_epoch_def split: option.splits if_splits)

lemma owned_active [simp]: "owners_ok (c\<lparr>active_transactions := n\<rparr>, own) = owners_ok (c, own)"
  by (simp add: owners_ok_def)

lemma put_owned:
  assumes "map_of (txn_states c) tid = Some st" "owners_ok (c, own)" "producer_id st' = producer_id st"
  shows "owners_ok (put_txn tid st' c, own)"
proof -
  have "own (producer_id st) = Some tid"
    using assms(1,2) by (auto simp: owners_ok_def dest: alist_all_lookup)
  then show ?thesis using assms(2,3) by (auto simp: owners_ok_def intro!: alist_all_update)
qed

lemma requests_owned:
  assumes "owners_ok (c, own)"
  shows "owners_ok (snd (add_partitions_to_txn is_leader pid epoch ps t now c), own)"
    and "owners_ok (snd (add_offsets_to_txn pid epoch gid now c), own)"
    and "owners_ok (snd (end_txn is_leader pid epoch committed now c), own)"
proof -
  have "owners_ok (snd (add_partitions_to_txn is_leader pid epoch ps t now c), own)
    \<and> owners_ok (snd (add_offsets_to_txn pid epoch gid now c), own)
    \<and> owners_ok (snd (end_txn is_leader pid epoch committed now c), own)"
  proof (cases "resolve pid epoch c")
    case (Inl r)
    with assms show ?thesis by (simp add: add_partitions_to_txn_def add_offsets_to_txn_def end_txn_def)
  next
    case (Inr p)
    then obtain tid st where r: "resolve pid epoch c = Inr (tid, st)" by (cases p) auto
    have put: "owners_ok (put_txn tid st' c', own)"
      if "producer_id st' = producer_id st" "owners_ok (c', own)" "txn_states c' = txn_states c" for st' c'
      using that resolve_found [OF r] by (intro put_owned [of c' tid st]) auto
    have "owners_ok (snd (add_partitions_to_txn is_leader pid epoch ps t now c), own)"
      using assms by (simp add: add_partitions_to_txn_def r Let_def put split: prod.split)
    moreover have "owners_ok (snd (add_offsets_to_txn pid epoch gid now c), own)"
      using assms by (simp add: add_offsets_to_txn_def r put)
    moreover have "owners_ok (snd (end_txn is_leader pid epoch committed now c), own)"
      using assms by (simp add: end_txn_def write_txn_markers_def update_conv r Let_def put)
    ultimately show ?thesis by blast
  qed
  then show "owners_ok (snd (add_partitions_to_txn is_leader pid epoch ps t now c), own)"
    and "owners_ok (snd (add_offsets_to_txn pid epoch gid now c), own)"
    and "owners_ok (snd (end_txn is_leader pid epoch committed now c), own)" by auto
qed

lemma init_lookup_owned:
  assumes "owners_ok (c, own)" "init_lookup tid now c = Some (r, c')"
  shows "owners_ok (c', own)"
  using assms
  by (auto simp: init_lookup_def reinit_def reset_transaction_def Let_def split: option.splits if_splits intro!: put_owned)

lemma timeout_owned: "owners_ok (c, own) \<Longrightarrow> owners_ok (snd (timeout_abort is_leader tid now c), own)"
  by (auto simp: timeout_abort_def reset_transaction_def split: option.split intro!: put_owned)

lemma allocate_owned:
  assumes "owners_ok (c, own)" "allocate_pid c = (pid, c')"
  shows "owners_ok (c', own(pid \<mapsto> tid))" "own pid = None"
proof -
  note f = allocate_pid_fields [OF assms(2)]
  show new: "own pid = None" using assms(1) f by (force simp: owners_ok_def)
  have bound: "own q = Some x \<Longrightarrow> q < next_pid c" for q x using assms(1) by (auto simp: owners_ok_def)
  show "owners_ok (c', own(pid \<mapsto> tid))" using assms(1) f new
    by (auto simp: owners_ok_def dest: bound elim!: alist_all_mono)
qed

lemma txn_step_keeps:
  assumes "txn_step s p s' p'" "owners_ok s" "point_ok s p"
  shows "owners_ok s' \<and> point_ok s' p'"
  using assms
proof cases
  case (init_insert c own tid pid now)
  then show ?thesis using assms(2,3) by (auto simp: owners_ok_def init_store_def fresh_state_def intro!: alist_all_update)
next
  case (erase tid c pid c' own)
  then show ?thesis using assms(2)
    by (auto simp: expire_erase_def owners_ok_def split: option.splits intro: alist_all_delete)
next
  case (unmap c own pid)
  then show ?thesis using assms(2) by (auto simp: owners_ok_def expire_unmap_def intro: alist_all_delete)
next
  case (stop c own now)
  then show ?thesis using assms(2) abort_all_pids [of "\<lambda>tid pid. own pid = Some tid" "txn_states c" now]
    by (auto simp: owners_ok_def tc_shutdown_def Let_def split: prod.splits)
qed (auto simp: requests_owned init_lookup_owned timeout_owned allocate_owned)

text \<open>The ghost only grows, so what another thread allocated stays its own.\<close>

lemma owner_kept:
  assumes "txn_step s p s' p'" "owners_ok s" "snd s pid = Some tid"
  shows "snd s' pid = Some tid"
  using assms(1)
proof cases
  case (one_shot c pid' c' own)
  then show ?thesis using assms allocate_owned(2) [of c own pid' c'] by auto
next
  case (init_allocate c pid' c' own tid')
  then show ?thesis using assms allocate_owned(2) [of c own pid' c'] by auto
qed (use assms in auto)

interpretation txn: interleaved txn_step owners_ok point_ok
proof
  fix s p s' p'
  assume "owners_ok s" "point_ok s p" "txn_step s p s' p'"
  then show "owners_ok s' \<and> point_ok s' p'" by (intro txn_step_keeps)
next
  fix s p s' p' q
  assume "owners_ok s" "point_ok s p" "txn_step s p s' p'" "point_ok s q"
  then show "point_ok s' q" using owner_kept [of s p s' p'] by (cases s; cases s'; cases q) auto
qed

section \<open>Producer ids\<close>

text \<open>
  C15: Producer ids are never shared: while any number of threads initialise producers, send requests,
  abort and expire transactions, in every interleaving of their critical sections, two
  transactional ids have different PIDs, and a PID leads to the id it was allocated for.
\<close>

theorem pid_never_shared:
  assumes "(pool_step txn_step)\<^sup>*\<^sup>* ((start True new_coordinator, Map.empty), replicate n Ready) ((c, own), ps)"
    and "map_of (txn_states c) tid = Some st"
  shows "{tid'. \<exists>st'. map_of (txn_states c) tid' = Some st' \<and> producer_id st' = producer_id st} = {tid}
    \<and> map_of (pid_to_transactional_id c) (producer_id st) \<in> {None, Some tid}"
proof -
  have "owners_ok (start True new_coordinator, Map.empty)"
    by (simp add: owners_ok_def start_def new_coordinator_def initialize_from_def Let_def alist_all_def)
  moreover have "list_all (point_ok (start True new_coordinator, Map.empty)) (replicate n Ready)"
    by (simp add: list_all_length)
  ultimately have ok: "owners_ok (c, own)" by (rule txn.pool_run_inv [OF assms(1)])
  then have "own (producer_id st) = Some tid" using assms(2) by (auto simp: owners_ok_def dest: alist_all_lookup)
  moreover have "own (producer_id st') = Some tid'" if "map_of (txn_states c) tid' = Some st'" for tid' st'
    using ok that by (auto simp: owners_ok_def dest: alist_all_lookup)
  moreover have "own (producer_id st) = Some tid'" if "map_of (pid_to_transactional_id c) (producer_id st) = Some tid'" for tid'
    using ok that by (auto simp: owners_ok_def dest: alist_all_lookup)
  ultimately show ?thesis using assms(2)
    by (cases "map_of (pid_to_transactional_id c) (producer_id st)") fastforce+
qed

lemma init_run:
  assumes "transactions_enabled c" "tid \<noteq> []" "map_of (txn_states c) tid = None" "allocate_pid c = (pid, c')"
  shows "(pool_step txn_step)\<^sup>*\<^sup>* ((c, own), [Ready]) ((init_store tid pid now c', own(pid \<mapsto> tid)), [Ready])"
proof -
  have "init_lookup tid 0 c = None" using assms(3) by (simp add: init_lookup_def)
  then have "pool_step txn_step ((c, own), [Ready]) ((c, own), [Missed tid])"
    using assms(1,2) by (intro solo_step init_missed)
  moreover have "pool_step txn_step ((c, own), [Missed tid]) ((c', own(pid \<mapsto> tid)), [Allocated tid pid])"
    using assms(4) by (intro solo_step init_allocate)
  moreover have "pool_step txn_step ((c', own(pid \<mapsto> tid)), [Allocated tid pid]) ((init_store tid pid now c', own(pid \<mapsto> tid)), [Ready])"
    by (intro solo_step init_insert)
  ultimately show ?thesis by (meson converse_rtranclp_into_rtranclp rtranclp.rtrancl_refl)
qed

theorem pid_never_shared_witness:
  "{tid'. \<exists>st'. map_of (txn_states (init_store ''a'' 1 5 (snd (allocate_pid (start True new_coordinator))))) tid' = Some st'
      \<and> producer_id st' = 1} = {''a''}"
proof -
  let ?c = "start True new_coordinator"
  let ?d = "init_store ''a'' 1 5 (snd (allocate_pid ?c))"
  have "transactions_enabled ?c" "map_of (txn_states ?c) ''a'' = None" "allocate_pid ?c = (1, snd (allocate_pid ?c))"
    by (simp_all add: start_def new_coordinator_def initialize_from_def Let_def allocate_pid_def allocate_def kMinProducerId_def)
  then have "(pool_step txn_step)\<^sup>*\<^sup>* ((?c, Map.empty), replicate 1 Ready) ((?d, Map.empty(1 \<mapsto> ''a'')), [Ready])"
    using init_run [of ?c "''a''" 1 "snd (allocate_pid ?c)" Map.empty 5] by simp
  moreover have "map_of (txn_states ?d) ''a'' = Some (fresh_state ''a'' 1 5)" by (simp add: init_store_def update_conv)
  ultimately show ?thesis using pid_never_shared [of 1 ?d _ _ "''a''" "fresh_state ''a'' 1 5"] by (simp add: fresh_state_def)
qed

text \<open>
  The allocator starts over: \<open>start\<close> initialises it from 0 whatever was allocated before, so after a
  shutdown and a new start (the states are kept) another transactional id gets the PID of an
  existing one, and the existing producer's requests are taken for the other's.
\<close>

theorem restart_reuses_pid:
  "\<exists>c. c = snd (init_producer_id ''b'' 1000 3 (start True (snd (tc_shutdown 2 (snd (init_producer_id ''a'' 1000 1 (start True new_coordinator))))))) \<and>
     map_option producer_id (map_of (txn_states c) ''a'') = Some 1 \<and> map_option producer_id (map_of (txn_states c) ''b'') = Some 1
     \<and> get_transactional_id_for_pid 1 c = ''b''"
  by (intro exI conjI, rule refl; code_simp)

text \<open>
  Two concurrent initialisations of one transactional id can both miss it: the second insertion
  replaces the state of the first, both PIDs lead to the id, and both producers pass the epoch check
  with epoch 0.
\<close>

theorem concurrent_init_two_producers:
  "\<exists>c own. (pool_step txn_step)\<^sup>*\<^sup>* ((start True new_coordinator, Map.empty), [Ready, Ready]) ((c, own), [Ready, Ready])
     \<and> get_transactional_id_for_pid 1 c = ''a'' \<and> get_transactional_id_for_pid 2 c = ''a''
     \<and> fst (add_partitions_to_txn (\<lambda>_ _. True) 1 0 [(''t'', 0)] 9 9 c) = Returned (Inr ())
     \<and> fst (add_partitions_to_txn (\<lambda>_ _. True) 2 0 [(''t'', 0)] 9 9 c) = Returned (Inr ())"
proof -
  let ?c0 = "start True new_coordinator"
  let ?c1 = "snd (allocate_pid ?c0)"
  let ?c2 = "snd (allocate_pid ?c1)"
  let ?c3 = "init_store ''a'' 1 5 ?c2"
  let ?c4 = "init_store ''a'' 2 6 ?c3"
  let ?o1 = "Map.empty(1 \<mapsto> ''a'')" let ?o2 = "?o1(2 \<mapsto> ''a'')"
  have a: "transactions_enabled ?c0" "init_lookup ''a'' 0 ?c0 = None" by code_simp+
  have b: "allocate_pid ?c0 = (1, ?c1)" "allocate_pid ?c1 = (2, ?c2)"
    by (simp_all add: start_def new_coordinator_def initialize_from_def Let_def allocate_pid_def allocate_def kMinProducerId_def kProducerIdBlockSize_def)
  have "pool_step txn_step ((?c0, Map.empty), [Ready, Ready]) ((?c0, Map.empty), [Missed ''a'', Ready])"
    using a by (intro first_step init_missed) simp_all
  moreover have "pool_step txn_step ((?c0, Map.empty), [Missed ''a'', Ready]) ((?c0, Map.empty), [Missed ''a'', Missed ''a''])"
    using a by (intro second_step init_missed) simp_all
  moreover have "pool_step txn_step ((?c0, Map.empty), [Missed ''a'', Missed ''a'']) ((?c1, ?o1), [Allocated ''a'' 1, Missed ''a''])"
    using b(1) by (intro first_step init_allocate)
  moreover have "pool_step txn_step ((?c1, ?o1), [Allocated ''a'' 1, Missed ''a'']) ((?c2, ?o2), [Allocated ''a'' 1, Allocated ''a'' 2])"
    using b(2) by (intro second_step init_allocate)
  moreover have "pool_step txn_step ((?c2, ?o2), [Allocated ''a'' 1, Allocated ''a'' 2]) ((?c3, ?o2), [Ready, Allocated ''a'' 2])"
    by (intro first_step init_insert)
  moreover have "pool_step txn_step ((?c3, ?o2), [Ready, Allocated ''a'' 2]) ((?c4, ?o2), [Ready, Ready])"
    by (intro second_step init_insert)
  ultimately have "(pool_step txn_step)\<^sup>*\<^sup>* ((?c0, Map.empty), [Ready, Ready]) ((?c4, ?o2), [Ready, Ready])"
    by (meson converse_rtranclp_into_rtranclp rtranclp.rtrancl_refl)
  moreover have "get_transactional_id_for_pid 1 ?c4 = ''a''" "get_transactional_id_for_pid 2 ?c4 = ''a''"
    "fst (add_partitions_to_txn (\<lambda>_ _. True) 1 0 [(''t'', 0)] 9 9 ?c4) = Returned (Inr ())"
    "fst (add_partitions_to_txn (\<lambda>_ _. True) 2 0 [(''t'', 0)] 9 9 ?c4) = Returned (Inr ())" by code_simp+
  ultimately show ?thesis by blast
qed

section \<open>Fencing\<close>

lemma bump_epoch_next: "0 \<le> e \<Longrightarrow> e < 32767 \<Longrightarrow> bump_epoch e = e + 1"
  by (simp add: bump_epoch_def wrap16_def)

text \<open>At the end of the 16-bit range the epoch starts over at 0.\<close>

lemma bump_epoch_wraps: "bump_epoch 32767 = 0"
  by (simp add: bump_epoch_def wrap16_def)

text \<open>How a request that presents another epoch than the current one is refused.\<close>

definition epoch_error :: "int \<Rightarrow> int \<Rightarrow> error_code" where
  "epoch_error current old = (if old < current then producer_fenced else invalid_producer_epoch)"

lemma resolve_other_epoch:
  "map_of (pid_to_transactional_id c) pid = Some tid \<Longrightarrow> map_of (txn_states c) tid = Some st \<Longrightarrow> \<not> state_mutex_held st \<Longrightarrow>
     epoch \<noteq> producer_epoch st \<Longrightarrow> resolve pid epoch c = Inl (Returned (Inl (epoch_error (producer_epoch st) epoch)))"
  by (simp add: resolve_def check_producer_epoch_def epoch_error_def)

text \<open>
  C24: re-initialising a producer whose state is known, unlocked and listed under its PID returns the same PID,
  moves the epoch to the next one (\<^verbatim>\<open>bump_epoch\<close>: plus one, and 0 after 32767) and drops an open
  transaction. Directly afterwards a request with any other epoch than the new one changes nothing:
  ending a transaction is refused, as fenced when the epoch is lower and as an invalid
  epoch when it is higher (after 32767 all old epochs but 0 are higher, and an old 0 is current again, so it is not an
  \<^emph>\<open>other\<close> epoch); adding offsets likewise, unless the group id is empty, which is the error then;
  adding partitions likewise, unless the list is too long, which is an error of its own, or empty,
  which the code accepts without a look at the epoch.
\<close>

theorem reinit_fences_old_epochs:
  assumes "transactions_enabled c" "tid \<noteq> []" "0 < timeout_ms" "map_of (txn_states c) tid = Some st" "\<not> state_mutex_held st"
    and "map_of (pid_to_transactional_id c) (producer_id st) = Some tid"
    and "(r, c') = init_producer_id tid timeout_ms now c"
    and "new = bump_epoch (producer_epoch st)" "old \<noteq> new"
  shows "r = Returned (Inr (producer_id st))
    \<and> map_option producer_epoch (map_of (txn_states c') tid) = Some new
    \<and> map_option txn_state (map_of (txn_states c') tid) = Some txn_empty
    \<and> end_txn is_leader (producer_id st) old committed t1 c' = (Returned (Inl (epoch_error new old)), c')
    \<and> add_offsets_to_txn (producer_id st) old gid t1 c' =
        (Returned (Inl (if gid = [] then invalid_group_id else epoch_error new old)), c')
    \<and> add_partitions_to_txn is_leader (producer_id st) old ps t1 t2 c' =
        (Returned (if ps = [] then Inr ()
                   else Inl (if length ps > kMaxPartitionsPerTxn then invalid_txn_state else epoch_error new old)), c')"
proof -
  let ?st = "reinit now st"
  have st': "producer_epoch ?st = new" "txn_state ?st = txn_empty" "\<not> state_mutex_held ?st"
    using assms(5,8) by (simp_all add: reinit_def Let_def reset_transaction_def)
  have rc: "r = Returned (Inr (producer_id st))" "c' = put_txn tid ?st c"
    using assms by (simp_all add: init_producer_id_def init_lookup_def)
  have "resolve (producer_id st) old c' = Inl (Returned (Inl (epoch_error (producer_epoch ?st) old)))"
    using assms(6,9) st' by (intro resolve_other_epoch [of _ _ tid ?st]) (simp_all add: rc update_conv)
  then show ?thesis using assms(1) st' rc
    by (simp add: add_partitions_to_txn_def add_offsets_to_txn_def end_txn_def update_conv)
qed

definition demo_coordinator :: Coordinator where
  "demo_coordinator = snd (add_partitions_to_txn (\<lambda>_ _. True) 1 0 [(''t'', 1), (''t'', 0)] 7 8
     (snd (init_producer_id ''a'' 1000 5 (start True new_coordinator))))"

definition demo_txn :: TransacationIdState where
  "demo_txn = (fresh_state ''a'' 1 5)\<lparr>txn_state := ongoing, txn_partitions := [(''t'', 0), (''t'', 1)],
     txn_start_time := 7, tx_last_activity := 8\<rparr>"

lemma demo_coordinator_state:
  "transactions_enabled demo_coordinator" "txn_states demo_coordinator = [(''a'', demo_txn)]"
  "pid_to_transactional_id demo_coordinator = [(1, ''a'')]"
  by code_simp+

theorem reinit_fences_old_epochs_witness:
  "let c = snd (init_producer_id ''a'' 1000 10 demo_coordinator)
   in end_txn (\<lambda>_ _. True) 1 0 True 20 c = (Returned (Inl producer_fenced), c)
    \<and> add_offsets_to_txn 1 2 ''g'' 20 c = (Returned (Inl invalid_producer_epoch), c)"
proof -
  have new: "1 = bump_epoch (producer_epoch demo_txn)" by (simp add: demo_txn_def fresh_state_def bump_epoch_next)
  note fenced = reinit_fences_old_epochs [of demo_coordinator "''a''" 1000 demo_txn _ _ 10,
      OF _ _ _ _ _ _ surjective_pairing [symmetric] new, of _ "\<lambda>_ _. True" True 20 "''g''"]
  show ?thesis using fenced [of 0] fenced [of 2]
    by (simp add: demo_coordinator_state demo_txn_def fresh_state_def epoch_error_def Let_def)
qed

section \<open>Transactions\<close>

lemma enrol_result: "enrol is_leader acc ps = (led, qs) \<Longrightarrow>
    (led \<longleftrightarrow> (\<forall>(topic, p) \<in> set ps. is_leader topic p)) \<and> (led \<longrightarrow> qs = acc @ ps)"
  by (induction is_leader acc ps arbitrary: led qs rule: enrol.induct) (auto split: if_splits)

lemma distinct_remdups_sorted: "sorted xs \<Longrightarrow> distinct (remdups_adj xs)"
  by (induction xs rule: remdups_adj.induct) auto

text \<open>
  An accepted request enrols its partitions: the producer's transaction is ongoing and its list
  is exactly the old partitions and the new ones, sorted and without duplicates; all of them are
  led here.
\<close>

theorem add_partitions_enrols:
  assumes "add_partitions_to_txn is_leader pid epoch ps t now c = (Returned (Inr ()), c')" "ps \<noteq> []"
  shows "\<exists>tid st st'. map_of (pid_to_transactional_id c) pid = Some tid \<and> map_of (txn_states c) tid = Some st
     \<and> map_of (txn_states c') tid = Some st' \<and> epoch = producer_epoch st \<and> txn_state st' = ongoing
     \<and> producer_epoch st' = producer_epoch st
     \<and> set (txn_partitions st') = set (txn_partitions st) \<union> set ps
     \<and> sorted (txn_partitions st') \<and> distinct (txn_partitions st') \<and> list_all (\<lambda>(topic, p). is_leader topic p) ps"
proof -
  obtain tid st where r: "resolve pid epoch c = Inr (tid, st)"
    using assms by (auto simp: add_partitions_to_txn_def resolve_def split: if_splits option.splits sum.splits)
  note found = resolve_found [OF r]
  have st: "txn_state st = txn_empty \<or> txn_state st = ongoing"
    using assms by (auto simp: add_partitions_to_txn_def r split: if_splits)
  obtain led qs where e: "enrol is_leader (txn_partitions st) ps = (led, qs)" by fastforce
  have led: led
    using assms st e by (auto simp: add_partitions_to_txn_def r Let_def split: if_splits prod.splits)
  then have qs: "qs = txn_partitions st @ ps" "list_all (\<lambda>(topic, p). is_leader topic p) ps"
    using enrol_result [OF e] by (auto simp: list_all_iff)
  have "\<exists>st'. map_of (txn_states c') tid = Some st' \<and> txn_state st' = ongoing \<and> producer_epoch st' = producer_epoch st
      \<and> txn_partitions st' = remdups_adj (sort qs)"
    using assms st e led by (auto simp: add_partitions_to_txn_def r Let_def update_conv split: if_splits)
  then obtain st' where "map_of (txn_states c') tid = Some st'" "txn_state st' = ongoing"
    "producer_epoch st' = producer_epoch st" "txn_partitions st' = remdups_adj (sort qs)" by blast
  then show ?thesis using found qs
    by (intro exI [of _ tid] exI [of _ st] exI [of _ st']) (simp add: distinct_remdups_sorted)
qed

theorem add_partitions_enrols_witness:
  "\<exists>st'. map_of (txn_states (snd (add_partitions_to_txn (\<lambda>_ _. True) 1 0 [(''t'', 2), (''t'', 0)] 9 9 demo_coordinator))) ''a'' = Some st'
     \<and> set (txn_partitions st') = {(''t'', 0), (''t'', 1), (''t'', 2)}"
proof -
  let ?r = "add_partitions_to_txn (\<lambda>_ _. True) 1 0 [(''t'', 2), (''t'', 0)] 9 9 demo_coordinator"
  have "fst ?r = Returned (Inr ())" by code_simp
  then have "?r = (Returned (Inr ()), snd ?r)" by (metis prod.collapse)
  from add_partitions_enrols [OF this] show ?thesis
    by (fastforce simp: demo_coordinator_state demo_txn_def)
qed

text \<open>
  A transaction is never ended: \<open>end_txn\<close> keeps the state's mutex while it calls
  \<open>write_txn_markers\<close>, which locks it again. The call that would commit or abort an ongoing
  transaction does not return, and from then on requests of that producer, its re-initialisation
  and the scans of both background threads wait for ever.
\<close>

theorem end_txn_deadlocks:
  assumes "transactions_enabled c" "map_of (pid_to_transactional_id c) pid = Some tid" "map_of (txn_states c) tid = Some st"
    and "\<not> state_mutex_held st" "txn_state st = ongoing" "tid \<noteq> []" "0 < timeout_ms" "gid \<noteq> []"
    and "(r, c') = end_txn is_leader pid (producer_epoch st) committed now c"
  shows "r = Blocked \<and> fst (end_txn is_leader' pid epoch committed' t c') = Blocked
    \<and> fst (add_offsets_to_txn pid epoch gid t c') = Blocked \<and> fst (init_producer_id tid timeout_ms t c') = Blocked
    \<and> timeout_scan t c' = None \<and> expiry_scan t c' = None"
proof -
  let ?st = "st\<lparr>txn_state := (if committed then prepare_commit else prepare_abort), state_mutex_held := True\<rparr>"
  have "resolve pid (producer_epoch st) c = Inr (tid, st)"
    using assms(2-4) by (simp add: resolve_def check_producer_epoch_def)
  then have rc: "r = Blocked" "c' = put_txn tid ?st c"
    using assms(1,5,9) by (simp_all add: end_txn_def Let_def write_txn_markers_def update_conv)
  have look: "map_of (txn_states c') tid = Some ?st" by (simp add: rc update_conv)
  then have "resolve pid epoch c' = Inl Blocked" using assms(2) by (simp add: resolve_def rc)
  moreover have "list_ex (\<lambda>(tid, st). state_mutex_held st) (txn_states c')"
    using map_of_SomeD [OF look] by (force simp: list_ex_iff)
  ultimately show ?thesis using assms(1,6-8) look rc
    by (simp add: end_txn_def add_offsets_to_txn_def init_producer_id_def init_lookup_def timeout_scan_def expiry_scan_def)
qed

theorem end_txn_deadlocks_witness:
  "fst (end_txn (\<lambda>_ _. True) 1 0 True 9 demo_coordinator) = Blocked
   \<and> timeout_scan 9 (snd (end_txn (\<lambda>_ _. True) 1 0 True 9 demo_coordinator)) = None"
  using end_txn_deadlocks [of demo_coordinator 1 "''a''" demo_txn 1 "''g''" _ _ "\<lambda>_ _. True" True 9, OF _ _ _ _ _ _ _ _ surjective_pairing [symmetric]]
  by (simp add: demo_coordinator_state demo_txn_def fresh_state_def)

section \<open>Background passes\<close>

lemma timeout_abort_states:
  assumes "map_of (txn_states c) tid = Some st" "\<not> state_mutex_held st"
  shows "txn_states (snd (timeout_abort is_leader tid now c)) = AList.update tid (reset_transaction now st) (txn_states c)"
    "transaction_timeout_ms (snd (timeout_abort is_leader tid now c)) = transaction_timeout_ms c"
  using assms by (simp_all add: timeout_abort_def write_txn_markers_def put_txn_def Let_def)

lemma timeout_pass:
  assumes "distinct (map fst (txn_states c))"
    and "alist_all (\<lambda>tid st. \<not> state_mutex_held st \<and>
           (txn_state st = ongoing \<and> has_timed_out (transaction_timeout_ms c) now st \<longrightarrow> tid \<in> set ids)) (txn_states c)"
  shows "timeout_scan now (fold (\<lambda>tid c. snd (timeout_abort is_leader tid t c)) ids c) = Some []"
  using assms
proof (induction ids arbitrary: c)
  case Nil
  then show ?case by (auto simp: timeout_scan_def alist_all_def list_all_iff list_ex_iff filter_empty_conv)
next
  case (Cons i ids)
  let ?c = "snd (timeout_abort is_leader i t c)"
  show ?case
  proof (cases "map_of (txn_states c) i")
    case None
    then have same: "?c = c" by (simp add: timeout_abort_def)
    have "i \<notin> fst ` set (txn_states c)" using None by (simp add: map_of_eq_None_iff)
    then have "timeout_scan now (fold (\<lambda>tid c. snd (timeout_abort is_leader tid t c)) ids c) = Some []"
      using Cons.prems by (intro Cons.IH) (auto elim!: alist_all_mono dest: pair_key)
    then show ?thesis by (simp add: same)
  next
    case (Some st)
    then have free: "\<not> state_mutex_held st" using Cons.prems(2) by (auto dest: alist_all_lookup)
    note upd = timeout_abort_states [OF Some free, of is_leader t]
    have "timeout_scan now (fold (\<lambda>tid c. snd (timeout_abort is_leader tid t c)) ids ?c) = Some []"
    proof (rule Cons.IH)
      show "distinct (map fst (txn_states ?c))" using Cons.prems(1) by (simp add: upd distinct_update)
      show "alist_all (\<lambda>tid st. \<not> state_mutex_held st \<and>
           (txn_state st = ongoing \<and> has_timed_out (transaction_timeout_ms ?c) now st \<longrightarrow> tid \<in> set ids)) (txn_states ?c)"
        unfolding upd using Cons.prems free
        by (intro alist_all_replace) (auto simp: reset_transaction_def elim!: alist_all_mono)
    qed
    then show ?thesis by simp
  qed
qed

text \<open>
  A pass of the timeout thread leaves no transaction ongoing that had timed out.
\<close>

theorem timeout_pass_aborts:
  assumes "distinct (map fst (txn_states c))" "timeout_scan now c = Some ids"
  shows "timeout_scan now (fold (\<lambda>tid c. snd (timeout_abort is_leader tid t c)) ids c) = Some []"
  using assms
  by (intro timeout_pass) (force simp: timeout_scan_def alist_all_def list_all_iff list_ex_iff split: if_splits)+

theorem timeout_pass_aborts_witness:
  "timeout_scan 60001000008 demo_coordinator = Some [''a'']
   \<and> timeout_scan 60001000008 (fold (\<lambda>tid c. snd (timeout_abort (\<lambda>_ _. True) tid 9 c)) [''a''] demo_coordinator) = Some []"
proof -
  have "timeout_scan 60001000008 demo_coordinator = Some [''a'']" by code_simp
  with timeout_pass_aborts [of demo_coordinator 60001000008 "[''a'']" "\<lambda>_ _. True" 9] show ?thesis
    by (simp add: demo_coordinator_state)
qed

end
