(* ===== verification/Std_Strings.thy ===== *)
theory Std_Strings
  imports Torrent_Prelude
begin

text \<open>
  The conversions of the C++ library between numbers and strings that the broker uses:
  \<^verbatim>\<open>std::to_string\<close>, and \<^verbatim>\<open>std::stoi\<close> and \<^verbatim>\<open>std::stoll\<close>, which skip white space, accept a sign,
  read the longest run of digits, ignore what follows, and throw (\<open>None\<close>) when there is no
  digit or the number does not fit.
\<close>

definition digit_char :: "nat \<Rightarrow> char" where "digit_char d = char_of (48 + d)"
definition is_digit :: "char \<Rightarrow> bool" where "is_digit c \<longleftrightarrow> 48 \<le> (of_char c :: nat) \<and> (of_char c :: nat) \<le> 57"
definition digit_value :: "char \<Rightarrow> int" where "digit_value c = int (of_char c) - 48"
definition is_space :: "char \<Rightarrow> bool" where
  "is_space c \<longleftrightarrow> (of_char c :: nat) = 32 \<or> 9 \<le> (of_char c :: nat) \<and> (of_char c :: nat) \<le> 13"

fun nat_string :: "nat \<Rightarrow> string" where
  "nat_string n = (if n < 10 then [digit_char n] else nat_string (n div 10) @ [digit_char (n mod 10)])"

declare nat_string.simps [simp del]

definition to_string :: "int \<Rightarrow> string" where
  "to_string i = (if i < 0 then CHR ''-'' # nat_string (nat (- i)) else nat_string (nat i))"

definition digits_value :: "string \<Rightarrow> int" where
  "digits_value ds = foldl (\<lambda>v c. v * 10 + digit_value c) 0 ds"

definition parse_digits :: "string \<Rightarrow> int option" where
  "parse_digits s = (let ds = takeWhile is_digit s in if ds = [] then None else Some (digits_value ds))"

definition parse_integer :: "string \<Rightarrow> int option" where
  "parse_integer s =
     (case dropWhile is_space s of
        [] \<Rightarrow> None
      | c # cs \<Rightarrow> if c = CHR ''-'' then map_option uminus (parse_digits cs)
                  else if c = CHR ''+'' then parse_digits cs
                  else parse_digits (c # cs))"

definition in_range :: "nat \<Rightarrow> int \<Rightarrow> int option" where
  "in_range w v = (if - (2 ^ (w - 1)) \<le> v \<and> v < 2 ^ (w - 1) then Some v else None)"

definition stoi :: "string \<Rightarrow> int option" where "stoi s = Option.bind (parse_integer s) (in_range 32)"
definition stoll :: "string \<Rightarrow> int option" where "stoll s = Option.bind (parse_integer s) (in_range 64)"

section \<open>Round trip\<close>

lemma of_digit_char: "d < 10 \<Longrightarrow> (of_char (digit_char d) :: nat) = 48 + d"
  by (simp add: digit_char_def)

lemma digit_char_value: "d < 10 \<Longrightarrow> is_digit (digit_char d) \<and> digit_value (digit_char d) = int d \<and> \<not> is_space (digit_char d)"
  by (simp add: is_digit_def digit_value_def is_space_def of_digit_char)

lemma nat_string_digits: "list_all is_digit (nat_string n) \<and> nat_string n \<noteq> []"
proof (induction n rule: nat_string.induct)
  case (1 n)
  then show ?case by (cases "n < 10") (auto simp: nat_string.simps [of n] digit_char_value)
qed

lemma digits_value_nat_string: "digits_value (nat_string n) = int n"
proof (induction n rule: nat_string.induct)
  case (1 n)
  then show ?case
  proof (cases "n < 10")
    case False
    then have "digits_value (nat_string (n div 10)) = int (n div 10)" using 1 by simp
    then show ?thesis
      using False by (subst nat_string.simps) (simp add: digits_value_def digit_char_value zdiv_int zmod_int)
  qed (simp add: nat_string.simps [of n] digits_value_def digit_char_value)
qed

lemma parse_digits_nat_string:
  assumes "rest = [] \<or> \<not> is_digit (hd rest)"
  shows "parse_digits (nat_string n @ rest) = Some (int n)"
proof -
  have "takeWhile is_digit rest = []" using assms by (cases rest) auto
  then have "takeWhile is_digit (nat_string n @ rest) = nat_string n"
    using nat_string_digits [of n] by (simp add: takeWhile_append list_all_iff)
  then show ?thesis using nat_string_digits [of n] by (simp add: parse_digits_def digits_value_nat_string)
qed

lemma digit_not_sign: "is_digit c \<Longrightarrow> c \<noteq> CHR ''-'' \<and> c \<noteq> CHR ''+'' \<and> \<not> is_space c"
  by (auto simp: is_digit_def is_space_def)

lemma parse_integer_to_string: "parse_integer (to_string i) = Some i"
proof (cases "i < 0")
  case True
  have "\<not> is_space (CHR ''-'')" by (simp add: is_space_def)
  then show ?thesis
    using True parse_digits_nat_string [of "[]" "nat (- i)"] by (simp add: parse_integer_def to_string_def)
next
  case False
  obtain c cs where c: "nat_string (nat i) = c # cs" "is_digit c"
    using nat_string_digits [of "nat i"] by (cases "nat_string (nat i)") auto
  then show ?thesis
    using False digit_not_sign [OF c(2)] parse_digits_nat_string [of "[]" "nat i"]
    by (simp add: parse_integer_def to_string_def)
qed

lemma stoi_to_string: "- (2 ^ 31) \<le> i \<Longrightarrow> i < 2 ^ 31 \<Longrightarrow> stoi (to_string i) = Some i"
  by (simp add: stoi_def parse_integer_to_string in_range_def)

lemma to_string_inject [simp]: "to_string i = to_string j \<longleftrightarrow> i = j"
  by (metis parse_integer_to_string option.inject)

lemma to_string_chars: "c \<in> set (to_string i) \<Longrightarrow> is_digit c \<or> c = CHR ''-''"
  using nat_string_digits [of "nat i"] nat_string_digits [of "nat (- i)"]
  by (auto simp: to_string_def list_all_iff split: if_splits)

lemma stoi_range: "stoi s = Some v \<Longrightarrow> - (2 ^ 31) \<le> v \<and> v < 2 ^ 31"
  by (auto simp: stoi_def in_range_def bind_eq_Some_conv split: if_splits)

end
