(* ===== verification/Partition_Manager.thy ===== *)
theory Partition_Manager
  imports Std_Strings "HOL-Library.List_Lexorder" "HOL-Library.Char_ord" "HOL-Library.Product_Lexorder"
begin

text \<open>
  \<^verbatim>\<open>PartitionManager\<close> of \<^verbatim>\<open>src/torrent/broker/partition_manager.cpp\<close>: the replicas a broker hosts,
  their leaders, in-sync sets, epochs and watermarks. A method is one transition; the partition's log
  (\<^verbatim>\<open>LogManager\<close>) is a value of a type \<open>'l\<close> with the operations the manager calls in the record
  \<open>LogManager\<close>; the identity of the broker, its data directory and whether directories can be created
  are in \<open>BrokerServer\<close>. Calls to \<^verbatim>\<open>InterBroker::send_leader_and_isr\<close> are collected in \<open>pm_sent\<close>. Times are
  nanoseconds of the steady clock. Logging is left out; removing a directory has no effect on the state.
\<close>

section \<open>State\<close>

definition kNoBroker :: broker_id where "kNoBroker = - 2"
definition kMaxReplicaLag :: log_offset where "kMaxReplicaLag = 10000"
definition kMaxReplicaNotCaughtUpMs :: int where "kMaxReplicaNotCaughtUpMs = 30000"
definition kMaxPartitionsPerBroker :: int where "kMaxPartitionsPerBroker = 100000"
definition kKeySeparator :: char where "kKeySeparator = CHR 0x1E"
definition pm_kInvalidOffset :: log_offset where "pm_kInvalidOffset = - 1"

record LogManagerConfig =
  lc_partition_id :: int
  lc_data_directory :: string
  lc_max_hot_segments :: int
  lc_min_hot_segments :: int
  lc_rebuild_indexes_on_open :: bool
  lc_quarantine_corrupt :: bool

record 'l LogManager =
  lm_open :: "LogManagerConfig \<Rightarrow> error_code + 'l"
  lm_is_open :: "'l \<Rightarrow> bool"
  lm_close :: "'l \<Rightarrow> 'l"
  lm_log_end_offset :: "'l \<Rightarrow> log_offset"
  lm_high_watermark :: "'l \<Rightarrow> log_offset"
  lm_last_stable_offset :: "'l \<Rightarrow> log_offset"
  lm_log_start_offset :: "'l \<Rightarrow> log_offset"
  lm_update_high_watermark :: "log_offset \<Rightarrow> 'l \<Rightarrow> 'l"

record 'l BrokerServer =
  bs_broker_id :: broker_id
  bs_data_directory :: string
  bs_create_directories :: "string \<Rightarrow> bool"
  bs_inter_broker :: bool
  bs_log :: "'l LogManager"

record 'l PartitionReplica =
  pr_partition_id :: int
  pr_topic :: string
  pr_log :: 'l
  pr_leader :: broker_id
  pr_leader_epoch :: int
  pr_partition_epoch :: int
  pr_fenced_epoch :: int
  pr_isr :: "broker_id list"
  pr_replicas :: "broker_id list"
  pr_offline_replicas :: "broker_id set"
  pr_high_watermark :: log_offset
  pr_last_stable_offset :: log_offset
  pr_log_start_offset :: log_offset
  pr_is_leader_local :: bool
  pr_is_active :: bool
  pr_is_stopping :: bool
  pr_created_at :: int
  pr_last_leader_change :: int
  pr_last_isr_change :: int

text \<open>A call of \<^verbatim>\<open>send_leader_and_isr\<close>: topic, partition, leader and in-sync set.\<close>

type_synonym leader_and_isr = "string \<times> int \<times> broker_id \<times> broker_id list"

record 'l PartitionManager =
  pm_partitions :: "(string \<times> 'l PartitionReplica) list"
  pm_leader_partition_count :: int
  pm_total_partition_count :: int
  pm_sent :: "leader_and_isr list"

definition new_partition_manager :: "'l PartitionManager" where
  "new_partition_manager =
     \<lparr>pm_partitions = [], pm_leader_partition_count = 0, pm_total_partition_count = 0, pm_sent = []\<rparr>"

section \<open>Helpers\<close>

definition make_partition_key :: "string \<Rightarrow> int \<Rightarrow> string" where
  "make_partition_key topic pid = topic @ [kKeySeparator] @ to_string pid"

text \<open>\<open>None\<close> is the exception of \<^verbatim>\<open>std::stoi\<close>.\<close>

definition parse_partition_key :: "string \<Rightarrow> (string \<times> int) option" where
  "parse_partition_key key =
     (if kKeySeparator \<notin> set key then Some (key, 0)
      else let topic = takeWhile (\<lambda>c. c \<noteq> kKeySeparator) key
           in map_option (Pair topic) (stoi (drop (length topic + 1) key)))"

definition compute_lag_threshold :: "log_offset \<Rightarrow> log_offset \<Rightarrow> log_offset" where
  "compute_lag_threshold leader_log_end follower_log_end =
     (if leader_log_end = pm_kInvalidOffset \<or> follower_log_end = pm_kInvalidOffset then kMaxReplicaLag
      else max kMaxReplicaLag (leader_log_end - follower_log_end))"

definition preferred_leader :: "broker_id list \<Rightarrow> broker_id" where
  "preferred_leader replicas = (if replicas = [] then kNoBroker else hd replicas)"

definition select_new_leader :: "broker_id list \<Rightarrow> broker_id set \<Rightarrow> broker_id \<Rightarrow> broker_id" where
  "select_new_leader isr offline local_broker_id =
     (if local_broker_id \<in> set isr \<and> local_broker_id \<notin> offline then local_broker_id
      else case List.find (\<lambda>b. b \<notin> offline) isr of Some b \<Rightarrow> b | None \<Rightarrow> kNoBroker)"

definition partition_dir :: "'l BrokerServer \<Rightarrow> string \<Rightarrow> int \<Rightarrow> string" where
  "partition_dir server topic pid = bs_data_directory server @ ''/'' @ topic @ ''/partition-'' @ to_string pid"

definition build_log_config :: "string \<Rightarrow> int \<Rightarrow> 'l BrokerServer \<Rightarrow> LogManagerConfig" where
  "build_log_config topic pid server =
     \<lparr>lc_partition_id = pid, lc_data_directory = partition_dir server topic pid, lc_max_hot_segments = 0,
      lc_min_hot_segments = 2, lc_rebuild_indexes_on_open = True, lc_quarantine_corrupt = True\<rparr>"

definition propagate_leader_and_isr ::
  "'l BrokerServer \<Rightarrow> string \<Rightarrow> int \<Rightarrow> broker_id \<Rightarrow> broker_id list \<Rightarrow> 'l PartitionManager \<Rightarrow> 'l PartitionManager" where
  "propagate_leader_and_isr server topic pid leader isr s =
     (if \<not> bs_inter_broker server then s
      else s\<lparr>pm_sent := pm_sent s @ map (\<lambda>broker. (topic, pid, leader, isr)) isr\<rparr>)"

definition put_replica :: "string \<Rightarrow> 'l PartitionReplica \<Rightarrow> 'l PartitionManager \<Rightarrow> 'l PartitionManager" where
  "put_replica key r s = s\<lparr>pm_partitions := AList.update key r (pm_partitions s)\<rparr>"

section \<open>Creating and deleting\<close>

text \<open>Phases 3 to 5 of \<^verbatim>\<open>create_partition\<close>: the directory, the log, the new replica.\<close>

definition init_replica ::
  "'l BrokerServer \<Rightarrow> int \<Rightarrow> string \<Rightarrow> int \<Rightarrow> string \<Rightarrow> 'l PartitionManager \<Rightarrow> (error_code + int) \<times> 'l PartitionManager" where
  "init_replica server now topic pid key s =
     (let log_cfg = build_log_config topic pid server
      in if \<not> bs_create_directories server (lc_data_directory log_cfg) then (Inl storage_unavailable, s)
      else case lm_open (bs_log server) log_cfg of
        Inl e \<Rightarrow> (Inl e, s)
      | Inr log \<Rightarrow>
          let replica =
            \<lparr>pr_partition_id = pid, pr_topic = topic, pr_log = log, pr_leader = kNoBroker,
             pr_leader_epoch = 0, pr_partition_epoch = 0, pr_fenced_epoch = 0, pr_isr = [], pr_replicas = [],
             pr_offline_replicas = {}, pr_high_watermark = lm_high_watermark (bs_log server) log,
             pr_last_stable_offset = lm_last_stable_offset (bs_log server) log,
             pr_log_start_offset = lm_log_start_offset (bs_log server) log,
             pr_is_leader_local = False, pr_is_active = True, pr_is_stopping = False,
             pr_created_at = now, pr_last_leader_change = now, pr_last_isr_change = now\<rparr>;
              s = put_replica key replica s
          in (Inr pid, s\<lparr>pm_total_partition_count := pm_total_partition_count s + 1\<rparr>))"

definition create_partition ::
  "'l BrokerServer \<Rightarrow> int \<Rightarrow> string \<Rightarrow> int \<Rightarrow> 'l PartitionManager \<Rightarrow> (error_code + int) \<times> 'l PartitionManager" where
  "create_partition server now topic pid s =
     (if topic = [] then (Inl invalid_topic_exception, s)
      else if pid < 0 then (Inl invalid_partitions, s)
      else if pm_total_partition_count s \<ge> kMaxPartitionsPerBroker then (Inl internal_queue_full, s)
      else let key = make_partition_key topic pid
      in case map_of (pm_partitions s) key of
           Some r \<Rightarrow> if pr_is_active r then (Inr pid, s) else init_replica server now topic pid key s
         | None \<Rightarrow> init_replica server now topic pid key s)"

text \<open>The replica is destroyed with its log; only the map and the counters remain.\<close>

definition delete_partition :: "string \<Rightarrow> int \<Rightarrow> 'l PartitionManager \<Rightarrow> (error_code + unit) \<times> 'l PartitionManager" where
  "delete_partition topic pid s =
     (let key = make_partition_key topic pid
      in case map_of (pm_partitions s) key of
        None \<Rightarrow> (Inr (), s)
      | Some replica \<Rightarrow>
          let s = s\<lparr>pm_partitions := AList.delete key (pm_partitions s)\<rparr>;
              s = (if pr_is_leader_local replica
                   then s\<lparr>pm_leader_partition_count := pm_leader_partition_count s - 1\<rparr> else s)
          in (Inr (), s\<lparr>pm_total_partition_count := pm_total_partition_count s - 1\<rparr>))"

section \<open>Queries\<close>

definition pm_is_leader :: "'l PartitionManager \<Rightarrow> string \<Rightarrow> int \<Rightarrow> bool" where
  "pm_is_leader s topic pid =
     (case map_of (pm_partitions s) (make_partition_key topic pid) of
        None \<Rightarrow> False | Some r \<Rightarrow> pr_is_leader_local r \<and> pr_is_active r)"

definition leader_for :: "'l PartitionManager \<Rightarrow> string \<Rightarrow> int \<Rightarrow> broker_id" where
  "leader_for s topic pid =
     (case map_of (pm_partitions s) (make_partition_key topic pid) of
        None \<Rightarrow> kNoBroker | Some r \<Rightarrow> if \<not> pr_is_active r then kNoBroker else pr_leader r)"

definition replicas_for :: "'l PartitionManager \<Rightarrow> string \<Rightarrow> int \<Rightarrow> broker_id list" where
  "replicas_for s topic pid =
     (case map_of (pm_partitions s) (make_partition_key topic pid) of None \<Rightarrow> [] | Some r \<Rightarrow> pr_replicas r)"

definition isr_for :: "'l PartitionManager \<Rightarrow> string \<Rightarrow> int \<Rightarrow> broker_id list" where
  "isr_for s topic pid =
     (case map_of (pm_partitions s) (make_partition_key topic pid) of None \<Rightarrow> [] | Some r \<Rightarrow> pr_isr r)"

definition isr_count :: "'l PartitionManager \<Rightarrow> string \<Rightarrow> int \<Rightarrow> int" where
  "isr_count s topic pid = sint (word_of_nat (length (isr_for s topic pid)) :: 16 word)"

definition high_watermark_for :: "'l PartitionManager \<Rightarrow> string \<Rightarrow> int \<Rightarrow> log_offset" where
  "high_watermark_for s topic pid =
     (case map_of (pm_partitions s) (make_partition_key topic pid) of
        None \<Rightarrow> pm_kInvalidOffset | Some r \<Rightarrow> pr_high_watermark r)"

definition log_end_offset_for :: "'l BrokerServer \<Rightarrow> 'l PartitionManager \<Rightarrow> string \<Rightarrow> int \<Rightarrow> log_offset" where
  "log_end_offset_for server s topic pid =
     (case map_of (pm_partitions s) (make_partition_key topic pid) of
        None \<Rightarrow> pm_kInvalidOffset | Some r \<Rightarrow> lm_log_end_offset (bs_log server) (pr_log r))"

definition log_for :: "'l PartitionManager \<Rightarrow> string \<Rightarrow> int \<Rightarrow> 'l option" where
  "log_for s topic pid = map_option pr_log (map_of (pm_partitions s) (make_partition_key topic pid))"

definition replica_for :: "'l PartitionManager \<Rightarrow> string \<Rightarrow> int \<Rightarrow> 'l PartitionReplica option" where
  "replica_for s topic pid = map_of (pm_partitions s) (make_partition_key topic pid)"

definition under_replicated_count :: "'l PartitionManager \<Rightarrow> int" where
  "under_replicated_count s =
     int (length (filter (\<lambda>(key, r). pr_is_active r \<and> length (pr_isr r) < length (pr_replicas r)) (pm_partitions s)))"

text \<open>\<open>None\<close> when a key cannot be parsed.\<close>

definition list_hosted_partitions :: "string \<Rightarrow> 'l PartitionManager \<Rightarrow> (string \<times> int) list option" where
  "list_hosted_partitions topic_filter s =
     (let parsed = map (\<lambda>(key, r). parse_partition_key key) (filter (\<lambda>(key, r). pr_is_active r) (pm_partitions s))
      in if None \<in> set parsed then None
         else Some (sort (filter (\<lambda>(topic, pid). topic_filter = [] \<or> topic = topic_filter) (map the parsed))))"

section \<open>In-sync replicas\<close>

definition add_isr ::
  "'l BrokerServer \<Rightarrow> int \<Rightarrow> string \<Rightarrow> int \<Rightarrow> broker_id \<Rightarrow> 'l PartitionManager \<Rightarrow> (error_code + unit) \<times> 'l PartitionManager" where
  "add_isr server now topic pid broker s =
     (let key = make_partition_key topic pid
      in case map_of (pm_partitions s) key of
        None \<Rightarrow> (Inl partition_not_found, s)
      | Some r \<Rightarrow>
          if broker \<in> set (pr_isr r) then (Inr (), s)
          else let r = r\<lparr>pr_isr := sort (pr_isr r @ [broker]),
                         pr_offline_replicas := pr_offline_replicas r - {broker}, pr_last_isr_change := now\<rparr>
          in (Inr (), propagate_leader_and_isr server topic pid (pr_leader r) (pr_isr r) (put_replica key r s)))"

definition remove_isr ::
  "'l BrokerServer \<Rightarrow> int \<Rightarrow> string \<Rightarrow> int \<Rightarrow> broker_id \<Rightarrow> 'l PartitionManager \<Rightarrow> (error_code + unit) \<times> 'l PartitionManager" where
  "remove_isr server now topic pid broker s =
     (let key = make_partition_key topic pid
      in case map_of (pm_partitions s) key of
        None \<Rightarrow> (Inl partition_not_found, s)
      | Some r \<Rightarrow>
          if broker \<notin> set (pr_isr r) then (Inr (), s)
          else let r = r\<lparr>pr_isr := remove1 broker (pr_isr r),
                         pr_offline_replicas := insert broker (pr_offline_replicas r), pr_last_isr_change := now\<rparr>
          in (Inr (), propagate_leader_and_isr server topic pid (pr_leader r) (pr_isr r) (put_replica key r s)))"

definition stale_replicas :: "broker_id \<Rightarrow> int \<Rightarrow> 'l PartitionReplica \<Rightarrow> broker_id list" where
  "stale_replicas local now r =
     filter (\<lambda>broker. broker \<noteq> local \<and> broker \<notin> pr_offline_replicas r \<and>
                      (now - pr_last_isr_change r) div 1000000 > kMaxReplicaNotCaughtUpMs) (pr_isr r)"

definition isr_shrinkable :: "'l PartitionReplica \<Rightarrow> bool" where
  "isr_shrinkable r \<longleftrightarrow> pr_is_active r \<and> pr_is_leader_local r \<and> \<not> length (pr_isr r) \<le> 1"

text \<open>
  The scan under the shared lock, then one \<^verbatim>\<open>remove_isr\<close> per pair found. \<open>None\<close> is the exception of a
  key that cannot be parsed: the scan parses every partition it looks at, before any removal.
\<close>

definition shrink_isr_stale_replicas :: "'l BrokerServer \<Rightarrow> int \<Rightarrow> 'l PartitionManager \<Rightarrow> 'l PartitionManager option" where
  "shrink_isr_stale_replicas server now s =
     (let scanned = filter (\<lambda>(key, r). isr_shrinkable r) (pm_partitions s);
          to_remove = concat (map (\<lambda>(key, r). map (Pair key) (stale_replicas (bs_broker_id server) now r)) scanned)
      in if \<exists>(key, r) \<in> set scanned. parse_partition_key key = None then None
         else Some (fold (\<lambda>(key, broker) s.
           case parse_partition_key key of
             None \<Rightarrow> s
           | Some (topic, pid) \<Rightarrow> snd (remove_isr server now topic pid broker s)) to_remove s))"

section \<open>Leadership\<close>

definition become_leader ::
  "'l BrokerServer \<Rightarrow> int \<Rightarrow> string \<Rightarrow> int \<Rightarrow> 'l PartitionManager \<Rightarrow> (error_code + unit) \<times> 'l PartitionManager" where
  "become_leader server now topic pid s =
     (let key = make_partition_key topic pid; local_id = bs_broker_id server
      in case map_of (pm_partitions s) key of
        None \<Rightarrow> (Inl partition_not_found, s)
      | Some r \<Rightarrow>
          if pr_is_leader_local r then (Inr (), s)
          else let new_epoch = pr_leader_epoch r + 1;
                   r = r\<lparr>pr_leader_epoch := new_epoch, pr_leader := local_id, pr_is_leader_local := True,
                         pr_fenced_epoch := new_epoch, pr_last_leader_change := now\<rparr>;
                   r = (if local_id \<notin> set (pr_isr r) then r\<lparr>pr_isr := sort (pr_isr r @ [local_id])\<rparr> else r);
                   s = put_replica key r s;
                   s = s\<lparr>pm_leader_partition_count := pm_leader_partition_count s + 1\<rparr>
          in (Inr (), propagate_leader_and_isr server topic pid local_id (pr_isr r) s))"

definition step_down_leader ::
  "'l BrokerServer \<Rightarrow> int \<Rightarrow> string \<Rightarrow> int \<Rightarrow> 'l PartitionManager \<Rightarrow> (error_code + unit) \<times> 'l PartitionManager" where
  "step_down_leader server now topic pid s =
     (let key = make_partition_key topic pid
      in case map_of (pm_partitions s) key of
        None \<Rightarrow> (Inl partition_not_found, s)
      | Some r \<Rightarrow>
          if \<not> pr_is_leader_local r then (Inr (), s)
          else let r = r\<lparr>pr_is_leader_local := False, pr_last_leader_change := now\<rparr>;
                   new_leader = select_new_leader (pr_isr r) (pr_offline_replicas r) (bs_broker_id server);
                   r = r\<lparr>pr_leader := new_leader\<rparr>;
                   s = put_replica key r s;
                   s = s\<lparr>pm_leader_partition_count := pm_leader_partition_count s - 1\<rparr>
          in (Inr (), if new_leader \<noteq> kNoBroker
                      then propagate_leader_and_isr server topic pid new_leader (pr_isr r) s else s))"

definition handle_leader_and_isr ::
  "'l BrokerServer \<Rightarrow> int \<Rightarrow> string \<Rightarrow> int \<Rightarrow> broker_id \<Rightarrow> broker_id list \<Rightarrow> int \<Rightarrow> 'l PartitionManager
    \<Rightarrow> (error_code + unit) \<times> 'l PartitionManager" where
  "handle_leader_and_isr server now topic pid new_leader new_isr leader_epoch s =
     (let key = make_partition_key topic pid; local_id = bs_broker_id server
      in case map_of (pm_partitions s) key of
        None \<Rightarrow> (Inl partition_not_found, s)
      | Some r \<Rightarrow>
          if leader_epoch < pr_fenced_epoch r then (Inl fenced_leader_epoch, s)
          else let was_leader = pr_is_leader_local r;
                   r = r\<lparr>pr_leader := new_leader, pr_leader_epoch := leader_epoch, pr_isr := new_isr,
                         pr_fenced_epoch := leader_epoch, pr_is_leader_local := (new_leader = local_id),
                         pr_last_leader_change := now, pr_last_isr_change := now\<rparr>;
                   s = put_replica key r s
          in (Inr (),
              if was_leader \<and> \<not> pr_is_leader_local r
              then s\<lparr>pm_leader_partition_count := pm_leader_partition_count s - 1\<rparr>
              else if \<not> was_leader \<and> pr_is_leader_local r
              then s\<lparr>pm_leader_partition_count := pm_leader_partition_count s + 1\<rparr>
              else s))"

definition handle_stop_replica ::
  "'l BrokerServer \<Rightarrow> string \<Rightarrow> int \<Rightarrow> bool \<Rightarrow> 'l PartitionManager \<Rightarrow> (error_code + unit) \<times> 'l PartitionManager" where
  "handle_stop_replica server topic pid delete_data s =
     (if delete_data then delete_partition topic pid s
      else let key = make_partition_key topic pid
      in case map_of (pm_partitions s) key of
        None \<Rightarrow> (Inr (), s)
      | Some r \<Rightarrow>
          let s = (if pr_is_leader_local r
                   then s\<lparr>pm_leader_partition_count := pm_leader_partition_count s - 1\<rparr> else s);
              r = r\<lparr>pr_is_active := False, pr_is_leader_local := False\<rparr>;
              r = (if lm_is_open (bs_log server) (pr_log r)
                   then r\<lparr>pr_log := lm_close (bs_log server) (pr_log r)\<rparr> else r)
          in (Inr (), put_replica key r s))"

section \<open>High watermark and monitor\<close>

definition raise_high_watermark :: "'l BrokerServer \<Rightarrow> log_offset \<Rightarrow> 'l PartitionReplica \<Rightarrow> 'l PartitionReplica" where
  "raise_high_watermark server new_hw r =
     r\<lparr>pr_log := lm_update_high_watermark (bs_log server) new_hw (pr_log r), pr_high_watermark := new_hw\<rparr>"

definition maybe_advance_high_watermark_all :: "'l BrokerServer \<Rightarrow> 'l PartitionManager \<Rightarrow> 'l PartitionManager" where
  "maybe_advance_high_watermark_all server s =
     s\<lparr>pm_partitions := map_entries (\<lambda>key r.
       if \<not> pr_is_active r \<or> \<not> pr_is_leader_local r then r
       else if \<not> lm_is_open (bs_log server) (pr_log r) then r
       else let leader_log_end = lm_log_end_offset (bs_log server) (pr_log r)
       in if leader_log_end \<le> pr_high_watermark r then r
       else let min_isr_log_end = leader_log_end
       in if min_isr_log_end > pr_high_watermark r then raise_high_watermark server min_isr_log_end r else r)
       (pm_partitions s)\<rparr>"

definition advance_high_watermark ::
  "'l BrokerServer \<Rightarrow> string \<Rightarrow> int \<Rightarrow> log_offset \<Rightarrow> 'l PartitionManager \<Rightarrow> 'l PartitionManager" where
  "advance_high_watermark server topic pid new_hw s =
     (let key = make_partition_key topic pid
      in case map_of (pm_partitions s) key of
        None \<Rightarrow> s
      | Some r \<Rightarrow>
          if \<not> pr_is_active r then s
          else if new_hw > pr_high_watermark r then put_replica key (raise_high_watermark server new_hw r) s
          else s)"

text \<open>One round of the monitor thread: an exception of the scan also skips the watermarks.\<close>

definition isr_monitor_pass :: "'l BrokerServer \<Rightarrow> int \<Rightarrow> 'l PartitionManager \<Rightarrow> 'l PartitionManager" where
  "isr_monitor_pass server now s =
     (case shrink_isr_stale_replicas server now s of
        None \<Rightarrow> s
      | Some s' \<Rightarrow> maybe_advance_high_watermark_all server s')"

text \<open>The destructor: every open log is closed and the map emptied. The closed logs are returned with the state.\<close>

definition destroy_partition_manager ::
  "'l BrokerServer \<Rightarrow> 'l PartitionManager \<Rightarrow> 'l list \<times> 'l PartitionManager" where
  "destroy_partition_manager server s =
     (map (\<lambda>(key, r). if lm_is_open (bs_log server) (pr_log r) then lm_close (bs_log server) (pr_log r) else pr_log r)
        (pm_partitions s),
      s\<lparr>pm_partitions := []\<rparr>)"

section \<open>Runs\<close>

datatype pm_op =
    Create int string int
  | Delete string int
  | AddIsr int string int broker_id
  | RemoveIsr int string int broker_id
  | Monitor int
  | BecomeLeader int string int
  | StepDown int string int
  | LeaderAndIsr int string int broker_id "broker_id list" int
  | StopReplica string int bool
  | AdvanceHW string int log_offset

fun pm_exec :: "'l BrokerServer \<Rightarrow> pm_op \<Rightarrow> 'l PartitionManager \<Rightarrow> 'l PartitionManager" where
  "pm_exec b (Create now t p) s = snd (create_partition b now t p s)"
| "pm_exec b (Delete t p) s = snd (delete_partition t p s)"
| "pm_exec b (AddIsr now t p br) s = snd (add_isr b now t p br s)"
| "pm_exec b (RemoveIsr now t p br) s = snd (remove_isr b now t p br s)"
| "pm_exec b (Monitor now) s = isr_monitor_pass b now s"
| "pm_exec b (BecomeLeader now t p) s = snd (become_leader b now t p s)"
| "pm_exec b (StepDown now t p) s = snd (step_down_leader b now t p s)"
| "pm_exec b (LeaderAndIsr now t p l isr e) s = snd (handle_leader_and_isr b now t p l isr e s)"
| "pm_exec b (StopReplica t p d) s = snd (handle_stop_replica b t p d s)"
| "pm_exec b (AdvanceHW t p hw) s = advance_high_watermark b t p hw s"

abbreviation pm_run :: "'l BrokerServer \<Rightarrow> pm_op list \<Rightarrow> 'l PartitionManager \<Rightarrow> 'l PartitionManager" where
  "pm_run b ops s \<equiv> fold (pm_exec b) ops s"

end
