(* ===== verification/Storage_Types.thy ===== *)
theory Storage_Types
  imports Torrent_Prelude
begin

text \<open>
  Records and batches of \<^verbatim>\<open>include/torrent/storage/types.h\<close>. A \<^verbatim>\<open>shared_buffer\<close>, and the string of a header, is its bytes; the
  sizes are those the quota and cache code adds up.
\<close>

datatype compression_type = no_compression | gzip | snappy | lz4 | zstd

record RecordHeader =
  rh_key :: bytes
  rh_value :: bytes

record Record =
  rec_key :: bytes
  rec_value :: bytes
  rec_headers :: "RecordHeader list"
  rec_timestamp :: timestamp_ms
  rec_offset :: log_offset
  rec_partition_id :: int
  rec_sequence :: int
  rec_producer_id :: int

record RecordBatch =
  rb_base_offset :: log_offset
  rb_base_timestamp :: timestamp_ms
  rb_max_timestamp :: timestamp_ms
  rb_last_offset_delta :: int
  rb_compression :: compression_type
  rb_attributes :: "16 word"
  rb_crc :: u32
  rb_producer_id :: int
  rb_producer_epoch :: int
  rb_base_sequence :: int
  rb_record_count :: int
  rb_partition_leader_epoch :: int
  rb_records :: "Record list"

definition default_RecordBatch :: RecordBatch where
  "default_RecordBatch =
     \<lparr>rb_base_offset = - 1, rb_base_timestamp = 0, rb_max_timestamp = 0, rb_last_offset_delta = 0,
      rb_compression = no_compression, rb_attributes = 0, rb_crc = 0, rb_producer_id = - 1,
      rb_producer_epoch = - 1, rb_base_sequence = - 1, rb_record_count = 0, rb_partition_leader_epoch = 0,
      rb_records = []\<rparr>"

definition is_tombstone :: "Record \<Rightarrow> bool" where
  "is_tombstone r \<longleftrightarrow> rec_key r = [] \<and> rec_value r = []"

definition record_size :: "Record \<Rightarrow> int" where
  "record_size r = fold (\<lambda>h n. n + int (length (rh_key h) + length (rh_value h))) (rec_headers r)
     (int (length (rec_key r) + length (rec_value r)))"

definition approximate_size :: "RecordBatch \<Rightarrow> int" where
  "approximate_size b = fold (\<lambda>r n. n + record_size r) (rb_records b) 0"

end
