(* ===== verification/Topic_Manager.thy ===== *)
theory Topic_Manager
  imports Partition_Manager Storage_Types
begin

text \<open>
  \<^verbatim>\<open>TopicManager\<close> of \<^verbatim>\<open>src/torrent/broker/topic_manager.cpp\<close>, over the partition manager: the cache
  of topics, their configuration, and the creation and deletion of a topic with its partitions. The phases of
  \<^verbatim>\<open>create_topic\<close> and \<^verbatim>\<open>delete_topic\<close> between which the lock is released are functions of their own, and
  the methods are their composition. What the manager asks the metadata cache and the server is in the
  record \<open>ClusterView\<close>. Error texts and logging are left out; identifiers and counters are integers.
\<close>

section \<open>Data\<close>

datatype cleanup_policy = delete_only | compact_only | compact_and_delete

record TopicConfig =
  tc_name :: string
  tc_num_partitions :: int
  tc_replication_factor :: int
  tc_retention_ms :: int
  tc_retention_bytes :: int
  tc_segment_bytes :: int
  tc_segment_ms :: int
  tc_policy :: cleanup_policy
  tc_compression :: compression_type
  tc_max_message_bytes :: int
  tc_min_insync_replicas :: int
  tc_flush_messages :: int
  tc_flush_ms :: int
  tc_preallocate :: bool
  tc_index_interval_bytes :: int
  tc_is_internal :: bool
  tc_is_read_only :: bool
  tc_min_compaction_lag_ms :: int
  tc_delete_retention_ms :: int

text \<open>A default-constructed \<^verbatim>\<open>TopicConfig\<close>.\<close>

definition default_TopicConfig :: TopicConfig where
  "default_TopicConfig =
     \<lparr>tc_name = [], tc_num_partitions = 1, tc_replication_factor = 1, tc_retention_ms = 604800000,
      tc_retention_bytes = - 1, tc_segment_bytes = 1073741824, tc_segment_ms = 604800000, tc_policy = delete_only,
      tc_compression = no_compression, tc_max_message_bytes = 1048588, tc_min_insync_replicas = 1,
      tc_flush_messages = 9223372036854775807, tc_flush_ms = 9223372036854775807, tc_preallocate = False,
      tc_index_interval_bytes = 4096, tc_is_internal = False, tc_is_read_only = False,
      tc_min_compaction_lag_ms = 0, tc_delete_retention_ms = 86400000\<rparr>"

record PartitionMetadata =
  pd_topic_id :: int
  pd_partition_id :: int
  pd_leader :: broker_id
  pd_leader_epoch :: int
  pd_replicas :: "broker_id list"
  pd_isr :: "broker_id list"
  pd_offline_replicas :: "broker_id list"
  pd_partition_epoch :: int

record TopicMetadata =
  td_topic_id :: int
  td_name :: string
  td_partitions :: "PartitionMetadata list"
  td_config :: TopicConfig
  td_is_internal :: bool

record TopicCacheEntry =
  te_metadata :: TopicMetadata
  te_hosted_partitions :: "int set"
  te_generation :: int
  te_marked_for_deletion :: bool
  te_deletion_marked_at :: int
  te_dynamic_config :: "(string \<times> string) list"

record TopicManager =
  tm_topics :: "(string \<times> TopicCacheEntry) list"
  tm_next_topic_id :: int
  tm_topic_count :: int
  tm_total_partition_count :: int

definition new_topic_manager :: TopicManager where
  "new_topic_manager = \<lparr>tm_topics = [], tm_next_topic_id = 1, tm_topic_count = 0, tm_total_partition_count = 0\<rparr>"

record ClusterView =
  cv_broker_count :: int
  cv_controller_id :: broker_id
  cv_broker_id :: broker_id
  cv_is_controller :: bool

section \<open>Validation\<close>

definition kMaxTopicNameLength :: nat where "kMaxTopicNameLength = 249"
definition kMinTopicNameLength :: nat where "kMinTopicNameLength = 1"
definition kMaxPartitions :: int where "kMaxPartitions = 200000"
definition kMinPartitions :: int where "kMinPartitions = 1"
definition kMaxReplicationFactor :: int where "kMaxReplicationFactor = 16"
definition kMinReplicationFactor :: int where "kMinReplicationFactor = 1"
definition kInternalTopicPrefix :: string where "kInternalTopicPrefix = ''__''"

definition kValidTopicChars :: string where
  "kValidTopicChars = ''abcdefghijklmnopqrstuvwxyzABCDEFGHIJKLMNOPQRSTUVWXYZ0123456789._-''"

definition kReservedTopicNames :: "string list" where
  "kReservedTopicNames = [''__consumer_offsets'', ''__transaction_state'', ''__cluster_metadata'']"

definition kAlterableConfigKeys :: "string list" where
  "kAlterableConfigKeys =
     [''retention.ms'', ''retention.bytes'', ''segment.bytes'', ''segment.ms'', ''max.message.bytes'',
      ''min.insync.replicas'', ''cleanup.policy'', ''compression.type'', ''flush.messages'', ''flush.ms'',
      ''index.interval.bytes'', ''preallocate'', ''delete.retention.ms'', ''min.compaction.lag.ms'']"

text \<open>\<open>None\<close> is \<^verbatim>\<open>error_code::none\<close>.\<close>

definition validate_topic_name :: "string \<Rightarrow> error_code option" where
  "validate_topic_name name =
     (if name = [] then Some invalid_topic_exception
      else if length name < kMinTopicNameLength then Some invalid_topic_exception
      else if length name > kMaxTopicNameLength then Some invalid_topic_exception
      else if name = ''.'' \<or> name = ''..'' then Some invalid_topic_exception
      else if \<exists>c \<in> set name. c \<notin> set kValidTopicChars then Some invalid_topic_exception
      else if name \<in> set kReservedTopicNames then Some invalid_topic_exception
      else None)"

definition validate_partition_params :: "int \<Rightarrow> int \<Rightarrow> int \<Rightarrow> error_code option" where
  "validate_partition_params partitions replication_factor broker_count =
     (if partitions < kMinPartitions then Some invalid_partitions
      else if partitions > kMaxPartitions then Some invalid_partitions
      else if replication_factor < kMinReplicationFactor then Some invalid_replication_factor
      else if replication_factor > kMaxReplicationFactor then Some invalid_replication_factor
      else if broker_count > 0 \<and> replication_factor > broker_count then Some invalid_replication_factor
      else None)"

section \<open>Configuration\<close>

text \<open>\<^verbatim>\<open>static_cast<int16_t>\<close>.\<close>

definition int16_of :: "int \<Rightarrow> int" where "int16_of x = (x + 2 ^ 15) mod 2 ^ 16 - 2 ^ 15"

text \<open>One override at creation; \<open>None\<close> is the exception of a value that is no number.\<close>

definition creation_override :: "string \<Rightarrow> string \<Rightarrow> TopicConfig \<Rightarrow> TopicConfig option" where
  "creation_override key v cfg =
     (if key = ''retention.ms'' then map_option (\<lambda>n. cfg\<lparr>tc_retention_ms := n\<rparr>) (stoll v)
      else if key = ''retention.bytes'' then map_option (\<lambda>n. cfg\<lparr>tc_retention_bytes := n\<rparr>) (stoll v)
      else if key = ''segment.bytes'' then map_option (\<lambda>n. cfg\<lparr>tc_segment_bytes := n\<rparr>) (stoll v)
      else if key = ''max.message.bytes'' then map_option (\<lambda>n. cfg\<lparr>tc_max_message_bytes := n\<rparr>) (stoll v)
      else if key = ''min.insync.replicas'' then map_option (\<lambda>n. cfg\<lparr>tc_min_insync_replicas := int16_of n\<rparr>) (stoi v)
      else if key = ''cleanup.policy''
      then Some (cfg\<lparr>tc_policy := (if v = ''compact'' then compact_only
             else if v = ''compact,delete'' \<or> v = ''delete,compact'' then compact_and_delete else delete_only)\<rparr>)
      else if key = ''compression.type''
      then Some (cfg\<lparr>tc_compression := (if v = ''gzip'' then gzip else if v = ''snappy'' then snappy
             else if v = ''lz4'' then lz4 else if v = ''zstd'' then zstd else no_compression)\<rparr>)
      else if key = ''delete.retention.ms'' then map_option (\<lambda>n. cfg\<lparr>tc_delete_retention_ms := n\<rparr>) (stoll v)
      else if key = ''min.compaction.lag.ms'' then map_option (\<lambda>n. cfg\<lparr>tc_min_compaction_lag_ms := n\<rparr>) (stoll v)
      else Some cfg)"

definition build_default_topic_config :: "string \<Rightarrow> int \<Rightarrow> int \<Rightarrow> (string \<times> string) list \<Rightarrow> TopicConfig option" where
  "build_default_topic_config name partitions replication_factor config_overrides =
     (let cfg = default_TopicConfig\<lparr>tc_name := name, tc_num_partitions := partitions,
            tc_replication_factor := replication_factor, tc_retention_ms := 604800000, tc_segment_bytes := 1073741824,
            tc_max_message_bytes := 1048588, tc_min_insync_replicas := 1, tc_is_internal := False\<rparr>
      in fold (\<lambda>(key, v) cfg. Option.bind cfg (creation_override key v)) config_overrides (Some cfg))"

text \<open>Set a numeric field, then check it: the result, and the configuration, which keeps a rejected number.\<close>

definition set_checked ::
  "(string \<Rightarrow> int option) \<Rightarrow> (int \<Rightarrow> TopicConfig \<Rightarrow> TopicConfig) \<Rightarrow> (int \<Rightarrow> bool) \<Rightarrow> string \<Rightarrow> TopicConfig \<Rightarrow> bool \<times> TopicConfig" where
  "set_checked parse upd ok v cfg = (case parse v of None \<Rightarrow> (False, cfg) | Some n \<Rightarrow> (ok n, upd n cfg))"

definition apply_topic_config_override :: "TopicConfig \<Rightarrow> string \<Rightarrow> string \<Rightarrow> bool \<times> TopicConfig" where
  "apply_topic_config_override cfg key v =
     (if key \<notin> set kAlterableConfigKeys then (False, cfg)
      else if key = ''retention.ms'' then set_checked stoll (\<lambda>n c. c\<lparr>tc_retention_ms := n\<rparr>) (\<lambda>n. - 1 \<le> n) v cfg
      else if key = ''retention.bytes'' then set_checked stoll (\<lambda>n c. c\<lparr>tc_retention_bytes := n\<rparr>) (\<lambda>n. - 1 \<le> n) v cfg
      else if key = ''segment.bytes'' then set_checked stoll (\<lambda>n c. c\<lparr>tc_segment_bytes := n\<rparr>) (\<lambda>n. 1024 \<le> n) v cfg
      else if key = ''segment.ms'' then set_checked stoll (\<lambda>n c. c\<lparr>tc_segment_ms := n\<rparr>) (\<lambda>n. True) v cfg
      else if key = ''max.message.bytes'' then set_checked stoll (\<lambda>n c. c\<lparr>tc_max_message_bytes := n\<rparr>) (\<lambda>n. 0 \<le> n) v cfg
      else if key = ''min.insync.replicas''
      then set_checked stoi (\<lambda>n c. c\<lparr>tc_min_insync_replicas := int16_of n\<rparr>)
             (\<lambda>n. 1 \<le> int16_of n \<and> int16_of n \<le> tc_replication_factor cfg) v cfg
      else if key = ''cleanup.policy''
      then (if v = ''delete'' then (True, cfg\<lparr>tc_policy := delete_only\<rparr>)
            else if v = ''compact'' then (True, cfg\<lparr>tc_policy := compact_only\<rparr>)
            else if v = ''compact,delete'' \<or> v = ''delete,compact'' then (True, cfg\<lparr>tc_policy := compact_and_delete\<rparr>)
            else (False, cfg))
      else if key = ''compression.type''
      then (if v = ''none'' \<or> v = ''uncompressed'' then (True, cfg\<lparr>tc_compression := no_compression\<rparr>)
            else if v = ''gzip'' then (True, cfg\<lparr>tc_compression := gzip\<rparr>)
            else if v = ''snappy'' then (True, cfg\<lparr>tc_compression := snappy\<rparr>)
            else if v = ''lz4'' then (True, cfg\<lparr>tc_compression := lz4\<rparr>)
            else if v = ''zstd'' then (True, cfg\<lparr>tc_compression := zstd\<rparr>)
            else if v = ''producer'' then (True, cfg\<lparr>tc_compression := no_compression\<rparr>)
            else (False, cfg))
      else if key = ''flush.messages'' then set_checked stoll (\<lambda>n c. c\<lparr>tc_flush_messages := n\<rparr>) (\<lambda>n. True) v cfg
      else if key = ''flush.ms'' then set_checked stoll (\<lambda>n c. c\<lparr>tc_flush_ms := n\<rparr>) (\<lambda>n. True) v cfg
      else if key = ''index.interval.bytes''
      then set_checked stoi (\<lambda>n c. c\<lparr>tc_index_interval_bytes := n\<rparr>) (\<lambda>n. 0 \<le> n) v cfg
      else if key = ''preallocate'' then (True, cfg\<lparr>tc_preallocate := (v = ''true'' \<or> v = ''1'')\<rparr>)
      else if key = ''delete.retention.ms''
      then set_checked stoll (\<lambda>n c. c\<lparr>tc_delete_retention_ms := n\<rparr>) (\<lambda>n. 0 \<le> n) v cfg
      else if key = ''min.compaction.lag.ms''
      then set_checked stoll (\<lambda>n c. c\<lparr>tc_min_compaction_lag_ms := n\<rparr>) (\<lambda>n. 0 \<le> n) v cfg
      else (True, cfg))"

section \<open>Replica assignment\<close>

fun assign_loop :: "nat \<Rightarrow> nat \<Rightarrow> broker_id list \<Rightarrow> nat \<Rightarrow> broker_id list list" where
  "assign_loop 0 replication_factor brokers start_index = []"
| "assign_loop (Suc n) replication_factor brokers start_index =
     map (\<lambda>r. brokers ! ((start_index + r) mod length brokers)) [0..<replication_factor] #
     assign_loop n replication_factor brokers ((start_index + replication_factor) mod length brokers)"

definition assign_replicas :: "int \<Rightarrow> int \<Rightarrow> broker_id list \<Rightarrow> broker_id list list" where
  "assign_replicas num_partitions replication_factor brokers =
     (if brokers = [] then replicate (nat num_partitions) [0]
      else assign_loop (nat num_partitions) (nat replication_factor) brokers 0)"

definition get_known_brokers :: "ClusterView \<Rightarrow> broker_id list" where
  "get_known_brokers view =
     (let cid = cv_controller_id view in if cid \<noteq> kNoBroker \<and> cid \<ge> 0 then [cid] else [])"

text \<open>The three proposals to Raft only ask whether this broker is the controller.\<close>

definition propose_create_topic_to_raft :: "ClusterView \<Rightarrow> error_code option" where
  "propose_create_topic_to_raft view = (if \<not> cv_is_controller view then Some not_controller else None)"

definition propose_delete_topic_to_raft :: "ClusterView \<Rightarrow> error_code option" where
  "propose_delete_topic_to_raft view = (if \<not> cv_is_controller view then Some not_controller else None)"

definition propose_alter_config_to_raft :: "ClusterView \<Rightarrow> error_code option" where
  "propose_alter_config_to_raft view = (if \<not> cv_is_controller view then Some not_controller else None)"

section \<open>Creating a topic\<close>

definition build_partition :: "int \<Rightarrow> broker_id list list \<Rightarrow> nat \<Rightarrow> PartitionMetadata" where
  "build_partition topic_id assignments p =
     (let replicas = assignments ! p
      in \<lparr>pd_topic_id = topic_id, pd_partition_id = int p, pd_leader = (if replicas = [] then kNoBroker else hd replicas),
          pd_leader_epoch = 0, pd_replicas = replicas, pd_isr = replicas, pd_offline_replicas = [], pd_partition_epoch = 0\<rparr>)"

text \<open>Phases 1 to 4: validation, replica assignment, metadata, the proposal. A topic id is used up from phase 3 on.\<close>

definition create_prepare :: "ClusterView \<Rightarrow> string \<Rightarrow> int \<Rightarrow> int \<Rightarrow> TopicManager \<Rightarrow> (error_code + TopicMetadata) \<times> TopicManager" where
  "create_prepare view name partitions replication_factor tm =
     (case validate_topic_name name of
        Some e \<Rightarrow> (Inl e, tm)
      | None \<Rightarrow>
          let replication_factor = (if replication_factor \<le> 0 then kMinReplicationFactor else replication_factor);
              partitions = (if partitions \<le> 0 then kMinPartitions else partitions)
          in if (case map_of (tm_topics tm) name of None \<Rightarrow> False | Some e \<Rightarrow> \<not> te_marked_for_deletion e)
             then (Inl topic_already_exists, tm)
             else let broker_count = (if cv_broker_count view \<le> 0 then 1 else cv_broker_count view)
             in case validate_partition_params partitions replication_factor broker_count of
               Some e \<Rightarrow> (Inl e, tm)
             | None \<Rightarrow>
                 let known_brokers = get_known_brokers view;
                     known_brokers = (if cv_broker_id view \<in> set known_brokers then known_brokers
                                      else known_brokers @ [cv_broker_id view]);
                     known_brokers = sort known_brokers;
                     assignments = assign_replicas partitions replication_factor known_brokers;
                     topic_id = tm_next_topic_id tm;
                     tm = tm\<lparr>tm_next_topic_id := topic_id + 1\<rparr>;
                     config = the (build_default_topic_config name partitions (int16_of replication_factor) []);
                     md = \<lparr>td_topic_id = topic_id, td_name = name,
                           td_partitions = map (build_partition topic_id assignments) [0..<nat partitions],
                           td_config = config, td_is_internal = False\<rparr>;
                     raft_ec = propose_create_topic_to_raft view
                 in if raft_ec \<noteq> None \<and> raft_ec \<noteq> Some not_controller then (Inl (the raft_ec), tm)
                    else (Inr md, tm))"

text \<open>
  Phase 5: create the partitions in order; on a failure delete the ones created before it, in order.
  The operations of the partition manager are arguments.
\<close>

fun provision ::
  "(string \<Rightarrow> int \<Rightarrow> 's \<Rightarrow> (error_code + int) \<times> 's) \<Rightarrow> (string \<Rightarrow> int \<Rightarrow> 's \<Rightarrow> (error_code + unit) \<times> 's) \<Rightarrow>
   string \<Rightarrow> int list \<Rightarrow> int list \<Rightarrow> 's \<Rightarrow> error_code option \<times> 's" where
  "provision create del name [] created s = (None, s)"
| "provision create del name (p # ps) created s =
     (case create name p s of
        (Inl e, s') \<Rightarrow> (Some e, fold (\<lambda>pid s. snd (del name pid s)) created s')
      | (Inr _, s') \<Rightarrow> provision create del name ps (created @ [p]) s')"

text \<open>Phase 6, under the exclusive lock.\<close>

definition create_insert :: "string \<Rightarrow> TopicMetadata \<Rightarrow> TopicManager \<Rightarrow> TopicManager" where
  "create_insert name md tm =
     (let entry = \<lparr>te_metadata = md, te_hosted_partitions = set (map int [0..<length (td_partitions md)]), te_generation = 1,
                   te_marked_for_deletion = False, te_deletion_marked_at = 0, te_dynamic_config = []\<rparr>;
          tm = tm\<lparr>tm_topics := AList.update name entry (tm_topics tm)\<rparr>;
          tm = tm\<lparr>tm_topic_count := int (length (tm_topics tm))\<rparr>
      in tm\<lparr>tm_total_partition_count := tm_total_partition_count tm + int (length (td_partitions md))\<rparr>)"

definition create_topic ::
  "ClusterView \<Rightarrow> 'l BrokerServer \<Rightarrow> int \<Rightarrow> string \<Rightarrow> int \<Rightarrow> int \<Rightarrow> TopicManager \<times> 'l PartitionManager
    \<Rightarrow> (error_code + TopicMetadata) \<times> TopicManager \<times> 'l PartitionManager" where
  "create_topic view server now name partitions replication_factor s =
     (let (tm, pm) = s
      in case create_prepare view name partitions replication_factor tm of
        (Inl e, tm) \<Rightarrow> (Inl e, tm, pm)
      | (Inr md, tm) \<Rightarrow>
          (case provision (create_partition server now) delete_partition name
                  (map int [0..<length (td_partitions md)]) [] pm of
             (Some e, pm) \<Rightarrow> (Inl e, tm, pm)
           | (None, pm) \<Rightarrow> (Inr md, create_insert name md tm, pm)))"

definition auto_create_topic ::
  "ClusterView \<Rightarrow> 'l BrokerServer \<Rightarrow> int \<Rightarrow> string \<Rightarrow> TopicManager \<times> 'l PartitionManager
    \<Rightarrow> (error_code + TopicMetadata) \<times> TopicManager \<times> 'l PartitionManager" where
  "auto_create_topic view server now name s = create_topic view server now name kMinPartitions kMinReplicationFactor s"

section \<open>Deleting a topic\<close>

text \<open>Phase 1: mark the entry and take a snapshot of the metadata.\<close>

definition delete_mark :: "int \<Rightarrow> string \<Rightarrow> TopicManager \<Rightarrow> (error_code + TopicMetadata) \<times> TopicManager" where
  "delete_mark now name tm =
     (case map_of (tm_topics tm) name of
        None \<Rightarrow> (Inl unknown_topic_or_partition, tm)
      | Some e \<Rightarrow>
          if te_marked_for_deletion e then (Inl unknown_topic_or_partition, tm)
          else (Inr (te_metadata e),
                tm\<lparr>tm_topics := AList.update name (e\<lparr>te_marked_for_deletion := True, te_deletion_marked_at := now\<rparr>) (tm_topics tm)\<rparr>))"

text \<open>The un-marking of phase 2, when the proposal fails.\<close>

definition delete_unmark :: "string \<Rightarrow> TopicManager \<Rightarrow> TopicManager" where
  "delete_unmark name tm =
     (case map_of (tm_topics tm) name of
        None \<Rightarrow> tm
      | Some e \<Rightarrow> tm\<lparr>tm_topics := AList.update name (e\<lparr>te_marked_for_deletion := False\<rparr>) (tm_topics tm)\<rparr>)"

text \<open>Phase 3: delete the partitions of the snapshot; failures are only logged.\<close>

definition delete_partitions :: "string \<Rightarrow> TopicMetadata \<Rightarrow> 'l PartitionManager \<Rightarrow> 'l PartitionManager" where
  "delete_partitions name snapshot pm =
     fold (\<lambda>part_meta pm. snd (delete_partition name (pd_partition_id part_meta) pm)) (td_partitions snapshot) pm"

text \<open>Phase 4, under the exclusive lock.\<close>

definition delete_finish :: "string \<Rightarrow> TopicMetadata \<Rightarrow> TopicManager \<Rightarrow> TopicManager" where
  "delete_finish name snapshot tm =
     (let tm = tm\<lparr>tm_topics := AList.delete name (tm_topics tm)\<rparr>;
          tm = tm\<lparr>tm_topic_count := int (length (tm_topics tm))\<rparr>
      in tm\<lparr>tm_total_partition_count := tm_total_partition_count tm - int (length (td_partitions snapshot))\<rparr>)"

definition delete_topic ::
  "ClusterView \<Rightarrow> int \<Rightarrow> string \<Rightarrow> TopicManager \<times> 'l PartitionManager
    \<Rightarrow> (error_code + TopicMetadata) \<times> TopicManager \<times> 'l PartitionManager" where
  "delete_topic view now name s =
     (let (tm, pm) = s
      in case delete_mark now name tm of
        (Inl e, tm) \<Rightarrow> (Inl e, tm, pm)
      | (Inr snapshot, tm) \<Rightarrow>
          let raft_ec = propose_delete_topic_to_raft view
          in if raft_ec \<noteq> None \<and> raft_ec \<noteq> Some not_controller
             then (Inl (the raft_ec), delete_unmark name tm, pm)
             else let pm = delete_partitions name snapshot pm
             in (Inr snapshot, delete_finish name snapshot tm, pm))"

section \<open>Queries\<close>

definition live_topic :: "TopicManager \<Rightarrow> string \<Rightarrow> TopicCacheEntry option" where
  "live_topic tm name =
     (case map_of (tm_topics tm) name of
        None \<Rightarrow> None | Some e \<Rightarrow> if te_marked_for_deletion e then None else Some e)"

definition get_topic :: "TopicManager \<Rightarrow> string \<Rightarrow> TopicMetadata option" where
  "get_topic tm name = map_option te_metadata (live_topic tm name)"

definition list_topics :: "TopicManager \<Rightarrow> TopicMetadata list" where
  "list_topics tm =
     sort_key td_name (map (\<lambda>(name, e). te_metadata e) (filter (\<lambda>(name, e). \<not> te_marked_for_deletion e) (tm_topics tm)))"

definition topic_exists :: "TopicManager \<Rightarrow> string \<Rightarrow> bool" where
  "topic_exists tm name \<longleftrightarrow> live_topic tm name \<noteq> None"

definition partition_count :: "TopicManager \<Rightarrow> string \<Rightarrow> int" where
  "partition_count tm name =
     (case live_topic tm name of None \<Rightarrow> 0 | Some e \<Rightarrow> int (length (td_partitions (te_metadata e))))"

definition topic_generation :: "TopicManager \<Rightarrow> string \<Rightarrow> int" where
  "topic_generation tm name = (case map_of (tm_topics tm) name of None \<Rightarrow> - 1 | Some e \<Rightarrow> te_generation e)"

definition hosted_partitions :: "TopicManager \<Rightarrow> string \<Rightarrow> int list" where
  "hosted_partitions tm name =
     (case map_of (tm_topics tm) name of None \<Rightarrow> [] | Some e \<Rightarrow> sorted_list_of_set (te_hosted_partitions e))"

definition topic_dynamic_config :: "TopicManager \<Rightarrow> string \<Rightarrow> (string \<times> string) list" where
  "topic_dynamic_config tm name = (case map_of (tm_topics tm) name of None \<Rightarrow> [] | Some e \<Rightarrow> te_dynamic_config e)"

definition is_internal_topic :: "TopicManager \<Rightarrow> string \<Rightarrow> bool" where
  "is_internal_topic tm name =
     (case map_of (tm_topics tm) name of
        None \<Rightarrow> length name \<ge> 2 \<and> take 2 name = kInternalTopicPrefix
      | Some e \<Rightarrow> td_is_internal (te_metadata e))"

section \<open>Other updates\<close>

definition modify_entry :: "string \<Rightarrow> (TopicCacheEntry \<Rightarrow> TopicCacheEntry) \<Rightarrow> TopicManager \<Rightarrow> TopicManager" where
  "modify_entry name f tm =
     (case map_of (tm_topics tm) name of
        None \<Rightarrow> tm | Some e \<Rightarrow> tm\<lparr>tm_topics := AList.update name (f e) (tm_topics tm)\<rparr>)"

definition alter_topic_config :: "ClusterView \<Rightarrow> string \<Rightarrow> string \<Rightarrow> string \<Rightarrow> TopicManager \<Rightarrow> (error_code + unit) \<times> TopicManager" where
  "alter_topic_config view name key v tm =
     (if key = [] then (Inl invalid_config, tm)
      else if key \<notin> set kAlterableConfigKeys then (Inl invalid_config, tm)
      else case live_topic tm name of
        None \<Rightarrow> (Inl unknown_topic_or_partition, tm)
      | Some e \<Rightarrow>
          let (ok, cfg) = apply_topic_config_override (td_config (te_metadata e)) key v
          in if \<not> ok then (Inl invalid_config, tm)
             else let raft_ec = propose_alter_config_to_raft view
             in if raft_ec \<noteq> None \<and> raft_ec \<noteq> Some not_controller then (Inl (the raft_ec), tm)
             else (Inr (), modify_entry name (\<lambda>e. e\<lparr>te_metadata := (te_metadata e)\<lparr>td_config := cfg\<rparr>,
                     te_dynamic_config := omap_put key v (te_dynamic_config e), te_generation := te_generation e + 1\<rparr>) tm))"

definition register_hosted_partition :: "string \<Rightarrow> int \<Rightarrow> TopicManager \<Rightarrow> TopicManager" where
  "register_hosted_partition name pid tm =
     modify_entry name (\<lambda>e. e\<lparr>te_hosted_partitions := insert pid (te_hosted_partitions e)\<rparr>) tm"

definition unregister_hosted_partition :: "string \<Rightarrow> int \<Rightarrow> TopicManager \<Rightarrow> TopicManager" where
  "unregister_hosted_partition name pid tm =
     modify_entry name (\<lambda>e. e\<lparr>te_hosted_partitions := te_hosted_partitions e - {pid}\<rparr>) tm"

definition update_topic_metadata :: "TopicMetadata \<Rightarrow> TopicManager \<Rightarrow> TopicManager" where
  "update_topic_metadata md tm =
     modify_entry (td_name md) (\<lambda>e. e\<lparr>te_metadata := md, te_generation := te_generation e + 1\<rparr>) tm"

text \<open>The removal of one topic in the second critical section of \<^verbatim>\<open>cleanup_deleted_topics\<close>.\<close>

definition cleanup_remove :: "string \<Rightarrow> TopicManager \<Rightarrow> TopicManager" where
  "cleanup_remove name tm =
     (case map_of (tm_topics tm) name of
        None \<Rightarrow> tm
      | Some e \<Rightarrow> tm\<lparr>tm_total_partition_count := tm_total_partition_count tm - int (length (td_partitions (te_metadata e))),
                     tm_topics := AList.delete name (tm_topics tm)\<rparr>)"

definition cleanup_deleted_topics :: "int \<Rightarrow> int \<Rightarrow> TopicManager \<Rightarrow> TopicManager" where
  "cleanup_deleted_topics now deletion_grace_period tm =
     (let to_remove = map fst (filter (\<lambda>(name, e). te_marked_for_deletion e \<and>
            (now - te_deletion_marked_at e) div 1000000 \<ge> deletion_grace_period) (tm_topics tm))
      in if to_remove = [] then tm
         else let tm = fold cleanup_remove to_remove tm
              in tm\<lparr>tm_topic_count := int (length (tm_topics tm))\<rparr>)"

end
