(* ===== verification/Partition_Manager_Properties.thy ===== *)
theory Partition_Manager_Properties
  imports Partition_Manager
begin

text \<open>
  What the partition manager promises: keys that can be parsed back, counters that agree with the
  map, epochs and watermarks that never fall, and the fencing of stale leaders; and where stepping down, stopping
  and the high watermark fall short of what the comments say.
\<close>

section \<open>Keys\<close>

lemma split_at_last:
  assumes "xs @ c # ys = xs' @ c # ys'" "c \<notin> set ys" "c \<notin> set ys'"
  shows "xs = xs' \<and> ys = ys'"
proof -
  have "rev (xs @ c # ys) = rev (xs' @ c # ys')" using assms(1) by simp
  then have r: "rev ys @ c # rev xs = rev ys' @ c # rev xs'" by simp
  have "takeWhile (\<lambda>x. x \<noteq> c) (rev ys @ c # zs) = rev ys" if "c \<notin> set ys" for ys zs
    using that by (induction ys rule: rev_induct) (auto simp: takeWhile_append)
  then have "rev ys = rev ys'" using r assms(2,3) by metis
  then show ?thesis using r by simp
qed

lemma separator_not_in_number: "kKeySeparator \<notin> set (to_string p)"
  using to_string_chars [of kKeySeparator p] by (auto simp: kKeySeparator_def is_digit_def)

lemma make_key_inject [simp]: "make_partition_key t p = make_partition_key t' p' \<longleftrightarrow> t = t' \<and> p = p'"
  using split_at_last [of t kKeySeparator "to_string p" t' "to_string p'"] separator_not_in_number
  by (auto simp: make_partition_key_def)

lemma parse_make_key:
  assumes "kKeySeparator \<notin> set t" "- (2 ^ 31) \<le> p" "p < 2 ^ 31"
  shows "parse_partition_key (make_partition_key t p) = Some (t, p)"
proof -
  have "takeWhile (\<lambda>c. c \<noteq> kKeySeparator) (make_partition_key t p) = t"
    using assms(1) by (induction t) (auto simp: make_partition_key_def)
  then show ?thesis using stoi_to_string [OF assms(2,3)] by (simp add: parse_partition_key_def make_partition_key_def)
qed

section \<open>Epochs and watermarks\<close>

text \<open>A replica that is started, its fence at its epoch; and one that is later than another.\<close>

definition live :: "'l PartitionReplica \<Rightarrow> bool" where
  "live r \<longleftrightarrow> pr_is_active r \<and> pr_fenced_epoch r = pr_leader_epoch r"

definition later :: "'l PartitionReplica \<Rightarrow> 'l PartitionReplica \<Rightarrow> bool" where
  "later r r' \<longleftrightarrow> live r' \<and> pr_fenced_epoch r \<le> pr_fenced_epoch r' \<and> pr_high_watermark r \<le> pr_high_watermark r'"

lemma later_refl: "live r \<Longrightarrow> later r r" by (simp add: later_def)
lemma later_trans: "later r r' \<Longrightarrow> later r' r'' \<Longrightarrow> later r r''" by (simp add: later_def)
lemma later_live: "later r r' \<Longrightarrow> live r'" by (simp add: later_def)

text \<open>A transition of the map of replicas seen at one key: the replica there stays, and becomes a later one.\<close>

definition evolves :: "string \<Rightarrow> (string \<times> 'l PartitionReplica) list \<Rightarrow> (string \<times> 'l PartitionReplica) list \<Rightarrow> bool" where
  "evolves k m m' \<longleftrightarrow> (\<forall>r. map_of m k = Some r \<longrightarrow> live r \<longrightarrow> (\<exists>r'. map_of m' k = Some r' \<and> later r r'))"

lemma evolves_refl [simp]: "evolves k m m" by (simp add: evolves_def later_refl)

lemma evolves_trans: "evolves k m m' \<Longrightarrow> evolves k m' m'' \<Longrightarrow> evolves k m m''"
  unfolding evolves_def by (meson later_live later_trans)

lemma evolves_update:
  assumes "map_of m k' = Some r" "live r \<Longrightarrow> later r r'"
  shows "evolves k m (AList.update k' r' m)"
  using assms by (auto simp: evolves_def update_conv' later_refl)

lemma evolves_insert: "map_of m k' = None \<Longrightarrow> evolves k m (AList.update k' r' m)"
  by (auto simp: evolves_def update_conv' later_refl)

lemma evolves_elsewhere: "k \<noteq> k' \<Longrightarrow> evolves k m (AList.update k' r' m)" "k \<noteq> k' \<Longrightarrow> evolves k m (AList.delete k' m)"
  by (auto simp: evolves_def update_conv' delete_conv' later_refl)

lemma put_replica_frame [simp]: "pm_partitions (put_replica k r s) = AList.update k r (pm_partitions s)"
  "pm_leader_partition_count (put_replica k r s) = pm_leader_partition_count s"
  "pm_total_partition_count (put_replica k r s) = pm_total_partition_count s"
  by (simp_all add: put_replica_def)

lemma propagate_frame [simp]: "pm_partitions (propagate_leader_and_isr b t p l i s) = pm_partitions s"
  "pm_leader_partition_count (propagate_leader_and_isr b t p l i s) = pm_leader_partition_count s"
  "pm_total_partition_count (propagate_leader_and_isr b t p l i s) = pm_total_partition_count s"
  by (simp_all add: propagate_leader_and_isr_def)

abbreviation stays :: "string \<Rightarrow> 'l PartitionManager \<Rightarrow> 'l PartitionManager \<Rightarrow> bool" where
  "stays k s s' \<equiv> evolves k (pm_partitions s) (pm_partitions s')"

lemma evolves_add_isr: "stays k s (snd (add_isr b now t p br s))"
  by (simp add: add_isr_def Let_def split: option.split)
    (intro allI impI evolves_update; auto simp: live_def later_def)

lemma evolves_remove_isr: "stays k s (snd (remove_isr b now t p br s))"
  by (simp add: remove_isr_def Let_def split: option.split)
    (intro allI impI evolves_update; auto simp: live_def later_def)

lemma evolves_become: "stays k s (snd (become_leader b now t p s))"
  by (simp add: become_leader_def Let_def split: option.split)
    (intro conjI allI impI evolves_update; auto simp: live_def later_def)

lemma evolves_step_down: "stays k s (snd (step_down_leader b now t p s))"
  by (simp add: step_down_leader_def Let_def split: option.split)
    (intro conjI allI impI evolves_update; auto simp: live_def later_def)

lemma evolves_leader_and_isr: "stays k s (snd (handle_leader_and_isr b now t p l isr e s))"
  by (simp add: handle_leader_and_isr_def Let_def split: option.split)
    (intro conjI allI impI evolves_update; auto simp: live_def later_def)

lemma evolves_advance: "stays k s (advance_high_watermark b t p hw s)"
  by (simp add: advance_high_watermark_def Let_def split: option.split)
    (intro conjI allI impI evolves_update; auto simp: live_def later_def raise_high_watermark_def)

lemma evolves_advance_all: "stays k s (maybe_advance_high_watermark_all b s)"
  by (auto simp: maybe_advance_high_watermark_all_def evolves_def live_def later_def raise_high_watermark_def Let_def)

lemma evolves_shrink:
  assumes "shrink_isr_stale_replicas b now s = Some s'"
  shows "stays k s s'"
proof -
  let ?f = "\<lambda>(key, broker) s. case parse_partition_key key of None \<Rightarrow> s
      | Some (topic, pid) \<Rightarrow> snd (remove_isr b now topic pid broker s)"
  have "stays k s (fold ?f xs s)" for xs
    by (rule fold_invariant [of xs "stays k s"])
      (auto split: option.split prod.split intro: evolves_trans evolves_remove_isr)
  then show ?thesis using assms by (auto simp: shrink_isr_stale_replicas_def Let_def split: if_splits)
qed

lemma evolves_monitor: "stays k s (isr_monitor_pass b now s)"
  by (auto simp: isr_monitor_pass_def split: option.split intro: evolves_trans evolves_shrink evolves_advance_all)

lemma evolves_create: "stays k s (snd (create_partition b now t p s))"
proof (cases "map_of (pm_partitions s) (make_partition_key t p)")
  case None
  then show ?thesis
    by (auto simp: create_partition_def init_replica_def Let_def split: option.split sum.split intro: evolves_insert)
next
  case (Some r)
  show ?thesis
  proof (cases "pr_is_active r \<or> k \<noteq> make_partition_key t p")
    case True
    then show ?thesis using Some
      by (auto simp: create_partition_def init_replica_def Let_def split: sum.split intro: evolves_elsewhere)
  next
    case False
    then show ?thesis using Some by (simp add: evolves_def live_def)
  qed
qed

fun takes_down :: "pm_op \<Rightarrow> string \<Rightarrow> int \<Rightarrow> bool" where
  "takes_down (Delete t p) t' p' \<longleftrightarrow> t = t' \<and> p = p'"
| "takes_down (StopReplica t p d) t' p' \<longleftrightarrow> t = t' \<and> p = p'"
| "takes_down _ t' p' \<longleftrightarrow> False"

lemma evolves_exec:
  assumes "\<not> takes_down op t p"
  shows "stays (make_partition_key t p) s (pm_exec b op s)"
proof (cases op)
  case (Delete t' p')
  then show ?thesis using assms
    by (auto simp: delete_partition_def Let_def split: option.split intro: evolves_elsewhere)
next
  case (StopReplica t' p' d)
  then show ?thesis using assms
    by (auto simp: handle_stop_replica_def delete_partition_def Let_def split: option.split intro: evolves_elsewhere)
qed (simp_all add: evolves_add_isr evolves_remove_isr evolves_become evolves_step_down evolves_leader_and_isr
    evolves_advance evolves_monitor evolves_create)

lemma evolves_run:
  "list_all (\<lambda>op. \<not> takes_down op t p) ops \<Longrightarrow> stays (make_partition_key t p) s (pm_run b ops s)"
  by (induction ops arbitrary: s) (auto intro: evolves_trans evolves_exec)

section \<open>Counters\<close>

definition leaders :: "(string \<times> 'l PartitionReplica) list \<Rightarrow> int" where
  "leaders m = alist_sum (\<lambda>r. of_bool (pr_is_leader_local r)) m"

lemma leaders_count: "leaders m = int (length (filter (\<lambda>(k, r). pr_is_leader_local r) m))"
  by (induction m) (auto simp: leaders_def)

text \<open>
  The counters agree with the map; every replica stands under its own key, is started, and names
  the local broker as leader when it leads here.
\<close>

definition entry_ok :: "'l BrokerServer \<Rightarrow> string \<Rightarrow> 'l PartitionReplica \<Rightarrow> bool" where
  "entry_ok b k r \<longleftrightarrow> k = make_partition_key (pr_topic r) (pr_partition_id r) \<and> pr_is_active r \<and>
     (pr_is_leader_local r \<longrightarrow> pr_leader r = bs_broker_id b)"

definition pm_exact :: "'l BrokerServer \<Rightarrow> 'l PartitionManager \<Rightarrow> bool" where
  "pm_exact b s \<longleftrightarrow> distinct (map fst (pm_partitions s)) \<and> alist_all (entry_ok b) (pm_partitions s) \<and>
     pm_total_partition_count s = int (length (pm_partitions s)) \<and>
     pm_leader_partition_count s = leaders (pm_partitions s)"

lemma pm_exact_new: "pm_exact b new_partition_manager"
  by (simp add: pm_exact_def new_partition_manager_def alist_all_def leaders_def)

lemma exact_entry: "pm_exact b s \<Longrightarrow> map_of (pm_partitions s) k = Some r \<Longrightarrow> entry_ok b k r"
  by (auto simp: pm_exact_def dest: alist_all_lookup)

lemma exact_update:
  assumes "pm_exact b s" "map_of (pm_partitions s) k = Some r" "entry_ok b k r'"
    "pm_partitions s' = AList.update k r' (pm_partitions s)" "pm_total_partition_count s' = pm_total_partition_count s"
    "pm_leader_partition_count s' = pm_leader_partition_count s - of_bool (pr_is_leader_local r) + of_bool (pr_is_leader_local r')"
  shows "pm_exact b s'"
  using assms alist_sum_update [of "pm_partitions s" k r _ r'] pair_key [OF map_of_SomeD [OF assms(2)]]
  by (auto simp: pm_exact_def leaders_def alist_all_update length_update distinct_update)

lemma exact_insert:
  assumes "pm_exact b s" "map_of (pm_partitions s) k = None" "entry_ok b k r'" "\<not> pr_is_leader_local r'"
    "pm_partitions s' = AList.update k r' (pm_partitions s)" "pm_total_partition_count s' = pm_total_partition_count s + 1"
    "pm_leader_partition_count s' = pm_leader_partition_count s"
  shows "pm_exact b s'"
  using assms alist_sum_insert [of "pm_partitions s" k _ r'] map_of_eq_None_iff [of "pm_partitions s" k]
  by (auto simp: pm_exact_def leaders_def alist_all_update length_update distinct_update)

lemma exact_propagate [simp]: "pm_exact b (propagate_leader_and_isr b' t p l i s) = pm_exact b s"
  by (simp add: pm_exact_def)

lemma exact_replica:
  assumes "pm_exact b s" "map_of (pm_partitions s) k = Some r"
  shows "pr_is_active r" "pr_is_leader_local r \<Longrightarrow> pr_leader r = bs_broker_id b"
  using exact_entry [OF assms] by (auto simp: entry_ok_def)

lemma exact_put_count:
  assumes "pm_exact b s" "map_of (pm_partitions s) k = Some r"
    "pr_topic r' = pr_topic r" "pr_partition_id r' = pr_partition_id r" "pr_is_active r'"
    "pr_is_leader_local r' \<Longrightarrow> pr_leader r' = bs_broker_id b"
    "c = pm_leader_partition_count s - of_bool (pr_is_leader_local r) + of_bool (pr_is_leader_local r')"
  shows "pm_exact b (put_replica k r' s\<lparr>pm_leader_partition_count := c\<rparr>)"
proof (rule exact_update [OF assms(1,2)])
  show "entry_ok b k r'" using exact_entry [OF assms(1,2)] assms(3-6) by (simp add: entry_ok_def)
qed (auto simp: assms(7))

lemma exact_put:
  assumes "pm_exact b s" "map_of (pm_partitions s) k = Some r"
    "pr_topic r' = pr_topic r" "pr_partition_id r' = pr_partition_id r" "pr_is_active r'"
    "pr_is_leader_local r' \<Longrightarrow> pr_leader r' = bs_broker_id b" "pr_is_leader_local r' = pr_is_leader_local r"
  shows "pm_exact b (put_replica k r' s)"
proof (rule exact_update [OF assms(1,2)])
  show "entry_ok b k r'" using exact_entry [OF assms(1,2)] assms(3-6) by (simp add: entry_ok_def)
qed (auto simp: assms(7))

lemma exact_create:
  assumes "pm_exact b s"
  shows "pm_exact b (snd (create_partition b now t p s))"
proof (cases "map_of (pm_partitions s) (make_partition_key t p)")
  case None
  let ?s = "\<lambda>r. put_replica (make_partition_key t p) r s\<lparr>pm_total_partition_count := pm_total_partition_count s + 1\<rparr>"
  have "entry_ok b (make_partition_key t p) r \<Longrightarrow> \<not> pr_is_leader_local r \<Longrightarrow> pm_exact b (?s r)" for r
    by (rule exact_insert [OF assms None]) simp_all
  note new = this
  show ?thesis using None assms
    by (auto simp: create_partition_def init_replica_def Let_def split: sum.split intro!: new)
      (auto simp: entry_ok_def)
next
  case (Some r)
  then have "pr_is_active r" using exact_entry [OF assms] by (simp add: entry_ok_def)
  then show ?thesis using Some assms by (simp add: create_partition_def Let_def)
qed

lemma exact_delete:
  assumes "pm_exact b s"
  shows "pm_exact b (snd (delete_partition t p s))"
proof (cases "map_of (pm_partitions s) (make_partition_key t p)")
  case (Some r)
  then show ?thesis
    using assms alist_sum_delete [of "pm_partitions s" "make_partition_key t p" r]
      length_delete_present [of "pm_partitions s" "make_partition_key t p" r]
    by (auto simp: delete_partition_def Let_def pm_exact_def leaders_def alist_all_delete distinct_delete)
qed (simp add: assms delete_partition_def)

lemma exact_add_isr:
  assumes "pm_exact b s"
  shows "pm_exact b (snd (add_isr b now t p br s))"
proof (cases "map_of (pm_partitions s) (make_partition_key t p)")
  case (Some r)
  then show ?thesis using assms exact_replica [OF assms Some]
    by (auto simp: add_isr_def Let_def intro!: exact_put [OF assms Some] exact_put_count [OF assms Some])
qed (simp add: assms add_isr_def)

lemma exact_remove_isr:
  assumes "pm_exact b s"
  shows "pm_exact b (snd (remove_isr b now t p br s))"
proof (cases "map_of (pm_partitions s) (make_partition_key t p)")
  case (Some r)
  then show ?thesis using assms exact_replica [OF assms Some]
    by (auto simp: remove_isr_def Let_def intro!: exact_put [OF assms Some] exact_put_count [OF assms Some])
qed (simp add: assms remove_isr_def)

lemma exact_become:
  assumes "pm_exact b s"
  shows "pm_exact b (snd (become_leader b now t p s))"
proof (cases "map_of (pm_partitions s) (make_partition_key t p)")
  case (Some r)
  then show ?thesis using assms exact_replica [OF assms Some]
    by (auto simp: become_leader_def Let_def intro!: exact_put [OF assms Some] exact_put_count [OF assms Some])
qed (simp add: assms become_leader_def)

lemma exact_step_down:
  assumes "pm_exact b s"
  shows "pm_exact b (snd (step_down_leader b now t p s))"
proof (cases "map_of (pm_partitions s) (make_partition_key t p)")
  case (Some r)
  then show ?thesis using assms exact_replica [OF assms Some]
    by (auto simp: step_down_leader_def Let_def intro!: exact_put [OF assms Some] exact_put_count [OF assms Some])
qed (simp add: assms step_down_leader_def)

lemma exact_leader_and_isr:
  assumes "pm_exact b s"
  shows "pm_exact b (snd (handle_leader_and_isr b now t p l isr e s))"
proof (cases "map_of (pm_partitions s) (make_partition_key t p)")
  case (Some r)
  then show ?thesis using assms exact_replica [OF assms Some]
    by (auto simp: handle_leader_and_isr_def Let_def intro!: exact_put [OF assms Some] exact_put_count [OF assms Some])
qed (simp add: assms handle_leader_and_isr_def)

lemma exact_advance:
  assumes "pm_exact b s"
  shows "pm_exact b (advance_high_watermark b' t p hw s)"
proof (cases "map_of (pm_partitions s) (make_partition_key t p)")
  case (Some r)
  then show ?thesis using assms exact_replica [OF assms Some]
    by (auto simp: advance_high_watermark_def Let_def raise_high_watermark_def intro!: exact_put [OF assms Some] exact_put_count [OF assms Some])
qed (simp add: assms advance_high_watermark_def)

lemma exact_advance_all: "pm_exact b s \<Longrightarrow> pm_exact b (maybe_advance_high_watermark_all b' s)"
  by (auto simp: pm_exact_def maybe_advance_high_watermark_all_def raise_high_watermark_def Let_def entry_ok_def
      leaders_def alist_sum_entries elim!: alist_all_mono)

lemma exact_monitor:
  assumes "pm_exact b s"
  shows "pm_exact b (isr_monitor_pass b now s)"
proof -
  let ?f = "\<lambda>(key, broker) s. case parse_partition_key key of None \<Rightarrow> s
      | Some (topic, pid) \<Rightarrow> snd (remove_isr b now topic pid broker s)"
  have "pm_exact b (fold ?f xs s)" for xs
    by (rule fold_invariant [of xs "pm_exact b"]) (auto simp: assms exact_remove_isr split: option.split prod.split)
  then have "shrink_isr_stale_replicas b now s = Some s' \<Longrightarrow> pm_exact b s'" for s'
    by (auto simp: shrink_isr_stale_replicas_def Let_def split: if_splits)
  then show ?thesis using assms by (simp add: isr_monitor_pass_def exact_advance_all split: option.split)
qed

fun keeps_stopped :: "pm_op \<Rightarrow> bool" where
  "keeps_stopped (StopReplica t p d) \<longleftrightarrow> \<not> d"
| "keeps_stopped _ \<longleftrightarrow> False"

lemma exact_exec: "pm_exact b s \<Longrightarrow> \<not> keeps_stopped op \<Longrightarrow> pm_exact b (pm_exec b op s)"
  by (cases op) (simp_all add: exact_create exact_delete exact_add_isr exact_remove_isr exact_become exact_step_down
      exact_leader_and_isr exact_advance exact_monitor handle_stop_replica_def)

lemma exact_run: "list_all (\<lambda>op. \<not> keeps_stopped op) ops \<Longrightarrow> pm_exact b s \<Longrightarrow> pm_exact b (pm_run b ops s)"
  by (induction ops arbitrary: s) (auto intro: exact_exec)

section \<open>The monitor's scan\<close>

lemma remove_isr_isr:
  "map_option pr_isr (map_of (pm_partitions (snd (remove_isr b now t p br s))) k) =
   map_option (\<lambda>r. if k = make_partition_key t p then remove1 br (pr_isr r) else pr_isr r) (map_of (pm_partitions s) k)"
  by (cases "map_of (pm_partitions s) k"; cases "k = make_partition_key t p")
    (auto simp: remove_isr_def Let_def update_conv' remove1_idem split: option.split)

abbreviation removal :: "'l BrokerServer \<Rightarrow> int \<Rightarrow> string \<times> broker_id \<Rightarrow> 'l PartitionManager \<Rightarrow> 'l PartitionManager" where
  "removal b now \<equiv> \<lambda>(key, broker) s. case parse_partition_key key of None \<Rightarrow> s
     | Some (topic, pid) \<Rightarrow> snd (remove_isr b now topic pid broker s)"

definition key_parses :: "string \<Rightarrow> bool" where
  "key_parses k \<longleftrightarrow> (\<exists>t p. parse_partition_key k = Some (t, p) \<and> make_partition_key t p = k)"

lemma fold_removal_isr:
  assumes "\<forall>(key, br) \<in> set xs. key_parses key"
  shows "map_option pr_isr (map_of (pm_partitions (fold (removal b now) xs s)) k) =
    map_option (\<lambda>r. fold remove1 (map snd (filter (\<lambda>(key, br). key = k) xs)) (pr_isr r)) (map_of (pm_partitions s) k)"
  using assms
proof (induction xs arbitrary: s)
  case (Cons x xs)
  obtain key br t p where x: "x = (key, br)" "parse_partition_key key = Some (t, p)" "make_partition_key t p = key"
    using Cons.prems by (cases x) (auto simp: key_parses_def)
  let ?g = "\<lambda>isr. fold remove1 (map snd (filter (\<lambda>(key, br). key = k) xs)) isr"
  let ?s = "snd (remove_isr b now t p br s)"
  have "map_option pr_isr (map_of (pm_partitions (fold (removal b now) (x # xs) s)) k) =
      map_option (\<lambda>r. ?g (pr_isr r)) (map_of (pm_partitions ?s) k)"
    using Cons.IH [of ?s] Cons.prems x by simp
  also have "\<dots> = map_option ?g (map_option pr_isr (map_of (pm_partitions ?s) k))"
    by (simp add: option.map_comp comp_def)
  finally show ?case
    unfolding remove_isr_isr using x by (auto simp: option.map_comp comp_def intro!: map_option_cong)
qed (simp add: option.map_ident)

lemma fold_remove1_distinct: "distinct ys \<Longrightarrow> fold remove1 xs ys = filter (\<lambda>y. y \<notin> set xs) ys"
proof (induction xs arbitrary: ys)
  case (Cons x xs)
  then have "fold remove1 (x # xs) ys = filter (\<lambda>y. y \<notin> set xs) (remove1 x ys)" by (simp add: distinct_remove1)
  also have "\<dots> = filter (\<lambda>y. y \<notin> set (x # xs)) ys"
    using Cons.prems by (auto simp: distinct_remove1_removeAll removeAll_filter_not_eq conj_commute intro: filter_cong)
  finally show ?case .
qed simp

text \<open>The pairs the scan finds for one key.\<close>

lemma scan_at_key:
  assumes "distinct (map fst m)" "map_of m k = Some r"
  shows "map snd (filter (\<lambda>(key, br). key = k)
      (concat (map (\<lambda>(key, r). map (Pair key) (f r)) (filter (\<lambda>(key, r). P r) m)))) = (if P r then f r else [])"
  using assms
proof (induction m)
  case (Cons a m)
  have none: "filter (\<lambda>(key, br). key = k) (concat (map (\<lambda>(key, r). map (Pair key) (f r)) (filter (\<lambda>(key, r). P r) m))) = []"
    if "k \<notin> fst ` set m" using that by (force simp: filter_empty_conv)
  have pairs: "filter (\<lambda>(key, br). key = k) (map (Pair k') ys) = (if k' = k then map (Pair k') ys else [])" for k' ys
    by (induction ys) auto
  show ?case
    using Cons none by (cases a) (auto simp: pairs comp_def split: if_splits)
qed simp

section \<open>Properties\<close>

text \<open>
  In every run of the manager in which no replica is stopped without being deleted, the total
  counter is the number of hosted partitions, the leader counter is the number of partitions led
  here, no partition is hosted twice, each stands under the key of its topic and number, and
  a partition led here names this broker as its leader.
\<close>

theorem partition_counts_exact:
  assumes "list_all (\<lambda>op. \<not> keeps_stopped op) ops"
  shows "let s = pm_run b ops new_partition_manager
    in pm_total_partition_count s = int (length (pm_partitions s)) \<and> distinct (map fst (pm_partitions s)) \<and>
       pm_leader_partition_count s = int (length (filter (\<lambda>(k, r). pr_is_leader_local r) (pm_partitions s))) \<and>
       (\<forall>k r. map_of (pm_partitions s) k = Some r \<longrightarrow> k = make_partition_key (pr_topic r) (pr_partition_id r) \<and>
          (pr_is_leader_local r \<longrightarrow> pr_leader r = bs_broker_id b))"
proof -
  have "pm_exact b (pm_run b ops new_partition_manager)" using assms pm_exact_new by (rule exact_run)
  then show ?thesis
    unfolding Let_def using exact_entry [of b "pm_run b ops new_partition_manager"] by (simp add: pm_exact_def leaders_count entry_ok_def)
qed

text \<open>A broker whose log is its end offset, for concrete runs.\<close>

definition demo_broker :: "int BrokerServer" where
  "demo_broker = \<lparr>bs_broker_id = 1, bs_data_directory = ''/d'', bs_create_directories = (\<lambda>_. True), bs_inter_broker = True,
     bs_log = \<lparr>lm_open = (\<lambda>_. Inr 7), lm_is_open = (\<lambda>_. True), lm_close = (\<lambda>l. l), lm_log_end_offset = (\<lambda>l. l),
       lm_high_watermark = (\<lambda>_. 0), lm_last_stable_offset = (\<lambda>_. 0), lm_log_start_offset = (\<lambda>_. 0),
       lm_update_high_watermark = (\<lambda>_ l. l)\<rparr>\<rparr>"

theorem partition_counts_exact_witness:
  "pm_total_partition_count (pm_run demo_broker [Create 0 ''t'' 0, Create 0 ''t'' 1, BecomeLeader 0 ''t'' 1, Delete ''t'' 0] new_partition_manager) =
   int (length (pm_partitions (pm_run demo_broker [Create 0 ''t'' 0, Create 0 ''t'' 1, BecomeLeader 0 ''t'' 1, Delete ''t'' 0] new_partition_manager)))"
proof -
  have "list_all (\<lambda>op. \<not> keeps_stopped op) [Create 0 ''t'' 0, Create 0 ''t'' 1, BecomeLeader 0 ''t'' 1, Delete ''t'' 0]" by simp
  from partition_counts_exact [OF this, of demo_broker] show ?thesis unfolding Let_def by blast
qed

text \<open>
  C18: a stale leader is fenced. Once a partition has accepted a leader epoch, by a request or by
  becoming leader itself, then after any further operations that do not delete or stop it, every
  LeaderAndISR request with a lower epoch is refused with \<^verbatim>\<open>fenced_leader_epoch\<close> and changes nothing.
\<close>

theorem stale_leader_fenced:
  assumes "replica_for s t p = Some r" "live r" "list_all (\<lambda>op. \<not> takes_down op t p) ops" "e < pr_leader_epoch r"
  shows "handle_leader_and_isr b now t p l isr e (pm_run b ops s) = (Inl fenced_leader_epoch, pm_run b ops s)"
proof -
  have "stays (make_partition_key t p) s (pm_run b ops s)" using assms(3) by (rule evolves_run)
  then obtain r' where "map_of (pm_partitions (pm_run b ops s)) (make_partition_key t p) = Some r'" "later r r'"
    using assms(1,2) by (auto simp: evolves_def replica_for_def)
  moreover have "e < pr_fenced_epoch r'" using calculation(2) assms(2,4) by (simp add: later_def live_def)
  ultimately show ?thesis by (simp add: handle_leader_and_isr_def)
qed

definition demo_state :: "int PartitionManager" where
  "demo_state = pm_run demo_broker [Create 0 ''t'' 0, LeaderAndIsr 0 ''t'' 0 2 [1, 2] 5] new_partition_manager"

lemma demo_replica:
  "\<exists>r. replica_for demo_state ''t'' 0 = Some r \<and> live r \<and> pr_leader_epoch r = 5 \<and> pr_high_watermark r = 0"
  unfolding demo_state_def live_def by (simp add: demo_broker_def new_partition_manager_def create_partition_def
      init_replica_def handle_leader_and_isr_def replica_for_def put_replica_def Let_def kMaxPartitionsPerBroker_def)

theorem stale_leader_fenced_witness:
  "handle_leader_and_isr demo_broker 9 ''t'' 0 3 [3] 4 (pm_run demo_broker [BecomeLeader 1 ''t'' 0, Monitor 2] demo_state) =
   (Inl fenced_leader_epoch, pm_run demo_broker [BecomeLeader 1 ''t'' 0, Monitor 2] demo_state)"
proof -
  obtain r where "replica_for demo_state ''t'' 0 = Some r" "live r" "pr_leader_epoch r = 5" using demo_replica by blast
  then show ?thesis by (intro stale_leader_fenced [of _ _ _ r]) (simp_all del: fold_simps)
qed

text \<open>
  The high watermark of a partition never falls, through any operations that do not delete or stop it.
\<close>

theorem high_watermark_monotone:
  assumes "replica_for s t p = Some r" "live r" "list_all (\<lambda>op. \<not> takes_down op t p) ops"
  shows "high_watermark_for s t p \<le> high_watermark_for (pm_run b ops s) t p"
proof -
  have "stays (make_partition_key t p) s (pm_run b ops s)" using assms(3) by (rule evolves_run)
  then show ?thesis using assms(1,2) by (auto simp: evolves_def replica_for_def high_watermark_for_def later_def)
qed

theorem high_watermark_monotone_witness:
  "high_watermark_for demo_state ''t'' 0 \<le> high_watermark_for (pm_run demo_broker [BecomeLeader 1 ''t'' 0, Monitor 2] demo_state) ''t'' 0"
proof -
  obtain r where "replica_for demo_state ''t'' 0 = Some r" "live r" using demo_replica by blast
  then show ?thesis by (intro high_watermark_monotone [of _ _ _ r]) (simp_all del: fold_simps)
qed

text \<open>
  The scan for stale replicas removes exactly them. With keys that parse and in-sync sets without
  duplicates, it leaves in each in-sync set the brokers that are not stale if the partition is led
  here, started and has more than one in-sync replica, and leaves every other set alone.
\<close>

theorem shrink_removes_exactly_stale:
  assumes "distinct (map fst (pm_partitions s))" "alist_all (\<lambda>k r. key_parses k \<and> distinct (pr_isr r)) (pm_partitions s)"
  shows "\<exists>s'. shrink_isr_stale_replicas b now s = Some s' \<and>
    (\<forall>t p. isr_for s' t p = (case replica_for s t p of None \<Rightarrow> []
       | Some r \<Rightarrow> if isr_shrinkable r then filter (\<lambda>br. br \<notin> set (stale_replicas (bs_broker_id b) now r)) (pr_isr r) else pr_isr r))"
proof -
  let ?m = "pm_partitions s" and ?stale = "stale_replicas (bs_broker_id b) now"
  define xs where "xs = concat (map (\<lambda>(key, r). map (Pair key) (?stale r)) (filter (\<lambda>(key, r). isr_shrinkable r) ?m))"
  have ok: "(k, r) \<in> set ?m \<Longrightarrow> key_parses k \<and> distinct (pr_isr r)" for k r
    using assms(2) by (auto simp: alist_all_def list_all_iff)
  have "shrink_isr_stale_replicas b now s = Some (fold (removal b now) xs s)"
    using ok by (fastforce simp: shrink_isr_stale_replicas_def Let_def xs_def key_parses_def)
  moreover have "isr_for (fold (removal b now) xs s) t p = (case replica_for s t p of None \<Rightarrow> []
       | Some r \<Rightarrow> if isr_shrinkable r then filter (\<lambda>br. br \<notin> set (?stale r)) (pr_isr r) else pr_isr r)" for t p
  proof -
    let ?k = "make_partition_key t p"
    have "\<forall>(key, br) \<in> set xs. key_parses key" using ok by (auto simp: xs_def)
    note isr = fold_removal_isr [OF this, of b now s ?k]
    show ?thesis
    proof (cases "map_of ?m ?k")
      case None
      then show ?thesis using isr by (simp add: isr_for_def replica_for_def)
    next
      case (Some r)
      have "distinct (pr_isr r)" using ok [OF map_of_SomeD [OF Some]] by simp
      then show ?thesis
        using isr Some scan_at_key [OF assms(1) Some, of ?stale isr_shrinkable]
        by (auto simp: isr_for_def replica_for_def xs_def fold_remove1_distinct split: option.splits)
    qed
  qed
  ultimately show ?thesis by blast
qed

theorem shrink_removes_exactly_stale_witness:
  "\<exists>s'. shrink_isr_stale_replicas demo_broker 40000000000
      (pm_run demo_broker [BecomeLeader 1 ''t'' 0, AddIsr 2 ''t'' 0 3] demo_state) = Some s' \<and> isr_for s' ''t'' 0 = [1]"
proof -
  let ?s = "pm_run demo_broker [BecomeLeader 1 ''t'' 0, AddIsr 2 ''t'' 0 3] demo_state"
  have key: "key_parses (make_partition_key ''t'' 0)"
    using parse_make_key [of "''t''" 0] by (auto simp: key_parses_def kKeySeparator_def)
  obtain r where r: "pm_partitions ?s = [(make_partition_key ''t'' 0, r)]" "pr_isr r = [1, 2, 3]" "isr_shrinkable r"
    "stale_replicas 1 40000000000 r = [2, 3]"
    by (simp add: demo_state_def demo_broker_def new_partition_manager_def create_partition_def become_leader_def add_isr_def
      init_replica_def handle_leader_and_isr_def put_replica_def propagate_leader_and_isr_def Let_def kMaxPartitionsPerBroker_def isr_shrinkable_def
      stale_replicas_def kMaxReplicaNotCaughtUpMs_def)
  have "distinct (map fst (pm_partitions ?s))" "alist_all (\<lambda>k r. key_parses k \<and> distinct (pr_isr r)) (pm_partitions ?s)"
    using key r by (simp_all add: alist_all_def del: fold_simps)
  from shrink_removes_exactly_stale [OF this, of demo_broker 40000000000]
  obtain s' where s': "shrink_isr_stale_replicas demo_broker 40000000000 ?s = Some s'"
    "isr_for s' ''t'' 0 = (case replica_for ?s ''t'' 0 of None \<Rightarrow> []
       | Some r \<Rightarrow> if isr_shrinkable r then filter (\<lambda>br. br \<notin> set (stale_replicas (bs_broker_id demo_broker) 40000000000 r)) (pr_isr r) else pr_isr r)"
    by blast
  have "isr_for s' ''t'' 0 = [1]"
    using s'(2) r by (simp add: replica_for_def demo_broker_def del: fold_simps)
  then show ?thesis using s'(1) by blast
qed

text \<open>
  Stepping down elects the broker that steps down. A leader is always in its own in-sync set, and
  the choice of a successor prefers the local broker: after \<^verbatim>\<open>step_down_leader\<close> the
  partition still names this broker as leader, and announces it, while \<^verbatim>\<open>is_leader\<close> is false.
\<close>

theorem step_down_elects_self:
  assumes "replica_for s t p = Some r" "pr_is_active r" "\<not> pr_is_leader_local r"
    "bs_broker_id b \<notin> pr_offline_replicas r" "bs_broker_id b \<noteq> kNoBroker" "bs_inter_broker b"
  shows "let s1 = snd (become_leader b now t p s); s2 = snd (step_down_leader b now' t p s1)
    in pm_is_leader s1 t p \<and> \<not> pm_is_leader s2 t p \<and> leader_for s2 t p = bs_broker_id b \<and>
       (t, p, bs_broker_id b, isr_for s2 t p) \<in> set (pm_sent s2)"
  using assms
  by (auto simp: Let_def replica_for_def become_leader_def step_down_leader_def pm_is_leader_def leader_for_def isr_for_def
      update_conv' select_new_leader_def propagate_leader_and_isr_def put_replica_def)

theorem step_down_elects_self_witness:
  "let s1 = snd (become_leader demo_broker 1 ''t'' 0 demo_state); s2 = snd (step_down_leader demo_broker 2 ''t'' 0 s1)
   in pm_is_leader s1 ''t'' 0 \<and> \<not> pm_is_leader s2 ''t'' 0 \<and> leader_for s2 ''t'' 0 = bs_broker_id demo_broker \<and>
      (''t'', 0, bs_broker_id demo_broker, isr_for s2 ''t'' 0) \<in> set (pm_sent s2)"
proof -
  obtain r where "replica_for demo_state ''t'' 0 = Some r" "pr_is_active r" "\<not> pr_is_leader_local r" "pr_offline_replicas r = {}"
    unfolding demo_state_def by (simp add: demo_broker_def new_partition_manager_def create_partition_def
      init_replica_def handle_leader_and_isr_def replica_for_def put_replica_def Let_def kMaxPartitionsPerBroker_def)
  then show ?thesis by (intro step_down_elects_self [of _ _ _ r]) (simp_all add: demo_broker_def kNoBroker_def)
qed

text \<open>
  The high watermark of a led partition jumps to the end of the leader's own log, whatever its
  in-sync set holds, although it is documented as the minimum log end over the in-sync replicas.
\<close>

theorem high_watermark_ignores_followers:
  assumes "replica_for s t p = Some r" "pr_is_active r" "pr_is_leader_local r" "lm_is_open (bs_log b) (pr_log r)"
    "pr_high_watermark r \<le> lm_log_end_offset (bs_log b) (pr_log r)"
  shows "high_watermark_for (maybe_advance_high_watermark_all b s) t p = lm_log_end_offset (bs_log b) (pr_log r)"
  using assms
  by (auto simp: replica_for_def high_watermark_for_def maybe_advance_high_watermark_all_def raise_high_watermark_def Let_def)

theorem high_watermark_ignores_followers_witness:
  "high_watermark_for (maybe_advance_high_watermark_all demo_broker (snd (become_leader demo_broker 1 ''t'' 0 demo_state))) ''t'' 0 = 7"
proof -
  obtain r where "replica_for (snd (become_leader demo_broker 1 ''t'' 0 demo_state)) ''t'' 0 = Some r"
    "pr_is_active r" "pr_is_leader_local r" "pr_log r = 7" "pr_high_watermark r = 0"
    unfolding demo_state_def by (simp add: demo_broker_def new_partition_manager_def create_partition_def become_leader_def
      init_replica_def handle_leader_and_isr_def replica_for_def put_replica_def propagate_leader_and_isr_def Let_def kMaxPartitionsPerBroker_def)
  then show ?thesis
    using high_watermark_ignores_followers [of "snd (become_leader demo_broker 1 ''t'' 0 demo_state)" "''t''" 0 r demo_broker]
    by (simp add: demo_broker_def)
qed

text \<open>
  A replica that was stopped and is created again is counted twice: the map has one partition,
  the total counter two, and deleting the partition leaves the counter at one.
\<close>

theorem restart_counted_twice:
  "let s = pm_run demo_broker [Create 0 ''t'' 0, StopReplica ''t'' 0 False, Create 1 ''t'' 0] new_partition_manager
   in length (pm_partitions s) = 1 \<and> pm_total_partition_count s = 2 \<and>
      pm_partitions (pm_exec demo_broker (Delete ''t'' 0) s) = [] \<and> pm_total_partition_count (pm_exec demo_broker (Delete ''t'' 0) s) = 1"
  by (simp add: demo_broker_def new_partition_manager_def create_partition_def init_replica_def handle_stop_replica_def
      delete_partition_def put_replica_def Let_def kMaxPartitionsPerBroker_def)

text \<open>No method fills the replica list, so no partition is ever counted as under-replicated.\<close>

definition no_replicas :: "'l PartitionManager \<Rightarrow> bool" where
  "no_replicas s \<longleftrightarrow> alist_all (\<lambda>k r. pr_replicas r = []) (pm_partitions s)"

lemma no_replicas_put:
  "no_replicas s \<Longrightarrow> pr_replicas r = [] \<Longrightarrow> pm_partitions s' = AList.update k r (pm_partitions s) \<Longrightarrow> no_replicas s'"
  by (simp add: no_replicas_def alist_all_update)

lemma no_replicas_at: "no_replicas s \<Longrightarrow> map_of (pm_partitions s) k = Some r \<Longrightarrow> pr_replicas r = []"
  by (auto simp: no_replicas_def dest: alist_all_lookup)

lemma no_replicas_remove: "no_replicas s \<Longrightarrow> no_replicas (snd (remove_isr b now t p br s))"
  using no_replicas_at [of s "make_partition_key t p"]
  by (auto simp: remove_isr_def Let_def no_replicas_def alist_all_update split: option.split)

lemma no_replicas_monitor:
  assumes "no_replicas s"
  shows "no_replicas (isr_monitor_pass b now s)"
proof -
  have "no_replicas (fold (removal b now) xs s)" for xs
    by (rule fold_invariant [of xs no_replicas]) (auto simp: assms no_replicas_remove split: option.split prod.split)
  then have "shrink_isr_stale_replicas b now s = Some s' \<Longrightarrow> no_replicas s'" for s'
    by (auto simp: shrink_isr_stale_replicas_def Let_def split: if_splits)
  then show ?thesis using assms
    by (auto simp: isr_monitor_pass_def maybe_advance_high_watermark_all_def raise_high_watermark_def Let_def no_replicas_def
        split: option.split elim!: alist_all_mono)
qed

lemma no_replicas_exec:
  assumes "no_replicas s"
  shows "no_replicas (pm_exec b op s)"
proof (cases op)
  case (Monitor now)
  then show ?thesis using assms by (simp add: no_replicas_monitor)
qed (insert assms no_replicas_at [OF assms],
    auto simp: create_partition_def init_replica_def delete_partition_def add_isr_def remove_isr_def become_leader_def
      step_down_leader_def handle_leader_and_isr_def handle_stop_replica_def advance_high_watermark_def raise_high_watermark_def
      Let_def no_replicas_def alist_all_update alist_all_delete split: option.split sum.split)

lemma never_under_replicated: "under_replicated_count (pm_run b ops new_partition_manager) = 0"
proof -
  have "no_replicas (pm_run b ops new_partition_manager)"
    by (rule fold_invariant [of ops no_replicas])
      (simp_all add: no_replicas_exec, simp add: no_replicas_def new_partition_manager_def alist_all_def)
  then show ?thesis by (auto simp: under_replicated_count_def no_replicas_def alist_all_def list_all_iff filter_empty_conv)
qed

end
