(* ===== verification/Topic_Manager_Properties.thy ===== *)
theory Topic_Manager_Properties
  imports Topic_Manager Partition_Manager_Properties
begin

text \<open>
  What the topic manager relies on, as the locale \<open>partition_store\<close>, with its interpretation on the
  partition manager; the creation of a topic, which succeeds as a whole or leaves no partition
  behind; the counters; replica assignment and configuration.
\<close>

section \<open>Provisioning over a partition store\<close>

locale partition_store =
  fixes create :: "string \<Rightarrow> int \<Rightarrow> 's \<Rightarrow> (error_code + int) \<times> 's"
    and del :: "string \<Rightarrow> int \<Rightarrow> 's \<Rightarrow> (error_code + unit) \<times> 's"
    and hosts :: "'s \<Rightarrow> string \<Rightarrow> int \<Rightarrow> bool"
    and inv :: "'s \<Rightarrow> bool"
  assumes create_ok: "inv s \<Longrightarrow> create t p s = (Inr q, s') \<Longrightarrow>
      inv s' \<and> (\<forall>t' p'. hosts s' t' p' \<longleftrightarrow> t' = t \<and> p' = p \<or> hosts s t' p')"
    and create_failed: "create t p s = (Inl e, s') \<Longrightarrow> s' = s"
    and del_ok: "inv s \<Longrightarrow> inv (snd (del t p s)) \<and>
      (\<forall>t' p'. hosts (snd (del t p s)) t' p' \<longleftrightarrow> \<not> (t' = t \<and> p' = p) \<and> hosts s t' p')"
begin

lemma del_all:
  "inv s \<Longrightarrow> inv (fold (\<lambda>p s. snd (del t p s)) ps s) \<and>
   (\<forall>t' p'. hosts (fold (\<lambda>p s. snd (del t p s)) ps s) t' p' \<longleftrightarrow> \<not> (t' = t \<and> p' \<in> set ps) \<and> hosts s t' p')"
proof (induction ps arbitrary: s)
  case (Cons p ps)
  show ?case using Cons.IH [of "snd (del t p s)"] del_ok [OF Cons.prems, of t p] by auto
qed simp

lemma provision_ok:
  assumes "provision create del t ps created s = (None, s')" "inv s"
  shows "inv s' \<and> (\<forall>t' p'. hosts s' t' p' \<longleftrightarrow> t' = t \<and> p' \<in> set ps \<or> hosts s t' p')"
  using assms
proof (induction ps arbitrary: created s)
  case (Cons p ps)
  obtain q s1 where c: "create t p s = (Inr q, s1)" "provision create del t ps (created @ [p]) s1 = (None, s')"
    using Cons.prems(1) by (auto split: prod.splits sum.splits)
  then show ?case using Cons.IH [OF c(2)] create_ok [OF Cons.prems(2) c(1)] by auto
qed simp

lemma provision_failed:
  assumes "provision create del t ps created s = (Some e, s')" "inv s"
  shows "inv s' \<and> (\<forall>t' p'. hosts s' t' p' \<longrightarrow> hosts s t' p') \<and>
    (\<forall>t' p'. hosts s t' p' \<and> \<not> (t' = t \<and> (p' \<in> set created \<or> p' \<in> set ps)) \<longrightarrow> hosts s' t' p') \<and>
    (\<forall>p \<in> set created. \<not> hosts s' t p)"
  using assms
proof (induction ps arbitrary: created s)
  case (Cons p ps)
  show ?case
  proof (cases "create t p s")
    case (Pair r s1)
    show ?thesis
    proof (cases r)
      case (Inl e')
      then show ?thesis using Cons.prems Pair create_failed [of t p s e' s1] del_all [of s t created] by auto
    next
      case (Inr q)
      then have "provision create del t ps (created @ [p]) s1 = (Some e, s')" using Cons.prems(1) Pair by simp
      moreover note create_ok [OF Cons.prems(2), of t p q s1]
      ultimately show ?thesis using Cons.IH [of "created @ [p]" s1] Pair Inr by auto
    qed
  qed
qed simp

text \<open>When none of the partitions was there before, a failed provisioning leaves the store's contents as they were.\<close>

lemma provision_rolls_back:
  assumes "provision create del t ps [] s = (Some e, s')" "inv s" "\<forall>p \<in> set ps. \<not> hosts s t p"
  shows "inv s' \<and> hosts s' = hosts s"
proof -
  have "hosts s' t' p' = hosts s t' p'" for t' p'
    using provision_failed [OF assms(1,2)] assms(3) by (cases "t' = t \<and> p' \<in> set ps") auto
  then show ?thesis using provision_failed [OF assms(1,2)] by (auto intro!: ext)
qed

end

definition hosted :: "'l PartitionManager \<Rightarrow> string \<Rightarrow> int \<Rightarrow> bool" where
  "hosted pm t p \<longleftrightarrow> replica_for pm t p \<noteq> None"

lemma hosted_create:
  assumes "pm_exact b s" "create_partition b now t p s = (Inr q, s')"
  shows "pm_exact b s' \<and> (\<forall>t' p'. hosted s' t' p' \<longleftrightarrow> t' = t \<and> p' = p \<or> hosted s t' p')"
proof -
  have "pm_exact b s'" using exact_create [OF assms(1), of now t p] assms(2) by simp
  then show ?thesis
    using assms(2) by (auto simp: create_partition_def init_replica_def hosted_def replica_for_def Let_def update_conv'
        split: if_splits option.splits sum.splits)
qed

lemma hosted_create_failed: "create_partition b now t p s = (Inl e, s') \<Longrightarrow> s' = s"
  by (auto simp: create_partition_def init_replica_def Let_def split: if_splits option.splits sum.splits)

lemma hosted_delete:
  "hosted (snd (delete_partition t p s)) t' p' \<longleftrightarrow> \<not> (t' = t \<and> p' = p) \<and> hosted s t' p'"
  by (auto simp: delete_partition_def hosted_def replica_for_def Let_def delete_conv' split: option.splits)

interpretation store: partition_store "create_partition b now" delete_partition hosted "pm_exact b" for b now
  by unfold_locales (auto simp: hosted_create exact_delete hosted_delete dest: hosted_create_failed)

section \<open>Creating and deleting\<close>

text \<open>The defaults of phase 1, the brokers of phase 2 and the metadata of phase 3.\<close>

definition effective :: "int \<Rightarrow> int" where "effective n = (if n \<le> 0 then 1 else n)"

definition placement_brokers :: "ClusterView \<Rightarrow> broker_id list" where
  "placement_brokers view =
     sort (if cv_broker_id view \<in> set (get_known_brokers view) then get_known_brokers view
           else get_known_brokers view @ [cv_broker_id view])"

definition new_metadata :: "ClusterView \<Rightarrow> string \<Rightarrow> int \<Rightarrow> int \<Rightarrow> int \<Rightarrow> TopicMetadata" where
  "new_metadata view name partitions rf i =
     \<lparr>td_topic_id = i, td_name = name,
      td_partitions = map (build_partition i (assign_replicas partitions rf (placement_brokers view))) [0..<nat partitions],
      td_config = the (build_default_topic_config name partitions (int16_of rf) []), td_is_internal = False\<rparr>"

lemma exists_unmarked:
  "(case map_of (tm_topics tm) name of None \<Rightarrow> False | Some e \<Rightarrow> \<not> te_marked_for_deletion e) = topic_exists tm name"
  by (simp add: topic_exists_def live_topic_def split: option.split)

lemma raft_accepts: "\<not> (propose_create_topic_to_raft view \<noteq> None \<and> propose_create_topic_to_raft view \<noteq> Some not_controller)"
  by (simp add: propose_create_topic_to_raft_def)

lemma create_prepare_eq:
  "create_prepare view name partitions rf tm =
     (case validate_topic_name name of
        Some e \<Rightarrow> (Inl e, tm)
      | None \<Rightarrow>
          if topic_exists tm name then (Inl topic_already_exists, tm)
          else case validate_partition_params (effective partitions) (effective rf) (effective (cv_broker_count view)) of
            Some e \<Rightarrow> (Inl e, tm)
          | None \<Rightarrow> (Inr (new_metadata view name (effective partitions) (effective rf) (tm_next_topic_id tm)),
                     tm\<lparr>tm_next_topic_id := tm_next_topic_id tm + 1\<rparr>))"
  unfolding create_prepare_def Let_def exists_unmarked kMinReplicationFactor_def kMinPartitions_def effective_def [symmetric]
    placement_brokers_def [symmetric] new_metadata_def [symmetric] if_not_P [OF raft_accepts]
  by (rule refl)

lemma prepare_frame:
  "create_prepare view name partitions rf tm = (r, tm') \<Longrightarrow> tm_topics tm' = tm_topics tm \<and>
   tm_topic_count tm' = tm_topic_count tm \<and> tm_total_partition_count tm' = tm_total_partition_count tm"
  unfolding create_prepare_eq by (auto split: option.splits if_splits)

lemma prepare_cases:
  assumes "create_prepare view name partitions rf tm = (Inr md, tm')"
  shows "validate_topic_name name = None" "\<not> topic_exists tm name" "td_name md = name"
    "int (length (td_partitions md)) = max 1 partitions"
    "map pd_partition_id (td_partitions md) = map int [0..<length (td_partitions md)]"
  using assms
  by (auto simp: create_prepare_eq new_metadata_def effective_def build_partition_def Let_def split: option.splits if_splits)

lemma live_topic_insert:
  "live_topic (create_insert name md tm) n =
    (if n = name then Some \<lparr>te_metadata = md, te_hosted_partitions = set (map int [0..<length (td_partitions md)]), te_generation = 1,
       te_marked_for_deletion = False, te_deletion_marked_at = 0, te_dynamic_config = []\<rparr> else live_topic tm n)"
  by (simp add: create_insert_def Let_def live_topic_def update_conv')

lemma live_topic_cong: "tm_topics tm' = tm_topics tm \<Longrightarrow> live_topic tm' n = live_topic tm n"
  by (simp add: live_topic_def)

lemma create_topic_cases:
  assumes "create_topic view b now name partitions rf (tm, pm) = (r, tm', pm')"
  obtains (refused) e tm1 where "r = Inl e" "create_prepare view name partitions rf tm = (Inl e, tm1)" "tm' = tm1" "pm' = pm"
    | (rolled_back) e md tm1 where "r = Inl e" "create_prepare view name partitions rf tm = (Inr md, tm1)" "tm' = tm1"
        "provision (create_partition b now) delete_partition name (map int [0..<length (td_partitions md)]) [] pm = (Some e, pm')"
    | (created) md tm1 where "r = Inr md" "create_prepare view name partitions rf tm = (Inr md, tm1)" "tm' = create_insert name md tm1"
        "provision (create_partition b now) delete_partition name (map int [0..<length (td_partitions md)]) [] pm = (None, pm')"
  using assms by (auto simp: create_topic_def split: prod.splits sum.splits option.splits)

section \<open>Configuration\<close>

definition config_ok :: "TopicConfig \<Rightarrow> bool" where
  "config_ok c \<longleftrightarrow> - 1 \<le> tc_retention_ms c \<and> - 1 \<le> tc_retention_bytes c \<and> 1024 \<le> tc_segment_bytes c \<and>
     0 \<le> tc_max_message_bytes c \<and> 1 \<le> tc_min_insync_replicas c \<and> tc_min_insync_replicas c \<le> tc_replication_factor c \<and>
     0 \<le> tc_index_interval_bytes c \<and> 0 \<le> tc_delete_retention_ms c \<and> 0 \<le> tc_min_compaction_lag_ms c"

lemma override_config_ok:
  "apply_topic_config_override c key v = (True, c') \<Longrightarrow> config_ok c \<Longrightarrow>
   config_ok c' \<and> tc_num_partitions c' = tc_num_partitions c \<and> tc_name c' = tc_name c"
  unfolding apply_topic_config_override_def set_checked_def
  by (simp split: if_splits option.splits; force simp: config_ok_def)

lemma default_config_ok:
  assumes "1 \<le> rf" "rf \<le> 16"
  shows "config_ok (the (build_default_topic_config name n (int16_of rf) []))"
    "tc_num_partitions (the (build_default_topic_config name n (int16_of rf) [])) = n"
proof -
  have "int16_of rf = rf" using assms by (simp add: int16_of_def)
  then show "config_ok (the (build_default_topic_config name n (int16_of rf) []))"
    "tc_num_partitions (the (build_default_topic_config name n (int16_of rf) [])) = n"
    using assms by (simp_all add: build_default_topic_config_def default_TopicConfig_def config_ok_def)
qed

section \<open>Both managers together\<close>

definition partitions_of :: "TopicCacheEntry \<Rightarrow> int" where
  "partitions_of e = int (length (td_partitions (te_metadata e)))"

definition topic_wf :: "string \<Rightarrow> TopicCacheEntry \<Rightarrow> bool" where
  "topic_wf name e \<longleftrightarrow> \<not> te_marked_for_deletion e \<and> td_name (te_metadata e) = name \<and>
     map pd_partition_id (td_partitions (te_metadata e)) = map int [0..<length (td_partitions (te_metadata e))] \<and>
     config_ok (td_config (te_metadata e)) \<and> tc_num_partitions (td_config (te_metadata e)) = partitions_of e"

text \<open>
  The cache is well-formed, its counters are right, and the partition manager hosts exactly the
  partitions of the topics in the cache.
\<close>

definition cache_ok :: "TopicManager \<Rightarrow> bool" where
  "cache_ok tm \<longleftrightarrow> distinct (map fst (tm_topics tm)) \<and> alist_all topic_wf (tm_topics tm) \<and>
     tm_topic_count tm = int (length (tm_topics tm)) \<and> tm_total_partition_count tm = alist_sum partitions_of (tm_topics tm)"

definition in_step :: "TopicManager \<Rightarrow> 'l PartitionManager \<Rightarrow> bool" where
  "in_step tm pm \<longleftrightarrow> (\<forall>t p. hosted pm t p \<longleftrightarrow> 0 \<le> p \<and> p < partition_count tm t)"

definition managers_ok :: "'l BrokerServer \<Rightarrow> TopicManager \<times> 'l PartitionManager \<Rightarrow> bool" where
  "managers_ok b s \<longleftrightarrow> pm_exact b (snd s) \<and> cache_ok (fst s) \<and> in_step (fst s) (snd s)"

lemma managers_ok_new: "managers_ok b (new_topic_manager, new_partition_manager)"
  using pm_exact_new [of b]
  by (simp add: managers_ok_def cache_ok_def in_step_def new_topic_manager_def alist_all_def
      hosted_def replica_for_def new_partition_manager_def partition_count_def live_topic_def)

lemma wf_live: "cache_ok tm \<Longrightarrow> live_topic tm n = map_of (tm_topics tm) n"
  by (auto simp: cache_ok_def live_topic_def topic_wf_def split: option.split dest: alist_all_lookup)

lemma partition_count_eq:
  "partition_count tm n = (case live_topic tm n of None \<Rightarrow> 0 | Some e \<Rightarrow> partitions_of e)"
  by (simp add: partition_count_def partitions_of_def split: option.split)

lemma cache_ok_insert:
  assumes "cache_ok tm" "create_prepare view name partitions rf tm = (Inr md, tm1)"
  shows "cache_ok (create_insert name md tm1)"
proof -
  have fr: "tm_topics tm1 = tm_topics tm" "tm_topic_count tm1 = tm_topic_count tm"
    "tm_total_partition_count tm1 = tm_total_partition_count tm" using prepare_frame [OF assms(2)] by simp_all
  have none: "map_of (tm_topics tm) name = None"
    using prepare_cases(2) [OF assms(2)] wf_live [OF assms(1)] by (simp add: topic_exists_def)
  then have "name \<notin> fst ` set (tm_topics tm)" by (simp add: map_of_eq_None_iff)
  have md: "md = new_metadata view name (effective partitions) (effective rf) (tm_next_topic_id tm)"
    "1 \<le> effective rf" "effective rf \<le> 16" "1 \<le> effective partitions"
    using assms(2) by (auto simp: create_prepare_eq validate_partition_params_def kMinReplicationFactor_def
        kMaxReplicationFactor_def effective_def split: option.splits if_splits)
  have "config_ok (td_config md)" "tc_num_partitions (td_config md) = int (length (td_partitions md))"
    using default_config_ok [OF md(2,3)] md(4) by (simp_all add: md(1) new_metadata_def)
  then show ?thesis
    using assms(1) prepare_cases [OF assms(2)] alist_sum_insert [OF none] \<open>name \<notin> _\<close>
    by (auto simp: cache_ok_def create_insert_def Let_def fr topic_wf_def partitions_of_def distinct_update length_update
        intro!: alist_all_update)
qed

lemma managers_create:
  assumes "managers_ok b (tm, pm)"
  shows "managers_ok b (snd (create_topic view b now name partitions rf (tm, pm)))"
proof (cases "create_topic view b now name partitions rf (tm, pm)")
  case (fields r tm' pm')
  have exact: "pm_exact b pm" and cache: "cache_ok tm" and sync: "in_step tm pm" using assms by (simp_all add: managers_ok_def)
  from fields show ?thesis
  proof (cases rule: create_topic_cases)
    case (refused e tm1)
    then show ?thesis using assms fields prepare_frame [OF refused(2)]
      by (simp add: managers_ok_def cache_ok_def in_step_def partition_count_def live_topic_cong [of tm1 tm])
  next
    case (rolled_back e md tm1)
    have "\<not> hosted pm name p" for p
      using sync prepare_cases(2) [OF rolled_back(2)] by (simp add: in_step_def topic_exists_def partition_count_def)
    then have "pm_exact b pm' \<and> hosted pm' = hosted pm" using store.provision_rolls_back [OF rolled_back(4) exact] by simp
    then show ?thesis using assms fields rolled_back(3) prepare_frame [OF rolled_back(2)]
      by (simp add: managers_ok_def cache_ok_def in_step_def partition_count_def live_topic_cong [of tm1 tm])
  next
    case (created md tm1)
    have ids: "p \<in> set (map int [0..<n]) \<longleftrightarrow> 0 \<le> p \<and> p < int n" for p n
      by (auto simp: image_iff intro: bexI [of _ "nat p"])
    have pc: "partition_count tm' t = (if t = name then int (length (td_partitions md)) else partition_count tm t)" for t
      using prepare_frame [OF created(2)]
      by (simp add: created(3) partition_count_def live_topic_insert live_topic_cong [of tm1 tm])
    have "partition_count tm name = 0"
      using prepare_cases(2) [OF created(2)] by (simp add: topic_exists_def partition_count_def)
    then have "in_step tm' pm'"
      using store.provision_ok [OF created(4) exact] sync pc unfolding in_step_def ids by auto
    then show ?thesis
      using store.provision_ok [OF created(4) exact] cache_ok_insert [OF cache created(2)] fields created(3)
      by (simp add: managers_ok_def)
  qed
qed

lemma managers_delete:
  assumes "managers_ok b (tm, pm)"
  shows "managers_ok b (snd (delete_topic view now name (tm, pm)))"
proof (cases "map_of (tm_topics tm) name")
  case None
  then show ?thesis using assms by (simp add: delete_topic_def delete_mark_def)
next
  case (Some e)
  have exact: "pm_exact b pm" and cache: "cache_ok tm" and sync: "in_step tm pm" using assms by (simp_all add: managers_ok_def)
  have wf: "topic_wf name e" using cache Some by (auto simp: cache_ok_def dest: alist_all_lookup)
  let ?md = "te_metadata e"
  let ?tm = "snd (delete_mark now name tm)"
  have r: "snd (delete_topic view now name (tm, pm)) = (delete_finish name ?md ?tm, delete_partitions name ?md pm)"
    using Some wf by (simp add: delete_topic_def delete_mark_def propose_delete_topic_to_raft_def topic_wf_def)
  have topics: "tm_topics (delete_finish name ?md ?tm) = AList.delete name (tm_topics tm)"
    using Some wf by (simp add: delete_finish_def delete_mark_def Let_def topic_wf_def delete_update_same)
  have "cache_ok (delete_finish name ?md ?tm)"
    using cache Some wf alist_sum_delete [of "tm_topics tm" name e partitions_of]
    unfolding cache_ok_def topics
    by (auto simp: delete_finish_def delete_mark_def Let_def topic_wf_def partitions_of_def delete_update_same alist_all_delete distinct_delete)
  moreover have dp: "delete_partitions name ?md pm =
      fold (\<lambda>p s. snd (delete_partition name p s)) (map int [0..<length (td_partitions ?md)]) pm"
  proof -
    have "delete_partitions name ?md pm = fold (\<lambda>p s. snd (delete_partition name p s)) (map pd_partition_id (td_partitions ?md)) pm"
      by (simp add: delete_partitions_def fold_map comp_def)
    then show ?thesis using wf by (simp add: topic_wf_def)
  qed
  moreover have "partition_count (delete_finish name ?md ?tm) t = (if t = name then 0 else partition_count tm t)" for t
    by (simp add: partition_count_def live_topic_def topics delete_conv')
  moreover have "partition_count tm name = int (length (td_partitions ?md))"
    using wf Some by (simp add: partition_count_def live_topic_def topic_wf_def)
  moreover have "p \<in> set (map int [0..<n]) \<longleftrightarrow> 0 \<le> p \<and> p < int n" for p n
    by (auto simp: image_iff intro: bexI [of _ "nat p"])
  ultimately show ?thesis
    using store.del_all [OF exact, of name "map int [0..<length (td_partitions ?md)]"] sync
    by (auto simp: r managers_ok_def in_step_def)
qed

text \<open>Changes of an entry that keep it well-formed and keep its partitions.\<close>

lemma managers_modify:
  assumes "managers_ok b (tm, pm)"
    "\<And>e. map_of (tm_topics tm) name = Some e \<Longrightarrow> topic_wf name e \<Longrightarrow> topic_wf name (f e) \<and> partitions_of (f e) = partitions_of e"
  shows "managers_ok b (modify_entry name f tm, pm)"
proof (cases "map_of (tm_topics tm) name")
  case (Some e)
  have cache: "cache_ok tm" and sync: "in_step tm pm" using assms(1) by (simp_all add: managers_ok_def)
  have wf: "topic_wf name e" using cache Some by (auto simp: cache_ok_def dest: alist_all_lookup)
  note fe = assms(2) [OF Some wf]
  have "cache_ok (modify_entry name f tm)"
    using cache Some fe alist_sum_update [of "tm_topics tm" name e partitions_of "f e"] known_key [OF Some]
    by (auto simp: cache_ok_def modify_entry_def alist_all_update distinct_update length_update)
  moreover have "partition_count (modify_entry name f tm) t = partition_count tm t" for t
    using Some fe wf by (auto simp: partition_count_eq modify_entry_def live_topic_def update_conv' topic_wf_def)
  ultimately show ?thesis using assms(1) by (simp add: managers_ok_def in_step_def)
qed (use assms(1) in \<open>simp add: modify_entry_def\<close>)

lemma managers_alter: "managers_ok b (tm, pm) \<Longrightarrow> managers_ok b (snd (alter_topic_config view name key v tm), pm)"
proof -
  assume ok: "managers_ok b (tm, pm)"
  have "topic_wf name (e\<lparr>te_metadata := (te_metadata e)\<lparr>td_config := c\<rparr>, te_dynamic_config := d, te_generation := g\<rparr>)"
    if "topic_wf name e" "apply_topic_config_override (td_config (te_metadata e)) key v = (True, c)" for e c d g
    using override_config_ok [OF that(2)] that(1) by (simp add: topic_wf_def partitions_of_def)
  then show ?thesis
    using ok
    by (auto simp: alter_topic_config_def live_topic_def Let_def partitions_of_def split: option.split prod.split intro!: managers_modify)
qed

lemma managers_cleanup: "managers_ok b (tm, pm) \<Longrightarrow> cleanup_deleted_topics now grace tm = tm"
  by (auto simp: cleanup_deleted_topics_def managers_ok_def cache_ok_def alist_all_def list_all_iff topic_wf_def Let_def filter_empty_conv)

datatype tm_op =
    TCreate ClusterView int string int int
  | TDelete ClusterView int string
  | TAlter ClusterView string string string
  | TRegister string int
  | TUnregister string int
  | TCleanup int int

fun tm_exec :: "'l BrokerServer \<Rightarrow> tm_op \<Rightarrow> TopicManager \<times> 'l PartitionManager \<Rightarrow> TopicManager \<times> 'l PartitionManager" where
  "tm_exec b (TCreate view now name partitions rf) s = snd (create_topic view b now name partitions rf s)"
| "tm_exec b (TDelete view now name) s = snd (delete_topic view now name s)"
| "tm_exec b (TAlter view name key v) (tm, pm) = (snd (alter_topic_config view name key v tm), pm)"
| "tm_exec b (TRegister name pid) (tm, pm) = (register_hosted_partition name pid tm, pm)"
| "tm_exec b (TUnregister name pid) (tm, pm) = (unregister_hosted_partition name pid tm, pm)"
| "tm_exec b (TCleanup now grace) (tm, pm) = (cleanup_deleted_topics now grace tm, pm)"

abbreviation tm_run :: "'l BrokerServer \<Rightarrow> tm_op list \<Rightarrow> TopicManager \<times> 'l PartitionManager \<Rightarrow> TopicManager \<times> 'l PartitionManager" where
  "tm_run b ops s \<equiv> fold (tm_exec b) ops s"

lemma managers_exec: "managers_ok b s \<Longrightarrow> managers_ok b (tm_exec b op s)"
proof -
  assume ok: "managers_ok b s"
  obtain tm pm where s: "s = (tm, pm)" by fastforce
  show ?thesis
  proof (cases op)
    case (TRegister name pid)
    then show ?thesis using ok s
      by (auto simp: register_hosted_partition_def topic_wf_def partitions_of_def intro!: managers_modify)
  next
    case (TUnregister name pid)
    then show ?thesis using ok s
      by (auto simp: unregister_hosted_partition_def topic_wf_def partitions_of_def intro!: managers_modify)
  qed (use ok s in \<open>auto simp: managers_create managers_delete managers_alter managers_cleanup\<close>)
qed

lemma managers_run: "managers_ok b s \<Longrightarrow> managers_ok b (tm_run b ops s)"
  by (rule fold_invariant) (auto simp: managers_exec)

section \<open>Properties\<close>

text \<open>A single broker that is its own controller, for concrete runs.\<close>

definition demo_view :: ClusterView where
  "demo_view = \<lparr>cv_broker_count = 1, cv_controller_id = 1, cv_broker_id = 1, cv_is_controller = True\<rparr>"

abbreviation demo_start :: "TopicManager \<times> int PartitionManager" where
  "demo_start \<equiv> (new_topic_manager, new_partition_manager)"




text \<open>
  C17: a creation that fails leaves nothing behind. After any sequence of topic creations, deletions,
  configuration changes, registrations and cleanups from the start of a broker on, a creation that is
  refused, for whatever reason (a bad name or parameter, a topic that exists, a partition that
  cannot be created), leaves the topics, both counters and the hosted partitions as they were. Partitions that a
  LeaderAndISR request made the broker host without a topic are no part of such a run: the
  rollback of a creation deletes those too.
\<close>

theorem failed_creation_rolls_back:
  assumes "tm_run b ops (new_topic_manager, new_partition_manager) = (tm, pm)"
    and "create_topic view b now name partitions rf (tm, pm) = (Inl e, tm', pm')"
  shows "tm_topics tm' = tm_topics tm \<and> tm_topic_count tm' = tm_topic_count tm \<and>
    tm_total_partition_count tm' = tm_total_partition_count tm \<and> hosted pm' = hosted pm"
  using assms(2)
proof (cases rule: create_topic_cases)
  case (rolled_back e' md tm1)
  have ok: "managers_ok b (tm, pm)" using managers_run [OF managers_ok_new, of b ops] assms(1) by simp
  then have "\<not> hosted pm name p" for p
    using prepare_cases(2) [OF rolled_back(2)] by (simp add: managers_ok_def in_step_def topic_exists_def partition_count_def)
  then show ?thesis
    using store.provision_rolls_back [OF rolled_back(4)] ok rolled_back(1,3) prepare_frame [OF rolled_back(2)]
    by (simp add: managers_ok_def)
next
  case (refused e' tm1)
  then show ?thesis using prepare_frame [OF refused(2)] by simp
qed simp

text \<open>A broker whose disk takes one partition only.\<close>

definition small_broker :: "int BrokerServer" where
  "small_broker = demo_broker\<lparr>bs_create_directories := (\<lambda>dir. dir = ''/d/orders/partition-0'')\<rparr>"

theorem failed_creation_rolls_back_witness:
  "let s = tm_run small_broker [TCreate demo_view 0 ''logs'' 1 1] demo_start
   in hosted (snd (snd (create_topic demo_view small_broker 0 ''orders'' 2 1 s))) = hosted (snd s)
    \<and> tm_topics (fst (snd (create_topic demo_view small_broker 0 ''logs'' 1 1 s))) = tm_topics (fst s)"
proof -
  let ?s = "tm_run small_broker [TCreate demo_view 0 ''logs'' 1 1] demo_start"
  obtain tm pm where s: "?s = (tm, pm)" by fastforce
  have "isl (fst (create_topic demo_view small_broker 0 ''orders'' 2 1 ?s))"
    "isl (fst (create_topic demo_view small_broker 0 ''logs'' 1 1 ?s))" by code_simp+
  then obtain e e' r r' where c: "create_topic demo_view small_broker 0 ''orders'' 2 1 (tm, pm) = (Inl e, r)"
    "create_topic demo_view small_broker 0 ''logs'' 1 1 (tm, pm) = (Inl e', r')"
    by (metis isl_def prod.collapse s)
  show ?thesis
    using failed_creation_rolls_back [OF s, of demo_view 0 "''orders''" 2 1 e "fst r" "snd r"]
      failed_creation_rolls_back [OF s, of demo_view 0 "''logs''" 1 1 e' "fst r'" "snd r'"] c
    unfolding s Let_def by simp
qed

text \<open>
  C14: the two managers stay in step. In every sequence of topic creations, deletions,
  configuration changes, registrations and cleanups, from the start of a broker on, the partition
  manager hosts exactly the partitions below \<^verbatim>\<open>partition_count\<close> of each topic, the topic counter is the
  number of topics, and the partition counter is the number of partitions of all topics.
\<close>

theorem managers_in_step:
  "let (tm, pm) = tm_run b ops (new_topic_manager, new_partition_manager)
   in (\<forall>t p. hosted pm t p \<longleftrightarrow> 0 \<le> p \<and> p < partition_count tm t) \<and>
      tm_topic_count tm = int (length (tm_topics tm)) \<and> distinct (map fst (tm_topics tm)) \<and>
      tm_total_partition_count tm = (\<Sum>(name, e) \<leftarrow> tm_topics tm. partition_count tm name) \<and>
      pm_total_partition_count pm = int (length (pm_partitions pm))"
proof -
  obtain tm pm where r: "tm_run b ops (new_topic_manager, new_partition_manager) = (tm, pm)" by fastforce
  have ok: "managers_ok b (tm, pm)" using managers_run [OF managers_ok_new, of b ops] r by simp
  then have d: "distinct (map fst (tm_topics tm))" and c: "cache_ok tm" by (simp_all add: managers_ok_def cache_ok_def)
  have "alist_sum partitions_of (tm_topics tm) = (\<Sum>(name, e) \<leftarrow> tm_topics tm. partition_count tm name)"
    unfolding alist_sum_def
  proof (intro arg_cong [where f = sum_list] map_cong refl, clarify)
    fix name e assume "(name, e) \<in> set (tm_topics tm)"
    then have "map_of (tm_topics tm) name = Some e" using d by simp
    then show "partitions_of e = partition_count tm name" using wf_live [OF c] by (simp add: partition_count_eq)
  qed
  then show ?thesis using ok by (simp add: r managers_ok_def cache_ok_def in_step_def pm_exact_def)
qed

text \<open>
  C33: every topic's configuration is well-formed at all times: retention times and sizes are -1 or more,
  segments at least 1024 bytes, the other limits not negative, \<^verbatim>\<open>min.insync.replicas\<close> between 1 and the
  replication factor, and the number of partitions is the one the topic has, whatever values \<^verbatim>\<open>alter_topic_config\<close>
  was given.
\<close>

theorem config_well_formed:
  assumes "get_topic (fst (tm_run b ops (new_topic_manager, new_partition_manager))) name = Some md"
  shows "config_ok (td_config md) \<and> tc_num_partitions (td_config md) = int (length (td_partitions md)) \<and> td_name md = name"
proof -
  obtain tm pm where r: "tm_run b ops (new_topic_manager, new_partition_manager) = (tm, pm)" by fastforce
  have ok: "cache_ok tm" using managers_run [OF managers_ok_new, of b ops] r by (simp add: managers_ok_def)
  then obtain e where "map_of (tm_topics tm) name = Some e" "md = te_metadata e"
    using assms r wf_live [OF ok] by (auto simp: get_topic_def)
  then show ?thesis using ok by (auto simp: cache_ok_def topic_wf_def partitions_of_def dest: alist_all_lookup)
qed

theorem config_well_formed_witness:
  "\<exists>md. get_topic (fst (tm_run demo_broker [TCreate demo_view 0 ''orders'' 2 1, TAlter demo_view ''orders'' ''retention.ms'' ''-1''] demo_start)) ''orders'' = Some md \<and>
    config_ok (td_config md)"
proof -
  let ?tm = "fst (tm_run demo_broker [TCreate demo_view 0 ''orders'' 2 1, TAlter demo_view ''orders'' ''retention.ms'' ''-1''] demo_start)"
  have "get_topic ?tm ''orders'' \<noteq> None" by code_simp
  then obtain md where "get_topic ?tm ''orders'' = Some md" by blast
  then show ?thesis using config_well_formed by blast
qed

text \<open>
  A configuration change is refused for one of three reasons, and then changes nothing: the key
  is not alterable, the topic is not there, or the value is not valid for the key. Otherwise it
  is accepted, and the new configuration is the old one with the key set.
\<close>

theorem alter_topic_config_outcomes:
  "alter_topic_config view name key v tm =
     (if key \<notin> set kAlterableConfigKeys then (Inl invalid_config, tm)
      else case get_topic tm name of
        None \<Rightarrow> (Inl unknown_topic_or_partition, tm)
      | Some md \<Rightarrow> if fst (apply_topic_config_override (td_config md) key v)
          then (Inr (), snd (alter_topic_config view name key v tm)) else (Inl invalid_config, tm)) \<and>
   (fst (alter_topic_config view name key v tm) = Inr () \<longrightarrow>
      get_topic (snd (alter_topic_config view name key v tm)) name =
        map_option (\<lambda>md. md\<lparr>td_config := snd (apply_topic_config_override (td_config md) key v)\<rparr>) (get_topic tm name))"
proof -
  have "[] \<notin> set kAlterableConfigKeys" by code_simp
  then show ?thesis
    by (auto simp: alter_topic_config_def get_topic_def live_topic_def propose_alter_config_to_raft_def Let_def modify_entry_def
        update_conv' split: option.splits prod.splits if_splits)
qed

theorem alter_topic_config_outcomes_witness:
  "fst (alter_topic_config demo_view ''orders'' ''no.such.key'' ''1'' new_topic_manager) = Inl invalid_config"
proof -
  have "''no.such.key'' \<notin> set kAlterableConfigKeys" by code_simp
  then show ?thesis using alter_topic_config_outcomes [of demo_view "''orders''" "''no.such.key''" "''1''" new_topic_manager] by simp
qed

text \<open>
  Each refusal of \<^verbatim>\<open>create_topic\<close> has its cause, and the name rules are these: 1 to 249 of the
  allowed characters, not a dot or two, not a reserved name. A valid request for a topic that is not there is
  refused only for its numbers or by the partition manager.
\<close>

theorem create_topic_outcomes:
  "(validate_topic_name name = None \<longleftrightarrow> name \<noteq> [] \<and> length name \<le> 249 \<and> set name \<subseteq> set kValidTopicChars \<and>
      name \<noteq> ''.'' \<and> name \<noteq> ''..'' \<and> name \<notin> set kReservedTopicNames) \<and>
   (validate_topic_name name \<noteq> None \<longrightarrow> create_topic view b now name partitions rf (tm, pm) = (Inl invalid_topic_exception, tm, pm)) \<and>
   (validate_topic_name name = None \<and> topic_exists tm name \<longrightarrow>
      create_topic view b now name partitions rf (tm, pm) = (Inl topic_already_exists, tm, pm)) \<and>
   (validate_topic_name name = None \<and> \<not> topic_exists tm name \<and> 200000 < partitions \<longrightarrow>
      create_topic view b now name partitions rf (tm, pm) = (Inl invalid_partitions, tm, pm)) \<and>
   (validate_topic_name name = None \<and> \<not> topic_exists tm name \<and> partitions \<le> 200000 \<and> (16 < rf \<or> max 1 (cv_broker_count view) < rf) \<longrightarrow>
      create_topic view b now name partitions rf (tm, pm) = (Inl invalid_replication_factor, tm, pm)) \<and>
   (validate_topic_name name = None \<and> \<not> topic_exists tm name \<and> partitions \<le> 200000 \<and> rf \<le> 16 \<and> rf \<le> max 1 (cv_broker_count view) \<longrightarrow>
      (\<exists>md tm1. create_prepare view name partitions rf tm = (Inr md, tm1)))"
  (is "?names \<and> ?invalid \<and> ?exists \<and> ?many \<and> ?factor \<and> ?good")
proof (intro conjI)
  show ?names
    by (auto simp: validate_topic_name_def kMinTopicNameLength_def kMaxTopicNameLength_def subset_eq Suc_le_eq)
  show ?invalid by (auto simp: create_topic_def create_prepare_eq validate_topic_name_def split: if_splits)
  show ?exists by (simp add: create_topic_def create_prepare_eq)
  show ?many by (simp add: create_topic_def create_prepare_eq validate_partition_params_def effective_def kMinPartitions_def kMaxPartitions_def)
  show ?factor
    by (auto simp: create_topic_def create_prepare_eq validate_partition_params_def effective_def kMinPartitions_def kMaxPartitions_def
        kMinReplicationFactor_def kMaxReplicationFactor_def split: if_splits)
  show ?good
    by (auto simp: create_prepare_eq validate_partition_params_def effective_def kMinPartitions_def kMaxPartitions_def
        kMinReplicationFactor_def kMaxReplicationFactor_def)
qed

theorem create_topic_outcomes_witness:
  "create_topic demo_view demo_broker 0 ''..'' 1 1 demo_start = (Inl invalid_topic_exception, demo_start)"
proof -
  have "validate_topic_name ''..'' \<noteq> None" by code_simp
  then show ?thesis
    using create_topic_outcomes [of "''..''" demo_view demo_broker 0 1 1 new_topic_manager new_partition_manager] by blast
qed

section \<open>Replica placement\<close>

lemma length_assign_loop: "length (assign_loop n rf brokers i) = n"
  by (induction n rf brokers i rule: assign_loop.induct) auto

lemma nth_assign_loop:
  "p < n \<Longrightarrow> assign_loop n rf brokers i ! p = map (\<lambda>r. brokers ! ((i + p * rf + r) mod length brokers)) [0..<rf]"
proof (induction n rf brokers i arbitrary: p rule: assign_loop.induct)
  case (2 n rf brokers i)
  show ?case
  proof (cases p)
    case (Suc q)
    have "((i + rf) mod length brokers + q * rf + r) mod length brokers = (i + Suc q * rf + r) mod length brokers" for r
      by (metis (no_types) add.assoc mod_add_left_eq mult_Suc)
    then show ?thesis using "2.IH" [of q] "2.prems" Suc by simp
  qed simp
qed simp

lemma mod_window: "(k + r) mod n = (k + r') mod n \<Longrightarrow> r < n \<Longrightarrow> r' < n \<Longrightarrow> r = r'" for k n r r' :: nat
proof (induction r r' rule: linorder_wlog)
  case (le a b)
  then have "n dvd (k + b) - (k + a)" by (metis mod_eq_dvd_iff_nat add_le_cancel_left)
  then have "n dvd b - a" by simp
  then show ?case using le by (auto dest: dvd_imp_le)
qed auto

lemma window_distinct:
  assumes "distinct brokers" "rf \<le> length brokers"
  shows "distinct (map (\<lambda>r. brokers ! ((k + r) mod length brokers)) [0..<rf])"
proof (cases "brokers = []")
  case False
  then have "(k + r) mod length brokers < length brokers" for r by simp
  then show ?thesis
    using assms by (auto simp: distinct_map inj_on_def nth_eq_iff_index_eq dest: mod_window)
qed (use assms in simp)

lemma replica_assignment_shape:
  "0 \<le> n \<Longrightarrow> 1 \<le> rf \<Longrightarrow> brokers \<noteq> [] \<Longrightarrow> p < nat n \<Longrightarrow>
   length (assign_replicas n rf brokers ! p) = nat rf \<and> set (assign_replicas n rf brokers ! p) \<subseteq> set brokers"
  by (auto simp: assign_replicas_def nth_assign_loop)

text \<open>
  \<^verbatim>\<open>assign_replicas\<close> gives every partition as many replicas as asked for, all of them known brokers, and
  distinct ones if there are enough brokers. The leader of partition \<open>p\<close> is the broker at
  position \<open>p * rf\<close>, modulo their number; so if the factor is a multiple of the number of brokers, one broker
  leads all partitions, although the comment says that leaders are spread.
\<close>

theorem replica_assignment:
  assumes "0 \<le> n" "1 \<le> rf" "brokers \<noteq> []"
  shows "length (assign_replicas n rf brokers) = nat n \<and>
    (\<forall>p < nat n. length (assign_replicas n rf brokers ! p) = nat rf \<and> set (assign_replicas n rf brokers ! p) \<subseteq> set brokers \<and>
       (distinct brokers \<and> rf \<le> int (length brokers) \<longrightarrow> distinct (assign_replicas n rf brokers ! p)) \<and>
       hd (assign_replicas n rf brokers ! p) = brokers ! (p * nat rf mod length brokers) \<and>
       (nat rf mod length brokers = 0 \<longrightarrow> hd (assign_replicas n rf brokers ! p) = hd brokers))"
proof -
  have "nat rf \<noteq> 0" using assms(2) by simp
  then have rf: "[0..<nat rf] = 0 # [1..<nat rf]" by (simp add: upt_conv_Cons)
  let ?a = "\<lambda>p. assign_replicas n rf brokers ! p"
  have nth: "?a p = map (\<lambda>r. brokers ! ((p * nat rf + r) mod length brokers)) [0..<nat rf]" if "p < nat n" for p
    using that assms(3) by (simp add: assign_replicas_def nth_assign_loop)
  have "distinct (?a p)" if "p < nat n" "distinct brokers" "rf \<le> int (length brokers)" for p
    unfolding nth [OF that(1)] using that assms(2) by (intro window_distinct) auto
  moreover have "hd (?a p) = brokers ! (p * nat rf mod length brokers)" if "p < nat n" for p
    unfolding nth [OF that] rf by simp
  moreover have "p * nat rf mod length brokers = 0" if "nat rf mod length brokers = 0" for p
    using that by (simp add: mod_eq_0_iff_dvd)
  moreover have "length (assign_replicas n rf brokers) = nat n" using assms(3) by (simp add: assign_replicas_def length_assign_loop)
  ultimately show ?thesis using replica_assignment_shape [OF assms] assms(3) by (simp add: hd_conv_nth)
qed

theorem replica_assignment_witness:
  "hd (assign_replicas 4 2 [1, 2] ! 3) = 1 \<and> distinct (assign_replicas 4 2 [1, 2] ! 3)"
proof -
  have "3 < nat 4" "nat 2 mod length [1, 2 :: int] = 0" "distinct [1, 2 :: int]" "2 \<le> int (length [1, 2 :: int])" by code_simp+
  then show ?thesis using replica_assignment [of 4 2 "[1, 2]"] by (metis list.distinct(1) list.sel(1) one_le_numeral zero_le_numeral)
qed

text \<open>
  A topic never has three different replicas. The brokers to choose from are the controller and
  the local broker; the factor is checked against the number of brokers in the cluster. A topic
  created with factor 3 or more lists some broker twice in the replica set of every partition.
\<close>

lemma placement_brokers_few: "length (placement_brokers view) \<le> 2 \<and> placement_brokers view \<noteq> []"
  by (auto simp: placement_brokers_def get_known_brokers_def Let_def)

theorem replicas_repeat_brokers:
  assumes "create_topic view b now name partitions rf (tm, pm) = (Inr md, tm', pm')" "3 \<le> rf" "pd \<in> set (td_partitions md)"
  shows "int (length (pd_replicas pd)) = rf \<and> \<not> distinct (pd_replicas pd)"
proof -
  let ?bs = "placement_brokers view" and ?n = "effective partitions"
  have "create_prepare view name partitions rf tm = (Inr md, snd (create_prepare view name partitions rf tm))"
    using assms(1) by (cases rule: create_topic_cases) auto
  then have md: "md = new_metadata view name ?n rf (tm_next_topic_id tm)"
    using assms(2) by (auto simp: create_prepare_eq effective_def split: option.splits if_splits)
  obtain p where p: "p < nat ?n" "pd_replicas pd = assign_replicas ?n rf ?bs ! p"
    using assms(3) by (auto simp: md new_metadata_def build_partition_def Let_def)
  have len: "length (pd_replicas pd) = nat rf" and sub: "set (pd_replicas pd) \<subseteq> set ?bs"
    using replica_assignment_shape [of ?n rf ?bs p] p assms(2) placement_brokers_few [of view] by (auto simp: effective_def)
  have "card (set (pd_replicas pd)) \<le> 2"
    using card_mono [OF _ sub] card_length [of ?bs] placement_brokers_few [of view] by (meson List.finite_set order_trans)
  then show ?thesis using len assms(2) distinct_card [of "pd_replicas pd"] by auto
qed

definition wide_view :: ClusterView where
  "wide_view = \<lparr>cv_broker_count = 3, cv_controller_id = 2, cv_broker_id = 1, cv_is_controller = False\<rparr>"

theorem replicas_repeat_brokers_witness:
  "\<exists>md tm' pm'. create_topic wide_view demo_broker 0 ''orders'' 1 3 demo_start = (Inr md, tm', pm') \<and>
    (\<exists>pd. pd \<in> set (td_partitions md) \<and> \<not> distinct (pd_replicas pd))"
proof -
  have "\<not> isl (fst (create_topic wide_view demo_broker 0 ''orders'' 1 3 demo_start))" by code_simp
  then obtain md tm' pm' where c: "create_topic wide_view demo_broker 0 ''orders'' 1 3 demo_start = (Inr md, tm', pm')"
    by (metis isl_def old.sum.exhaust prod.collapse)
  have "create_prepare wide_view ''orders'' 1 3 new_topic_manager = (Inr md, snd (create_prepare wide_view ''orders'' 1 3 new_topic_manager))"
    using c by (cases rule: create_topic_cases) auto
  then have "td_partitions md \<noteq> []" using prepare_cases(4) by fastforce
  then obtain pd where "pd \<in> set (td_partitions md)" by (cases "td_partitions md") auto
  then show ?thesis using replicas_repeat_brokers [OF c] c by fastforce
qed

section \<open>Interleaved phases\<close>

text \<open>
  A topic created while its predecessor is being deleted is lost. The deletion releases the lock
  between marking the topic and erasing it; a creation in between finds it marked, succeeds
  and replaces the entry, which the deletion then erases. Both calls report success; the topic
  does not exist, one of its partitions is still hosted, and the partition counter is off by three.
\<close>

theorem delete_erases_new_topic:
  "let (r0, tm0, pm0) = create_topic demo_view demo_broker 0 ''orders'' 2 1 demo_start;
       (snapshot, tm1) = delete_mark 5 ''orders'' tm0;
       (created, tm2, pm2) = create_topic demo_view demo_broker 6 ''orders'' 3 1 (tm1, pm0);
       pm3 = delete_partitions ''orders'' (projr snapshot) pm2;
       tm3 = delete_finish ''orders'' (projr snapshot) tm2
   in \<not> isl snapshot \<and> \<not> isl created \<and> \<not> topic_exists tm3 ''orders'' \<and> tm_topics tm3 = [] \<and>
      tm_total_partition_count tm3 = 3 \<and> hosted pm3 ''orders'' 2"
  by code_simp

text \<open>The counter also drifts when \<^verbatim>\<open>update_topic_metadata\<close> brings another number of partitions.\<close>

lemma update_metadata_drifts:
  "let tm0 = fst (snd (create_topic demo_view demo_broker 0 ''orders'' 2 1 demo_start));
       tm1 = update_topic_metadata ((the (get_topic tm0 ''orders''))\<lparr>td_partitions := []\<rparr>) tm0
   in partition_count tm1 ''orders'' = 0 \<and> tm_total_partition_count tm1 = 2"
  by code_simp

text \<open>\<^verbatim>\<open>min.insync.replicas\<close> is cut to 16 bits before it is checked: 65537 is accepted as 1.\<close>

lemma min_insync_truncated:
  "1 \<le> tc_replication_factor c \<Longrightarrow>
   apply_topic_config_override c ''min.insync.replicas'' ''65537'' = (True, c\<lparr>tc_min_insync_replicas := 1\<rparr>)"
proof -
  assume "1 \<le> tc_replication_factor c"
  moreover have "stoi ''65537'' = Some 65537" by code_simp
  moreover have "int16_of 65537 = 1" by code_simp
  moreover have "''min.insync.replicas'' \<in> set kAlterableConfigKeys" by code_simp
  ultimately show ?thesis by (simp add: apply_topic_config_override_def set_checked_def)
qed

end
