(* ===== verification/Lru_List.thy ===== *)
theory Lru_List
  imports Torrent_Prelude
begin

text \<open>
  What the two caches share. A \<^verbatim>\<open>std::list\<close> is a list of nodes with identities, so that an iterator
  kept in a hash map is the identity of a node and stays valid when nodes move (\<open>splice_front\<close>).
  \<open>index_ok\<close> says that map and list describe each other. The locale \<open>coherent_cache\<close> is the contract
  of a cache towards the store behind it.
\<close>

section \<open>Lists with iterators\<close>

type_synonym 'a node_list = "(nat \<times> 'a) list"

definition erase_node :: "nat \<Rightarrow> 'a node_list \<Rightarrow> 'a node_list" where
  "erase_node it xs = filter (\<lambda>(i, v). i \<noteq> it) xs"

definition splice_front :: "nat \<Rightarrow> 'a node_list \<Rightarrow> 'a node_list" where
  "splice_front it xs = (case map_of xs it of None \<Rightarrow> xs | Some v \<Rightarrow> (it, v) # erase_node it xs)"

definition set_node :: "nat \<Rightarrow> ('a \<Rightarrow> 'a) \<Rightarrow> 'a node_list \<Rightarrow> 'a node_list" where
  "set_node it f xs = map (\<lambda>(i, v). (i, if i = it then f v else v)) xs"

definition index_ok :: "('a \<Rightarrow> 'k) \<Rightarrow> ('k \<rightharpoonup> nat) \<Rightarrow> 'a node_list \<Rightarrow> bool" where
  "index_ok key m xs \<longleftrightarrow> distinct (map fst xs) \<and> distinct (map (\<lambda>(i, v). key v) xs) \<and>
     (\<forall>k it. m k = Some it \<longleftrightarrow> (\<exists>v. (it, v) \<in> set xs \<and> key v = k))"

lemma set_erase_node: "set (erase_node it xs) = {(i, v) \<in> set xs. i \<noteq> it}"
  by (auto simp: erase_node_def)

lemma map_of_set_node: "map_of (set_node it f xs) i = (if i = it then map_option f (map_of xs i) else map_of xs i)"
  by (induction xs) (auto simp: set_node_def)

lemma erase_absent: "it \<notin> fst ` set xs \<Longrightarrow> erase_node it xs = xs"
  by (induction xs) (auto simp: erase_node_def)

lemma erase_set_node: "erase_node it (set_node it f xs) = erase_node it xs"
  by (induction xs) (auto simp: erase_node_def set_node_def)

lemma index_nil: "index_ok key Map.empty []"
  by (simp add: index_ok_def)

lemma index_distinct:
  assumes "index_ok key m xs"
  shows "distinct (map fst xs)" "distinct (map (\<lambda>(i, v). key v) xs)"
  using assms by (simp_all add: index_ok_def)

lemma index_key:
  assumes "index_ok key m xs" "(it, v) \<in> set xs"
  shows "m (key v) = Some it"
  using assms by (auto simp: index_ok_def)

lemma index_lookup:
  assumes "index_ok key m xs" "m k = Some it"
  obtains v where "map_of xs it = Some v" "key v = k" "(it, v) \<in> set xs"
proof -
  obtain v where "(it, v) \<in> set xs" "key v = k" using assms unfolding index_ok_def by blast
  moreover have "map_of xs it = Some v" using calculation(1) index_distinct(1) [OF assms(1)] by simp
  ultimately show thesis using that by blast
qed

lemma index_unique:
  assumes "index_ok key m xs" "(i, v) \<in> set xs" "(j, w) \<in> set xs" "key v = key w"
  shows "i = j \<and> v = w"
proof -
  have "i = j" using index_key [OF assms(1,2)] index_key [OF assms(1,3)] assms(4) by simp
  then show ?thesis using assms(2,3) eq_key_imp_eq_value [OF index_distinct(1) [OF assms(1)]] by blast
qed

lemma index_absent:
  assumes "index_ok key m xs" "m k = None"
  shows "filter (\<lambda>(i, v). key v \<noteq> k) xs = xs"
  using index_key [OF assms(1)] assms(2) by (auto simp: filter_id_conv)

lemma index_erase_filter:
  assumes "index_ok key m xs" "m k = Some it"
  shows "erase_node it xs = filter (\<lambda>(i, v). key v \<noteq> k) xs"
proof -
  obtain v where v: "key v = k" "(it, v) \<in> set xs" using assms by (rule index_lookup)
  show ?thesis unfolding erase_node_def
  proof (rule filter_cong [OF refl], clarify)
    fix i w assume w: "(i, w) \<in> set xs"
    have "m (key w) = Some i" by (rule index_key [OF assms(1) w])
    moreover have "i = it \<Longrightarrow> w = v" using w v(2) eq_key_imp_eq_value [OF index_distinct(1) [OF assms(1)]] by blast
    ultimately show "(i \<noteq> it) = (key w \<noteq> k)" using assms(2) v(1) by auto
  qed
qed

lemma index_push:
  assumes "index_ok key m xs" "m (key v) = None" "it \<notin> fst ` set xs"
  shows "index_ok key (m(key v \<mapsto> it)) ((it, v) # xs)"
proof -
  have k: "(i, w) \<in> set xs \<Longrightarrow> key w \<noteq> key v" for i w using index_key [OF assms(1)] assms(2) by fastforce
  then have "distinct (map (\<lambda>(i, v). key v) ((it, v) # xs))" using index_distinct [OF assms(1)] by (force simp: image_iff)
  then show ?thesis using assms k by (auto simp: index_ok_def)
qed

lemma index_erase:
  assumes "index_ok key m xs" "m k = Some it"
  shows "index_ok key (m(k := None)) (erase_node it xs)"
proof -
  have "m k' = Some j \<longleftrightarrow> (\<exists>v. (j, v) \<in> set xs \<and> key v = k')" for k' j
    using assms(1) by (simp add: index_ok_def)
  then show ?thesis using index_distinct [OF assms(1)] unfolding index_erase_filter [OF assms]
    by (auto simp: index_ok_def distinct_map_filter)
qed

lemma index_splice:
  assumes "index_ok key m xs" "m k = Some it"
  shows "index_ok key m (splice_front it xs)"
proof -
  obtain v where v: "map_of xs it = Some v" "key v = k" using assms by (rule index_lookup)
  have "index_ok key ((m(k := None))(key v \<mapsto> it)) ((it, v) # erase_node it xs)"
    by (rule index_push) (use index_erase [OF assms] v in \<open>auto simp: set_erase_node\<close>)
  then show ?thesis using v assms(2) by (simp add: splice_front_def fun_upd_idem)
qed

lemma index_set:
  assumes "index_ok key m xs" "\<And>v. key (f v) = key v"
  shows "index_ok key m (set_node it f xs)"
proof -
  have "map fst (set_node it f xs) = map fst xs" "map (\<lambda>(i, v). key v) (set_node it f xs) = map (\<lambda>(i, v). key v) xs"
    using assms(2) by (auto simp: set_node_def)
  moreover have "(\<exists>v. (j, v) \<in> set (set_node it f xs) \<and> key v = k) \<longleftrightarrow> (\<exists>v. (j, v) \<in> set xs \<and> key v = k)" for j k
  proof
    assume "\<exists>v. (j, v) \<in> set (set_node it f xs) \<and> key v = k"
    then show "\<exists>v. (j, v) \<in> set xs \<and> key v = k" using assms(2) by (fastforce simp: set_node_def)
  next
    assume "\<exists>v. (j, v) \<in> set xs \<and> key v = k"
    then obtain v where v: "(j, v) \<in> set xs" "key v = k" by blast
    then have "(j, if j = it then f v else v) \<in> set (set_node it f xs)" by (force simp: set_node_def)
    then show "\<exists>v. (j, v) \<in> set (set_node it f xs) \<and> key v = k" using v assms(2) by (auto split: if_splits)
  qed
  ultimately show ?thesis using assms(1) by (simp add: index_ok_def)
qed

lemma index_pop:
  assumes "index_ok key m (xs @ [(it, v)])"
  shows "index_ok key (m(key v := None)) xs"
proof -
  have "m (key v) = Some it" using index_key [OF assms] by simp
  from index_erase [OF assms this] show ?thesis
    using index_distinct(1) [OF assms] by (simp add: erase_node_def erase_absent [unfolded erase_node_def])
qed

text \<open>What the map and the list hold together, the most recent node first.\<close>

definition by_key :: "('a \<Rightarrow> 'k) \<Rightarrow> 'a node_list \<Rightarrow> ('k \<times> 'a) list" where
  "by_key key xs = map (\<lambda>(i, v). (key v, v)) xs"

lemma by_key_lookup:
  assumes "index_ok key m xs"
  shows "map_of (by_key key xs) k = Option.bind (m k) (map_of xs)"
proof (cases "m k")
  case None
  then have "k \<notin> fst ` set (by_key key xs)" using index_key [OF assms] by (force simp: by_key_def)
  then show ?thesis using None by (simp add: map_of_eq_None_iff)
next
  case (Some it)
  then obtain v where v: "map_of xs it = Some v" "key v = k" "(it, v) \<in> set xs" by (rule index_lookup [OF assms])
  have "distinct (map fst (by_key key xs))"
    using index_distinct(2) [OF assms] by (simp add: by_key_def comp_def case_prod_unfold)
  then have "map_of (by_key key xs) k = Some v" using v by (force simp: by_key_def)
  then show ?thesis using Some v by simp
qed

section \<open>Association lists\<close>

lemma sum_without:
  "distinct (map fst l) \<Longrightarrow> map_of l k = Some v \<Longrightarrow>
   sum_list (map f l) = f (k, v) + (sum_list (map f (filter (\<lambda>x. fst x \<noteq> k) l)) :: int)"
proof (induction l)
  case (Cons x l)
  show ?case
  proof (cases "fst x = k")
    case True
    then have "filter (\<lambda>x. fst x \<noteq> k) l = l" using Cons.prems(1) by (auto simp: image_iff intro!: filter_True)
    then show ?thesis using True Cons.prems(2) by (cases x) simp
  next
    case False
    then show ?thesis using Cons by (cases x) simp
  qed
qed simp

lemma map_of_filter_keys: "map_of (filter (\<lambda>x. P (fst x)) l) k = (if P k then map_of l k else None)"
  by (induction l) auto

lemma map_of_take: "map_of (take n l) \<subseteq>\<^sub>m map_of l"
  by (metis append_take_drop_id map_add_le_mapI map_le_map_add map_of_append map_le_refl)

lemma sum_filter_compl:
  "sum_list (map f l) = sum_list (map f (filter P l)) + (sum_list (map f (filter (\<lambda>x. \<not> P x) l)) :: int)"
  by (induction l) auto

lemma sum_filter_le:
  "(\<And>x. x \<in> set l \<Longrightarrow> 0 \<le> f x) \<Longrightarrow> sum_list (map f (filter P l)) \<le> (sum_list (map f l) :: int)"
  by (induction l) fastforce+

section \<open>The most recent entries that fit\<close>

fun keep_within :: "('a \<Rightarrow> int) \<Rightarrow> int \<Rightarrow> 'a list \<Rightarrow> 'a list" where
  "keep_within f t [] = []"
| "keep_within f t (x # xs) = (if f x \<le> t then x # keep_within f (t - f x) xs else [])"

lemma keep_all: "(\<And>x. x \<in> set xs \<Longrightarrow> 0 \<le> f x) \<Longrightarrow> sum_list (map f xs) \<le> t \<Longrightarrow> keep_within f t xs = xs"
proof (induction xs arbitrary: t)
  case (Cons x xs)
  then have "0 \<le> sum_list (map f xs)" by (intro sum_list_nonneg) auto
  then show ?case using Cons by auto
qed simp

lemma keep_drop_last:
  "(\<And>x. x \<in> set (xs @ [y]) \<Longrightarrow> 0 \<le> f x) \<Longrightarrow> t < sum_list (map f (xs @ [y])) \<Longrightarrow>
   keep_within f t (xs @ [y]) = keep_within f t xs"
  by (induction xs arbitrary: t) auto

lemma keep_sum: "0 \<le> t \<Longrightarrow> sum_list (map f (keep_within f t xs)) \<le> t"
  by (induction f t xs rule: keep_within.induct) auto

lemma keep_prefix: "\<exists>n. keep_within f t xs = take n xs"
proof (induction xs arbitrary: t)
  case (Cons x xs)
  obtain n where "keep_within f (t - f x) xs = take n xs" using Cons by blast
  then have "keep_within f t (x # xs) = take (if f x \<le> t then Suc n else 0) (x # xs)" by simp
  then show ?case by blast
qed simp

lemma keep_map: "map h (keep_within (f \<circ> h) t xs) = keep_within f t (map h xs)"
  by (induction xs arbitrary: t) auto

section \<open>Caches\<close>

definition drop_keys :: "('k \<Rightarrow> bool) \<Rightarrow> ('k \<rightharpoonup> 'v) \<Rightarrow> ('k \<rightharpoonup> 'v)" where
  "drop_keys P m k = (if P k then None else m k)"

text \<open>
  Every operation of a cache has an effect on the store it stands for: a put writes, an invalidation
  removes, others change nothing. The cache may forget, and never holds anything else.
\<close>

locale coherent_cache =
  fixes exec :: "'op \<Rightarrow> 's \<Rightarrow> 's"
    and ok :: "'s \<Rightarrow> bool"
    and content :: "'s \<Rightarrow> 'k \<rightharpoonup> 'v"
    and effect :: "'op \<Rightarrow> ('k \<rightharpoonup> 'v) \<Rightarrow> ('k \<rightharpoonup> 'v)"
  assumes exec_ok: "ok s \<Longrightarrow> ok (exec op s)"
    and exec_content: "ok s \<Longrightarrow> content (exec op s) \<subseteq>\<^sub>m effect op (content s)"
    and effect_mono: "m \<subseteq>\<^sub>m m' \<Longrightarrow> effect op m \<subseteq>\<^sub>m effect op m'"
begin

lemma run_ok: "ok s \<Longrightarrow> ok (fold exec ops s)"
  by (rule fold_invariant) (auto simp: exec_ok)

lemma run_content: "ok s \<Longrightarrow> content s \<subseteq>\<^sub>m m \<Longrightarrow> content (fold exec ops s) \<subseteq>\<^sub>m fold effect ops m"
proof (induction ops arbitrary: s m)
  case (Cons op ops)
  have "content (exec op s) \<subseteq>\<^sub>m effect op m"
    using exec_content [OF Cons(2)] effect_mono [OF Cons(3)] by (rule map_le_trans)
  then show ?case using Cons.IH [OF exec_ok [OF Cons(2)]] by simp
qed simp

lemma hit_is_stored:
  assumes "ok s" "content s = Map.empty" "content (fold exec ops s) k = Some v"
  shows "fold effect ops Map.empty k = Some v"
  using run_content [OF assms(1), of Map.empty ops] assms(2,3) unfolding map_le_def by (metis domI map_le_def map_le_refl)

end

end
