(* ===== verification/Binary64.thy ===== *)
theory Binary64
  imports Torrent_Prelude
begin

text \<open>
  The products of \<^verbatim>\<open>double\<close> the caches compute. A positive double is an integer of 53 bits times a
  power of two, so an exact product is rounded by rounding an integer to 53 bits, to nearest with
  ties to even. The exponent range is never left: the factors are sizes below \<open>2 ^ 63\<close> and constants.
\<close>

function bits :: "int \<Rightarrow> nat" where
  "bits n = (if n \<le> 0 then 0 else Suc (bits (n div 2)))"
  by pat_completeness auto
termination by (relation "measure nat") auto

declare bits.simps [simp del]

definition round53 :: "int \<Rightarrow> int" where
  "round53 n =
     (let s = bits n - 53; q = n div 2 ^ s; r = n mod 2 ^ s
      in if 2 * r > 2 ^ s \<or> 2 * r = 2 ^ s \<and> odd q then (q + 1) * 2 ^ s else q * 2 ^ s)"

text \<open>\<open>double(n) * c\<close> for \<open>c = k / 2 ^ e\<close>, as a numerator over \<open>2 ^ e\<close>; and its conversions to an integer.\<close>

definition scale :: "int \<Rightarrow> int \<Rightarrow> int" where
  "scale k n = round53 (round53 n * k)"

definition scale_trunc :: "int \<Rightarrow> nat \<Rightarrow> int \<Rightarrow> int" where
  "scale_trunc k e n = scale k n div 2 ^ e"

definition scale_ceil :: "int \<Rightarrow> nat \<Rightarrow> int \<Rightarrow> int" where
  "scale_ceil k e n = (scale k n + 2 ^ e - 1) div 2 ^ e"

lemma bits_0: "bits 0 = 0"
  by (subst bits.simps) simp

lemma bits_lower: "0 < n \<Longrightarrow> 2 ^ (bits n - 1) \<le> n"
proof (induction n rule: bits.induct)
  case (1 n)
  show ?case
  proof (cases "n div 2 = 0")
    case True
    then show ?thesis using 1 by (simp add: bits.simps [of n] bits_0)
  next
    case False
    then have pos: "0 < n div 2" using 1 by auto
    then obtain m where "bits (n div 2) = Suc m" using bits.simps [of "n div 2"] by auto
    then show ?thesis using 1 pos by (simp add: bits.simps [of n])
  qed
qed

lemma round53_nonneg: "0 \<le> n \<Longrightarrow> 0 \<le> round53 n"
  by (simp add: round53_def Let_def pos_imp_zdiv_nonneg_iff)

text \<open>The relative error of a rounding is at most \<open>2 ^ -53\<close>.\<close>

lemma round53_upper:
  assumes "0 \<le> n"
  shows "2 ^ 53 * round53 n \<le> (2 ^ 53 + 1) * n"
proof -
  let ?s = "bits n - 53"
  let ?q = "n div 2 ^ ?s" and ?r = "n mod 2 ^ ?s"
  have n: "?q * 2 ^ ?s + ?r = n" by (rule div_mult_mod_eq)
  show ?thesis
  proof (cases "2 * ?r > 2 ^ ?s \<or> 2 * ?r = 2 ^ ?s \<and> odd ?q")
    case False
    then have "round53 n = ?q * 2 ^ ?s" by (simp add: round53_def Let_def)
    then have "round53 n \<le> n" using n pos_mod_sign [of "2 ^ ?s" n, OF zero_less_power] by linarith
    then show ?thesis using assms by simp
  next
    case True
    then have r: "round53 n = ?q * 2 ^ ?s + 2 ^ ?s" "2 ^ ?s \<le> 2 * ?r" by (auto simp: round53_def Let_def algebra_simps)
    have s: "0 < ?s"
    proof (rule ccontr)
      assume "\<not> 0 < ?s" then show False using r(2) by simp
    qed
    then have "0 < n" using bits_0 assms by (cases "n = 0") simp_all
    then have "2 ^ (bits n - 1) \<le> n" by (rule bits_lower)
    moreover have "bits n - 1 = 52 + ?s" using s by simp
    ultimately have big: "2 ^ 52 * 2 ^ ?s \<le> n" by (metis power_add)
    have "2 * round53 n \<le> 2 * n + 2 ^ ?s" using n r by linarith
    then have "2 ^ 52 * (2 * round53 n) \<le> 2 ^ 52 * (2 * n + 2 ^ ?s)" by (rule mult_left_mono) simp
    then show ?thesis using big by simp
  qed
qed

lemma scale_upper:
  assumes "0 \<le> k" "0 \<le> n"
  shows "2 ^ 106 * scale k n \<le> (2 ^ 53 + 1) ^ 2 * k * n"
proof -
  have "2 ^ 53 * scale k n \<le> (2 ^ 53 + 1) * (round53 n * k)"
    unfolding scale_def using assms round53_nonneg by (intro round53_upper) simp
  then have "2 ^ 53 * (2 ^ 53 * scale k n) \<le> 2 ^ 53 * ((2 ^ 53 + 1) * (round53 n * k))" by (rule mult_left_mono) simp
  also have "\<dots> = (2 ^ 53 + 1) * k * (2 ^ 53 * round53 n)" by (simp only: ac_simps)
  also have "\<dots> \<le> (2 ^ 53 + 1) * k * ((2 ^ 53 + 1) * n)" using assms by (intro mult_left_mono round53_upper) simp_all
  finally show ?thesis by (simp add: power2_eq_square algebra_simps)
qed

text \<open>A factor below 1 by more than the two rounding errors gives at most the number scaled.\<close>

lemma scale_trunc_bounds:
  assumes "(2 ^ 53 + 1) ^ 2 * k \<le> 2 ^ 106 * 2 ^ e" "0 \<le> k" "0 \<le> n"
  shows "0 \<le> scale_trunc k e n" "scale_trunc k e n \<le> n"
proof -
  have "2 ^ 106 * scale k n \<le> (2 ^ 106 * 2 ^ e) * n"
    using scale_upper [OF assms(2,3)] mult_right_mono [OF assms(1), of n] assms(3) by linarith
  then have "scale k n \<le> n * 2 ^ e" by (simp add: mult.commute)
  then have "scale k n div 2 ^ e \<le> n * 2 ^ e div 2 ^ e" by (rule zdiv_mono1) simp
  then show "scale_trunc k e n \<le> n" by (simp add: scale_trunc_def)
  show "0 \<le> scale_trunc k e n"
    using assms round53_nonneg by (simp add: scale_trunc_def scale_def pos_imp_zdiv_nonneg_iff)
qed

end
