(* ===== verification/Batch_Cache.thy ===== *)
theory Batch_Cache
  imports Storage_Types Lru_List Binary64
begin

text \<open>
  \<^verbatim>\<open>BatchCache\<close> of \<^verbatim>\<open>src/torrent/storage/batch_cache.cpp\<close>: record batches by topic, partition and
  offset, in a list with the most recently inserted first and a hash map of iterators into it, limited
  by the bytes of its entries. Each method holds the lock throughout; clock readings are arguments. Batches
  are values. The text of \<^verbatim>\<open>summary\<close> and the ratios of the statistics are left out.
\<close>

section \<open>State\<close>

record BatchCacheKey =
  bk_topic_id :: int
  bk_partition_id :: int
  bk_base_offset :: log_offset

record BatchCacheEntry =
  be_batch :: RecordBatch
  be_byte_size :: int
  be_last_access_ms :: timestamp_ms
  be_access_count :: int

record LruNode =
  ln_key :: BatchCacheKey
  ln_entry :: BatchCacheEntry

record BatchCacheStats =
  bs_total_lookups :: int
  bs_hits :: int
  bs_misses :: int
  bs_insertions :: int
  bs_evictions :: int
  bs_invalidations :: int
  bs_batch_invalidations :: int

definition zero_stats :: BatchCacheStats where
  "zero_stats = \<lparr>bs_total_lookups = 0, bs_hits = 0, bs_misses = 0, bs_insertions = 0, bs_evictions = 0,
     bs_invalidations = 0, bs_batch_invalidations = 0\<rparr>"

text \<open>\<open>bc_next\<close> is the identity of the next list node.\<close>

record BatchCache =
  bc_lru_list :: "LruNode node_list"
  bc_lru_map :: "(BatchCacheKey \<times> nat) list"
  bc_next :: nat
  bc_max_bytes :: int
  bc_total_bytes :: int
  bc_stats :: BatchCacheStats

definition new_batch_cache :: "int \<Rightarrow> BatchCache" where
  "new_batch_cache max_bytes =
     \<lparr>bc_lru_list = [], bc_lru_map = [], bc_next = 0, bc_max_bytes = max max_bytes 0, bc_total_bytes = 0,
      bc_stats = zero_stats\<rparr>"

definition compute_batch_size :: "RecordBatch \<Rightarrow> int" where
  "compute_batch_size b =
     (let sz = approximate_size b;
          sz = (if sz = 0 \<and> rb_record_count b > 0 then 61 + rb_record_count b * 8 else sz)
      in max sz 1)"

text \<open>\<^verbatim>\<open>static_cast<byte_count_t>(static_cast<double>(max) * 0.85)\<close>; the double nearest 0.85 is
  \<open>7656119366529843 / 2 ^ 53\<close>.\<close>

definition eviction_target :: "int \<Rightarrow> int" where
  "eviction_target m = scale_trunc 7656119366529843 53 m"

section \<open>Operations\<close>

definition upd_stats :: "(BatchCacheStats \<Rightarrow> BatchCacheStats) \<Rightarrow> BatchCache \<Rightarrow> BatchCache" where
  "upd_stats f s = s\<lparr>bc_stats := f (bc_stats s)\<rparr>"

function evict_loop :: "int \<Rightarrow> int \<Rightarrow> BatchCache \<Rightarrow> BatchCache" where
  "evict_loop target current s =
     (if current > target \<and> bc_lru_list s \<noteq> []
      then let back = snd (last (bc_lru_list s));
               evicted_size = be_byte_size (ln_entry back);
               s = s\<lparr>bc_lru_map := AList.delete (ln_key back) (bc_lru_map s)\<rparr>;
               s = s\<lparr>bc_lru_list := butlast (bc_lru_list s)\<rparr>;
               current = bc_total_bytes s - evicted_size;
               s = s\<lparr>bc_total_bytes := current\<rparr>;
               s = upd_stats (\<lambda>t. t\<lparr>bs_evictions := bs_evictions t + 1\<rparr>) s
           in evict_loop target current s
      else s)"
  by pat_completeness auto
termination by (relation "measure (\<lambda>(t, c, s). length (bc_lru_list s))") (auto simp: upd_stats_def)

declare evict_loop.simps [simp del]

definition evict_lru :: "int \<Rightarrow> BatchCache \<Rightarrow> BatchCache" where
  "evict_lru target_bytes s = evict_loop target_bytes (bc_total_bytes s) s"

definition bc_get :: "BatchCacheKey \<Rightarrow> timestamp_ms \<Rightarrow> BatchCache \<Rightarrow> RecordBatch option \<times> BatchCache" where
  "bc_get key now s =
     (let s = upd_stats (\<lambda>t. t\<lparr>bs_total_lookups := bs_total_lookups t + 1\<rparr>) s
      in case map_of (bc_lru_map s) key of
        None \<Rightarrow> (None, upd_stats (\<lambda>t. t\<lparr>bs_misses := bs_misses t + 1\<rparr>) s)
      | Some it \<Rightarrow>
          let s = upd_stats (\<lambda>t. t\<lparr>bs_hits := bs_hits t + 1\<rparr>) s;
              s = s\<lparr>bc_lru_list := set_node it (\<lambda>n. n\<lparr>ln_entry := (ln_entry n)\<lparr>be_last_access_ms := now,
                      be_access_count := be_access_count (ln_entry n) + 1\<rparr>\<rparr>) (bc_lru_list s)\<rparr>
          in (map_option (\<lambda>n. be_batch (ln_entry n)) (map_of (bc_lru_list s) it), s))"

text \<open>The first part of \<^verbatim>\<open>put\<close>: the entry is updated and promoted, or inserted, at the front.\<close>

definition bc_place :: "BatchCacheKey \<Rightarrow> RecordBatch \<Rightarrow> timestamp_ms \<Rightarrow> BatchCache \<Rightarrow> BatchCache" where
  "bc_place key batch ts s =
     (let new_size = compute_batch_size batch
      in case map_of (bc_lru_map s) key of
        Some it \<Rightarrow>
          let old_size = (case map_of (bc_lru_list s) it of Some n \<Rightarrow> be_byte_size (ln_entry n) | None \<Rightarrow> 0);
              s = s\<lparr>bc_lru_list := set_node it (\<lambda>n. n\<lparr>ln_entry := \<lparr>be_batch = batch, be_byte_size = new_size,
                    be_last_access_ms = ts, be_access_count = 0\<rparr>\<rparr>) (bc_lru_list s)\<rparr>;
              s = s\<lparr>bc_total_bytes := bc_total_bytes s - old_size + new_size\<rparr>;
              s = s\<lparr>bc_lru_list := splice_front it (bc_lru_list s)\<rparr>
          in upd_stats (\<lambda>t. t\<lparr>bs_insertions := bs_insertions t + 1\<rparr>) s
      | None \<Rightarrow>
          let node = \<lparr>ln_key = key, ln_entry = \<lparr>be_batch = batch, be_byte_size = new_size,
                      be_last_access_ms = ts, be_access_count = 1\<rparr>\<rparr>;
              s = s\<lparr>bc_lru_list := (bc_next s, node) # bc_lru_list s,
                    bc_lru_map := AList.update key (bc_next s) (bc_lru_map s), bc_next := bc_next s + 1\<rparr>;
              s = s\<lparr>bc_total_bytes := bc_total_bytes s + new_size\<rparr>
          in upd_stats (\<lambda>t. t\<lparr>bs_insertions := bs_insertions t + 1\<rparr>) s)"

definition bc_put :: "BatchCacheKey \<Rightarrow> RecordBatch \<Rightarrow> timestamp_ms \<Rightarrow> BatchCache \<Rightarrow> BatchCache" where
  "bc_put key batch ts s =
     (let s = bc_place key batch ts s
      in if bc_max_bytes s > 0 \<and> bc_total_bytes s > bc_max_bytes s
         then evict_lru (eviction_target (bc_max_bytes s)) s else s)"

definition bc_contains :: "BatchCacheKey \<Rightarrow> BatchCache \<Rightarrow> bool" where
  "bc_contains key s \<longleftrightarrow> map_of (bc_lru_map s) key \<noteq> None"

definition bc_erase :: "BatchCacheKey \<Rightarrow> BatchCache \<Rightarrow> bool \<times> BatchCache" where
  "bc_erase key s =
     (case map_of (bc_lru_map s) key of
        None \<Rightarrow> (False, s)
      | Some it \<Rightarrow>
          let removed_size = (case map_of (bc_lru_list s) it of Some n \<Rightarrow> be_byte_size (ln_entry n) | None \<Rightarrow> 0);
              s = s\<lparr>bc_lru_list := erase_node it (bc_lru_list s), bc_lru_map := AList.delete key (bc_lru_map s),
                    bc_total_bytes := bc_total_bytes s - removed_size\<rparr>
          in (True, upd_stats (\<lambda>t. t\<lparr>bs_invalidations := bs_invalidations t + 1\<rparr>) s))"

definition bc_clear :: "BatchCache \<Rightarrow> BatchCache" where
  "bc_clear s =
     (let removed = int (length (bc_lru_list s));
          s = s\<lparr>bc_lru_list := [], bc_lru_map := [], bc_total_bytes := 0\<rparr>
      in if removed > 0
         then upd_stats (\<lambda>t. t\<lparr>bs_batch_invalidations := bs_batch_invalidations t + 1,
                bs_invalidations := bs_invalidations t + removed\<rparr>) s
         else s)"

definition bc_resize :: "int \<Rightarrow> BatchCache \<Rightarrow> BatchCache" where
  "bc_resize new_max_bytes s =
     (let clamped = max new_max_bytes 0; s = s\<lparr>bc_max_bytes := clamped\<rparr>
      in if clamped = 0 then bc_clear s
         else if bc_total_bytes s > clamped then evict_lru (eviction_target clamped) s else s)"

text \<open>The loop of the three invalidations: iterate over the list and remove the nodes that match.\<close>

fun invalidate_loop :: "(BatchCacheKey \<Rightarrow> bool) \<Rightarrow> LruNode node_list \<Rightarrow> int \<Rightarrow> BatchCache \<Rightarrow> int \<times> BatchCache" where
  "invalidate_loop P [] removed s = (removed, s)"
| "invalidate_loop P ((it, n) # ns) removed s =
     (if P (ln_key n)
      then invalidate_loop P ns (removed + 1)
             (s\<lparr>bc_total_bytes := bc_total_bytes s - be_byte_size (ln_entry n),
                bc_lru_map := AList.delete (ln_key n) (bc_lru_map s),
                bc_lru_list := erase_node it (bc_lru_list s)\<rparr>)
      else invalidate_loop P ns removed s)"

definition invalidate_partition :: "int \<Rightarrow> int \<Rightarrow> BatchCache \<Rightarrow> int \<times> BatchCache" where
  "invalidate_partition topic_id partition_id s =
     (let (removed, s) = invalidate_loop (\<lambda>k. bk_topic_id k = topic_id \<and> bk_partition_id k = partition_id) (bc_lru_list s) 0 s
      in (removed, if removed > 0
            then upd_stats (\<lambda>t. t\<lparr>bs_invalidations := bs_invalidations t + removed,
                   bs_batch_invalidations := bs_batch_invalidations t + 1\<rparr>) s
            else s))"

definition invalidate_topic :: "int \<Rightarrow> BatchCache \<Rightarrow> int \<times> BatchCache" where
  "invalidate_topic topic_id s =
     (let (removed, s) = invalidate_loop (\<lambda>k. bk_topic_id k = topic_id) (bc_lru_list s) 0 s
      in (removed, if removed > 0
            then upd_stats (\<lambda>t. t\<lparr>bs_invalidations := bs_invalidations t + removed,
                   bs_batch_invalidations := bs_batch_invalidations t + 1\<rparr>) s
            else s))"

definition invalidate_offset_range :: "int \<Rightarrow> int \<Rightarrow> log_offset \<Rightarrow> log_offset \<Rightarrow> BatchCache \<Rightarrow> int \<times> BatchCache" where
  "invalidate_offset_range topic_id partition_id start_offset end_offset s =
     (let (removed, s) = invalidate_loop
            (\<lambda>k. bk_topic_id k = topic_id \<and> bk_partition_id k = partition_id \<and>
                 start_offset \<le> bk_base_offset k \<and> bk_base_offset k < end_offset) (bc_lru_list s) 0 s
      in (removed, if removed > 0
            then upd_stats (\<lambda>t. t\<lparr>bs_invalidations := bs_invalidations t + removed\<rparr>) s
            else s))"

definition bc_entry_count :: "BatchCache \<Rightarrow> int" where "bc_entry_count s = int (length (bc_lru_list s))"
definition bc_empty :: "BatchCache \<Rightarrow> bool" where "bc_empty s \<longleftrightarrow> bc_lru_list s = []"

text \<open>\<^verbatim>\<open>stats\<close>: the counters with the number of entries, the bytes and the limit.\<close>

definition bc_stats_snapshot :: "bool \<Rightarrow> BatchCache \<Rightarrow> (BatchCacheStats \<times> int \<times> int \<times> int) \<times> BatchCache" where
  "bc_stats_snapshot keep_stats s =
     ((bc_stats s, bc_entry_count s, bc_total_bytes s, bc_max_bytes s),
      if \<not> keep_stats then s\<lparr>bc_stats := zero_stats\<rparr> else s)"

definition bc_reset_stats :: "BatchCache \<Rightarrow> BatchCache" where
  "bc_reset_stats s = s\<lparr>bc_stats := zero_stats\<rparr>"

end
