(* ===== verification/Batch_Cache_Properties.thy ===== *)
theory Batch_Cache_Properties
  imports Batch_Cache
begin

text \<open>
  What the batch cache promises: its list and its map describe each other and the byte count is exact
  in every run; an insertion keeps exactly the most recently inserted entries that fit; a
  hit is the batch last stored. The abstract cache is a list of keys and entries, the latest first.
\<close>

section \<open>Abstraction and invariant\<close>

definition bc_entries :: "BatchCache \<Rightarrow> (BatchCacheKey \<times> BatchCacheEntry) list" where
  "bc_entries s = map (\<lambda>(i, n). (ln_key n, ln_entry n)) (bc_lru_list s)"

definition entry_size :: "BatchCacheKey \<times> BatchCacheEntry \<Rightarrow> int" where
  "entry_size x = be_byte_size (snd x)"

definition bc_content :: "BatchCache \<Rightarrow> BatchCacheKey \<rightharpoonup> RecordBatch" where
  "bc_content s k = map_option be_batch (map_of (bc_entries s) k)"

definition bc_ok :: "BatchCache \<Rightarrow> bool" where
  "bc_ok s \<longleftrightarrow> index_ok ln_key (map_of (bc_lru_map s)) (bc_lru_list s) \<and>
     list_all (\<lambda>(i, n). i < bc_next s \<and> 1 \<le> be_byte_size (ln_entry n)) (bc_lru_list s) \<and>
     bc_total_bytes s = sum_list (map entry_size (bc_entries s)) \<and> 0 \<le> bc_max_bytes s"

lemma bc_okD:
  assumes "bc_ok s"
  shows "index_ok ln_key (map_of (bc_lru_map s)) (bc_lru_list s)"
    "(i, n) \<in> set (bc_lru_list s) \<Longrightarrow> i < bc_next s"
    "(i, n) \<in> set (bc_lru_list s) \<Longrightarrow> 1 \<le> be_byte_size (ln_entry n)"
    "bc_total_bytes s = sum_list (map entry_size (bc_entries s))" "0 \<le> bc_max_bytes s"
  using assms by (auto simp: bc_ok_def list_all_iff)

lemma upd_stats_fields [simp]:
  "bc_lru_list (upd_stats f s) = bc_lru_list s" "bc_lru_map (upd_stats f s) = bc_lru_map s"
  "bc_next (upd_stats f s) = bc_next s" "bc_total_bytes (upd_stats f s) = bc_total_bytes s"
  "bc_max_bytes (upd_stats f s) = bc_max_bytes s" "bc_entries (upd_stats f s) = bc_entries s"
  "bc_ok (upd_stats f s) = bc_ok s"
  by (simp_all add: upd_stats_def bc_entries_def bc_ok_def)

lemma entry_positive: "bc_ok s \<Longrightarrow> x \<in> set (bc_entries s) \<Longrightarrow> 0 \<le> entry_size x"
  using bc_okD(3) by (fastforce simp: bc_entries_def entry_size_def)

lemma entries_lookup:
  assumes "bc_ok s"
  shows "map_of (bc_entries s) k = map_option ln_entry (Option.bind (map_of (bc_lru_map s) k) (map_of (bc_lru_list s)))"
proof -
  have "bc_entries s = map (\<lambda>(k, v). (k, ln_entry v)) (by_key ln_key (bc_lru_list s))"
    by (simp add: bc_entries_def by_key_def case_prod_unfold)
  then show ?thesis by (simp add: map_of_map by_key_lookup [OF bc_okD(1) [OF assms]])
qed

lemma entries_distinct: "bc_ok s \<Longrightarrow> distinct (map fst (bc_entries s))"
  using index_distinct(2) [OF bc_okD(1)] by (simp add: bc_entries_def comp_def case_prod_unfold)

lemma bc_ok_new: "bc_ok (new_batch_cache m)"
  by (simp add: bc_ok_def new_batch_cache_def index_nil bc_entries_def)

lemma eviction_target_bounds: "0 \<le> m \<Longrightarrow> 0 \<le> eviction_target m \<and> eviction_target m \<le> m"
  using scale_trunc_bounds [of 7656119366529843 53 m] by (simp add: eviction_target_def)

section \<open>Eviction\<close>

lemma evict_loop_ok:
  "bc_ok s \<Longrightarrow> current = bc_total_bytes s \<Longrightarrow>
   bc_ok (evict_loop target current s) \<and> bc_max_bytes (evict_loop target current s) = bc_max_bytes s \<and>
   bc_entries (evict_loop target current s) = keep_within entry_size target (bc_entries s)"
proof (induction "bc_lru_list s" arbitrary: s current rule: rev_induct)
  case Nil
  then show ?case by (subst (1 2 3) evict_loop.simps) (simp add: bc_entries_def)
next
  case (snoc x xs)
  obtain it n where l: "bc_lru_list s = xs @ [(it, n)]" using snoc(2) by (metis surj_pair)
  have total: "current = sum_list (map entry_size (bc_entries s))" using snoc(3,4) bc_okD(4) by simp
  note pos = entry_positive [OF snoc(3)]
  show ?case
  proof (cases "target < current")
    case False
    then have "evict_loop target current s = s" by (subst evict_loop.simps) simp
    moreover have "keep_within entry_size target (bc_entries s) = bc_entries s"
      using keep_all [of "bc_entries s" entry_size target] pos False total by simp
    ultimately show ?thesis using snoc(3) by simp
  next
    case True
    let ?s = "s\<lparr>bc_lru_map := AList.delete (ln_key n) (bc_lru_map s), bc_lru_list := xs,
        bc_total_bytes := bc_total_bytes s - be_byte_size (ln_entry n)\<rparr>"
    let ?t = "upd_stats (\<lambda>t. t\<lparr>bs_evictions := bs_evictions t + 1\<rparr>) ?s"
    have e: "bc_entries s = bc_entries ?s @ [(ln_key n, ln_entry n)]" by (simp add: bc_entries_def l)
    have "index_ok ln_key (map_of (AList.delete (ln_key n) (bc_lru_map s))) xs"
      using index_pop [of ln_key _ xs it n] bc_okD(1) [OF snoc(3)] by (simp add: l delete_conv')
    then have ok: "bc_ok ?s" using snoc(3) e by (auto simp: bc_ok_def l entry_size_def list_all_iff)
    have step: "evict_loop target current s = evict_loop target (bc_total_bytes ?s) ?t"
      using True by (subst evict_loop.simps) (simp add: l Let_def upd_stats_def)
    have "keep_within entry_size target (bc_entries s) = keep_within entry_size target (bc_entries ?s)"
      using True pos unfolding total e by (intro keep_drop_last) blast+
    then show ?thesis unfolding step using snoc(1) [of ?t "bc_total_bytes ?s"] ok by simp
  qed
qed

lemma evict_lru_ok:
  assumes "bc_ok s"
  shows "bc_ok (evict_lru target s)" "bc_max_bytes (evict_lru target s) = bc_max_bytes s"
    "bc_entries (evict_lru target s) = keep_within entry_size target (bc_entries s)"
  using evict_loop_ok [OF assms refl] by (simp_all add: evict_lru_def)

section \<open>Operations on the abstract cache\<close>

text \<open>The specification of an insertion: the entry goes to the front; over the limit, the longest prefix that fits stays.\<close>

definition put_spec ::
  "int \<Rightarrow> BatchCacheKey \<Rightarrow> BatchCacheEntry \<Rightarrow> (BatchCacheKey \<times> BatchCacheEntry) list \<Rightarrow> (BatchCacheKey \<times> BatchCacheEntry) list" where
  "put_spec limit k e l =
     (let l = (k, e) # filter (\<lambda>x. fst x \<noteq> k) l
      in if limit > 0 \<and> sum_list (map entry_size l) > limit then keep_within entry_size (eviction_target limit) l else l)"

definition put_entry :: "BatchCacheKey \<Rightarrow> RecordBatch \<Rightarrow> timestamp_ms \<Rightarrow> BatchCache \<Rightarrow> BatchCacheEntry" where
  "put_entry k b ts s = \<lparr>be_batch = b, be_byte_size = compute_batch_size b, be_last_access_ms = ts,
     be_access_count = (if bc_contains k s then 0 else 1)\<rparr>"

lemma size_positive: "1 \<le> compute_batch_size b"
  by (simp add: compute_batch_size_def Let_def)

lemma entries_filter:
  "map (\<lambda>(i, n). (ln_key n, ln_entry n)) (filter (\<lambda>(i, n). P (ln_key n)) xs) =
   filter (\<lambda>x. P (fst x)) (map (\<lambda>(i, n). (ln_key n, ln_entry n)) xs)"
  by (induction xs) auto

lemma place_ok:
  assumes "bc_ok s"
  shows "bc_ok (bc_place k b ts s)" "bc_max_bytes (bc_place k b ts s) = bc_max_bytes s"
    "bc_entries (bc_place k b ts s) = (k, put_entry k b ts s) # filter (\<lambda>x. fst x \<noteq> k) (bc_entries s)"
proof -
  note index = bc_okD(1) [OF assms]
  show "bc_max_bytes (bc_place k b ts s) = bc_max_bytes s"
    by (auto simp: bc_place_def Let_def split: option.split)
  have goal: "bc_ok (bc_place k b ts s) \<and>
      bc_entries (bc_place k b ts s) = (k, put_entry k b ts s) # filter (\<lambda>x. fst x \<noteq> k) (bc_entries s)"
  proof (cases "map_of (bc_lru_map s) k")
    case None
    let ?n = "\<lparr>ln_key = k, ln_entry = put_entry k b ts s\<rparr>"
    have fresh: "bc_next s \<notin> fst ` set (bc_lru_list s)" using bc_okD(2) [OF assms] by fastforce
    have "index_ok ln_key ((map_of (bc_lru_map s))(k \<mapsto> bc_next s)) ((bc_next s, ?n) # bc_lru_list s)"
      using index_push [OF index, of ?n "bc_next s"] None fresh by simp
    moreover have "filter (\<lambda>x. fst x \<noteq> k) (bc_entries s) = bc_entries s"
      using index_absent [OF index None] entries_filter [of "\<lambda>k'. k' \<noteq> k" "bc_lru_list s"]
      by (simp add: bc_entries_def)
    ultimately show ?thesis using None assms size_positive [of b]
      by (auto simp: bc_place_def bc_ok_def bc_entries_def Let_def put_entry_def bc_contains_def update_conv' entry_size_def
          list_all_iff less_SucI)
  next
    case (Some it)
    obtain n where n: "map_of (bc_lru_list s) it = Some n" "ln_key n = k" using index Some by (rule index_lookup)
    let ?f = "\<lambda>n. n\<lparr>ln_entry := put_entry k b ts s\<rparr>"
    have "index_ok ln_key (map_of (bc_lru_map s)) (splice_front it (set_node it ?f (bc_lru_list s)))"
      using index_splice [OF index_set [OF index, of ?f] Some] by simp
    moreover have l: "splice_front it (set_node it ?f (bc_lru_list s)) =
        (it, ?f n) # filter (\<lambda>(i, v). ln_key v \<noteq> k) (bc_lru_list s)"
      using n index_erase_filter [OF index Some] by (simp add: splice_front_def map_of_set_node erase_set_node)
    moreover have "sum_list (map entry_size (bc_entries s)) = be_byte_size (ln_entry n) +
        sum_list (map entry_size (filter (\<lambda>x. fst x \<noteq> k) (bc_entries s)))"
      using sum_without [OF entries_distinct [OF assms], of k "ln_entry n" entry_size] n Some
      by (simp add: entries_lookup [OF assms] entry_size_def)
    moreover have "it < bc_next s" using bc_okD(2) [OF assms, of it n] n(1) by (simp add: map_of_SomeD)
    ultimately show ?thesis using n Some assms size_positive [of b]
      by (simp add: bc_place_def bc_ok_def bc_entries_def Let_def put_entry_def bc_contains_def entry_size_def
          list_all_iff entries_filter [of "\<lambda>k'. k' \<noteq> k"] del: map_map)
  qed
  then show "bc_ok (bc_place k b ts s)"
    "bc_entries (bc_place k b ts s) = (k, put_entry k b ts s) # filter (\<lambda>x. fst x \<noteq> k) (bc_entries s)" by simp_all
qed

lemma put_ok:
  assumes "bc_ok s"
  shows "bc_ok (bc_put k b ts s)" "bc_max_bytes (bc_put k b ts s) = bc_max_bytes s"
    "bc_entries (bc_put k b ts s) = put_spec (bc_max_bytes s) k (put_entry k b ts s) (bc_entries s)"
  using place_ok [OF assms, of k b ts] bc_okD(4) [OF place_ok(1) [OF assms, of k b ts]] evict_lru_ok [OF place_ok(1) [OF assms, of k b ts]]
  by (simp_all add: bc_put_def put_spec_def Let_def)

lemma get_ok:
  assumes "bc_ok s"
  shows "bc_ok (snd (bc_get k now s))" "fst (bc_get k now s) = bc_content s k"
    "bc_content (snd (bc_get k now s)) = bc_content s" "bc_max_bytes (snd (bc_get k now s)) = bc_max_bytes s"
    "bc_total_bytes (snd (bc_get k now s)) = bc_total_bytes s"
    "map fst (bc_entries (snd (bc_get k now s))) = map fst (bc_entries s)"
proof -
  note index = bc_okD(1) [OF assms]
  let ?f = "\<lambda>n. n\<lparr>ln_entry := (ln_entry n)\<lparr>be_last_access_ms := now, be_access_count := be_access_count (ln_entry n) + 1\<rparr>\<rparr>"
  have sizes: "sum_list (map entry_size (map (\<lambda>(i, n). (ln_key n, ln_entry n)) (set_node it ?f xs))) =
      sum_list (map entry_size (map (\<lambda>(i, n). (ln_key n, ln_entry n)) xs))" for it xs
    by (induction xs) (auto simp: set_node_def entry_size_def)
  have keys: "map fst (map (\<lambda>(i, n). (ln_key n, ln_entry n)) (set_node it ?f xs)) =
      map fst (map (\<lambda>(i, n). (ln_key n, ln_entry n)) xs)" for it xs
    by (induction xs) (auto simp: set_node_def)
  have nodes: "list_all (\<lambda>(i, n). i < m \<and> 1 \<le> be_byte_size (ln_entry n)) (set_node it ?f xs) =
      list_all (\<lambda>(i, n). i < m \<and> 1 \<le> be_byte_size (ln_entry n)) xs" for it m xs
    by (induction xs) (auto simp: set_node_def split: if_splits)
  show "bc_max_bytes (snd (bc_get k now s)) = bc_max_bytes s"
    "bc_total_bytes (snd (bc_get k now s)) = bc_total_bytes s"
    by (auto simp: bc_get_def Let_def split: option.split)
  show "map fst (bc_entries (snd (bc_get k now s))) = map fst (bc_entries s)"
    by (auto simp: keys bc_get_def bc_entries_def Let_def simp del: map_map split: option.split)
  show ok: "bc_ok (snd (bc_get k now s))"
    using assms index_set [OF index, of ?f]
    by (auto simp: sizes nodes bc_get_def bc_ok_def bc_entries_def Let_def simp del: map_map split: option.split)
  show "bc_content (snd (bc_get k now s)) = bc_content s"
  proof
    fix k'
    have "map_of (bc_lru_map (snd (bc_get k now s))) k' = map_of (bc_lru_map s) k'"
      by (auto simp: bc_get_def Let_def split: option.split)
    moreover have "map_option (\<lambda>n. be_batch (ln_entry n)) (map_of (bc_lru_list (snd (bc_get k now s))) i) =
        map_option (\<lambda>n. be_batch (ln_entry n)) (map_of (bc_lru_list s) i)" for i
      by (auto simp: bc_get_def Let_def map_of_set_node option.map_comp comp_def split: option.split)
    ultimately show "bc_content (snd (bc_get k now s)) k' = bc_content s k'"
      by (cases "map_of (bc_lru_map s) k'")
        (simp_all add: bc_content_def entries_lookup [OF ok] entries_lookup [OF assms] option.map_comp comp_def)
  qed
  show "fst (bc_get k now s) = bc_content s k"
    by (auto simp: bc_content_def entries_lookup [OF assms] bc_get_def Let_def map_of_set_node option.map_comp comp_def
        split: option.split)
qed

lemma erase_ok:
  assumes "bc_ok s"
  shows "bc_ok (snd (bc_erase k s))" "bc_entries (snd (bc_erase k s)) = filter (\<lambda>x. fst x \<noteq> k) (bc_entries s)"
    "bc_max_bytes (snd (bc_erase k s)) = bc_max_bytes s"
proof -
  note index = bc_okD(1) [OF assms]
  show "bc_max_bytes (snd (bc_erase k s)) = bc_max_bytes s"
    by (auto simp: bc_erase_def Let_def split: option.split)
  have "bc_ok (snd (bc_erase k s)) \<and> bc_entries (snd (bc_erase k s)) = filter (\<lambda>x. fst x \<noteq> k) (bc_entries s)"
  proof (cases "map_of (bc_lru_map s) k")
    case None
    then show ?thesis using assms index_absent [OF index None] entries_filter [of "\<lambda>k'. k' \<noteq> k" "bc_lru_list s"]
      by (simp add: bc_erase_def bc_entries_def)
  next
    case (Some it)
    obtain n where n: "map_of (bc_lru_list s) it = Some n" "ln_key n = k" using index Some by (rule index_lookup)
    have e: "map (\<lambda>(i, n). (ln_key n, ln_entry n)) (erase_node it (bc_lru_list s)) = filter (\<lambda>x. fst x \<noteq> k) (bc_entries s)"
      by (simp add: index_erase_filter [OF index Some] entries_filter [of "\<lambda>k'. k' \<noteq> k"] bc_entries_def)
    have "sum_list (map entry_size (bc_entries s)) = be_byte_size (ln_entry n) +
        sum_list (map entry_size (filter (\<lambda>x. fst x \<noteq> k) (bc_entries s)))"
      using sum_without [OF entries_distinct [OF assms], of k "ln_entry n" entry_size] n Some
      by (simp add: entries_lookup [OF assms] entry_size_def)
    moreover have "index_ok ln_key ((map_of (bc_lru_map s))(k := None)) (erase_node it (bc_lru_list s))"
      by (rule index_erase [OF index Some])
    moreover have "list_all (\<lambda>(i, n). i < bc_next s \<and> 1 \<le> be_byte_size (ln_entry n)) (erase_node it (bc_lru_list s))"
      using bc_okD(2,3) [OF assms] by (auto simp: list_all_iff set_erase_node)
    ultimately show ?thesis using e n Some bc_okD(4,5) [OF assms]
      by (simp add: bc_erase_def bc_ok_def Let_def bc_entries_def delete_conv' del: map_map)
  qed
  then show "bc_ok (snd (bc_erase k s))" "bc_entries (snd (bc_erase k s)) = filter (\<lambda>x. fst x \<noteq> k) (bc_entries s)"
    by simp_all
qed

lemma clear_ok:
  assumes "bc_ok s"
  shows "bc_ok (bc_clear s)" "bc_entries (bc_clear s) = []" "bc_max_bytes (bc_clear s) = bc_max_bytes s"
  using assms by (simp_all add: bc_clear_def bc_ok_def bc_entries_def index_nil Let_def upd_stats_def)

lemma resize_ok:
  assumes "bc_ok s"
  shows "bc_ok (bc_resize m s)" "bc_max_bytes (bc_resize m s) = max m 0" "\<exists>n. bc_entries (bc_resize m s) = take n (bc_entries s)"
    "0 < m \<Longrightarrow> bc_total_bytes (bc_resize m s) \<le> m"
proof -
  let ?s = "s\<lparr>bc_max_bytes := max m 0\<rparr>"
  have ok: "bc_ok ?s" and e: "bc_entries ?s = bc_entries s" using assms by (simp_all add: bc_ok_def bc_entries_def)
  note ev = evict_lru_ok [OF ok, of "eviction_target (max m 0)"]
  show "bc_ok (bc_resize m s)" "bc_max_bytes (bc_resize m s) = max m 0"
    using ok ev clear_ok [OF ok] by (auto simp: bc_resize_def Let_def)
  show "\<exists>n. bc_entries (bc_resize m s) = take n (bc_entries s)"
    using keep_prefix [of entry_size _ "bc_entries s"] ev(3) clear_ok(2) [OF ok] e
    by (auto simp: bc_resize_def Let_def intro: exI [of _ 0] exI [of _ "length (bc_entries s)"])
  show "bc_total_bytes (bc_resize m s) \<le> m" if "0 < m"
    using that eviction_target_bounds [of m] bc_okD(4) [OF ev(1)] ev(3) keep_sum [of "eviction_target m" entry_size]
    by (fastforce simp: bc_resize_def Let_def intro: order_trans)
qed

lemma invalidate_loop_ok:
  "bc_ok s \<Longrightarrow> set ns \<subseteq> set (bc_lru_list s) \<Longrightarrow> distinct (map fst ns) \<Longrightarrow>
   bc_ok (snd (invalidate_loop P ns removed s)) \<and>
   bc_entries (snd (invalidate_loop P ns removed s)) =
     filter (\<lambda>x. \<not> (P (fst x) \<and> fst x \<in> ln_key ` snd ` set ns)) (bc_entries s) \<and>
   bc_max_bytes (snd (invalidate_loop P ns removed s)) = bc_max_bytes s \<and>
   fst (invalidate_loop P ns removed s) = removed + int (length (filter (\<lambda>(i, n). P (ln_key n)) ns))"
proof (induction P ns removed s rule: invalidate_loop.induct)
  case (2 P it n ns removed s)
  show ?case
  proof (cases "P (ln_key n)")
    case False
    then have "P k \<and> k \<in> ln_key ` snd ` set ((it, n) # ns) \<longleftrightarrow> P k \<and> k \<in> ln_key ` snd ` set ns" for k by auto
    then show ?thesis using 2 False by simp
  next
    case True
    let ?k = "ln_key n" and ?e = "snd (bc_erase (ln_key n) s)"
    have it: "map_of (bc_lru_map s) ?k = Some it" using index_key [OF bc_okD(1) [OF 2(3)], of it n] 2(4) by simp
    have n: "map_of (bc_lru_list s) it = Some n"
      using 2(4) index_distinct(1) [OF bc_okD(1) [OF 2(3)]] by simp
    let ?s = "s\<lparr>bc_total_bytes := bc_total_bytes s - be_byte_size (ln_entry n), bc_lru_map := AList.delete ?k (bc_lru_map s),
        bc_lru_list := erase_node it (bc_lru_list s)\<rparr>"
    have e: "?e = upd_stats (\<lambda>t. t\<lparr>bs_invalidations := bs_invalidations t + 1\<rparr>) ?s"
      using it n by (simp add: bc_erase_def Let_def upd_stats_def)
    have ok: "bc_ok ?s" "bc_entries ?s = filter (\<lambda>x. fst x \<noteq> ?k) (bc_entries s)"
      using erase_ok [OF 2(3), of ?k] unfolding e by simp_all
    have "set ns \<subseteq> set (bc_lru_list ?s)" "distinct (map fst ns)"
      using 2(4,5) by (auto simp: set_erase_node image_iff)
    note IH = 2(1) [OF True ok(1) this]
    have "filter (\<lambda>x. \<not> (P (fst x) \<and> fst x \<in> ln_key ` snd ` set ns)) (bc_entries ?s) =
        filter (\<lambda>x. \<not> (P (fst x) \<and> fst x \<in> ln_key ` snd ` set ((it, n) # ns))) (bc_entries s)"
      unfolding ok(2) filter_filter using True by (auto intro!: filter_cong)
    then show ?thesis using IH True by simp
  qed
qed simp

lemma invalidate_ok:
  assumes "bc_ok s" "invalidate_loop P (bc_lru_list s) 0 s = (removed, s')"
  shows "bc_ok s'" "bc_entries s' = filter (\<lambda>x. \<not> P (fst x)) (bc_entries s)" "bc_max_bytes s' = bc_max_bytes s"
    "removed = int (length (filter (\<lambda>x. P (fst x)) (bc_entries s)))"
proof -
  note l = invalidate_loop_ok [OF assms(1) subset_refl index_distinct(1) [OF bc_okD(1) [OF assms(1)]], of P 0, unfolded assms(2)]
  have "filter (\<lambda>x. \<not> (P (fst x) \<and> fst x \<in> ln_key ` snd ` set (bc_lru_list s))) (bc_entries s) =
      filter (\<lambda>x. \<not> P (fst x)) (bc_entries s)"
    by (rule filter_cong) (auto simp: bc_entries_def image_iff)
  moreover have "length (filter (\<lambda>(i, n). P (ln_key n)) (bc_lru_list s)) = length (filter (\<lambda>x. P (fst x)) (bc_entries s))"
    unfolding bc_entries_def by (simp flip: entries_filter)
  ultimately show "bc_ok s'" "bc_entries s' = filter (\<lambda>x. \<not> P (fst x)) (bc_entries s)" "bc_max_bytes s' = bc_max_bytes s"
    "removed = int (length (filter (\<lambda>x. P (fst x)) (bc_entries s)))" using l by simp_all
qed

section \<open>Runs\<close>

datatype bc_op =
    BGet BatchCacheKey timestamp_ms
  | BPut BatchCacheKey RecordBatch timestamp_ms
  | BErase BatchCacheKey
  | BClear
  | BResize int
  | BInvalidatePartition int int
  | BInvalidateTopic int
  | BInvalidateRange int int log_offset log_offset
  | BStats bool
  | BResetStats

fun bc_exec :: "bc_op \<Rightarrow> BatchCache \<Rightarrow> BatchCache" where
  "bc_exec (BGet k now) s = snd (bc_get k now s)"
| "bc_exec (BPut k b ts) s = bc_put k b ts s"
| "bc_exec (BErase k) s = snd (bc_erase k s)"
| "bc_exec BClear s = bc_clear s"
| "bc_exec (BResize m) s = bc_resize m s"
| "bc_exec (BInvalidatePartition t p) s = snd (invalidate_partition t p s)"
| "bc_exec (BInvalidateTopic t) s = snd (invalidate_topic t s)"
| "bc_exec (BInvalidateRange t p a b) s = snd (invalidate_offset_range t p a b s)"
| "bc_exec (BStats keep) s = snd (bc_stats_snapshot keep s)"
| "bc_exec BResetStats s = bc_reset_stats s"

abbreviation bc_run :: "bc_op list \<Rightarrow> BatchCache \<Rightarrow> BatchCache" where
  "bc_run ops s \<equiv> fold bc_exec ops s"

text \<open>What an operation does to the store the cache stands for.\<close>

fun bc_effect :: "bc_op \<Rightarrow> (BatchCacheKey \<rightharpoonup> RecordBatch) \<Rightarrow> (BatchCacheKey \<rightharpoonup> RecordBatch)" where
  "bc_effect (BPut k b ts) m = m(k \<mapsto> b)"
| "bc_effect (BErase k) m = m(k := None)"
| "bc_effect BClear m = Map.empty"
| "bc_effect (BResize n) m = (if n \<le> 0 then Map.empty else m)"
| "bc_effect (BInvalidatePartition t p) m = drop_keys (\<lambda>k. bk_topic_id k = t \<and> bk_partition_id k = p) m"
| "bc_effect (BInvalidateTopic t) m = drop_keys (\<lambda>k. bk_topic_id k = t) m"
| "bc_effect (BInvalidateRange t p a b) m =
     drop_keys (\<lambda>k. bk_topic_id k = t \<and> bk_partition_id k = p \<and> a \<le> bk_base_offset k \<and> bk_base_offset k < b) m"
| "bc_effect _ m = m"

definition bc_inv :: "BatchCache \<Rightarrow> bool" where
  "bc_inv s \<longleftrightarrow> bc_ok s \<and> (0 < bc_max_bytes s \<longrightarrow> bc_total_bytes s \<le> bc_max_bytes s)"

text \<open>Each operation is described by what remains of the entries.\<close>

lemma inv_filter:
  assumes "bc_inv s" "bc_ok s'" "bc_entries s' = filter P (bc_entries s)" "bc_max_bytes s' = bc_max_bytes s"
  shows "bc_inv s'"
  using assms sum_filter_le [of "bc_entries s" entry_size P] entry_positive [of s] bc_okD(4) [of s] bc_okD(4) [of s']
  by (fastforce simp: bc_inv_def)

lemma content_filter:
  "bc_entries s' = filter (\<lambda>x. \<not> P (fst x)) (bc_entries s) \<Longrightarrow> bc_content s' = drop_keys P (bc_content s)"
  by (rule ext) (simp add: bc_content_def map_of_filter_keys [of "\<lambda>k. \<not> P k"] drop_keys_def)

lemma content_cong: "bc_entries s' = bc_entries s \<Longrightarrow> bc_content s' = bc_content s"
  by (simp add: bc_content_def fun_eq_iff)

lemma content_le: "map_of (bc_entries s') \<subseteq>\<^sub>m m \<Longrightarrow> bc_content s' \<subseteq>\<^sub>m (\<lambda>k. map_option be_batch (m k))"
  by (auto simp: map_le_def bc_content_def dom_def)

lemma put_spec_prefix: "\<exists>n. put_spec limit k e l = take n ((k, e) # filter (\<lambda>x. fst x \<noteq> k) l)"
  using keep_prefix [of entry_size "eviction_target limit" "(k, e) # filter (\<lambda>x. fst x \<noteq> k) l"]
  by (auto simp: put_spec_def Let_def intro: exI [of _ "Suc (length l)"])

lemma put_content:
  assumes "bc_ok s"
  shows "bc_content (bc_put k b ts s) \<subseteq>\<^sub>m (bc_content s)(k \<mapsto> b)"
proof -
  obtain n where "bc_entries (bc_put k b ts s) = take n ((k, put_entry k b ts s) # filter (\<lambda>x. fst x \<noteq> k) (bc_entries s))"
    using put_ok(3) [OF assms] put_spec_prefix by metis
  then have "map_of (bc_entries (bc_put k b ts s)) \<subseteq>\<^sub>m map_of ((k, put_entry k b ts s) # filter (\<lambda>x. fst x \<noteq> k) (bc_entries s))"
    by (simp only: map_of_take)
  moreover have "(\<lambda>k'. map_option be_batch (map_of ((k, put_entry k b ts s) # filter (\<lambda>x. fst x \<noteq> k) (bc_entries s)) k')) =
      (bc_content s)(k \<mapsto> b)"
    by (auto simp: fun_eq_iff bc_content_def put_entry_def map_of_filter_keys [of "\<lambda>k'. k' \<noteq> k"])
  ultimately show ?thesis using content_le by metis
qed

lemma put_spec_fits: "0 < limit \<Longrightarrow> sum_list (map entry_size (put_spec limit k e l)) \<le> limit"
proof -
  assume limit: "0 < limit"
  define m where "m = (k, e) # filter (\<lambda>x. fst x \<noteq> k) l"
  have "sum_list (map entry_size (keep_within entry_size (eviction_target limit) m)) \<le> limit"
    using keep_sum [of "eviction_target limit" entry_size m] eviction_target_bounds [of limit] limit by linarith
  then show ?thesis using limit by (simp add: put_spec_def Let_def flip: m_def)
qed

lemma put_inv: "bc_inv s \<Longrightarrow> bc_inv (bc_put k b ts s)"
proof -
  assume inv: "bc_inv s"
  then have ok: "bc_ok s" by (simp add: bc_inv_def)
  note put = put_ok [OF ok, of k b ts]
  have "0 < bc_max_bytes s \<Longrightarrow> sum_list (map entry_size (bc_entries (bc_put k b ts s))) \<le> bc_max_bytes s"
    unfolding put(3) by (rule put_spec_fits)
  then show ?thesis using put bc_okD(4) [OF put(1)] by (simp add: bc_inv_def)
qed

lemma resize_inv: "bc_inv s \<Longrightarrow> bc_inv (bc_resize m s)"
  using resize_ok [of s m] by (auto simp: bc_inv_def)

lemma resize_content: "bc_ok s \<Longrightarrow> bc_content (bc_resize m s) \<subseteq>\<^sub>m bc_effect (BResize m) (bc_content s)"
proof -
  assume ok: "bc_ok s"
  obtain n where "bc_entries (bc_resize m s) = take n (bc_entries s)" using resize_ok(3) [OF ok] by blast
  then have "bc_content (bc_resize m s) \<subseteq>\<^sub>m (\<lambda>k. map_option be_batch (map_of (bc_entries s) k))"
    by (intro content_le) (simp add: map_of_take)
  moreover have "m \<le> 0 \<Longrightarrow> bc_entries (bc_resize m s) = []" using clear_ok(2) ok
    by (auto simp: bc_resize_def Let_def bc_clear_def bc_entries_def upd_stats_def)
  ultimately show ?thesis by (auto simp: bc_content_def [abs_def] comp_def)
qed

lemma invalidation_inv:
  assumes "bc_inv s" "invalidate_loop P (bc_lru_list s) 0 s = (removed, s')"
  shows "bc_inv s' \<and> bc_content s' = drop_keys P (bc_content s)"
proof -
  have "bc_ok s" using assms(1) by (simp add: bc_inv_def)
  note l = invalidate_ok [OF this assms(2)]
  show ?thesis using inv_filter [OF assms(1) l(1,2,3)] content_filter [OF l(2)] by simp
qed

lemma upd_stats_inv [simp]: "bc_inv (upd_stats f s) = bc_inv s" "bc_content (upd_stats f s) = bc_content s"
  by (simp_all add: bc_inv_def bc_content_def fun_eq_iff)

lemma stats_inv: "bc_inv (s\<lparr>bc_stats := t\<rparr>) = bc_inv s" "bc_content (s\<lparr>bc_stats := t\<rparr>) = bc_content s"
  using upd_stats_inv [of "\<lambda>_. t" s] by (simp_all add: upd_stats_def)

lemma exec_inv:
  assumes "bc_inv s"
  shows "bc_inv (bc_exec op s) \<and> bc_content (bc_exec op s) \<subseteq>\<^sub>m bc_effect op (bc_content s)"
proof -
  have ok: "bc_ok s" using assms by (simp add: bc_inv_def)
  show ?thesis
  proof (cases op)
    case (BGet k now)
    then show ?thesis using assms get_ok [OF ok] by (simp add: bc_inv_def)
  next
    case (BPut k b ts)
    then show ?thesis using put_inv [OF assms] put_content [OF ok] by simp
  next
    case (BErase k)
    have "bc_content (snd (bc_erase k s)) = drop_keys (\<lambda>k'. k' = k) (bc_content s)"
      using erase_ok(2) [OF ok] by (intro content_filter) simp
    then show ?thesis using BErase inv_filter [OF assms erase_ok [OF ok]] by (auto simp: drop_keys_def [abs_def] map_le_def)
  next
    case BClear
    then show ?thesis using clear_ok [OF ok] bc_okD(4) [OF clear_ok(1) [OF ok]] by (auto simp: bc_inv_def bc_content_def map_le_def)
  next
    case (BResize m)
    then show ?thesis using resize_inv [OF assms] resize_content [OF ok] by simp
  qed (use assms invalidation_inv [OF assms] in \<open>auto simp: invalidate_partition_def invalidate_topic_def
      invalidate_offset_range_def bc_stats_snapshot_def bc_reset_stats_def stats_inv Let_def split: prod.splits\<close>)
qed

lemma effect_mono: "m \<subseteq>\<^sub>m m' \<Longrightarrow> bc_effect op m \<subseteq>\<^sub>m bc_effect op m'"
  by (cases op) (auto simp: map_le_def drop_keys_def)

interpretation batch_cache: coherent_cache bc_exec bc_inv bc_content bc_effect
  by unfold_locales (simp_all add: exec_inv effect_mono)

lemma bc_inv_new: "bc_inv (new_batch_cache m)"
  using bc_ok_new [of m] by (auto simp: bc_inv_def new_batch_cache_def max_def)

lemma run_inv: "bc_inv (bc_run ops (new_batch_cache m))"
  by (rule batch_cache.run_ok [OF bc_inv_new])

section \<open>Properties\<close>

text \<open>
  In every run of the cache the hash map and the list agree (a key is in the map if and only if
  the list has an entry for it, and the list has at most one), the byte count is the sum of
  the sizes of the entries, and a limited cache is never above its limit after an operation.
\<close>

theorem batch_cache_consistent:
  "let s = bc_run ops (new_batch_cache m)
   in (\<forall>k. bc_contains k s \<longleftrightarrow> k \<in> fst ` set (bc_entries s)) \<and> distinct (map fst (bc_entries s)) \<and>
      bc_total_bytes s = (\<Sum>(k, e) \<leftarrow> bc_entries s. be_byte_size e) \<and>
      (bc_max_bytes s = 0 \<or> bc_total_bytes s \<le> bc_max_bytes s)"
proof -
  let ?s = "bc_run ops (new_batch_cache m)"
  have inv: "bc_inv ?s" by (rule run_inv)
  then have ok: "bc_ok ?s" by (simp add: bc_inv_def)
  have "bc_contains k ?s \<longleftrightarrow> k \<in> fst ` set (bc_entries ?s)" for k
  proof -
    have "\<exists>v. map_of (bc_lru_list ?s) it = Some v" if "map_of (bc_lru_map ?s) k = Some it" for it
      using bc_okD(1) [OF ok] that by (rule index_lookup) blast
    then have "bc_contains k ?s \<longleftrightarrow> map_of (bc_entries ?s) k \<noteq> None"
      unfolding entries_lookup [OF ok] bc_contains_def by (cases "map_of (bc_lru_map ?s) k") auto
    then show ?thesis by (simp add: map_of_eq_None_iff)
  qed
  moreover have "bc_total_bytes ?s = (\<Sum>(k, e) \<leftarrow> bc_entries ?s. be_byte_size e)"
    using bc_okD(4) [OF ok] by (simp add: entry_size_def [abs_def] case_prod_unfold)
  ultimately show ?thesis unfolding Let_def using entries_distinct [OF ok] bc_okD(5) [OF ok] inv by (auto simp: bc_inv_def)
qed

text \<open>
  C30: an insertion implements the abstract cache: the entry comes first and replaces an older one for
  its key, and if the limit is exceeded, exactly the most recently inserted entries stay whose
  sizes add up to at most 85 percent of the limit.
\<close>

theorem put_keeps_latest:
  "let s = bc_run ops (new_batch_cache m)
   in bc_entries (bc_put k b ts s) = put_spec (bc_max_bytes s) k (put_entry k b ts s) (bc_entries s)"
  unfolding Let_def using put_ok(3) run_inv by (simp add: bc_inv_def)

text \<open>
  C34: a hit is the batch last stored. Whatever \<^verbatim>\<open>get\<close> returns after a run is the batch of the latest
  \<^verbatim>\<open>put\<close> for that key, and no erasure, clearing or invalidation since covers it.
\<close>

theorem batch_hit_is_latest:
  assumes "fst (bc_get k now (bc_run ops (new_batch_cache m))) = Some b"
  shows "fold bc_effect ops Map.empty k = Some b"
proof (rule batch_cache.hit_is_stored [OF bc_inv_new])
  show "bc_content (new_batch_cache m) = Map.empty"
    by (simp add: bc_content_def fun_eq_iff new_batch_cache_def bc_entries_def)
  show "bc_content (bc_run ops (new_batch_cache m)) k = Some b"
    using assms run_inv get_ok(2) by (simp add: bc_inv_def)
qed

text \<open>A batch of a hundred bytes, for concrete runs.\<close>

definition demo_batch :: "int \<Rightarrow> nat \<Rightarrow> RecordBatch" where
  "demo_batch off n = default_RecordBatch\<lparr>rb_base_offset := off, rb_record_count := 1,
     rb_records := [\<lparr>rec_key = [], rec_value = replicate n 0, rec_headers = [], rec_timestamp = 0, rec_offset = off,
        rec_partition_id = 0, rec_sequence = 0, rec_producer_id = - 1\<rparr>]\<rparr>"

abbreviation demo_key :: "int \<Rightarrow> BatchCacheKey" where
  "demo_key off \<equiv> \<lparr>bk_topic_id = 1, bk_partition_id = 0, bk_base_offset = off\<rparr>"

theorem batch_hit_is_latest_witness:
  "fst (bc_get (demo_key 0) 9 (bc_run [BPut (demo_key 0) (demo_batch 0 100) 1, BPut (demo_key 0) (demo_batch 0 50) 2,
      BInvalidateRange 1 0 5 9] (new_batch_cache 1000))) = Some (demo_batch 0 50) \<and>
   fold bc_effect [BPut (demo_key 0) (demo_batch 0 100) 1, BPut (demo_key 0) (demo_batch 0 50) 2,
      BInvalidateRange 1 0 5 9] Map.empty (demo_key 0) = Some (demo_batch 0 50)"
proof -
  have h: "fst (bc_get (demo_key 0) 9 (bc_run [BPut (demo_key 0) (demo_batch 0 100) 1, BPut (demo_key 0) (demo_batch 0 50) 2,
      BInvalidateRange 1 0 5 9] (new_batch_cache 1000))) = Some (demo_batch 0 50)" by code_simp
  show ?thesis using batch_hit_is_latest [OF h] h by simp
qed

text \<open>
  Reading an entry does not protect it. \<^verbatim>\<open>get\<close> is documented to promote a hit to the most recently
  used place; it leaves the order as it is, and so an entry read just before an insertion
  is evicted before one that was never read.
\<close>

theorem get_does_not_promote:
  "map fst (bc_entries (snd (bc_get k now (bc_run ops (new_batch_cache m))))) = map fst (bc_entries (bc_run ops (new_batch_cache m)))"
  using get_ok(6) run_inv by (simp add: bc_inv_def)

lemma read_entry_evicted:
  "let s = bc_run [BPut (demo_key 0) (demo_batch 0 40) 1, BPut (demo_key 1) (demo_batch 1 40) 2,
       BGet (demo_key 0) 3, BPut (demo_key 2) (demo_batch 2 40) 4] (new_batch_cache 100)
   in \<not> bc_contains (demo_key 0) s \<and> bc_contains (demo_key 1) s"
  by code_simp

text \<open>
  A large batch empties the cache. When a batch of more than 85 percent of the limit makes the cache
  exceed it, the eviction that follows removes every entry, the new one included.
\<close>

theorem large_put_empties:
  assumes "bc_ok s" "0 < bc_max_bytes s" "eviction_target (bc_max_bytes s) < compute_batch_size b"
    "bc_max_bytes s < sum_list (map entry_size ((k, put_entry k b ts s) # filter (\<lambda>x. fst x \<noteq> k) (bc_entries s)))"
  shows "bc_entries (bc_put k b ts s) = []"
proof -
  have "\<not> entry_size (k, put_entry k b ts s) \<le> eviction_target (bc_max_bytes s)"
    using assms(3) by (simp add: entry_size_def put_entry_def)
  then show ?thesis using put_ok(3) [OF assms(1), of k b ts] assms(2,4) unfolding put_spec_def Let_def by simp
qed

theorem large_put_empties_witness:
  "bc_entries (bc_put (demo_key 1) (demo_batch 1 90) 2 (bc_run [BPut (demo_key 0) (demo_batch 0 40) 1] (new_batch_cache 100))) = []"
proof (rule large_put_empties)
  show "bc_ok (bc_run [BPut (demo_key 0) (demo_batch 0 40) 1] (new_batch_cache 100))"
    using run_inv unfolding bc_inv_def by blast
qed code_simp+

end
