(* ===== verification/Page_Cache.thy ===== *)
theory Page_Cache
  imports Lru_List Binary64
begin

text \<open>
  \<^verbatim>\<open>PageCache\<close> of \<^verbatim>\<open>src/torrent/storage/page_cache.cpp\<close>: disk pages by file and offset. The list holds the
  keys, the most recently used first, and the hash map the pages with iterators into the list. Every
  method is one transition on the state; a clock reading is an argument. The shared buffer of a page
  is its bytes; \<open>None\<close> is a null pointer. Sizes and counters are integers. The ratio of \<^verbatim>\<open>hit_ratio\<close>
  is left out.
\<close>

section \<open>State\<close>

record PageKey =
  pk_file_path :: string
  pk_offset :: int

record CachedPage =
  cp_data :: bytes
  cp_size :: int
  cp_loaded_at :: timestamp_ms
  cp_last_access :: timestamp_ms
  cp_hit_count :: int
  cp_from_direct_io :: bool

definition new_page :: "bytes \<Rightarrow> int \<Rightarrow> bool \<Rightarrow> timestamp_ms \<Rightarrow> CachedPage" where
  "new_page d sz direct_io now =
     \<lparr>cp_data = d, cp_size = sz, cp_loaded_at = now, cp_last_access = now, cp_hit_count = 0, cp_from_direct_io = direct_io\<rparr>"

definition touch :: "timestamp_ms \<Rightarrow> CachedPage \<Rightarrow> CachedPage" where
  "touch now p = p\<lparr>cp_last_access := now, cp_hit_count := cp_hit_count p + 1\<rparr>"

record PageCacheConfig =
  pf_max_pages :: int
  pf_max_memory_bytes :: int
  pf_page_size :: int
  pf_min_direct_io_size :: int
  pf_cache_direct_io :: bool
  pf_batch_eviction :: bool
  pf_eviction_interval_ms :: timestamp_ms

definition default_PageCacheConfig :: PageCacheConfig where
  "default_PageCacheConfig =
     \<lparr>pf_max_pages = 16384, pf_max_memory_bytes = 1073741824, pf_page_size = 65536, pf_min_direct_io_size = 262144,
      pf_cache_direct_io = False, pf_batch_eviction = True, pf_eviction_interval_ms = 5000\<rparr>"

text \<open>\<open>pc_next\<close> is the identity of the next list node.\<close>

record PageCache =
  pc_config :: PageCacheConfig
  pc_lru_list :: "PageKey node_list"
  pc_cache :: "(PageKey \<times> CachedPage \<times> nat) list"
  pc_next :: nat
  pc_page_count :: int
  pc_memory_used :: int
  pc_hits :: int
  pc_misses :: int
  pc_evictions :: int
  pc_last_eviction_time :: timestamp_ms

definition new_page_cache :: "PageCacheConfig \<Rightarrow> PageCache" where
  "new_page_cache config =
     \<lparr>pc_config = config, pc_lru_list = [], pc_cache = [], pc_next = 0, pc_page_count = 0, pc_memory_used = 0,
      pc_hits = 0, pc_misses = 0, pc_evictions = 0, pc_last_eviction_time = 0\<rparr>"

definition kMissThresholdForSweep :: int where "kMissThresholdForSweep = 1024"

section \<open>Eviction\<close>

definition should_cache :: "PageCacheConfig \<Rightarrow> int \<Rightarrow> bool \<Rightarrow> bool" where
  "should_cache c sz direct_io \<longleftrightarrow>
     (if sz = 0 then False
      else if direct_io \<and> \<not> pf_cache_direct_io c then False
      else if \<not> pf_cache_direct_io c \<and> sz \<ge> pf_min_direct_io_size c then False
      else True)"

definition effective_page_size :: "PageCacheConfig \<Rightarrow> int \<Rightarrow> int" where
  "effective_page_size c requested_size = (if requested_size = 0 then pf_page_size c else max requested_size (pf_page_size c))"

definition promote_locked :: "PageKey \<Rightarrow> PageCache \<Rightarrow> PageCache" where
  "promote_locked key s =
     (case map_of (pc_cache s) key of
        None \<Rightarrow> s
      | Some (page, it) \<Rightarrow> s\<lparr>pc_lru_list := splice_front it (pc_lru_list s)\<rparr>)"

definition evict_one_locked :: "PageCache \<Rightarrow> bool \<times> PageCache" where
  "evict_one_locked s =
     (if pc_lru_list s = [] then (False, s)
      else let key = snd (last (pc_lru_list s))
      in case map_of (pc_cache s) key of
        None \<Rightarrow> (False, s\<lparr>pc_lru_list := butlast (pc_lru_list s)\<rparr>)
      | Some (page, it) \<Rightarrow>
          let freed_bytes = cp_size page
          in (True, s\<lparr>pc_cache := AList.delete key (pc_cache s), pc_lru_list := butlast (pc_lru_list s),
                pc_page_count := pc_page_count s - 1, pc_memory_used := pc_memory_used s - freed_bytes,
                pc_evictions := pc_evictions s + 1\<rparr>))"

text \<open>The loop over at most \<open>n\<close> pages, with the check that may end it early.\<close>

fun page_evict_loop :: "int \<Rightarrow> int \<Rightarrow> nat \<Rightarrow> int \<Rightarrow> PageCache \<Rightarrow> int \<times> PageCache" where
  "page_evict_loop target_pages target_bytes 0 evicted s = (evicted, s)"
| "page_evict_loop target_pages target_bytes (Suc n) evicted s =
     (if pc_lru_list s = [] then (evicted, s)
      else if target_bytes > 0 \<and> pc_memory_used s \<le> target_bytes \<and> int (length (pc_lru_list s)) \<le> target_pages
      then (evicted, s)
      else let (ok, s) = evict_one_locked s
           in page_evict_loop target_pages target_bytes n (if ok then evicted + 1 else evicted) s)"

text \<open>\<^verbatim>\<open>std::ceil(static_cast<double>(n) * 0.10)\<close>; the double nearest 0.10 is \<open>3602879701896397 / 2 ^ 55\<close>.\<close>

definition evict_batch :: "int \<Rightarrow> int" where
  "evict_batch n = scale_ceil 3602879701896397 55 n"

definition evict_locked :: "int \<Rightarrow> int \<Rightarrow> timestamp_ms \<Rightarrow> PageCache \<Rightarrow> int \<times> PageCache" where
  "evict_locked target_pages target_bytes now s =
     (let current_pages = int (length (pc_lru_list s)); current_bytes = pc_memory_used s
      in if current_pages \<le> target_pages \<and> (target_bytes = 0 \<or> current_bytes \<le> target_bytes) then (0, s)
      else let pages_to_evict = (if current_pages > target_pages then current_pages - target_pages else 0);
               pages_to_evict = (if pf_batch_eviction (pc_config s) \<and> pages_to_evict > 0
                                 then max pages_to_evict (evict_batch current_pages) else pages_to_evict);
               pages_to_evict = min pages_to_evict current_pages;
               (evicted, s) = page_evict_loop target_pages target_bytes (nat pages_to_evict) 0 s
           in (evicted, if evicted > 0 then s\<lparr>pc_last_eviction_time := now\<rparr> else s))"

section \<open>Operations\<close>

definition get_page :: "string \<Rightarrow> int \<Rightarrow> int \<Rightarrow> timestamp_ms \<Rightarrow> PageCache \<Rightarrow> CachedPage option \<times> PageCache" where
  "get_page file_path offset sz now s =
     (if \<not> pf_cache_direct_io (pc_config s) \<and> sz \<ge> pf_min_direct_io_size (pc_config s)
      then (None, s\<lparr>pc_misses := pc_misses s + 1\<rparr>)
      else let key = \<lparr>pk_file_path = file_path, pk_offset = offset\<rparr>
      in case map_of (pc_cache s) key of
        None \<Rightarrow>
          let s = s\<lparr>pc_misses := pc_misses s + 1\<rparr>;
              s = (if pc_misses s > 0 \<and> pc_misses s mod kMissThresholdForSweep = 0
                   then snd (evict_locked (pf_max_pages (pc_config s)) (pf_max_memory_bytes (pc_config s)) now s) else s)
          in (None, s)
      | Some (page, it) \<Rightarrow>
          let page = touch now page;
              s = s\<lparr>pc_cache := AList.update key (page, it) (pc_cache s)\<rparr>;
              s = s\<lparr>pc_lru_list := splice_front it (pc_lru_list s)\<rparr>
          in (Some page, s\<lparr>pc_hits := pc_hits s + 1\<rparr>))"

definition put_page :: "string \<Rightarrow> int \<Rightarrow> bytes option \<Rightarrow> int \<Rightarrow> bool \<Rightarrow> timestamp_ms \<Rightarrow> PageCache \<Rightarrow> PageCache" where
  "put_page file_path offset data sz direct_io now s =
     (case data of
        None \<Rightarrow> s
      | Some d \<Rightarrow>
          if sz = 0 then s
          else if \<not> should_cache (pc_config s) sz direct_io then s
          else let key = \<lparr>pk_file_path = file_path, pk_offset = offset\<rparr>; page = new_page d sz direct_io now
          in case map_of (pc_cache s) key of
            Some (old, it) \<Rightarrow>
              let s = s\<lparr>pc_cache := AList.update key (page, it) (pc_cache s)\<rparr>;
                  s = s\<lparr>pc_memory_used := pc_memory_used s - cp_size old + sz\<rparr>
              in s\<lparr>pc_lru_list := splice_front it (pc_lru_list s)\<rparr>
          | None \<Rightarrow>
              let c = pc_config s; current_pages = pc_page_count s; current_memory = pc_memory_used s;
                  s = (if current_pages \<ge> pf_max_pages c \<or>
                          pf_max_memory_bytes c > 0 \<and> current_memory + sz > pf_max_memory_bytes c
                       then let target_pages = (if pf_max_pages c > 0 then pf_max_pages c - 1 else 0);
                                target_bytes = (if pf_max_memory_bytes c > sz then pf_max_memory_bytes c - sz else 0)
                            in snd (evict_locked target_pages target_bytes now s)
                       else s)
              in s\<lparr>pc_lru_list := (pc_next s, key) # pc_lru_list s,
                   pc_cache := AList.update key (page, pc_next s) (pc_cache s), pc_next := pc_next s + 1,
                   pc_page_count := pc_page_count s + 1, pc_memory_used := pc_memory_used s + sz\<rparr>)"

fun page_invalidate_loop :: "string \<Rightarrow> PageKey node_list \<Rightarrow> int \<Rightarrow> int \<Rightarrow> PageCache \<Rightarrow> int \<times> int \<times> PageCache" where
  "page_invalidate_loop file_path [] removed bytes_freed s = (removed, bytes_freed, s)"
| "page_invalidate_loop file_path ((it, key) # ns) removed bytes_freed s =
     (if pk_file_path key = file_path
      then let (bytes_freed, s) = (case map_of (pc_cache s) key of
                 None \<Rightarrow> (bytes_freed, s)
               | Some (page, j) \<Rightarrow> (bytes_freed + cp_size page, s\<lparr>pc_cache := AList.delete key (pc_cache s)\<rparr>))
           in page_invalidate_loop file_path ns (removed + 1) bytes_freed (s\<lparr>pc_lru_list := erase_node it (pc_lru_list s)\<rparr>)
      else page_invalidate_loop file_path ns removed bytes_freed s)"

definition pc_invalidate :: "string \<Rightarrow> PageCache \<Rightarrow> int \<times> PageCache" where
  "pc_invalidate file_path s =
     (let (removed, bytes_freed, s) = page_invalidate_loop file_path (pc_lru_list s) 0 0 s
      in (removed, if removed > 0
            then s\<lparr>pc_page_count := pc_page_count s - removed, pc_memory_used := pc_memory_used s - bytes_freed\<rparr> else s))"

definition pc_evict :: "timestamp_ms \<Rightarrow> PageCache \<Rightarrow> int \<times> PageCache" where
  "pc_evict now s = evict_locked (pf_max_pages (pc_config s)) (pf_max_memory_bytes (pc_config s)) now s"

definition pc_reset_stats :: "PageCache \<Rightarrow> PageCache" where
  "pc_reset_stats s = s\<lparr>pc_hits := 0, pc_misses := 0, pc_evictions := 0\<rparr>"

definition pc_clear :: "PageCache \<Rightarrow> int \<times> PageCache" where
  "pc_clear s = (int (length (pc_lru_list s)), s\<lparr>pc_lru_list := [], pc_cache := [], pc_page_count := 0, pc_memory_used := 0\<rparr>)"

definition set_max_pages :: "int \<Rightarrow> timestamp_ms \<Rightarrow> PageCache \<Rightarrow> PageCache" where
  "set_max_pages max_pages now s =
     (let s = s\<lparr>pc_config := (pc_config s)\<lparr>pf_max_pages := max_pages\<rparr>\<rparr>
      in snd (evict_locked max_pages (pf_max_memory_bytes (pc_config s)) now s))"

definition set_max_memory_bytes :: "int \<Rightarrow> timestamp_ms \<Rightarrow> PageCache \<Rightarrow> PageCache" where
  "set_max_memory_bytes max_bytes now s =
     (let s = s\<lparr>pc_config := (pc_config s)\<lparr>pf_max_memory_bytes := max_bytes\<rparr>\<rparr>
      in snd (evict_locked (pf_max_pages (pc_config s)) max_bytes now s))"

definition recompute_memory_locked :: "PageCache \<Rightarrow> PageCache" where
  "recompute_memory_locked s = s\<lparr>pc_memory_used := fold (\<lambda>(key, page, it) total. total + cp_size page) (pc_cache s) 0\<rparr>"

fun shrink_loop :: "nat \<Rightarrow> int \<Rightarrow> PageCache \<Rightarrow> int \<times> PageCache" where
  "shrink_loop 0 evicted s = (evicted, s)"
| "shrink_loop (Suc n) evicted s =
     (if pc_lru_list s = [] then (evicted, s)
      else let (ok, s) = evict_one_locked s in shrink_loop n (if ok then evicted + 1 else evicted) s)"

definition shrink :: "nat \<Rightarrow> PageCache \<Rightarrow> int \<times> PageCache" where
  "shrink count s = shrink_loop count 0 s"

definition is_healthy :: "PageCache \<Rightarrow> bool" where
  "is_healthy s \<longleftrightarrow>
     (if pc_page_count s > pf_max_pages (pc_config s) * 2 then False
      else if pf_max_memory_bytes (pc_config s) > 0 \<and> pc_memory_used s > pf_max_memory_bytes (pc_config s) * 2 then False
      else True)"

definition file_hit_count :: "string \<Rightarrow> PageCache \<Rightarrow> int" where
  "file_hit_count file_path s =
     fold (\<lambda>(key, page, it) total. if pk_file_path key = file_path then total + cp_hit_count page else total) (pc_cache s) 0"

text \<open>
  \<^verbatim>\<open>preload_range\<close>: \<open>pread attempt offset n\<close> is the outcome of a read, tried again once when interrupted.
  A page size of 0 divides by zero in the source: \<open>None\<close>. Each page is stored at the next reading of the clock.
\<close>

datatype pread_result = Read bytes | Interrupted | ReadError

definition read_chunk :: "(nat \<Rightarrow> int \<Rightarrow> int \<Rightarrow> pread_result) \<Rightarrow> int \<Rightarrow> int \<Rightarrow> bytes option" where
  "read_chunk pread off n =
     (case pread 0 off n of
        Read d \<Rightarrow> Some d
      | ReadError \<Rightarrow> None
      | Interrupted \<Rightarrow> (case pread 1 off n of Read d \<Rightarrow> Some d | _ \<Rightarrow> None))"

function preload_loop ::
  "(nat \<Rightarrow> int \<Rightarrow> int \<Rightarrow> pread_result) \<Rightarrow> (nat \<Rightarrow> timestamp_ms) \<Rightarrow> string \<Rightarrow> int \<Rightarrow> int \<Rightarrow> bool \<Rightarrow> nat \<Rightarrow> PageCache
    \<Rightarrow> nat \<times> PageCache" where
  "preload_loop pread clk file_path off remaining direct_io loaded s =
     (let page_size = pf_page_size (pc_config s)
      in if remaining \<le> 0 \<or> page_size \<le> 0 then (loaded, s)
      else let chunk = min remaining page_size; next_off = off + page_size; rest = remaining - min remaining page_size
      in if \<not> should_cache (pc_config s) chunk (direct_io \<and> chunk \<ge> pf_min_direct_io_size (pc_config s))
         then preload_loop pread clk file_path next_off rest direct_io loaded s
         else case read_chunk pread off chunk of
           None \<Rightarrow> preload_loop pread clk file_path next_off rest direct_io loaded s
         | Some d \<Rightarrow> preload_loop pread clk file_path next_off rest direct_io (loaded + 1)
                       (put_page file_path off (Some d) (int (length d)) direct_io (clk loaded) s))"
  by pat_completeness auto
termination by (relation "measure (\<lambda>(p, c, f, off, remaining, d, l, s). nat remaining)") auto

declare preload_loop.simps [simp del]

definition preload_range ::
  "(nat \<Rightarrow> int \<Rightarrow> int \<Rightarrow> pread_result) \<Rightarrow> (nat \<Rightarrow> timestamp_ms) \<Rightarrow> string \<Rightarrow> int \<Rightarrow> int \<Rightarrow> int \<Rightarrow> bool \<Rightarrow> PageCache
    \<Rightarrow> (nat \<times> PageCache) option" where
  "preload_range pread clk file_path fd offset sz direct_io s =
     (if fd < 0 \<or> sz = 0 then Some (0, s)
      else if pf_page_size (pc_config s) = 0 then None
      else let aligned = offset div pf_page_size (pc_config s) * pf_page_size (pc_config s)
           in Some (preload_loop pread clk file_path aligned (sz + (offset - aligned)) direct_io 0 s))"

end
