(* ===== verification/Page_Cache_Properties.thy ===== *)
theory Page_Cache_Properties
  imports Page_Cache
begin

text \<open>
  What the page cache promises: map and list agree and the counters are exact in every run, pages leave in
  the order of their last use, a hit is the page last stored, and the number of pages is bounded; the limit on
  memory is not enforced. The abstract cache is the list of pages, the most recently used first.
\<close>

section \<open>Abstraction and invariant\<close>

definition pc_pages :: "PageCache \<Rightarrow> (PageKey \<times> CachedPage) list" where
  "pc_pages s = map (\<lambda>(i, k). (k, fst (the (map_of (pc_cache s) k)))) (pc_lru_list s)"

abbreviation page_index :: "PageCache \<Rightarrow> PageKey \<rightharpoonup> nat" where
  "page_index s \<equiv> \<lambda>k. map_option snd (map_of (pc_cache s) k)"

definition page_bytes :: "PageKey \<times> CachedPage \<Rightarrow> int" where
  "page_bytes x = cp_size (snd x)"

definition pc_ok :: "PageCache \<Rightarrow> bool" where
  "pc_ok s \<longleftrightarrow> index_ok (\<lambda>k. k) (page_index s) (pc_lru_list s) \<and>
     list_all (\<lambda>(i, k). i < pc_next s) (pc_lru_list s) \<and>
     pc_page_count s = int (length (pc_lru_list s)) \<and> pc_memory_used s = sum_list (map page_bytes (pc_pages s))"

lemma pc_okD:
  assumes "pc_ok s"
  shows "index_ok (\<lambda>k. k) (page_index s) (pc_lru_list s)" "(i, k) \<in> set (pc_lru_list s) \<Longrightarrow> i < pc_next s"
    "pc_page_count s = int (length (pc_lru_list s))" "pc_memory_used s = sum_list (map page_bytes (pc_pages s))"
  using assms by (auto simp: pc_ok_def list_all_iff)

lemma pages_keys: "map fst (pc_pages s) = map snd (pc_lru_list s)" "length (pc_pages s) = length (pc_lru_list s)"
  by (simp_all add: pc_pages_def comp_def case_prod_unfold)

lemma pages_distinct: "pc_ok s \<Longrightarrow> distinct (map fst (pc_pages s))"
  using index_distinct(2) [OF pc_okD(1)] by (simp add: pages_keys case_prod_unfold)

lemma pages_lookup:
  assumes "pc_ok s"
  shows "map_of (pc_pages s) k = map_option fst (map_of (pc_cache s) k)"
proof (cases "map_of (pc_cache s) k")
  case None
  then have "k \<notin> fst ` set (pc_pages s)" using index_key [OF pc_okD(1) [OF assms]] by (force simp: pc_pages_def)
  then have "map_of (pc_pages s) k = None" by (simp add: map_of_eq_None_iff)
  then show ?thesis using None by simp
next
  case (Some x)
  then have "page_index s k = Some (snd x)" by simp
  then obtain v where "(snd x, v) \<in> set (pc_lru_list s)" "v = k" by (rule index_lookup [OF pc_okD(1) [OF assms]])
  then have "(k, fst x) \<in> set (pc_pages s)" using Some by (force simp: pc_pages_def)
  then show ?thesis using Some pages_distinct [OF assms] by simp
qed

lemma pc_ok_new: "pc_ok (new_page_cache c)"
  using index_nil by (simp add: pc_ok_def new_page_cache_def pc_pages_def)

lemma pages_cong: "pc_cache s' = pc_cache s \<Longrightarrow> pc_lru_list s' = pc_lru_list s \<Longrightarrow> pc_pages s' = pc_pages s"
  by (simp add: pc_pages_def)

lemma pc_ok_counters [simp]:
  "pc_ok (s\<lparr>pc_misses := a\<rparr>) = pc_ok s" "pc_ok (s\<lparr>pc_hits := a\<rparr>) = pc_ok s" "pc_ok (s\<lparr>pc_evictions := a\<rparr>) = pc_ok s"
  "pc_ok (s\<lparr>pc_last_eviction_time := a\<rparr>) = pc_ok s" "pc_ok (s\<lparr>pc_config := c\<rparr>) = pc_ok s"
  "pc_pages (s\<lparr>pc_misses := a\<rparr>) = pc_pages s" "pc_pages (s\<lparr>pc_hits := a\<rparr>) = pc_pages s"
  "pc_pages (s\<lparr>pc_evictions := a\<rparr>) = pc_pages s" "pc_pages (s\<lparr>pc_last_eviction_time := a\<rparr>) = pc_pages s"
  "pc_pages (s\<lparr>pc_config := c\<rparr>) = pc_pages s"
  by (simp_all add: pc_ok_def pc_pages_def)

section \<open>Eviction\<close>

text \<open>Removing the last node of the list.\<close>

lemma evict_one_ok:
  assumes "pc_ok s" "pc_lru_list s \<noteq> []"
  shows "fst (evict_one_locked s)" "pc_ok (snd (evict_one_locked s))"
    "pc_pages (snd (evict_one_locked s)) = butlast (pc_pages s)" "pc_config (snd (evict_one_locked s)) = pc_config s"
proof -
  obtain xs it k where l: "pc_lru_list s = xs @ [(it, k)]" using assms(2) by (metis rev_exhaust surj_pair)
  note index = pc_okD(1) [OF assms(1)]
  have "page_index s k = Some it" using index_key [OF index, of it k] l by simp
  then obtain page where p: "map_of (pc_cache s) k = Some (page, it)" by auto
  let ?s = "snd (evict_one_locked s)"
  have s': "?s = s\<lparr>pc_cache := AList.delete k (pc_cache s), pc_lru_list := xs, pc_page_count := pc_page_count s - 1,
      pc_memory_used := pc_memory_used s - cp_size page, pc_evictions := pc_evictions s + 1\<rparr>"
    using l p by (simp add: evict_one_locked_def Let_def)
  show "fst (evict_one_locked s)" using l p by (simp add: evict_one_locked_def Let_def)
  show "pc_config ?s = pc_config s" by (simp add: s')
  have fresh: "(i, k) \<notin> set xs" for i using index_distinct(2) [OF index] by (auto simp: l)
  have pages: "pc_pages s = pc_pages ?s @ [(k, page)]"
    using fresh p by (auto simp: pc_pages_def s' l delete_conv' intro!: map_cong)
  then show "pc_pages ?s = butlast (pc_pages s)" by simp
  have "(\<lambda>k'. map_option snd (map_of (AList.delete k (pc_cache s)) k')) = (page_index s)(k := None)"
    by (auto simp: delete_conv')
  then have "index_ok (\<lambda>k. k) (page_index ?s) xs" using index_pop [OF index [unfolded l]] by (simp add: s')
  then show "pc_ok ?s" using assms(1) pages by (auto simp: pc_ok_def s' l page_bytes_def)
qed

lemma page_evict_loop_ok:
  "pc_ok s \<Longrightarrow> page_evict_loop tp tb n e s = (e', s') \<Longrightarrow>
   pc_ok s' \<and> pc_config s' = pc_config s \<and>
   (\<exists>j. j \<le> n \<and> e' = e + int j \<and> j \<le> length (pc_pages s) \<and> pc_pages s' = take (length (pc_pages s) - j) (pc_pages s) \<and>
      (j = n \<or> j = length (pc_pages s) \<or> int (length (pc_pages s) - j) \<le> tp))"
proof (induction n arbitrary: e s)
  case (Suc n)
  show ?case
  proof (cases "pc_lru_list s = [] \<or> tb > 0 \<and> pc_memory_used s \<le> tb \<and> int (length (pc_lru_list s)) \<le> tp")
    case True
    then have "e' = e" "s' = s" using Suc.prems(2) by (auto split: if_splits)
    then show ?thesis using Suc.prems(1) True by (auto simp: pages_keys intro!: exI [of _ 0])
  next
    case False
    obtain t where one: "evict_one_locked s = (True, t)"
      using evict_one_ok(1) [OF Suc.prems(1)] False by (metis (full_types) prod.collapse)
    have ok: "pc_ok t" "pc_pages t = butlast (pc_pages s)" "pc_config t = pc_config s"
      using evict_one_ok(2-4) [OF Suc.prems(1)] False one by auto
    have l: "page_evict_loop tp tb n (e + 1) t = (e', s')" using Suc.prems(2) False one by (auto split: if_splits)
    obtain j where j: "pc_ok s'" "pc_config s' = pc_config t" "j \<le> n" "e' = e + 1 + int j" "j \<le> length (pc_pages t)"
        "pc_pages s' = take (length (pc_pages t) - j) (pc_pages t)"
        "j = n \<or> j = length (pc_pages t) \<or> int (length (pc_pages t) - j) \<le> tp"
      using Suc.IH [OF ok(1) l] by blast
    have "0 < length (pc_pages s)" using False pages_keys(2) [of s] by auto
    then have lt: "j < length (pc_pages s)" using j(5) unfolding ok(2) length_butlast by linarith
    then show ?thesis using j
      unfolding ok(2,3) by (intro conjI exI [of _ "Suc j"]) (auto simp: take_butlast Suc_le_eq)
  qed
qed auto

lemma evict_locked_ok:
  assumes "pc_ok s" "evict_locked tp tb now s = (e, s')"
  shows "pc_ok s'" "pc_config s' = pc_config s" "\<exists>n. pc_pages s' = take n (pc_pages s)"
    "int (length (pc_pages s')) \<le> max tp 0" "int (length (pc_pages s)) \<le> tp \<Longrightarrow> e = 0 \<and> s' = s"
proof -
  let ?len = "int (length (pc_lru_list s))"
  let ?n = "if ?len > tp then ?len - tp else 0"
  let ?m = "min (if pf_batch_eviction (pc_config s) \<and> ?n > 0 then max ?n (evict_batch ?len) else ?n) ?len"
  show "int (length (pc_pages s)) \<le> tp \<Longrightarrow> e = 0 \<and> s' = s"
    using assms(2) by (auto simp: evict_locked_def Let_def pages_keys split: if_splits)
  have "pc_ok s' \<and> pc_config s' = pc_config s \<and> (\<exists>n. pc_pages s' = take n (pc_pages s)) \<and> int (length (pc_pages s')) \<le> max tp 0"
  proof (cases "?len \<le> tp \<and> (tb = 0 \<or> pc_memory_used s \<le> tb)")
    case True
    then have "s' = s" using assms(2) by (simp add: evict_locked_def Let_def)
    then show ?thesis using assms(1) True by (auto simp: pages_keys intro: exI [of _ "length (pc_pages s)"])
  next
    case False
    obtain e1 s1 where l: "page_evict_loop tp tb (nat ?m) 0 s = (e1, s1)" by fastforce
    then have s': "s' = (if e1 > 0 then s1\<lparr>pc_last_eviction_time := now\<rparr> else s1)"
      using assms(2) False by (auto simp: evict_locked_def Let_def split: if_splits)
    obtain m where m: "m = ?m" by blast
    have m1: "0 \<le> m" "?len - max tp 0 \<le> m" unfolding m by auto
    obtain j where j: "pc_ok s1" "pc_config s1 = pc_config s" "j \<le> length (pc_pages s)"
        "pc_pages s1 = take (length (pc_pages s) - j) (pc_pages s)"
        "j = nat m \<or> j = length (pc_pages s) \<or> int (length (pc_pages s) - j) \<le> tp"
      using page_evict_loop_ok [OF assms(1) l] unfolding m by blast
    have "int (length (pc_pages s) - j) \<le> max tp 0" using j(5) m1 by (auto simp: pages_keys)
    then show ?thesis using j unfolding s' by auto
  qed
  then show "pc_ok s'" "pc_config s' = pc_config s" "\<exists>n. pc_pages s' = take n (pc_pages s)"
    "int (length (pc_pages s')) \<le> max tp 0" by simp_all
qed

section \<open>Operations on the abstract cache\<close>

text \<open>The node of a key moves to the front and its page is replaced.\<close>

lemma front_pages:
  fixes page :: CachedPage
  assumes "pc_ok s" "map_of (pc_cache s) k = Some (old, it)"
  defines "s' \<equiv> s\<lparr>pc_cache := AList.update k (page, it) (pc_cache s), pc_lru_list := splice_front it (pc_lru_list s)\<rparr>"
  shows "pc_pages s' = (k, page) # filter (\<lambda>x. fst x \<noteq> k) (pc_pages s)"
    "index_ok (\<lambda>k. k) (page_index s') (pc_lru_list s')" "list_all (\<lambda>(i, k). i < pc_next s') (pc_lru_list s')"
    "length (pc_lru_list s') = length (pc_lru_list s)"
    "sum_list (map page_bytes (pc_pages s')) = sum_list (map page_bytes (pc_pages s)) - cp_size old + cp_size page"
proof -
  note index = pc_okD(1) [OF assms(1)]
  have k: "page_index s k = Some it" using assms(2) by simp
  obtain v where v: "map_of (pc_lru_list s) it = Some v" "v = k" by (rule index_lookup [OF index k])
  have l: "splice_front it (pc_lru_list s) = (it, k) # filter (\<lambda>(i, v). v \<noteq> k) (pc_lru_list s)"
    using v index_erase_filter [OF index k] by (simp add: splice_front_def)
  have "map (\<lambda>(i, k'). (k', fst (the (map_of (AList.update k (page, it) (pc_cache s)) k')))) (filter (\<lambda>(i, v). v \<noteq> k) xs) =
      filter (\<lambda>x. fst x \<noteq> k) (map (\<lambda>(i, k). (k, fst (the (map_of (pc_cache s) k)))) xs)" for xs
    by (induction xs) (auto simp: update_conv')
  then show pages: "pc_pages s' = (k, page) # filter (\<lambda>x. fst x \<noteq> k) (pc_pages s)"
    by (simp add: s'_def pc_pages_def l update_conv')
  have "(\<lambda>k'. map_option snd (map_of (AList.update k (page, it) (pc_cache s)) k')) = page_index s"
    using assms(2) by (auto simp: update_conv' fun_eq_iff)
  then show "index_ok (\<lambda>k. k) (page_index s') (pc_lru_list s')" using index_splice [OF index k] by (simp add: s'_def)
  have old: "map_of (pc_pages s) k = Some old" using pages_lookup [OF assms(1)] assms(2) by simp
  note split = sum_without [OF pages_distinct [OF assms(1)] old]
  show "length (pc_lru_list s') = length (pc_lru_list s)"
    using split [of "\<lambda>_. 1"] pages pages_keys(2) [of s] pages_keys(2) [of s'] by (simp add: sum_list_triv)
  show "sum_list (map page_bytes (pc_pages s')) = sum_list (map page_bytes (pc_pages s)) - cp_size old + cp_size page"
    using split [of page_bytes] by (simp add: pages page_bytes_def)
  show "list_all (\<lambda>(i, k). i < pc_next s') (pc_lru_list s')"
    using pc_okD(2) [OF assms(1)] v map_of_SomeD [OF v(1)] by (auto simp: s'_def l list_all_iff)
qed

text \<open>A new node in front.\<close>

lemma push_pages:
  fixes page :: CachedPage
  assumes "pc_ok s" "map_of (pc_cache s) k = None"
  defines "s' \<equiv> s\<lparr>pc_lru_list := (pc_next s, k) # pc_lru_list s, pc_cache := AList.update k (page, pc_next s) (pc_cache s),
      pc_next := pc_next s + 1, pc_page_count := pc_page_count s + 1, pc_memory_used := pc_memory_used s + cp_size page\<rparr>"
  shows "pc_ok s'" "pc_pages s' = (k, page) # pc_pages s"
proof -
  note index = pc_okD(1) [OF assms(1)]
  have absent: "(i, v) \<in> set (pc_lru_list s) \<Longrightarrow> v \<noteq> k" for i v using index_key [OF index] assms(2) by force
  then show pages: "pc_pages s' = (k, page) # pc_pages s" by (auto simp: s'_def pc_pages_def update_conv')
  have "pc_next s \<notin> fst ` set (pc_lru_list s)" using pc_okD(2) [OF assms(1)] by force
  then have "index_ok (\<lambda>k. k) ((page_index s)(k \<mapsto> pc_next s)) ((pc_next s, k) # pc_lru_list s)"
    using index_push [OF index, of k "pc_next s"] assms(2) by simp
  moreover have "(\<lambda>k'. map_option snd (map_of (AList.update k (page, pc_next s) (pc_cache s)) k')) = (page_index s)(k \<mapsto> pc_next s)"
    by (auto simp: update_conv' fun_eq_iff)
  ultimately show "pc_ok s'" using assms(1) pages by (auto simp: pc_ok_def s'_def page_bytes_def list_all_iff less_SucI)
qed

lemma get_page_ok:
  assumes "pc_ok s"
  shows "pc_ok (snd (get_page f off sz now s))" "pc_config (snd (get_page f off sz now s)) = pc_config s"
    "get_page f off sz now s = (Some page, s') \<Longrightarrow> \<exists>old. map_of (pc_cache s) \<lparr>pk_file_path = f, pk_offset = off\<rparr> = Some old \<and>
       page = touch now (fst old) \<and>
       pc_pages s' = (\<lparr>pk_file_path = f, pk_offset = off\<rparr>, page) # filter (\<lambda>x. fst x \<noteq> \<lparr>pk_file_path = f, pk_offset = off\<rparr>) (pc_pages s)"
    "get_page f off sz now s = (None, s') \<Longrightarrow> \<exists>n. pc_pages s' = take n (pc_pages s)"
    "int (length (pc_pages (snd (get_page f off sz now s)))) \<le> int (length (pc_pages s))"
proof -
  let ?k = "\<lparr>pk_file_path = f, pk_offset = off\<rparr>" and ?g = "get_page f off sz now s"
  let ?direct = "\<not> pf_cache_direct_io (pc_config s) \<and> sz \<ge> pf_min_direct_io_size (pc_config s)"
  have all: "pc_ok (snd ?g) \<and> pc_config (snd ?g) = pc_config s \<and> length (pc_pages (snd ?g)) \<le> length (pc_pages s) \<and>
      (case fst ?g of
         None \<Rightarrow> \<exists>n. pc_pages (snd ?g) = take n (pc_pages s)
       | Some page \<Rightarrow> \<exists>old. map_of (pc_cache s) ?k = Some old \<and> page = touch now (fst old) \<and>
           pc_pages (snd ?g) = (?k, page) # filter (\<lambda>x. fst x \<noteq> ?k) (pc_pages s))"
  proof (cases "?direct \<or> map_of (pc_cache s) ?k = None")
    case True
    let ?s = "s\<lparr>pc_misses := pc_misses s + 1\<rparr>"
    obtain e s1 where ev: "evict_locked (pf_max_pages (pc_config s)) (pf_max_memory_bytes (pc_config s)) now ?s = (e, s1)" by fastforce
    have ok: "pc_ok ?s" using assms by simp
    have "?g = (None, ?s) \<or> ?g = (None, s1)" using True ev by (auto simp: get_page_def Let_def)
    moreover have "pc_pages s = take (length (pc_pages s)) (pc_pages s)" by simp
    moreover obtain n where "pc_pages s1 = take n (pc_pages s)" using evict_locked_ok(3) [OF ok ev] by auto
    ultimately show ?thesis using ok evict_locked_ok(1,2) [OF ok ev] by (elim disjE) (auto intro: exI [of _ "length (pc_pages s)"])
  next
    case False
    then obtain old it where o: "map_of (pc_cache s) ?k = Some (old, it)" by auto
    note fp = front_pages [OF assms o, of "touch now old"]
    let ?s = "s\<lparr>pc_cache := AList.update ?k (touch now old, it) (pc_cache s), pc_lru_list := splice_front it (pc_lru_list s)\<rparr>"
    have g: "?g = (Some (touch now old), ?s\<lparr>pc_hits := pc_hits s + 1\<rparr>)" using False o by (auto simp: get_page_def Let_def)
    have "cp_size (touch now old) = cp_size old" by (simp add: touch_def)
    then have "pc_ok ?s" using fp(2-5) assms by (simp add: pc_ok_def)
    moreover have "length (pc_pages ?s) = length (pc_pages s)" using fp(4) by (simp add: pages_keys)
    ultimately show ?thesis unfolding g using fp(1) o by simp
  qed
  then show "pc_ok (snd ?g)" "pc_config (snd ?g) = pc_config s" "int (length (pc_pages (snd ?g))) \<le> int (length (pc_pages s))"
    by simp_all
  show "get_page f off sz now s = (None, s') \<Longrightarrow> \<exists>n. pc_pages s' = take n (pc_pages s)" using all by simp
  show "get_page f off sz now s = (Some page, s') \<Longrightarrow> \<exists>old. map_of (pc_cache s) ?k = Some old \<and> page = touch now (fst old) \<and>
       pc_pages s' = (?k, page) # filter (\<lambda>x. fst x \<noteq> ?k) (pc_pages s)" using all by simp
qed

lemma put_page_ok:
  assumes "pc_ok s"
  shows "pc_ok (put_page f off data sz dio now s)" "pc_config (put_page f off data sz dio now s) = pc_config s"
    "(data = None \<or> \<not> should_cache (pc_config s) sz dio) \<and> put_page f off data sz dio now s = s \<or>
     (\<exists>d n. data = Some d \<and> should_cache (pc_config s) sz dio \<and>
        pc_pages (put_page f off data sz dio now s) =
          (\<lparr>pk_file_path = f, pk_offset = off\<rparr>, new_page d sz dio now) #
          filter (\<lambda>x. fst x \<noteq> \<lparr>pk_file_path = f, pk_offset = off\<rparr>) (take n (pc_pages s)))"
    "int (length (pc_pages (put_page f off data sz dio now s))) \<le> max (int (length (pc_pages s))) (max 1 (pf_max_pages (pc_config s)))"
proof -
  let ?k = "\<lparr>pk_file_path = f, pk_offset = off\<rparr>" and ?p = "put_page f off data sz dio now s"
  have all: "pc_ok ?p \<and> pc_config ?p = pc_config s \<and>
      ((data = None \<or> \<not> should_cache (pc_config s) sz dio) \<and> ?p = s \<or> (\<exists>d n. data = Some d \<and> should_cache (pc_config s) sz dio \<and>
        pc_pages ?p = (?k, new_page d sz dio now) # filter (\<lambda>x. fst x \<noteq> ?k) (take n (pc_pages s)))) \<and>
      int (length (pc_pages ?p)) \<le> max (int (length (pc_pages s))) (max 1 (pf_max_pages (pc_config s)))"
  proof (cases "data = None \<or> \<not> should_cache (pc_config s) sz dio \<or> sz = 0")
    case True
    then have "?p = s" by (auto simp: put_page_def split: option.split)
    moreover have "data = None \<or> \<not> should_cache (pc_config s) sz dio" using True by (auto simp: should_cache_def)
    ultimately show ?thesis using assms by simp
  next
    case False
    then obtain d where d: "data = Some d" by auto
    let ?page = "new_page d sz dio now"
    have size: "cp_size ?page = sz" by (simp add: new_page_def)
    show ?thesis
    proof (cases "map_of (pc_cache s) ?k")
      case (Some x)
      then obtain old it where o: "map_of (pc_cache s) ?k = Some (old, it)" by (cases x) auto
      note fp = front_pages [OF assms o, of ?page]
      let ?s = "s\<lparr>pc_cache := AList.update ?k (?page, it) (pc_cache s), pc_lru_list := splice_front it (pc_lru_list s)\<rparr>"
      have p: "?p = ?s\<lparr>pc_memory_used := pc_memory_used s - cp_size old + sz\<rparr>" using False d o by (simp add: put_page_def Let_def)
      then have pp: "pc_pages ?p = pc_pages ?s" by (simp add: pc_pages_def)
      then have "pc_ok ?p" using fp(2-5) assms size by (simp add: p pc_ok_def)
      moreover have "length (pc_pages ?p) = length (pc_pages s)" using fp(4) by (simp add: p pages_keys)
      moreover have "pc_pages ?p = (?k, ?page) # filter (\<lambda>x. fst x \<noteq> ?k) (take (length (pc_pages s)) (pc_pages s))"
        using fp(1) pp by simp
      moreover have "pc_config ?p = pc_config s" by (simp add: p)
      ultimately show ?thesis using False d by (intro conjI disjI2 exI [of _ d] exI [of _ "length (pc_pages s)"]) auto
    next
      case None
      obtain s1 n where s1: "pc_ok s1" "pc_config s1 = pc_config s" "pc_pages s1 = take n (pc_pages s)"
          "int (length (pc_pages s1)) \<le> max 1 (pf_max_pages (pc_config s)) - 1"
          "?p = s1\<lparr>pc_lru_list := (pc_next s1, ?k) # pc_lru_list s1,
             pc_cache := AList.update ?k (?page, pc_next s1) (pc_cache s1), pc_next := pc_next s1 + 1,
             pc_page_count := pc_page_count s1 + 1, pc_memory_used := pc_memory_used s1 + cp_size ?page\<rparr>"
      proof (cases "pc_page_count s \<ge> pf_max_pages (pc_config s) \<or>
          pf_max_memory_bytes (pc_config s) > 0 \<and> pc_memory_used s + sz > pf_max_memory_bytes (pc_config s)")
        case True
        let ?tp = "if pf_max_pages (pc_config s) > 0 then pf_max_pages (pc_config s) - 1 else 0"
        let ?tb = "if pf_max_memory_bytes (pc_config s) > sz then pf_max_memory_bytes (pc_config s) - sz else 0"
        obtain e s1 where ev: "evict_locked ?tp ?tb now s = (e, s1)" by fastforce
        show thesis
          using that evict_locked_ok [OF assms ev] True False d None ev size
          by (fastforce simp: put_page_def Let_def split: if_splits)
      next
        case less: False
        then show thesis
          using that [of s "length (pc_pages s)"] assms False d None size pc_okD(3) [OF assms]
          by (auto simp: put_page_def Let_def pages_keys)
      qed
      have "map_of (pc_pages s) ?k = None" using None pages_lookup [OF assms, of ?k] by simp
      moreover have "set (pc_pages s1) \<subseteq> set (pc_pages s)" using set_take_subset s1(3) by metis
      ultimately have no: "?k \<notin> fst ` set (pc_pages s1)" unfolding map_of_eq_None_iff by blast
      then have "map_of (pc_cache s1) ?k = None"
        using pages_lookup [OF s1(1), of ?k] by (metis map_of_eq_None_iff option.map_disc_iff)
      note push = push_pages [OF s1(1) this, of ?page, folded s1(5)]
      have "filter (\<lambda>x. fst x \<noteq> ?k) (take n (pc_pages s)) = take n (pc_pages s)"
        using no s1(3) by (auto simp: filter_id_conv image_iff)
      then have "pc_pages ?p = (?k, ?page) # filter (\<lambda>x. fst x \<noteq> ?k) (take n (pc_pages s))"
        using push(2) s1(3) by simp
      moreover have "pc_config ?p = pc_config s" using s1(2) unfolding s1(5) by simp
      moreover have "int (length (pc_pages ?p)) \<le> max 1 (pf_max_pages (pc_config s))" using push(2) s1(4) by simp
      ultimately show ?thesis using push(1) False d by auto
    qed
  qed
  then show "pc_ok ?p" "pc_config ?p = pc_config s"
    "(data = None \<or> \<not> should_cache (pc_config s) sz dio) \<and> ?p = s \<or> (\<exists>d n. data = Some d \<and> should_cache (pc_config s) sz dio \<and>
        pc_pages ?p = (?k, new_page d sz dio now) # filter (\<lambda>x. fst x \<noteq> ?k) (take n (pc_pages s)))"
    "int (length (pc_pages ?p)) \<le> max (int (length (pc_pages s))) (max 1 (pf_max_pages (pc_config s)))" by auto
qed

lemma page_invalidate_loop_ok:
  "index_ok (\<lambda>k. k) (page_index s) (pc_lru_list s) \<Longrightarrow> set ns \<subseteq> set (pc_lru_list s) \<Longrightarrow> distinct (map fst ns) \<Longrightarrow>
   page_invalidate_loop f ns removed freed s = (removed', freed', s') \<Longrightarrow>
   index_ok (\<lambda>k. k) (page_index s') (pc_lru_list s') \<and>
   pc_lru_list s' = filter (\<lambda>(i, k). \<not> (pk_file_path k = f \<and> (i, k) \<in> set ns)) (pc_lru_list s) \<and>
   (\<forall>k. map_of (pc_cache s') k = (if pk_file_path k = f \<and> k \<in> snd ` set ns then None else map_of (pc_cache s) k)) \<and>
   s' = s\<lparr>pc_lru_list := pc_lru_list s', pc_cache := pc_cache s'\<rparr> \<and>
   removed' = removed + int (length (filter (\<lambda>(i, k). pk_file_path k = f) ns)) \<and>
   freed' = freed + (\<Sum>(i, k) \<leftarrow> filter (\<lambda>(i, k). pk_file_path k = f) ns. cp_size (fst (the (map_of (pc_cache s) k))))"
proof (induction ns arbitrary: removed freed s)
  case (Cons x ns)
  obtain it k where x: "x = (it, k)" by fastforce
  show ?case
  proof (cases "pk_file_path k = f")
    case False
    have "filter (\<lambda>(i, k). \<not> (pk_file_path k = f \<and> (i, k) \<in> set ns)) (pc_lru_list s) =
        filter (\<lambda>(i, k). \<not> (pk_file_path k = f \<and> (i, k) \<in> set (x # ns))) (pc_lru_list s)"
      using False x by (auto intro!: filter_cong)
    moreover have "page_invalidate_loop f ns removed freed s = (removed', freed', s')" using Cons.prems(4) False x by simp
    ultimately show ?thesis using Cons.IH [of s removed freed] Cons.prems(1-3) False x by auto
  next
    case True
    have k: "page_index s k = Some it" using index_key [OF Cons.prems(1), of it k] Cons.prems(2) x by simp
    then obtain page where p: "map_of (pc_cache s) k = Some (page, it)" by auto
    let ?s = "s\<lparr>pc_cache := AList.delete k (pc_cache s), pc_lru_list := erase_node it (pc_lru_list s)\<rparr>"
    have l: "page_invalidate_loop f ns (removed + 1) (freed + cp_size page) ?s = (removed', freed', s')"
      using Cons.prems(4) True x p by simp
    have "(\<lambda>k'. map_option snd (map_of (AList.delete k (pc_cache s)) k')) = (page_index s)(k := None)"
      by (auto simp: delete_conv' fun_eq_iff)
    then have i: "index_ok (\<lambda>k. k) (page_index ?s) (pc_lru_list ?s)" using index_erase [OF Cons.prems(1) k] by simp
    have sub: "set ns \<subseteq> set (pc_lru_list ?s)" "distinct (map fst ns)"
      using Cons.prems(2,3) x by (auto simp: set_erase_node image_iff)
    have keys: "(j, k') \<in> set ns \<Longrightarrow> k' \<noteq> k" for j k'
      using index_unique [OF Cons.prems(1), of j k' it k] Cons.prems(2,3) x by (force simp: image_iff)
    note IH = Cons.IH [OF i sub l]
    have "filter (\<lambda>(i, k). \<not> (pk_file_path k = f \<and> (i, k) \<in> set ns)) (erase_node it (pc_lru_list s)) =
        filter (\<lambda>(i, k). \<not> (pk_file_path k = f \<and> (i, k) \<in> set (x # ns))) (pc_lru_list s)"
      unfolding index_erase_filter [OF Cons.prems(1) k] filter_filter
      using True x index_unique [OF Cons.prems(1), of _ k it k] Cons.prems(2) by (intro filter_cong) auto
    moreover have "(\<Sum>(i, k') \<leftarrow> filter (\<lambda>(i, k). pk_file_path k = f) ns. cp_size (fst (the (map_of (AList.delete k (pc_cache s)) k')))) =
        (\<Sum>(i, k) \<leftarrow> filter (\<lambda>(i, k). pk_file_path k = f) ns. cp_size (fst (the (map_of (pc_cache s) k))))"
      using keys by (intro arg_cong [where f = sum_list] map_cong) (auto simp: delete_conv')
    ultimately show ?thesis using IH True x p keys by (auto simp: delete_conv' image_iff)
  qed
qed (auto simp: filter_id_conv split: prod.splits)

lemma invalidate_page_ok:
  assumes "pc_ok s"
  shows "pc_ok (snd (pc_invalidate f s))" "pc_config (snd (pc_invalidate f s)) = pc_config s"
    "pc_pages (snd (pc_invalidate f s)) = filter (\<lambda>x. pk_file_path (fst x) \<noteq> f) (pc_pages s)"
    "fst (pc_invalidate f s) = int (length (filter (\<lambda>x. pk_file_path (fst x) = f) (pc_pages s)))"
proof -
  obtain removed freed s1 where l: "page_invalidate_loop f (pc_lru_list s) 0 0 s = (removed, freed, s1)" by (metis prod_cases3)
  note r = page_invalidate_loop_ok [OF pc_okD(1) [OF assms] subset_refl index_distinct(1) [OF pc_okD(1) [OF assms]] l]
  let ?s = "snd (pc_invalidate f s)"
  have s: "?s = (if removed > 0 then s1\<lparr>pc_page_count := pc_page_count s1 - removed, pc_memory_used := pc_memory_used s1 - freed\<rparr> else s1)"
    by (simp add: pc_invalidate_def l)
  have list: "pc_lru_list s1 = filter (\<lambda>(i, k). pk_file_path k \<noteq> f) (pc_lru_list s)"
    using r by (auto intro!: filter_cong)
  have cache: "pk_file_path k \<noteq> f \<Longrightarrow> map_of (pc_cache s1) k = map_of (pc_cache s) k" for k using r by simp
  have "map (\<lambda>(i, k). (k, fst (the (map_of (pc_cache s1) k)))) (filter (\<lambda>(i, k). pk_file_path k \<noteq> f) xs) =
      filter (\<lambda>x. pk_file_path (fst x) \<noteq> f) (map (\<lambda>(i, k). (k, fst (the (map_of (pc_cache s) k)))) xs)" for xs
    using cache by (induction xs) auto
  then have p1: "pc_pages s1 = filter (\<lambda>x. pk_file_path (fst x) \<noteq> f) (pc_pages s)" by (simp add: pc_pages_def list)
  then show pages: "pc_pages ?s = filter (\<lambda>x. pk_file_path (fst x) \<noteq> f) (pc_pages s)" by (simp add: s pc_pages_def)
  have "map (\<lambda>(i, k). (k, fst (the (map_of (pc_cache s) k)))) (filter (\<lambda>(i, k). pk_file_path k = f) xs) =
      filter (\<lambda>x. pk_file_path (fst x) = f) (map (\<lambda>(i, k). (k, fst (the (map_of (pc_cache s) k)))) xs)" for xs
    by (induction xs) auto
  then have gone: "map (\<lambda>(i, k). (k, fst (the (map_of (pc_cache s) k)))) (filter (\<lambda>(i, k). pk_file_path k = f) (pc_lru_list s)) =
      filter (\<lambda>x. pk_file_path (fst x) = f) (pc_pages s)" by (simp add: pc_pages_def)
  have rem: "removed = int (length (filter (\<lambda>x. pk_file_path (fst x) = f) (pc_pages s)))"
    using r arg_cong [OF gone, of length] by simp
  then show "fst (pc_invalidate f s) = int (length (filter (\<lambda>x. pk_file_path (fst x) = f) (pc_pages s)))"
    by (simp add: pc_invalidate_def l)
  have freed: "freed = sum_list (map page_bytes (filter (\<lambda>x. pk_file_path (fst x) = f) (pc_pages s)))"
    using r unfolding gone [symmetric] by (simp add: page_bytes_def comp_def case_prod_unfold)
  have part: "length (pc_pages s) = length (filter (\<lambda>x. pk_file_path (fst x) = f) (pc_pages s)) + length (pc_pages s1)"
    "sum_list (map page_bytes (pc_pages s)) = freed + sum_list (map page_bytes (pc_pages s1))"
    unfolding p1 freed by (rule sum_length_filter_compl [symmetric], rule sum_filter_compl)
  have e: "s1 = s\<lparr>pc_lru_list := pc_lru_list s1, pc_cache := pc_cache s1\<rparr>" using r by blast
  have fields: "pc_page_count s1 = pc_page_count s" "pc_memory_used s1 = pc_memory_used s" "pc_next s1 = pc_next s" "pc_config s1 = pc_config s"
    using arg_cong [OF e, of pc_page_count] arg_cong [OF e, of pc_memory_used] arg_cong [OF e, of pc_next]
      arg_cong [OF e, of pc_config] by simp_all
  show "pc_config ?s = pc_config s" by (simp add: s fields)
  have idx: "index_ok (\<lambda>k. k) (page_index s1) (pc_lru_list s1)" using r by blast
  let ?t = "s1\<lparr>pc_page_count := pc_page_count s1 - removed, pc_memory_used := pc_memory_used s1 - freed\<rparr>"
  have "pc_pages ?t = pc_pages s1" by (simp add: pc_pages_def)
  moreover have "list_all (\<lambda>(i, k). i < pc_next s) (pc_lru_list s1)" using assms by (auto simp: pc_ok_def list list_all_iff)
  moreover have "pc_page_count s - removed = int (length (pc_lru_list s1))"
    using part(1) rem pc_okD(3) [OF assms] by (simp add: pages_keys(2))
  ultimately have "pc_ok ?t" using idx part(2) pc_okD(4) [OF assms] by (simp add: pc_ok_def fields)
  moreover have "removed \<le> 0 \<Longrightarrow> removed = 0 \<and> freed = 0" using rem freed by simp
  ultimately show "pc_ok ?s" unfolding s by (cases s1) (auto simp: not_less)
qed

lemma shrink_loop_ok:
  "pc_ok s \<Longrightarrow> pc_ok (snd (shrink_loop n e s)) \<and> pc_config (snd (shrink_loop n e s)) = pc_config s \<and>
   pc_pages (snd (shrink_loop n e s)) = take (length (pc_pages s) - n) (pc_pages s) \<and>
   fst (shrink_loop n e s) = e + int (min n (length (pc_pages s)))"
proof (induction n arbitrary: e s)
  case (Suc n)
  show ?case
  proof (cases "pc_lru_list s = []")
    case True
    then show ?thesis using Suc.prems by (simp add: pc_pages_def)
  next
    case False
    obtain t where one: "evict_one_locked s = (True, t)"
      using evict_one_ok(1) [OF Suc.prems False] by (metis (full_types) prod.collapse)
    have t: "pc_ok t" "pc_pages t = butlast (pc_pages s)" "pc_config t = pc_config s"
      using evict_one_ok(2-4) [OF Suc.prems False] one by simp_all
    obtain m where "length (pc_pages s) = Suc m" using False pages_keys(2) [of s] by (cases "pc_pages s") auto
    then show ?thesis using Suc.IH [OF t(1), of "e + 1"] t(2,3) False one by (auto simp: take_butlast min_def)
  qed
qed simp

section \<open>Runs\<close>

datatype pc_op =
    PGet string int int timestamp_ms
  | PPut string int "bytes option" nat bool timestamp_ms
  | PInvalidate string
  | PEvict timestamp_ms
  | PResetStats
  | PClear
  | PSetMaxPages nat timestamp_ms
  | PSetMaxMemory nat timestamp_ms
  | PShrink nat

fun pc_exec :: "pc_op \<Rightarrow> PageCache \<Rightarrow> PageCache" where
  "pc_exec (PGet f off sz now) s = snd (get_page f off sz now s)"
| "pc_exec (PPut f off data sz dio now) s = put_page f off data (int sz) dio now s"
| "pc_exec (PInvalidate f) s = snd (pc_invalidate f s)"
| "pc_exec (PEvict now) s = snd (pc_evict now s)"
| "pc_exec PResetStats s = pc_reset_stats s"
| "pc_exec PClear s = snd (pc_clear s)"
| "pc_exec (PSetMaxPages n now) s = set_max_pages (int n) now s"
| "pc_exec (PSetMaxMemory n now) s = set_max_memory_bytes (int n) now s"
| "pc_exec (PShrink n) s = snd (shrink n s)"

abbreviation pc_run :: "pc_op list \<Rightarrow> PageCache \<Rightarrow> PageCache" where
  "pc_run ops s \<equiv> fold pc_exec ops s"

text \<open>Preloading is a sequence of insertions for its file.\<close>

fun puts_into :: "string \<Rightarrow> pc_op \<Rightarrow> bool" where
  "puts_into f (PPut g off data sz dio now) \<longleftrightarrow> g = f"
| "puts_into f _ \<longleftrightarrow> False"

lemma preload_loop_run:
  "\<exists>ops. list_all (puts_into f) ops \<and> length ops = fst (preload_loop pread clk f off remaining dio loaded s) - loaded \<and>
     loaded \<le> fst (preload_loop pread clk f off remaining dio loaded s) \<and>
     snd (preload_loop pread clk f off remaining dio loaded s) = pc_run ops s"
proof (induction pread clk f off remaining dio loaded s rule: preload_loop.induct)
  case (1 pread clk f off remaining dio loaded s)
  let ?n = "min remaining (pf_page_size (pc_config s))"
  let ?next = "preload_loop pread clk f (off + pf_page_size (pc_config s)) (remaining - ?n) dio"
  show ?case
  proof (cases "remaining \<le> 0 \<or> pf_page_size (pc_config s) \<le> 0")
    case True
    then have "preload_loop pread clk f off remaining dio loaded s = (loaded, s)"
      by (subst preload_loop.simps) (auto simp: Let_def)
    then show ?thesis by (auto intro: exI [of _ "[]"])
  next
    case False
    then have step: "preload_loop pread clk f off remaining dio loaded s =
        (if \<not> should_cache (pc_config s) ?n (dio \<and> ?n \<ge> pf_min_direct_io_size (pc_config s)) then ?next loaded s
         else case read_chunk pread off ?n of
             None \<Rightarrow> ?next loaded s
           | Some d \<Rightarrow> ?next (loaded + 1) (put_page f off (Some d) (int (length d)) dio (clk loaded) s))"
      by (subst preload_loop.simps) (auto simp: Let_def)
    show ?thesis
    proof (cases "should_cache (pc_config s) ?n (dio \<and> ?n \<ge> pf_min_direct_io_size (pc_config s)) \<and> read_chunk pread off ?n \<noteq> None")
      case True
      then obtain d where d: "read_chunk pread off ?n = Some d" by blast
      let ?op = "PPut f off (Some d) (length d) dio (clk loaded)"
      obtain ops where "list_all (puts_into f) ops"
          "length ops = fst (?next (loaded + 1) (pc_exec ?op s)) - (loaded + 1)"
          "loaded + 1 \<le> fst (?next (loaded + 1) (pc_exec ?op s))"
          "snd (?next (loaded + 1) (pc_exec ?op s)) = pc_run ops (pc_exec ?op s)"
        using 1(3) [OF refl False refl refl refl _ d] True by auto
      then show ?thesis using True d step by (intro exI [of _ "?op # ops"]) auto
    next
      case skip: False
      then have "preload_loop pread clk f off remaining dio loaded s = ?next loaded s"
        using step by (auto split: option.split)
      moreover have "\<exists>ops. list_all (puts_into f) ops \<and> length ops = fst (?next loaded s) - loaded \<and>
          loaded \<le> fst (?next loaded s) \<and> snd (?next loaded s) = pc_run ops s"
        using 1(1) [OF refl False refl refl refl] 1(2) [OF refl False refl refl refl] skip by auto
      ultimately show ?thesis by simp
    qed
  qed
qed

section \<open>The invariant of runs\<close>

definition pc_content :: "PageCache \<Rightarrow> PageKey \<rightharpoonup> bytes" where
  "pc_content s k = map_option cp_data (map_of (pc_pages s) k)"

definition same_policy :: "PageCacheConfig \<Rightarrow> PageCacheConfig \<Rightarrow> bool" where
  "same_policy c d \<longleftrightarrow> pf_cache_direct_io d = pf_cache_direct_io c \<and> pf_min_direct_io_size d = pf_min_direct_io_size c"

definition pc_inv :: "PageCacheConfig \<Rightarrow> PageCache \<Rightarrow> bool" where
  "pc_inv c s \<longleftrightarrow> pc_ok s \<and> same_policy c (pc_config s) \<and> pc_page_count s \<le> max 1 (pf_max_pages (pc_config s))"

fun pc_effect :: "PageCacheConfig \<Rightarrow> pc_op \<Rightarrow> (PageKey \<rightharpoonup> bytes) \<Rightarrow> (PageKey \<rightharpoonup> bytes)" where
  "pc_effect c (PPut f off data sz dio now) m =
     (case data of
        Some d \<Rightarrow> if should_cache c (int sz) dio then m(\<lparr>pk_file_path = f, pk_offset = off\<rparr> \<mapsto> d) else m
      | None \<Rightarrow> m)"
| "pc_effect c (PInvalidate f) m = drop_keys (\<lambda>k. pk_file_path k = f) m"
| "pc_effect c PClear m = Map.empty"
| "pc_effect c _ m = m"

lemma policy_should_cache: "same_policy c d \<Longrightarrow> should_cache d sz dio = should_cache c sz dio"
  by (simp add: same_policy_def should_cache_def)

lemma count_length: "pc_ok s \<Longrightarrow> pc_page_count s = int (length (pc_pages s))"
  using pc_okD(3) by (simp add: pages_keys)

lemma page_content_le: "map_of (pc_pages s') \<subseteq>\<^sub>m m \<Longrightarrow> pc_content s' \<subseteq>\<^sub>m (\<lambda>k. map_option cp_data (m k))"
  by (auto simp: map_le_def pc_content_def dom_def)

text \<open>An operation that leaves a prefix of the pages, within the limit.\<close>

lemma prefix_inv:
  assumes "pc_inv c s" "pc_ok s'" "same_policy (pc_config s) (pc_config s')" "\<exists>n. pc_pages s' = take n (pc_pages s)"
    "int (length (pc_pages s')) \<le> max 1 (pf_max_pages (pc_config s'))"
  shows "pc_inv c s' \<and> pc_content s' \<subseteq>\<^sub>m pc_content s"
proof -
  have "map_of (pc_pages s') \<subseteq>\<^sub>m map_of (pc_pages s)" using assms(4) map_of_take by auto
  then have "pc_content s' \<subseteq>\<^sub>m pc_content s" using page_content_le by (fastforce simp: pc_content_def [abs_def])
  then show ?thesis using assms count_length by (simp add: pc_inv_def same_policy_def)
qed

lemma evict_inv:
  assumes "pc_inv c s" "same_policy (pc_config s) (pc_config t)" "pc_ok t" "pc_pages t = pc_pages s"
    "tp \<le> max 1 (pf_max_pages (pc_config t))"
  shows "pc_inv c (snd (evict_locked tp tb now t)) \<and> pc_content (snd (evict_locked tp tb now t)) \<subseteq>\<^sub>m pc_content s"
proof -
  obtain e s' where e: "evict_locked tp tb now t = (e, s')" by fastforce
  note ev = evict_locked_ok [OF assms(3) e]
  show ?thesis unfolding e snd_conv by (rule prefix_inv [OF assms(1) ev(1)]) (use assms ev in \<open>auto simp: same_policy_def\<close>)
qed

lemma get_page_inv:
  assumes "pc_inv c s"
  shows "pc_inv c (snd (get_page f off sz now s)) \<and> pc_content (snd (get_page f off sz now s)) \<subseteq>\<^sub>m pc_content s"
proof -
  have ok: "pc_ok s" using assms by (simp add: pc_inv_def)
  obtain r s' where g: "get_page f off sz now s = (r, s')" by fastforce
  note get = get_page_ok [OF ok, of f off sz now, unfolded g]
  have inv: "pc_inv c s'" using assms get count_length [OF ok] count_length [of s'] by (auto simp: pc_inv_def)
  have "pc_content s' \<subseteq>\<^sub>m pc_content s"
  proof (cases r)
    case None
    then obtain n where "pc_pages s' = take n (pc_pages s)" using get(4) by auto
    then have "map_of (pc_pages s') \<subseteq>\<^sub>m map_of (pc_pages s)" by (simp only: map_of_take)
    from page_content_le [OF this] show ?thesis by (simp add: pc_content_def [abs_def])
  next
    case (Some page)
    let ?k = "\<lparr>pk_file_path = f, pk_offset = off\<rparr>"
    obtain old where o: "map_of (pc_cache s) ?k = Some old" "page = touch now (fst old)"
        "pc_pages s' = (?k, page) # filter (\<lambda>x. fst x \<noteq> ?k) (pc_pages s)"
      using get(3) [of page s'] g Some by auto
    have "pc_content s' = pc_content s"
      using o pages_lookup [OF ok, of ?k]
      by (auto simp: fun_eq_iff pc_content_def touch_def map_of_filter_keys [of "\<lambda>k. k \<noteq> ?k"])
    then show ?thesis by simp
  qed
  then show ?thesis using inv g by simp
qed

lemma put_page_inv:
  assumes "pc_inv c s"
  shows "pc_inv c (put_page f off data (int sz) dio now s) \<and>
     pc_content (put_page f off data (int sz) dio now s) \<subseteq>\<^sub>m pc_effect c (PPut f off data sz dio now) (pc_content s)"
proof -
  have ok: "pc_ok s" and pol: "same_policy c (pc_config s)" using assms by (simp_all add: pc_inv_def)
  let ?p = "put_page f off data (int sz) dio now s" and ?k = "\<lparr>pk_file_path = f, pk_offset = off\<rparr>"
  note put = put_page_ok [OF ok, where f = f and off = off and data = data and sz = "int sz" and dio = dio and now = now]
  have inv: "pc_inv c ?p" using assms put count_length [OF ok] count_length [OF put(1)] by (auto simp: pc_inv_def)
  have "pc_content ?p \<subseteq>\<^sub>m pc_effect c (PPut f off data sz dio now) (pc_content s)"
  proof (cases "data = None \<or> \<not> should_cache c (int sz) dio")
    case True
    then have "?p = s" using put(3) policy_should_cache [OF pol] by auto
    then show ?thesis using True by (auto split: option.split)
  next
    case False
    then obtain d n where new: "data = Some d"
        "pc_pages ?p = (?k, new_page d (int sz) dio now) # filter (\<lambda>x. fst x \<noteq> ?k) (take n (pc_pages s))"
      using put(3) policy_should_cache [OF pol] by auto
    have "map_of (pc_pages ?p) \<subseteq>\<^sub>m (map_of (pc_pages s))(?k \<mapsto> new_page d (int sz) dio now)"
      using map_of_take [of n "pc_pages s"] unfolding new(2)
      by (auto simp: map_le_def map_of_filter_keys [of "\<lambda>k. k \<noteq> ?k"] dom_def split: if_splits)
    from page_content_le [OF this] show ?thesis
      using False new(1) by (simp add: new_page_def pc_content_def [abs_def] if_distrib [of "map_option cp_data"] fun_upd_def cong: if_cong)
  qed
  then show ?thesis using inv by simp
qed

lemma exec_page_inv:
  assumes "pc_inv c s"
  shows "pc_inv c (pc_exec op s) \<and> pc_content (pc_exec op s) \<subseteq>\<^sub>m pc_effect c op (pc_content s)"
proof -
  have ok: "pc_ok s" and pol: "same_policy c (pc_config s)" using assms by (simp_all add: pc_inv_def)
  show ?thesis
  proof (cases op)
    case (PGet f off sz now)
    then show ?thesis using get_page_inv [OF assms] by simp
  next
    case (PPut f off data sz dio now)
    then show ?thesis using put_page_inv [OF assms] by simp
  next
    case (PInvalidate f)
    note i = invalidate_page_ok [OF ok, of f]
    have "int (length (filter (\<lambda>x. pk_file_path (fst x) \<noteq> f) (pc_pages s))) \<le> int (length (pc_pages s))" by simp
    also have "\<dots> \<le> max 1 (pf_max_pages (pc_config s))" using assms count_length [OF ok] by (simp add: pc_inv_def)
    finally have "pc_inv c (snd (pc_invalidate f s))"
      using i(1-3) pol count_length [OF i(1)] by (simp add: pc_inv_def)
    moreover have "pc_content (snd (pc_invalidate f s)) = drop_keys (\<lambda>k. pk_file_path k = f) (pc_content s)"
      using i(3) by (auto simp: fun_eq_iff pc_content_def drop_keys_def map_of_filter_keys [of "\<lambda>k. pk_file_path k \<noteq> f"])
    ultimately show ?thesis using PInvalidate by simp
  next
    case (PEvict now)
    then show ?thesis using evict_inv [OF assms _ ok refl, of "pf_max_pages (pc_config s)"] by (simp add: pc_evict_def same_policy_def)
  next
    case PResetStats
    then have "pc_pages (pc_exec op s) = pc_pages s" "pc_ok (pc_exec op s)" using ok by (simp_all add: pc_reset_stats_def pc_ok_def pc_pages_def)
    then show ?thesis using PResetStats assms by (simp add: pc_inv_def pc_reset_stats_def pc_content_def [abs_def])
  next
    case PClear
    then show ?thesis using pol
      by (simp add: index_nil pc_clear_def pc_inv_def pc_ok_def pc_pages_def same_policy_def pc_content_def [abs_def] le_max_iff_disj)
  next
    case (PSetMaxPages n now)
    then show ?thesis using evict_inv [OF assms, of "s\<lparr>pc_config := (pc_config s)\<lparr>pf_max_pages := int n\<rparr>\<rparr>" "int n"] ok
      by (simp add: set_max_pages_def same_policy_def)
  next
    case (PSetMaxMemory n now)
    then show ?thesis
      using evict_inv [OF assms, of "s\<lparr>pc_config := (pc_config s)\<lparr>pf_max_memory_bytes := int n\<rparr>\<rparr>" "pf_max_pages (pc_config s)"] ok
      by (simp add: set_max_memory_bytes_def same_policy_def)
  next
    case (PShrink n)
    have "int (length (pc_pages s) - n) \<le> max 1 (pf_max_pages (pc_config s))"
      using assms count_length [OF ok] by (auto simp: pc_inv_def)
    then show ?thesis using PShrink shrink_loop_ok [OF ok, of n 0] prefix_inv [OF assms, of "snd (shrink n s)"]
      by (auto simp: shrink_def same_policy_def)
  qed
qed

lemma page_effect_mono: "m \<subseteq>\<^sub>m m' \<Longrightarrow> pc_effect c op m \<subseteq>\<^sub>m pc_effect c op m'"
  by (cases op) (auto simp: map_le_def drop_keys_def split: option.split)

interpretation page_cache: coherent_cache pc_exec "pc_inv c" pc_content "pc_effect c" for c
  by unfold_locales (simp_all add: exec_page_inv page_effect_mono)

lemma pc_inv_new: "pc_inv c (new_page_cache c)"
  using pc_ok_new [of c] by (simp add: pc_inv_def same_policy_def) (simp add: new_page_cache_def)

lemma page_run_inv: "pc_inv c (pc_run ops (new_page_cache c))"
  by (rule page_cache.run_ok [OF pc_inv_new])

section \<open>Properties\<close>

text \<open>
  C32: in every run of the page cache the hash map and the list of keys agree, each key occurs once, the page
  counter and the memory counter are exact, and there are at most \<^verbatim>\<open>max_pages\<close> pages (one, if the limit is 0).
\<close>

theorem page_cache_consistent:
  "let s = pc_run ops (new_page_cache c)
   in (\<forall>k. map_of (pc_pages s) k = map_option fst (map_of (pc_cache s) k)) \<and> distinct (map fst (pc_pages s)) \<and>
      pc_page_count s = int (length (pc_pages s)) \<and> pc_memory_used s = (\<Sum>(k, page) \<leftarrow> pc_pages s. cp_size page) \<and>
      pc_page_count s \<le> max 1 (pf_max_pages (pc_config s))"
proof -
  let ?s = "pc_run ops (new_page_cache c)"
  have inv: "pc_inv c ?s" by (rule page_run_inv)
  then have ok: "pc_ok ?s" by (simp add: pc_inv_def)
  have "map page_bytes l = map (\<lambda>(k, page). cp_size page) l" for l by (induction l) (auto simp: page_bytes_def)
  then have "pc_memory_used ?s = (\<Sum>(k, page) \<leftarrow> pc_pages ?s. cp_size page)" using pc_okD(4) [OF ok] by metis
  then show ?thesis
    unfolding Let_def using pages_lookup [OF ok] pages_distinct [OF ok] count_length [OF ok] inv by (simp add: pc_inv_def)
qed

text \<open>
  C35: pages leave in the order of their last use. A hit moves the page to the front and keeps the order
  of the others; an insertion puts the page in front of the most recently used others; a miss,
  \<^verbatim>\<open>evict\<close> and \<^verbatim>\<open>shrink\<close> keep the most recently used pages, \<^verbatim>\<open>shrink\<close> all but the number asked for.
\<close>

theorem eviction_is_lru:
  assumes "s = pc_run ops (new_page_cache c)"
  shows "(\<forall>f off sz now. \<exists>k n. pk_file_path k = f \<and> pk_offset k = off \<and>
       (case get_page f off sz now s of
          (Some page, s') \<Rightarrow> pc_pages s' = (k, page) # filter (\<lambda>x. fst x \<noteq> k) (pc_pages s)
        | (None, s') \<Rightarrow> pc_pages s' = take n (pc_pages s))) \<and>
     (\<forall>f off d sz dio now. should_cache (pc_config s) sz dio \<longrightarrow> (\<exists>n page.
        let k = \<lparr>pk_file_path = f, pk_offset = off\<rparr>
        in cp_data page = d \<and> pc_pages (put_page f off (Some d) sz dio now s) = (k, page) # filter (\<lambda>x. fst x \<noteq> k) (take n (pc_pages s)))) \<and>
     (\<forall>now. \<exists>n. pc_pages (snd (pc_evict now s)) = take n (pc_pages s)) \<and>
     (\<forall>m. pc_pages (snd (shrink m s)) = take (length (pc_pages s) - m) (pc_pages s))"
proof -
  have ok: "pc_ok s" using page_run_inv assms by (simp add: pc_inv_def)
  have "\<exists>k n. pk_file_path k = f \<and> pk_offset k = off \<and>
       (case get_page f off sz now s of
          (Some page, s') \<Rightarrow> pc_pages s' = (k, page) # filter (\<lambda>x. fst x \<noteq> k) (pc_pages s)
        | (None, s') \<Rightarrow> pc_pages s' = take n (pc_pages s))" for f off sz now
  proof -
    obtain g s' where g: "get_page f off sz now s = (g, s')" by fastforce
    then show ?thesis using get_page_ok(3,4) [OF ok]
      by (cases g) (fastforce intro: exI [of _ "\<lparr>pk_file_path = f, pk_offset = off\<rparr>"])+
  qed
  moreover have "\<exists>n page. let k = \<lparr>pk_file_path = f, pk_offset = off\<rparr>
        in cp_data page = d \<and> pc_pages (put_page f off (Some d) sz dio now s) = (k, page) # filter (\<lambda>x. fst x \<noteq> k) (take n (pc_pages s))"
    if "should_cache (pc_config s) sz dio" for f off d sz dio now
    using put_page_ok(3) [OF ok, where f = f and off = off and data = "Some d" and sz = sz and dio = dio and now = now] that
    by (auto simp: Let_def new_page_def)
  moreover have "\<exists>n. pc_pages (snd (pc_evict now s)) = take n (pc_pages s)" for now
    using evict_locked_ok(3) [OF ok] unfolding pc_evict_def by (metis prod.collapse)
  moreover have "pc_pages (snd (shrink m s)) = take (length (pc_pages s) - m) (pc_pages s)" for m
    using shrink_loop_ok [OF ok] by (simp add: shrink_def)
  ultimately show ?thesis by blast
qed

text \<open>A small cache of three pages and a hundred bytes.\<close>

definition demo_pages :: PageCacheConfig where
  "demo_pages = default_PageCacheConfig\<lparr>pf_max_pages := 3, pf_max_memory_bytes := 100\<rparr>"

abbreviation demo_put :: "int \<Rightarrow> nat \<Rightarrow> pc_op" where
  "demo_put off n \<equiv> PPut ''seg'' off (Some (replicate n 0)) n False 0"

theorem eviction_is_lru_witness:
  "map fst (pc_pages (snd (shrink 1 (pc_run [demo_put 0 10, demo_put 1 10, PGet ''seg'' 0 10 1] (new_page_cache demo_pages))))) =
     [\<lparr>pk_file_path = ''seg'', pk_offset = 0\<rparr>]"
proof -
  let ?s = "pc_run [demo_put 0 10, demo_put 1 10, PGet ''seg'' 0 10 1] (new_page_cache demo_pages)"
  have "pc_pages (snd (shrink 1 ?s)) = take (length (pc_pages ?s) - 1) (pc_pages ?s)"
    using eviction_is_lru [OF refl, of "[demo_put 0 10, demo_put 1 10, PGet ''seg'' 0 10 1]" demo_pages] by blast
  moreover have "map fst (take (length (pc_pages ?s) - 1) (pc_pages ?s)) = [\<lparr>pk_file_path = ''seg'', pk_offset = 0\<rparr>]" by code_simp
  ultimately show ?thesis by simp
qed

text \<open>
  A hit is the page last stored: what \<^verbatim>\<open>get_page\<close> returns after a run are the bytes of the latest
  insertion for that file and offset that the configuration allowed to be cached, and the file was not
  invalidated since.
\<close>

theorem page_hit_is_latest:
  assumes "fst (get_page f off sz now (pc_run ops (new_page_cache c))) = Some page"
  shows "fold (pc_effect c) ops Map.empty \<lparr>pk_file_path = f, pk_offset = off\<rparr> = Some (cp_data page)"
proof (rule page_cache.hit_is_stored [OF pc_inv_new])
  let ?s = "pc_run ops (new_page_cache c)"
  have ok: "pc_ok ?s" using page_run_inv by (simp add: pc_inv_def)
  show "pc_content (new_page_cache c) = Map.empty"
    by (simp add: pc_content_def fun_eq_iff new_page_cache_def pc_pages_def)
  obtain s' where "get_page f off sz now ?s = (Some page, s')" using assms by (metis prod.collapse)
  then show "pc_content ?s \<lparr>pk_file_path = f, pk_offset = off\<rparr> = Some (cp_data page)"
    using get_page_ok(3) [OF ok] pages_lookup [OF ok] by (fastforce simp: pc_content_def touch_def)
qed

theorem page_hit_is_latest_witness:
  "fold (pc_effect demo_pages) [demo_put 0 10, demo_put 0 20, PInvalidate ''other''] Map.empty \<lparr>pk_file_path = ''seg'', pk_offset = 0\<rparr> =
     Some (replicate 20 0)"
proof -
  let ?s = "pc_run [demo_put 0 10, demo_put 0 20, PInvalidate ''other''] (new_page_cache demo_pages)"
  have "map_option cp_data (fst (get_page ''seg'' 0 20 1 ?s)) = Some (replicate 20 0)" by code_simp
  then obtain page where p: "fst (get_page ''seg'' 0 20 1 ?s) = Some page" "cp_data page = replicate 20 0" by auto
  show ?thesis using page_hit_is_latest [OF p(1)] p(2) by simp
qed

text \<open>
  The limit on memory is not enforced. Eviction is driven by the number of pages alone: while that is
  within its limit, \<^verbatim>\<open>evict\<close> removes nothing, however much memory the pages take. In a cache limited to a
  hundred bytes, three pages of sixty bytes stay, also after an eviction.
\<close>

theorem memory_limit_ignored:
  "let s = pc_run [demo_put 0 60, demo_put 1 60, demo_put 2 60, PEvict 5] (new_page_cache demo_pages)
   in pc_memory_used s = 180 \<and> pf_max_memory_bytes (pc_config s) = 100 \<and> fst (pc_evict 6 s) = 0"
  by code_simp

lemma evict_within_page_limit:
  "pc_ok s \<Longrightarrow> pc_page_count s \<le> pf_max_pages (pc_config s) \<Longrightarrow> pc_evict now s = (0, s)"
  using evict_locked_ok(5) [of s _ _ now] unfolding pc_evict_def by (metis count_length prod.collapse)

text \<open>A page written through direct I/O, which is not cached, leaves its older version in the cache.\<close>

lemma stale_page_kept:
  "let s = pc_run [demo_put 0 10, PPut ''seg'' 0 (Some [1]) 1 True 1] (new_page_cache demo_pages)
   in map_option cp_data (fst (get_page ''seg'' 0 0 2 s)) = Some (replicate 10 0)"
  by code_simp

text \<open>A read at the end of the file counts as a page loaded although nothing is stored.\<close>

lemma preload_counts_empty_reads:
  "map_option (\<lambda>(n, s). (n, pc_page_count s))
     (preload_range (\<lambda>_ _ _. Read []) (\<lambda>_. 0) ''seg'' 3 0 100 False (new_page_cache demo_pages)) = Some (1, 0)"
proof -
  have finished: "preload_loop pread clk f off 0 dio loaded s = (loaded, s)" for pread clk f off dio loaded s
    by (subst preload_loop.simps) simp
  have "preload_loop (\<lambda>_ _ _. Read []) (\<lambda>_. 0) ''seg'' 0 100 False 0 (new_page_cache demo_pages) = (1, new_page_cache demo_pages)"
    by (subst preload_loop.simps)
      (simp add: finished demo_pages_def default_PageCacheConfig_def new_page_cache_def should_cache_def read_chunk_def put_page_def)
  then show ?thesis by (simp add: preload_range_def demo_pages_def default_PageCacheConfig_def new_page_cache_def)
qed

end
