(* ===== verification/Segment_Codec.thy ===== *)
theory Segment_Codec
  imports Storage_Types Raft_Codec Endian
begin

text \<open>
  The byte layer of \<^verbatim>\<open>src/torrent/storage/segment.cpp\<close>: checksum, varints and little-endian integers,
  the record batch on disk, the 64-byte header of a segment file and its companion index file. A
  pointer into a buffer with the bytes left is the list of these bytes; an output buffer with its
  write position is the list written so far. The checksum is the software path; the SSE 4.2 one
  computes the same function.
\<close>

section \<open>Primitives\<close>

definition seg_crc32c_initial :: "u32 \<Rightarrow> bytes \<Rightarrow> u32" where
  "seg_crc32c_initial initial data =
     fold (\<lambda>b crc. drop_bit 8 crc XOR kCrc32cTable (unat ((crc AND 0xFF) XOR ucast b))) data (initial XOR 0xFFFFFFFF) XOR 0xFFFFFFFF"

definition seg_crc32c :: "bytes \<Rightarrow> u32" where
  "seg_crc32c data = seg_crc32c_initial 0 data"

definition kMaxVarint64Len :: nat where "kMaxVarint64Len = 10"

text \<open>\<^verbatim>\<open>write_uvarint64\<close> is the loop of \<open>varint_encode\<close> at 64 bits.\<close>

definition write_uvarint64 :: "u64 \<Rightarrow> bytes" where
  "write_uvarint64 value = varint_encode value"

definition write_svarint64 :: "int \<Rightarrow> bytes" where
  "write_svarint64 value =
     (let v = word_of_int value :: u64 in write_uvarint64 (push_bit 1 v XOR signed_drop_bit 63 v))"

fun read_uvarint64_loop :: "nat \<Rightarrow> nat \<Rightarrow> u64 \<Rightarrow> bytes \<Rightarrow> u64 \<times> nat" where
  "read_uvarint64_loop i shift val [] = (0, 0)"
| "read_uvarint64_loop i shift val (b # buf) =
     (if i < kMaxVarint64Len
      then let val = val OR push_bit shift (ucast (b AND 0x7F))
           in if b AND 0x80 = 0 then (val, i + 1)
              else if shift + 7 \<ge> 64 then (0, 0)
              else read_uvarint64_loop (i + 1) (shift + 7) val buf
      else (0, 0))"

definition read_uvarint64 :: "bytes \<Rightarrow> u64 \<times> nat" where
  "read_uvarint64 buf = read_uvarint64_loop 0 0 0 buf"

definition read_svarint64 :: "bytes \<Rightarrow> int \<times> nat" where
  "read_svarint64 buf =
     (let (zigzag, consumed) = read_uvarint64 buf
      in if consumed = 0 then (0, 0)
         else let v = drop_bit 1 zigzag; v = (if zigzag AND 1 \<noteq> 0 then NOT v else v) in (sint v, consumed))"

definition read_svarint32 :: "bytes \<Rightarrow> int \<times> nat" where
  "read_svarint32 buf = (let (v, c) = read_svarint64 buf in (sint (word_of_int v :: u32), c))"

definition write_le64 :: "u64 \<Rightarrow> bytes" where
  "write_le64 v = [ucast v, ucast (drop_bit 8 v), ucast (drop_bit 16 v), ucast (drop_bit 24 v),
     ucast (drop_bit 32 v), ucast (drop_bit 40 v), ucast (drop_bit 48 v), ucast (drop_bit 56 v)]"

definition write_le32 :: "u32 \<Rightarrow> bytes" where
  "write_le32 v = [ucast v, ucast (drop_bit 8 v), ucast (drop_bit 16 v), ucast (drop_bit 24 v)]"

definition write_le16 :: "16 word \<Rightarrow> bytes" where
  "write_le16 v = [ucast v, ucast (drop_bit 8 v)]"

definition read_le64 :: "bytes \<Rightarrow> u64" where
  "read_le64 p = ucast (p ! 0) OR push_bit 8 (ucast (p ! 1)) OR push_bit 16 (ucast (p ! 2)) OR push_bit 24 (ucast (p ! 3)) OR
     push_bit 32 (ucast (p ! 4)) OR push_bit 40 (ucast (p ! 5)) OR push_bit 48 (ucast (p ! 6)) OR push_bit 56 (ucast (p ! 7))"

definition read_le32 :: "bytes \<Rightarrow> u32" where
  "read_le32 p = ucast (p ! 0) OR push_bit 8 (ucast (p ! 1)) OR push_bit 16 (ucast (p ! 2)) OR push_bit 24 (ucast (p ! 3))"

definition read_le16 :: "bytes \<Rightarrow> 16 word" where
  "read_le16 p = ucast (p ! 0) OR push_bit 8 (ucast (p ! 1))"

definition write_le64s :: "int \<Rightarrow> bytes" where "write_le64s v = write_le64 (word_of_int v)"
definition write_le32s :: "int \<Rightarrow> bytes" where "write_le32s v = write_le32 (word_of_int v)"
definition read_le64s :: "bytes \<Rightarrow> int" where "read_le64s p = sint (read_le64 p)"
definition read_le32s :: "bytes \<Rightarrow> int" where "read_le32s p = sint (read_le32 p)"

text \<open>Writing over bytes that are already in a buffer.\<close>

definition patch :: "nat \<Rightarrow> bytes \<Rightarrow> bytes \<Rightarrow> bytes" where
  "patch pos bs buf = take pos buf @ bs @ drop (pos + length bs) buf"

section \<open>Record batches\<close>

definition kRecordBatchMagic :: byte where "kRecordBatchMagic = 2"
definition kMinBatchHeaderSize :: nat where
  "kMinBatchHeaderSize = 8 + 4 + 4 + 1 + 4 + 2 + 4 + 8 + 8 + 8 + 2 + 4 + 4"

definition write_record_header :: "RecordHeader \<Rightarrow> bytes" where
  "write_record_header h =
     write_le32s (int (length (rh_key h))) @ rh_key h @ write_le32s (int (length (rh_value h))) @ rh_value h"

definition offset_delta :: "RecordBatch \<Rightarrow> int \<Rightarrow> int \<Rightarrow> int" where
  "offset_delta batch rcount i =
     (if rb_last_offset_delta batch > 0 then (if i = rcount - 1 then rb_last_offset_delta batch else i) else i)"

text \<open>A record: the length is patched in once the rest is written.\<close>

definition write_record :: "RecordBatch \<Rightarrow> int \<Rightarrow> int \<Rightarrow> Record \<Rightarrow> bytes" where
  "write_record batch rcount i rec =
     (let out = write_le32 0 @ [0]
            @ write_svarint64 (rec_timestamp rec - rb_base_timestamp batch)
            @ write_svarint64 (offset_delta batch rcount i)
            @ write_le32s (int (length (rec_key rec))) @ rec_key rec
            @ write_le32s (int (length (rec_value rec))) @ rec_value rec
            @ write_le32s (int (length (rec_headers rec)))
            @ concat (map write_record_header (rec_headers rec))
      in patch 0 (write_le32 (of_nat (length out - 4))) out)"

fun write_records :: "RecordBatch \<Rightarrow> int \<Rightarrow> int \<Rightarrow> Record list \<Rightarrow> bytes" where
  "write_records batch rcount i [] = []"
| "write_records batch rcount i (rec # recs) = write_record batch rcount i rec @ write_records batch rcount (i + 1) recs"

definition batch_rcount :: "RecordBatch \<Rightarrow> int" where
  "batch_rcount batch = sint (of_nat (length (rb_records batch)) :: u32)"

definition seg_serialize_batch :: "RecordBatch \<Rightarrow> bytes" where
  "seg_serialize_batch batch =
     (let rcount = batch_rcount batch;
          out = write_le64s (rb_base_offset batch) @ write_le32 0
            @ write_le32s (rb_partition_leader_epoch batch) @ [kRecordBatchMagic] @ write_le32 0
            @ write_le16 (rb_attributes batch) @ write_le32s (rb_last_offset_delta batch)
            @ write_le64s (rb_base_timestamp batch) @ write_le64s (rb_max_timestamp batch)
            @ write_le64s (rb_producer_id batch) @ write_le16 (word_of_int (rb_producer_epoch batch))
            @ write_le32s (rb_base_sequence batch) @ write_le32s rcount
            @ write_records batch rcount 0 (take (nat rcount) (rb_records batch));
          out = patch 8 (write_le32 (of_nat (length out - 8 - 4))) out
      in patch 17 (write_le32 (seg_crc32c (drop 21 out))) out)"

text \<open>The size of the buffer that \<^verbatim>\<open>serialize_batch\<close> allocates before it writes.\<close>

definition record_buffer_size :: "Record \<Rightarrow> nat" where
  "record_buffer_size rec =
     fold (\<lambda>h n. n + (4 + length (rh_key h) + 4 + length (rh_value h))) (rec_headers rec)
       (4 + 1 + kMaxVarint64Len + kMaxVarint64Len + 4 + length (rec_key rec) + 4 + length (rec_value rec) + 4)"

definition batch_buffer_size :: "RecordBatch \<Rightarrow> nat" where
  "batch_buffer_size batch =
     kMinBatchHeaderSize + fold (\<lambda>r n. n + record_buffer_size r) (rb_records batch) 0"

text \<open>Reading: the second component is what follows. \<^verbatim>\<open>break\<close> ends the loop over the headers only.\<close>

fun read_headers :: "nat \<Rightarrow> bytes \<Rightarrow> error_code + (RecordHeader list \<times> bytes)" where
  "read_headers 0 p = Inr ([], p)"
| "read_headers (Suc n) p =
     (if length p < 4 then Inr ([], p)
      else let hkey_len = read_le32s p; p = drop 4 p
      in if hkey_len < 0 \<or> hkey_len > int (length p) then Inl corrupt_message
      else let hkey = take (nat hkey_len) p; p = drop (nat hkey_len) p
      in if length p < 4 then Inr ([], p)
      else let hval_len = read_le32s p; p = drop 4 p
      in if hval_len < 0 \<or> hval_len > int (length p) then Inl corrupt_message
      else let hval = take (nat hval_len) p; p = drop (nat hval_len) p
      in case read_headers n p of
           Inl e \<Rightarrow> Inl e
         | Inr (hs, p) \<Rightarrow> Inr (\<lparr>rh_key = hkey, rh_value = hval\<rparr> # hs, p))"

text \<open>A key or a value: a length of -1 or 0 stands for none.\<close>

definition read_blob :: "bytes \<Rightarrow> error_code + (bytes \<times> bytes)" where
  "read_blob p =
     (let len = read_le32s p; p = drop 4 p
      in if len < -1 \<or> len > int (length p) then Inl corrupt_message
         else if len > 0 then Inr (take (nat len) p, drop (nat len) p) else Inr ([], p))"

text \<open>The loop over the records; a \<^verbatim>\<open>break\<close> leaves the records read so far.\<close>

fun read_records :: "RecordBatch \<Rightarrow> nat \<Rightarrow> int \<Rightarrow> bytes \<Rightarrow> error_code + Record list" where
  "read_records batch 0 i p = Inr []"
| "read_records batch (Suc n) i p =
     (if length p < 4 then Inl corrupt_message
      else let rec_len = read_le32s p; p = drop 4 p
      in if rec_len < 0 \<or> rec_len > int (length p) then Inl corrupt_message
      else if p = [] then Inr []
      else let p = drop 1 p; (ts_delta, ts_bytes) = read_svarint64 p
      in if ts_bytes = 0 then Inl corrupt_message
      else let p = drop ts_bytes p; (off_delta, off_bytes) = read_svarint32 p
      in if off_bytes = 0 then Inl corrupt_message
      else let p = drop off_bytes p
      in if length p < 4 then Inr []
      else case read_blob p of Inl e \<Rightarrow> Inl e | Inr (key, p) \<Rightarrow>
         if length p < 4 then Inr []
         else case read_blob p of Inl e \<Rightarrow> Inl e | Inr (val, p) \<Rightarrow>
         if length p < 4 then Inr []
         else let header_count = read_le32s p; p = drop 4 p
         in if header_count < 0 \<or> header_count > 1000 then Inl corrupt_message
         else case read_headers (nat header_count) p of Inl e \<Rightarrow> Inl e | Inr (headers, p) \<Rightarrow>
         let rec = \<lparr>rec_key = key, rec_value = val, rec_headers = headers,
               rec_timestamp = wrap64 (rb_base_timestamp batch + ts_delta),
               rec_offset = wrap64 (rb_base_offset batch + off_delta), rec_partition_id = 0,
               rec_sequence = (if rb_base_sequence batch \<ge> 0 then sint (word_of_int (rb_base_sequence batch + i) :: u32) else -1),
               rec_producer_id = rb_producer_id batch\<rparr>
         in case read_records batch n (i + 1) p of Inl e \<Rightarrow> Inl e | Inr recs \<Rightarrow> Inr (rec # recs))"

text \<open>The fields of the header, with no records yet.\<close>

definition read_batch_header :: "bytes \<Rightarrow> RecordBatch" where
  "read_batch_header p =
     \<lparr>rb_base_offset = read_le64s p, rb_base_timestamp = read_le64s (drop 27 p), rb_max_timestamp = read_le64s (drop 35 p),
      rb_last_offset_delta = read_le32s (drop 23 p), rb_compression = no_compression,
      rb_attributes = read_le16 (drop 21 p), rb_crc = read_le32 (drop 17 p), rb_producer_id = read_le64s (drop 43 p),
      rb_producer_epoch = sint (read_le16 (drop 51 p)), rb_base_sequence = read_le32s (drop 53 p), rb_record_count = 0,
      rb_partition_leader_epoch = read_le32s (drop 12 p), rb_records = []\<rparr>"

text \<open>The expected base offset is only compared for a warning.\<close>

definition seg_deserialize_batch :: "bytes \<Rightarrow> log_offset \<Rightarrow> error_code + RecordBatch" where
  "seg_deserialize_batch data expected_base_offset =
     (if length data < kMinBatchHeaderSize then Inl corrupt_message
      else if (read_le32s (drop 8 data) + 12) mod 2 ^ 64 \<noteq> int (length data) then Inl corrupt_message
      else if data ! 16 \<noteq> kRecordBatchMagic then Inl corrupt_message
      else let stored_crc = read_le32 (drop 17 data); computed_crc = seg_crc32c (drop 21 data)
      in if stored_crc \<noteq> 0 \<and> computed_crc \<noteq> stored_crc then Inl corrupt_message
      else let batch = read_batch_header data; record_count = read_le32s (drop 57 data)
      in if record_count < 0 \<or> record_count > 100000 then Inl corrupt_message
      else case read_records batch (nat record_count) 0 (drop 61 data) of
             Inl e \<Rightarrow> Inl e
           | Inr recs \<Rightarrow> Inr (batch\<lparr>rb_record_count := int (length recs), rb_records := recs\<rparr>))"


section \<open>Primitives round trip\<close>

lemma seg_crc32c_initial_eq: "seg_crc32c_initial c data = crc32c_update c data"
proof -
  have "(c AND 0xFF) XOR ucast b = (c XOR ucast b) AND 0xFF" for c :: u32 and b :: byte
    unfolding and_255 by (rule bit_word_eqI) (auto simp: bit_simps dest: bit_imp_le_length)
  then show ?thesis by (simp add: seg_crc32c_initial_def crc32c_update_def xor.commute)
qed

lemma seg_crc32c_eq: "seg_crc32c data = crc32c_span data"
  by (simp add: seg_crc32c_def crc32c_span_def seg_crc32c_initial_eq)

lemma length_le [simp]:
  "length (write_le64 a) = 8" "length (write_le32 b) = 4" "length (write_le16 c) = 2"
  "length (write_le64s i) = 8" "length (write_le32s j) = 4"
  by (simp_all add: write_le64_def write_le32_def write_le16_def write_le64s_def write_le32s_def)

lemma ucast_trunc: "8 \<le> LENGTH('a) \<Longrightarrow> ucast (ucast v :: byte) = (take_bit 8 v :: 'a::len word)"
  by (rule bit_word_eqI) (auto simp: bit_simps)

lemma read_le [wire]:
  "read_le64 (write_le64 a @ rest) = a" "read_le32 (write_le32 b @ rest) = b" "read_le16 (write_le16 c @ rest) = c"
proof -
  show "read_le64 (write_le64 a @ rest) = a"
    by (simp add: read_le64_def write_le64_def ucast_trunc u64_bytes_join)
  show "read_le32 (write_le32 b @ rest) = b"
    by (simp add: read_le32_def write_le32_def ucast_trunc u32_bytes_join)
  have "take_bit 8 c OR push_bit 8 (take_bit 8 (drop_bit 8 c)) = c"
    using push_take_top [of 8 8 c] push_take_drop [of 0 8 c] by simp
  then show "read_le16 (write_le16 c @ rest) = c"
    by (simp add: read_le16_def write_le16_def ucast_trunc)
qed

lemma sint_word: "in_int64 i \<Longrightarrow> sint (word_of_int i :: u64) = i" "in_int32 j \<Longrightarrow> sint (word_of_int j :: u32) = j"
  by (simp_all add: in_int64_def in_int32_def sint_sbintrunc' signed_take_bit_int_eq_self)

lemma read_les [wire]:
  "in_int64 i \<Longrightarrow> read_le64s (write_le64s i @ rest) = i" "in_int32 j \<Longrightarrow> read_le32s (write_le32s j @ rest) = j"
  by (simp_all add: read_le64s_def write_le64s_def read_le32s_def write_le32s_def read_le sint_word)

lemma uvarint_loop:
  assumes "shift = 7 * i" "i < 10" "unat v < 2 ^ (64 - shift)"
  shows "read_uvarint64_loop i shift out (varint_encode v @ rest) = (out OR push_bit shift v, i + length (varint_encode v))"
  using assms
proof (induction v arbitrary: shift i out rule: varint_encode.induct)
  case (1 v)
  show ?case
  proof (cases "unat v < 0x80")
    case True
    then show ?thesis using last_byte [OF True] "1.prems" by (simp add: varint_encode.simps [of v] kMaxVarint64Len_def)
  next
    case False
    have small: "shift + 7 < 64"
    proof (rule ccontr)
      assume "\<not> shift + 7 < 64"
      then have "(2::nat) ^ (64 - shift) \<le> 2 ^ 7" by (intro power_increasing) simp_all
      then show False using False "1.prems"(3) by simp
    qed
    then have "(2::nat) ^ (64 - shift) = 2 ^ (64 - (shift + 7)) * 128"
      using power_add [of "2::nat" "64 - (shift + 7)" 7] by simp
    then have "unat (drop_bit 7 v) < 2 ^ (64 - (shift + 7))"
      using "1.prems"(3) by (metis less_mult_imp_div_less unat_drop7)
    then have IH: "read_uvarint64_loop (i + 1) (shift + 7) out' (varint_encode (drop_bit 7 v) @ rest) =
        (out' OR push_bit (shift + 7) (drop_bit 7 v), i + 1 + length (varint_encode (drop_bit 7 v)))" for out'
      using small "1.prems" by (intro "1.IH" [OF False]) simp_all
    have c: "(ucast (v OR 0x80) :: byte) AND 0x80 \<noteq> 0" using continuation_bit [of v] by simp
    show ?thesis
      using IH [of "out OR push_bit shift (take_bit 7 v)"] c push_split7 [of shift v] small "1.prems"(2) False
      by (simp add: varint_encode.simps [of v] ucast_low7 Let_def or.assoc kMaxVarint64Len_def)
  qed
qed

lemma write_svarint_eq: "write_svarint64 i = varint_encode (zigzag_encode (word_of_int i :: u64))"
proof -
  have "push_bit 1 v XOR signed_drop_bit 63 v = zigzag_encode v" for v :: u64 by (simp add: zigzag_encode_def)
  then show ?thesis by (simp only: write_svarint64_def write_uvarint64_def Let_def)
qed

lemma sint_wrap64: "sint (word_of_int i :: u64) = wrap64 i"
  by (simp add: wrap64_def sint_sbintrunc' signed_take_bit_eq_take_bit_shift take_bit_eq_mod)

lemma read_svarint [wire]:
  "read_svarint64 (write_svarint64 i @ rest) = (wrap64 i, length (write_svarint64 i))"
proof -
  let ?v = "word_of_int i :: u64"
  have u: "read_uvarint64 (varint_encode (zigzag_encode ?v) @ rest) = (zigzag_encode ?v, length (varint_encode (zigzag_encode ?v)))"
    unfolding read_uvarint64_def using unsigned_less [of "zigzag_encode ?v", where 'a = nat]
    by (subst uvarint_loop) simp_all
  have "w XOR (- 1) = NOT w" for w :: u64 by (rule bit_word_eqI) (auto simp: bit_simps)
  then have "(if z AND 1 \<noteq> 0 then NOT (drop_bit 1 z) else drop_bit 1 z) = zigzag_decode z" for z :: u64
    unfolding zigzag_decode_def minus_and_1 by (simp add: and_one_eq mod_2_eq_odd bit_0)
  then have d: "(if zigzag_encode ?v AND 1 \<noteq> 0 then NOT (drop_bit 1 (zigzag_encode ?v)) else drop_bit 1 (zigzag_encode ?v)) = ?v"
    by (simp only: zigzag_decode_encode)
  show ?thesis unfolding read_svarint64_def write_svarint_eq u Let_def prod.case d
    by (simp add: varint_encode_nonempty sint_wrap64)
qed

lemma read_svarint32 [wire]:
  "in_int32 i \<Longrightarrow> read_svarint32 (write_svarint64 i @ rest) = (i, length (write_svarint64 i))"
  by (simp add: read_svarint32_def read_svarint in_int32_def sint_word wrap64_small)

lemma write_svarint_length: "0 < length (write_svarint64 i)" "length (write_svarint64 i) \<le> 10"
  unfolding write_svarint_eq
  using varint_encode_length [of "zigzag_encode (word_of_int i :: u64)" 10]
    unsigned_less [of "zigzag_encode (word_of_int i :: u64)", where 'a = nat]
  by (simp_all add: varint_encode_nonempty)

lemma write_svarint_nonempty [simp]: "write_svarint64 i \<noteq> []"
  using write_svarint_length(1) [of i] by auto


lemma wrap64_add: "wrap64 (a + wrap64 b) = wrap64 (a + b)"
proof -
  have "(a + ((b + 2 ^ 63) mod 2 ^ 64 - 2 ^ 63) + 2 ^ 63) mod 2 ^ 64 = (a + (b + 2 ^ 63) mod 2 ^ 64) mod 2 ^ 64"
    by (simp add: algebra_simps)
  also have "\<dots> = (a + (b + 2 ^ 63)) mod 2 ^ 64" by (rule mod_add_right_eq)
  finally show ?thesis by (simp add: wrap64_def algebra_simps)
qed

lemma wrap64_delta: "in_int64 t \<Longrightarrow> wrap64 (base + wrap64 (t - base)) = t"
  by (simp add: wrap64_add wrap64_small in_int64_def)

lemma patch_0: "length bs = length old \<Longrightarrow> patch 0 bs (old @ rest) = bs @ rest"
  by (simp add: patch_def)

lemma patch_middle: "length pre = n \<Longrightarrow> length bs = length old \<Longrightarrow> patch n bs (pre @ old @ rest) = pre @ bs @ rest"
  by (simp add: patch_def)

section \<open>A batch is read back as it was written\<close>

definition small :: "bytes \<Rightarrow> bool" where "small xs \<longleftrightarrow> length xs < 2 ^ 31"

lemma small_int32: "small xs \<Longrightarrow> in_int32 (int (length xs))"
  by (simp add: small_def in_int32_def)

lemma read_len: "n < 2 ^ 31 \<Longrightarrow> read_le32s (write_le32 (of_nat n) @ rest) = int n"
  using sint_word(2) [of "int n"] by (simp add: read_le32s_def read_le in_int32_def)

lemma read_blob_write [wire]:
  "small k \<Longrightarrow> read_blob (write_le32s (int (length k)) @ k @ rest) = Inr (k, rest)"
  by (simp add: read_blob_def read_les small_int32 Let_def)

lemma read_headers_write [wire]:
  "list_all (\<lambda>h. small (rh_key h) \<and> small (rh_value h)) hs \<Longrightarrow>
   read_headers (length hs) (concat (map write_record_header hs) @ rest) = Inr (hs, rest)"
  by (induction hs) (simp_all add: write_record_header_def read_les small_int32 Let_def)

definition record_body :: "RecordBatch \<Rightarrow> int \<Rightarrow> int \<Rightarrow> Record \<Rightarrow> bytes" where
  "record_body batch rcount i rec =
     [0] @ write_svarint64 (rec_timestamp rec - rb_base_timestamp batch) @ write_svarint64 (offset_delta batch rcount i)
     @ write_le32s (int (length (rec_key rec))) @ rec_key rec @ write_le32s (int (length (rec_value rec))) @ rec_value rec
     @ write_le32s (int (length (rec_headers rec))) @ concat (map write_record_header (rec_headers rec))"

lemma write_record_eq:
  "write_record batch rcount i rec = write_le32 (of_nat (length (record_body batch rcount i rec))) @ record_body batch rcount i rec"
proof -
  have "write_record batch rcount i rec =
      (let out = write_le32 0 @ record_body batch rcount i rec in patch 0 (write_le32 (of_nat (length out - 4))) out)"
    by (simp add: write_record_def record_body_def)
  then show ?thesis by (simp add: patch_0)
qed

text \<open>What a record is after a round trip: the fields that are not stored are computed from the batch.\<close>

definition stored_record :: "RecordBatch \<Rightarrow> int \<Rightarrow> int \<Rightarrow> Record \<Rightarrow> Record" where
  "stored_record batch rcount i rec =
     rec\<lparr>rec_offset := rb_base_offset batch + offset_delta batch rcount i, rec_partition_id := 0,
         rec_sequence := (if rb_base_sequence batch \<ge> 0 then rb_base_sequence batch + i else -1),
         rec_producer_id := rb_producer_id batch\<rparr>"

definition wf_record :: "RecordBatch \<Rightarrow> int \<Rightarrow> int \<Rightarrow> Record \<Rightarrow> bool" where
  "wf_record batch rcount i rec \<longleftrightarrow>
     in_int64 (rec_timestamp rec) \<and> length (rec_headers rec) \<le> 1000 \<and> in_int32 (offset_delta batch rcount i) \<and>
     in_int64 (rb_base_offset batch + offset_delta batch rcount i) \<and>
     (rb_base_sequence batch \<ge> 0 \<longrightarrow> in_int32 (rb_base_sequence batch + i))"

lemma body_small:
  assumes "length (record_body batch rcount i rec) < 2 ^ 31"
  shows "small (rec_key rec)" "small (rec_value rec)" "list_all (\<lambda>h. small (rh_key h) \<and> small (rh_value h)) (rec_headers rec)"
proof -
  show "small (rec_key rec)" "small (rec_value rec)" using assms by (simp_all add: record_body_def small_def)
  have "length (rh_key h) + length (rh_value h) \<le> length (concat (map write_record_header hs))" if "h \<in> set hs" for h hs
    using that by (induction hs) (auto simp: write_record_header_def)
  then show "list_all (\<lambda>h. small (rh_key h) \<and> small (rh_value h)) (rec_headers rec)"
    using assms by (fastforce simp: list_all_iff record_body_def small_def)
qed

text \<open>The header fields a record needs.\<close>

definition same_base :: "RecordBatch \<Rightarrow> RecordBatch \<Rightarrow> bool" where
  "same_base b b' \<longleftrightarrow> rb_base_timestamp b = rb_base_timestamp b' \<and> rb_base_offset b = rb_base_offset b' \<and>
     rb_base_sequence b = rb_base_sequence b' \<and> rb_producer_id b = rb_producer_id b'"

lemma read_record_write:
  assumes "wf_record batch rcount i rec" "length (record_body batch rcount i rec) < 2 ^ 31" "same_base b batch"
  shows "read_records b (Suc n) i (write_record batch rcount i rec @ rest) =
     (case read_records b n (i + 1) rest of Inl e \<Rightarrow> Inl e | Inr recs \<Rightarrow> Inr (stored_record batch rcount i rec # recs))"
proof -
  let ?body = "record_body batch rcount i rec"
  note s = body_small [OF assms(2)]
  have w: "in_int64 (rec_timestamp rec)" "length (rec_headers rec) \<le> 1000" "in_int32 (offset_delta batch rcount i)"
    "in_int64 (rb_base_offset batch + offset_delta batch rcount i)"
    "rb_base_sequence batch \<ge> 0 \<Longrightarrow> in_int32 (rb_base_sequence batch + i)"
    using assms(1) by (simp_all add: wf_record_def)
  have hc: "in_int32 (int (length (rec_headers rec)))" using w(2) by (simp add: in_int32_def)
  have seq: "rb_base_sequence batch \<ge> 0 \<Longrightarrow> sint (word_of_int (rb_base_sequence batch) + word_of_int i :: u32) = rb_base_sequence batch + i"
    using sint_word(2) [OF w(5)] by simp
  have ts: "wrap64 (rb_base_timestamp batch + wrap64 (rec_timestamp rec - rb_base_timestamp batch)) = rec_timestamp rec"
    using w(1) by (rule wrap64_delta)
  have off: "wrap64 (rb_base_offset batch + offset_delta batch rcount i) = rb_base_offset batch + offset_delta batch rcount i"
    using w(4) by (simp add: in_int64_def wrap64_small)
  have b: "rb_base_timestamp b = rb_base_timestamp batch" "rb_base_offset b = rb_base_offset batch"
    "rb_base_sequence b = rb_base_sequence batch" "rb_producer_id b = rb_producer_id batch"
    using assms(3) by (simp_all add: same_base_def)
  have stored: "\<lparr>rec_key = rec_key rec, rec_value = rec_value rec, rec_headers = rec_headers rec, rec_timestamp = rec_timestamp rec,
      rec_offset = rb_base_offset batch + offset_delta batch rcount i, rec_partition_id = 0, rec_sequence = q,
      rec_producer_id = rb_producer_id batch\<rparr> = stored_record batch rcount i rec"
    if "q = (if rb_base_sequence batch \<ge> 0 then rb_base_sequence batch + i else -1)" for q
    using that by (cases rec) (simp add: stored_record_def)
  have "\<not> 1000 < length (rec_headers rec)" using w(2) by simp
  then show ?thesis
    unfolding write_record_eq read_records.simps Let_def
    by (simp add: read_len [OF assms(2)]) (simp add: record_body_def wire s w hc seq ts off b stored split: sum.split)
qed

fun stored_records :: "RecordBatch \<Rightarrow> int \<Rightarrow> int \<Rightarrow> Record list \<Rightarrow> Record list" where
  "stored_records batch rcount i [] = []"
| "stored_records batch rcount i (rec # recs) = stored_record batch rcount i rec # stored_records batch rcount (i + 1) recs"

lemma length_stored_records [simp]: "length (stored_records batch rcount i recs) = length recs"
  by (induction recs arbitrary: i) simp_all

fun wf_records :: "RecordBatch \<Rightarrow> int \<Rightarrow> int \<Rightarrow> Record list \<Rightarrow> bool" where
  "wf_records batch rcount i [] \<longleftrightarrow> True"
| "wf_records batch rcount i (rec # recs) \<longleftrightarrow> wf_record batch rcount i rec \<and> wf_records batch rcount (i + 1) recs"

lemma read_records_write:
  assumes "wf_records batch rcount i recs" "length (write_records batch rcount i recs) < 2 ^ 31" "same_base b batch"
  shows "read_records b (length recs) i (write_records batch rcount i recs @ rest) = Inr (stored_records batch rcount i recs)"
  using assms(1,2)
proof (induction recs arbitrary: i)
  case (Cons rec recs)
  then have body: "length (record_body batch rcount i rec) < 2 ^ 31" by (simp add: write_record_eq)
  have IH: "read_records b (length recs) (i + 1) (write_records batch rcount (i + 1) recs @ rest) =
      Inr (stored_records batch rcount (i + 1) recs)"
    using Cons by simp
  show ?case
    using read_record_write [OF _ body assms(3), of "length recs" "write_records batch rcount (i + 1) recs @ rest"] Cons.prems IH
    by (simp del: read_records.simps)
qed simp

text \<open>Batches within the limits of the format: the fields fit their types, and the reader's limits hold.\<close>

definition wf_RecordBatch :: "RecordBatch \<Rightarrow> bool" where
  "wf_RecordBatch b \<longleftrightarrow>
     in_int64 (rb_base_offset b) \<and> in_int64 (rb_base_timestamp b) \<and> in_int64 (rb_max_timestamp b) \<and>
     in_int32 (rb_last_offset_delta b) \<and> in_int64 (rb_producer_id b) \<and>
     - (2 ^ 15) \<le> rb_producer_epoch b \<and> rb_producer_epoch b < 2 ^ 15 \<and> in_int32 (rb_base_sequence b) \<and>
     in_int32 (rb_partition_leader_epoch b) \<and> length (rb_records b) \<le> 100000 \<and>
     wf_records b (int (length (rb_records b))) 0 (rb_records b) \<and> length (seg_serialize_batch b) < 2 ^ 31"

text \<open>What the reader makes of a batch.\<close>

definition stored_batch :: "RecordBatch \<Rightarrow> RecordBatch" where
  "stored_batch b =
     b\<lparr>rb_compression := no_compression, rb_crc := read_le32 (drop 17 (seg_serialize_batch b)),
       rb_record_count := int (length (rb_records b)),
       rb_records := stored_records b (int (length (rb_records b))) 0 (rb_records b)\<rparr>"


text \<open>The part of a batch that the checksum covers, and the layout around it.\<close>

definition batch_tail :: "RecordBatch \<Rightarrow> bytes" where
  "batch_tail b =
     write_le16 (rb_attributes b) @ write_le32s (rb_last_offset_delta b)
     @ write_le64s (rb_base_timestamp b) @ write_le64s (rb_max_timestamp b)
     @ write_le64s (rb_producer_id b) @ write_le16 (word_of_int (rb_producer_epoch b))
     @ write_le32s (rb_base_sequence b) @ write_le32s (batch_rcount b)
     @ write_records b (batch_rcount b) 0 (take (nat (batch_rcount b)) (rb_records b))"

definition batch_layout :: "int \<Rightarrow> u32 \<Rightarrow> int \<Rightarrow> u32 \<Rightarrow> bytes \<Rightarrow> bytes" where
  "batch_layout base len epoch crc tail =
     write_le64s base @ write_le32 len @ write_le32s epoch @ [kRecordBatchMagic] @ write_le32 crc @ tail"

lemma serialize_layout:
  "seg_serialize_batch b = batch_layout (rb_base_offset b) (of_nat (9 + length (batch_tail b)))
     (rb_partition_leader_epoch b) (crc32c_span (batch_tail b)) (batch_tail b)"
proof -
  let ?out = "write_le64s (rb_base_offset b) @ write_le32 0 @ write_le32s (rb_partition_leader_epoch b) @ [kRecordBatchMagic] @ write_le32 0 @ batch_tail b"
  have s: "seg_serialize_batch b = (let out = patch 8 (write_le32 (of_nat (length ?out - 8 - 4))) ?out
      in patch 17 (write_le32 (seg_crc32c (drop 21 out))) out)"
    by (simp add: seg_serialize_batch_def batch_tail_def Let_def)
  have p: "patch 8 (write_le32 (of_nat (length ?out - 8 - 4))) ?out =
      (write_le64s (rb_base_offset b) @ write_le32 (of_nat (9 + length (batch_tail b))) @ write_le32s (rb_partition_leader_epoch b)
        @ [kRecordBatchMagic]) @ write_le32 0 @ batch_tail b" (is "_ = ?pre @ _ @ _")
    by (subst patch_middle) (simp_all add: add.commute)
  have "patch 17 (write_le32 c) (?pre @ write_le32 0 @ batch_tail b) = ?pre @ write_le32 c @ batch_tail b" for c
    by (rule patch_middle) simp_all
  then show ?thesis unfolding s Let_def p by (simp add: seg_crc32c_eq batch_layout_def)
qed

lemma read_layout [wire]:
  "in_int64 base \<Longrightarrow> read_le64s (batch_layout base len epoch crc tail) = base"
  "read_le32s (drop 8 (batch_layout base len epoch crc tail)) = sint len"
  "in_int32 epoch \<Longrightarrow> read_le32s (drop 12 (batch_layout base len epoch crc tail)) = epoch"
  "batch_layout base len epoch crc tail ! 16 = kRecordBatchMagic"
  "read_le32 (drop 17 (batch_layout base len epoch crc tail)) = crc"
  "length (batch_layout base len epoch crc tail) = 21 + length tail"
  "21 \<le> n \<Longrightarrow> drop n (batch_layout base len epoch crc tail) = drop (n - 21) tail"
proof -
  let ?l = "batch_layout base len epoch crc tail"
  show "in_int64 base \<Longrightarrow> read_le64s ?l = base" "in_int32 epoch \<Longrightarrow> read_le32s (drop 12 ?l) = epoch"
    "?l ! 16 = kRecordBatchMagic" "read_le32 (drop 17 ?l) = crc" "length ?l = 21 + length tail"
    by (simp_all add: batch_layout_def read_les read_le nth_append)
  show "read_le32s (drop 8 ?l) = sint len" by (simp add: batch_layout_def read_le read_le32s_def)
  have "drop 21 ?l = tail" by (simp add: batch_layout_def)
  then show "21 \<le> n \<Longrightarrow> drop n ?l = drop (n - 21) tail" by (metis drop_drop le_add_diff_inverse2)
qed

lemma batch_rcount_eq: "length (rb_records b) < 2 ^ 31 \<Longrightarrow> batch_rcount b = int (length (rb_records b))"
  using sint_word(2) [of "int (length (rb_records b))"] by (simp add: batch_rcount_def in_int32_def)

lemma tail_fields:
  assumes "wf_RecordBatch b"
  shows "read_le16 (batch_tail b) = rb_attributes b" "read_le32s (drop 2 (batch_tail b)) = rb_last_offset_delta b"
    "read_le64s (drop 6 (batch_tail b)) = rb_base_timestamp b" "read_le64s (drop 14 (batch_tail b)) = rb_max_timestamp b"
    "read_le64s (drop 22 (batch_tail b)) = rb_producer_id b" "sint (read_le16 (drop 30 (batch_tail b))) = rb_producer_epoch b"
    "read_le32s (drop 32 (batch_tail b)) = rb_base_sequence b"
    "read_le32s (drop 36 (batch_tail b)) = int (length (rb_records b))"
    "drop 40 (batch_tail b) = write_records b (int (length (rb_records b))) 0 (rb_records b)"
proof -
  have r: "batch_rcount b = int (length (rb_records b))" "in_int32 (int (length (rb_records b)))"
    using assms batch_rcount_eq [of b] by (simp_all add: wf_RecordBatch_def in_int32_def)
  have "sint (word_of_int (rb_producer_epoch b) :: 16 word) = rb_producer_epoch b"
    using assms by (simp add: wf_RecordBatch_def sint_sbintrunc' signed_take_bit_int_eq_self)
  then show "read_le16 (batch_tail b) = rb_attributes b" "read_le32s (drop 2 (batch_tail b)) = rb_last_offset_delta b"
    "read_le64s (drop 6 (batch_tail b)) = rb_base_timestamp b" "read_le64s (drop 14 (batch_tail b)) = rb_max_timestamp b"
    "read_le64s (drop 22 (batch_tail b)) = rb_producer_id b" "sint (read_le16 (drop 30 (batch_tail b))) = rb_producer_epoch b"
    "read_le32s (drop 32 (batch_tail b)) = rb_base_sequence b"
    "read_le32s (drop 36 (batch_tail b)) = int (length (rb_records b))"
    "drop 40 (batch_tail b) = write_records b (int (length (rb_records b))) 0 (rb_records b)"
    using assms r by (simp_all add: batch_tail_def wire wf_RecordBatch_def)
qed

text \<open>Reading a batch whose header may carry another checksum.\<close>

lemma read_with_crc:
  assumes "wf_RecordBatch b"
  shows "seg_deserialize_batch (batch_layout (rb_base_offset b) (of_nat (9 + length (batch_tail b)))
      (rb_partition_leader_epoch b) crc (batch_tail b)) e =
    (if crc \<noteq> 0 \<and> crc32c_span (batch_tail b) \<noteq> crc then Inl corrupt_message
     else Inr ((stored_batch b)\<lparr>rb_crc := crc\<rparr>))"
proof -
  define w :: u32 where "w = of_nat (9 + length (batch_tail b))"
  let ?l = "batch_layout (rb_base_offset b) w (rb_partition_leader_epoch b) crc (batch_tail b)"
  let ?h = "\<lambda>c. b\<lparr>rb_compression := no_compression, rb_crc := c, rb_record_count := 0, rb_records := []\<rparr>"
  note tail = tail_fields [OF assms]
  have len: "9 + length (batch_tail b) < 2 ^ 31"
    using assms by (simp add: wf_RecordBatch_def serialize_layout read_layout)
  then have "sint w = int (9 + length (batch_tail b))"
    using sint_word(2) [of "int (9 + length (batch_tail b))"] by (simp add: in_int32_def w_def)
  then have l: "read_le32s (drop 8 ?l) + 12 = int (length ?l)" by (simp add: read_layout)
  have "40 \<le> length (batch_tail b)" by (simp add: batch_tail_def)
  then have min: "\<not> length ?l < kMinBatchHeaderSize" by (simp add: read_layout kMinBatchHeaderSize_def)
  have wf: "in_int64 (rb_base_offset b)" "in_int32 (rb_partition_leader_epoch b)" "length (rb_records b) \<le> 100000"
    "wf_records b (int (length (rb_records b))) 0 (rb_records b)"
    using assms by (simp_all add: wf_RecordBatch_def)
  have h: "read_batch_header (batch_layout (rb_base_offset b) w (rb_partition_leader_epoch b) c (batch_tail b)) = ?h c" for c
    using wf by (intro RecordBatch.equality) (simp_all add: read_batch_header_def read_layout tail)
  have "length (drop 40 (batch_tail b)) < 2 ^ 31" using len by simp
  then have "length (write_records b (int (length (rb_records b))) 0 (rb_records b)) < 2 ^ 31" by (simp only: tail)
  from read_records_write [OF wf(4) this, of _ "[]"]
  have recs: "read_records (?h c) (length (rb_records b)) 0 (write_records b (int (length (rb_records b))) 0 (rb_records b)) =
      Inr (stored_records b (int (length (rb_records b))) 0 (rb_records b))" for c
    by (simp add: same_base_def)
  have "(read_le32s (drop 8 ?l) + 12) mod 2 ^ 64 = int (length ?l)"
    using len unfolding l by (simp add: read_layout)
  then show ?thesis
    unfolding seg_deserialize_batch_def Let_def w_def [symmetric] using min wf(3)
    by (simp add: read_layout tail h recs stored_batch_def seg_crc32c_eq)
qed

text \<open>
  C11: a record batch survives serialisation: what \<^verbatim>\<open>deserialize_batch\<close> returns for the bytes of
  \<^verbatim>\<open>serialize_batch\<close> is the batch with every key, value, header and timestamp. The record count is the
  number of records; offsets, sequence numbers and producer ids of the records are computed from the
  fields of the batch, and the partition, which is not stored, is 0.
\<close>

theorem batch_round_trip:
  assumes "wf_RecordBatch b"
  shows "seg_deserialize_batch (seg_serialize_batch b) e = Inr (stored_batch b)"
proof -
  have "(stored_batch b)\<lparr>rb_crc := crc32c_span (batch_tail b)\<rparr> = stored_batch b"
    by (simp add: stored_batch_def serialize_layout read_layout)
  then show ?thesis using read_with_crc [OF assms] by (simp add: serialize_layout)
qed


text \<open>A small batch, for concrete runs.\<close>

definition sample_record :: "bytes \<Rightarrow> bytes \<Rightarrow> Record" where
  "sample_record k v = \<lparr>rec_key = k, rec_value = v, rec_headers = [\<lparr>rh_key = [1], rh_value = [2, 3]\<rparr>], rec_timestamp = 1005,
     rec_offset = -1, rec_partition_id = 7, rec_sequence = 0, rec_producer_id = -1\<rparr>"

definition sample_batch :: RecordBatch where
  "sample_batch = default_RecordBatch\<lparr>rb_base_offset := 40, rb_base_timestamp := 1000, rb_max_timestamp := 1005,
     rb_last_offset_delta := 1, rb_base_sequence := 5, rb_records := [sample_record [9] [8, 7], sample_record [] [6]]\<rparr>"

lemma length_serialize: "length (seg_serialize_batch b) = 21 + length (batch_tail b)"
  by (simp add: serialize_layout read_layout)

lemma length_write_record:
  "length (write_record batch rcount i rec) \<le> record_buffer_size rec"
proof -
  have "fold (\<lambda>h n. n + (4 + length (rh_key h) + 4 + length (rh_value h))) hs m = m + length (concat (map write_record_header hs))" for hs m
    by (induction hs arbitrary: m) (simp_all add: write_record_header_def)
  then show ?thesis
    using write_svarint_length(2) [of "rec_timestamp rec - rb_base_timestamp batch"] write_svarint_length(2) [of "offset_delta batch rcount i"]
    by (simp add: write_record_eq record_body_def record_buffer_size_def kMaxVarint64Len_def)
qed

lemma fold_size: "fold (\<lambda>r n. n + record_buffer_size r) recs m = m + sum_list (map record_buffer_size recs)"
  by (induction recs arbitrary: m) simp_all

lemma length_write_records: "length (write_records batch rcount i recs) \<le> sum_list (map record_buffer_size recs)"
proof (induction recs arbitrary: i)
  case (Cons rec recs)
  show ?case using add_mono [OF length_write_record [of batch rcount i rec] Cons.IH [of "i + 1"]] by simp
qed simp

lemma sample_wf: "wf_RecordBatch sample_batch"
proof -
  have "length (seg_serialize_batch sample_batch) < 2 ^ 31"
    using length_write_records [of sample_batch 2 0 "rb_records sample_batch"] batch_rcount_eq [of sample_batch]
    by (simp add: length_serialize batch_tail_def sample_batch_def sample_record_def record_buffer_size_def kMaxVarint64Len_def)
  then show ?thesis
    by (simp add: wf_RecordBatch_def wf_record_def offset_delta_def in_int64_def in_int32_def)
      (simp add: sample_batch_def sample_record_def default_RecordBatch_def wf_record_def offset_delta_def in_int64_def in_int32_def)
qed

theorem batch_round_trip_witness:
  "seg_deserialize_batch (seg_serialize_batch sample_batch) 40 = Inr (stored_batch sample_batch) \<and>
   map rec_value (rb_records (stored_batch sample_batch)) = [[8, 7], [6]] \<and>
   map rec_offset (rb_records (stored_batch sample_batch)) = [40, 41]"
  using batch_round_trip [OF sample_wf, of 40]
  by (simp add: stored_batch_def sample_batch_def sample_record_def stored_record_def offset_delta_def default_RecordBatch_def)

text \<open>
  C40: serialisation stays inside its buffer: the bytes written are never more than the size computed before,
  which reserves the longest encoding for every varint.
\<close>

theorem serialize_within_buffer: "length (seg_serialize_batch b) \<le> batch_buffer_size b"
proof -
  let ?k = "nat (batch_rcount b)"
  have "length (write_records b (batch_rcount b) 0 (take ?k (rb_records b))) \<le> sum_list (map record_buffer_size (take ?k (rb_records b)))"
    by (rule length_write_records)
  also have "\<dots> \<le> sum_list (map record_buffer_size (take ?k (rb_records b) @ drop ?k (rb_records b)))"
    by (simp only: map_append sum_list_append le_add1)
  finally show ?thesis
    by (simp add: length_serialize batch_tail_def batch_buffer_size_def kMinBatchHeaderSize_def fold_size)
qed

text \<open>
  C12: corruption of a stored batch is detected: when one byte behind the checksum was replaced by another, the batch
  is refused, provided the stored checksum is not 0.
\<close>

theorem corrupt_batch_rejected:
  assumes "21 \<le> i" "i < length (seg_serialize_batch b)" "x \<noteq> seg_serialize_batch b ! i"
    "crc32c_span (drop 21 (seg_serialize_batch b)) \<noteq> 0"
  shows "seg_deserialize_batch ((seg_serialize_batch b)[i := x]) e = Inl corrupt_message"
proof -
  let ?t = "batch_tail b" and ?j = "i - 21"
  let ?pre = "take 21 (seg_serialize_batch b)"
  have t: "drop 21 (seg_serialize_batch b) = ?t" by (simp add: serialize_layout read_layout)
  then have split: "seg_serialize_batch b = ?pre @ ?t" "length ?pre = 21"
    using append_take_drop_id [of 21 "seg_serialize_batch b"] by (simp_all add: length_serialize)
  have "seg_serialize_batch b ! i = ?t ! ?j" using assms(1) split by (metis nth_append not_less)
  then have j: "?j < length ?t" "x \<noteq> ?t ! ?j" using assms(1-3) by (simp_all add: length_serialize)
  have upd: "(seg_serialize_batch b)[i := x] = ?pre @ ?t[?j := x]"
    using assms(1) split by (metis list_update_append not_less)
  have "?t = take ?j ?t @ ?t ! ?j # drop (Suc ?j) ?t" "?t[?j := x] = take ?j ?t @ x # drop (Suc ?j) ?t"
    using j(1) by (simp_all add: id_take_nth_drop upd_conv_take_nth_drop)
  then have "crc32c_span (?t[?j := x]) \<noteq> crc32c_span ?t" using crc32c_detects_byte_change [OF j(2)] by metis
  moreover have "read_le32 (drop 17 ((seg_serialize_batch b)[i := x])) = crc32c_span ?t"
  proof -
    have "take 21 ((seg_serialize_batch b)[i := x]) = take 21 (seg_serialize_batch b)" using assms(1) by simp
    then have "drop 17 ((seg_serialize_batch b)[i := x]) ! k = drop 17 (seg_serialize_batch b) ! k" if "k < 4" for k
      using that assms(1,2) by simp
    then have "read_le32 (drop 17 ((seg_serialize_batch b)[i := x])) = read_le32 (drop 17 (seg_serialize_batch b))"
      unfolding read_le32_def by simp
    then show ?thesis by (simp add: serialize_layout read_layout)
  qed
  moreover have "crc32c_span ?t \<noteq> 0" using assms(4) t by simp
  ultimately show ?thesis using split upd
    by (simp add: seg_deserialize_batch_def Let_def seg_crc32c_eq)
qed



text \<open>The checksum on integers, for concrete inputs.\<close>

definition crc_step :: "int \<Rightarrow> int" where
  "crc_step c = (if even c then c div 2 else (c div 2) XOR 0x82F63B78)"

definition crc_byte :: "int \<Rightarrow> int \<Rightarrow> int" where
  "crc_byte b c = crc_step (crc_step (crc_step (crc_step (crc_step (crc_step (crc_step (crc_step (c XOR b))))))))"

lemma uint_crc32c_shift: "uint (crc32c_shift c) = crc_step (uint c)"
proof -
  have "bit (uint c) 0 \<longleftrightarrow> bit c 0" by (simp add: bit_unsigned_iff)
  then have "even (uint c) \<longleftrightarrow> \<not> bit c 0" by (auto simp: bit_0)
  then show ?thesis
    by (simp add: crc32c_shift_bit crc_step_def unsigned_xor_eq drop_bit_eq_div uint_div)
qed

lemma uint_crc_byte: "uint ((crc32c_shift ^^ 8) (c XOR ucast (b :: byte))) = crc_byte (uint b) (uint c)"
proof -
  have "uint (c XOR ucast b) = uint c XOR uint b"
    by (rule bit_eqI) (auto simp: bit_simps dest: bit_imp_le_length)
  moreover have "(crc32c_shift ^^ 8) x = crc32c_shift (crc32c_shift (crc32c_shift (crc32c_shift (crc32c_shift
      (crc32c_shift (crc32c_shift (crc32c_shift x)))))))" for x
    by (simp add: eval_nat_numeral)
  ultimately show ?thesis by (simp only: crc_byte_def uint_crc32c_shift)
qed

lemma crc32c_span_int: "uint (crc32c_span data) = fold crc_byte (map uint data) 0xFFFFFFFF XOR 0xFFFFFFFF"
proof -
  have "uint (fold (\<lambda>b c. (crc32c_shift ^^ 8) (c XOR ucast b)) data c) = fold crc_byte (map uint data) (uint c)" for c
    by (induction data arbitrary: c) (simp_all add: uint_crc_byte)
  then show ?thesis by (simp add: crc32c_span_def crc32c_update_bitwise unsigned_xor_eq)
qed

definition blank_batch :: RecordBatch where
  "blank_batch = default_RecordBatch\<lparr>rb_base_offset := 0, rb_producer_id := 0, rb_producer_epoch := 0, rb_base_sequence := 0\<rparr>"

lemma blank_tail: "batch_tail blank_batch = replicate 40 0"
  by (simp add: batch_tail_def blank_batch_def default_RecordBatch_def batch_rcount_def write_le16_def write_le32s_def
      write_le32_def write_le64s_def write_le64_def numeral_eq_Suc)

theorem corrupt_batch_rejected_witness:
  "seg_deserialize_batch ((seg_serialize_batch blank_batch)[60 := 1]) 0 = Inl corrupt_message"
proof (rule corrupt_batch_rejected)
  have d: "drop 21 (seg_serialize_batch blank_batch) = replicate 40 0" by (simp add: serialize_layout read_layout blank_tail)
  have "fold crc_byte (map uint (replicate 40 (0 :: byte))) 0xFFFFFFFF XOR 0xFFFFFFFF \<noteq> 0" by code_simp
  then show "crc32c_span (drop 21 (seg_serialize_batch blank_batch)) \<noteq> 0" unfolding d by (metis crc32c_span_int uint_0_eq)
  show len: "60 < length (seg_serialize_batch blank_batch)" by (simp add: length_serialize blank_tail)
  have "seg_serialize_batch blank_batch ! 60 = drop 21 (seg_serialize_batch blank_batch) ! 39" using len by simp
  then show "1 \<noteq> seg_serialize_batch blank_batch ! 60" unfolding d by simp
qed simp

end
