(* ===== verification/Segment.thy ===== *)
theory Segment
  imports Segment_Codec Offset_Index "HOL-Library.AList"
begin

text \<open>
  \<^verbatim>\<open>Segment\<close> of \<^verbatim>\<open>src/torrent/storage/segment.cpp\<close>, the files of a log segment included. The data file and
  the companion index file are byte lists (\<open>None\<close>: no such file). Reads through the mapping and reads
  through the descriptor see the same bytes, so the mapping is not part of the state. Outcomes of
  system calls and the clock are the record \<open>seg_io\<close>.

  Every public method locks \<^verbatim>\<open>mutex_\<close>, which is not recursive. A method that calls another one
  that locks it again waits for ever (\<open>Blocked\<close>) and keeps the mutex (\<open>sg_mutex_held\<close>).
\<close>

section \<open>State\<close>

datatype SegmentState = seg_uninitialized | seg_active | seg_sealed | seg_closed | seg_corrupted

record SegmentHeader =
  sh_magic :: u32
  sh_format_version :: "16 word"
  sh_header_size :: "16 word"
  sh_header_crc :: u32
  sh_base_offset :: log_offset
  sh_segment_id :: u64
  sh_created_at :: timestamp_ms
  sh_compression :: byte
  sh_flags :: byte

record SegmentConfig =
  sc_file_path :: string
  sc_index_file_path :: string
  sc_base_offset :: log_offset
  sc_segment_id :: u64
  sc_compression :: compression_type
  sc_max_segment_bytes :: int
  sc_max_segment_age_ms :: timestamp_ms
  sc_index_interval_bytes :: int
  sc_preallocate :: bool
  sc_read_only :: bool
  sc_sync_on_append :: bool

record Segment =
  sg_config :: SegmentConfig
  sg_header :: SegmentHeader
  sg_state :: SegmentState
  sg_next_offset :: log_offset
  sg_file_size :: int
  sg_max_timestamp :: timestamp_ms
  sg_fd :: bool
  sg_sparse_index :: "SparseIndexEntry list"
  sg_index_dirty :: bool
  sg_bytes_written :: int
  sg_batches_appended :: int
  sg_records_appended :: int
  sg_mutex_held :: bool
  sg_index_mutex_held :: bool
  sg_file :: "bytes option"
  sg_index_file :: "bytes option"

text \<open>\<open>io_write k\<close> is the outcome of the \<open>k\<close>-th write to the data file: \<open>None\<close> writes everything, \<open>Some n\<close>
  fails after \<open>n\<close> bytes; \<open>io_index_write\<close> the same for the index file as a whole.\<close>

record seg_io =
  io_now :: timestamp_ms
  io_open :: bool
  io_write :: "nat \<Rightarrow> nat option"
  io_ftruncate :: bool
  io_fsync :: bool
  io_index_open :: bool
  io_index_write :: "nat option"
  io_index_fsync :: bool

definition kSegmentMagic :: u32 where "kSegmentMagic = 0x47535154"
definition kSegmentFormatVersion :: "16 word" where "kSegmentFormatVersion = 1"
definition kSegmentHeaderSize :: int where "kSegmentHeaderSize = 64"
definition kDefaultIndexInterval :: int where "kDefaultIndexInterval = 4096"
definition kMaxInMemoryIndexEntries :: nat where "kMaxInMemoryIndexEntries = 100000"
definition kFileExtendStep :: int where "kFileExtendStep = 65536"
definition seg_kMaxBatchBytes :: int where "seg_kMaxBatchBytes = 134217728"

definition header_is_sealed :: "SegmentHeader \<Rightarrow> bool" where "header_is_sealed h \<longleftrightarrow> sh_flags h AND 1 \<noteq> 0"

definition header_is_valid :: "SegmentHeader \<Rightarrow> bool" where
  "header_is_valid h \<longleftrightarrow> sh_magic h = kSegmentMagic \<and> sh_format_version h = kSegmentFormatVersion \<and>
     sh_header_size h = 64 \<and> sh_base_offset h \<ge> 0"

definition compression_byte :: "compression_type \<Rightarrow> byte" where
  "compression_byte c = (case c of no_compression \<Rightarrow> 0 | gzip \<Rightarrow> 1 | snappy \<Rightarrow> 2 | lz4 \<Rightarrow> 3 | zstd \<Rightarrow> 4)"

definition seg_is_open :: "Segment \<Rightarrow> bool" where
  "seg_is_open s \<longleftrightarrow> sg_state s = seg_active \<or> sg_state s = seg_sealed"

definition seg_is_active :: "Segment \<Rightarrow> bool" where
  "seg_is_active s \<longleftrightarrow> sg_state s = seg_active \<and> \<not> header_is_sealed (sg_header s) \<and> \<not> sc_read_only (sg_config s)"

definition seg_is_sealed :: "Segment \<Rightarrow> bool" where
  "seg_is_sealed s \<longleftrightarrow> sg_state s = seg_sealed \<or> header_is_sealed (sg_header s)"

definition mark_corrupted :: "Segment \<Rightarrow> Segment" where "mark_corrupted s = s\<lparr>sg_state := seg_corrupted\<rparr>"

definition default_header :: SegmentHeader where
  "default_header = \<lparr>sh_magic = kSegmentMagic, sh_format_version = kSegmentFormatVersion, sh_header_size = 64, sh_header_crc = 0,
     sh_base_offset = -1, sh_segment_id = 0, sh_created_at = 0, sh_compression = 0, sh_flags = 0\<rparr>"

text \<open>The constructor, over the files that exist.\<close>

definition new_segment :: "timestamp_ms \<Rightarrow> SegmentConfig \<Rightarrow> bytes option \<Rightarrow> bytes option \<Rightarrow> Segment" where
  "new_segment now config file index_file =
     (let s = \<lparr>sg_config = config, sg_header = default_header, sg_state = seg_uninitialized, sg_next_offset = -1,
           sg_file_size = 0, sg_max_timestamp = 0, sg_fd = False, sg_sparse_index = [], sg_index_dirty = False,
           sg_bytes_written = 0, sg_batches_appended = 0, sg_records_appended = 0, sg_mutex_held = False,
           sg_index_mutex_held = False, sg_file = file, sg_index_file = index_file\<rparr>
      in if sc_file_path config = [] then mark_corrupted s
      else let config = (if sc_max_segment_bytes config \<le> 0 then config\<lparr>sc_max_segment_bytes := 1073741824\<rparr> else config);
               config = (if sc_index_interval_bytes config \<le> 0 then config\<lparr>sc_index_interval_bytes := kDefaultIndexInterval\<rparr> else config)
      in s\<lparr>sg_config := config,
           sg_header := default_header\<lparr>sh_base_offset := sc_base_offset config, sh_segment_id := sc_segment_id config,
              sh_compression := compression_byte (sc_compression config), sh_created_at := now\<rparr>,
           sg_next_offset := sc_base_offset config\<rparr>)"

section \<open>Files\<close>

text \<open>\<^verbatim>\<open>ftruncate\<close> and \<^verbatim>\<open>pwrite\<close>; a gap is filled with zeros.\<close>

definition ftruncate :: "int \<Rightarrow> bytes \<Rightarrow> bytes" where
  "ftruncate n file = take (nat n) (file @ replicate (nat n - length file) 0)"

definition overlay :: "int \<Rightarrow> bytes \<Rightarrow> bytes \<Rightarrow> bytes" where
  "overlay pos bs file = ftruncate pos file @ bs @ drop (nat pos + length bs) file"

definition data_file :: "Segment \<Rightarrow> bytes" where
  "data_file s = (case sg_file s of None \<Rightarrow> [] | Some f \<Rightarrow> f)"

definition compute_header_crc :: "SegmentHeader \<Rightarrow> u32" where
  "compute_header_crc h =
     seg_crc32c (write_le64s (sh_base_offset h) @ write_le64 (sh_segment_id h) @ write_le64s (sh_created_at h)
       @ [sh_compression h, sh_flags h] @ replicate 22 0)"

definition validate_header_crc :: "SegmentHeader \<Rightarrow> bool" where
  "validate_header_crc h \<longleftrightarrow> compute_header_crc h = sh_header_crc h"

definition header_bytes :: "SegmentHeader \<Rightarrow> bytes" where
  "header_bytes h =
     write_le32 (sh_magic h) @ write_le16 (sh_format_version h) @ write_le16 (sh_header_size h) @ write_le32 (sh_header_crc h)
     @ replicate 4 0 @ write_le64s (sh_base_offset h) @ write_le64 (sh_segment_id h) @ write_le64s (sh_created_at h)
     @ [sh_compression h, sh_flags h] @ replicate 22 0"

definition parse_header :: "bytes \<Rightarrow> SegmentHeader" where
  "parse_header raw =
     \<lparr>sh_magic = read_le32 raw, sh_format_version = read_le16 (drop 4 raw), sh_header_size = read_le16 (drop 6 raw),
      sh_header_crc = read_le32 (drop 8 raw), sh_base_offset = read_le64s (drop 16 raw), sh_segment_id = read_le64 (drop 24 raw),
      sh_created_at = read_le64s (drop 32 raw), sh_compression = raw ! 40, sh_flags = raw ! 41\<rparr>"

text \<open>The error, if any, and the state.\<close>

definition read_header :: "Segment \<Rightarrow> error_code option \<times> Segment" where
  "read_header s =
     (if \<not> sg_fd s then (Some storage_unavailable, s)
      else let raw = take 64 (data_file s)
      in if length raw < 64 then (Some corrupt_message, s)
      else let s = s\<lparr>sg_header := parse_header raw\<rparr>
      in if \<not> header_is_valid (sg_header s) then (Some corrupt_message, s)
      else if \<not> validate_header_crc (sg_header s) then (Some corrupt_message, s)
      else (None, s))"

definition write_header :: "seg_io \<Rightarrow> Segment \<Rightarrow> error_code option \<times> Segment" where
  "write_header io s =
     (if \<not> sg_fd s then (Some storage_unavailable, s)
      else let s = s\<lparr>sg_header := (sg_header s)\<lparr>sh_header_crc := compute_header_crc (sg_header s)\<rparr>\<rparr>;
               raw = header_bytes (sg_header s)
      in case io_write io 0 of
           Some n \<Rightarrow> (Some storage_unavailable, s\<lparr>sg_file := Some (overlay 0 (take n raw) (data_file s))\<rparr>)
         | None \<Rightarrow> (None, s\<lparr>sg_file := Some (overlay 0 raw (data_file s))\<rparr>))"

definition prepare_file :: "seg_io \<Rightarrow> Segment \<Rightarrow> error_code option \<times> Segment" where
  "prepare_file io s =
     (if sg_file s \<noteq> None
      then if \<not> io_open io then (Some storage_unavailable, s)
      else case read_header (s\<lparr>sg_fd := True\<rparr>) of
         (Some e, s) \<Rightarrow> (Some e, s\<lparr>sg_fd := False\<rparr>)
       | (None, s) \<Rightarrow>
           let c = sg_config s; h = sg_header s
           in if sc_segment_id c \<noteq> 0 \<and> sh_segment_id h \<noteq> sc_segment_id c then (Some corrupt_message, s\<lparr>sg_fd := False\<rparr>)
           else if sc_base_offset c \<noteq> -1 \<and> sc_base_offset c \<noteq> 0 \<and> sh_base_offset h \<noteq> sc_base_offset c
             then (Some corrupt_message, s\<lparr>sg_fd := False\<rparr>)
           else (None, if sc_base_offset c = 0 \<and> sh_base_offset h > 0
                       then s\<lparr>sg_config := c\<lparr>sc_base_offset := sh_base_offset h\<rparr>\<rparr> else s)
      else if \<not> io_open io then (Some storage_unavailable, s)
      else let c = sg_config s;
               s = s\<lparr>sg_fd := True, sg_file := Some [],
                     sg_header := \<lparr>sh_magic = kSegmentMagic, sh_format_version = kSegmentFormatVersion, sh_header_size = 64,
                        sh_header_crc = 0, sh_base_offset = sc_base_offset c, sh_segment_id = sc_segment_id c,
                        sh_created_at = io_now io, sh_compression = compression_byte (sc_compression c), sh_flags = 0\<rparr>\<rparr>
      in case write_header io s of
           (Some e, s) \<Rightarrow> (Some e, s\<lparr>sg_fd := False\<rparr>)
         | (None, s) \<Rightarrow>
             if sc_preallocate c
             then if \<not> io_ftruncate io then (Some storage_unavailable, s\<lparr>sg_fd := False\<rparr>)
                  else (None, s\<lparr>sg_file := Some (ftruncate (sc_max_segment_bytes c) (data_file s))\<rparr>)
             else (None, s))"

definition extend_file :: "seg_io \<Rightarrow> int \<Rightarrow> Segment \<Rightarrow> error_code option \<times> Segment" where
  "extend_file io additional_bytes s =
     (if \<not> sg_fd s then (Some storage_unavailable, s)
      else let new_size = sg_file_size s + additional_bytes;
               new_size = (new_size + kFileExtendStep - 1) div kFileExtendStep * kFileExtendStep
      in if \<not> io_ftruncate io then (Some storage_unavailable, s)
      else (None, s\<lparr>sg_file := Some (ftruncate new_size (data_file s)), sg_file_size := new_size\<rparr>))"

section \<open>The sparse index\<close>

definition downsample :: "SparseIndexEntry list \<Rightarrow> SparseIndexEntry list" where
  "downsample es = map ((!) es) (filter even [0..<length es])"

definition update_sparse_index :: "log_offset \<Rightarrow> int \<Rightarrow> timestamp_ms \<Rightarrow> Segment \<Rightarrow> Segment" where
  "update_sparse_index base_offset file_position ts s =
     (let es = sg_sparse_index s;
          should_add = (es = []);
          should_add = (should_add \<or> file_position - si_file_position (last es) \<ge> sc_index_interval_bytes (sg_config s));
          should_add = (should_add \<or> base_offset - si_offset (last es) \<ge> 100)
      in if \<not> should_add
         then (if ts > si_timestamp (last es)
               then s\<lparr>sg_sparse_index := butlast es @ [(last es)\<lparr>si_timestamp := ts\<rparr>], sg_index_dirty := True\<rparr> else s)
         else let entry = \<lparr>si_offset = base_offset, si_file_position = file_position, si_timestamp = ts\<rparr>;
                  it = lower_bound_by si_offset es base_offset;
                  es = take it es @ entry # drop it es;
                  es = (if length es > kMaxInMemoryIndexEntries then downsample es else es)
              in s\<lparr>sg_sparse_index := es, sg_index_dirty := True\<rparr>)"

definition prune_sparse_index :: "log_offset \<Rightarrow> Segment \<Rightarrow> Segment" where
  "prune_sparse_index from_offset s =
     (let es = sg_sparse_index s
      in if es = [] then s
      else let it = lower_bound_by si_offset es from_offset;
               es = (if it = 0 then [] else if it \<noteq> length es then take it es else es)
      in s\<lparr>sg_sparse_index := es, sg_index_dirty := True,
           sg_max_timestamp := (if es \<noteq> [] then si_timestamp (last es) else 0)\<rparr>)"

definition find_position :: "log_offset \<Rightarrow> Segment \<Rightarrow> int option" where
  "find_position target s =
     (let es = sg_sparse_index s
      in if es = [] then (if sg_file_size s > kSegmentHeaderSize then Some kSegmentHeaderSize else None)
      else let it = upper_bound_by si_offset es target
      in if it = 0 then (if target \<ge> sh_base_offset (sg_header s) then Some kSegmentHeaderSize else None)
      else Some (si_file_position (es ! (it - 1))))"

definition find_offset_by_timestamp :: "timestamp_ms \<Rightarrow> Segment \<Rightarrow> error_code + log_offset" where
  "find_offset_by_timestamp ts s =
     (let es = sg_sparse_index s
      in if es = [] then Inl offset_out_of_range
      else let it = lower_bound_by si_timestamp es ts
      in if it = length es then Inr (si_offset (last es)) else Inr (si_offset (es ! it)))"

text \<open>The index file: 16 bytes of header and 24 per entry.\<close>

definition index_entry_bytes :: "SparseIndexEntry \<Rightarrow> bytes" where
  "index_entry_bytes e = write_le64s (si_offset e) @ write_le64s (si_file_position e) @ write_le64s (si_timestamp e)"

definition index_file_bytes :: "SparseIndexEntry list \<Rightarrow> bytes" where
  "index_file_bytes es =
     [0x54, 0x51, 0x49, 0x58] @ write_le16 1 @ write_le32 (of_nat (length es)) @ replicate 6 0 @ concat (map index_entry_bytes es)"

definition flush_index :: "seg_io \<Rightarrow> Segment \<Rightarrow> unit outcome \<times> Segment" where
  "flush_index io s =
     (if sg_index_mutex_held s then (Blocked, s)
      else if sg_sparse_index s = [] \<and> \<not> sg_index_dirty s then (Returned (Inr ()), s)
      else if \<not> io_index_open io then (Returned (Inl storage_unavailable), s)
      else case io_index_write io of
             Some n \<Rightarrow> (Returned (Inl storage_unavailable), s\<lparr>sg_index_file := Some (take n (index_file_bytes (sg_sparse_index s)))\<rparr>)
           | None \<Rightarrow>
               let s = s\<lparr>sg_index_file := Some (index_file_bytes (sg_sparse_index s))\<rparr>
               in if \<not> io_index_fsync io then (Returned (Inl storage_unavailable), s)
                  else (Returned (Inr ()), s\<lparr>sg_index_dirty := False\<rparr>))"

definition read_index_entry :: "bytes \<Rightarrow> SparseIndexEntry" where
  "read_index_entry p = \<lparr>si_offset = read_le64s p, si_file_position = read_le64s (drop 8 p), si_timestamp = read_le64s (drop 16 p)\<rparr>"

fun read_index_entries :: "nat \<Rightarrow> bytes \<Rightarrow> SparseIndexEntry list" where
  "read_index_entries 0 p = []"
| "read_index_entries (Suc n) p = read_index_entry p # read_index_entries n (drop 24 p)"

definition load_index :: "seg_io \<Rightarrow> Segment \<Rightarrow> error_code option \<times> Segment" where
  "load_index io s =
     (case sg_index_file s of
        None \<Rightarrow> (Some offset_out_of_range, s)
      | Some f \<Rightarrow>
          if \<not> io_index_open io then (Some storage_unavailable, s)
          else if length f < 16 then (Some corrupt_message, s)
          else if take 4 f \<noteq> [0x54, 0x51, 0x49, 0x58] then (Some corrupt_message, s)
          else if read_le16 (drop 4 f) \<noteq> 1 then (Some corrupt_message, s)
          else let entry_count = unat (read_le32 (drop 6 f))
          in if entry_count = 0 then (None, s\<lparr>sg_sparse_index := [], sg_index_dirty := False\<rparr>)
          else if length f < 16 + entry_count * 24 then (Some corrupt_message, s)
          else (None, s\<lparr>sg_sparse_index := read_index_entries entry_count (drop 16 f), sg_index_dirty := False\<rparr>))"


section \<open>Rebuilding the index\<close>

text \<open>
  The loops over the file parse the batch at a position: the base offset and the bytes of the batch.
  \<open>None\<close> is a \<^verbatim>\<open>break\<close>: end of the data, a short read, an impossible length. \<open>want\<close> is the size of the
  buffer the caller reads the batch header into.
\<close>

definition seg_batch_at :: "int \<Rightarrow> bytes \<Rightarrow> int \<Rightarrow> int \<Rightarrow> (log_offset \<times> bytes) option" where
  "seg_batch_at want file file_sz pos =
     (if \<not> pos < file_sz \<or> pos + 12 > file_sz then None
      else let to_read = min want (file_sz - pos); bh = take (nat to_read) (drop (nat pos) file)
      in if int (length bh) \<noteq> to_read then None
      else let bo = read_le64s bh; blen = read_le32s (drop 8 bh)
      in if blen \<le> 0 \<or> blen > seg_kMaxBatchBytes then None
      else let batch_total = 12 + blen
      in if pos + batch_total > file_sz then None
      else let buf = take (nat batch_total) (drop (nat pos) file)
      in if int (length buf) \<noteq> batch_total then None
      else Some (bo, buf))"

lemma seg_batch_at_SomeD:
  assumes "seg_batch_at want file file_sz pos = Some (bo, buf)"
  shows "\<exists>blen. 0 < blen \<and> pos + (12 + blen) \<le> file_sz \<and> int (length buf) = 12 + blen \<and>
    buf = take (nat (12 + blen)) (drop (nat pos) file)"
  using assms unfolding seg_batch_at_def Let_def
  by (simp only: not_le not_less option.inject prod.inject option.distinct de_Morgan_disj if_split_eq1 split: if_splits)
     (metis not_le)

lemma seg_batch_at_progress:
  assumes "seg_batch_at want file file_sz pos = Some (bo, buf)"
  shows "pos < file_sz" "pos + int (length buf) \<le> file_sz" "12 < length buf" "buf = take (length buf) (drop (nat pos) file)"
  using seg_batch_at_SomeD [OF assms] by (auto simp: min_def)

text \<open>The index built so far and the greatest timestamp. The timestamps are read at fixed positions; where the
  batch is shorter than those, the code reads past its buffer and the model reads zeros.\<close>

definition effective_timestamp :: "bytes \<Rightarrow> timestamp_ms" where
  "effective_timestamp buf =
     (let base_ts = read_le64s (drop 27 buf); batch_max_ts = read_le64s (drop 35 buf)
      in if batch_max_ts > 0 then batch_max_ts else base_ts)"

function rebuild_loop :: "int \<Rightarrow> bytes \<Rightarrow> int \<Rightarrow> int \<Rightarrow> int \<Rightarrow> SparseIndexEntry list \<Rightarrow> timestamp_ms \<Rightarrow> SparseIndexEntry list \<times> timestamp_ms" where
  "rebuild_loop interval file file_sz pos last_index_pos es max_ts =
     (case seg_batch_at 16 file file_sz pos of
        None \<Rightarrow> (es, max_ts)
      | Some (bo, buf) \<Rightarrow>
          let ts = effective_timestamp buf; indexed = (pos - last_index_pos \<ge> interval \<or> es = [])
          in rebuild_loop interval file file_sz (pos + int (length buf))
               (if indexed then pos else last_index_pos)
               (if indexed then es @ [\<lparr>si_offset = bo, si_file_position = pos, si_timestamp = ts\<rparr>] else es)
               (max ts max_ts))"
  by pat_completeness auto
termination
  by (relation "measure (\<lambda>(i, f, sz, pos, l, es, m). nat (sz - pos))") (auto dest: seg_batch_at_progress)

declare rebuild_loop.simps [simp del]

lemma length_downsample: "length (downsample es) = (length es + 1) div 2"
  by (simp add: downsample_def length_filter_even)

function downsample_all :: "SparseIndexEntry list \<Rightarrow> SparseIndexEntry list" where
  "downsample_all es = (if length es > kMaxInMemoryIndexEntries then downsample_all (downsample es) else es)"
  by pat_completeness auto
termination
  by (relation "measure length") (auto simp: length_downsample kMaxInMemoryIndexEntries_def)

declare downsample_all.simps [simp del]

text \<open>\<^verbatim>\<open>rebuild_index\<close> calls \<^verbatim>\<open>flush_index\<close> with \<^verbatim>\<open>index_mutex_\<close> held.\<close>

definition rebuild_index :: "seg_io \<Rightarrow> Segment \<Rightarrow> unit outcome \<times> Segment" where
  "rebuild_index io s =
     (if sg_mutex_held s \<or> sg_index_mutex_held s then (Blocked, s)
      else if \<not> sg_fd s then (Returned (Inl storage_unavailable), s)
      else if sg_file_size s \<le> kSegmentHeaderSize
        then (Returned (Inr ()), s\<lparr>sg_sparse_index := [], sg_index_dirty := False\<rparr>)
      else let (es, max_ts) = rebuild_loop (sc_index_interval_bytes (sg_config s)) (data_file s) (sg_file_size s) kSegmentHeaderSize 0 [] 0;
               s = (if max_ts > 0 then s\<lparr>sg_max_timestamp := max_ts\<rparr> else s);
               s = s\<lparr>sg_sparse_index := downsample_all es, sg_index_dirty := True, sg_index_mutex_held := True\<rparr>;
               (r, s) = flush_index io s
      in case r of
           Blocked \<Rightarrow> (Blocked, s\<lparr>sg_mutex_held := True\<rparr>)
         | Returned e \<Rightarrow> (Returned (Inr ()), s\<lparr>sg_index_mutex_held := False\<rparr>))"

section \<open>Opening and closing\<close>

text \<open>The scan from the last index entry for the next offset.\<close>

function scan_next_offset :: "bytes \<Rightarrow> int \<Rightarrow> int \<Rightarrow> log_offset \<Rightarrow> log_offset" where
  "scan_next_offset file file_sz pos cur_offset =
     (if \<not> pos < file_sz \<or> pos + 12 > file_sz then cur_offset
      else let bh = take 12 (drop (nat pos) file)
      in if length bh \<noteq> 12 then cur_offset
      else let bo = read_le64s bh; blen = read_le32s (drop 8 bh)
      in if blen \<le> 0 \<or> blen > seg_kMaxBatchBytes then cur_offset
      else scan_next_offset file file_sz (pos + (8 + 4 + blen)) (bo + 1))"
  by pat_completeness auto
termination by (relation "measure (\<lambda>(f, sz, pos, c). nat (sz - pos))") auto

declare scan_next_offset.simps [simp del]

text \<open>\<^verbatim>\<open>open\<close> holds \<^verbatim>\<open>mutex_\<close>: a call of \<^verbatim>\<open>rebuild_index\<close> from it does not return.\<close>

definition seg_finish_open :: "Segment \<Rightarrow> Segment" where
  "seg_finish_open s =
     (let sz = int (length (data_file s)); es = sg_sparse_index s;
          s = (if sz \<le> kSegmentHeaderSize then s\<lparr>sg_next_offset := sh_base_offset (sg_header s)\<rparr>
               else if es \<noteq> [] then s\<lparr>sg_next_offset := scan_next_offset (data_file s) sz (si_file_position (last es)) (si_offset (last es))\<rparr>
               else s);
          s = s\<lparr>sg_state := (if header_is_sealed (sg_header s) \<or> sc_read_only (sg_config s) then seg_sealed else seg_active)\<rparr>
      in if es \<noteq> [] then s\<lparr>sg_max_timestamp := si_timestamp (last es)\<rparr> else s)"

definition seg_open :: "seg_io \<Rightarrow> Segment \<Rightarrow> unit outcome \<times> Segment" where
  "seg_open io s =
     (if sg_mutex_held s then (Blocked, s)
      else if sg_state s = seg_active \<or> sg_state s = seg_sealed then (Returned (Inr ()), s)
      else if sg_state s = seg_corrupted then (Returned (Inl segment_corrupted), s)
      else case prepare_file io s of
         (Some e, s) \<Rightarrow> (Returned (Inl e), mark_corrupted s)
       | (None, s) \<Rightarrow>
          if \<not> header_is_valid (sg_header s) then (Returned (Inl segment_corrupted), mark_corrupted s)
          else if \<not> validate_header_crc (sg_header s) then (Returned (Inl corrupt_message), mark_corrupted s)
          else let s = s\<lparr>sg_file_size := int (length (data_file s))\<rparr>
          in case load_index io s of
               (Some e, s) \<Rightarrow> (Blocked, s\<lparr>sg_mutex_held := True\<rparr>)
             | (None, s) \<Rightarrow>
                 if sg_sparse_index s = [] \<and> sg_file_size s > kSegmentHeaderSize then (Blocked, s\<lparr>sg_mutex_held := True\<rparr>)
                 else (Returned (Inr ()), seg_finish_open s))"

definition seg_flush :: "seg_io \<Rightarrow> Segment \<Rightarrow> unit outcome \<times> Segment" where
  "seg_flush io s =
     (if sg_mutex_held s then (Blocked, s)
      else if \<not> sg_fd s then (Returned (Inl storage_unavailable), s)
      else if \<not> io_fsync io then (Returned (Inl storage_unavailable), s)
      else (Returned (Inr ()), s))"

definition seg_fsync :: "seg_io \<Rightarrow> Segment \<Rightarrow> unit outcome \<times> Segment" where
  "seg_fsync io s =
     (if sg_mutex_held s then (Blocked, s)
      else if \<not> sg_fd s then (Returned (Inl storage_unavailable), s)
      else if \<not> io_fsync io then (Returned (Inl storage_unavailable), s)
      else case flush_index io s of
             (Blocked, s) \<Rightarrow> (Blocked, s\<lparr>sg_mutex_held := True\<rparr>)
           | (Returned e, s) \<Rightarrow> (Returned (Inr ()), s))"

text \<open>\<^verbatim>\<open>close\<close> flushes an open file with \<^verbatim>\<open>mutex_\<close> held.\<close>

definition seg_close :: "Segment \<Rightarrow> unit outcome \<times> Segment" where
  "seg_close s =
     (if sg_mutex_held s then (Blocked, s)
      else if sg_state s = seg_closed then (Returned (Inr ()), s)
      else if sg_state s = seg_uninitialized then (Returned (Inr ()), s\<lparr>sg_state := seg_closed\<rparr>)
      else if sg_fd s then (Blocked, s\<lparr>sg_mutex_held := True\<rparr>)
      else (Returned (Inr ()), s\<lparr>sg_state := seg_closed, sg_file_size := 0, sg_next_offset := -1\<rparr>))"

section \<open>Writing\<close>

record SegmentAppendResult =
  ar_base_offset :: log_offset
  ar_file_position :: int
  ar_batches_written :: int
  ar_records_written :: int
  ar_append_time :: timestamp_ms

text \<open>The base offset and then the checksum are written over the serialised bytes.\<close>

definition stamp :: "log_offset \<Rightarrow> bytes \<Rightarrow> bytes" where
  "stamp assigned_offset ser =
     (let ser = patch 0 (write_le64s assigned_offset) ser; crc_start = 8 + 4 + 4 + 1
      in if length ser > crc_start then patch crc_start (write_le32 (seg_crc32c (drop crc_start ser))) ser else ser)"

definition batch_timestamp :: "RecordBatch \<Rightarrow> timestamp_ms" where
  "batch_timestamp b = (if rb_max_timestamp b > 0 then rb_max_timestamp b else rb_base_timestamp b)"

definition raise_max_timestamp :: "timestamp_ms \<Rightarrow> Segment \<Rightarrow> Segment" where
  "raise_max_timestamp ts s = (if ts > 0 \<and> ts > sg_max_timestamp s then s\<lparr>sg_max_timestamp := ts\<rparr> else s)"

definition count_written :: "int \<Rightarrow> int \<Rightarrow> int \<Rightarrow> Segment \<Rightarrow> Segment" where
  "count_written bytes batches records s =
     s\<lparr>sg_bytes_written := sg_bytes_written s + bytes, sg_batches_appended := sg_batches_appended s + batches,
       sg_records_appended := sg_records_appended s + records\<rparr>"

definition seg_append :: "seg_io \<Rightarrow> RecordBatch \<Rightarrow> Segment \<Rightarrow> SegmentAppendResult outcome \<times> Segment" where
  "seg_append io batch s =
     (if sg_mutex_held s then (Blocked, s)
      else if \<not> seg_is_active s then (Returned (Inl not_leader_for_partition), s)
      else if rb_records batch = []
        then (Returned (Inr \<lparr>ar_base_offset = sg_next_offset s, ar_file_position = sg_file_size s, ar_batches_written = 0,
                ar_records_written = 0, ar_append_time = io_now io\<rparr>), s)
      else let ser = seg_serialize_batch batch; ser_len = int (length ser); assigned = sg_next_offset s; write_pos = sg_file_size s
      in case extend_file io ser_len s of
         (Some e, s) \<Rightarrow> (Returned (Inl e), s)
       | (None, s) \<Rightarrow>
          let data = stamp assigned ser
          in case io_write io 0 of
               Some n \<Rightarrow> (Returned (Inl storage_unavailable), s\<lparr>sg_file := Some (overlay write_pos (take n data) (data_file s))\<rparr>)
             | None \<Rightarrow>
                 let s = s\<lparr>sg_file := Some (overlay write_pos data (data_file s)), sg_file_size := write_pos + ser_len,
                           sg_next_offset := assigned + int (length (rb_records batch))\<rparr>;
                     ts = batch_timestamp batch;
                     s = raise_max_timestamp ts s;
                     s = update_sparse_index assigned write_pos ts s;
                     s = count_written ser_len 1 (int (length (rb_records batch))) s
                 in if sc_sync_on_append (sg_config s) then (Blocked, s\<lparr>sg_mutex_held := True\<rparr>)
                    else (Returned (Inr \<lparr>ar_base_offset = assigned, ar_file_position = write_pos, ar_batches_written = 1,
                            ar_records_written = int (length (rb_records batch)), ar_append_time = io_now io\<rparr>), s))"

text \<open>
  \<^verbatim>\<open>append_batch\<close> serialises all batches first; serialisation never fails, so the rollback for that is
  not part of the model. A failed write is rolled back by \<^verbatim>\<open>truncate_to\<close>, which locks \<^verbatim>\<open>mutex_\<close> again.
\<close>

fun pending_writes :: "log_offset \<Rightarrow> RecordBatch list \<Rightarrow> (bytes \<times> log_offset) list" where
  "pending_writes off [] = []"
| "pending_writes off (b # bs) = (stamp off (seg_serialize_batch b), off) # pending_writes (off + int (length (rb_records b))) bs"

fun write_pending :: "seg_io \<Rightarrow> nat \<Rightarrow> timestamp_ms \<Rightarrow> (bytes \<times> log_offset) list \<Rightarrow> int \<Rightarrow> Segment \<Rightarrow> bool \<times> Segment" where
  "write_pending io i ts [] pos s = (True, s)"
| "write_pending io i ts ((data, off) # pws) pos s =
     (case io_write io i of
        Some n \<Rightarrow> (False, s\<lparr>sg_file := Some (overlay pos (take n data) (data_file s))\<rparr>)
      | None \<Rightarrow>
          write_pending io (i + 1) ts pws (pos + int (length data))
            (update_sparse_index off pos ts (s\<lparr>sg_file := Some (overlay pos data (data_file s))\<rparr>)))"

definition seg_append_batch :: "seg_io \<Rightarrow> RecordBatch list \<Rightarrow> Segment \<Rightarrow> SegmentAppendResult outcome \<times> Segment" where
  "seg_append_batch io batches s =
     (if batches = []
        then (Returned (Inr \<lparr>ar_base_offset = sg_next_offset s, ar_file_position = 0, ar_batches_written = 0,
                ar_records_written = 0, ar_append_time = io_now io\<rparr>), s)
      else if sg_mutex_held s then (Blocked, s)
      else if \<not> seg_is_active s then (Returned (Inl not_leader_for_partition), s)
      else let first_offset = sg_next_offset s; first_position = sg_file_size s;
               pending = pending_writes first_offset batches;
               total_bytes = sum_list (map (\<lambda>(d, off). int (length d)) pending);
               total_records = sum_list (map (\<lambda>b. int (length (rb_records b))) batches);
               batch_max_ts = fold (\<lambda>b m. max (batch_timestamp b) m) batches 0
      in case extend_file io total_bytes s of
         (Some e, s) \<Rightarrow> (Returned (Inl e), s)
       | (None, s) \<Rightarrow>
          case write_pending io 0 batch_max_ts pending first_position s of
            (False, s) \<Rightarrow> (Blocked, s\<lparr>sg_mutex_held := True\<rparr>)
          | (True, s) \<Rightarrow>
              let s = s\<lparr>sg_file_size := first_position + total_bytes, sg_next_offset := first_offset + total_records\<rparr>;
                  s = raise_max_timestamp batch_max_ts s;
                  s = count_written total_bytes (int (length batches)) total_records s
              in if sc_sync_on_append (sg_config s) then (Blocked, s\<lparr>sg_mutex_held := True\<rparr>)
                 else (Returned (Inr \<lparr>ar_base_offset = first_offset, ar_file_position = first_position,
                         ar_batches_written = int (length batches), ar_records_written = total_records,
                         ar_append_time = io_now io\<rparr>), s))"

section \<open>Reading\<close>

record SegmentReadResult =
  rr_batches :: "RecordBatch list"
  rr_bytes_read :: int
  rr_next_offset :: log_offset
  rr_is_truncated :: bool

text \<open>The record count is taken at byte 69 of the batch, as in the source. \<open>None\<close> is again a \<^verbatim>\<open>break\<close>.\<close>

definition counted_batch_at :: "bytes \<Rightarrow> int \<Rightarrow> int \<Rightarrow> (log_offset \<times> bytes \<times> int) option" where
  "counted_batch_at file file_sz pos =
     (case seg_batch_at 12 file file_sz pos of
        None \<Rightarrow> None
      | Some (bo, buf) \<Rightarrow>
          if length buf - 12 < 61 then None
          else let record_count = read_le32s (drop (12 + 57) buf)
          in if record_count < 0 \<or> record_count > 1000000 then None
          else Some (bo, buf, bo + record_count))"

lemma counted_batch_at_progress:
  assumes "counted_batch_at file file_sz pos = Some (bo, buf, e)"
  shows "pos < file_sz" "pos + int (length buf) \<le> file_sz" "12 < length buf" "bo \<le> e"
  using assms by (auto simp: counted_batch_at_def Let_def dest: seg_batch_at_progress split: option.splits if_splits)

function read_loop :: "bytes \<Rightarrow> int \<Rightarrow> log_offset \<Rightarrow> int \<Rightarrow> int \<Rightarrow> SegmentReadResult \<Rightarrow> error_code + SegmentReadResult" where
  "read_loop file file_sz start_offset max_bytes pos res =
     (case counted_batch_at file file_sz pos of
        None \<Rightarrow> Inr res
      | Some (bo, buf, batch_end_offset) \<Rightarrow>
          if batch_end_offset \<le> start_offset
          then read_loop file file_sz start_offset max_bytes (pos + int (length buf)) res
          else case seg_deserialize_batch buf bo of
                 Inl e \<Rightarrow> Inl e
               | Inr b \<Rightarrow>
                   let res = res\<lparr>rr_batches := rr_batches res @ [b], rr_bytes_read := rr_bytes_read res + int (length buf),
                                 rr_next_offset := batch_end_offset\<rparr>
                   in if rr_bytes_read res \<ge> max_bytes then Inr (res\<lparr>rr_is_truncated := True\<rparr>)
                      else read_loop file file_sz start_offset max_bytes (pos + int (length buf)) res)"
  by pat_completeness auto
termination
  by (relation "measure (\<lambda>(f, sz, st, m, pos, r). nat (sz - pos))") (auto dest: counted_batch_at_progress)

declare read_loop.simps [simp del]

definition seg_read :: "log_offset \<Rightarrow> int \<Rightarrow> Segment \<Rightarrow> SegmentReadResult outcome" where
  "seg_read start_offset max_bytes s =
     (if sg_mutex_held s then Blocked
      else if sg_state s = seg_uninitialized \<or> sg_state s = seg_closed then Returned (Inl storage_unavailable)
      else if sg_state s = seg_corrupted then Returned (Inl segment_corrupted)
      else if start_offset < sh_base_offset (sg_header s) then Returned (Inl offset_out_of_range)
      else if start_offset \<ge> sg_next_offset s
        then Returned (Inr \<lparr>rr_batches = [], rr_bytes_read = 0, rr_next_offset = sg_next_offset s, rr_is_truncated = False\<rparr>)
      else case find_position start_offset s of
             None \<Rightarrow> Returned (Inl offset_out_of_range)
           | Some pos \<Rightarrow>
               (case read_loop (data_file s) (sg_file_size s) start_offset max_bytes pos
                       \<lparr>rr_batches = [], rr_bytes_read = 0, rr_next_offset = start_offset, rr_is_truncated = False\<rparr> of
                  Inl e \<Rightarrow> Returned (Inl e)
                | Inr res \<Rightarrow> Returned (Inr (if rr_batches res = [] then res\<lparr>rr_next_offset := sg_next_offset s\<rparr> else res))))"

lemma read_loop_bytes:
  "read_loop f sz start max_bytes p res = Inr res' \<Longrightarrow>
     rr_bytes_read res \<le> rr_bytes_read res' \<and> (rr_batches res' \<noteq> rr_batches res \<longrightarrow> rr_bytes_read res < rr_bytes_read res')"
proof (induction f sz start max_bytes p res arbitrary: res' rule: read_loop.induct)
  case (1 f sz start max_bytes p res)
  show ?case
  proof (cases "counted_batch_at f sz p")
    case None
    with 1(3) show ?thesis by (simp add: read_loop.simps)
  next
    case (Some t)
    then obtain bo buf e where t: "counted_batch_at f sz p = Some (bo, buf, e)" by (cases t) auto
    note size = counted_batch_at_progress(3) [OF t]
    show ?thesis
    proof (cases "e \<le> start")
      case True
      with 1(1) [OF t refl refl True] 1(3) t show ?thesis by (simp add: read_loop.simps [of f sz start max_bytes p])
    next
      case False
      obtain b where b: "seg_deserialize_batch buf bo = Inr b"
        using 1(3) t False by (auto simp: read_loop.simps [of f sz start max_bytes p] split: sum.splits)
      from 1(2) [OF t refl refl False b refl] 1(3) t b False size show ?thesis
        by (force simp: read_loop.simps [of f sz start max_bytes p] Let_def split: if_splits)
    qed
  qed
qed

lemma seg_read_progress:
  "seg_read start max_bytes s = Returned (Inr res) \<Longrightarrow> rr_batches res \<noteq> [] \<Longrightarrow> 0 < rr_bytes_read res"
  by (auto simp: seg_read_def split: if_splits option.splits sum.splits dest!: read_loop_bytes)

text \<open>\<^verbatim>\<open>read_range\<close> reads chunks of at most one mebibyte until the end offset or the byte limit is reached.\<close>

function read_range_loop :: "log_offset \<Rightarrow> int \<Rightarrow> Segment \<Rightarrow> log_offset \<Rightarrow> SegmentReadResult \<Rightarrow> (log_offset \<times> SegmentReadResult) outcome" where
  "read_range_loop end_offset max_bytes s cursor acc =
     (if \<not> (cursor < end_offset \<and> rr_bytes_read acc < max_bytes) then Returned (Inr (cursor, acc))
      else case seg_read cursor (min (max_bytes - rr_bytes_read acc) 1048576) s of
             Blocked \<Rightarrow> Blocked
           | Returned (Inl e) \<Rightarrow> Returned (Inl e)
           | Returned (Inr chunk) \<Rightarrow>
               if rr_batches chunk = [] then Returned (Inr (cursor, acc))
               else let acc = acc\<lparr>rr_batches := rr_batches acc @ rr_batches chunk,
                                  rr_bytes_read := rr_bytes_read acc + rr_bytes_read chunk,
                                  rr_next_offset := rr_next_offset chunk\<rparr>
                    in if rr_is_truncated chunk then Returned (Inr (rr_next_offset chunk, acc\<lparr>rr_is_truncated := True\<rparr>))
                       else read_range_loop end_offset max_bytes s (rr_next_offset chunk) acc)"
  by pat_completeness auto
termination
  by (relation "measure (\<lambda>(e, m, s, c, acc). nat (m - rr_bytes_read acc))") (auto dest: seg_read_progress)

declare read_range_loop.simps [simp del]

definition seg_read_range :: "log_offset \<Rightarrow> log_offset \<Rightarrow> int \<Rightarrow> Segment \<Rightarrow> SegmentReadResult outcome" where
  "seg_read_range start_offset end_offset max_bytes s =
     (let start = \<lparr>rr_batches = [], rr_bytes_read = 0, rr_next_offset = start_offset, rr_is_truncated = False\<rparr>
      in if start_offset \<ge> end_offset then Returned (Inr start)
      else case read_range_loop end_offset max_bytes s start_offset start of
             Blocked \<Rightarrow> Blocked
           | Returned (Inl e) \<Rightarrow> Returned (Inl e)
           | Returned (Inr (cursor, acc)) \<Rightarrow>
               Returned (Inr (if rr_batches acc = [] \<and> cursor < end_offset then acc\<lparr>rr_next_offset := end_offset\<rparr> else acc)))"

definition seg_read_at :: "log_offset \<Rightarrow> Segment \<Rightarrow> RecordBatch outcome" where
  "seg_read_at offset s =
     (case seg_read offset seg_kMaxBatchBytes s of
        Blocked \<Rightarrow> Blocked
      | Returned (Inl e) \<Rightarrow> Returned (Inl e)
      | Returned (Inr res) \<Rightarrow>
          (case rr_batches res of
             [] \<Rightarrow> Returned (Inl corrupt_message)
           | b # _ \<Rightarrow> if rb_base_offset b \<noteq> offset then Returned (Inl corrupt_message) else Returned (Inr b)))"

section \<open>Truncation, sealing, rolling\<close>

text \<open>\<^verbatim>\<open>find_position\<close> always answers for an offset in range, so the scan that would replace it is not part of the model.\<close>

definition seg_truncate_to :: "seg_io \<Rightarrow> log_offset \<Rightarrow> Segment \<Rightarrow> unit outcome \<times> Segment" where
  "seg_truncate_to io new_end_offset s =
     (if sg_mutex_held s then (Blocked, s)
      else if \<not> sg_fd s then (Returned (Inl storage_unavailable), s)
      else if new_end_offset < sh_base_offset (sg_header s) then (Returned (Inl offset_out_of_range), s)
      else if new_end_offset > sg_next_offset s then (Returned (Inl offset_out_of_range), s)
      else if new_end_offset = sg_next_offset s then (Returned (Inr ()), s)
      else let new_file_size = (if new_end_offset > sh_base_offset (sg_header s)
                 then (case find_position new_end_offset s of Some pos \<Rightarrow> pos | None \<Rightarrow> kSegmentHeaderSize)
                 else kSegmentHeaderSize)
      in if \<not> io_ftruncate io then (Returned (Inl storage_unavailable), s)
      else let s = s\<lparr>sg_file := Some (ftruncate new_file_size (data_file s)), sg_file_size := new_file_size\<rparr>;
               s = prune_sparse_index new_end_offset s
      in (Returned (Inr ()), s\<lparr>sg_next_offset := new_end_offset\<rparr>))"

text \<open>\<^verbatim>\<open>seal\<close> calls \<^verbatim>\<open>fsync\<close>, and \<^verbatim>\<open>roll\<close> calls \<^verbatim>\<open>seal\<close>, with \<^verbatim>\<open>mutex_\<close> held: what follows is never reached.\<close>

definition seg_seal :: "Segment \<Rightarrow> unit outcome \<times> Segment" where
  "seg_seal s =
     (if sg_mutex_held s then (Blocked, s)
      else if seg_is_sealed s then (Returned (Inr ()), s)
      else (Blocked, s\<lparr>sg_mutex_held := True\<rparr>))"

definition seg_roll :: "Segment \<Rightarrow> SegmentConfig outcome \<times> Segment" where
  "seg_roll s =
     (if sg_mutex_held s then (Blocked, s)
      else if \<not> seg_is_active s then (Returned (Inl not_leader_for_partition), s)
      else if seg_is_sealed s then (Returned (Inl not_leader_for_partition), s)
      else (Blocked, s\<lparr>sg_mutex_held := True\<rparr>))"

definition seg_should_roll :: "timestamp_ms \<Rightarrow> Segment \<Rightarrow> bool" where
  "seg_should_roll now s \<longleftrightarrow>
     sg_state s = seg_active \<and> \<not> seg_is_sealed s \<and>
     (sg_file_size s \<ge> sc_max_segment_bytes (sg_config s) \<and> sc_max_segment_bytes (sg_config s) > 0 \<or>
      sc_max_segment_age_ms (sg_config s) > 0 \<and> now - sh_created_at (sg_header s) \<ge> sc_max_segment_age_ms (sg_config s))"

text \<open>
  \<^verbatim>\<open>compact_records\<close> keeps one record per key, the one the combiner chooses, and orders them by offset. It reads
  the segment through \<^verbatim>\<open>read_range\<close> with \<^verbatim>\<open>mutex_\<close> held.
\<close>

definition compact_record :: "(Record \<Rightarrow> Record \<Rightarrow> bool) \<Rightarrow> Record \<Rightarrow> (bytes \<times> Record) list \<Rightarrow> (bytes \<times> Record) list" where
  "compact_record keep_existing rec compacted =
     (case map_of compacted (rec_key rec) of
        None \<Rightarrow> compacted @ [(rec_key rec, rec)]
      | Some old \<Rightarrow> if keep_existing old rec then compacted else AList.update (rec_key rec) rec compacted)"

definition seg_compact_records :: "(Record \<Rightarrow> Record \<Rightarrow> bool) option \<Rightarrow> Segment \<Rightarrow> Record list outcome \<times> Segment" where
  "seg_compact_records combiner s =
     (if sg_mutex_held s then (Blocked, s)
      else case combiner of
        None \<Rightarrow> (Returned (Inl invalid_config), s)
      | Some keep_existing \<Rightarrow>
         (case seg_read_range (sh_base_offset (sg_header s)) (sg_next_offset s) 104857600 (s\<lparr>sg_mutex_held := True\<rparr>) of
            Blocked \<Rightarrow> (Blocked, s\<lparr>sg_mutex_held := True\<rparr>)
          | Returned (Inl e) \<Rightarrow> (Returned (Inl e), s)
          | Returned (Inr res) \<Rightarrow>
              (Returned (Inr (sort_key rec_offset (map snd
                 (fold (compact_record keep_existing) (concat (map rb_records (rr_batches res))) [])))), s)))"

end
