(* ===== verification/Segment_Properties.thy ===== *)
theory Segment_Properties
  imports Segment
begin

text \<open>
  What a segment stores. \<open>layout\<close> relates a segment to the sequence of pieces behind the header of its
  file: the batches written, with the offsets assigned to them, and the bytes that failed writes left.
  Every operation, with every outcome of the system calls, changes that sequence as the abstract log
  \<open>log_step\<close> does (locale \<open>simulated\<close>); the sparse index never points behind the batch it is asked for.
\<close>

section \<open>Layout of the data file\<close>

datatype piece = Written log_offset RecordBatch | Torn bytes

fun piece_bytes :: "piece \<Rightarrow> bytes" where
  "piece_bytes (Written off b) = stamp off (seg_serialize_batch b)"
| "piece_bytes (Torn bs) = bs"

abbreviation record_total :: "RecordBatch \<Rightarrow> int" where
  "record_total b \<equiv> int (length (rb_records b))"

fun ends_by :: "log_offset \<Rightarrow> piece \<Rightarrow> bool" where
  "ends_by limit (Written off b) \<longleftrightarrow> off + record_total b \<le> limit"
| "ends_by limit (Torn bs) \<longleftrightarrow> True"

fun begins_after :: "piece \<Rightarrow> piece \<Rightarrow> bool" where
  "begins_after p (Written off b) \<longleftrightarrow> ends_by off p"
| "begins_after p (Torn bs) \<longleftrightarrow> True"

fun begins_from :: "log_offset \<Rightarrow> piece \<Rightarrow> bool" where
  "begins_from base (Written off b) \<longleftrightarrow> base \<le> off"
| "begins_from base (Torn bs) \<longleftrightarrow> True"

definition extent :: "piece list \<Rightarrow> int" where
  "extent ps = int (length (concat (map piece_bytes ps)))"

definition stores :: "bytes \<Rightarrow> piece list \<Rightarrow> bytes \<Rightarrow> bool" where
  "stores pre ps file \<longleftrightarrow> length pre = 64 \<and> (\<exists>rest. file = pre @ concat (map piece_bytes ps) @ rest)"

definition ordered :: "log_offset \<Rightarrow> log_offset \<Rightarrow> piece list \<Rightarrow> bool" where
  "ordered base nxt ps \<longleftrightarrow> base \<le> nxt \<and> sorted_wrt begins_after ps \<and> list_all (begins_from base) ps \<and> list_all (ends_by nxt) ps"

text \<open>An index entry names a border between pieces; what lies before it ends at or below its offset.\<close>

definition entry_ok :: "log_offset \<Rightarrow> log_offset \<Rightarrow> piece list \<Rightarrow> SparseIndexEntry \<Rightarrow> bool" where
  "entry_ok base nxt ps e \<longleftrightarrow> base \<le> si_offset e \<and> si_offset e < nxt \<and>
     (\<exists>k \<le> length ps. si_file_position e = 64 + extent (take k ps) \<and> list_all (ends_by (si_offset e)) (take k ps))"

definition positions_ascend :: "SparseIndexEntry list \<Rightarrow> bool" where
  "positions_ascend es \<longleftrightarrow> sorted_wrt (\<lambda>d e. si_file_position d \<le> si_file_position e) es"

definition index_ok :: "log_offset \<Rightarrow> log_offset \<Rightarrow> piece list \<Rightarrow> SparseIndexEntry list \<Rightarrow> bool" where
  "index_ok base nxt ps es \<longleftrightarrow> ascending si_offset es \<and> positions_ascend es \<and> list_all (entry_ok base nxt ps) es"

definition layout :: "bytes \<Rightarrow> piece list \<Rightarrow> Segment \<Rightarrow> bool" where
  "layout pre ps s \<longleftrightarrow> sg_fd s \<and> seg_is_open s \<and> \<not> sg_mutex_held s \<and> \<not> sg_index_mutex_held s \<and>
     stores pre ps (data_file s) \<and> sg_file_size s = 64 + extent ps \<and>
     ordered (sh_base_offset (sg_header s)) (sg_next_offset s) ps \<and>
     index_ok (sh_base_offset (sg_header s)) (sg_next_offset s) ps (sg_sparse_index s)"

lemma extent_simps [simp]:
  "extent [] = 0" "extent (p # ps) = int (length (piece_bytes p)) + extent ps" "extent (ps @ qs) = extent ps + extent qs"
  by (simp_all add: extent_def)

lemma extent_nonneg [simp]: "0 \<le> extent ps"
  by (simp add: extent_def)

lemma extent_take_le: "extent (take k ps) \<le> extent ps"
  using extent_simps(3) [of "take k ps" "drop k ps"] by simp

lemma ends_by_mono: "ends_by a p \<Longrightarrow> a \<le> b \<Longrightarrow> ends_by b p"
  by (cases p) auto

lemma ends_by_all_mono: "list_all (ends_by a) ps \<Longrightarrow> a \<le> b \<Longrightarrow> list_all (ends_by b) ps"
  by (auto simp: list_all_iff intro: ends_by_mono)

lemma list_all_take: "list_all P xs \<Longrightarrow> list_all P (take k xs)"
  by (auto simp: list_all_iff dest: in_set_takeD)

subsection \<open>Bytes\<close>

lemma stores_overlay:
  assumes "stores pre ps file"
  shows "stores pre (ps @ [p]) (overlay (64 + extent ps) (piece_bytes p) file)"
proof -
  obtain rest where f: "file = (pre @ concat (map piece_bytes ps)) @ rest" and l: "length pre = 64"
    using assms by (auto simp: stores_def)
  have "nat (64 + extent ps) = length (pre @ concat (map piece_bytes ps))" using l by (simp add: extent_def)
  then have "overlay (64 + extent ps) (piece_bytes p) file =
      pre @ concat (map piece_bytes (ps @ [p])) @ drop (length (piece_bytes p)) rest"
    unfolding overlay_def ftruncate_def f by simp
  then show ?thesis using l by (auto simp: stores_def)
qed

lemma stores_cut:
  assumes "stores pre ps file"
  shows "stores pre (take k ps) (ftruncate (64 + extent (take k ps)) file)"
proof -
  obtain rest where f: "file = pre @ concat (map piece_bytes ps) @ rest" and l: "length pre = 64"
    using assms by (auto simp: stores_def)
  have "concat (map piece_bytes ps) = concat (map piece_bytes (take k ps)) @ concat (map piece_bytes (drop k ps))"
    by (metis append_take_drop_id concat_append map_append)
  then have f': "file = (pre @ concat (map piece_bytes (take k ps))) @ concat (map piece_bytes (drop k ps)) @ rest"
    unfolding f by simp
  have "nat (64 + extent (take k ps)) = length (pre @ concat (map piece_bytes (take k ps)))" using l by (simp add: extent_def)
  then have "ftruncate (64 + extent (take k ps)) file = pre @ concat (map piece_bytes (take k ps))"
    unfolding ftruncate_def f' by simp
  then show ?thesis using l by (auto simp: stores_def)
qed

lemma stores_extend:
  assumes "stores pre ps file" "64 + extent ps \<le> n"
  shows "stores pre ps (ftruncate n file)" "int (length (ftruncate n file)) = n"
proof -
  obtain rest where f: "file = (pre @ concat (map piece_bytes ps)) @ rest" and l: "length pre = 64"
    using assms(1) by (auto simp: stores_def)
  have n: "length (pre @ concat (map piece_bytes ps)) \<le> nat n" using assms(2) l by (simp add: extent_def)
  then have "ftruncate n file = (pre @ concat (map piece_bytes ps)) @
      take (nat n - length (pre @ concat (map piece_bytes ps))) (rest @ replicate (nat n - length file) 0)"
    unfolding ftruncate_def f by (simp only: append_assoc [symmetric] take_append) simp
  then show "stores pre ps (ftruncate n file)" using l by (auto simp: stores_def)
  have "length (ftruncate n file) = nat n" by (simp add: ftruncate_def)
  moreover have "0 \<le> n" using assms(2) extent_nonneg [of ps] by linarith
  ultimately show "int (length (ftruncate n file)) = n" by simp
qed

lemma length_overlay: "0 \<le> p \<Longrightarrow> p + int (length bs) \<le> int (length file) \<Longrightarrow> length (overlay p bs file) = length file"
  by (auto simp: overlay_def ftruncate_def)

lemma stores_torn:
  assumes "stores pre ps file"
  shows "\<exists>bs. stores pre (ps @ [Torn bs]) file \<and> 64 + extent (ps @ [Torn bs]) = int (length file)"
proof -
  obtain rest where "file = pre @ concat (map piece_bytes ps) @ rest" "length pre = 64"
    using assms by (auto simp: stores_def)
  then show ?thesis by (intro exI [of _ rest]) (simp add: stores_def extent_def)
qed

lemma stores_prefix: "stores pre (ps @ qs) file \<Longrightarrow> stores pre ps file"
  by (auto simp: stores_def)

subsection \<open>The index\<close>

lemma entry_ok_append:
  assumes "entry_ok base nxt ps e" "nxt \<le> nxt'"
  shows "entry_ok base nxt' (ps @ qs) e"
proof -
  obtain k where "k \<le> length ps" "si_file_position e = 64 + extent (take k ps)" "list_all (ends_by (si_offset e)) (take k ps)"
    using assms(1) unfolding entry_ok_def by blast
  then show ?thesis using assms unfolding entry_ok_def by (auto intro!: exI [of _ k])
qed

lemma entry_ok_timestamp [simp]: "entry_ok base nxt ps (e\<lparr>si_timestamp := ts\<rparr>) = entry_ok base nxt ps e"
  by (simp add: entry_ok_def)

lemma downsample_ok:
  assumes "index_ok base nxt ps es"
  shows "index_ok base nxt ps (downsample es)"
proof -
  let ?is = "filter even [0..<length es]"
  have s: "sorted_wrt (<) ?is" by (intro sorted_wrt_filter) simp
  have "ascending si_offset (map ((!) es) ?is)"
    using assms s by (intro ascending_map_nth) (auto simp: index_ok_def)
  moreover have "sorted_wrt (\<lambda>i j. si_file_position (es ! i) \<le> si_file_position (es ! j)) ?is"
    using assms by (intro sorted_wrt_mono_rel [OF _ s]) (auto simp: index_ok_def positions_ascend_def sorted_wrt_iff_nth_less)
  moreover have "list_all (entry_ok base nxt ps) (map ((!) es) ?is)"
    using assms by (auto simp: index_ok_def list_all_iff)
  ultimately show ?thesis by (simp add: index_ok_def positions_ascend_def downsample_def sorted_wrt_map)
qed

lemma entry_position:
  assumes "entry_ok base nxt ps e"
  shows "64 \<le> si_file_position e" "si_file_position e \<le> 64 + extent ps"
proof -
  obtain k where "si_file_position e = 64 + extent (take k ps)" using assms unfolding entry_ok_def by blast
  then show "64 \<le> si_file_position e" "si_file_position e \<le> 64 + extent ps" using extent_take_le [of k ps] by simp_all
qed

lemma index_ok_snoc:
  assumes "index_ok base nxt ps es" "base \<le> nxt" "list_all (ends_by nxt) ps" "0 < n"
  shows "index_ok base (nxt + n) (ps @ qs) (es @ [\<lparr>si_offset = nxt, si_file_position = 64 + extent ps, si_timestamp = ts\<rparr>])"
proof -
  have old: "list_all (entry_ok base (nxt + n) (ps @ qs)) es"
    using assms(1,4) by (auto simp: index_ok_def list_all_iff intro!: entry_ok_append)
  have "entry_ok base (nxt + n) (ps @ qs) \<lparr>si_offset = nxt, si_file_position = 64 + extent ps, si_timestamp = ts\<rparr>"
    unfolding entry_ok_def using assms(2-4) by (auto intro!: exI [of _ "length ps"])
  moreover have "si_offset e < nxt" "si_file_position e \<le> 64 + extent ps" if "e \<in> set es" for e
    using that assms(1) entry_position(2) [of base nxt ps e] by (simp_all add: index_ok_def list_all_iff entry_ok_def)
  ultimately show ?thesis
    using assms(1) old by (auto simp: index_ok_def ascending_append ascending_Cons positions_ascend_def sorted_wrt_append)
qed

lemma update_sparse_index_ok:
  assumes "index_ok base nxt ps (sg_sparse_index s)" "base \<le> nxt" "list_all (ends_by nxt) ps" "0 < n"
  shows "index_ok base (nxt + n) (ps @ qs) (sg_sparse_index (update_sparse_index nxt (64 + extent ps) ts s))"
proof -
  let ?es = "sg_sparse_index s"
  have asc: "ascending si_offset ?es" using assms(1) by (simp add: index_ok_def)
  have keep: "index_ok base (nxt + n) (ps @ qs) ?es"
    using assms(1,4) by (auto simp: index_ok_def list_all_iff intro!: entry_ok_append)
  have later: "index_ok base (nxt + n) (ps @ qs) (butlast ?es @ [(last ?es)\<lparr>si_timestamp := ts\<rparr>])" if "?es \<noteq> []"
  proof -
    have "?es = butlast ?es @ [last ?es]" using that by simp
    with keep have "index_ok base (nxt + n) (ps @ qs) (butlast ?es @ [last ?es])" by metis
    then show ?thesis by (simp add: index_ok_def ascending_append ascending_Cons positions_ascend_def sorted_wrt_append)
  qed
  have "filter (\<lambda>e. si_offset e < nxt) ?es = ?es" "filter (\<lambda>e. nxt \<le> si_offset e) ?es = []"
    using assms(1) by (auto simp: index_ok_def list_all_iff entry_ok_def filter_empty_conv)
  then have ins: "take (lower_bound_by si_offset ?es nxt) ?es = ?es" "drop (lower_bound_by si_offset ?es nxt) ?es = []"
    using take_lower_bound [OF asc, of nxt] by simp_all
  note snoc = index_ok_snoc [OF assms, of qs ts]
  show ?thesis
    unfolding update_sparse_index_def Let_def ins using keep later snoc downsample_ok [OF snoc] by (cases "?es = []") simp_all
qed

lemma floor_entry:
  assumes "ascending si_offset es"
  shows "upper_bound_by si_offset es t = length (filter (\<lambda>e. si_offset e \<le> t) es)"
    "filter (\<lambda>e. si_offset e \<le> t) es \<noteq> [] \<Longrightarrow>
     es ! (upper_bound_by si_offset es t - 1) = last (filter (\<lambda>e. si_offset e \<le> t) es)"
proof -
  let ?b = "filter (\<lambda>e. si_offset e \<le> t) es"
  have b: "takeWhile (\<lambda>e. si_offset e \<le> t) es = ?b" by (rule ascending_split [OF assms])
  then show ub: "upper_bound_by si_offset es t = length ?b" by (simp add: upper_bound_takeWhile [OF assms])
  assume "?b \<noteq> []"
  then have "last ?b = ?b ! (length ?b - 1)" "length ?b - 1 < length ?b" by (simp_all add: last_conv_nth)
  then show "es ! (upper_bound_by si_offset es t - 1) = last ?b"
    unfolding ub by (metis b takeWhile_nth)
qed

lemma find_position_eq:
  assumes "ascending si_offset (sg_sparse_index s)"
  shows "find_position t s =
    (let es = sg_sparse_index s; below = filter (\<lambda>e. si_offset e \<le> t) es
     in if es = [] then (if sg_file_size s > 64 then Some 64 else None)
     else if below = [] then (if t \<ge> sh_base_offset (sg_header s) then Some 64 else None)
     else Some (si_file_position (last below)))"
  using floor_entry [OF assms, of t] by (simp add: find_position_def Let_def kSegmentHeaderSize_def)

lemma prune_entries:
  assumes "ascending si_offset (sg_sparse_index s)"
  shows "sg_sparse_index (prune_sparse_index from s) = filter (\<lambda>e. si_offset e < from) (sg_sparse_index s)"
proof -
  let ?es = "sg_sparse_index s" and ?it = "lower_bound_by si_offset (sg_sparse_index s) from"
  have t: "take ?it ?es = filter (\<lambda>e. si_offset e < from) ?es" by (rule take_lower_bound [OF assms])
  show ?thesis
    unfolding prune_sparse_index_def Let_def t [symmetric] by simp
qed

lemma prune_fields [simp]:
  "sg_fd (prune_sparse_index from s) = sg_fd s" "sg_state (prune_sparse_index from s) = sg_state s"
  "sg_mutex_held (prune_sparse_index from s) = sg_mutex_held s" "sg_index_mutex_held (prune_sparse_index from s) = sg_index_mutex_held s"
  "sg_file (prune_sparse_index from s) = sg_file s" "sg_file_size (prune_sparse_index from s) = sg_file_size s"
  "sg_header (prune_sparse_index from s) = sg_header s" "sg_next_offset (prune_sparse_index from s) = sg_next_offset s"
  "sg_config (prune_sparse_index from s) = sg_config s"
  by (simp_all add: prune_sparse_index_def Let_def)

lemma update_fields [simp]:
  "sg_fd (update_sparse_index off p ts s) = sg_fd s" "sg_state (update_sparse_index off p ts s) = sg_state s"
  "sg_mutex_held (update_sparse_index off p ts s) = sg_mutex_held s"
  "sg_index_mutex_held (update_sparse_index off p ts s) = sg_index_mutex_held s"
  "sg_file (update_sparse_index off p ts s) = sg_file s" "sg_file_size (update_sparse_index off p ts s) = sg_file_size s"
  "sg_header (update_sparse_index off p ts s) = sg_header s" "sg_next_offset (update_sparse_index off p ts s) = sg_next_offset s"
  "sg_config (update_sparse_index off p ts s) = sg_config s"
  by (simp_all add: update_sparse_index_def Let_def)

lemma raise_fields [simp]:
  "sg_fd (raise_max_timestamp ts s) = sg_fd s" "sg_state (raise_max_timestamp ts s) = sg_state s"
  "sg_mutex_held (raise_max_timestamp ts s) = sg_mutex_held s" "sg_index_mutex_held (raise_max_timestamp ts s) = sg_index_mutex_held s"
  "sg_file (raise_max_timestamp ts s) = sg_file s" "sg_file_size (raise_max_timestamp ts s) = sg_file_size s"
  "sg_header (raise_max_timestamp ts s) = sg_header s" "sg_next_offset (raise_max_timestamp ts s) = sg_next_offset s"
  "sg_config (raise_max_timestamp ts s) = sg_config s" "sg_sparse_index (raise_max_timestamp ts s) = sg_sparse_index s"
  by (simp_all add: raise_max_timestamp_def)

text \<open>A cut at the floor of an offset: where it is, and what is left of the index.\<close>

lemma floor_cut:
  assumes "index_ok base nxt ps es" "t \<le> nxt" "filter (\<lambda>e. si_offset e \<le> t) es \<noteq> []"
  defines "e \<equiv> last (filter (\<lambda>e. si_offset e \<le> t) es)"
  shows "\<exists>k \<le> length ps. si_file_position e = 64 + extent (take k ps) \<and> list_all (ends_by t) (take k ps) \<and>
    index_ok base t (take k ps) (filter (\<lambda>e. si_offset e < t) es)"
proof -
  let ?b = "filter (\<lambda>e. si_offset e \<le> t) es" and ?c = "filter (\<lambda>e. si_offset e < t) es"
  have e: "e \<in> set ?b" unfolding e_def using assms(3) by (rule last_in_set)
  then have "entry_ok base nxt ps e" "si_offset e \<le> t" using assms(1) by (auto simp: index_ok_def list_all_iff)
  then obtain k where k: "k \<le> length ps" "si_file_position e = 64 + extent (take k ps)" "list_all (ends_by (si_offset e)) (take k ps)"
    unfolding entry_ok_def by blast
  have sorted: "sorted_wrt (\<lambda>d e. si_file_position d \<le> si_file_position e) ?b"
    using assms(1) by (auto simp: index_ok_def positions_ascend_def intro: sorted_wrt_filter)
  have below: "si_file_position d \<le> si_file_position e" if "d \<in> set ?b" for d
  proof -
    have "?b = butlast ?b @ [e]" unfolding e_def using assms(3) by simp
    then have "sorted_wrt (\<lambda>d e. si_file_position d \<le> si_file_position e) (butlast ?b @ [e])" "d \<in> set (butlast ?b @ [e])"
      using sorted that by metis+
    then show ?thesis by (auto simp: sorted_wrt_append)
  qed
  have "entry_ok base t (take k ps) d" if d: "d \<in> set ?c" for d
  proof -
    have "entry_ok base nxt ps d" "si_offset d < t" using d assms(1) by (auto simp: index_ok_def list_all_iff)
    then obtain j where j: "j \<le> length ps" "si_file_position d = 64 + extent (take j ps)"
        "list_all (ends_by (si_offset d)) (take j ps)" "base \<le> si_offset d"
      unfolding entry_ok_def by blast
    show ?thesis
    proof (cases "j \<le> k")
      case True
      then show ?thesis using j k(1) \<open>si_offset d < t\<close> unfolding entry_ok_def by (auto intro!: exI [of _ j] simp: min_def)
    next
      case False
      have "si_file_position d \<le> si_file_position e" using below d by auto
      moreover have "extent (take k ps) \<le> extent (take j ps)" using False extent_take_le [of k "take j ps"] by (simp add: min_def)
      ultimately have "si_file_position d = 64 + extent (take k ps)" using j(2) k(2) by simp
      moreover have "list_all (ends_by (si_offset d)) (take k ps)"
        using list_all_take [OF j(3), of k] False by (simp add: min_def)
      ultimately show ?thesis using j(4) k(1) \<open>si_offset d < t\<close> unfolding entry_ok_def by (auto intro!: exI [of _ k])
    qed
  qed
  then have "index_ok base t (take k ps) ?c"
    using assms(1) by (auto simp: index_ok_def list_all_iff ascending_filter positions_ascend_def intro: sorted_wrt_filter)
  then show ?thesis using k ends_by_all_mono [OF k(3) \<open>si_offset e \<le> t\<close>] by blast
qed

section \<open>The abstract log\<close>

text \<open>The next offset and the pieces: batches are added at the next offset, failed writes leave bytes, and
  truncation to an offset cuts at a border with nothing at or above that offset before it.\<close>

inductive log_step :: "log_offset \<times> piece list \<Rightarrow> log_offset \<times> piece list \<Rightarrow> bool" where
  log_append: "rb_records b \<noteq> [] \<Longrightarrow> log_step (n, ps) (n + record_total b, ps @ [Written n b])"
| log_tear: "log_step (n, ps) (n, ps @ [Torn bs])"
| log_cut: "t \<le> n \<Longrightarrow> list_all (ends_by t) (take k ps) \<Longrightarrow> log_step (n, ps) (t, take k ps)"

abbreviation log_steps :: "log_offset \<times> piece list \<Rightarrow> log_offset \<times> piece list \<Rightarrow> bool" where
  "log_steps \<equiv> log_step\<^sup>*\<^sup>*"

lemma ordered_written: "ordered base n ps \<Longrightarrow> ordered base (n + record_total b) (ps @ [Written n b])"
  by (auto simp: ordered_def sorted_wrt_append list_all_iff intro: ends_by_mono)

lemma ordered_torn: "ordered base n ps \<Longrightarrow> ordered base n (ps @ [Torn bs])"
  by (auto simp: ordered_def sorted_wrt_append)

lemma ordered_cut:
  "ordered base n ps \<Longrightarrow> base \<le> t \<Longrightarrow> list_all (ends_by t) (take k ps) \<Longrightarrow> ordered base t (take k ps)"
  by (auto simp: ordered_def sorted_wrt_take list_all_take)

lemma index_ok_torn: "index_ok base n ps es \<Longrightarrow> index_ok base n (ps @ qs) es"
  by (auto simp: index_ok_def list_all_iff intro: entry_ok_append)

lemma data_file_simps [simp]:
  "sg_file s = Some f \<Longrightarrow> data_file s = f" "data_file (s\<lparr>sg_file := Some f\<rparr>) = f"
  by (simp_all add: data_file_def)

lemma data_file_cong: "sg_file s = sg_file t \<Longrightarrow> data_file s = data_file t"
  by (simp add: data_file_def)

lemma round_up: "x \<le> (x + kFileExtendStep - 1) div kFileExtendStep * kFileExtendStep"
  by (simp add: kFileExtendStep_def)

lemma extend_file_cases:
  assumes "sg_fd s" "stores pre ps (data_file s)" "sg_file_size s = 64 + extent ps" "0 \<le> n"
  obtains (failed) e where "extend_file io n s = (Some e, s)"
  | (extended) f where "extend_file io n s = (None, s\<lparr>sg_file := Some f, sg_file_size := int (length f)\<rparr>)"
      "stores pre ps f" "64 + extent ps + n \<le> int (length f)"
proof (cases "io_ftruncate io")
  case False
  then show ?thesis using failed assms(1) by (simp add: extend_file_def)
next
  case True
  let ?m = "(sg_file_size s + n + kFileExtendStep - 1) div kFileExtendStep * kFileExtendStep"
  have m: "64 + extent ps + n \<le> ?m" using round_up [of "sg_file_size s + n"] assms(3) by simp
  then have "stores pre ps (ftruncate ?m (data_file s))" "int (length (ftruncate ?m (data_file s))) = ?m"
    using stores_extend [OF assms(2), of ?m] assms(4) by simp_all
  then show ?thesis using extended [of "ftruncate ?m (data_file s)"] True assms(1) m by (simp add: extend_file_def Let_def)
qed

text \<open>A write that failed after some bytes.\<close>

lemma torn_write:
  assumes "stores pre ps f" "64 + extent ps + int (length data) \<le> int (length f)"
  shows "\<exists>bs. stores pre (ps @ [Torn bs]) (overlay (64 + extent ps) (take n data) f) \<and>
    int (length f) = 64 + extent (ps @ [Torn bs])"
proof -
  have "stores pre ps (overlay (64 + extent ps) (take n data) f)"
    using stores_overlay [OF assms(1), of "Torn (take n data)"] by (auto dest: stores_prefix)
  moreover have "length (overlay (64 + extent ps) (take n data) f) = length f"
    using assms(2) by (intro length_overlay) auto
  ultimately show ?thesis using stores_torn by metis
qed

lemma layoutI:
  assumes "layout pre ps s" "sg_fd t" "sg_state t = sg_state s" "\<not> sg_mutex_held t" "\<not> sg_index_mutex_held t" "sg_header t = sg_header s"
    "stores pre qs (data_file t)" "sg_file_size t = 64 + extent qs"
    "ordered (sh_base_offset (sg_header s)) (sg_next_offset t) qs"
    "index_ok (sh_base_offset (sg_header s)) (sg_next_offset t) qs (sg_sparse_index t)"
  shows "layout pre qs t"
  using assms by (simp add: layout_def seg_is_open_def)

lemma stamp_layout:
  "stamp off (seg_serialize_batch b) = batch_layout off (of_nat (9 + length (batch_tail b))) (rb_partition_leader_epoch b)
     (crc32c_span (write_le32 (crc32c_span (batch_tail b)) @ batch_tail b)) (batch_tail b)"
proof -
  let ?t = "batch_tail b" and ?c = "crc32c_span (batch_tail b)"
  let ?pre = "write_le64s off @ write_le32 (of_nat (9 + length ?t)) @ write_le32s (rb_partition_leader_epoch b) @ [kRecordBatchMagic]"
  have p: "patch 0 (write_le64s off) (seg_serialize_batch b) = ?pre @ write_le32 ?c @ ?t"
    unfolding serialize_layout batch_layout_def by (subst patch_0) simp_all
  have "patch 17 (write_le32 d) (?pre @ write_le32 ?c @ ?t) = ?pre @ write_le32 d @ ?t" for d
    by (rule patch_middle) simp_all
  then show ?thesis unfolding stamp_def Let_def p by (simp add: seg_crc32c_eq batch_layout_def)
qed

lemma length_stamp [simp]: "length (stamp off (seg_serialize_batch b)) = length (seg_serialize_batch b)"
  by (simp add: stamp_layout length_serialize read_layout)

lemma append_written:
  assumes "layout pre ps s" "seg_is_active s" "rb_records b \<noteq> []" "io_ftruncate io" "io_write io 0 = None"
    "seg_append io b s = (r, t)"
  shows "sg_mutex_held t \<longleftrightarrow> sc_sync_on_append (sg_config s)"
    "r = (if sc_sync_on_append (sg_config s) then Blocked else Returned (Inr \<lparr>ar_base_offset = sg_next_offset s,
      ar_file_position = sg_file_size s, ar_batches_written = 1, ar_records_written = record_total b, ar_append_time = io_now io\<rparr>))"
    "sg_next_offset t = sg_next_offset s + record_total b" "seg_is_active t" "sg_config t = sg_config s"
    "\<not> sg_mutex_held t \<Longrightarrow> layout pre (ps @ [Written (sg_next_offset s) b]) t"
proof -
  let ?n = "sg_next_offset s" and ?base = "sh_base_offset (sg_header s)"
  let ?data = "stamp ?n (seg_serialize_batch b)"
  have l: "sg_fd s" "stores pre ps (data_file s)" "sg_file_size s = 64 + extent ps" "\<not> sg_mutex_held s" "\<not> sg_index_mutex_held s"
      "ordered ?base ?n ps" "index_ok ?base ?n ps (sg_sparse_index s)"
    using assms(1) by (simp_all add: layout_def)
  obtain f where f: "extend_file io (int (length (seg_serialize_batch b))) s = (None, s\<lparr>sg_file := Some f, sg_file_size := int (length f)\<rparr>)"
      "stores pre ps f"
    using assms(4) l(1) by (auto simp: extend_file_def Let_def intro: extend_file_cases [OF l(1-3), of "int (length (seg_serialize_batch b))" io])
  let ?f = "overlay (64 + extent ps) ?data f"
  let ?u = "s\<lparr>sg_file := Some ?f, sg_file_size := 64 + extent ps + int (length ?data), sg_next_offset := ?n + record_total b\<rparr>"
  let ?v = "count_written (int (length ?data)) 1 (record_total b)
      (update_sparse_index ?n (64 + extent ps) (batch_timestamp b) (raise_max_timestamp (batch_timestamp b) ?u))"
  have t: "t = (if sc_sync_on_append (sg_config s) then ?v\<lparr>sg_mutex_held := True\<rparr> else ?v)"
      "r = (if sc_sync_on_append (sg_config s) then Blocked else Returned (Inr \<lparr>ar_base_offset = ?n,
        ar_file_position = sg_file_size s, ar_batches_written = 1, ar_records_written = record_total b, ar_append_time = io_now io\<rparr>))"
    using assms l(3,4) f(1) by (auto simp: seg_append_def Let_def count_written_def split: if_splits)
  show "r = (if sc_sync_on_append (sg_config s) then Blocked else Returned (Inr \<lparr>ar_base_offset = ?n,
        ar_file_position = sg_file_size s, ar_batches_written = 1, ar_records_written = record_total b, ar_append_time = io_now io\<rparr>))"
    by (rule t)
  show held: "sg_mutex_held t \<longleftrightarrow> sc_sync_on_append (sg_config s)"
    and "sg_next_offset t = ?n + record_total b" "seg_is_active t" "sg_config t = sg_config s"
    using t(1) l(4) assms(2) by (simp_all add: count_written_def seg_is_active_def)
  assume "\<not> sg_mutex_held t"
  then have s': "t = ?v" using t(1) held by simp
  have "0 < record_total b" using assms(3) by simp
  then have "index_ok ?base (?n + record_total b) (ps @ [Written ?n b]) (sg_sparse_index t)"
    unfolding s' using l(6,7) by (auto simp: count_written_def ordered_def intro!: update_sparse_index_ok)
  moreover have "stores pre (ps @ [Written ?n b]) ?f" using stores_overlay [OF f(2), of "Written ?n b"] by simp
  ultimately show "layout pre (ps @ [Written ?n b]) t"
    using l by (intro layoutI [OF assms(1)]) (simp_all add: s' count_written_def ordered_written data_file_def)
qed

lemma append_layout:
  assumes "layout pre ps s" "seg_append io b s = (r, s')" "\<not> sg_mutex_held s'"
  shows "\<exists>ps'. log_steps (sg_next_offset s, ps) (sg_next_offset s', ps') \<and> layout pre ps' s'"
proof (cases "\<not> seg_is_active s \<or> rb_records b = []")
  case True
  then have "s' = s" using assms(1,2) by (auto simp: seg_append_def layout_def split: if_splits)
  then show ?thesis using assms(1) by blast
next
  case False
  then have act: "seg_is_active s" and ne: "rb_records b \<noteq> []" by auto
  let ?n = "sg_next_offset s" and ?base = "sh_base_offset (sg_header s)"
  let ?data = "stamp ?n (seg_serialize_batch b)"
  have l: "sg_fd s" "stores pre ps (data_file s)" "sg_file_size s = 64 + extent ps" "\<not> sg_mutex_held s" "\<not> sg_index_mutex_held s"
      "ordered ?base ?n ps" "index_ok ?base ?n ps (sg_sparse_index s)"
    using assms(1) by (simp_all add: layout_def)
  show ?thesis
  proof (cases rule: extend_file_cases [OF l(1-3), of "int (length (seg_serialize_batch b))" io, case_names nonneg failed extended])
    case nonneg
    then show ?case by simp
  next
    case (failed e)
    then have "s' = s" using assms(2) l(4) act ne by (simp add: seg_append_def Let_def)
    then show ?thesis using assms(1) by blast
  next
    case (extended f)
    show ?thesis
    proof (cases "io_write io 0")
      case (Some n)
      then have s': "s' = s\<lparr>sg_file := Some (overlay (64 + extent ps) (take n ?data) f), sg_file_size := int (length f)\<rparr>"
        using assms(2) l(3,4) act ne extended(1) by (auto simp: seg_append_def Let_def)
      obtain bs where bs: "stores pre (ps @ [Torn bs]) (overlay (64 + extent ps) (take n ?data) f)" "int (length f) = 64 + extent (ps @ [Torn bs])"
        using torn_write [OF extended(2), of ?data n] extended(3) by auto
      have "layout pre (ps @ [Torn bs]) s'"
        using l bs by (intro layoutI [OF assms(1)]) (simp_all add: s' ordered_torn index_ok_torn del: extent_simps)
      moreover have "sg_next_offset s' = ?n" by (simp add: s')
      ultimately show ?thesis using log_tear by (metis r_into_rtranclp)
    next
      case None
      have "io_ftruncate io" using extended(1) by (auto simp: extend_file_def Let_def split: if_splits)
      then show ?thesis using append_written [OF assms(1) act ne _ None assms(2)] assms(3) log_append [OF ne] by (metis r_into_rtranclp)
    qed
  qed
qed

subsection \<open>Several batches\<close>

fun written :: "log_offset \<Rightarrow> RecordBatch list \<Rightarrow> piece list" where
  "written off [] = []"
| "written off (b # bs) = Written off b # written (off + record_total b) bs"

abbreviation batches_total :: "RecordBatch list \<Rightarrow> int" where
  "batches_total bs \<equiv> sum_list (map record_total bs)"

lemma pending_bytes: "sum_list (map (\<lambda>(d, off). int (length d)) (pending_writes off bs)) = extent (written off bs)"
  by (induction bs arbitrary: off) simp_all

lemma written_steps:
  "list_all (\<lambda>b. rb_records b \<noteq> []) bs \<Longrightarrow> log_steps (n, ps) (n + batches_total bs, ps @ written n bs)"
proof (induction bs arbitrary: n ps)
  case (Cons b bs)
  have "log_step (n, ps) (n + record_total b, ps @ [Written n b])" using Cons.prems by (simp add: log_append)
  also have "log_steps \<dots> (n + record_total b + batches_total bs, (ps @ [Written n b]) @ written (n + record_total b) bs)"
    using Cons.prems by (intro Cons.IH) simp
  finally show ?case by (simp add: add.assoc)
qed simp

lemma ordered_all_written: "ordered base n ps \<Longrightarrow> ordered base (n + batches_total bs) (ps @ written n bs)"
proof (induction bs arbitrary: n ps)
  case (Cons b bs)
  then show ?case using Cons.IH [OF ordered_written [OF Cons.prems, of b]] by (simp add: add.assoc)
qed simp

lemma write_pending_ok:
  assumes "stores pre ps (data_file s)" "ordered base n ps" "index_ok base n ps (sg_sparse_index s)"
    "list_all (\<lambda>b. rb_records b \<noteq> []) bs" "write_pending io i ts (pending_writes n bs) (64 + extent ps) s = (True, s')"
  shows "stores pre (ps @ written n bs) (data_file s') \<and>
    index_ok base (n + batches_total bs) (ps @ written n bs) (sg_sparse_index s') \<and>
    sg_fd s' = sg_fd s \<and> sg_state s' = sg_state s \<and> sg_mutex_held s' = sg_mutex_held s \<and>
    sg_index_mutex_held s' = sg_index_mutex_held s \<and> sg_header s' = sg_header s \<and> sg_config s' = sg_config s"
  using assms
proof (induction bs arbitrary: n ps s i)
  case (Cons b bs)
  let ?u = "s\<lparr>sg_file := Some (overlay (64 + extent ps) (stamp n (seg_serialize_batch b)) (data_file s))\<rparr>"
  let ?v = "update_sparse_index n (64 + extent ps) ts ?u"
  have w: "io_write io i = None" "write_pending io (i + 1) ts (pending_writes (n + record_total b) bs) (64 + extent (ps @ [Written n b])) ?v = (True, s')"
    using Cons.prems(5) by (auto simp: add.assoc split: option.splits)
  have st: "stores pre (ps @ [Written n b]) (data_file ?v)"
    using stores_overlay [OF Cons.prems(1), of "Written n b"] by (simp add: data_file_def)
  have "index_ok base (n + record_total b) (ps @ [Written n b]) (sg_sparse_index ?v)"
    using Cons.prems(2-4) by (intro update_sparse_index_ok) (auto simp: ordered_def)
  from Cons.IH [OF st ordered_written [OF Cons.prems(2)] this _ w(2)] Cons.prems(4) show ?case
    by (simp add: add.assoc)
qed simp

lemma append_batch_layout:
  assumes "layout pre ps s" "list_all (\<lambda>b. rb_records b \<noteq> []) bs" "seg_append_batch io bs s = (r, s')" "\<not> sg_mutex_held s'"
  shows "\<exists>ps'. log_steps (sg_next_offset s, ps) (sg_next_offset s', ps') \<and> layout pre ps' s'"
proof (cases "bs = [] \<or> \<not> seg_is_active s")
  case True
  then have "s' = s" using assms(1,3) by (auto simp: seg_append_batch_def layout_def split: if_splits)
  then show ?thesis using assms(1) by blast
next
  case False
  then have act: "seg_is_active s" "bs \<noteq> []" by auto
  let ?n = "sg_next_offset s" and ?base = "sh_base_offset (sg_header s)" and ?q = "written (sg_next_offset s) bs"
  let ?ts = "fold (\<lambda>b m. max (batch_timestamp b) m) bs 0"
  have l: "sg_fd s" "stores pre ps (data_file s)" "sg_file_size s = 64 + extent ps" "\<not> sg_mutex_held s" "\<not> sg_index_mutex_held s"
      "ordered ?base ?n ps" "index_ok ?base ?n ps (sg_sparse_index s)"
    using assms(1) by (simp_all add: layout_def)
  show ?thesis
  proof (cases rule: extend_file_cases [OF l(1-3), of "extent ?q" io, case_names nonneg failed extended])
    case nonneg
    then show ?case by simp
  next
    case (failed e)
    then have "s' = s" using assms(3) l(4) act by (simp add: seg_append_batch_def Let_def pending_bytes)
    then show ?thesis using assms(1) by blast
  next
    case (extended f)
    let ?u = "s\<lparr>sg_file := Some f, sg_file_size := int (length f)\<rparr>"
    obtain ok v where w: "write_pending io 0 ?ts (pending_writes ?n bs) (64 + extent ps) ?u = (ok, v)" by fastforce
    let ?w = "count_written (extent ?q) (int (length bs)) (batches_total bs)
        (raise_max_timestamp ?ts (v\<lparr>sg_file_size := 64 + extent ps + extent ?q, sg_next_offset := ?n + batches_total bs\<rparr>))"
    have "ok" "s' = (if sc_sync_on_append (sg_config ?w) then ?w\<lparr>sg_mutex_held := True\<rparr> else ?w)"
      using assms(3,4) l(3,4) act extended(1) w
      by (auto simp: seg_append_batch_def Let_def pending_bytes split: if_splits bool.splits)
    then have ok: "write_pending io 0 ?ts (pending_writes ?n bs) (64 + extent ps) ?u = (True, v)" and s': "s' = ?w"
      using assms(4) w by (auto split: if_splits)
    have v: "stores pre (ps @ ?q) (data_file v) \<and> index_ok ?base (?n + batches_total bs) (ps @ ?q) (sg_sparse_index v) \<and>
        sg_fd v = sg_fd s \<and> sg_state v = sg_state s \<and> sg_mutex_held v = sg_mutex_held s \<and>
        sg_index_mutex_held v = sg_index_mutex_held s \<and> sg_header v = sg_header s \<and> sg_config v = sg_config s"
      using write_pending_ok [OF _ l(6) _ assms(2) ok, of pre] extended(2) l(7) by (simp add: data_file_def)
    then have "layout pre (ps @ ?q) s'"
      using l ordered_all_written [OF l(6), of bs]
      by (intro layoutI [OF assms(1)]) (simp_all add: s' count_written_def data_file_def)
    moreover have "sg_next_offset s' = ?n + batches_total bs" by (simp add: s' count_written_def)
    ultimately show ?thesis using written_steps [OF assms(2)] by metis
  qed
qed

subsection \<open>Truncation\<close>

lemma truncate_layout:
  assumes "layout pre ps s" "seg_truncate_to io t s = (r, s')"
  shows "\<exists>ps'. log_steps (sg_next_offset s, ps) (sg_next_offset s', ps') \<and> layout pre ps' s'"
proof (cases "t < sh_base_offset (sg_header s) \<or> t \<ge> sg_next_offset s \<or> \<not> io_ftruncate io")
  case True
  then have "s' = s" using assms by (auto simp: seg_truncate_to_def layout_def Let_def split: if_splits)
  then show ?thesis using assms(1) by blast
next
  case False
  let ?n = "sg_next_offset s" and ?base = "sh_base_offset (sg_header s)" and ?es = "sg_sparse_index s"
  let ?b = "filter (\<lambda>e. si_offset e \<le> t) ?es" and ?c = "filter (\<lambda>e. si_offset e < t) ?es"
  have t: "?base \<le> t" "t < ?n" "io_ftruncate io" using False by auto
  have l: "sg_fd s" "stores pre ps (data_file s)" "sg_file_size s = 64 + extent ps" "\<not> sg_mutex_held s" "\<not> sg_index_mutex_held s"
      "ordered ?base ?n ps" "index_ok ?base ?n ps ?es"
    using assms(1) by (simp_all add: layout_def)
  have asc: "ascending si_offset ?es" using l(7) by (simp add: index_ok_def)
  define m where "m = (if t > ?base then (case find_position t s of Some p \<Rightarrow> p | None \<Rightarrow> kSegmentHeaderSize) else kSegmentHeaderSize)"
  let ?u = "s\<lparr>sg_file := Some (ftruncate m (data_file s)), sg_file_size := m\<rparr>"
  have s': "s' = (prune_sparse_index t ?u)\<lparr>sg_next_offset := t\<rparr>"
    using assms(2) t l(1,4) by (auto simp: seg_truncate_to_def m_def Let_def)
  have none: "?c = []" if "t = ?base" using that l(7) by (auto simp: index_ok_def list_all_iff entry_ok_def filter_empty_conv)
  have "\<exists>k. m = 64 + extent (take k ps) \<and> list_all (ends_by t) (take k ps) \<and> index_ok ?base t (take k ps) ?c"
  proof (cases "t > ?base \<and> ?b \<noteq> []")
    case True
    then have "m = si_file_position (last ?b)" by (auto simp: m_def find_position_eq [OF asc] Let_def)
    moreover have "t \<le> ?n" using t(2) by simp
    ultimately show ?thesis using floor_cut [OF l(7), of t] True by auto
  next
    case False
    then have "m = 64" by (auto simp: m_def find_position_eq [OF asc] Let_def kSegmentHeaderSize_def)
    moreover have "?c = []" using False none t(1) by (auto simp: filter_empty_conv)
    ultimately show ?thesis by (intro exI [of _ 0]) (simp add: index_ok_def positions_ascend_def)
  qed
  then obtain k where k: "m = 64 + extent (take k ps)" "list_all (ends_by t) (take k ps)" "index_ok ?base t (take k ps) ?c" by blast
  have "layout pre (take k ps) s'"
    using l t k stores_cut [OF l(2), of k] ordered_cut [OF l(6) t(1) k(2)] asc
    by (intro layoutI [OF assms(1)]) (simp_all add: s' prune_entries data_file_def)
  moreover have "sg_next_offset s' = t" by (simp add: s')
  ultimately show ?thesis using log_cut [OF _ k(2), of ?n] t(2) by (metis less_imp_le r_into_rtranclp)
qed

section \<open>Runs\<close>

text \<open>An implementation whose operations are simulated by steps of an abstract machine.\<close>

locale simulated =
  fixes exec :: "'op \<Rightarrow> 's \<Rightarrow> 's" and ok :: "'op \<Rightarrow> bool" and rel :: "'s \<Rightarrow> 'a \<Rightarrow> bool" and step :: "'a \<Rightarrow> 'a \<Rightarrow> bool"
  assumes simulates: "rel s a \<Longrightarrow> ok op \<Longrightarrow> \<exists>a'. step\<^sup>*\<^sup>* a a' \<and> rel (exec op s) a'"
begin

lemma run_simulates: "rel s a \<Longrightarrow> list_all ok ops \<Longrightarrow> \<exists>a'. step\<^sup>*\<^sup>* a a' \<and> rel (fold exec ops s) a'"
proof (induction ops arbitrary: s a)
  case (Cons op ops)
  have "ok op" "list_all ok ops" using Cons.prems(2) by simp_all
  then obtain b where "step\<^sup>*\<^sup>* a b" "rel (exec op s) b" using simulates [OF Cons.prems(1)] by blast
  then show ?case using Cons.IH [of "exec op s" b] \<open>list_all ok ops\<close> by (auto intro: rtranclp_trans)
qed auto

end

text \<open>A call of a public method that changes state, or takes a lock.\<close>

datatype seg_op =
    Open | Close | Append RecordBatch | Append_batch "RecordBatch list" | Flush | Fsync | Read log_offset int
  | Read_range log_offset log_offset int | Read_at log_offset | Truncate_to log_offset | Rebuild_index | Flush_index
  | Seal | Roll | Compact "(Record \<Rightarrow> Record \<Rightarrow> bool) option"

fun seg_exec :: "seg_io \<times> seg_op \<Rightarrow> Segment \<Rightarrow> Segment" where
  "seg_exec (io, Open) s = snd (seg_open io s)"
| "seg_exec (io, Close) s = snd (seg_close s)"
| "seg_exec (io, Append b) s = snd (seg_append io b s)"
| "seg_exec (io, Append_batch bs) s = snd (seg_append_batch io bs s)"
| "seg_exec (io, Flush) s = snd (seg_flush io s)"
| "seg_exec (io, Fsync) s = snd (seg_fsync io s)"
| "seg_exec (io, Read off n) s = s"
| "seg_exec (io, Read_range a b n) s = s"
| "seg_exec (io, Read_at off) s = s"
| "seg_exec (io, Truncate_to t) s = snd (seg_truncate_to io t s)"
| "seg_exec (io, Rebuild_index) s = snd (rebuild_index io s)"
| "seg_exec (io, Flush_index) s = snd (flush_index io s)"
| "seg_exec (io, Seal) s = snd (seg_seal s)"
| "seg_exec (io, Roll) s = snd (seg_roll s)"
| "seg_exec (io, Compact c) s = snd (seg_compact_records c s)"

fun batches_filled :: "seg_io \<times> seg_op \<Rightarrow> bool" where
  "batches_filled (io, Append_batch bs) \<longleftrightarrow> list_all (\<lambda>b. rb_records b \<noteq> []) bs"
| "batches_filled _ \<longleftrightarrow> True"

text \<open>Once a method waits for \<^verbatim>\<open>mutex_\<close> the state stays as it is, apart from the index file.\<close>

definition seg_rel :: "bytes \<Rightarrow> Segment \<Rightarrow> log_offset \<times> piece list \<Rightarrow> bool" where
  "seg_rel pre s a \<longleftrightarrow> sg_mutex_held s \<or> layout pre (snd a) s \<and> fst a = sg_next_offset s"

lemma held_stays: "sg_mutex_held s \<Longrightarrow> sg_mutex_held (seg_exec (io, op) s)"
  by (cases op) (simp_all add: seg_open_def seg_close_def seg_append_def seg_append_batch_def seg_flush_def seg_fsync_def
      seg_truncate_to_def rebuild_index_def flush_index_def seg_seal_def seg_roll_def seg_compact_records_def Let_def split: option.splits)

lemma flush_index_layout: "layout pre ps s \<Longrightarrow> layout pre ps (snd (flush_index io s)) \<and> sg_next_offset (snd (flush_index io s)) = sg_next_offset s"
  by (auto simp: flush_index_def layout_def Let_def data_file_def seg_is_open_def split: option.splits)

lemma fsync_layout:
  assumes "layout pre ps s"
  shows "layout pre ps (snd (seg_fsync io s)) \<and> sg_next_offset (snd (seg_fsync io s)) = sg_next_offset s"
proof -
  obtain r s' where f: "flush_index io s = (r, s')" by fastforce
  then have "layout pre ps s' \<and> sg_next_offset s' = sg_next_offset s" using flush_index_layout [OF assms, of io] by simp
  moreover have "r \<noteq> Blocked" using f assms by (auto simp: flush_index_def layout_def Let_def split: if_splits option.splits)
  ultimately show ?thesis using assms f by (auto simp: seg_fsync_def split: outcome.splits)
qed

lemma rebuild_layout:
  assumes "layout pre ps s" "\<not> sg_mutex_held (snd (rebuild_index io s))"
  shows "layout pre ps (snd (rebuild_index io s)) \<and> sg_next_offset (snd (rebuild_index io s)) = sg_next_offset s"
proof (cases "sg_file_size s \<le> 64")
  case True
  then show ?thesis using assms
    by (auto simp: rebuild_index_def layout_def kSegmentHeaderSize_def data_file_def seg_is_open_def index_ok_def positions_ascend_def)
next
  case False
  then show ?thesis using assms
    by (auto simp: rebuild_index_def layout_def kSegmentHeaderSize_def flush_index_def Let_def split: prod.splits)
qed

lemma exec_layout:
  assumes "layout pre ps s" "batches_filled (io, op)" "\<not> sg_mutex_held (seg_exec (io, op) s)"
  shows "\<exists>ps'. log_steps (sg_next_offset s, ps) (sg_next_offset (seg_exec (io, op) s), ps') \<and> layout pre ps' (seg_exec (io, op) s)"
proof -
  have same: ?thesis if "layout pre ps (seg_exec (io, op) s) \<and> sg_next_offset (seg_exec (io, op) s) = sg_next_offset s"
    using that by (intro exI [of _ ps]) simp
  show ?thesis
  proof (cases op)
    case (Append b)
    then show ?thesis using assms append_layout [OF assms(1), of io b "fst (seg_append io b s)"] by simp
  next
    case (Append_batch bs)
    then show ?thesis using assms append_batch_layout [OF assms(1), of bs io "fst (seg_append_batch io bs s)"] by simp
  next
    case (Truncate_to t)
    then show ?thesis using truncate_layout [OF assms(1), of io t "fst (seg_truncate_to io t s)"] by simp
  next
    case Fsync
    show ?thesis by (rule same) (simp add: Fsync fsync_layout [OF assms(1)])
  next
    case Flush_index
    show ?thesis by (rule same) (simp add: Flush_index flush_index_layout [OF assms(1)])
  next
    case Rebuild_index
    show ?thesis using assms(3) by (intro same) (simp add: Rebuild_index rebuild_layout [OF assms(1)])
  next
    case (Compact c)
    have "seg_exec (io, op) s = s"
      using Compact assms(3) by (auto simp: seg_compact_records_def split: option.splits outcome.splits sum.splits if_splits)
    then show ?thesis using same assms(1) by simp
  qed (use assms in \<open>auto intro!: same simp: seg_open_def seg_close_def seg_flush_def seg_seal_def seg_roll_def layout_def
         seg_is_open_def split: if_splits\<close>)
qed

interpretation segment: simulated seg_exec batches_filled "seg_rel pre" log_step
  for pre
proof
  fix s a and op :: "seg_io \<times> seg_op"
  assume r: "seg_rel pre s a" and ok: "batches_filled op"
  obtain io o' where op: "op = (io, o')" by (cases op)
  show "\<exists>a'. log_steps a a' \<and> seg_rel pre (seg_exec op s) a'"
  proof (cases "sg_mutex_held (seg_exec op s)")
    case True
    then show ?thesis by (intro exI [of _ a]) (simp add: seg_rel_def)
  next
    case False
    then have "layout pre (snd a) s" "a = (sg_next_offset s, snd a)"
      using r held_stays [of s io o'] op by (auto simp: seg_rel_def intro: prod_eqI)
    then show ?thesis using exec_layout [of pre "snd a" s io o'] ok False op by (metis fst_conv seg_rel_def snd_conv)
  qed
qed

text \<open>Opening a new segment beside an index file without entries.\<close>

definition fresh_segment :: "SegmentConfig \<Rightarrow> timestamp_ms \<Rightarrow> Segment" where
  "fresh_segment c now = new_segment now c None (Some (index_file_bytes []))"

definition calm :: "timestamp_ms \<Rightarrow> seg_io" where
  "calm now = \<lparr>io_now = now, io_open = True, io_write = (\<lambda>k. None), io_ftruncate = True, io_fsync = True,
     io_index_open = True, io_index_write = None, io_index_fsync = True\<rparr>"

lemma length_header_bytes: "length (header_bytes h) = 64"
  by (simp add: header_bytes_def write_le64s_def)

lemma load_empty_index:
  "sg_index_file s = Some (index_file_bytes []) \<Longrightarrow> io_index_open io \<Longrightarrow>
     load_index io s = (None, s\<lparr>sg_sparse_index := [], sg_index_dirty := False\<rparr>)"
  by (simp add: load_index_def index_file_bytes_def read_le Let_def)

text \<open>The header that \<^verbatim>\<open>prepare_file\<close> writes.\<close>

definition new_header :: "SegmentConfig \<Rightarrow> timestamp_ms \<Rightarrow> SegmentHeader" where
  "new_header c now =
     (let h = default_header\<lparr>sh_base_offset := sc_base_offset c, sh_segment_id := sc_segment_id c, sh_created_at := now,
          sh_compression := compression_byte (sc_compression c)\<rparr>
      in h\<lparr>sh_header_crc := compute_header_crc h\<rparr>)"

lemma compute_crc_ignores_crc [simp]: "compute_header_crc (h\<lparr>sh_header_crc := x\<rparr>) = compute_header_crc h"
  by (simp add: compute_header_crc_def)

lemma new_header_valid: "0 \<le> sc_base_offset c \<Longrightarrow> header_is_valid (new_header c now)" "validate_header_crc (new_header c now)"
  by (simp_all add: new_header_def header_is_valid_def default_header_def validate_header_crc_def Let_def compute_header_crc_def)

lemma prepare_fresh:
  assumes "sg_file s = None" "io_open io" "io_write io 0 = None" "\<not> sc_preallocate (sg_config s)"
  shows "prepare_file io s = (None, s\<lparr>sg_fd := True, sg_header := new_header (sg_config s) (io_now io),
    sg_file := Some (header_bytes (new_header (sg_config s) (io_now io)))\<rparr>)"
proof -
  have "overlay 0 bs [] = bs" for bs :: bytes by (simp add: overlay_def ftruncate_def)
  then show ?thesis using assms
    by (simp add: prepare_file_def write_header_def Let_def new_header_def default_header_def data_file_def)
qed

lemma open_fresh:
  assumes "sc_file_path c \<noteq> []" "0 \<le> sc_base_offset c" "\<not> sc_preallocate c" "\<not> sc_read_only c"
    "io_open io" "io_write io 0 = None" "io_index_open io" "seg_open io (fresh_segment c now) = (r, s)"
  shows "r = Returned (Inr ())" "layout (header_bytes (new_header c (io_now io))) [] s"
    "sg_next_offset s = sc_base_offset c" "seg_is_active s" "sc_sync_on_append (sg_config s) = sc_sync_on_append c"
proof -
  let ?s = "fresh_segment c now" and ?h = "new_header c (io_now io)"
  have c: "\<not> sc_preallocate (sg_config ?s)" "\<not> sc_read_only (sg_config ?s)" "sc_sync_on_append (sg_config ?s) = sc_sync_on_append c"
      "new_header (sg_config ?s) (io_now io) = ?h"
    using assms(1-4) by (simp_all add: fresh_segment_def new_segment_def Let_def new_header_def)
  have f: "sg_file ?s = None" "sg_index_file ?s = Some (index_file_bytes [])" "sg_state ?s = seg_uninitialized"
      "\<not> sg_mutex_held ?s" "\<not> sg_index_mutex_held ?s" "sg_sparse_index ?s = []"
    using assms(1) by (simp_all add: fresh_segment_def new_segment_def Let_def)
  let ?t = "?s\<lparr>sg_fd := True, sg_header := ?h, sg_file := Some (header_bytes ?h), sg_file_size := 64, sg_sparse_index := [], sg_index_dirty := False\<rparr>"
  have p: "prepare_file io ?s = (None, ?s\<lparr>sg_fd := True, sg_header := ?h, sg_file := Some (header_bytes ?h)\<rparr>)"
    using prepare_fresh [OF f(1) assms(5,6) c(1)] c(4) by simp
  have "load_index io (?s\<lparr>sg_fd := True, sg_header := ?h, sg_file := Some (header_bytes ?h), sg_file_size := 64\<rparr>) = (None, ?t)"
    using load_empty_index f(2) assms(7) by simp
  then have o: "seg_open io ?s = (Returned (Inr ()), seg_finish_open ?t)"
    using f p new_header_valid [of c "io_now io"] assms(2)
    by (simp add: seg_open_def data_file_def length_header_bytes kSegmentHeaderSize_def)
  have h: "\<not> header_is_sealed ?h" "sh_base_offset ?h = sc_base_offset c"
    by (simp_all add: new_header_def Let_def header_is_sealed_def default_header_def)
  then have fin: "seg_finish_open ?t = ?t\<lparr>sg_next_offset := sc_base_offset c, sg_state := seg_active\<rparr>"
    using c(2) by (simp add: seg_finish_open_def data_file_def length_header_bytes kSegmentHeaderSize_def Let_def)
  have s: "r = Returned (Inr ())" "s = ?t\<lparr>sg_next_offset := sc_base_offset c, sg_state := seg_active\<rparr>"
    using o assms(8) by (simp_all add: fin)
  show "r = Returned (Inr ())" by (rule s)
  show "sg_next_offset s = sc_base_offset c" "seg_is_active s" "sc_sync_on_append (sg_config s) = sc_sync_on_append c"
    using h c by (simp_all add: s(2) seg_is_active_def)
  show "layout (header_bytes ?h) [] s"
    using f h by (simp add: s(2) layout_def seg_is_open_def stores_def length_header_bytes data_file_def ordered_def index_ok_def positions_ascend_def)
qed

section \<open>Properties\<close>

text \<open>
  C10: a segment is an append-only log. A new segment is opened beside an index file without entries; whatever is called on
  it then, with whatever outcome of the system calls, the file holds the unchanged header and after it the
  pieces of an abstract log that starts empty: batches as serialised, at the offsets assigned to them,
  which ascend and never overlap, bytes of failed writes, and nothing at or above an offset the log was cut
  to. The index ascends and its entries lie on borders of pieces. It holds as long as no call waits for
  its own mutex and no batch without records is written by \<^verbatim>\<open>append_batch\<close>.
\<close>

theorem segment_refines_log:
  assumes "sc_file_path c \<noteq> []" "0 \<le> sc_base_offset c" "\<not> sc_preallocate c" "\<not> sc_read_only c"
    "io_open io" "io_write io 0 = None" "io_index_open io" "list_all batches_filled ops"
  defines "s \<equiv> fold seg_exec ops (snd (seg_open io (fresh_segment c (io_now io))))"
  assumes "\<not> sg_mutex_held s"
  shows "\<exists>ps. log_steps (sc_base_offset c, []) (sg_next_offset s, ps) \<and>
    layout (header_bytes (new_header c (io_now io))) ps s"
proof -
  let ?p = "header_bytes (new_header c (io_now io))"
  obtain r t where o: "seg_open io (fresh_segment c (io_now io)) = (r, t)" by fastforce
  then have "seg_rel ?p t (sc_base_offset c, [])"
    using open_fresh [OF assms(1-7) o] by (simp add: seg_rel_def)
  from segment.run_simulates [OF this assms(8)] assms(10) show ?thesis by (auto simp: s_def o seg_rel_def)
qed

definition demo_config :: SegmentConfig where
  "demo_config = \<lparr>sc_file_path = ''0.log'', sc_index_file_path = [], sc_base_offset = 40, sc_segment_id = 1,
     sc_compression = no_compression, sc_max_segment_bytes = 0, sc_max_segment_age_ms = 0, sc_index_interval_bytes = 0,
     sc_preallocate = False, sc_read_only = False, sc_sync_on_append = False\<rparr>"

lemma demo_open:
  obtains s where "snd (seg_open (calm 7) (fresh_segment demo_config 7)) = s"
    "layout (header_bytes (new_header demo_config 7)) [] s" "sg_next_offset s = 40" "seg_is_active s"
    "\<not> sc_sync_on_append (sg_config s)"
proof -
  obtain r s where o: "seg_open (calm 7) (fresh_segment demo_config 7) = (r, s)" by fastforce
  then show ?thesis using that [of s] open_fresh [OF _ _ _ _ _ _ _ o] by (simp add: demo_config_def calm_def)
qed

lemma sample_records: "rb_records sample_batch \<noteq> []" "length (rb_records sample_batch) = 2"
  by (simp_all add: sample_batch_def)

lemma calm_fields [simp]:
  "io_now (calm n) = n" "io_open (calm n)" "io_write (calm n) k = None" "io_ftruncate (calm n)" "io_fsync (calm n)"
  "io_index_open (calm n)" "io_index_write (calm n) = None" "io_index_fsync (calm n)"
  by (simp_all add: calm_def)

theorem segment_refines_log_witness:
  "\<exists>ps. log_steps (40, []) (42, ps) \<and> layout (header_bytes (new_header demo_config 7)) ps
     (seg_exec (calm 7, Append sample_batch) (snd (seg_open (calm 7) (fresh_segment demo_config 7))))"
proof -
  obtain s where s: "snd (seg_open (calm 7) (fresh_segment demo_config 7)) = s"
    "layout (header_bytes (new_header demo_config 7)) [] s" "sg_next_offset s = 40" "seg_is_active s"
    "\<not> sc_sync_on_append (sg_config s)" by (rule demo_open)
  obtain q t where a: "seg_append (calm 7) sample_batch s = (q, t)" by fastforce
  have t: "\<not> sg_mutex_held t" "sg_next_offset t = 42"
    using append_written(1,3) [OF s(2,4) sample_records(1) _ _ a] s(3,5) sample_records(2) by simp_all
  show ?thesis
    using segment_refines_log [of demo_config "calm 7" "[(calm 7, Append sample_batch)]"] t
    by (simp add: s(1) a) (simp add: demo_config_def)
qed

text \<open>
  A successful \<^verbatim>\<open>append\<close> assigns the next offset, writes the whole batch right behind what the file held, and leaves
  every byte before it as it was; the following append gets the offset after its last record. With
  \<^verbatim>\<open>sync_on_append\<close> set it does not return: it calls \<^verbatim>\<open>flush\<close> with \<^verbatim>\<open>mutex_\<close> held.
\<close>

theorem append_writes_batch:
  assumes "layout pre ps s" "seg_is_active s" "rb_records b \<noteq> []" "io_ftruncate io" "io_write io 0 = None"
    "seg_append io b s = (r, t)"
  shows "if sc_sync_on_append (sg_config s) then r = Blocked \<and> sg_mutex_held t
    else r = Returned (Inr \<lparr>ar_base_offset = sg_next_offset s, ar_file_position = sg_file_size s, ar_batches_written = 1,
           ar_records_written = record_total b, ar_append_time = io_now io\<rparr>) \<and>
      sg_next_offset t = sg_next_offset s + record_total b \<and>
      layout pre (ps @ [Written (sg_next_offset s) b]) t \<and>
      take (nat (sg_file_size t)) (data_file t) =
        take (nat (sg_file_size s)) (data_file s) @ stamp (sg_next_offset s) (seg_serialize_batch b)"
proof (cases "sc_sync_on_append (sg_config s)")
  case True
  then show ?thesis using append_written(1,2) [OF assms] by simp
next
  case False
  note w = append_written [OF assms]
  have t: "layout pre (ps @ [Written (sg_next_offset s) b]) t" using w(1,6) False by simp
  have "take (nat (sg_file_size u)) (data_file u) = pre @ concat (map piece_bytes qs)" if "layout pre qs u" for qs u
    using that by (auto simp: layout_def stores_def extent_def nat_add_distrib)
  then show ?thesis using w False t assms(1) by simp
qed

theorem append_writes_batch_witness:
  "\<exists>s r t. seg_append (calm 7) sample_batch s = (r, t) \<and> sg_next_offset s = 40 \<and> sg_next_offset t = 42 \<and>
     take (nat (sg_file_size t)) (data_file t) = take (nat (sg_file_size s)) (data_file s) @ stamp 40 (seg_serialize_batch sample_batch)"
proof -
  obtain s where s: "layout (header_bytes (new_header demo_config 7)) [] s" "sg_next_offset s = 40" "seg_is_active s"
    "\<not> sc_sync_on_append (sg_config s)" by (rule demo_open)
  obtain r t where a: "seg_append (calm 7) sample_batch s = (r, t)" by fastforce
  show ?thesis
    using append_writes_batch [OF s(1,3) sample_records(1) _ _ a] s(2,4) a sample_records(2)
    by (intro exI [of _ s] exI [of _ r] exI [of _ t]) simp
qed

lemma floor_no_skip:
  assumes "layout pre ps s" "i < length ps" "ps ! i = Written off b" "off \<le> t" "t < off + record_total b"
  shows "\<exists>k \<le> i. find_position t s = Some (64 + extent (take k ps))"
proof -
  let ?es = "sg_sparse_index s" and ?base = "sh_base_offset (sg_header s)"
  let ?b = "filter (\<lambda>e. si_offset e \<le> t) ?es"
  have ok: "index_ok ?base (sg_next_offset s) ps ?es" and size: "sg_file_size s = 64 + extent ps"
    and ord: "ordered ?base (sg_next_offset s) ps"
    using assms(1) by (simp_all add: layout_def)
  have asc: "ascending si_offset ?es" using ok by (simp add: index_ok_def)
  have mem: "Written off b \<in> set ps" using assms(2,3) by (metis nth_mem)
  then have base: "?base \<le> t" using ord assms(4) by (auto simp: ordered_def list_all_iff)
  have "0 < extent ps"
  proof -
    have "piece_bytes (Written off b) \<noteq> []" using length_stamp [of off b] by (auto simp: length_serialize simp del: length_stamp)
    then have "concat (map piece_bytes ps) \<noteq> []" using mem by (auto simp del: piece_bytes.simps)
    then show ?thesis by (simp add: extent_def)
  qed
  show ?thesis
  proof (cases "?b = []")
    case True
    then have "find_position t s = Some 64"
      using \<open>0 < extent ps\<close> base size by (simp add: find_position_eq [OF asc] Let_def)
    then show ?thesis by (intro exI [of _ 0]) simp
  next
    case False
    then have f: "find_position t s = Some (si_file_position (last ?b))" by (auto simp: find_position_eq [OF asc] Let_def)
    have "last ?b \<in> set ?b" using False by (rule last_in_set)
    then have "entry_ok ?base (sg_next_offset s) ps (last ?b)" "si_offset (last ?b) \<le> t"
      using ok by (auto simp: index_ok_def list_all_iff)
    then obtain k where k: "si_file_position (last ?b) = 64 + extent (take k ps)"
        "list_all (ends_by (si_offset (last ?b))) (take k ps)" "si_offset (last ?b) \<le> t"
      unfolding entry_ok_def by blast
    have "k \<le> i"
    proof (rule ccontr)
      assume "\<not> k \<le> i"
      then have "Written off b \<in> set (take k ps)" using assms(2,3) by (metis in_set_conv_nth length_take min_less_iff_conj not_le nth_take)
      then show False using k(2,3) assms(5) by (auto simp: list_all_iff)
    qed
    then show ?thesis using f k(1) by auto
  qed
qed



subsection \<open>Files\<close>

lemma length_index_entry: "length (index_entry_bytes e) = 24"
  by (simp add: index_entry_bytes_def write_le64s_def)

definition wf_index_entry :: "SparseIndexEntry \<Rightarrow> bool" where
  "wf_index_entry e \<longleftrightarrow> in_int64 (si_offset e) \<and> in_int64 (si_file_position e) \<and> in_int64 (si_timestamp e)"

lemma read_index_entry_write: "wf_index_entry e \<Longrightarrow> read_index_entry (index_entry_bytes e @ rest) = e"
  by (simp add: read_index_entry_def index_entry_bytes_def wf_index_entry_def read_les write_le64s_def [symmetric])

lemma read_index_entries_write:
  "list_all wf_index_entry es \<Longrightarrow> read_index_entries (length es) (concat (map index_entry_bytes es) @ rest) = es"
  by (induction es) (simp_all add: read_index_entry_write length_index_entry)

lemma length_index_entries: "length (concat (map index_entry_bytes es)) = length es * 24"
  by (induction es) (simp_all add: length_index_entry)

text \<open>
  C39: the index file restores the index: when \<^verbatim>\<open>flush_index\<close> succeeded with entries to write, \<^verbatim>\<open>load_index\<close> on that file returns
  exactly the entries, whatever the index in memory was.
\<close>

theorem index_file_round_trip:
  assumes "flush_index io s = (Returned (Inr ()), s')" "sg_sparse_index s \<noteq> []" "list_all wf_index_entry (sg_sparse_index s)"
    "length (sg_sparse_index s) < 2 ^ 32" "io_index_open io'" "sg_index_file t = sg_index_file s'"
  shows "load_index io' t = (None, t\<lparr>sg_sparse_index := sg_sparse_index s, sg_index_dirty := False\<rparr>)"
proof -
  let ?es = "sg_sparse_index s"
  have f: "sg_index_file t = Some (index_file_bytes ?es)"
    using assms(1,2,6) by (auto simp: flush_index_def Let_def split: if_splits option.splits)
  have cnt: "unat (of_nat (length ?es) :: u32) = length ?es" using assms(4) by (simp add: unat_of_nat)
  have "read_le32 (drop 6 (index_file_bytes ?es)) = of_nat (length ?es)" "read_le16 (drop 4 (index_file_bytes ?es)) = 1"
    "take 4 (index_file_bytes ?es) = [0x54, 0x51, 0x49, 0x58]" "drop 16 (index_file_bytes ?es) = concat (map index_entry_bytes ?es)"
    "length (index_file_bytes ?es) = 16 + length ?es * 24"
    by (simp_all add: index_file_bytes_def read_le length_index_entries)
  then show ?thesis
    using f cnt assms(2,5) read_index_entries_write [OF assms(3), of "[]"] by (simp add: load_index_def)
qed

definition demo_entry :: SparseIndexEntry where
  "demo_entry = \<lparr>si_offset = 40, si_file_position = 64, si_timestamp = 1005\<rparr>"

theorem index_file_round_trip_witness:
  "\<exists>s s'. flush_index (calm 7) s = (Returned (Inr ()), s') \<and> sg_sparse_index s = [demo_entry] \<and>
     load_index (calm 7) s' = (None, s'\<lparr>sg_sparse_index := [demo_entry], sg_index_dirty := False\<rparr>)"
proof -
  define s where "s = (new_segment 7 demo_config None None)\<lparr>sg_sparse_index := [demo_entry], sg_index_dirty := True\<rparr>"
  have i: "sg_sparse_index s = [demo_entry]" by (simp add: s_def)
  obtain s' where f: "flush_index (calm 7) s = (Returned (Inr ()), s')"
    by (simp add: flush_index_def s_def new_segment_def demo_config_def Let_def)
  have "wf_index_entry demo_entry" by (simp add: wf_index_entry_def demo_entry_def in_int64_def)
  then show ?thesis using index_file_round_trip [OF f, of "calm 7" s'] i f by (intro exI [of _ s] exI [of _ s']) simp
qed

text \<open>Headers.\<close>

lemma parse_header_bytes:
  assumes "in_int64 (sh_base_offset h)" "in_int64 (sh_created_at h)"
  shows "parse_header (header_bytes h) = h"
  using assms by (intro SegmentHeader.equality)
    (simp_all add: parse_header_def header_bytes_def read_le read_les nth_append write_le64s_def [symmetric])

text \<open>
  A header survives on disk: what \<^verbatim>\<open>write_header\<close> wrote, \<^verbatim>\<open>read_header\<close> accepts and reads back, checksum included, if the
  header is valid and its fields fit their types.
\<close>

theorem header_round_trip:
  assumes "sg_fd s" "header_is_valid (sg_header s)" "in_int64 (sh_base_offset (sg_header s))" "in_int64 (sh_created_at (sg_header s))"
    "write_header io s = (None, s')" "sg_fd t" "sg_file t = sg_file s'"
  shows "read_header t = (None, t\<lparr>sg_header := sg_header s'\<rparr>) \<and>
    sg_header s' = (sg_header s)\<lparr>sh_header_crc := compute_header_crc (sg_header s)\<rparr>"
proof -
  let ?h = "(sg_header s)\<lparr>sh_header_crc := compute_header_crc (sg_header s)\<rparr>"
  have s': "sg_header s' = ?h" "sg_file s' = Some (overlay 0 (header_bytes ?h) (data_file s))"
    using assms(1,5) by (auto simp: write_header_def Let_def data_file_def split: option.splits)
  then have raw: "take 64 (data_file t) = header_bytes ?h"
    using assms(7) by (simp add: data_file_def overlay_def ftruncate_def length_header_bytes)
  have "header_is_valid ?h" "validate_header_crc ?h" using assms(2) by (simp_all add: header_is_valid_def validate_header_crc_def)
  then show ?thesis using assms(3,4,6) s'(1) raw
    by (simp add: read_header_def Let_def parse_header_bytes length_header_bytes)
qed

theorem header_round_trip_witness:
  "\<exists>s s'. write_header (calm 7) s = (None, s') \<and> read_header s' = (None, s') \<and> sh_base_offset (sg_header s') = 40"
proof -
  define s where "s = (new_segment 7 demo_config None None)\<lparr>sg_fd := True\<rparr>"
  obtain s' where w: "write_header (calm 7) s = (None, s')" "sg_fd s'"
    by (simp add: write_header_def s_def Let_def)
  have "header_is_valid (sg_header s)" "sh_base_offset (sg_header s) = 40" "sh_created_at (sg_header s) = 7"
    by (simp_all add: s_def new_segment_def demo_config_def Let_def header_is_valid_def default_header_def)
  then show ?thesis using header_round_trip [OF _ _ _ _ w(1) w(2)] w(1)
    by (intro exI [of _ s] exI [of _ s']) (simp add: s_def in_int64_def)
qed

subsection \<open>Where the code fails\<close>

lemma crc32c_span_append:
  assumes "crc32c_span (xs @ ys) = crc32c_span ys"
  shows "crc32c_span xs = 0"
proof -
  have "crc32c_update (crc32c_span xs) ys = crc32c_update 0 ys"
    using assms by (simp add: crc32c_span_def crc32c_update_append)
  then have "crc32c_span xs XOR 0xFFFFFFFF = 0 XOR 0xFFFFFFFF"
    unfolding crc32c_update_bitwise by (auto dest: crc32c_fold_inj)
  then have "(crc32c_span xs XOR 0xFFFFFFFF) XOR 0xFFFFFFFF = (0 XOR 0xFFFFFFFF) XOR 0xFFFFFFFF" by (rule arg_cong)
  then show ?thesis by (simp only: xor.assoc xor_self_eq xor.right_neutral)
qed

lemma write_records_base [simp]: "write_records (b\<lparr>rb_base_offset := off\<rparr>) n i recs = write_records b n i recs"
  by (induction recs arbitrary: i) (simp_all add: write_record_def offset_delta_def)

lemma tail_base [simp]: "batch_tail (b\<lparr>rb_base_offset := off\<rparr>) = batch_tail b"
  by (simp add: batch_tail_def batch_rcount_def)

text \<open>
  What \<^verbatim>\<open>append\<close> writes is refused when it is read: \<^verbatim>\<open>append\<close> recomputes the checksum over the bytes from 17 on, the old checksum
  included, while \<^verbatim>\<open>deserialize_batch\<close> compares it with that of the bytes from 21 on. The batch is accepted
  only if one of two checksums happens to be 0.
\<close>

theorem appended_batch_refused:
  assumes "wf_RecordBatch (b\<lparr>rb_base_offset := off\<rparr>)" "seg_crc32c (write_le32 (seg_crc32c (drop 21 (seg_serialize_batch b)))) \<noteq> 0"
    "seg_crc32c (drop 17 (seg_serialize_batch b)) \<noteq> 0"
  shows "seg_deserialize_batch (stamp off (seg_serialize_batch b)) e = Inl corrupt_message"
proof -
  let ?t = "batch_tail b"
  let ?c = "crc32c_span (write_le32 (crc32c_span ?t) @ ?t)"
  have d: "drop 21 (seg_serialize_batch b) = ?t" "drop 17 (seg_serialize_batch b) = write_le32 (crc32c_span ?t) @ ?t"
    by (simp_all add: serialize_layout read_layout) (simp add: batch_layout_def)
  have "?c \<noteq> 0" using assms(3) unfolding d seg_crc32c_eq .
  moreover have "?c \<noteq> crc32c_span ?t" using assms(2) crc32c_span_append unfolding d seg_crc32c_eq by blast
  ultimately show ?thesis using read_with_crc [OF assms(1), of ?c e] by (simp add: stamp_layout)
qed

definition plain_batch :: RecordBatch where
  "plain_batch = blank_batch\<lparr>rb_records := [\<lparr>rec_key = [], rec_value = [], rec_headers = [], rec_timestamp = 0, rec_offset = 0,
     rec_partition_id = 0, rec_sequence = 0, rec_producer_id = 0\<rparr>]\<rparr>"

lemma plain_tail: "batch_tail plain_batch = replicate 36 0 @ [1, 0, 0, 0, 15, 0, 0, 0] @ replicate 15 0"
  by code_simp

theorem appended_batch_refused_witness:
  "seg_deserialize_batch (stamp 40 (seg_serialize_batch plain_batch)) 40 = Inl corrupt_message"
proof (rule appended_batch_refused)
  let ?t = "batch_tail plain_batch"
  have len: "length (seg_serialize_batch (plain_batch\<lparr>rb_base_offset := 40\<rparr>)) < 2 ^ 31"
    unfolding length_serialize tail_base plain_tail by simp
  show "wf_RecordBatch (plain_batch\<lparr>rb_base_offset := 40\<rparr>)"
    unfolding wf_RecordBatch_def using len
    by (intro conjI) (simp_all add: wf_record_def offset_delta_def in_int64_def in_int32_def plain_batch_def blank_batch_def default_RecordBatch_def)
  have "uint (crc32c_span ?t) = 3606417435" unfolding crc32c_span_int plain_tail by code_simp
  then have c: "crc32c_span ?t = 3606417435" by (simp add: word_uint_eq_iff)
  have w: "write_le32 (3606417435 :: u32) = [27, 144, 245, 214]" by code_simp
  have d: "drop 21 (seg_serialize_batch plain_batch) = ?t" "drop 17 (seg_serialize_batch plain_batch) = [27, 144, 245, 214] @ ?t"
    by (simp_all add: serialize_layout read_layout) (simp add: batch_layout_def c w)
  have "uint (crc32c_span [27, 144, 245, 214]) = 572574586" unfolding crc32c_span_int by code_simp
  then show "seg_crc32c (write_le32 (seg_crc32c (drop 21 (seg_serialize_batch plain_batch)))) \<noteq> 0"
    unfolding d seg_crc32c_eq c w by (metis uint_0_eq zero_neq_numeral)
  have "uint (crc32c_span ([27, 144, 245, 214] @ ?t)) = 1501776377" unfolding crc32c_span_int plain_tail by code_simp
  then show "seg_crc32c (drop 17 (seg_serialize_batch plain_batch)) \<noteq> 0"
    unfolding d seg_crc32c_eq by (metis uint_0_eq zero_neq_numeral)
qed

text \<open>
  Opening a segment without an index file never returns: \<^verbatim>\<open>open\<close> calls \<^verbatim>\<open>rebuild_index\<close>, which locks the mutex that
  \<^verbatim>\<open>open\<close> holds. That is every new segment. From then on every call that locks the mutex waits as well.
\<close>

theorem open_without_index_blocks:
  assumes "\<not> sg_mutex_held s" "sg_state s = seg_uninitialized" "prepare_file io s = (None, t)" "header_is_valid (sg_header t)"
    "validate_header_crc (sg_header t)" "sg_index_file s = None" "seg_open io s = (r, u)"
  shows "r = Blocked \<and> fst (seg_open io' u) = Blocked \<and> fst (seg_close u) = Blocked \<and> fst (seg_append io' b u) = Blocked \<and>
    seg_read off n u = Blocked \<and> fst (seg_truncate_to io' off u) = Blocked \<and> fst (seg_flush io' u) = Blocked \<and>
    fst (seg_fsync io' u) = Blocked \<and> fst (rebuild_index io' u) = Blocked \<and> fst (seg_seal u) = Blocked \<and> fst (seg_roll u) = Blocked"
proof -
  have "sg_index_file t = None"
    using assms(3,6) by (auto simp: prepare_file_def read_header_def write_header_def Let_def split: if_splits option.splits prod.splits)
  then have "r = Blocked" "sg_mutex_held u"
    using assms(1,2,3,4,5,7) by (auto simp: seg_open_def load_index_def Let_def)
  then show ?thesis
    by (simp add: seg_open_def seg_close_def seg_append_def seg_read_def seg_truncate_to_def seg_flush_def seg_fsync_def
        rebuild_index_def seg_seal_def seg_roll_def)
qed

theorem open_without_index_blocks_witness:
  "fst (seg_open (calm 7) (new_segment 7 demo_config None None)) = Blocked"
proof -
  let ?s = "new_segment 7 demo_config None None"
  have s: "\<not> sg_mutex_held ?s" "sg_state ?s = seg_uninitialized" "sg_file ?s = None" "\<not> sc_preallocate (sg_config ?s)"
      "sg_index_file ?s = None" "0 \<le> sc_base_offset (sg_config ?s)"
    by (simp_all add: new_segment_def demo_config_def Let_def)
  obtain r u where o: "seg_open (calm 7) ?s = (r, u)" by fastforce
  have "prepare_file (calm 7) ?s = (None, ?s\<lparr>sg_fd := True, sg_header := new_header (sg_config ?s) 7,
      sg_file := Some (header_bytes (new_header (sg_config ?s) 7))\<rparr>)"
    using prepare_fresh [OF s(3) _ _ s(4), of "calm 7"] by simp
  from open_without_index_blocks [OF s(1,2) this _ _ s(5) o] show ?thesis
    using o new_header_valid s(6) by simp
qed

text \<open>The loops over the file find every batch: at the border before it they read its offset and its bytes.\<close>

lemma stores_drop:
  assumes "stores pre ps file" "i < length ps"
  shows "\<exists>rest. drop (nat (64 + extent (take i ps))) file = piece_bytes (ps ! i) @ rest"
proof -
  obtain rest where f: "file = pre @ concat (map piece_bytes ps) @ rest" "length pre = 64"
    using assms(1) by (auto simp: stores_def)
  have "ps = take i ps @ ps ! i # drop (Suc i) ps" using assms(2) by (rule id_take_nth_drop)
  then have "concat (map piece_bytes ps) = concat (map piece_bytes (take i ps)) @ piece_bytes (ps ! i) @ concat (map piece_bytes (drop (Suc i) ps))"
    by (metis concat.simps(2) concat_append list.simps(9) map_append)
  then have "file = (pre @ concat (map piece_bytes (take i ps))) @ piece_bytes (ps ! i) @ concat (map piece_bytes (drop (Suc i) ps)) @ rest"
    using f by simp
  moreover have "nat (64 + extent (take i ps)) = length (pre @ concat (map piece_bytes (take i ps)))"
    using f(2) by (simp add: extent_def)
  ultimately show ?thesis by (metis append_eq_conv_conj)
qed

lemma extent_take_Suc: "i < length ps \<Longrightarrow> extent (take i ps) + int (length (piece_bytes (ps ! i))) \<le> extent ps"
  using extent_take_le [of "Suc i" ps] by (simp add: take_Suc_conv_app_nth)

lemma seg_batch_at_piece:
  assumes "layout pre ps s" "i < length ps" "ps ! i = Written off b" "in_int64 off"
    "9 + int (length (batch_tail b)) \<le> seg_kMaxBatchBytes" "12 \<le> want" "want \<le> 21"
  shows "seg_batch_at want (data_file s) (sg_file_size s) (64 + extent (take i ps)) = Some (off, stamp off (seg_serialize_batch b))"
proof -
  let ?d = "stamp off (seg_serialize_batch b)" and ?p = "64 + extent (take i ps)"
  have l: "stores pre ps (data_file s)" "sg_file_size s = 64 + extent ps" using assms(1) by (simp_all add: layout_def)
  obtain rest where r: "drop (nat ?p) (data_file s) = ?d @ rest" using stores_drop [OF l(1) assms(2)] assms(3) by auto
  have len: "length ?d = 21 + length (batch_tail b)" by (simp add: length_serialize)
  have room: "?p + int (length ?d) \<le> sg_file_size s" using extent_take_Suc [OF assms(2)] assms(3) l(2) by simp
  then have w: "min want (sg_file_size s - ?p) = want" "\<not> (\<not> ?p < sg_file_size s \<or> ?p + 12 > sg_file_size s)"
    using assms(6,7) len by linarith+
  have bh: "take (nat want) (drop (nat ?p) (data_file s)) = take (nat want) ?d" "int (length (take (nat want) ?d)) = want"
    using assms(6,7) len unfolding r by (simp_all del: length_stamp)
  have "read_le64s (take (nat want) ?d) = read_le64s ?d" "read_le32s (drop 8 (take (nat want) ?d)) = read_le32s (drop 8 ?d)"
    using assms(6,7) len by (simp_all add: read_le64s_def read_le64_def read_le32s_def read_le32_def del: length_stamp)
  moreover have "sint (of_nat (9 + length (batch_tail b)) :: u32) = int (9 + length (batch_tail b))"
    using sint_word(2) [of "int (9 + length (batch_tail b))"] assms(5) by (simp add: in_int32_def seg_kMaxBatchBytes_def)
  ultimately have f: "read_le64s (take (nat want) ?d) = off" "read_le32s (drop 8 (take (nat want) ?d)) = 9 + int (length (batch_tail b))"
    using assms(4) by (simp_all add: stamp_layout read_layout)
  have buf: "take (nat (12 + (9 + int (length (batch_tail b))))) (drop (nat ?p) (data_file s)) = ?d"
    unfolding r using len by (simp add: nat_add_distrib del: length_stamp)
  show ?thesis
    unfolding seg_batch_at_def Let_def w(1) bh f buf using w(2) bh(2) room assms(5) len by (simp del: length_stamp)
qed

text \<open>
  A record that was appended is not returned: \<^verbatim>\<open>read\<close> takes the record count at byte 69 of the batch, where the first
  record lies, instead of byte 57. For a batch of one empty record it finds 0 there and skips the batch: reading the offset
  just assigned reports success, no batches, and the end of the log as the next offset.
\<close>

theorem appended_record_not_read:
  "seg_read 40 n (snd (seg_append (calm 7) plain_batch (snd (seg_open (calm 7) (fresh_segment demo_config 7))))) =
     Returned (Inr \<lparr>rr_batches = [], rr_bytes_read = 0, rr_next_offset = 41, rr_is_truncated = False\<rparr>)"
proof -
  obtain s where s: "snd (seg_open (calm 7) (fresh_segment demo_config 7)) = s"
    "layout (header_bytes (new_header demo_config 7)) [] s" "sg_next_offset s = 40" "seg_is_active s"
    "\<not> sc_sync_on_append (sg_config s)" by (rule demo_open)
  obtain r t where a: "seg_append (calm 7) plain_batch s = (r, t)" by fastforce
  have recs: "rb_records plain_batch \<noteq> []" "length (rb_records plain_batch) = 1" by (simp_all add: plain_batch_def)
  note w = append_written [OF s(2,4) recs(1) _ _ a]
  have t: "layout (header_bytes (new_header demo_config 7)) [Written 40 plain_batch] t" "sg_next_offset t = 41" "\<not> sg_mutex_held t"
    using w(1,3,6) s(3,5) recs(2) by simp_all
  let ?d = "stamp 40 (seg_serialize_batch plain_batch)"
  have len: "length ?d = 80" by (simp add: length_serialize plain_tail)
  have "find_position 40 t = Some 64" using floor_no_skip [OF t(1), of 0 40 plain_batch 40] recs(2) by auto
  moreover have st: "sg_file_size t = 144" "sg_state t = seg_active" "sh_base_offset (sg_header t) \<le> 40"
    using t(1) len w(4) by (auto simp: layout_def ordered_def seg_is_active_def simp del: length_stamp)
  moreover have "counted_batch_at (data_file t) 144 64 = Some (40, ?d, 40)"
  proof -
    have "seg_batch_at 12 (data_file t) (sg_file_size t) (64 + extent (take 0 [Written 40 plain_batch])) = Some (40, ?d)"
      by (rule seg_batch_at_piece [OF t(1)]) (simp_all add: in_int64_def plain_tail seg_kMaxBatchBytes_def)
    moreover have "drop 69 ?d = replicate 11 0" by (simp add: stamp_layout read_layout plain_tail numeral_eq_Suc)
    then have "read_le32s (drop 69 ?d) = 0" by (simp add: read_le32s_def read_le32_def)
    ultimately show ?thesis using len by (simp add: counted_batch_at_def st(1) del: length_stamp)
  qed
  moreover have "counted_batch_at (data_file t) 144 144 = None" by (simp add: counted_batch_at_def seg_batch_at_def)
  ultimately show ?thesis
    using t(2,3) s(1) a len by (simp add: seg_read_def read_loop.simps del: length_stamp)
qed

end
