(* ===== verification/Iobuf.thy ===== *)
theory Iobuf
  imports Torrent_Prelude
begin

text \<open>
  \<^verbatim>\<open>iobuf\<close> of \<^verbatim>\<open>src/torrent/common/iobuf.cpp\<close>: a chain of fragments, each a window into shared immutable
  bytes. The locale \<open>byte_buffer\<close> is what its users rely on: every operation does to the bytes in the
  buffer what the same operation does to one byte sequence.
\<close>

section \<open>Buffers\<close>

record fragment =
  fr_data :: bytes
  fr_offset :: nat
  fr_size :: nat

record iobuf =
  ib_fragments :: "fragment list"
  ib_total_size :: nat

definition fragment_bytes :: "fragment \<Rightarrow> bytes" where
  "fragment_bytes f = take (fr_size f) (drop (fr_offset f) (fr_data f))"

definition empty_iobuf :: iobuf where "empty_iobuf = \<lparr>ib_fragments = [], ib_total_size = 0\<rparr>"

definition iobuf_empty :: "iobuf \<Rightarrow> bool" where "iobuf_empty b \<longleftrightarrow> ib_total_size b = 0"

text \<open>A pointer with its size is the bytes it points to; \<open>None\<close> is a null pointer.\<close>

definition append_bytes :: "bytes option \<Rightarrow> iobuf \<Rightarrow> iobuf" where
  "append_bytes data b =
     (case data of
        None \<Rightarrow> b
      | Some d \<Rightarrow> if d = [] then b
          else b\<lparr>ib_fragments := ib_fragments b @ [\<lparr>fr_data = d, fr_offset = 0, fr_size = length d\<rparr>],
                 ib_total_size := ib_total_size b + length d\<rparr>)"

definition make_iobuf :: "bytes option \<Rightarrow> iobuf" where
  "make_iobuf data =
     (case data of
        None \<Rightarrow> empty_iobuf
      | Some d \<Rightarrow> if d = [] then empty_iobuf
          else \<lparr>ib_fragments = [\<lparr>fr_data = d, fr_offset = 0, fr_size = length d\<rparr>], ib_total_size = length d\<rparr>)"

definition append_iobuf :: "iobuf \<Rightarrow> iobuf \<Rightarrow> iobuf" where
  "append_iobuf other b =
     (if iobuf_empty other then b
      else \<lparr>ib_fragments = ib_fragments b @ ib_fragments other, ib_total_size = ib_total_size b + ib_total_size other\<rparr>)"

definition iobuf_clear :: "iobuf \<Rightarrow> iobuf" where "iobuf_clear b = empty_iobuf"

fun trim_fragments :: "nat \<Rightarrow> fragment list \<Rightarrow> fragment list" where
  "trim_fragments remaining [] = []"
| "trim_fragments remaining (f # fs) =
     (if remaining = 0 then f # fs
      else if remaining \<ge> fr_size f then trim_fragments (remaining - fr_size f) fs
      else f\<lparr>fr_offset := fr_offset f + remaining, fr_size := fr_size f - remaining\<rparr> # fs)"

definition trim_front :: "nat \<Rightarrow> iobuf \<Rightarrow> iobuf" where
  "trim_front n b =
     (if n = 0 then b
      else if n \<ge> ib_total_size b then iobuf_clear b
      else \<lparr>ib_fragments = trim_fragments n (ib_fragments b), ib_total_size = ib_total_size b - n\<rparr>)"

text \<open>The two loops of \<^verbatim>\<open>share\<close>: to the fragment of the start offset, and from there on.\<close>

fun find_fragment :: "nat \<Rightarrow> nat \<Rightarrow> fragment list \<Rightarrow> nat \<times> fragment list" where
  "find_fragment offset skipped [] = (skipped, [])"
| "find_fragment offset skipped (f # fs) =
     (if skipped + fr_size f > offset then (skipped, f # fs) else find_fragment offset (skipped + fr_size f) fs)"

fun share_fragments :: "nat \<Rightarrow> nat \<Rightarrow> fragment list \<Rightarrow> fragment list" where
  "share_fragments bytes_needed intra [] = []"
| "share_fragments bytes_needed intra (f # fs) =
     (if bytes_needed = 0 then []
      else let n = min bytes_needed (fr_size f - intra)
           in \<lparr>fr_data = fr_data f, fr_offset = fr_offset f + intra, fr_size = n\<rparr> # share_fragments (bytes_needed - n) 0 fs)"

definition iobuf_share :: "nat \<Rightarrow> nat \<Rightarrow> iobuf \<Rightarrow> iobuf" where
  "iobuf_share offset len b =
     (if offset \<ge> ib_total_size b then empty_iobuf
      else let len = min len (ib_total_size b - offset);
               (skipped, fs) = find_fragment offset 0 (ib_fragments b);
               shared = share_fragments len (offset - skipped) fs
           in \<lparr>ib_fragments = shared, ib_total_size = sum_list (map fr_size shared)\<rparr>)"

text \<open>\<^verbatim>\<open>memcpy\<close> into a buffer.\<close>

definition copy_at :: "nat \<Rightarrow> bytes \<Rightarrow> bytes \<Rightarrow> bytes" where
  "copy_at pos bs dest = take pos dest @ bs @ drop (pos + length bs) dest"

fun flatten_loop :: "nat \<Rightarrow> fragment list \<Rightarrow> bytes \<Rightarrow> bytes" where
  "flatten_loop written [] out = out"
| "flatten_loop written (f # fs) out =
     (if fr_size f > 0 then flatten_loop (written + fr_size f) fs (copy_at written (fragment_bytes f) out)
      else flatten_loop written fs out)"

definition flatten :: "iobuf \<Rightarrow> bytes" where
  "flatten b = (if ib_total_size b = 0 then [] else flatten_loop 0 (ib_fragments b) (replicate (ib_total_size b) 0))"

fun copy_loop :: "nat \<Rightarrow> nat \<Rightarrow> fragment list \<Rightarrow> bytes \<Rightarrow> nat \<times> bytes" where
  "copy_loop to_copy copied [] dest = (copied, dest)"
| "copy_loop to_copy copied (f # fs) dest =
     (if copied \<ge> to_copy then (copied, dest)
      else let n = min (fr_size f) (to_copy - copied)
           in copy_loop to_copy (copied + n) fs (copy_at copied (take n (fragment_bytes f)) dest))"

definition copy_to :: "bytes option \<Rightarrow> nat \<Rightarrow> iobuf \<Rightarrow> nat \<times> bytes option" where
  "copy_to dest max_size b =
     (case dest of
        None \<Rightarrow> (0, None)
      | Some d \<Rightarrow> if max_size = 0 \<or> ib_total_size b = 0 then (0, Some d)
          else let (n, d) = copy_loop (min max_size (ib_total_size b)) 0 (ib_fragments b) d in (n, Some d))"

definition iobuf_prefix :: "nat \<Rightarrow> iobuf \<Rightarrow> bytes" where
  "iobuf_prefix n b =
     (case ib_fragments b of
        [] \<Rightarrow> []
      | f # fs \<Rightarrow> if n = 0 then [] else if fr_size f \<ge> n then take n (drop (fr_offset f) (fr_data f)) else [])"

text \<open>What the defaulted move leaves in its source: the vector of fragments is moved out, the size is only copied.\<close>

definition moved_from :: "iobuf \<Rightarrow> iobuf" where "moved_from b = b\<lparr>ib_fragments := []\<rparr>"

section \<open>Programs over several buffers\<close>

text \<open>
  Buffers are variables with a number. Assignment copies or moves; \<^verbatim>\<open>append(iobuf)\<close> takes its argument by value, so
  the caller copies or moves into it.
\<close>

datatype iobuf_op =
    Construct nat "bytes option"
  | Append nat "bytes option"
  | Append_copy nat nat
  | Append_move nat nat
  | Assign_copy nat nat
  | Assign_move nat nat
  | Trim nat nat
  | Clear nat
  | Share nat nat nat nat

type_synonym iobufs = "nat \<Rightarrow> iobuf"

fun iobuf_exec :: "iobuf_op \<Rightarrow> iobufs \<Rightarrow> iobufs" where
  "iobuf_exec (Construct i data) B = B(i := make_iobuf data)"
| "iobuf_exec (Append i data) B = B(i := append_bytes data (B i))"
| "iobuf_exec (Append_copy i j) B = B(i := append_iobuf (B j) (B i))"
| "iobuf_exec (Append_move i j) B = (let other = B j; B = B(j := moved_from other) in B(i := append_iobuf other (B i)))"
| "iobuf_exec (Assign_copy i j) B = B(i := B j)"
| "iobuf_exec (Assign_move i j) B = (let other = B j; B = B(j := moved_from other) in B(i := other))"
| "iobuf_exec (Trim i n) B = B(i := trim_front n (B i))"
| "iobuf_exec (Clear i) B = B(i := iobuf_clear (B i))"
| "iobuf_exec (Share i j offset len) B = B(i := iobuf_share offset len (B j))"

definition iobuf_run :: "iobuf_op list \<Rightarrow> iobufs" where "iobuf_run ops = fold iobuf_exec ops (\<lambda>_. empty_iobuf)"

text \<open>
  The same program over plain byte sequences. \<open>None\<close> is a variable that was moved from and not assigned
  or cleared since, or that was computed from one.
\<close>

fun bytes_exec :: "iobuf_op \<Rightarrow> (nat \<Rightarrow> bytes option) \<Rightarrow> nat \<Rightarrow> bytes option" where
  "bytes_exec (Construct i data) A = A(i := Some (case data of None \<Rightarrow> [] | Some d \<Rightarrow> d))"
| "bytes_exec (Append i data) A = A(i := map_option (\<lambda>a. a @ (case data of None \<Rightarrow> [] | Some d \<Rightarrow> d)) (A i))"
| "bytes_exec (Append_copy i j) A = A(i := (case (A i, A j) of (Some a, Some b) \<Rightarrow> Some (a @ b) | _ \<Rightarrow> None))"
| "bytes_exec (Append_move i j) A = A(i := (case (A i, A j) of (Some a, Some b) \<Rightarrow> Some (a @ b) | _ \<Rightarrow> None), j := None)"
| "bytes_exec (Assign_copy i j) A = A(i := A j)"
| "bytes_exec (Assign_move i j) A = A(i := A j, j := None)"
| "bytes_exec (Trim i n) A = A(i := map_option (drop n) (A i))"
| "bytes_exec (Clear i) A = A(i := Some [])"
| "bytes_exec (Share i j offset len) A = A(i := map_option (\<lambda>a. take len (drop offset a)) (A j))"

definition bytes_run :: "iobuf_op list \<Rightarrow> nat \<Rightarrow> bytes option" where "bytes_run ops = fold bytes_exec ops (\<lambda>_. Some [])"

section \<open>The contract\<close>

locale byte_buffer =
  fixes inv :: "'b \<Rightarrow> bool" and view :: "'b \<Rightarrow> bytes" and held :: "'b \<Rightarrow> nat"
    and put :: "bytes \<Rightarrow> 'b \<Rightarrow> 'b" and splice :: "'b \<Rightarrow> 'b \<Rightarrow> 'b" and trim :: "nat \<Rightarrow> 'b \<Rightarrow> 'b"
    and slice :: "nat \<Rightarrow> nat \<Rightarrow> 'b \<Rightarrow> 'b"
  assumes held_view: "inv b \<Longrightarrow> held b = length (view b)"
    and put_inv: "inv b \<Longrightarrow> inv (put bs b)" and put_view: "inv b \<Longrightarrow> view (put bs b) = view b @ bs"
    and splice_inv: "inv b \<Longrightarrow> inv c \<Longrightarrow> inv (splice c b)"
    and splice_view: "inv b \<Longrightarrow> inv c \<Longrightarrow> view (splice c b) = view b @ view c"
    and trim_inv: "inv b \<Longrightarrow> inv (trim n b)" and trim_view: "inv b \<Longrightarrow> view (trim n b) = drop n (view b)"
    and slice_inv: "inv b \<Longrightarrow> inv (slice i n b)" and slice_view: "inv b \<Longrightarrow> view (slice i n b) = take n (drop i (view b))"
begin

lemma split_view: "inv b \<Longrightarrow> view (splice (trim n b) (slice 0 n b)) = view b"
  by (simp add: splice_view slice_inv trim_inv slice_view trim_view)

lemma take_apart:
  assumes "inv b" "inv c"
  shows "view (slice 0 (held b) (splice c b)) = view b" "view (trim (held b) (splice c b)) = view c"
  using assms by (simp_all add: slice_view trim_view splice_inv splice_view held_view)

end

section \<open>Views\<close>

definition fragment_ok :: "fragment \<Rightarrow> bool" where
  "fragment_ok f \<longleftrightarrow> fr_offset f + fr_size f \<le> length (fr_data f)"

definition iobuf_inv :: "iobuf \<Rightarrow> bool" where
  "iobuf_inv b \<longleftrightarrow> list_all fragment_ok (ib_fragments b) \<and> ib_total_size b = sum_list (map fr_size (ib_fragments b))"

definition chain :: "fragment list \<Rightarrow> bytes" where "chain fs = concat (map fragment_bytes fs)"

definition iobuf_view :: "iobuf \<Rightarrow> bytes" where "iobuf_view b = chain (ib_fragments b)"

lemma chain_simps [simp]: "chain [] = []" "chain (f # fs) = fragment_bytes f @ chain fs" "chain (fs @ gs) = chain fs @ chain gs"
  by (simp_all add: chain_def)

lemma length_fragment [simp]: "fragment_ok f \<Longrightarrow> length (fragment_bytes f) = fr_size f"
  by (simp add: fragment_bytes_def fragment_ok_def)

lemma length_chain: "list_all fragment_ok fs \<Longrightarrow> length (chain fs) = sum_list (map fr_size fs)"
  by (induction fs) simp_all

lemma fragment_window:
  assumes "fragment_ok f" "i + n \<le> fr_size f"
  shows "fragment_ok \<lparr>fr_data = fr_data f, fr_offset = fr_offset f + i, fr_size = n\<rparr>"
    "fragment_bytes \<lparr>fr_data = fr_data f, fr_offset = fr_offset f + i, fr_size = n\<rparr> = take n (drop i (fragment_bytes f))"
  using assms by (simp_all add: fragment_ok_def fragment_bytes_def drop_take min_def add.commute)

lemma trim_fragments_ok:
  "list_all fragment_ok fs \<Longrightarrow> list_all fragment_ok (trim_fragments n fs) \<and> chain (trim_fragments n fs) = drop n (chain fs) \<and>
     sum_list (map fr_size (trim_fragments n fs)) = sum_list (map fr_size fs) - n"
proof (induction n fs rule: trim_fragments.induct)
  case (2 n f fs)
  have f: "f\<lparr>fr_offset := fr_offset f + n, fr_size := fr_size f - n\<rparr> = \<lparr>fr_data = fr_data f, fr_offset = fr_offset f + n, fr_size = fr_size f - n\<rparr>"
    by (cases f) simp
  show ?case using 2 fragment_window [of f n "fr_size f - n"] by (auto simp: f)
qed simp

lemma find_fragment_ok:
  assumes "list_all fragment_ok fs" "skipped \<le> offset" "offset < skipped + length (chain fs)" "find_fragment offset skipped fs = (k, gs)"
  shows "list_all fragment_ok gs \<and> skipped \<le> k \<and> k \<le> offset \<and> drop (offset - k) (chain gs) = drop (offset - skipped) (chain fs) \<and>
    (\<exists>f hs. gs = f # hs \<and> offset - k < fr_size f)"
  using assms
proof (induction offset skipped fs rule: find_fragment.induct)
  case (2 offset skipped f fs)
  show ?case
  proof (cases "skipped + fr_size f > offset")
    case True
    then show ?thesis using 2 by auto
  next
    case False
    then have le: "fr_size f \<le> offset - skipped" by simp
    then have "drop (offset - skipped) (chain (f # fs)) = drop (offset - (skipped + fr_size f)) (chain fs)"
      using 2(2) by simp
    then show ?thesis using 2(1) [OF False] 2(2-5) le False by simp
  qed
qed simp

lemma share_fragments_ok:
  assumes "list_all fragment_ok fs" "fs = [] \<or> intra \<le> fr_size (hd fs)"
  shows "list_all fragment_ok (share_fragments n intra fs) \<and> chain (share_fragments n intra fs) = take n (drop intra (chain fs))"
  using assms
proof (induction n intra fs rule: share_fragments.induct)
  case (2 n intra f fs)
  let ?k = "min n (fr_size f - intra)"
  have f: "fragment_ok f" "list_all fragment_ok fs" "intra \<le> fr_size f" using 2 by auto
  have w: "intra + ?k \<le> fr_size f" using f(3) by simp
  show ?case
  proof (cases "n = 0")
    case False
    then have IH: "list_all fragment_ok (share_fragments (n - ?k) 0 fs)" "chain (share_fragments (n - ?k) 0 fs) = take (n - ?k) (chain fs)"
      using 2(1) [OF False refl f(2)] by simp_all
    have "take n (drop intra (fragment_bytes f @ chain fs)) = take ?k (drop intra (fragment_bytes f)) @ take (n - ?k) (chain fs)"
      using f(1,3) by (simp add: min_def)
    then show ?thesis using False IH fragment_window [OF f(1) w] by (simp add: Let_def)
  qed simp
qed simp

interpretation iobufs: byte_buffer iobuf_inv iobuf_view ib_total_size "\<lambda>bs. append_bytes (Some bs)" append_iobuf trim_front iobuf_share
proof
  fix b c :: iobuf and bs :: bytes and n i :: nat
  assume b: "iobuf_inv b"
  then have ok: "list_all fragment_ok (ib_fragments b)" and total: "ib_total_size b = length (chain (ib_fragments b))"
    by (simp_all add: iobuf_inv_def length_chain)
  show "ib_total_size b = length (iobuf_view b)" by (simp add: iobuf_view_def total)
  show "iobuf_inv (append_bytes (Some bs) b)" "iobuf_view (append_bytes (Some bs) b) = iobuf_view b @ bs"
    using b by (simp_all add: append_bytes_def iobuf_inv_def iobuf_view_def fragment_ok_def fragment_bytes_def)
  show "iobuf_inv (append_iobuf c b)" "iobuf_view (append_iobuf c b) = iobuf_view b @ iobuf_view c" if "iobuf_inv c"
    using b that length_chain [of "ib_fragments c"]
    by (auto simp: append_iobuf_def iobuf_inv_def iobuf_view_def iobuf_empty_def simp del: length_0_conv simp flip: length_0_conv)
  show "iobuf_inv (trim_front n b)" "iobuf_view (trim_front n b) = drop n (iobuf_view b)"
    using b trim_fragments_ok [OF ok, of n] total
    by (auto simp: trim_front_def iobuf_clear_def empty_iobuf_def iobuf_inv_def iobuf_view_def)
  obtain k gs where f: "find_fragment i 0 (ib_fragments b) = (k, gs)" by fastforce
  have s: "list_all fragment_ok gs \<and> (\<exists>f hs. gs = f # hs \<and> i - k < fr_size f) \<and> drop (i - k) (chain gs) = drop i (chain (ib_fragments b))"
    if "i < ib_total_size b" using find_fragment_ok [OF ok _ _ f] that total by auto
  have "list_all fragment_ok (share_fragments m (i - k) gs) \<and> chain (share_fragments m (i - k) gs) = take m (drop i (chain (ib_fragments b)))"
    if "i < ib_total_size b" for m using share_fragments_ok [of gs "i - k" m] s [OF that] by auto
  then show "iobuf_inv (iobuf_share i n b)" "iobuf_view (iobuf_share i n b) = take n (drop i (iobuf_view b))"
    using total by (auto simp: iobuf_share_def Let_def f empty_iobuf_def iobuf_inv_def iobuf_view_def min_def)
qed

section \<open>Properties\<close>

lemma flatten_loop_ok:
  "list_all fragment_ok fs \<Longrightarrow> length out = length pre + length (chain fs) \<Longrightarrow> take (length pre) out = pre \<Longrightarrow>
     flatten_loop (length pre) fs out = pre @ chain fs"
proof (induction fs arbitrary: pre out)
  case (Cons f fs)
  have "flatten_loop (length (pre @ fragment_bytes f)) fs (copy_at (length pre) (fragment_bytes f) out) = (pre @ fragment_bytes f) @ chain fs"
    using Cons.prems by (intro Cons.IH) (simp_all add: copy_at_def)
  moreover have "fragment_bytes f = []" if "fr_size f = 0" using that by (simp add: fragment_bytes_def)
  ultimately show ?case using Cons by auto
qed simp

lemma flatten_view: assumes "iobuf_inv b" shows "flatten b = iobuf_view b"
proof -
  have ok: "list_all fragment_ok (ib_fragments b)" and len: "length (chain (ib_fragments b)) = ib_total_size b"
    using assms by (simp_all add: iobuf_inv_def length_chain)
  have "flatten_loop 0 (ib_fragments b) (replicate (ib_total_size b) 0) = chain (ib_fragments b)"
    using flatten_loop_ok [OF ok, of "replicate (ib_total_size b) 0" "[]"] len by simp
  moreover have "chain (ib_fragments b) = []" if "ib_total_size b = 0" using len that by (metis length_0_conv)
  ultimately show ?thesis by (simp add: flatten_def iobuf_view_def)
qed

lemma prefix_drop: "take (length pre) dest = pre \<Longrightarrow> pre @ drop (length pre) dest = dest"
  by (metis append_take_drop_id)

lemma copy_loop_ok:
  "list_all fragment_ok fs \<Longrightarrow> length pre \<le> m \<Longrightarrow> m \<le> length pre + length (chain fs) \<Longrightarrow> m \<le> length dest \<Longrightarrow>
   take (length pre) dest = pre \<Longrightarrow>
     copy_loop m (length pre) fs dest = (m, take m (pre @ chain fs) @ drop m dest)"
proof (induction fs arbitrary: pre dest)
  case (Cons f fs)
  let ?n = "min (fr_size f) (m - length pre)"
  let ?p = "pre @ take ?n (fragment_bytes f)"
  have len: "length ?p = length pre + ?n" using Cons.prems(1) by simp
  show ?case
  proof (cases "m \<le> length pre")
    case True
    then have m: "length pre = m" using Cons.prems(2) by simp
    then show ?thesis using prefix_drop [OF Cons.prems(5)] by simp
  next
    case False
    have IH: "copy_loop m (length ?p) fs (copy_at (length pre) (take ?n (fragment_bytes f)) dest) =
        (m, take m (?p @ chain fs) @ drop m (copy_at (length pre) (take ?n (fragment_bytes f)) dest))"
      using Cons.prems False by (intro Cons.IH) (auto simp: copy_at_def)
    moreover have "take m (?p @ chain fs) = take m (pre @ fragment_bytes f @ chain fs)" using Cons.prems(1) False by (auto simp: min_def)
    moreover have "drop m (copy_at (length pre) (take ?n (fragment_bytes f)) dest) = drop m dest"
      using Cons.prems False by (simp add: copy_at_def)
    ultimately show ?thesis using False len by (simp add: Let_def del: length_append)
  qed
qed (simp add: prefix_drop)

lemma copy_to_view:
  assumes "iobuf_inv b" "n \<le> length d"
  shows "copy_to (Some d) n b =
    (min n (length (iobuf_view b)), Some (take n (iobuf_view b) @ drop (min n (length (iobuf_view b))) d))"
proof -
  have ok: "list_all fragment_ok (ib_fragments b)" and len: "ib_total_size b = length (iobuf_view b)"
    using assms(1) by (simp_all add: iobuf_inv_def iobuf_view_def length_chain)
  let ?m = "min n (length (iobuf_view b))"
  have "copy_loop ?m 0 (ib_fragments b) d = (?m, take ?m (iobuf_view b) @ drop ?m d)"
    using copy_loop_ok [OF ok, of "[]" ?m d] assms(2) by (simp add: iobuf_view_def)
  then show ?thesis by (auto simp: copy_to_def len min_def)
qed

lemma prefix_view:
  assumes "iobuf_inv b"
  shows "iobuf_prefix n b = (if ib_fragments b \<noteq> [] \<and> n \<le> fr_size (hd (ib_fragments b)) then take n (iobuf_view b) else [])"
proof (cases "ib_fragments b")
  case (Cons f fs)
  then have "length (fragment_bytes f) = fr_size f" using assms by (simp add: iobuf_inv_def)
  moreover have "take n (fragment_bytes f) = take n (drop (fr_offset f) (fr_data f))" if "n \<le> fr_size f"
    using that by (simp add: fragment_bytes_def min_def)
  ultimately show ?thesis using Cons by (auto simp: iobuf_prefix_def iobuf_view_def)
qed (simp add: iobuf_prefix_def)

text \<open>The simulation: a variable that is not moved from holds a well-formed buffer with the bytes of the plain program.\<close>

definition holds_bytes :: "iobufs \<Rightarrow> (nat \<Rightarrow> bytes option) \<Rightarrow> bool" where
  "holds_bytes B A \<longleftrightarrow> (\<forall>i a. A i = Some a \<longrightarrow> iobuf_inv (B i) \<and> iobuf_view (B i) = a)"

lemma holds_bytesD: "holds_bytes B A \<Longrightarrow> A i = Some a \<Longrightarrow> iobuf_inv (B i) \<and> iobuf_view (B i) = a"
  by (simp add: holds_bytes_def)

lemma empty_holds: "iobuf_inv empty_iobuf" "iobuf_view empty_iobuf = []"
  by (simp_all add: empty_iobuf_def iobuf_inv_def iobuf_view_def)

lemma make_iobuf_append: "make_iobuf data = append_bytes data empty_iobuf"
  by (simp add: make_iobuf_def append_bytes_def empty_iobuf_def split: option.split)

lemma append_bytes_holds:
  assumes "iobuf_inv b"
  shows "iobuf_inv (append_bytes data b) \<and> iobuf_view (append_bytes data b) = iobuf_view b @ (case data of None \<Rightarrow> [] | Some d \<Rightarrow> d)"
proof (cases data)
  case None
  then show ?thesis using assms by (simp add: append_bytes_def)
qed (simp add: assms iobufs.put_inv iobufs.put_view)

lemma exec_holds: "holds_bytes B A \<Longrightarrow> holds_bytes (iobuf_exec op B) (bytes_exec op A)"
proof (induction op B rule: iobuf_exec.induct)
  case (1 i data B)
  then show ?case using append_bytes_holds [OF empty_holds(1), of data] by (simp add: holds_bytes_def make_iobuf_append empty_holds)
next
  case (2 i data B)
  then show ?case by (auto simp: holds_bytes_def append_bytes_holds)
next
  case (3 i j B)
  then show ?case by (auto simp: holds_bytes_def iobufs.splice_inv iobufs.splice_view split: option.splits)
next
  case (4 i j B)
  then show ?case by (auto simp: holds_bytes_def Let_def iobufs.splice_inv iobufs.splice_view split: option.splits)
next
  case (6 i j B)
  then show ?case by (auto simp: holds_bytes_def Let_def)
next
  case (7 i n B)
  then show ?case by (auto simp: holds_bytes_def iobufs.trim_inv iobufs.trim_view)
next
  case (9 i j offset len B)
  then show ?case by (auto simp: holds_bytes_def iobufs.slice_inv iobufs.slice_view)
qed (auto simp: holds_bytes_def iobuf_clear_def empty_holds)

lemma run_holds: "holds_bytes (iobuf_run ops) (bytes_run ops)"
proof -
  have "holds_bytes B A \<Longrightarrow> holds_bytes (fold iobuf_exec ops B) (fold bytes_exec ops A)" for B A
    by (induction ops arbitrary: B A) (simp_all add: exec_holds)
  moreover have "holds_bytes (\<lambda>_. empty_iobuf) (\<lambda>_. Some [])" by (simp add: holds_bytes_def empty_holds)
  ultimately show ?thesis by (simp add: iobuf_run_def bytes_run_def)
qed

text \<open>
  C28: a buffer of shared fragments behaves as one byte sequence. In every program that constructs, appends to, trims,
  slices, copies and moves buffers, a buffer that is not used after it was moved from holds exactly the
  bytes that the same program computes on plain sequences, however they are cut into
  fragments: its size is their number, it is empty if they are, \<^verbatim>\<open>flatten\<close> returns them, \<^verbatim>\<open>copy_to\<close> copies as many
  as there are and leaves the rest of the destination alone, and \<^verbatim>\<open>prefix\<close> gives the first \<open>n\<close> of them or nothing.
\<close>

theorem iobuf_refines_bytes:
  assumes "bytes_run ops i = Some a"
  shows "flatten (iobuf_run ops i) = a \<and> ib_total_size (iobuf_run ops i) = length a \<and> (iobuf_empty (iobuf_run ops i) \<longleftrightarrow> a = [])
    \<and> (\<forall>d n. n \<le> length d \<longrightarrow> copy_to (Some d) n (iobuf_run ops i) = (min n (length a), Some (take n a @ drop (min n (length a)) d)))
    \<and> (\<forall>n. iobuf_prefix n (iobuf_run ops i) \<in> {[], take n a})"
proof -
  have "iobuf_inv (iobuf_run ops i)" "iobuf_view (iobuf_run ops i) = a" using holds_bytesD [OF run_holds assms] by simp_all
  then show ?thesis
    using iobufs.held_view by (auto simp: flatten_view copy_to_view prefix_view iobuf_empty_def)
qed

text \<open>Two appends, a slice across the border of the fragments, a trim into the first of them, and a move.\<close>

definition demo_ops :: "iobuf_op list" where
  "demo_ops = [Append 0 (Some [1, 2, 3]), Append 0 (Some [4, 5]), Share 1 0 2 2, Trim 0 1, Append_copy 1 0, Assign_move 2 1]"

theorem iobuf_refines_bytes_witness:
  "flatten (iobuf_run demo_ops 2) = [3, 4, 2, 3, 4, 5] \<and> copy_to (Some [0, 0, 0, 0]) 3 (iobuf_run demo_ops 2) = (3, Some [3, 4, 2, 0])"
proof -
  have "bytes_run demo_ops 2 = Some [3, 4, 2, 3, 4, 5]" by (simp add: bytes_run_def demo_ops_def)
  from iobuf_refines_bytes [OF this] show ?thesis by simp
qed

text \<open>
  A buffer that was moved from still reports its old size. The defaulted move takes the fragments and copies the size, so a
  non-empty buffer that was appended elsewhere with \<^verbatim>\<open>std::move\<close> is not empty, and \<^verbatim>\<open>flatten\<close> returns as many zeros.
\<close>

theorem moved_from_not_empty:
  assumes "i \<noteq> j" "ib_total_size (B j) \<noteq> 0"
  shows "\<not> iobuf_empty (iobuf_exec (Append_move i j) B j) \<and> flatten (iobuf_exec (Append_move i j) B j) = replicate (ib_total_size (B j)) 0"
  using assms by (simp add: moved_from_def iobuf_empty_def flatten_def Let_def)

theorem moved_from_not_empty_witness:
  "flatten (iobuf_exec (Append_move 0 1) (iobuf_run [Append 1 (Some [7, 8])]) 1) = [0, 0]"
  using moved_from_not_empty [of 0 1 "iobuf_run [Append 1 (Some [7, 8])]"]
  by (simp add: iobuf_run_def append_bytes_def empty_iobuf_def numeral_2_eq_2)

end
