(* ===== verification/Lock_Manager.thy ===== *)
theory Lock_Manager
  imports Interleaving Endian
begin

text \<open>
  \<^verbatim>\<open>DistributedLockManager\<close> of \<^verbatim>\<open>src/torrent/broker/dlm.cpp\<close>: named locks with owners and fencing tokens.
  A \<^verbatim>\<open>std::string\<close> is its bytes. \<^verbatim>\<open>try_lock\<close> and \<^verbatim>\<open>unlock\<close> lock the table several times; each of
  their critical sections is a function, and \<open>dlm_lstep\<close> interleaves threads between them (locale
  \<open>interleaved\<close>). Clock readings are arguments, and the background thread is its pass.
\<close>

section \<open>State\<close>

record LockState =
  ls_owner :: bytes
  ls_fencing_token :: int
  ls_acquired_at :: timestamp_ms
  ls_last_activity :: timestamp_ms
  ls_grant_count :: int
  ls_conflict_count :: int

record DLMConfig =
  dc_default_timeout_ms :: int
  dc_lock_ttl :: int
  dc_cleanup_interval :: int
  dc_max_locks :: int

record LockManager =
  lm_lock_table :: "(bytes \<times> LockState) list"
  lm_config :: DLMConfig
  lm_cleanup_running :: bool
  lm_running :: bool
  lm_total_acquires :: int
  lm_total_releases :: int
  lm_total_conflicts :: int
  lm_total_expirations :: int
  lm_total_timeouts :: int

definition resolve_dlm_config :: DLMConfig where
  "resolve_dlm_config = \<lparr>dc_default_timeout_ms = 60000, dc_lock_ttl = 300000, dc_cleanup_interval = 60000,
     dc_max_locks = 10000\<rparr>"

definition new_lock_manager :: LockManager where
  "new_lock_manager = \<lparr>lm_lock_table = [], lm_config = resolve_dlm_config, lm_cleanup_running = False, lm_running = False,
     lm_total_acquires = 0, lm_total_releases = 0, lm_total_conflicts = 0, lm_total_expirations = 0, lm_total_timeouts = 0\<rparr>"

definition default_LockState :: LockState where
  "default_LockState = \<lparr>ls_owner = [], ls_fencing_token = 0, ls_acquired_at = 0, ls_last_activity = 0, ls_grant_count = 0,
     ls_conflict_count = 0\<rparr>"

definition is_held :: "LockState \<Rightarrow> bool" where "is_held l \<longleftrightarrow> ls_owner l \<noteq> []"

definition next_fencing_token :: "LockState \<Rightarrow> LockState" where
  "next_fencing_token l = l\<lparr>ls_fencing_token := ls_fencing_token l + 1\<rparr>"

definition lock_expired :: "timestamp_ms \<Rightarrow> int \<Rightarrow> LockState \<Rightarrow> bool" where
  "lock_expired now ttl l \<longleftrightarrow> is_held l \<and> now - ls_last_activity l > ttl"

definition lock_touch :: "timestamp_ms \<Rightarrow> LockState \<Rightarrow> LockState" where "lock_touch now l = l\<lparr>ls_last_activity := now\<rparr>"

definition dlm_start :: "LockManager \<Rightarrow> LockManager" where
  "dlm_start s = (if lm_running s then s else s\<lparr>lm_cleanup_running := True, lm_running := True\<rparr>)"

definition dlm_shutdown :: "LockManager \<Rightarrow> LockManager" where
  "dlm_shutdown s =
     (if \<not> lm_running s then s else s\<lparr>lm_cleanup_running := False, lm_lock_table := [], lm_running := False\<rparr>)"

section \<open>Commands\<close>

datatype LockOp = acquire | release

record DecodedCmd =
  cmd_op :: byte
  cmd_name :: bytes
  cmd_owner :: bytes
  cmd_timeout :: int

definition lock_op_byte :: "LockOp \<Rightarrow> byte" where "lock_op_byte op = (case op of acquire \<Rightarrow> 0 | release \<Rightarrow> 1)"

text \<open>Lengths are cut to 16 bits, and only that many bytes are copied.\<close>

definition encode_cmd :: "LockOp \<Rightarrow> bytes \<Rightarrow> bytes \<Rightarrow> int \<Rightarrow> bytes" where
  "encode_cmd op name owner timeout =
     (let nl = word_of_nat (length name) :: 16 word; ol = word_of_nat (length owner) :: 16 word
      in [lock_op_byte op] @ to_memory 2 nl @ take (unat nl) name @ to_memory 2 ol @ take (unat ol) owner
         @ to_memory 8 (word_of_int timeout :: u64))"

definition decode_cmd :: "bytes \<Rightarrow> DecodedCmd option" where
  "decode_cmd p =
     (if length p < 1 + 2 then None
      else let op = p ! 0; p = drop 1 p; nl = unat (from_memory (take 2 p) :: 16 word); p = drop 2 p
      in if nl > length p then None
      else let name = take nl p; p = drop nl p
      in if 2 > length p then None
      else let ol = unat (from_memory (take 2 p) :: 16 word); p = drop 2 p
      in if ol > length p then None
      else let owner = take ol p; p = drop ol p
      in if 8 > length p then None
      else Some \<lparr>cmd_op = op, cmd_name = name, cmd_owner = owner, cmd_timeout = sint (from_memory (take 8 p) :: u64)\<rparr>)"

definition simulate_raft_propose :: "bytes \<Rightarrow> int \<Rightarrow> bool" where
  "simulate_raft_propose payload timeout_ms \<longleftrightarrow> \<not> timeout_ms < 0"

section \<open>Critical sections\<close>

definition effective_timeout :: "int \<Rightarrow> LockManager \<Rightarrow> int" where
  "effective_timeout timeout_ms s = (if timeout_ms > 0 then timeout_ms else dc_default_timeout_ms (lm_config s))"

definition count_conflict :: "bytes \<Rightarrow> LockState \<Rightarrow> LockManager \<Rightarrow> LockManager" where
  "count_conflict name l s =
     s\<lparr>lm_lock_table := AList.update name (l\<lparr>ls_conflict_count := ls_conflict_count l + 1\<rparr>) (lm_lock_table s),
       lm_total_conflicts := lm_total_conflicts s + 1\<rparr>"

text \<open>Phase 1 of \<^verbatim>\<open>try_lock\<close>: \<open>Some r\<close> when it returns \<open>r\<close>.\<close>

definition lock_fast_path :: "timestamp_ms \<Rightarrow> bytes \<Rightarrow> bytes \<Rightarrow> LockManager \<Rightarrow> bool option \<times> LockManager" where
  "lock_fast_path now name owner s =
     (case map_of (lm_lock_table s) name of
        None \<Rightarrow> (None, s)
      | Some l \<Rightarrow>
          if \<not> is_held l then (None, s)
          else if ls_owner l = owner then (Some True, s\<lparr>lm_lock_table := AList.update name (lock_touch now l) (lm_lock_table s)\<rparr>)
          else (Some False, count_conflict name l s))"

definition lock_table_full :: "LockManager \<Rightarrow> bool" where
  "lock_table_full s \<longleftrightarrow> int (length (lm_lock_table s)) \<ge> dc_max_locks (lm_config s)"

text \<open>Phase 4: the grant, with the clock readings for \<^verbatim>\<open>acquired_at\<close> and \<^verbatim>\<open>touch\<close>.\<close>

definition granted :: "timestamp_ms \<Rightarrow> timestamp_ms \<Rightarrow> bytes \<Rightarrow> LockState \<Rightarrow> LockState" where
  "granted now now' owner l =
     (let l = next_fencing_token (lock_touch now' (l\<lparr>ls_owner := owner, ls_acquired_at := now\<rparr>))
      in l\<lparr>ls_grant_count := ls_grant_count l + 1\<rparr>)"

definition lock_grant :: "timestamp_ms \<Rightarrow> timestamp_ms \<Rightarrow> bytes \<Rightarrow> bytes \<Rightarrow> LockManager \<Rightarrow> bool \<times> LockManager" where
  "lock_grant now now' name owner s =
     (let grant = (\<lambda>l. (True, s\<lparr>lm_lock_table := AList.update name (granted now now' owner l) (lm_lock_table s),
                             lm_total_acquires := lm_total_acquires s + 1\<rparr>))
      in case map_of (lm_lock_table s) name of
           None \<Rightarrow> grant default_LockState
         | Some l \<Rightarrow> if \<not> is_held l \<or> ls_owner l = owner then grant l else (False, count_conflict name l s))"

definition unlock_check :: "bytes \<Rightarrow> bytes \<Rightarrow> LockManager \<Rightarrow> bool" where
  "unlock_check name owner s \<longleftrightarrow>
     (case map_of (lm_lock_table s) name of None \<Rightarrow> False | Some l \<Rightarrow> is_held l \<and> ls_owner l = owner)"

definition released :: "LockState \<Rightarrow> LockState" where "released l = l\<lparr>ls_owner := [], ls_acquired_at := 0\<rparr>"

definition unlock_clear :: "bytes \<Rightarrow> LockManager \<Rightarrow> LockManager" where
  "unlock_clear name s =
     (let s = (case map_of (lm_lock_table s) name of
                 None \<Rightarrow> s | Some l \<Rightarrow> s\<lparr>lm_lock_table := AList.update name (released l) (lm_lock_table s)\<rparr>)
      in s\<lparr>lm_total_releases := lm_total_releases s + 1\<rparr>)"

section \<open>Methods\<close>

definition try_lock :: "timestamp_ms \<Rightarrow> timestamp_ms \<Rightarrow> timestamp_ms \<Rightarrow> bytes \<Rightarrow> bytes \<Rightarrow> int \<Rightarrow> LockManager \<Rightarrow> bool \<times> LockManager" where
  "try_lock now now1 now2 name owner timeout_ms s =
     (if name = [] \<or> owner = [] then (False, s)
      else let t = effective_timeout timeout_ms s
      in case lock_fast_path now name owner s of
           (Some r, s) \<Rightarrow> (r, s)
         | (None, s) \<Rightarrow>
             if lock_table_full s then (False, s)
             else if \<not> simulate_raft_propose (encode_cmd acquire name owner t) t
               then (False, s\<lparr>lm_total_timeouts := lm_total_timeouts s + 1\<rparr>)
             else lock_grant now1 now2 name owner s)"

definition unlock :: "bytes \<Rightarrow> bytes \<Rightarrow> LockManager \<Rightarrow> bool \<times> LockManager" where
  "unlock name owner s =
     (if name = [] \<or> owner = [] then (False, s)
      else if \<not> unlock_check name owner s then (False, s)
      else let t = dc_default_timeout_ms (lm_config s)
      in if \<not> simulate_raft_propose (encode_cmd release name owner t) t then (False, s)
         else (True, unlock_clear name s))"

definition lock_owner :: "bytes \<Rightarrow> LockManager \<Rightarrow> bytes" where
  "lock_owner name s =
     (if name = [] then []
      else case map_of (lm_lock_table s) name of None \<Rightarrow> [] | Some l \<Rightarrow> if is_held l then ls_owner l else [])"

definition fencing_token :: "bytes \<Rightarrow> LockManager \<Rightarrow> int" where
  "fencing_token name s =
     (if name = [] then 0
      else case map_of (lm_lock_table s) name of None \<Rightarrow> 0 | Some l \<Rightarrow> if is_held l then ls_fencing_token l else 0)"

definition validate_fencing :: "bytes \<Rightarrow> bytes \<Rightarrow> int \<Rightarrow> LockManager \<Rightarrow> bool" where
  "validate_fencing name owner token s \<longleftrightarrow>
     (case map_of (lm_lock_table s) name of
        None \<Rightarrow> False | Some l \<Rightarrow> is_held l \<and> ls_owner l = owner \<and> token = ls_fencing_token l)"

definition force_release :: "bytes \<Rightarrow> LockManager \<Rightarrow> bool \<times> LockManager" where
  "force_release name s =
     (if name = [] then (False, s)
      else case map_of (lm_lock_table s) name of
             None \<Rightarrow> (False, s)
           | Some l \<Rightarrow> if is_held l then (True, unlock_clear name s) else (False, s))"

text \<open>One pass of the background thread: held locks past their time are released, free ones unused for twice
  that time are erased. \<open>now\<close> stands for the clock readings of the pass.\<close>

definition erasable :: "timestamp_ms \<Rightarrow> int \<Rightarrow> LockState \<Rightarrow> bool" where
  "erasable now ttl l \<longleftrightarrow> \<not> is_held l \<and> now - ls_last_activity l > ttl * 2"

definition dlm_cleanup :: "timestamp_ms \<Rightarrow> LockManager \<Rightarrow> LockManager" where
  "dlm_cleanup now s =
     (let ttl = dc_lock_ttl (lm_config s); table = lm_lock_table s;
          expired = length (filter (\<lambda>(n, l). lock_expired now ttl l \<or> erasable now ttl l) table);
          table = map_entries (\<lambda>n l. if lock_expired now ttl l then released l else l) (filter (\<lambda>(n, l). \<not> erasable now ttl l) table)
      in s\<lparr>lm_lock_table := table, lm_total_expirations := lm_total_expirations s + int expired\<rparr>)"

record dlm_stats =
  st_current_locks_held :: nat
  st_total_locks_tracked :: nat
  st_counters :: "int list"

definition get_stats :: "LockManager \<Rightarrow> dlm_stats" where
  "get_stats s = \<lparr>st_current_locks_held = length (filter (is_held \<circ> snd) (lm_lock_table s)),
     st_total_locks_tracked = length (lm_lock_table s),
     st_counters = [lm_total_acquires s, lm_total_releases s, lm_total_conflicts s, lm_total_expirations s, lm_total_timeouts s]\<rparr>"

section \<open>Threads\<close>

datatype dlm_pc =
    Dlm_done bool
  | Dlm_fast bytes bytes int
  | Dlm_capacity bytes bytes int
  | Dlm_grant bytes bytes
  | Dlm_check bytes bytes
  | Dlm_clear bytes bytes
  | Dlm_cleaner

fun dlm_run :: "timestamp_ms \<Rightarrow> timestamp_ms \<Rightarrow> LockManager \<Rightarrow> dlm_pc \<Rightarrow> LockManager \<times> dlm_pc" where
  "dlm_run now now' s (Dlm_fast n w t) =
     (case lock_fast_path now n w s of (Some r, s) \<Rightarrow> (s, Dlm_done r) | (None, s) \<Rightarrow> (s, Dlm_capacity n w t))"
| "dlm_run now now' s (Dlm_capacity n w t) =
     (if lock_table_full s then (s, Dlm_done False)
      else if \<not> simulate_raft_propose (encode_cmd acquire n w t) t
        then (s\<lparr>lm_total_timeouts := lm_total_timeouts s + 1\<rparr>, Dlm_done False)
      else (s, Dlm_grant n w))"
| "dlm_run now now' s (Dlm_grant n w) = (case lock_grant now now' n w s of (r, s) \<Rightarrow> (s, Dlm_done r))"
| "dlm_run now now' s (Dlm_check n w) =
     (let t = dc_default_timeout_ms (lm_config s)
      in if unlock_check n w s \<and> simulate_raft_propose (encode_cmd release n w t) t then (s, Dlm_clear n w) else (s, Dlm_done False))"
| "dlm_run now now' s (Dlm_clear n w) = (unlock_clear n s, Dlm_done True)"
| "dlm_run now now' s p = (s, p)"

text \<open>A thread that is done may make any call. \<open>erase\<close> allows passes of the background thread that erase
  entries, and a shutdown.\<close>

inductive dlm_lstep :: "bool \<Rightarrow> LockManager \<Rightarrow> dlm_pc \<Rightarrow> LockManager \<Rightarrow> dlm_pc \<Rightarrow> bool" for erase where
  run: "dlm_run now now' s p = (s', p') \<Longrightarrow> dlm_lstep erase s p s' p'"
| lock: "n \<noteq> [] \<Longrightarrow> w \<noteq> [] \<Longrightarrow> dlm_lstep erase s (Dlm_done r) s (Dlm_fast n w (effective_timeout t s))"
| unlock: "n \<noteq> [] \<Longrightarrow> w \<noteq> [] \<Longrightarrow> dlm_lstep erase s (Dlm_done r) s (Dlm_check n w)"
| force: "dlm_lstep erase s (Dlm_done r) (snd (force_release n s)) (Dlm_done (fst (force_release n s)))"
| clean: "erase \<or> alist_all (\<lambda>n l. \<not> erasable now (dc_lock_ttl (lm_config s)) l) (lm_lock_table s) \<Longrightarrow>
    dlm_lstep erase s Dlm_cleaner (dlm_cleanup now s) Dlm_cleaner"
| start: "dlm_lstep erase s (Dlm_done r) (dlm_start s) (Dlm_done r)"
| shutdown: "erase \<Longrightarrow> dlm_lstep erase s (Dlm_done r) (dlm_shutdown s) (Dlm_done r)"

inductive_cases dlm_lstepE: "dlm_lstep erase s p s' p'"

section \<open>Steps\<close>

definition table_ok :: "LockManager \<Rightarrow> bool" where "table_ok s \<longleftrightarrow> distinct (map fst (lm_lock_table s))"

definition holder :: "bytes \<Rightarrow> LockManager \<Rightarrow> bytes" where
  "holder n s = (case map_of (lm_lock_table s) n of None \<Rightarrow> [] | Some l \<Rightarrow> ls_owner l)"

definition token :: "bytes \<Rightarrow> LockManager \<Rightarrow> int option" where
  "token n s = map_option ls_fencing_token (map_of (lm_lock_table s) n)"

lemma lock_owner_holder: "n \<noteq> [] \<Longrightarrow> lock_owner n s = holder n s"
  by (simp add: lock_owner_def holder_def is_held_def split: option.split)

lemma map_of_keep:
  "distinct (map fst m) \<Longrightarrow> map_of (filter (\<lambda>(k, v). P k v) m) k =
     (case map_of m k of None \<Rightarrow> None | Some v \<Rightarrow> if P k v then Some v else None)"
  by (induction m) (auto split: option.splits dest: known_key pair_key)

lemma distinct_keep: "distinct (map fst m) \<Longrightarrow> distinct (map fst (filter P m))"
  by (induction m) auto

lemma cleanup_entry:
  "table_ok s \<Longrightarrow> map_of (lm_lock_table (dlm_cleanup now s)) n =
     (case map_of (lm_lock_table s) n of
        None \<Rightarrow> None
      | Some l \<Rightarrow> if erasable now (dc_lock_ttl (lm_config s)) l then None
                  else Some (if lock_expired now (dc_lock_ttl (lm_config s)) l then released l else l))"
  by (simp add: dlm_cleanup_def Let_def table_ok_def map_of_keep split: option.split)

lemmas dlm_sections = lock_fast_path_def lock_grant_def unlock_clear_def force_release_def count_conflict_def
  dlm_start_def dlm_shutdown_def

lemma update_entry: "map_of (AList.update k v m) n = (if n = k then Some v else map_of m n)"
  by (simp add: update_conv')

lemma step_ok:
  assumes "dlm_lstep e s p s' p'" "table_ok s"
  shows "table_ok s'"
  using assms
proof cases
  case (run now now')
  then show ?thesis using assms(2)
    by (cases p) (auto simp: table_ok_def dlm_sections Let_def intro: distinct_update split: option.splits if_splits)
next
  case (clean now)
  then show ?thesis using assms(2) by (simp add: table_ok_def dlm_cleanup_def Let_def distinct_keep)
qed (use assms(2) in \<open>auto simp: table_ok_def dlm_sections Let_def intro: distinct_update split: option.splits\<close>)

lemma step_holder:
  assumes "dlm_lstep e s p s' p'" "table_ok s" "holder n s \<noteq> []"
  shows "holder n s' = holder n s \<or> holder n s' = []"
  using assms(1)
proof cases
  case (run now now')
  then show ?thesis using assms(3)
    by (cases p) (auto simp: holder_def dlm_sections Let_def update_entry granted_def next_fencing_token_def lock_touch_def released_def
        is_held_def split: option.splits if_splits)
next
  case (clean now)
  then show ?thesis using assms(3) by (auto simp: holder_def cleanup_entry [OF assms(2)] released_def split: option.splits)
qed (use assms(3) in \<open>auto simp: holder_def dlm_sections Let_def update_entry released_def split: option.splits\<close>)

lemma step_token:
  assumes "dlm_lstep False s p s' p'" "table_ok s" "token n s = Some t"
  shows "\<exists>t' \<ge> t. token n s' = Some t'"
  using assms(1)
proof cases
  case (run now now')
  then show ?thesis using assms(3)
    by (cases p) (auto simp: token_def dlm_sections Let_def update_entry granted_def next_fencing_token_def lock_touch_def released_def
        split: option.splits if_splits)
next
  case (clean now)
  then show ?thesis using assms(3)
    by (auto simp: token_def cleanup_entry [OF assms(2)] released_def dest: alist_all_lookup split: option.splits)
qed (use assms(3) in \<open>auto simp: token_def dlm_sections Let_def update_entry released_def split: option.splits\<close>)

interpretation tables: interleaved "dlm_lstep e" table_ok "\<lambda>_ _. True" for e
  by unfold_locales (simp_all add: step_ok)

interpretation fenced: interleaved "dlm_lstep False" "\<lambda>s. table_ok s \<and> (\<exists>t' \<ge> t. token n s = Some t')" "\<lambda>_ _. True" for n t
proof unfold_locales
  fix s p s' p'
  assume "table_ok s \<and> (\<exists>t' \<ge> t. token n s = Some t')" and st: "dlm_lstep False s p s' p'"
  then obtain u where u: "table_ok s" "t \<le> u" "token n s = Some u" by blast
  then show "(table_ok s' \<and> (\<exists>t' \<ge> t. token n s' = Some t')) \<and> True"
    using step_ok [OF st u(1)] step_token [OF st u(1,3)] by (auto intro: order_trans)
qed simp

section \<open>Properties\<close>

text \<open>
  C29: fencing tokens grow. In every interleaving of threads that lock, unlock and force releases, and of starts and
  background passes that erase no entry (and without a shutdown, which clears the table), a later grant of a
  lock carries a greater token than the lock had before, and the old token is no longer valid. An erased
  entry starts over (\<open>token_reused_after_cleanup\<close>).
\<close>

theorem fencing_tokens_increase:
  assumes "(pool_step (dlm_lstep False))\<^sup>*\<^sup>* (s, ps) (s', ps')" "table_ok s" "token n s = Some t"
    "lock_grant now now' n w s' = (True, s'')"
  shows "\<exists>t' > t. token n s'' = Some t' \<and> validate_fencing n w t s'' = False"
proof -
  obtain u where u: "table_ok s'" "t \<le> u" "token n s' = Some u"
    using fenced.pool_run_inv [OF assms(1), of t n] assms(2,3) by (auto simp: list_all_iff)
  then have "token n s'' = Some (u + 1)" using assms(4)
    by (auto simp: token_def lock_grant_def update_entry granted_def next_fencing_token_def lock_touch_def Let_def
        split: option.splits if_splits)
  then show ?thesis using u(2) by (auto simp: token_def validate_fencing_def)
qed

text \<open>
  A lock never passes directly from one owner to another. In every interleaving, forced releases, time-outs and shutdowns
  included, when a lock is held by one owner and later by another one, it was free in between.
\<close>

theorem lock_free_between_owners:
  assumes "(pool_step (dlm_lstep True))\<^sup>*\<^sup>* (s, ps) (s', ps')" "table_ok s" "n \<noteq> []"
    "lock_owner n s \<noteq> []" "lock_owner n s' \<noteq> []" "lock_owner n s' \<noteq> lock_owner n s"
  shows "\<exists>u us. (pool_step (dlm_lstep True))\<^sup>*\<^sup>* (s, ps) (u, us) \<and> (pool_step (dlm_lstep True))\<^sup>*\<^sup>* (u, us) (s', ps') \<and> lock_owner n u = []"
proof -
  let ?R = "(pool_step (dlm_lstep True))\<^sup>*\<^sup>*"
  have "holder n s' = holder n s \<or> (\<exists>u us. ?R (s, ps) (u, us) \<and> ?R (u, us) (s', ps') \<and> holder n u = [])"
    using assms(1)
  proof (induction "(s', ps')" arbitrary: s' ps' rule: rtranclp_induct)
    case base
    then show ?case by simp
  next
    case (step c)
    obtain v vs where c: "c = (v, vs)" by (cases c)
    have ok: "table_ok v" using tables.pool_run_inv [of True s ps v vs] step(1) assms(2) by (simp add: c list_all_iff)
    show ?case
    proof (cases "holder n v = holder n s")
      case True
      from step(2) obtain p p' where "dlm_lstep True v p s' p'" unfolding c by (auto elim: pool_stepE)
      then have "holder n s' = holder n s \<or> holder n s' = []"
        using step_holder [of True v p s' p' n] ok True assms(3,4) by (simp add: lock_owner_holder)
      moreover have "?R (s, ps) (s', ps')" using step(1,2) by simp
      ultimately show ?thesis by blast
    next
      case False
      then obtain u us where "?R (s, ps) (u, us)" "?R (u, us) (v, vs)" "holder n u = []" using step(3) [OF c] by blast
      then show ?thesis using step(2) unfolding c by (meson rtranclp.rtrancl_into_rtrancl)
    qed
  qed
  then show ?thesis using assms(3-6) by (simp add: lock_owner_holder)
qed

text \<open>A lock of one owner that two of its threads unlock: the second release comes after another owner's grant.\<close>

definition demo_name :: bytes where "demo_name = [1]"
definition owner_a :: bytes where "owner_a = [10]"
definition owner_b :: bytes where "owner_b = [11]"

definition demo_held :: LockManager where "demo_held = snd (try_lock 0 0 0 demo_name owner_a 5 new_lock_manager)"

lemmas dlm_demo = demo_held_def demo_name_def owner_a_def owner_b_def new_lock_manager_def resolve_dlm_config_def try_lock_def
  effective_timeout_def lock_fast_path_def lock_table_full_def simulate_raft_propose_def lock_grant_def granted_def
  next_fencing_token_def lock_touch_def default_LockState_def is_held_def unlock_check_def unlock_clear_def released_def
  lock_owner_def

definition demo_stolen :: LockManager where
  "demo_stolen = unlock_clear demo_name (snd (lock_grant 0 0 demo_name owner_b (unlock_clear demo_name demo_held)))"

abbreviation dlm_pool :: "LockManager \<times> dlm_pc list \<Rightarrow> LockManager \<times> dlm_pc list \<Rightarrow> bool" where
  "dlm_pool \<equiv> (pool_step (dlm_lstep True))\<^sup>*\<^sup>*"

definition demo_free :: LockManager where "demo_free = unlock_clear demo_name demo_held"
definition demo_granted :: LockManager where "demo_granted = snd (lock_grant 0 0 demo_name owner_b demo_free)"

lemma demo_values:
  "lock_fast_path 0 demo_name owner_b demo_free = (None, demo_free)" "\<not> lock_table_full demo_free"
  "lock_grant 0 0 demo_name owner_b demo_free = (True, demo_granted)" "unlock_clear demo_name demo_granted = demo_stolen"
  "lock_owner demo_name demo_held = owner_a" "lock_owner demo_name demo_granted = owner_b" "lock_owner demo_name demo_stolen = []"
  "table_ok demo_held" "token demo_name demo_held = Some 1" "token demo_name demo_granted = Some 2" "effective_timeout 5 demo_free = 5"
  by (simp_all add: demo_free_def demo_granted_def demo_stolen_def dlm_demo table_ok_def token_def)

lemma demo_race:
  "dlm_pool (demo_held, [Dlm_check demo_name owner_a, Dlm_check demo_name owner_a])
     (demo_granted, [Dlm_done True, Dlm_clear demo_name owner_a])"
proof -
  let ?n = demo_name
  have 1: "dlm_lstep True demo_held (Dlm_check ?n owner_a) demo_held (Dlm_clear ?n owner_a)"
    by (rule dlm_lstep.run) (simp add: dlm_demo)
  have 2: "dlm_lstep True demo_held (Dlm_clear ?n owner_a) demo_free (Dlm_done True)"
    by (rule dlm_lstep.run) (simp add: demo_free_def)
  have 3: "dlm_lstep True demo_free (Dlm_done True) demo_free (Dlm_fast ?n owner_b 5)"
    using dlm_lstep.lock [of ?n owner_b True demo_free True 5] by (simp add: demo_values) (simp add: demo_name_def owner_b_def)
  have 4: "dlm_lstep True demo_free (Dlm_fast ?n owner_b 5) demo_free (Dlm_capacity ?n owner_b 5)"
    by (rule dlm_lstep.run [of 0 0]) (simp add: demo_values)
  have 5: "dlm_lstep True demo_free (Dlm_capacity ?n owner_b 5) demo_free (Dlm_grant ?n owner_b)"
    by (rule dlm_lstep.run) (simp add: demo_values simulate_raft_propose_def)
  have 6: "dlm_lstep True demo_free (Dlm_grant ?n owner_b) demo_granted (Dlm_done True)"
    by (rule dlm_lstep.run [of 0 0]) (simp add: demo_values)
  note first = first_step [where lstep = "dlm_lstep True"] and second = second_step [where lstep = "dlm_lstep True"]
  have "dlm_pool (demo_held, [Dlm_check ?n owner_a, Dlm_check ?n owner_a]) (demo_free, [Dlm_done True, Dlm_clear ?n owner_a])"
    using first [OF 1, of "Dlm_check ?n owner_a"] second [OF 1, of "Dlm_clear ?n owner_a"] first [OF 2, of "Dlm_clear ?n owner_a"]
    by (meson rtranclp.rtrancl_into_rtrancl rtranclp.rtrancl_refl)
  then show ?thesis
    using first [OF 3] first [OF 4] first [OF 5] first [OF 6] by (meson rtranclp.rtrancl_into_rtrancl)
qed

theorem lock_free_between_owners_witness:
  "\<exists>u us. dlm_pool (demo_held, [Dlm_check demo_name owner_a, Dlm_check demo_name owner_a]) (u, us) \<and>
     dlm_pool (u, us) (demo_granted, [Dlm_done True, Dlm_clear demo_name owner_a]) \<and> lock_owner demo_name u = []"
  by (rule lock_free_between_owners [OF demo_race])
    (simp_all add: demo_values, simp_all add: demo_name_def owner_a_def owner_b_def)

theorem fencing_tokens_increase_witness:
  "\<exists>t' > 1. token demo_name demo_granted = Some t' \<and> validate_fencing demo_name owner_b 1 demo_granted = False"
proof -
  have "dlm_lstep False demo_held (Dlm_clear demo_name owner_a) demo_free (Dlm_done True)"
    by (rule dlm_lstep.run) (simp add: demo_free_def)
  then have "(pool_step (dlm_lstep False))\<^sup>*\<^sup>* (demo_held, [Dlm_clear demo_name owner_a]) (demo_free, [Dlm_done True])"
    by (intro r_into_rtranclp solo_step)
  from fencing_tokens_increase [OF this demo_values(8,9,3)] show ?thesis .
qed

text \<open>
  An unlock can release a lock of somebody else. \<^verbatim>\<open>unlock\<close> checks the owner, proposes, and then clears the entry without a second look:
  two threads of owner A unlock at once, B is granted the lock in between, and the second
  clear takes it from B, who was told that it holds the lock.
\<close>

theorem unlock_releases_other_owner:
  "dlm_pool (demo_held, [Dlm_check demo_name owner_a, Dlm_check demo_name owner_a]) (demo_granted, [Dlm_done True, Dlm_clear demo_name owner_a])
   \<and> lock_owner demo_name demo_held = owner_a \<and> lock_owner demo_name demo_granted = owner_b
   \<and> dlm_lstep True demo_granted (Dlm_clear demo_name owner_a) demo_stolen (Dlm_done True) \<and> lock_owner demo_name demo_stolen = []"
proof -
  have "dlm_lstep True demo_granted (Dlm_clear demo_name owner_a) demo_stolen (Dlm_done True)"
    by (rule dlm_lstep.run) (simp add: demo_values)
  then show ?thesis using demo_race demo_values by simp
qed

text \<open>
  The background pass restarts the tokens. A free lock unused for twice its lifetime is erased, and with it the counter: the
  next grant carries token 1 again, and a token from before is valid again for the same owner.
\<close>

theorem token_reused_after_cleanup:
  "fencing_token demo_name demo_held = 1 \<and>
   (let s = dlm_cleanup 600001 demo_free; t = snd (lock_grant 0 0 demo_name owner_a s)
    in token demo_name s = None \<and> validate_fencing demo_name owner_a 1 t)"
  by (simp add: demo_free_def dlm_demo fencing_token_def dlm_cleanup_def erasable_def lock_expired_def token_def validate_fencing_def
      map_entries_def Let_def)

text \<open>
  A pass of the background thread does what it is for: every held lock unused for longer than its lifetime is free afterwards,
  every other held lock keeps its owner and its token, and nothing is granted.
\<close>

theorem cleanup_releases_expired:
  assumes "table_ok s" "map_of (lm_lock_table s) n = Some l" "is_held l"
  shows "map_of (lm_lock_table (dlm_cleanup now s)) n =
    Some (if now - ls_last_activity l > dc_lock_ttl (lm_config s) then l\<lparr>ls_owner := [], ls_acquired_at := 0\<rparr> else l)"
  using assms by (simp add: cleanup_entry erasable_def lock_expired_def released_def)

text \<open>
  A command survives encoding, when name and owner are shorter than 65536 bytes and the timeout fits 64 bits.
\<close>

theorem lock_command_round_trip:
  assumes "length name < 2 ^ 16" "length owner < 2 ^ 16" "- (2 ^ 63) \<le> timeout" "timeout < 2 ^ 63"
  shows "decode_cmd (encode_cmd op name owner timeout) =
    Some \<lparr>cmd_op = lock_op_byte op, cmd_name = name, cmd_owner = owner, cmd_timeout = timeout\<rparr>"
proof -
  have l: "unat (word_of_nat (length name) :: 16 word) = length name" "unat (word_of_nat (length owner) :: 16 word) = length owner"
    using assms(1,2) by (simp_all add: unat_of_nat)
  have t: "sint (word_of_int timeout :: u64) = timeout"
    using assms(3,4) by (simp add: sint_sbintrunc' signed_take_bit_int_eq_self)
  have m: "from_memory (to_memory 2 v) = v" "from_memory (to_memory 8 w) = w" for v :: "16 word" and w :: u64
    by (simp_all add: from_to_memory)
  show ?thesis by (simp add: encode_cmd_def decode_cmd_def Let_def l m t)
qed

theorem lock_command_round_trip_witness:
  "decode_cmd (encode_cmd release demo_name owner_a 60000) =
     Some \<lparr>cmd_op = 1, cmd_name = [1], cmd_owner = [10], cmd_timeout = 60000\<rparr>"
  using lock_command_round_trip [of demo_name owner_a 60000 release] by (simp add: demo_name_def owner_a_def lock_op_byte_def)

theorem cleanup_releases_expired_witness:
  "lock_owner demo_name (dlm_cleanup 300001 demo_held) = [] \<and> lock_owner demo_name (dlm_cleanup 300000 demo_held) = owner_a"
proof -
  obtain l where l: "map_of (lm_lock_table demo_held) demo_name = Some l" "is_held l" "ls_last_activity l = 0"
      "dc_lock_ttl (lm_config demo_held) = 300000" "ls_owner l = owner_a"
    by (simp add: dlm_demo)
  then show ?thesis using cleanup_releases_expired [OF demo_values(8) l(1,2)]
    by (simp add: lock_owner_def) (simp add: demo_name_def is_held_def)
qed

text \<open>
  What \<^verbatim>\<open>try_lock\<close> answers, for one caller at a time: it succeeds exactly when the caller already holds the lock, or the lock is free,
  the table has room and the timeout is not negative. After a success the caller is the owner,
  after a failure the owner is who it was; the number of entries stays within \<^verbatim>\<open>max_locks\<close>.
\<close>

theorem try_lock_outcome:
  assumes "n \<noteq> []" "w \<noteq> []" "int (length (lm_lock_table s)) \<le> dc_max_locks (lm_config s)"
    "try_lock now now1 now2 n w t s = (r, s')"
  shows "(r \<longleftrightarrow> lock_owner n s = w \<or> lock_owner n s = [] \<and> \<not> lock_table_full s \<and> 0 \<le> effective_timeout t s) \<and>
    lock_owner n s' = (if r then w else lock_owner n s) \<and>
    int (length (lm_lock_table s')) \<le> dc_max_locks (lm_config s')"
proof (cases "map_of (lm_lock_table s) n")
  case None
  then show ?thesis using assms
    by (auto simp: try_lock_def lock_fast_path_def lock_owner_def lock_grant_def lock_table_full_def simulate_raft_propose_def
        update_entry length_update granted_def next_fencing_token_def lock_touch_def is_held_def Let_def split: if_splits)
next
  case (Some l)
  then have len: "length (AList.update n v (lm_lock_table s)) = length (lm_lock_table s)" for v
    by (simp add: length_update known_key)
  show ?thesis using assms Some
    by (auto simp: try_lock_def lock_fast_path_def lock_owner_def lock_grant_def lock_table_full_def simulate_raft_propose_def
        update_entry len granted_def next_fencing_token_def lock_touch_def is_held_def Let_def count_conflict_def split: if_splits)
qed

theorem try_lock_outcome_witness:
  "fst (try_lock 0 0 0 demo_name owner_b 5 demo_held) = False \<and> lock_owner demo_name (snd (try_lock 0 0 0 demo_name owner_b 5 demo_held)) = owner_a"
proof -
  obtain r s' where t: "try_lock 0 0 0 demo_name owner_b 5 demo_held = (r, s')" by fastforce
  have "int (length (lm_lock_table demo_held)) \<le> dc_max_locks (lm_config demo_held)" by (simp add: dlm_demo)
  from try_lock_outcome [OF _ _ this t] t demo_values(5) show ?thesis
    by (simp add: demo_name_def owner_a_def owner_b_def split: if_splits)
qed

end
