(* ===== verification/Spec2Isabelle.thy ===== *)
theory Spec2Isabelle
  imports Raft_Properties Raft_Log_Recovery Endian Offset_Index Time_Index Flow_Control Connection_Limiter
    Message_Codec Rate_Limiter Consumer_Group_Properties Transaction_Properties Topic_Manager_Properties
    Batch_Cache_Properties Page_Cache_Properties Segment_Properties Iobuf Lock_Manager
begin

text \<open>
  \<^bold>\<open>torrent-mq\<close>: a verification library for the core of the message broker. The paths below are
  relative to the repository; the implementation is under \<^verbatim>\<open>src/torrent\<close> and
  \<^verbatim>\<open>include/torrent\<close>.

  \<^bold>\<open>The program.\<close> A broker keeps partition logs in segment files with sparse indexes, and agrees
  with the other brokers on cluster metadata through Raft. A \<^verbatim>\<open>RaftNode\<close> owns a \<^verbatim>\<open>RaftLog\<close> (on disk:
  \<^verbatim>\<open>DiskRaftLog\<close>), sends and answers RPCs through callbacks, applies committed entries to a state
  machine callback, and runs an election thread and a heartbeat thread, all under one lock. The
  network layer frames requests, and throttles connections with two lock-free counters and a token
  bucket. The topic manager creates and deletes topics, and has the partition manager host their
  partitions (logs, leadership, in-sync sets, watermarks). Above them, the group coordinator keeps
  consumer groups (membership, generations, rebalances, committed offsets) and asks the topic manager
  for partition counts, and the transaction coordinator keeps transactional producers (PIDs, epochs,
  transactions) and asks the partition manager for leadership. A lock manager grants named locks with
  fencing tokens. Messages are built from chains of shared fragments (\<^verbatim>\<open>iobuf\<close>).

  \<^bold>\<open>Theories and what they model.\<close>
  \<^item> \<open>Torrent_Prelude\<close>: type names, \<^verbatim>\<open>std::map\<close> as an ordered list of pairs, facts on words and
    bytes, 64-bit wrap-around (\<open>wrap64\<close>), sums over association lists; the collections \<open>wire\<close> and
    \<open>frame\<close>. \<open>Std_Strings\<close>: \<^verbatim>\<open>std::to_string\<close>, \<^verbatim>\<open>std::stoi\<close> and \<^verbatim>\<open>std::stoll\<close>.
  \<^item> \<open>Raft_Types\<close>: \<^verbatim>\<open>consensus/raft_types.h\<close>. \<open>'l RaftLog\<close> is the abstract class \<^verbatim>\<open>RaftLog\<close>, a
    record of operations on a log state \<open>'l\<close>.
  \<^item> \<open>Raft_Log_Spec\<close>: the locale \<open>raft_log\<close>, the contract of that class: what reads return after an
    append, a truncation or a snapshot.
  \<^item> \<open>Raft_Codec\<close>: checksum, integers, entries and frames of \<^verbatim>\<open>consensus/raft_log.cpp\<close>.
  \<^item> \<open>Raft_Log\<close>: \<^verbatim>\<open>DiskRaftLog\<close>, its files included, and the interpretation \<open>disk\<close> of the contract
    on it. \<open>Raft_Log_Recovery\<close>: what a restart finds.
  \<^item> \<open>Raft_Node\<close>: \<^verbatim>\<open>consensus/raft_node.cpp\<close> and the inline parts of \<^verbatim>\<open>raft.h\<close>: the fields as the
    record \<open>RaftNode\<close>, each method as a function of the same name.
  \<^item> \<open>Raft_Frames\<close>, \<open>Raft_Steps\<close>, \<open>Raft_Invariant\<close>, \<open>Raft_Replication\<close>: which fields each method
    leaves alone; the step relation \<open>node_step\<close> of everything that can happen to a node; the
    invariant of its runs; commitment, replication and snapshot transfer over any log that meets
    the contract. \<open>Raft_Properties\<close>: the properties of a node over the disk log.
  \<^item> \<open>Endian\<close>: \<^verbatim>\<open>common/endian.cpp\<close>.
  \<^item> \<open>Sorted_Vector\<close>, \<open>Offset_Index\<close>: binary search as the library does it, the locale
    \<open>floor_index\<close>, and \<^verbatim>\<open>storage/offset_index.cpp\<close> as an instance. \<open>Time_Index\<close>:
    \<^verbatim>\<open>storage/time_index.cpp\<close>, whose queries go the other way.
  \<^item> \<open>Storage_Types\<close>: records and batches of \<^verbatim>\<open>storage/types.h\<close>. \<open>Binary64\<close>: products of \<^verbatim>\<open>double\<close>,
    rounded as the hardware does. \<open>Lru_List\<close>: \<^verbatim>\<open>std::list\<close> with stable iterators, a map of iterators
    into it, and the locale \<open>coherent_cache\<close> (a hit is what was stored last), interpreted on both
    caches. \<open>Batch_Cache\<close>, \<open>Batch_Cache_Properties\<close>: \<^verbatim>\<open>storage/batch_cache.cpp\<close>. \<open>Page_Cache\<close>,
    \<open>Page_Cache_Properties\<close>: \<^verbatim>\<open>storage/page_cache.cpp\<close>.
  \<^item> \<open>Segment_Codec\<close>, \<open>Segment\<close>, \<open>Segment_Properties\<close>: \<^verbatim>\<open>storage/segment.cpp\<close>: record batches as bytes; a
    segment with its data and index file as the record \<open>Segment\<close>, one function per method, system call
    outcomes as \<open>seg_io\<close>; runs of \<open>seg_op\<close>, simulated by the abstract log \<open>log_step\<close> (locale \<open>simulated\<close>).
  \<^item> \<open>Interleaving\<close>, \<open>Flow_Control\<close>, \<open>Connection_Limiter\<close>: threads that interleave at every atomic
    access, the locale \<open>interleaved\<close> with its invariant rule, and \<^verbatim>\<open>network/flow_control.cpp\<close> and
    \<^verbatim>\<open>network/connection_limiter.cpp\<close> as instances. \<open>Rate_Limiter\<close>: \<^verbatim>\<open>common/rate_limiter.cpp\<close>, for
    one thread (with the waiting loop) and as an instance of \<open>interleaved\<close>.
  \<^item> \<open>Message_Codec\<close>: \<^verbatim>\<open>network/message_codec.cpp\<close>, frames on byte lists.
  \<^item> \<open>Partition_Manager\<close>, \<open>Partition_Manager_Properties\<close>: \<^verbatim>\<open>broker/partition_manager.cpp\<close> over a log of
    any type, whose operations are the record \<open>LogManager\<close>; runs are lists of \<open>pm_op\<close>.
  \<^item> \<open>Topic_Manager\<close>, \<open>Topic_Manager_Properties\<close>: \<^verbatim>\<open>broker/topic_manager.cpp\<close>; the locale
    \<open>partition_store\<close> says what the topic manager needs of the partition manager, and is interpreted
    on it. Runs of both are lists of \<open>tm_op\<close>.
  \<^item> \<open>Group_Assignment\<close>: the three assignors of \<^verbatim>\<open>broker/consumer_group_manager.cpp\<close> and the locale
    \<open>assignor\<close> (every partition to exactly one member), interpreted on each. \<open>Consumer_Groups\<close>: the
    records \<open>GroupMember\<close>, \<open>GroupMetadata\<close> and \<open>Manager\<close> and the methods of the coordinator.
    \<open>Consumer_Group_Invariant\<close>: its operations as the datatype \<open>GroupOp\<close>, runs, and the invariant.
    \<open>Consumer_Group_Properties\<close>: what clients rely on.
  \<^item> \<open>Transactions\<close>: \<^verbatim>\<open>broker/transaction_coordinator.cpp\<close>, one function per critical section.
    \<open>Transaction_Properties\<close>: threads that interleave at those sections (\<open>txn_step\<close>, an instance of
    \<open>interleaved\<close>), fencing, and the passes of the background threads.
  \<^item> \<open>Iobuf\<close>: \<^verbatim>\<open>common/iobuf.cpp\<close> and its header: chains of windows into shared bytes, the locale \<open>byte_buffer\<close>
    (every operation acts on the bytes as on one sequence), and programs over several buffers
    (\<open>iobuf_op\<close>) with copies and moves.
  \<^item> \<open>Lock_Manager\<close>: \<^verbatim>\<open>broker/dlm.cpp\<close>: the table of locks, the encoding of its commands, one function
    per critical section and their interleavings (\<open>dlm_lstep\<close>, an instance of \<open>interleaved\<close>).
  \<^item> This theory: the coordinators with the functions of the managers in the place of their arguments.

  \<^bold>\<open>Conventions.\<close> A method that holds its lock for the whole body is a function on the state. What
  comes from outside is an argument: the record \<open>env\<close> of a node (clocks, random timeouts, whether a
  send or a file write succeeds), the number of bytes each write call of a log accepts. What goes
  out is recorded (\<open>rn_outbox\<close>, \<open>rn_applied\<close>, \<open>rn_files\<close>). Indices, terms and offsets are \<open>int\<close>; the
  widths matter where data is serialised (words, \<open>in_int64\<close>), in the sums and products of the flow
  control and the rate limiter (\<open>wrap64\<close>), for group generations (32-bit words) and producer epochs (\<open>wrap16\<close>). The
  iteration order of an unordered map is a parameter (\<open>begin_key\<close>). Logging and metrics are left out.

  \<^bold>\<open>What is shown.\<close>
  \<^item> Elections and votes: terms never fall and a vote is never changed within a term, over every run;
    one vote per term; votes only for up-to-date logs; a higher term always makes a follower.
  \<^item> Commitment and application: the commit rule exactly as the code computes it, that every
    majority meets the nodes the leader's table counts for a commit, that the apply loop returns and how far it gets.
  \<^item> Replication, proposals, configuration changes, snapshots: what a success answer means for the
    log, where a conflict index points, byte budgets, every refusal of a proposal, reassembly of
    chunked snapshots, compaction without loss of the uncommitted suffix.
  \<^item> The disk log meets its contract for every accepted batch; checksums equal the bitwise
    definition and detect a changed byte; a restart recovers the log.
  \<^item> Round trips of the byte-order and varint functions, detection of truncated input.
  \<^item> The offset index stays sorted and answers as a floor index, also after thinning out; the time
    index answers with the next indexed timestamp, and truncates the wrong end.
  \<^item> Caches: in every run map, list and counters agree, a hit is what was stored last and not
    invalidated since; the batch cache keeps its byte limit and evicts by age of insertion, the page
    cache keeps its page limit and evicts by last use, but ignores its memory limit.
  \<^item> Segments: record batches survive serialisation, stay inside their buffer, and a changed byte is
    refused; in every run the data file is the header and the pieces of an append-only log, whatever
    system calls fail; the index leads to the batch asked for; index file and header are read back as
    written. A new segment cannot be opened, what is appended is refused by the reader, and reads skip
    records: these are theorems too.
  \<^item> Credit is never overdrawn and the connection limit never exceeded, in every interleaving.
  \<^item> Consumer groups: the invariant of every run (states, leader, generations, limits, offsets), that
    a rebalance completes once the members have synced, exactly-once and balanced assignments, what
    joins and heartbeats answer, which members the session check removes, and that a committed
    offset is what a fetch returns.
  \<^item> Topics and partitions: in every run the partition manager hosts exactly the partitions of the
    existing topics and the counters are exact; a creation is complete or rolled back; configurations
    stay well-formed; a stale leader is fenced; stale replicas, and only these, leave the in-sync set.
  \<^item> Requests survive encoding and decoding, and the decoder stays inside its payload.
  \<^item> The token bucket keeps its rate and its bounds, \<^verbatim>\<open>can_consume\<close> is exact, and waiting ends.
  \<^item> Transactions: in every interleaving a PID belongs to one transactional id; re-initialisation
    refuses the requests of other epochs; enrolment is exact; a time-out pass leaves no overdue transaction.
  \<^item> Buffers: any program over them computes what it computes on plain bytes, until it uses a buffer that was
    moved from. Locks: tokens grow with every grant until an entry is erased, a lock is free between two
    owners, and which locks the background pass releases; an unlock can release the lock of another owner.
  \<^item> Several theorems state what the code does against its intent (two leaders in a term, disjoint
    joint quorums, overlapping batches refused, a commit index that drops, entries lost by a
    truncation after a restart, a transaction that can never be ended, PIDs reused after a restart,
    a segment that waits for its own lock, a rebalance that does not wait, a live group removed by the cleanup, a new topic lost to the
    deletion of the old one, a leader that steps down in favour of itself, and others); they hold for
    the definitions as the source has them.

  \<^bold>\<open>Loops.\<close> \<^verbatim>\<open>apply_committed\<close> is a \<open>partial_function\<close>: over a log in general it may not return, and over
  the disk log it is proved to. The waiting loop of \<^verbatim>\<open>consume_blocking\<close> has fuel, one unit per round,
  and \<open>None\<close> for a call that still waits; that some fuel is enough is proved when the request fits
  the burst, the timeout is negative and time advances, and that none is when it does not fit. Every other loop is structural
  or has a termination proof (the scans of a segment advance by the batch they parsed, \<^verbatim>\<open>read_range\<close> by the
  bytes it read).

  \<^bold>\<open>Not modelled.\<close> Threads are modelled where the code is lock-free and at the critical sections of the
  transaction coordinator (\<^verbatim>\<open>init_producer_id\<close> and the expiry) and of the lock manager; elsewhere the lock makes
  each method atomic, and waiting on condition
  variables is the choice of when a step happens. Three methods that take several locks one after
  the other are one transition all the same: \<^verbatim>\<open>commit_offset\<close> (the store's lock, then the group's for its cache),
  \<^verbatim>\<open>delete_group\<close> (the map of groups, then the offset store) and \<^verbatim>\<open>add_partitions_to_txn\<close> (PID, state, the
  state's mutex); what other threads do between the sections is not covered. Methods of the group coordinator look up a group
  under the map lock and then lock the group; they are one transition, and the pointer in between
  is not modelled. The step relation of a Raft node has no rule for \<^verbatim>\<open>start\<close>: runs begin after it. A leader's table of
  match indices is what its followers reported, and no theorem relates it to their logs. The 32-bit counter of records
  appended to a segment at once is unbounded in the model. Creation and deletion of topics are split at their critical sections where a
  theorem is about what happens in between. Sockets, the file system beyond the log's own files, the
  RocksDB wrapper and the other broker services (controller, dispatch, quotas, the server object) are
  not modelled; what the managers read of them is an argument. Connectors, proxies and schema
  providers only drive external systems. Files that generators wrote (\<^verbatim>\<open>verbose_gen*\<close>, \<^verbatim>\<open>*_v2\<close>,
  \<^verbatim>\<open>*_expansion\<close>, \<^verbatim>\<open>*_full\<close>) are not used by the program. The directory of segments (\<^verbatim>\<open>log_manager.cpp\<close>),
  recovery, quotas (arithmetic on \<^verbatim>\<open>double\<close> averages) and the Raft managers beside \<^verbatim>\<open>RaftNode\<close>, which
  duplicate parts of it, are left out; of a segment the memory mapping, the move operations and \<^verbatim>\<open>info\<close>.
\<close>

section \<open>The managers and the coordinators together\<close>

lemma run_in_step:
  "tm_run b ops (new_topic_manager, new_partition_manager) = (tm, pm) \<Longrightarrow>
   hosted pm t p \<longleftrightarrow> 0 \<le> p \<and> p < partition_count tm t"
  using managers_run [OF managers_ok_new, of b ops] by (simp add: managers_ok_def in_step_def)

text \<open>
  Transactions only reach partitions that exist. With the leadership the partition manager reports,
  a request to add partitions that is accepted names only partitions of existing topics that this
  broker hosts and leads; a request that names any other partition is not accepted.
\<close>

theorem transaction_partitions_exist:
  assumes "tm_run b ops (new_topic_manager, new_partition_manager) = (tm, pm)"
    and "(topic, p) \<in> set ps" "\<not> (topic_exists tm topic \<and> 0 \<le> p \<and> p < partition_count tm topic \<and> pm_is_leader pm topic p)"
  shows "fst (add_partitions_to_txn (pm_is_leader pm) pid epoch ps t now c) \<noteq> outcome.Returned (Inr ())"
proof -
  have "pm_is_leader pm topic p \<Longrightarrow> hosted pm topic p"
    by (auto simp: pm_is_leader_def hosted_def replica_for_def split: option.splits)
  then have n: "\<not> pm_is_leader pm topic p"
    using assms(3) run_in_step [OF assms(1), of topic p]
    by (auto simp: topic_exists_def partition_count_def split: option.splits)
  have e: "\<not> fst (enrol (pm_is_leader pm) acc ps)" for acc
    using enrol_result [OF surjective_pairing] n assms(2) by fastforce
  then show ?thesis using assms(2)
    by (auto simp: add_partitions_to_txn_def resolve_def Let_def case_prod_unfold split: sum.splits option.splits if_splits)
qed

theorem transaction_partitions_exist_witness:
  "fst (add_partitions_to_txn (pm_is_leader (snd (tm_run demo_broker [TCreate demo_view 0 ''orders'' 2 1] demo_start)))
      1 0 [(''orders'', 1), (''orders'', 2)] 9 9 demo_coordinator) \<noteq> outcome.Returned (Inr ())"
proof -
  let ?s = "tm_run demo_broker [TCreate demo_view 0 ''orders'' 2 1] demo_start"
  have n: "\<not> (topic_exists (fst ?s) ''orders'' \<and> 0 \<le> (2::int) \<and> 2 < partition_count (fst ?s) ''orders'' \<and> pm_is_leader (snd ?s) ''orders'' 2)"
    by code_simp
  have "?s = (fst ?s, snd ?s)" by simp
  from transaction_partitions_exist [OF this _ n, of "[(''orders'', 1), (''orders'', 2)]"] show ?thesis by simp
qed

end
